(* ===== verification/Upse_Prelude.thy ===== *)
theory Upse_Prelude
  imports Main "HOL-Library.Word"
begin

text \<open>
  Prelude of the UPSE-NG development: the Rust integer types, the checked and
  saturating arithmetic of the standard library, the little-endian byte
  helpers, results as sums, and the two interface contracts that several
  devices share (time can be split into chunks without changing the outcome).

  Conventions. \<open>u8\<close>, \<open>u16\<close> and \<open>u32\<close> are words of that width: the code masks and
  shifts them. \<open>u64\<close>, \<open>u128\<close> and \<open>usize\<close> (64 bits) quantities are natural numbers,
  used only in operations whose overflow the source checks; the check is written
  out with the width. Signed \<open>i8\<close>, \<open>i16\<close>, \<open>i32\<close>, \<open>i64\<close> values are integers, saturated
  or range-checked where the source does it. A \<open>Result<T, E>\<close> is a value of
  \<open>'e + 't\<close> with \<open>Inl\<close> for \<open>Err\<close>; an operation on \<open>&mut self\<close> returns the new state
  beside its result, also when the result is an error. A Rust path
  \<open>Type::Variant\<close> or \<open>Type::method\<close> is written \<open>Type_Variant\<close>, \<open>Type_method\<close>.
\<close>

unbundle bit_operations_syntax

type_synonym u8 = "8 word"
type_synonym u16 = "16 word"
type_synonym u32 = "32 word"
type_synonym u64 = nat
type_synonym u128 = nat
type_synonym usize = nat
type_synonym i8 = int
type_synonym i16 = int
type_synonym i32 = int
type_synonym i64 = int

named_theorems upse_defs
named_theorems word_nat

section \<open>Results\<close>

definition ok_or :: "'a option \<Rightarrow> 'e \<Rightarrow> 'e + 'a" where
  "ok_or x e = (case x of None \<Rightarrow> Inl e | Some v \<Rightarrow> Inr v)"

definition map_err :: "('e \<Rightarrow> 'f) \<Rightarrow> 'e + 'a \<Rightarrow> 'f + 'a" where
  "map_err f r = (case r of Inl e \<Rightarrow> Inl (f e) | Inr v \<Rightarrow> Inr v)"

definition and_then :: "'e + 'a \<Rightarrow> ('a \<Rightarrow> 'e + 'b) \<Rightarrow> 'e + 'b" where
  "and_then r f = (case r of Inl e \<Rightarrow> Inl e | Inr v \<Rightarrow> f v)"

section \<open>Checked arithmetic on the wide unsigned types\<close>

text \<open>\<open>checked_add_n w\<close> is \<open>checked_add\<close> of the unsigned type of \<open>w\<close> bits.\<close>

definition checked_add_n :: "nat \<Rightarrow> nat \<Rightarrow> nat \<Rightarrow> nat option" where
  "checked_add_n w a b = (if a + b < 2 ^ w then Some (a + b) else None)"

definition checked_mul_n :: "nat \<Rightarrow> nat \<Rightarrow> nat \<Rightarrow> nat option" where
  "checked_mul_n w a b = (if a * b < 2 ^ w then Some (a * b) else None)"

definition checked_sub_n :: "nat \<Rightarrow> nat \<Rightarrow> nat option" where
  "checked_sub_n a b = (if b \<le> a then Some (a - b) else None)"

definition saturating_add_n :: "nat \<Rightarrow> nat \<Rightarrow> nat \<Rightarrow> nat" where
  "saturating_add_n w a b = min (a + b) (2 ^ w - 1)"

definition try_from_n :: "nat \<Rightarrow> nat \<Rightarrow> nat option" where
  "try_from_n w a = (if a < 2 ^ w then Some a else None)"

lemmas checked_n_defs = checked_add_n_def checked_mul_n_def checked_sub_n_def try_from_n_def

section \<open>Checked arithmetic on words\<close>

definition checked_add :: "'a::len word \<Rightarrow> 'a word \<Rightarrow> 'a word option" where
  "checked_add a b = (if unat a + unat b < 2 ^ LENGTH('a) then Some (a + b) else None)"

definition checked_sub :: "'a::len word \<Rightarrow> 'a word \<Rightarrow> 'a word option" where
  "checked_sub a b = (if b \<le> a then Some (a - b) else None)"

lemma checked_add_SomeD:
  "checked_add a b = Some c \<Longrightarrow> unat c = unat a + unat b"
  for a b c :: "'a::len word"
  by (auto simp: checked_add_def unat_word_ariths split: if_splits)

lemma checked_add_None_iff:
  "checked_add a b = None \<longleftrightarrow> 2 ^ LENGTH('a) \<le> unat a + unat b"
  for a b :: "'a::len word"
  by (auto simp: checked_add_def)

lemma checked_sub_SomeD:
  "checked_sub a b = Some c \<Longrightarrow> unat b \<le> unat a \<and> unat c = unat a - unat b"
  for a b c :: "'a::len word"
  by (auto simp: checked_sub_def unat_sub word_le_nat_alt split: if_splits)

lemma checked_sub_None_iff:
  "checked_sub a b = None \<longleftrightarrow> unat a < unat b"
  for a b :: "'a::len word"
  by (auto simp: checked_sub_def word_le_nat_alt)

section \<open>Signed ranges\<close>

definition in_signed :: "nat \<Rightarrow> int \<Rightarrow> bool" where
  "in_signed w x \<longleftrightarrow> - (2 ^ (w - 1)) \<le> x \<and> x < 2 ^ (w - 1)"

definition saturate :: "nat \<Rightarrow> int \<Rightarrow> int" where
  "saturate w x = max (- (2 ^ (w - 1))) (min (2 ^ (w - 1) - 1) x)"

lemma saturate_in_signed: "in_signed w (saturate w x)"
  by (simp add: in_signed_def saturate_def max_def min_def)

lemma saturate_id: "in_signed w x \<Longrightarrow> saturate w x = x"
  by (simp add: in_signed_def saturate_def)

section \<open>Little-endian bytes\<close>

definition byte_of :: "nat \<Rightarrow> 'a::len word \<Rightarrow> u8" where
  "byte_of i w = ucast (drop_bit (8 * i) w)"

definition u32_from_le_bytes :: "u8 \<Rightarrow> u8 \<Rightarrow> u8 \<Rightarrow> u8 \<Rightarrow> u32" where
  "u32_from_le_bytes a b c d =
     ucast a OR push_bit 8 (ucast b) OR push_bit 16 (ucast c) OR push_bit 24 (ucast d)"

definition u16_from_le_bytes :: "u8 \<Rightarrow> u8 \<Rightarrow> u16" where
  "u16_from_le_bytes a b = ucast a OR push_bit 8 (ucast b)"

lemma u32_le_roundtrip:
  "u32_from_le_bytes (byte_of 0 w) (byte_of 1 w) (byte_of 2 w) (byte_of 3 w) = w"
proof (rule bit_word_eqI)
  fix n :: nat
  assume n: "n < LENGTH(32)"
  consider "n < 8" | "8 \<le> n" "n < 16" | "16 \<le> n" "n < 24" | "24 \<le> n" by linarith
  then show "bit (u32_from_le_bytes (byte_of 0 w) (byte_of 1 w) (byte_of 2 w) (byte_of 3 w)) n
      = bit w n"
    using n by cases (auto simp: u32_from_le_bytes_def byte_of_def bit_simps)
qed

lemma u16_low_half:
  "u16_from_le_bytes (byte_of 0 w) (byte_of 1 w) = ucast w" for w :: u32
  by (rule bit_word_eqI) (auto simp: u16_from_le_bytes_def byte_of_def bit_simps)

section \<open>Single bits\<close>

lemma bit_push_one: "bit (push_bit k 1 :: 'a::len word) n \<longleftrightarrow> n = k \<and> k < LENGTH('a)"
  by (auto simp: bit_simps)

lemma and_push_one: "w AND push_bit k 1 = 0 \<longleftrightarrow> \<not> bit w k" if "k < LENGTH('a)"
  for w :: "'a::len word"
proof
  assume "w AND push_bit k 1 = 0"
  then have "\<not> bit (w AND push_bit k 1) k" by (simp only: bit_0_eq bot_apply bot_bool_def) simp
  then show "\<not> bit w k" using that by (simp only: bit_and_iff bit_push_one) simp
next
  assume "\<not> bit w k"
  then show "w AND push_bit k 1 = 0"
    by (intro bit_word_eqI) (auto simp only: bit_and_iff bit_push_one bit_0_eq bot_apply bot_bool_def)
qed

section \<open>Alignment masks\<close>

text \<open>\<open>x & !(a - 1)\<close> for a power of two \<open>a\<close> rounds down to a multiple of \<open>a\<close>.\<close>

lemma word_and_not_mask:
  fixes x :: "'a::len word"
  assumes "k < LENGTH('a)"
  shows "unat (x AND NOT (2 ^ k - 1)) = unat x div 2 ^ k * 2 ^ k"
proof -
  have "x AND NOT (2 ^ k - 1) = push_bit k (drop_bit k x)"
    by (rule bit_word_eqI) (auto simp: bit_simps simp flip: mask_eq_exp_minus_1)
  also have "unat (push_bit k (drop_bit k x)) = unat x div 2 ^ k * 2 ^ k"
  proof -
    have "unat x div 2 ^ k * 2 ^ k < 2 ^ LENGTH('a)"
      using div_times_less_eq_dividend [of "unat x" "2 ^ k"] unsigned_less [of x]
      by (rule order_le_less_trans)
    moreover have "unat (push_bit k (drop_bit k x)) =
        take_bit LENGTH('a) (push_bit k (drop_bit k (unat x)))"
      by (simp add: unsigned_push_bit_eq unsigned_drop_bit_eq take_bit_nat_eq_self)
    ultimately show ?thesis
      by (simp only: take_bit_eq_mod push_bit_eq_mult drop_bit_eq_div mod_less)
  qed
  finally show ?thesis .
qed

section \<open>Shifts and masks as arithmetic\<close>

lemma unat_drop_bit: "unat (drop_bit k w) = unat w div 2 ^ k" for w :: "'a::len word"
proof -
  have "take_bit LENGTH('a) (unat w) = unat w"
    using unsigned_less [of w, where ?'a = nat] by (intro take_bit_nat_eq_self)
  then have "unat (drop_bit k w) = drop_bit k (unat w)" by (simp only: unsigned_drop_bit_eq)
  then show ?thesis by (simp only: drop_bit_eq_div)
qed

lemma unat_and_mask: "unat (w AND mask k) = unat w mod 2 ^ k" for w :: "'a::len word"
proof -
  have "unat (take_bit k w) = take_bit k (unat w)"
    by (cases "k \<le> LENGTH('a)") (simp_all add: unsigned_take_bit_eq)
  then show ?thesis by (simp only: take_bit_eq_mask [symmetric] take_bit_eq_mod)
qed

lemma unat_of_nat_small: "n < 2 ^ LENGTH('a) \<Longrightarrow> unat (of_nat n :: 'a::len word) = n"
  by (simp add: unsigned_of_nat take_bit_nat_eq_self)

lemma u32_bound: "unat (w :: u32) < 4294967296"
proof -
  have "unat w < 2 ^ LENGTH(32)" by (rule unsigned_less)
  then show ?thesis by simp
qed

section \<open>Searching a slice\<close>

text \<open>\<open>Iterator::position\<close>: the index of the first element with a property.\<close>

fun position :: "('a \<Rightarrow> bool) \<Rightarrow> 'a list \<Rightarrow> nat option" where
  "position P [] = None"
| "position P (x # xs) = (if P x then Some 0 else map_option Suc (position P xs))"

lemma position_None_iff: "position P xs = None \<longleftrightarrow> (\<forall>x\<in>set xs. \<not> P x)"
  by (induction xs) auto

lemma position_SomeD:
  "position P xs = Some i \<Longrightarrow> i < length xs \<and> P (xs ! i) \<and> (\<forall>j<i. \<not> P (xs ! j))"
proof (induction xs arbitrary: i)
  case Nil
  then show ?case by simp
next
  case (Cons x xs)
  then show ?case
    by (auto split: if_splits) (metis less_Suc_eq_0_disj nth_Cons_0 nth_Cons_Suc)
qed

lemma find_SomeD: "find P xs = Some x \<Longrightarrow> x \<in> set xs \<and> P x"
  by (induction xs) (auto split: if_splits)

text \<open>\<open>Iterator::min_by_key\<close> returns the first of several minima.\<close>

fun min_by_key :: "('a \<Rightarrow> 'k::linorder) \<Rightarrow> 'a list \<Rightarrow> 'a option" where
  "min_by_key f [] = None"
| "min_by_key f (x # xs) =
     (case min_by_key f xs of
        None \<Rightarrow> Some x
      | Some y \<Rightarrow> Some (if f x \<le> f y then x else y))"

lemma min_by_key_None_iff: "min_by_key f xs = None \<longleftrightarrow> xs = []"
  by (cases xs) (simp_all split: option.splits)

lemma min_by_key_Some:
  "min_by_key f xs = Some y \<Longrightarrow> y \<in> set xs \<and> (\<forall>x\<in>set xs. f y \<le> f x)"
proof (induction xs arbitrary: y)
  case (Cons x xs)
  then show ?case
    by (auto simp: min_by_key_None_iff split: option.splits if_splits)
qed simp

section \<open>Powers of two\<close>

text \<open>\<open>u32::is_power_of_two\<close>: exactly one bit is set.\<close>

lemma unat_two_power: "k < LENGTH('a) \<Longrightarrow> unat (2 ^ k :: 'a::len word) = 2 ^ k"
proof -
  assume "k < LENGTH('a)"
  then have "unat (push_bit k 1 :: 'a word) = 2 ^ k"
    unfolding unsigned_push_bit_eq by (simp add: push_bit_eq_mult take_bit_nat_eq_self)
  then show ?thesis by (simp add: push_bit_eq_mult)
qed

definition is_power_of_two :: "'a::len word \<Rightarrow> bool" where
  "is_power_of_two w = list_ex (\<lambda>k. w = push_bit k 1) [0..<LENGTH('a)]"

lemma is_power_of_twoE:
  fixes w :: "'a::len word"
  assumes "is_power_of_two w"
  obtains k where "k < LENGTH('a)" and "w = 2 ^ k" and "unat w = 2 ^ k"
proof -
  from assms obtain k where "k < LENGTH('a)" and "w = push_bit k 1"
    by (auto simp: is_power_of_two_def list_ex_iff)
  then show ?thesis using that by (simp add: push_bit_eq_mult unat_two_power)
qed

section \<open>Time in chunks\<close>

text \<open>
  A device that is advanced by a number of clocks must not notice how the caller
  splits the interval. The contract has two forms: a total device whose only
  result is its state, and a device that also meters an output and may fail on
  overflow of the 64-bit counters.
\<close>

locale chunked =
  fixes adv :: "nat \<Rightarrow> 's \<Rightarrow> 's"
  assumes adv_zero: "adv 0 s = s"
    and adv_add: "adv (a + b) s = adv b (adv a s)"
begin

lemma fold_chunks: "fold adv ns s = adv (sum_list ns) s"
  by (induction ns arbitrary: s) (simp_all add: adv_zero adv_add)

lemma chunks_agree: "sum_list ns = sum_list ms \<Longrightarrow> fold adv ns s = fold adv ms s"
  by (simp add: fold_chunks)

end

fun meter_run :: "(nat \<Rightarrow> 's \<Rightarrow> (nat \<times> 's) option) \<Rightarrow> nat list \<Rightarrow> 's \<Rightarrow> (nat list \<times> 's) option" where
  "meter_run adv [] s = Some ([], s)"
| "meter_run adv (n # ns) s =
     (case adv n s of
        None \<Rightarrow> None
      | Some (x, s') \<Rightarrow> map_option (\<lambda>(xs, t). (x # xs, t)) (meter_run adv ns s'))"

locale metered =
  fixes adv :: "nat \<Rightarrow> 's \<Rightarrow> (nat \<times> 's) option"
    and invar :: "'s \<Rightarrow> bool"
  assumes meter_zero: "invar s \<Longrightarrow> adv 0 s = Some (0, s)"
    and meter_invar: "invar s \<Longrightarrow> adv a s = Some (x, s') \<Longrightarrow> invar s'"
    and meter_add: "invar s \<Longrightarrow> adv a s = Some (x, s') \<Longrightarrow> adv b s' = Some (y, s'') \<Longrightarrow>
      a + b < 2 ^ 64 \<Longrightarrow> x + y < 2 ^ 64 \<Longrightarrow> adv (a + b) s = Some (x + y, s'')"
begin

lemma run_invar:
  "invar s \<Longrightarrow> meter_run adv ns s = Some (xs, s') \<Longrightarrow> invar s'"
proof (induction ns arbitrary: s xs)
  case Nil
  then show ?case by simp
next
  case (Cons n ns)
  then show ?case by (auto split: option.splits dest: meter_invar)
qed

lemma run_total:
  assumes "invar s" and "meter_run adv ns s = Some (xs, s')"
    and "sum_list ns < 2 ^ 64" and "sum_list xs < 2 ^ 64"
  shows "adv (sum_list ns) s = Some (sum_list xs, s')"
  using assms
proof (induction ns arbitrary: s xs)
  case Nil
  then show ?case by (simp add: meter_zero)
next
  case (Cons n ns)
  from Cons.prems(2) obtain x t ys where n: "adv n s = Some (x, t)"
    and run: "meter_run adv ns t = Some (ys, s')" and xs: "xs = x # ys"
    by (auto split: option.splits)
  have "adv (sum_list ns) t = Some (sum_list ys, s')"
    using Cons.IH [OF meter_invar [OF Cons.prems(1) n] run] Cons.prems(3,4) xs by simp
  with Cons.prems xs n show ?case
    using meter_add [OF Cons.prems(1) n] by simp
qed

end

end
