(* ===== verification/Rust_Text.thy ===== *)
theory Rust_Text
  imports Upse_Prelude
begin

text \<open>
  Text of the standard library. A \<open>String\<close> is the HOL string of its UTF-8 bytes and a
  \<open>&[u8]\<close> a list of bytes; the section gives the conversions and the few string
  methods the file formats use.
\<close>

section \<open>Bytes and strings\<close>

definition byte_of_char :: "char \<Rightarrow> u8" where
  "byte_of_char c = of_nat (of_char c)"

definition char_of_byte :: "u8 \<Rightarrow> char" where
  "char_of_byte b = char_of (unat b)"

definition bytes_of_str :: "string \<Rightarrow> u8 list" where
  "bytes_of_str s = map byte_of_char s"

definition str_of_bytes :: "u8 list \<Rightarrow> string" where
  "str_of_bytes bs = map char_of_byte bs"

lemma u8_bound: "unat (b :: u8) < 256"
proof -
  have "unat b < 2 ^ LENGTH(8)" by (rule unsigned_less)
  then show ?thesis by simp
qed

lemma byte_of_char_of_byte [simp]: "byte_of_char (char_of_byte b) = b"
  using u8_bound [of b] by (simp add: byte_of_char_def char_of_byte_def)

lemma char_of_byte_of_char [simp]: "char_of_byte (byte_of_char c) = c"
proof -
  have "of_char c < (256 :: nat)" by (rule nat_of_char_less_256)
  then show ?thesis by (simp add: byte_of_char_def char_of_byte_def unat_of_nat_small)
qed

lemma str_roundtrip [simp]: "str_of_bytes (bytes_of_str s) = s"
  "bytes_of_str (str_of_bytes bs) = bs"
  by (simp_all add: str_of_bytes_def bytes_of_str_def comp_def)

lemma bytes_of_str_append [simp]: "bytes_of_str (s @ t) = bytes_of_str s @ bytes_of_str t"
  by (simp add: bytes_of_str_def)

lemma bytes_of_str_inj: "bytes_of_str s = bytes_of_str t \<longleftrightarrow> s = t"
  by (metis str_roundtrip(1))

section \<open>ASCII\<close>

definition is_ascii :: "u8 \<Rightarrow> bool" where
  "is_ascii b = (b < 0x80)"

definition is_ascii_alphabetic :: "u8 \<Rightarrow> bool" where
  "is_ascii_alphabetic b = (0x41 \<le> b \<and> b \<le> 0x5A \<or> 0x61 \<le> b \<and> b \<le> 0x7A)"

definition is_ascii_digit :: "u8 \<Rightarrow> bool" where
  "is_ascii_digit b = (0x30 \<le> b \<and> b \<le> 0x39)"

definition is_ascii_alphanumeric :: "u8 \<Rightarrow> bool" where
  "is_ascii_alphanumeric b = (is_ascii_alphabetic b \<or> is_ascii_digit b)"

definition to_ascii_lowercase :: "u8 \<Rightarrow> u8" where
  "to_ascii_lowercase b = (if 0x41 \<le> b \<and> b \<le> 0x5A then b + 0x20 else b)"

definition eq_ignore_ascii_case :: "string \<Rightarrow> string \<Rightarrow> bool" where
  "eq_ignore_ascii_case s t \<longleftrightarrow>
     map to_ascii_lowercase (bytes_of_str s) = map to_ascii_lowercase (bytes_of_str t)"

lemma eq_ignore_ascii_case_code [code]:
  "eq_ignore_ascii_case s t \<longleftrightarrow> length s = length t \<and>
     (s = t \<or> map to_ascii_lowercase (bytes_of_str s) = map to_ascii_lowercase (bytes_of_str t))"
  unfolding eq_ignore_ascii_case_def by (metis length_map bytes_of_str_def)

lemma eq_ignore_ascii_case_refl [simp]: "eq_ignore_ascii_case s s"
  by (simp add: eq_ignore_ascii_case_def)

section \<open>Splitting\<close>

text \<open>\<open>slice::split\<close>: the runs between the elements with the property, one more than there are.\<close>

fun split_on :: "('a \<Rightarrow> bool) \<Rightarrow> 'a list \<Rightarrow> 'a list list" where
  "split_on P [] = [[]]"
| "split_on P (x # xs) =
     (if P x then [] # split_on P xs
      else case split_on P xs of [] \<Rightarrow> [[x]] | piece # pieces \<Rightarrow> (x # piece) # pieces)"

lemma split_on_not_Nil [simp]: "split_on P xs \<noteq> []"
  by (induction xs) (auto split: list.split)

lemma split_on_none: "\<forall>x\<in>set xs. \<not> P x \<Longrightarrow> split_on P xs = [xs]"
  by (induction xs) auto

lemma split_on_append:
  "\<forall>x\<in>set xs. \<not> P x \<Longrightarrow> P y \<Longrightarrow> split_on P (xs @ y # ys) = xs # split_on P ys"
  by (induction xs) auto

text \<open>\<open>split_once\<close> at the first element with the property.\<close>

definition split_once :: "('a \<Rightarrow> bool) \<Rightarrow> 'a list \<Rightarrow> ('a list \<times> 'a list) option" where
  "split_once P xs =
     map_option (\<lambda>i. (take i xs, drop (Suc i) xs)) (position P xs)"

lemma position_append: "\<forall>x\<in>set xs. \<not> P x \<Longrightarrow> P y \<Longrightarrow> position P (xs @ y # ys) = Some (length xs)"
  by (induction xs) auto

lemma split_once_None: "split_once P xs = None \<longleftrightarrow> (\<forall>x\<in>set xs. \<not> P x)"
  by (simp add: split_once_def position_None_iff)

lemma split_once_append:
  "\<forall>x\<in>set a. \<not> P x \<Longrightarrow> P y \<Longrightarrow> split_once P (a @ y # b) = Some (a, b)"
  by (simp add: split_once_def position_append)

lemma split_once_SomeD:
  assumes "split_once P xs = Some (a, b)"
  obtains y where "xs = a @ y # b" and "P y" and "\<forall>x\<in>set a. \<not> P x"
proof -
  obtain i where i: "position P xs = Some i" and a: "a = take i xs" and b: "b = drop (Suc i) xs"
    using assms by (auto simp: split_once_def)
  note at = position_SomeD [OF i]
  show thesis
  proof (rule that [of "xs ! i"])
    show "xs = a @ xs ! i # b" using at by (simp add: a b Cons_nth_drop_Suc)
    show "\<forall>x\<in>set a. \<not> P x" using at by (auto simp: a in_set_conv_nth)
  qed (use at in simp)
qed

section \<open>UTF-8\<close>

text \<open>
  \<open>String::from_utf8_lossy\<close>: every maximal prefix of a malformed sequence becomes
  U+FFFD. \<open>utf8_chunk\<close> is the length of the sequence at the front of a non-empty slice and
  whether it is well formed; a byte past the end reads as zero.
\<close>

definition utf8_cont :: "u8 \<Rightarrow> bool" where
  "utf8_cont b = (0x80 \<le> b \<and> b \<le> 0xBF)"

definition utf8_width :: "u8 \<Rightarrow> nat" where
  "utf8_width b = (if b < 0x80 then 1 else if 0xC2 \<le> b \<and> b \<le> 0xDF then 2
     else if 0xE0 \<le> b \<and> b \<le> 0xEF then 3 else if 0xF0 \<le> b \<and> b \<le> 0xF4 then 4 else 0)"

definition utf8_second :: "u8 \<Rightarrow> u8 \<Rightarrow> bool" where
  "utf8_second first b =
     (if first = 0xE0 then 0xA0 \<le> b \<and> b \<le> 0xBF
      else if first = 0xED then 0x80 \<le> b \<and> b \<le> 0x9F
      else if first = 0xF0 then 0x90 \<le> b \<and> b \<le> 0xBF
      else if first = 0xF4 then 0x80 \<le> b \<and> b \<le> 0x8F
      else utf8_cont b)"

definition utf8_at :: "u8 list \<Rightarrow> nat \<Rightarrow> u8" where
  "utf8_at bs i = (if i < length bs then bs ! i else 0)"

definition utf8_chunk :: "u8 list \<Rightarrow> nat \<times> bool" where
  "utf8_chunk bs =
     (let first = utf8_at bs 0; width = utf8_width first in
      if width = 1 then (1, True)
      else if width = 0 \<or> \<not> utf8_second first (utf8_at bs 1) then (1, False)
      else if width = 2 then (2, True)
      else if \<not> utf8_cont (utf8_at bs 2) then (2, False)
      else if width = 3 then (3, True)
      else if \<not> utf8_cont (utf8_at bs 3) then (3, False)
      else (4, True))"

lemma utf8_chunk_pos: "0 < fst (utf8_chunk bs)"
  by (simp add: utf8_chunk_def Let_def)

function utf8_lossy :: "u8 list \<Rightarrow> u8 list" where
  "utf8_lossy bs =
     (if bs = [] then []
      else let (n, ok) = utf8_chunk bs in
        (if ok then take n bs else [0xEF, 0xBF, 0xBD]) @ utf8_lossy (drop n bs))"
  by pat_completeness auto
termination
proof (relation "measure length")
  fix bs n ok and p :: "nat \<times> bool"
  assume "bs \<noteq> []" and "p = utf8_chunk bs" and "(n, ok) = p"
  then have "0 < n" using utf8_chunk_pos [of bs] by (metis fst_conv)
  then show "(drop n bs, bs) \<in> measure length" using \<open>bs \<noteq> []\<close> by simp
qed simp

declare utf8_lossy.simps [simp del]

lemma utf8_lossy_ascii: "\<forall>b\<in>set bs. is_ascii b \<Longrightarrow> utf8_lossy bs = bs"
proof (induction bs)
  case (Cons b bs)
  then have "utf8_chunk (b # bs) = (1, True)"
    by (simp add: utf8_chunk_def utf8_at_def utf8_width_def is_ascii_def)
  then show ?case using Cons by (simp add: utf8_lossy.simps [of "b # bs"])
qed (simp add: utf8_lossy.simps)

definition String_from_utf8_lossy :: "u8 list \<Rightarrow> string" where
  "String_from_utf8_lossy bs = str_of_bytes (utf8_lossy bs)"

lemma from_utf8_lossy_ascii:
  "\<forall>b\<in>set bs. is_ascii b \<Longrightarrow> String_from_utf8_lossy bs = str_of_bytes bs"
  by (simp add: String_from_utf8_lossy_def utf8_lossy_ascii)

end
