(* ===== verification/Psf_Container.thy ===== *)
theory Psf_Container
  imports Rust_Text
begin

text \<open>
  The PSF container (\<open>crates/formats/shared/psf/src/container.rs\<close>), its tags
  (\<open>tags.rs\<close>) and the builder of well-formed containers (\<open>fixture.rs\<close>). CRC-32 and zlib are
  crates outside the repository: \<open>hash\<close>, a decoder and an encoder are parameters.
\<close>

section \<open>Data\<close>

definition HEADER_SIZE :: usize where "HEADER_SIZE = 16"
definition TAG_MARKER :: "u8 list" where "TAG_MARKER = bytes_of_str ''[TAG]''"
definition PSF1_MAX_PROGRAM :: usize where "PSF1_MAX_PROGRAM = 2033664"

datatype ParseErrorKind =
    ParseErrorKind_Truncated
  | ParseErrorKind_InvalidSignature
  | ParseErrorKind_UnsupportedVersion u8
  | ParseErrorKind_OffsetOverflow
  | ParseErrorKind_LimitExceeded string
  | ParseErrorKind_CrcMismatch u32 u32
  | ParseErrorKind_InvalidZlib string
  | ParseErrorKind_InvalidTagMarker
  | ParseErrorKind_TagNull
  | ParseErrorKind_MalformedTagLine
  | ParseErrorKind_InvalidTagKey

datatype ParseStage =
    ParseStage_Header
  | ParseStage_Reserved
  | ParseStage_CompressedProgram
  | ParseStage_Decompression
  | ParseStage_Tags

record ParseError =
  pe_origin :: string
  pe_stage :: ParseStage
  pe_offset :: usize
  pe_kind :: ParseErrorKind

definition ParseError_new :: "string \<Rightarrow> ParseStage \<Rightarrow> usize \<Rightarrow> ParseErrorKind \<Rightarrow> ParseError" where
  "ParseError_new origin stage offset kind =
     \<lparr>pe_origin = origin, pe_stage = stage, pe_offset = offset, pe_kind = kind\<rparr>"

datatype PsfVersion = PsfVersion_Psf1 | PsfVersion_Psf2

definition PsfVersion_from_byte :: "u8 \<Rightarrow> ParseErrorKind + PsfVersion" where
  "PsfVersion_from_byte value =
     (if value = 1 then Inr PsfVersion_Psf1 else if value = 2 then Inr PsfVersion_Psf2
      else Inl (ParseErrorKind_UnsupportedVersion value))"

definition PsfVersion_byte :: "PsfVersion \<Rightarrow> u8" where
  "PsfVersion_byte self = (case self of PsfVersion_Psf1 \<Rightarrow> 1 | PsfVersion_Psf2 \<Rightarrow> 2)"

record ByteRange =
  br_start :: usize
  br_end :: usize

definition ByteRange_len :: "ByteRange \<Rightarrow> usize" where
  "ByteRange_len self = br_end self - br_start self"

definition ByteRange_is_empty :: "ByteRange \<Rightarrow> bool" where
  "ByteRange_is_empty self = (br_start self = br_end self)"

record ParseLimits =
  max_input_bytes :: usize
  max_reserved_bytes :: usize
  max_decompressed_bytes :: usize
  max_tag_bytes :: usize

definition ParseLimits_default :: ParseLimits where
  "ParseLimits_default = \<lparr>max_input_bytes = 64 * 1024 * 1024,
     max_reserved_bytes = 32 * 1024 * 1024, max_decompressed_bytes = 16 * 1024 * 1024,
     max_tag_bytes = 50000\<rparr>"

record Tag =
  tag_key_raw :: "u8 list"
  tag_value_raw :: "u8 list"
  tag_key :: string
  tag_value :: string

type_synonym Tags = "Tag list"

record PsfContainer =
  psf_version :: PsfVersion
  psf_reserved :: "u8 list"
  psf_compressed_program :: "u8 list"
  psf_program :: "u8 list"
  psf_tags :: Tags
  psf_reserved_range :: ByteRange
  psf_compressed_range :: ByteRange
  psf_tag_range :: "ByteRange option"

section \<open>Tags\<close>

definition tag_space :: "u8 \<Rightarrow> bool" where
  "tag_space b = (1 \<le> b \<and> b \<le> 0x20)"

definition trim_whitespace :: "u8 list \<Rightarrow> u8 list" where
  "trim_whitespace value = rev (dropWhile tag_space (rev (dropWhile tag_space value)))"

definition valid_identifier :: "u8 list \<Rightarrow> bool" where
  "valid_identifier value = (case value of
     [] \<Rightarrow> False
   | first # rest \<Rightarrow> (is_ascii_alphabetic first \<or> first = byte_of_char CHR ''_'') \<and>
       list_all (\<lambda>byte. is_ascii_alphanumeric byte \<or> byte = byte_of_char CHR ''_'') rest)"

text \<open>A line joins the tag before it when the keys agree, and is a new tag otherwise.\<close>

definition push_tag :: "u8 list \<Rightarrow> u8 list \<Rightarrow> Tag list \<Rightarrow> Tag list" where
  "push_tag key value entries =
     (let key_string = String_from_utf8_lossy key in
      if entries \<noteq> [] \<and> eq_ignore_ascii_case (tag_key (last entries)) key_string
      then
        let value_raw = tag_value_raw (last entries) @ [10] @ value in
        butlast entries @ [(last entries)\<lparr>tag_value_raw := value_raw,
          tag_value := String_from_utf8_lossy value_raw\<rparr>]
      else entries @ [\<lparr>tag_key_raw = key, tag_value_raw = value, tag_key = key_string,
          tag_value = String_from_utf8_lossy value\<rparr>])"

fun tag_lines ::
    "string \<Rightarrow> usize \<Rightarrow> u8 list list \<Rightarrow> usize \<Rightarrow> Tag list \<Rightarrow> ParseError + Tag list" where
  "tag_lines origin base [] line_start entries = Inr entries"
| "tag_lines origin base (line # lines) line_start entries =
     (let trimmed = trim_whitespace line;
          next = saturating_add_n 64 line_start (length line + 1) in
      if trimmed = [] then tag_lines origin base lines next entries
      else case position (\<lambda>byte. byte = byte_of_char CHR ''='') trimmed of
        None \<Rightarrow> Inl (ParseError_new origin ParseStage_Tags (base + line_start)
          ParseErrorKind_MalformedTagLine)
      | Some equals \<Rightarrow>
          let key = trim_whitespace (take equals trimmed);
              value = trim_whitespace (drop (equals + 1) trimmed) in
          if \<not> valid_identifier key
          then Inl (ParseError_new origin ParseStage_Tags (base + line_start)
            ParseErrorKind_InvalidTagKey)
          else tag_lines origin base lines next (push_tag key value entries))"

definition Tags_parse :: "string \<Rightarrow> u8 list \<Rightarrow> usize \<Rightarrow> ParseError + Tags" where
  "Tags_parse origin raw base =
     (case position (\<lambda>byte. byte = 0) raw of
        Some p \<Rightarrow> Inl (ParseError_new origin ParseStage_Tags (base + p) ParseErrorKind_TagNull)
      | None \<Rightarrow> tag_lines origin base (split_on (\<lambda>byte. byte = 10) raw) 0 [])"

definition Tags_get :: "Tags \<Rightarrow> string \<Rightarrow> string option" where
  "Tags_get self key = map_option tag_value
     (find (\<lambda>entry. eq_ignore_ascii_case (tag_key entry) key) self)"

definition Tags_contains_key :: "Tags \<Rightarrow> string \<Rightarrow> bool" where
  "Tags_contains_key self key = (Tags_get self key \<noteq> None)"

section \<open>Decompression\<close>

text \<open>
  A zlib decoder as a reader: \<open>zlib_read\<close> returns at most 8192 further bytes, none at the
  end of the stream, and \<open>zlib_total_in\<close> counts the input it has used.
\<close>

record 'z Zlib =
  zlib_new :: "u8 list \<Rightarrow> 'z"
  zlib_read :: "'z \<Rightarrow> (string + u8 list) \<times> 'z"
  zlib_total_in :: "'z \<Rightarrow> u64"

definition decompress_fail :: "string \<Rightarrow> usize \<Rightarrow> ParseErrorKind \<Rightarrow> ParseError" where
  "decompress_fail origin offset kind = ParseError_new origin ParseStage_Decompression offset kind"

lemma decompress_decreases:
  "bs \<noteq> [] \<Longrightarrow> \<not> limit < n + length bs \<Longrightarrow> Suc limit - (n + length bs) < Suc limit - n"
  by (cases bs) auto

function decompress_loop ::
    "'z Zlib \<Rightarrow> string \<Rightarrow> usize \<Rightarrow> usize \<Rightarrow> 'z \<Rightarrow> u8 list \<Rightarrow> ParseError + (u8 list \<times> 'z)" where
  "decompress_loop z origin offset limit decoder output =
     (case zlib_read z decoder of
        (Inl message, _) \<Rightarrow> Inl (decompress_fail origin offset (ParseErrorKind_InvalidZlib message))
      | (Inr bytes, decoder) \<Rightarrow>
          if bytes = [] then Inr (output, decoder)
          else if limit < length output + length bytes
          then Inl (decompress_fail origin offset
            (ParseErrorKind_LimitExceeded ''decompressed program bytes''))
          else decompress_loop z origin offset limit decoder (output @ bytes))"
  by pat_completeness auto
termination
  by (relation "measure (\<lambda>(_, _, _, limit, _, output). Suc limit - length output)")
    (auto intro: decompress_decreases)

declare decompress_loop.simps [simp del]

definition decompress ::
    "'z Zlib \<Rightarrow> string \<Rightarrow> u8 list \<Rightarrow> usize \<Rightarrow> usize \<Rightarrow> ParseError + u8 list" where
  "decompress z origin compressed offset limit =
     (if compressed = [] then Inr []
      else and_then (decompress_loop z origin offset limit (zlib_new z compressed) [])
        (\<lambda>(output, decoder).
          if zlib_total_in z decoder \<noteq> length compressed
          then Inl (decompress_fail origin (offset + zlib_total_in z decoder)
            (ParseErrorKind_InvalidZlib ''trailing compressed data''))
          else Inr output))"

section \<open>The container\<close>

definition read_u32 :: "u8 list \<Rightarrow> usize \<Rightarrow> u32" where
  "read_u32 input offset = u32_from_le_bytes (input ! offset) (input ! (offset + 1))
     (input ! (offset + 2)) (input ! (offset + 3))"

text \<open>The bytes \<open>input[a..b]\<close>.\<close>

definition slice :: "'a list \<Rightarrow> usize \<Rightarrow> usize \<Rightarrow> 'a list" where
  "slice input a b = take (b - a) (drop a input)"

text \<open>What follows the compressed program.\<close>

definition parse_tags ::
    "string \<Rightarrow> u8 list \<Rightarrow> ParseLimits \<Rightarrow> usize \<Rightarrow> ParseError + (Tags \<times> ByteRange option)" where
  "parse_tags origin input limits program_end =
     (if program_end = length input then Inr ([], None)
      else case checked_add_n 64 program_end (length TAG_MARKER) of
        None \<Rightarrow> Inl (ParseError_new origin ParseStage_Tags program_end ParseErrorKind_OffsetOverflow)
      | Some marker_end \<Rightarrow>
          if length input < marker_end \<or> slice input program_end marker_end \<noteq> TAG_MARKER
          then Inl (ParseError_new origin ParseStage_Tags program_end ParseErrorKind_InvalidTagMarker)
          else
            let raw = drop marker_end input in
            if max_tag_bytes limits < length raw
            then Inl (ParseError_new origin ParseStage_Tags marker_end
              (ParseErrorKind_LimitExceeded ''tag bytes''))
            else and_then (Tags_parse origin raw marker_end)
              (\<lambda>tags. Inr (tags, Some \<lparr>br_start = marker_end, br_end = length input\<rparr>)))"

definition effective_program_limit :: "PsfVersion \<Rightarrow> ParseLimits \<Rightarrow> usize" where
  "effective_program_limit version limits =
     (if version = PsfVersion_Psf1 then min (max_decompressed_bytes limits) PSF1_MAX_PROGRAM
      else max_decompressed_bytes limits)"

text \<open>The sections behind a valid header, from the lengths it declares.\<close>

definition parse_sections ::
    "'z Zlib \<Rightarrow> (u8 list \<Rightarrow> u32) \<Rightarrow> string \<Rightarrow> u8 list \<Rightarrow> ParseLimits \<Rightarrow> PsfVersion \<Rightarrow> usize \<Rightarrow> usize \<Rightarrow>
       ParseError + PsfContainer" where
  "parse_sections z hash origin input limits version reserved_end program_end =
     (let reserved_range = \<lparr>br_start = HEADER_SIZE, br_end = reserved_end\<rparr>;
          compressed_range = \<lparr>br_start = reserved_end, br_end = program_end\<rparr>;
          compressed = slice input reserved_end program_end;
          expected_crc = read_u32 input 12;
          actual_crc = hash compressed in
      if actual_crc \<noteq> expected_crc
      then Inl (ParseError_new origin ParseStage_CompressedProgram reserved_end
        (ParseErrorKind_CrcMismatch expected_crc actual_crc))
      else and_then (decompress z origin compressed reserved_end
          (effective_program_limit version limits))
        (\<lambda>program. and_then (parse_tags origin input limits program_end)
        (\<lambda>(tags, tag_range). Inr \<lparr>psf_version = version,
           psf_reserved = slice input HEADER_SIZE reserved_end,
           psf_compressed_program = compressed, psf_program = program, psf_tags = tags,
           psf_reserved_range = reserved_range, psf_compressed_range = compressed_range,
           psf_tag_range = tag_range\<rparr>)))"

definition PsfContainer_parse_with_limits ::
    "'z Zlib \<Rightarrow> (u8 list \<Rightarrow> u32) \<Rightarrow> string \<Rightarrow> u8 list \<Rightarrow> ParseLimits \<Rightarrow> ParseError + PsfContainer" where
  "PsfContainer_parse_with_limits z hash origin input limits =
     (if max_input_bytes limits < length input
      then Inl (ParseError_new origin ParseStage_Header 0 (ParseErrorKind_LimitExceeded ''input bytes''))
      else if length input < HEADER_SIZE
      then Inl (ParseError_new origin ParseStage_Header (length input) ParseErrorKind_Truncated)
      else if take 3 input \<noteq> bytes_of_str ''PSF''
      then Inl (ParseError_new origin ParseStage_Header 0 ParseErrorKind_InvalidSignature)
      else
        and_then (map_err (ParseError_new origin ParseStage_Header 3) (PsfVersion_from_byte (input ! 3)))
        (\<lambda>version.
         let reserved_len = unat (read_u32 input 4);
             compressed_len = unat (read_u32 input 8) in
         if max_reserved_bytes limits < reserved_len
         then Inl (ParseError_new origin ParseStage_Reserved HEADER_SIZE
           (ParseErrorKind_LimitExceeded ''reserved bytes''))
         else
           and_then (ok_or (checked_add_n 64 HEADER_SIZE reserved_len)
             (ParseError_new origin ParseStage_Reserved HEADER_SIZE ParseErrorKind_OffsetOverflow))
           (\<lambda>reserved_end.
           and_then (ok_or (checked_add_n 64 reserved_end compressed_len)
             (ParseError_new origin ParseStage_CompressedProgram reserved_end
               ParseErrorKind_OffsetOverflow))
           (\<lambda>program_end.
           if length input < program_end
           then Inl (ParseError_new origin ParseStage_CompressedProgram (length input)
             ParseErrorKind_Truncated)
           else parse_sections z hash origin input limits version reserved_end program_end))))"

definition PsfContainer_parse ::
    "'z Zlib \<Rightarrow> (u8 list \<Rightarrow> u32) \<Rightarrow> string \<Rightarrow> u8 list \<Rightarrow> ParseError + PsfContainer" where
  "PsfContainer_parse z hash origin input =
     PsfContainer_parse_with_limits z hash origin input ParseLimits_default"

section \<open>The builder\<close>

record PsfBuilder =
  pb_version :: PsfVersion
  pb_reserved :: "u8 list"
  pb_program :: "u8 list"
  pb_tags :: "(string \<times> string) list"

definition PsfBuilder_new :: "PsfVersion \<Rightarrow> PsfBuilder" where
  "PsfBuilder_new version =
     \<lparr>pb_version = version, pb_reserved = [], pb_program = [], pb_tags = []\<rparr>"

definition PsfBuilder_reserved :: "u8 list \<Rightarrow> PsfBuilder \<Rightarrow> PsfBuilder" where
  "PsfBuilder_reserved bytes self = self\<lparr>pb_reserved := bytes\<rparr>"

definition PsfBuilder_program :: "u8 list \<Rightarrow> PsfBuilder \<Rightarrow> PsfBuilder" where
  "PsfBuilder_program bytes self = self\<lparr>pb_program := bytes\<rparr>"

definition PsfBuilder_tag :: "string \<Rightarrow> string \<Rightarrow> PsfBuilder \<Rightarrow> PsfBuilder" where
  "PsfBuilder_tag key value self = self\<lparr>pb_tags := pb_tags self @ [(key, value)]\<rparr>"

definition u32_to_le_bytes :: "u32 \<Rightarrow> u8 list" where
  "u32_to_le_bytes w = [byte_of 0 w, byte_of 1 w, byte_of 2 w, byte_of 3 w]"

definition tag_line :: "string \<times> string \<Rightarrow> u8 list" where
  "tag_line t = bytes_of_str (fst t) @ bytes_of_str ''='' @ bytes_of_str (snd t) @ [10]"

text \<open>\<open>None\<close> is the panic of a section that does not fit its 32-bit size field.\<close>

definition PsfBuilder_build ::
    "(u8 list \<Rightarrow> u8 list) \<Rightarrow> (u8 list \<Rightarrow> u32) \<Rightarrow> PsfBuilder \<Rightarrow> u8 list option" where
  "PsfBuilder_build deflate hash self =
     (let compressed = (if pb_program self = [] then [] else deflate (pb_program self)) in
      if 2 ^ 32 \<le> length (pb_reserved self) \<or> 2 ^ 32 \<le> length compressed then None
      else Some (bytes_of_str ''PSF'' @ [PsfVersion_byte (pb_version self)]
        @ u32_to_le_bytes (of_nat (length (pb_reserved self)))
        @ u32_to_le_bytes (of_nat (length compressed))
        @ u32_to_le_bytes (hash compressed)
        @ pb_reserved self @ compressed
        @ (if pb_tags self = [] then []
           else TAG_MARKER @ concat (map tag_line (pb_tags self)))))"

section \<open>Laws of the pieces\<close>

lemma u32_le_length [simp]: "length (u32_to_le_bytes w) = 4"
  by (simp add: u32_to_le_bytes_def)

lemma read_u32_at:
  assumes "input = pre @ u32_to_le_bytes w @ post" and "length pre = n"
  shows "read_u32 input n = w"
  using assms by (simp add: read_u32_def u32_to_le_bytes_def nth_append u32_le_roundtrip [unfolded One_nat_def])

lemma slice_append: "length xs = a \<Longrightarrow> length ys = b - a \<Longrightarrow> slice (xs @ ys @ zs) a b = ys"
  by (simp add: slice_def)

text \<open>What a decoder hands out until it reports the end, with the state it ends in.\<close>

inductive zlib_reads :: "'z Zlib \<Rightarrow> 'z \<Rightarrow> u8 list \<Rightarrow> 'z \<Rightarrow> bool" for z where
  reads_end: "zlib_read z d = (Inr [], d') \<Longrightarrow> zlib_reads z d [] d'"
| reads_some: "zlib_read z d = (Inr bs, d') \<Longrightarrow> bs \<noteq> [] \<Longrightarrow> zlib_reads z d' rest d'' \<Longrightarrow>
    zlib_reads z d (bs @ rest) d''"

lemma decompress_loop_reads:
  "zlib_reads z d bs d' \<Longrightarrow> length acc + length bs \<le> limit \<Longrightarrow>
     decompress_loop z origin offset limit d acc = Inr (acc @ bs, d')"
proof (induction arbitrary: acc rule: zlib_reads.induct)
  case (reads_end d d')
  then show ?case by (simp add: decompress_loop.simps [of z origin offset limit d])
next
  case (reads_some d bs d' rest d'')
  then show ?case by (simp add: decompress_loop.simps [of z origin offset limit d])
qed

lemma decompress_loop_bound:
  "decompress_loop z origin offset limit d acc = Inr (out, d') \<Longrightarrow> length acc \<le> limit \<Longrightarrow>
     length out \<le> limit"
proof (induction z origin offset limit d acc rule: decompress_loop.induct)
  case (1 z origin offset limit d acc)
  obtain r d1 where r: "zlib_read z d = (r, d1)" by force
  show ?case
  proof (cases r)
    case (Inl m)
    then show ?thesis using "1.prems"(1) r by (simp add: decompress_loop.simps [of z origin offset limit d])
  next
    case (Inr bs)
    then show ?thesis using "1.prems" r "1.IH" [of r d1 bs]
      by (auto simp: decompress_loop.simps [of z origin offset limit d] split: if_splits)
  qed
qed

section \<open>Tags of a built container\<close>

definition tag_text :: "string \<times> string \<Rightarrow> u8 list" where
  "tag_text t = bytes_of_str (fst t) @ bytes_of_str ''='' @ bytes_of_str (snd t)"

definition tag_of :: "string \<times> string \<Rightarrow> Tag" where
  "tag_of t = \<lparr>tag_key_raw = bytes_of_str (fst t), tag_value_raw = bytes_of_str (snd t),
     tag_key = fst t, tag_value = snd t\<rparr>"

text \<open>Identifiers as keys and trimmed ASCII lines as values.\<close>

definition tag_ok :: "string \<times> string \<Rightarrow> bool" where
  "tag_ok t \<longleftrightarrow> valid_identifier (bytes_of_str (fst t))
     \<and> trim_whitespace (bytes_of_str (snd t)) = bytes_of_str (snd t)
     \<and> list_all (\<lambda>b. is_ascii b \<and> b \<noteq> 0 \<and> b \<noteq> 10) (bytes_of_str (snd t))"

lemma dropWhile_id: "(xs \<noteq> [] \<Longrightarrow> \<not> P (hd xs)) \<Longrightarrow> dropWhile P xs = xs"
  by (cases xs) auto

lemma trim_id:
  assumes "xs \<noteq> [] \<Longrightarrow> \<not> tag_space (hd xs)" and "xs \<noteq> [] \<Longrightarrow> \<not> tag_space (last xs)"
  shows "trim_whitespace xs = xs"
proof -
  have "dropWhile tag_space xs = xs" using assms(1) by (rule dropWhile_id)
  moreover have "dropWhile tag_space (rev xs) = rev xs"
    using assms(2) by (intro dropWhile_id) (simp add: hd_rev)
  ultimately show ?thesis by (simp add: trim_whitespace_def)
qed

lemma last_trim:
  assumes "trim_whitespace xs = xs" and "xs \<noteq> []"
  shows "\<not> tag_space (last xs)"
proof
  assume sp: "tag_space (last xs)"
  let ?ys = "dropWhile tag_space xs"
  have "xs = rev (dropWhile tag_space (rev ?ys))" using assms(1) by (simp add: trim_whitespace_def)
  then have "rev xs = dropWhile tag_space (rev ?ys)" by (metis rev_rev_ident)
  moreover have "rev xs \<noteq> []" using assms(2) by simp
  ultimately have "\<not> tag_space (hd (rev xs))" by (metis hd_dropWhile)
  then show False using sp assms(2) by (simp add: hd_rev)
qed

lemma identifier_bytes:
  assumes "valid_identifier key" and "b \<in> set key"
  shows "\<not> tag_space b" and "b \<noteq> byte_of_char CHR ''=''" and "is_ascii b" and "b \<noteq> 0" and "b \<noteq> 10"
proof -
  have "is_ascii_alphanumeric b \<or> b = byte_of_char CHR ''_''"
    using assms by (auto simp: valid_identifier_def is_ascii_alphanumeric_def list_all_iff split: list.splits)
  then have *: "0x30 \<le> unat b \<and> unat b < 0x80 \<and> unat b \<noteq> 0x3D"
    by (auto simp: is_ascii_alphanumeric_def is_ascii_alphabetic_def is_ascii_digit_def word_le_nat_alt
        byte_of_char_def)
  then show "\<not> tag_space b" "is_ascii b"
    by (simp_all add: tag_space_def is_ascii_def word_le_nat_alt word_less_nat_alt)
  show "b \<noteq> byte_of_char CHR ''=''" "b \<noteq> 0" "b \<noteq> 10"
    using * by (auto simp: byte_of_char_def)
qed

lemma equals_bytes: "bytes_of_str ''='' = [byte_of_char CHR ''='']"
  by (simp add: bytes_of_str_def)

lemma tag_text_parse:
  assumes "tag_ok t"
  defines "key \<equiv> bytes_of_str (fst t)" and "value' \<equiv> bytes_of_str (snd t)"
  shows "trim_whitespace (tag_text t) = tag_text t" and "tag_text t \<noteq> []"
    and "position (\<lambda>b. b = byte_of_char CHR ''='') (tag_text t) = Some (length key)"
    and "trim_whitespace (take (length key) (tag_text t)) = key"
    and "trim_whitespace (drop (length key + 1) (tag_text t)) = value'"
    and "\<forall>b\<in>set (tag_text t). b \<noteq> 0 \<and> b \<noteq> 10"
proof -
  let ?eq = "byte_of_char CHR ''=''"
  have id: "valid_identifier key" and tr: "trim_whitespace value' = value'"
    and v: "\<forall>b\<in>set value'. is_ascii b \<and> b \<noteq> 0 \<and> b \<noteq> 10"
    using assms(1) by (simp_all add: tag_ok_def key_def value'_def list_all_iff)
  note kb = identifier_bytes [OF id]
  have ne: "key \<noteq> []" using id by (auto simp: valid_identifier_def)
  have t: "tag_text t = key @ ?eq # value'"
    by (simp add: tag_text_def key_def value'_def equals_bytes)
  have eq: "\<not> tag_space ?eq" "?eq \<noteq> 0" "?eq \<noteq> 10"
    by (simp_all add: tag_space_def byte_of_char_def)
  show "tag_text t \<noteq> []" by (simp add: t)
  show "trim_whitespace (tag_text t) = tag_text t"
  proof (rule trim_id)
    show "\<not> tag_space (hd (tag_text t))" using kb(1) ne by (simp add: t)
    show "\<not> tag_space (last (tag_text t))"
      using last_trim [OF tr] eq(1) by (cases "value' = []") (simp_all add: t)
  qed
  show "position (\<lambda>b. b = ?eq) (tag_text t) = Some (length key)"
    unfolding t by (rule position_append) (use kb(2) in auto)
  show "trim_whitespace (take (length key) (tag_text t)) = key"
    using kb(1) ne by (simp add: t trim_id)
  show "trim_whitespace (drop (length key + 1) (tag_text t)) = value'" using tr by (simp add: t)
  show "\<forall>b\<in>set (tag_text t). b \<noteq> 0 \<and> b \<noteq> 10" using kb(4,5) v eq by (auto simp: t)
qed

lemma push_tag_fresh:
  assumes "tag_ok t" and "entries \<noteq> [] \<Longrightarrow> \<not> eq_ignore_ascii_case (tag_key (last entries)) (fst t)"
  shows "push_tag (bytes_of_str (fst t)) (bytes_of_str (snd t)) entries = entries @ [tag_of t]"
proof -
  have id: "valid_identifier (bytes_of_str (fst t))"
    and "\<forall>b\<in>set (bytes_of_str (snd t)). is_ascii b"
    using assms(1) by (auto simp: tag_ok_def list_all_iff)
  then have "String_from_utf8_lossy (bytes_of_str (fst t)) = fst t"
    "String_from_utf8_lossy (bytes_of_str (snd t)) = snd t"
    using identifier_bytes(3) [OF id] by (simp_all add: from_utf8_lossy_ascii)
  then show ?thesis using assms(2) by (auto simp: push_tag_def Let_def tag_of_def)
qed

definition adjacent_distinct :: "(string \<times> string) list \<Rightarrow> bool" where
  "adjacent_distinct ts \<longleftrightarrow> successively (\<lambda>s t. \<not> eq_ignore_ascii_case (fst s) (fst t)) ts"

lemma tag_lines_built:
  assumes "\<forall>t\<in>set ts. tag_ok t" and "adjacent_distinct ts"
    and "entries \<noteq> [] \<Longrightarrow> ts \<noteq> [] \<Longrightarrow>
      \<not> eq_ignore_ascii_case (tag_key (last entries)) (fst (hd ts))"
  shows "tag_lines origin base (map tag_text ts @ [[]]) start entries = Inr (entries @ map tag_of ts)"
  using assms
proof (induction ts arbitrary: start entries)
  case Nil
  then show ?case by (simp add: trim_whitespace_def Let_def)
next
  case (Cons t ts)
  have t: "tag_ok t" using Cons.prems(1) by simp
  note p = tag_text_parse [OF t]
  have key: "valid_identifier (bytes_of_str (fst t))" using t by (simp add: tag_ok_def)
  have push: "push_tag (bytes_of_str (fst t)) (bytes_of_str (snd t)) entries = entries @ [tag_of t]"
    by (rule push_tag_fresh [OF t]) (use Cons.prems(3) in simp)
  have "tag_lines origin base (map tag_text ts @ [[]]) start' (entries @ [tag_of t]) =
      Inr (entries @ [tag_of t] @ map tag_of ts)" for start'
    using Cons.prems(1,2)
    by (subst Cons.IH) (auto simp: adjacent_distinct_def tag_of_def successively_Cons)
  then show ?case
    using p key push by (simp add: Let_def)
qed

lemma split_on_lines:
  "\<forall>xs\<in>set xss. \<forall>x\<in>set xs. \<not> P x \<Longrightarrow> P y \<Longrightarrow>
     split_on P (concat (map (\<lambda>xs. xs @ [y]) xss)) = xss @ [[]]"
  by (induction xss) (auto simp: split_on_append)

lemma tags_parse_built:
  assumes "\<forall>t\<in>set ts. tag_ok t" and "adjacent_distinct ts"
  shows "Tags_parse origin (concat (map tag_line ts)) base = Inr (map tag_of ts)"
proof -
  have lines: "map tag_line ts = map (\<lambda>xs. xs @ [10]) (map tag_text ts)"
    by (simp add: tag_line_def tag_text_def)
  have ok: "\<forall>t\<in>set ts. \<forall>b\<in>set (tag_text t). b \<noteq> 0 \<and> b \<noteq> 10"
    using assms(1) tag_text_parse(6) by blast
  then have "\<forall>b\<in>set (concat (map tag_line ts)). b \<noteq> 0"
    unfolding lines by auto
  then have "position (\<lambda>b. b = 0) (concat (map tag_line ts)) = None"
    by (simp add: position_None_iff)
  moreover have "split_on (\<lambda>b. b = 10) (concat (map tag_line ts)) = map tag_text ts @ [[]]"
    unfolding lines by (rule split_on_lines) (use ok in auto)
  ultimately show ?thesis
    using tag_lines_built [OF assms, of "[]"] by (simp add: Tags_parse_def)
qed

section \<open>Properties\<close>

definition build_sections :: "(u8 list \<Rightarrow> u8 list) \<Rightarrow> PsfBuilder \<Rightarrow> u8 list" where
  "build_sections deflate b = (if pb_program b = [] then [] else deflate (pb_program b))"

text \<open>The documented relation of encoder and decoder, for one program.\<close>

definition zlib_inverse :: "'z Zlib \<Rightarrow> (u8 list \<Rightarrow> u8 list) \<Rightarrow> u8 list \<Rightarrow> bool" where
  "zlib_inverse z deflate p \<longleftrightarrow> deflate p \<noteq> [] \<and>
     (\<exists>d. zlib_reads z (zlib_new z (deflate p)) p d \<and> zlib_total_in z d = length (deflate p))"

lemma decompress_built:
  assumes "pb_program b \<noteq> [] \<Longrightarrow> zlib_inverse z deflate (pb_program b)"
    and "length (pb_program b) \<le> limit"
  shows "decompress z origin (build_sections deflate b) offset limit = Inr (pb_program b)"
proof (cases "pb_program b = []")
  case True
  then show ?thesis by (simp add: decompress_def build_sections_def)
next
  case False
  with assms(1) obtain d where d: "deflate (pb_program b) \<noteq> []"
      "zlib_reads z (zlib_new z (deflate (pb_program b))) (pb_program b) d"
      "zlib_total_in z d = length (deflate (pb_program b))"
    by (auto simp: zlib_inverse_def)
  then have "decompress_loop z origin offset limit (zlib_new z (deflate (pb_program b))) [] =
      Inr (pb_program b, d)"
    using decompress_loop_reads [OF d(2), of "[]"] assms(2) by simp
  then show ?thesis using False d by (simp add: decompress_def build_sections_def and_then_def)
qed

lemma parse_tags_built:
  assumes "\<forall>t\<in>set ts. tag_ok t" and "adjacent_distinct ts"
    and "input = front @ (if ts = [] then [] else TAG_MARKER @ concat (map tag_line ts))"
    and "length (concat (map tag_line ts)) \<le> max_tag_bytes limits" and "length input < 2 ^ 64"
  shows "parse_tags origin input limits (length front) = Inr (map tag_of ts,
    if ts = [] then None else Some \<lparr>br_start = length front + 5, br_end = length input\<rparr>)"
proof (cases "ts = []")
  case True
  then show ?thesis using assms(3) by (simp add: parse_tags_def)
next
  case False
  have m: "length TAG_MARKER = 5" by (simp add: TAG_MARKER_def bytes_of_str_def)
  let ?raw = "concat (map tag_line ts)"
  have input: "input = front @ TAG_MARKER @ ?raw" using assms(3) False by simp
  then have len: "length input = length front + 5 + length ?raw" using m by simp
  have "checked_add_n 64 (length front) (length TAG_MARKER) = Some (length front + 5)"
    using len assms(5) by (simp add: checked_add_n_def m)
  moreover have "slice input (length front) (length front + 5) = TAG_MARKER"
    unfolding input by (rule slice_append) (simp_all add: m)
  moreover have "drop (length front + 5) input = ?raw" using m by (simp add: input)
  ultimately show ?thesis
    using tags_parse_built [OF assms(1,2), of origin "length front + 5"] assms(4) len False
    by (simp add: parse_tags_def and_then_def m Let_def)
qed

text \<open>
  C34. A built container parses back to what it was built from. When the encoder's
  output decodes to the program, the keys of the tags are identifiers, adjacent keys differ,
  the values are trimmed one-line ASCII and the sizes are within the limits, parsing the bytes of
  \<open>PsfBuilder::build\<close> succeeds with the version, reserved bytes, program and tags of the
  builder in order. The three ranges it reports are exact: the reserved section follows the
  16-byte header, the compressed program follows it, and the tag text runs from behind the marker
  to the end of the input, or is absent with the tags; each holds what was written there.
\<close>
theorem psf_build_parse:
  assumes "PsfBuilder_build deflate hash b = Some input"
    and "pb_program b \<noteq> [] \<Longrightarrow> zlib_inverse z deflate (pb_program b)"
    and "\<forall>t\<in>set (pb_tags b). tag_ok t" and "adjacent_distinct (pb_tags b)"
    and "length input \<le> max_input_bytes limits" and "length input < 2 ^ 64"
    and "length (pb_reserved b) \<le> max_reserved_bytes limits"
    and "length (pb_program b) \<le> effective_program_limit (pb_version b) limits"
    and "length (concat (map tag_line (pb_tags b))) \<le> max_tag_bytes limits"
  shows "\<exists>c. PsfContainer_parse_with_limits z hash origin input limits = Inr c \<and>
    psf_version c = pb_version b \<and> psf_reserved c = pb_reserved b \<and>
    psf_program c = pb_program b \<and> psf_tags c = map tag_of (pb_tags b) \<and>
    psf_compressed_program c = build_sections deflate b \<and>
    psf_reserved_range c = \<lparr>br_start = 16, br_end = 16 + length (pb_reserved b)\<rparr> \<and>
    psf_compressed_range c = \<lparr>br_start = 16 + length (pb_reserved b),
      br_end = 16 + length (pb_reserved b) + length (build_sections deflate b)\<rparr> \<and>
    psf_tag_range c = (if pb_tags b = [] then None
      else Some \<lparr>br_start = 16 + length (pb_reserved b) + length (build_sections deflate b) + 5,
        br_end = length input\<rparr>) \<and>
    slice input (br_start (psf_reserved_range c)) (br_end (psf_reserved_range c)) = pb_reserved b \<and>
    slice input (br_start (psf_compressed_range c)) (br_end (psf_compressed_range c)) =
      psf_compressed_program c \<and>
    (\<forall>tags. psf_tag_range c = Some tags \<longrightarrow>
      slice input (br_start tags) (br_end tags) = concat (map tag_line (pb_tags b)))"
proof -
  let ?c = "build_sections deflate b" and ?r = "pb_reserved b"
  let ?tail = "if pb_tags b = [] then [] else TAG_MARKER @ concat (map tag_line (pb_tags b))"
  let ?head = "bytes_of_str ''PSF'' @ [PsfVersion_byte (pb_version b)]"
  let ?re = "16 + length ?r" and ?pe = "16 + length ?r + length ?c"
  have sizes: "length ?r < 2 ^ 32" "length ?c < 2 ^ 32"
    and input: "input = ?head @ u32_to_le_bytes (of_nat (length ?r)) @ u32_to_le_bytes (of_nat (length ?c))
        @ u32_to_le_bytes (hash ?c) @ ?r @ ?c @ ?tail"
    using assms(1) by (auto simp: PsfBuilder_build_def build_sections_def Let_def split: if_splits)
  have h: "length ?head = 4" "take 3 input = bytes_of_str ''PSF''" "input ! 3 = PsfVersion_byte (pb_version b)"
    by (simp_all add: input bytes_of_str_def)
  have len: "length input = ?pe + length ?tail" using h(1) by (simp add: input)
  have f4: "read_u32 input 4 = of_nat (length ?r)"
    by (rule read_u32_at [of _ ?head]) (use h(1) in \<open>simp_all add: input\<close>)
  have f8: "read_u32 input 8 = of_nat (length ?c)"
    by (rule read_u32_at [of _ "?head @ u32_to_le_bytes (of_nat (length ?r))"])
      (use h(1) in \<open>simp_all add: input\<close>)
  have f12: "read_u32 input 12 = hash ?c"
    by (rule read_u32_at [of _ "?head @ u32_to_le_bytes (of_nat (length ?r)) @
        u32_to_le_bytes (of_nat (length ?c))"]) (use h(1) in \<open>simp_all add: input\<close>)
  let ?front = "?head @ u32_to_le_bytes (of_nat (length ?r)) @ u32_to_le_bytes (of_nat (length ?c))
        @ u32_to_le_bytes (hash ?c)"
  have lf: "length ?front = 16" using h(1) by simp
  have s1: "slice input 16 ?re = ?r"
    using slice_append [OF lf, of ?r ?re "?c @ ?tail"] by (simp add: input)
  have s2: "slice input ?re ?pe = ?c"
    using slice_append [of "?front @ ?r" ?re ?c ?pe ?tail] lf by (simp add: input)
  have un: "unat (of_nat (length ?r) :: u32) = length ?r" "unat (of_nat (length ?c) :: u32) = length ?c"
    using sizes by (simp_all add: unat_of_nat_small)
  have dec: "decompress z origin ?c ?re (effective_program_limit (pb_version b) limits) = Inr (pb_program b)"
    by (rule decompress_built [OF assms(2,8)])
  have pe: "length (?front @ ?r @ ?c) = ?pe" using lf by simp
  have split: "input = (?front @ ?r @ ?c) @ ?tail" by (simp only: input append_assoc)
  have tags: "parse_tags origin input limits ?pe = Inr (map tag_of (pb_tags b),
      if pb_tags b = [] then None else Some \<lparr>br_start = ?pe + 5, br_end = length input\<rparr>)"
    by (rule parse_tags_built [OF assms(3,4) split assms(9,6), unfolded pe])
  have ver: "PsfVersion_from_byte (input ! 3) = Inr (pb_version b)"
    by (cases "pb_version b") (simp_all add: h(3) PsfVersion_from_byte_def PsfVersion_byte_def)
  have ok: "?re < 2 ^ 64" "?pe < 2 ^ 64" "16 \<le> length input" "?pe \<le> length input"
    using assms(6) len by simp_all
  have marker: "length TAG_MARKER = 5" by (simp add: TAG_MARKER_def bytes_of_str_def)
  have s3: "slice input (?pe + 5) (length input) = concat (map tag_line (pb_tags b))" if "pb_tags b \<noteq> []"
    using slice_append [of "(?front @ ?r @ ?c) @ TAG_MARKER" "?pe + 5" "concat (map tag_line (pb_tags b))" "length input" "[]"]
      that lf len by (simp add: split marker)
  show ?thesis
    using assms(5,7) ok h(2) ver s3
    by (auto simp: PsfContainer_parse_with_limits_def HEADER_SIZE_def f4 f8 un and_then_def map_err_def
        ok_or_def checked_add_n_def parse_sections_def s1 s2 f12 dec tags Let_def)
qed

text \<open>A decoder of one chunk, for the encoder that stores.\<close>

definition stored_zlib :: "(u8 list \<times> nat) Zlib" where
  "stored_zlib = \<lparr>zlib_new = (\<lambda>bs. (bs, 0)),
     zlib_read = (\<lambda>(bs, n). (Inr bs, ([], n + length bs))), zlib_total_in = snd\<rparr>"

lemma stored_zlib_inverse: "p \<noteq> [] \<Longrightarrow> zlib_inverse stored_zlib (\<lambda>x. x) p"
  using reads_some [of stored_zlib "(p, 0)" p "([], length p)" "[]" "([], length p)"]
    reads_end [of stored_zlib "([], length p)" "([], length p)"]
  by (auto simp: zlib_inverse_def stored_zlib_def)

lemma psf_build_parse_witness:
  "let b = \<lparr>pb_version = PsfVersion_Psf1, pb_reserved = [9], pb_program = [1, 2, 3],
      pb_tags = [(''title'', ''x'')]\<rparr> in
   \<exists>input c. PsfBuilder_build (\<lambda>x. x) (\<lambda>_. 7) b = Some input \<and>
     PsfContainer_parse_with_limits stored_zlib (\<lambda>_. 7) ''m'' input ParseLimits_default = Inr c \<and>
     psf_program c = [1, 2, 3] \<and> psf_tags c = [tag_of (''title'', ''x'')]"
proof -
  let ?b = "\<lparr>pb_version = PsfVersion_Psf1, pb_reserved = [9], pb_program = [1, 2, 3],
      pb_tags = [(''title'', ''x'')]\<rparr>"
  obtain input where build: "PsfBuilder_build (\<lambda>x. x) (\<lambda>_. 7) ?b = Some input"
    and len: "length input = 33"
    by (simp add: PsfBuilder_build_def Let_def TAG_MARKER_def tag_line_def bytes_of_str_def)
  have tags: "\<forall>t\<in>set (pb_tags ?b). tag_ok t"
    by (simp add: tag_ok_def valid_identifier_def bytes_of_str_def byte_of_char_def is_ascii_def
        is_ascii_alphabetic_def is_ascii_alphanumeric_def trim_whitespace_def tag_space_def)
  have "adjacent_distinct (pb_tags ?b)" by (simp add: adjacent_distinct_def)
  from psf_build_parse [OF build _ tags this, of stored_zlib ParseLimits_default "''m''"]
  obtain c where "PsfContainer_parse_with_limits stored_zlib (\<lambda>_. 7) ''m'' input ParseLimits_default = Inr c"
    "psf_program c = [1, 2, 3]" "psf_tags c = [tag_of (''title'', ''x'')]"
    by (auto simp: stored_zlib_inverse len ParseLimits_default_def effective_program_limit_def
        PSF1_MAX_PROGRAM_def tag_line_def bytes_of_str_def)
  with build show ?thesis by auto
qed

end
