(* ===== verification/Psf_Duration.thy ===== *)
theory Psf_Duration
  imports Complex_Main Rust_Text
begin

text \<open>
  Durations of PSF tags (\<open>crates/formats/shared/psf/src/duration.rs\<close>): exact
  rational seconds, their grammar and the frames they stand for. Text is worked on as its
  UTF-8 bytes.
\<close>

section \<open>Arithmetic and text\<close>

record Duration =
  du_numerator :: u64
  du_denominator :: u64

datatype DurationError =
    DurationError_InvalidSyntax
  | DurationError_OutOfRange
  | DurationError_Overflow
  | DurationError_ZeroDenominator

definition Duration_ZERO :: Duration where
  "Duration_ZERO = \<lparr>du_numerator = 0, du_denominator = 1\<rparr>"

text \<open>The loop of \<open>gcd\<close>.\<close>

fun gcd_loop :: "u64 \<Rightarrow> u64 \<Rightarrow> u64" where
  "gcd_loop left right =
     (if right = 0 then (if left = 0 then 1 else left) else gcd_loop right (left mod right))"

declare gcd_loop.simps [simp del]

definition reduced :: "u64 \<Rightarrow> u64 \<Rightarrow> Duration" where
  "reduced numerator denominator =
     (let divisor = gcd_loop numerator denominator in
      \<lparr>du_numerator = numerator div divisor, du_denominator = denominator div divisor\<rparr>)"

definition Duration_from_ratio :: "u64 \<Rightarrow> u64 \<Rightarrow> DurationError + Duration" where
  "Duration_from_ratio numerator denominator =
     (if denominator = 0 then Inl DurationError_ZeroDenominator
      else Inr (reduced numerator denominator))"

definition Duration_to_frames_floor :: "Duration \<Rightarrow> u32 \<Rightarrow> DurationError + u64" where
  "Duration_to_frames_floor self sample_rate =
     and_then (ok_or (checked_mul_n 128 (du_numerator self) (unat sample_rate)) DurationError_Overflow)
       (\<lambda>product. ok_or (try_from_n 64 (product div du_denominator self)) DurationError_Overflow)"

text \<open>\<open>str::trim\<close>: the encodings of the characters with the property White_Space.\<close>

definition white_spaces :: "u8 list list" where
  "white_spaces = map (\<lambda>b. [b]) [9, 10, 11, 12, 13, 32]
     @ [[0xC2, 0x85], [0xC2, 0xA0], [0xE1, 0x9A, 0x80]]
     @ map (\<lambda>b. [0xE2, 0x80, b]) [0x80, 0x81, 0x82, 0x83, 0x84, 0x85, 0x86, 0x87, 0x88, 0x89,
         0x8A, 0xA8, 0xA9, 0xAF]
     @ [[0xE2, 0x81, 0x9F], [0xE3, 0x80, 0x80]]"

function strip_front :: "'a list list \<Rightarrow> 'a list \<Rightarrow> 'a list" where
  "strip_front ws xs =
     (case find (\<lambda>w. w \<noteq> [] \<and> xs \<noteq> [] \<and> take (length w) xs = w) ws of
        None \<Rightarrow> xs | Some w \<Rightarrow> strip_front ws (drop (length w) xs))"
  by pat_completeness auto
termination
proof (relation "measure (\<lambda>(_, xs). length xs)")
  fix ws and xs w :: "'a list"
  assume "find (\<lambda>w. w \<noteq> [] \<and> xs \<noteq> [] \<and> take (length w) xs = w) ws = Some w"
  then have "w \<noteq> []" and "xs \<noteq> []" by (auto simp: find_Some_iff)
  then show "((ws, drop (length w) xs), ws, xs) \<in> measure (\<lambda>(_, xs). length xs)"
    by (cases w; cases xs) auto
qed simp

declare strip_front.simps [simp del]

definition str_trim :: "u8 list \<Rightarrow> u8 list" where
  "str_trim bs = rev (strip_front (map rev white_spaces) (rev (strip_front white_spaces bs)))"

definition dec_value :: "u8 list \<Rightarrow> nat" where
  "dec_value ds = foldl (\<lambda>n d. n * 10 + (unat d - 0x30)) 0 ds"

definition all_digits :: "u8 list \<Rightarrow> bool" where
  "all_digits ds = list_all is_ascii_digit ds"

definition integer :: "u8 list \<Rightarrow> DurationError + u64" where
  "integer text' =
     (if text' = [] \<or> \<not> all_digits text' then Inl DurationError_InvalidSyntax
      else ok_or (try_from_n 64 (dec_value text')) DurationError_Overflow)"

section \<open>Parsing\<close>

definition colon_parts :: "u8 list list \<Rightarrow> DurationError + (u64 \<times> u64 \<times> u8 list)" where
  "colon_parts components =
     (case components of
        [seconds] \<Rightarrow> Inr (0, 0, seconds)
      | [minutes, seconds] \<Rightarrow> and_then (integer minutes) (\<lambda>minutes. Inr (0, minutes, seconds))
      | [hours, minutes, seconds] \<Rightarrow>
          and_then (integer hours) (\<lambda>hours.
          and_then (integer minutes) (\<lambda>minutes. Inr (hours, minutes, seconds)))
      | _ \<Rightarrow> Inl DurationError_InvalidSyntax)"

definition fraction_part :: "u8 list option \<Rightarrow> DurationError + (u64 \<times> u64)" where
  "fraction_part fraction_text =
     (case fraction_text of
        None \<Rightarrow> Inr (0, 1)
      | Some text' \<Rightarrow>
          if text' = [] \<or> 18 < length text' \<or> \<not> all_digits text'
          then Inl DurationError_InvalidSyntax
          else
            and_then (ok_or (try_from_n 64 (10 ^ length text')) DurationError_Overflow) (\<lambda>scale.
            and_then (integer text') (\<lambda>fraction. Inr (fraction, scale))))"

definition whole_seconds :: "u64 \<Rightarrow> u64 \<Rightarrow> u64 \<Rightarrow> u64 option" where
  "whole_seconds hours minutes seconds =
     Option.bind (checked_mul_n 64 hours 3600) (\<lambda>value.
     Option.bind (checked_mul_n 64 minutes 60) (\<lambda>m.
     Option.bind (checked_add_n 64 value m) (\<lambda>value. checked_add_n 64 value seconds)))"

definition split_seconds :: "u8 list \<Rightarrow> u8 list \<times> u8 list option" where
  "split_seconds normalized =
     (case split_once (\<lambda>b. b = byte_of_char CHR ''.'') normalized of
        None \<Rightarrow> (normalized, None) | Some (whole, fraction) \<Rightarrow> (whole, Some fraction))"

definition parse_seconds :: "nat \<Rightarrow> u64 \<Rightarrow> u64 \<Rightarrow> u8 list \<Rightarrow> DurationError + Duration" where
  "parse_seconds parts hours minutes seconds_text =
     (let normalized = map (\<lambda>b. if b = byte_of_char CHR '','' then byte_of_char CHR ''.'' else b)
            seconds_text in
      if 1 < length (filter (\<lambda>b. b = byte_of_char CHR ''.'') normalized)
      then Inl DurationError_InvalidSyntax
      else
        let (whole_text, fraction_text) = split_seconds normalized in
        and_then (integer whole_text) (\<lambda>seconds.
        if 1 < parts \<and> 60 \<le> seconds then Inl DurationError_OutOfRange
        else
          and_then (fraction_part fraction_text) (\<lambda>(fraction, scale).
          and_then (ok_or (whole_seconds hours minutes seconds) DurationError_Overflow) (\<lambda>whole.
          and_then (ok_or (Option.bind (checked_mul_n 64 whole scale)
              (\<lambda>value. checked_add_n 64 value fraction)) DurationError_Overflow) (\<lambda>numerator.
          Inr (reduced numerator scale))))))"

definition Duration_parse :: "string \<Rightarrow> DurationError + Duration" where
  "Duration_parse input =
     (let input = str_trim (bytes_of_str input) in
      if input = [] \<or> hd input = byte_of_char CHR ''-'' \<or> hd input = byte_of_char CHR ''+''
      then Inl DurationError_InvalidSyntax
      else
        let components = split_on (\<lambda>b. b = byte_of_char CHR '':'') input in
        if \<not> (1 \<le> length components \<and> length components \<le> 3) then Inl DurationError_InvalidSyntax
        else
          and_then (colon_parts components) (\<lambda>(hours, minutes, seconds_text).
          if length components = 3 \<and> 60 \<le> minutes then Inl DurationError_OutOfRange
          else parse_seconds (length components) hours minutes seconds_text))"

section \<open>The greatest common divisor\<close>

lemma gcd_loop_gcd: "gcd_loop a b = (if a = 0 \<and> b = 0 then 1 else gcd a b)"
proof (induction a b rule: gcd_loop.induct)
  case (1 a b)
  show ?case
  proof (cases "b = 0")
    case False
    then have "gcd_loop a b = gcd_loop b (a mod b)" by (simp add: gcd_loop.simps [of a b])
    also have "\<dots> = gcd b (a mod b)" using 1 False by simp
    also have "\<dots> = gcd a b" by (simp add: gcd_red_nat [symmetric] gcd.commute)
    finally show ?thesis using False by simp
  qed (simp add: gcd_loop.simps [of a 0])
qed

definition duration_value :: "Duration \<Rightarrow> rat" where
  "duration_value d = of_nat (du_numerator d) / of_nat (du_denominator d)"

lemma reduced_laws:
  assumes "0 < b"
  shows "duration_value (reduced a b) = of_nat a / of_nat b"
    and "coprime (du_numerator (reduced a b)) (du_denominator (reduced a b))"
    and "0 < du_denominator (reduced a b)"
proof -
  define g where "g = gcd a b"
  have loop: "gcd_loop a b = g" and g: "0 < g" using assms by (simp_all add: gcd_loop_gcd g_def)
  obtain a' b' where ab: "a = a' * g" "b = b' * g" and cop: "coprime a' b'"
    using gcd_coprime_exists [of a b] g unfolding g_def by blast
  have "a div g = a'" and "b div g = b'" using g by (simp_all add: ab(1,2))
  then have r: "reduced a b = \<lparr>du_numerator = a', du_denominator = b'\<rparr>"
    by (simp add: reduced_def loop)
  show "coprime (du_numerator (reduced a b)) (du_denominator (reduced a b))" using cop by (simp add: r)
  have b': "0 < b'" using assms ab(2) by (cases b') auto
  then show "0 < du_denominator (reduced a b)" by (simp add: r)
  show "duration_value (reduced a b) = of_nat a / of_nat b"
    unfolding duration_value_def r using g b' by (simp add: ab(1,2))
qed

lemma reduced_unique:
  assumes "0 < b" and "0 < du_denominator d" and "coprime (du_numerator d) (du_denominator d)"
    and "du_numerator d * b = a * du_denominator d"
  shows "d = reduced a b"
proof -
  let ?r = "reduced a b"
  have "(of_nat (du_numerator ?r) / of_nat (du_denominator ?r) :: rat) = of_nat a / of_nat b"
    using reduced_laws(1) [OF assms(1), of a] by (simp add: duration_value_def)
  then have "of_nat (du_numerator ?r * b) = (of_nat (a * du_denominator ?r) :: rat)"
    using assms(1) reduced_laws(3) [OF assms(1), of a] by (simp add: frac_eq_eq)
  then have "du_numerator ?r * b = a * du_denominator ?r" using of_nat_eq_iff by blast
  then have "du_numerator ?r * du_denominator d * b = du_numerator d * du_denominator ?r * b"
    using assms(4) by (metis mult.assoc mult.commute)
  then have cross: "du_numerator ?r * du_denominator d = du_numerator d * du_denominator ?r"
    using assms(1) by simp
  have "du_numerator ?r = du_numerator d \<and> du_denominator ?r = du_denominator d"
    using coprime_crossproduct_nat [OF reduced_laws(2) [OF assms(1), of a] assms(3)] cross
    by (metis mult.commute)
  then show ?thesis by (cases d; cases ?r) simp
qed

section \<open>The grammar\<close>

text \<open>
  What the documentation calls \<open>seconds\<close>, \<open>minutes:seconds\<close> and \<open>hours:minutes:seconds\<close>,
  with up to eighteen decimal places of seconds after a period or a comma: the text, its
  hours, minutes, whole seconds and decimals.
\<close>

definition digits :: "u8 list \<Rightarrow> bool" where
  "digits ds \<longleftrightarrow> ds \<noteq> [] \<and> all_digits ds"

inductive seconds_grammar :: "u8 list \<Rightarrow> nat \<Rightarrow> u8 list \<Rightarrow> bool" where
  whole: "digits S \<Longrightarrow> seconds_grammar S (dec_value S) []"
| decimal: "digits S \<Longrightarrow> digits F \<Longrightarrow> length F \<le> 18
    \<Longrightarrow> sep = byte_of_char CHR ''.'' \<or> sep = byte_of_char CHR '',''
    \<Longrightarrow> seconds_grammar (S @ sep # F) (dec_value S) F"

inductive duration_grammar :: "u8 list \<Rightarrow> nat \<Rightarrow> nat \<Rightarrow> nat \<Rightarrow> u8 list \<Rightarrow> bool" where
  seconds: "seconds_grammar T s F \<Longrightarrow> duration_grammar T 0 0 s F"
| minutes: "digits M \<Longrightarrow> seconds_grammar T s F \<Longrightarrow> s < 60
    \<Longrightarrow> duration_grammar (M @ byte_of_char CHR '':'' # T) 0 (dec_value M) s F"
| hours: "digits H \<Longrightarrow> digits M \<Longrightarrow> dec_value M < 60 \<Longrightarrow> seconds_grammar T s F \<Longrightarrow> s < 60
    \<Longrightarrow> duration_grammar (H @ byte_of_char CHR '':'' # M @ byte_of_char CHR '':'' # T)
          (dec_value H) (dec_value M) s F"

definition duration_total :: "nat \<Rightarrow> nat \<Rightarrow> nat \<Rightarrow> u8 list \<Rightarrow> nat" where
  "duration_total h m s F = (h * 3600 + m * 60 + s) * 10 ^ length F + dec_value F"

lemma separators:
  "byte_of_char CHR ''.'' = 0x2E" "byte_of_char CHR '','' = 0x2C" "byte_of_char CHR '':'' = 0x3A"
  "byte_of_char CHR ''-'' = 0x2D" "byte_of_char CHR ''+'' = 0x2B"
  by (simp_all add: byte_of_char_def)

lemma digit_not_separator:
  "is_ascii_digit b \<Longrightarrow> b \<noteq> 0x2E \<and> b \<noteq> 0x2C \<and> b \<noteq> 0x3A \<and> b \<noteq> 0x2D \<and> b \<noteq> 0x2B"
  by (auto simp: is_ascii_digit_def)

lemma digits_simps [simp]:
  "all_digits []"
  "all_digits (d # ds) \<longleftrightarrow> is_ascii_digit d \<and> all_digits ds"
  "all_digits (xs @ ys) \<longleftrightarrow> all_digits xs \<and> all_digits ys"
  by (simp_all add: all_digits_def)

lemma split_on_single: "split_on P xs = [a] \<longleftrightarrow> xs = a \<and> (\<forall>x\<in>set xs. \<not> P x)"
proof (induction xs arbitrary: a)
  case (Cons x xs)
  then show ?case by (auto split: list.splits) (metis split_on_not_Nil)+
qed auto

lemma split_on_more:
  "split_on P xs = a # b # rest \<longleftrightarrow>
     (\<exists>y ys. xs = a @ y # ys \<and> (\<forall>x\<in>set a. \<not> P x) \<and> P y \<and> split_on P ys = b # rest)"
  (is "_ \<longleftrightarrow> ?split xs a")
proof
  show "split_on P xs = a # b # rest \<Longrightarrow> ?split xs a"
  proof (induction xs arbitrary: a)
    case (Cons x xs)
    show ?case
    proof (cases "P x")
      case True
      then show ?thesis using Cons.prems by (intro exI [of _ x] exI [of _ xs]) simp
    next
      case False
      then obtain a' where a: "a = x # a'" and "split_on P xs = a' # b # rest"
        using Cons.prems by (auto split: list.splits)
      then obtain y ys where "xs = a' @ y # ys" "\<forall>x\<in>set a'. \<not> P x" "P y" "split_on P ys = b # rest"
        using Cons.IH by blast
      then show ?thesis using a False by (intro exI [of _ y] exI [of _ ys]) simp
    qed
  qed simp
  show "?split xs a \<Longrightarrow> split_on P xs = a # b # rest" by (auto simp: split_on_append)
qed

lemma integer_Inr: "integer t = Inr n \<longleftrightarrow> digits t \<and> n = dec_value t \<and> n < 2 ^ 64"
  by (auto simp: integer_def digits_def ok_or_def try_from_n_def split: if_splits)

lemma fraction_part_Inr:
  "fraction_part (Some t) = Inr (f, sc) \<longleftrightarrow>
     digits t \<and> length t \<le> 18 \<and> f = dec_value t \<and> f < 2 ^ 64 \<and> sc = 10 ^ length t"
proof (cases "digits t \<and> length t \<le> 18")
  case True
  then have "(10 :: nat) ^ length t \<le> 10 ^ 18" by (intro power_increasing) auto
  then have "(10 :: nat) ^ length t < 2 ^ 64" by simp
  then show ?thesis using True
    by (auto simp: fraction_part_def digits_def integer_def ok_or_def try_from_n_def and_then_def)
qed (auto simp: fraction_part_def digits_def)

text \<open>The seconds with the comma read as a period.\<close>

definition with_periods :: "u8 list \<Rightarrow> u8 list" where
  "with_periods T = map (\<lambda>b. if b = byte_of_char CHR '','' then byte_of_char CHR ''.'' else b) T"

lemma with_periods_digits: "all_digits (with_periods T) \<longleftrightarrow> all_digits T"
  by (induction T) (auto simp: with_periods_def separators is_ascii_digit_def)

lemma with_periods_id: "all_digits T \<Longrightarrow> with_periods T = T"
  by (induction T) (auto simp: with_periods_def separators dest: digit_not_separator)

lemma with_periods_append: "with_periods (S @ T) = with_periods S @ with_periods T"
  by (simp add: with_periods_def)

lemma all_digits_no_separator:
  "all_digits T \<Longrightarrow> b \<in> set T \<Longrightarrow> b \<noteq> 0x2E \<and> b \<noteq> 0x3A"
  unfolding all_digits_def list_all_iff using digit_not_separator by blast

lemma split_seconds_whole: "all_digits T \<Longrightarrow> split_seconds (with_periods T) = (T, None)"
proof -
  assume "all_digits T"
  then have "split_once (\<lambda>b. b = byte_of_char CHR ''.'') (with_periods T) = None"
    unfolding split_once_None with_periods_id [OF \<open>all_digits T\<close>] separators
    using all_digits_no_separator by blast
  then show ?thesis using \<open>all_digits T\<close> by (simp add: split_seconds_def with_periods_id)
qed

lemma split_seconds_decimal:
  assumes "all_digits S" and "all_digits F"
    and "sep = byte_of_char CHR ''.'' \<or> sep = byte_of_char CHR '',''"
  shows "split_seconds (with_periods (S @ sep # F)) = (S, Some F)"
    and "length (filter (\<lambda>b. b = byte_of_char CHR ''.'') (with_periods (S @ sep # F))) = 1"
proof -
  have n: "with_periods (S @ sep # F) = S @ byte_of_char CHR ''.'' # F"
    using assms(3) with_periods_id [OF assms(1)] with_periods_id [OF assms(2)]
    unfolding with_periods_append by (auto simp: with_periods_def)
  have no: "\<forall>b\<in>set S. b \<noteq> byte_of_char CHR ''.''" "\<forall>b\<in>set F. b \<noteq> byte_of_char CHR ''.''"
    unfolding separators using assms(1,2) all_digits_no_separator by blast+
  show "split_seconds (with_periods (S @ sep # F)) = (S, Some F)"
    unfolding n split_seconds_def by (simp add: split_once_append no)
  show "length (filter (\<lambda>b. b = byte_of_char CHR ''.'') (with_periods (S @ sep # F))) = 1"
    unfolding n using no by (simp add: filter_empty_conv)
qed

lemma split_secondsD:
  assumes "split_seconds (with_periods T) = (S, f)" and "all_digits S"
    and "\<forall>F. f = Some F \<longrightarrow> all_digits F"
  shows "f = None \<and> T = S \<or>
    (\<exists>F sep. f = Some F \<and> T = S @ sep # F \<and>
       (sep = byte_of_char CHR ''.'' \<or> sep = byte_of_char CHR '',''))"
proof (cases "split_once (\<lambda>b. b = byte_of_char CHR ''.'') (with_periods T)")
  case None
  then have "f = None" "with_periods T = S" using assms(1) by (simp_all add: split_seconds_def)
  then show ?thesis using assms(2) by (metis with_periods_digits with_periods_id)
next
  case (Some p)
  obtain a b where p: "p = (a, b)" by (cases p)
  then have sf: "S = a" "f = Some b" using assms(1) Some by (simp_all add: split_seconds_def)
  have "with_periods T = S @ byte_of_char CHR ''.'' # b"
    by (rule split_once_SomeD [OF Some [unfolded p]]) (simp add: sf)
  then obtain S' y F' where T: "T = S' @ y # F'" and S': "with_periods S' = S"
    and y: "(if y = byte_of_char CHR '','' then byte_of_char CHR ''.'' else y) = byte_of_char CHR ''.''"
    and F': "with_periods F' = b"
    unfolding with_periods_def by (auto simp: map_eq_append_conv map_eq_Cons_conv)
  have "S' = S" using S' assms(2) by (metis with_periods_digits with_periods_id)
  moreover have "F' = b" using F' assms(3) sf(2) by (metis with_periods_digits with_periods_id)
  ultimately show ?thesis using T y sf(2) by (metis (full_types))
qed

lemma whole_seconds_Some:
  "whole_seconds h m s = Some w \<longleftrightarrow> w = h * 3600 + m * 60 + s \<and> w < 2 ^ 64"
  by (auto simp: whole_seconds_def checked_n_defs split: if_splits bind_splits)

lemma duration_tail:
  assumes "0 < scale"
  shows "and_then (ok_or (whole_seconds h m s) e) (\<lambda>whole.
      and_then (ok_or (Option.bind (checked_mul_n 64 whole scale)
          (\<lambda>value. checked_add_n 64 value f)) e) (\<lambda>numerator. Inr (reduced numerator scale))) = Inr d
    \<longleftrightarrow> (h * 3600 + m * 60 + s) * scale + f < 2 ^ 64
        \<and> d = reduced ((h * 3600 + m * 60 + s) * scale + f) scale"
proof (cases "whole_seconds h m s")
  case None
  have "\<not> h * 3600 + m * 60 + s < 2 ^ 64" using None whole_seconds_Some by (metis option.distinct(1))
  moreover have "h * 3600 + m * 60 + s \<le> (h * 3600 + m * 60 + s) * scale + f"
    using assms by (simp add: trans_le_add1)
  ultimately show ?thesis using None by (simp add: ok_or_def and_then_def)
next
  case (Some w)
  then have w: "w = h * 3600 + m * 60 + s" by (simp add: whole_seconds_Some)
  show ?thesis unfolding Some w [symmetric]
    by (auto simp: ok_or_def and_then_def checked_n_defs split: if_splits)
qed

definition seconds_parse ::
  "nat \<Rightarrow> nat \<Rightarrow> nat \<Rightarrow> u8 list \<Rightarrow> nat \<Rightarrow> u8 list \<Rightarrow> Duration \<Rightarrow> bool" where
  "seconds_parse parts h m T s F d \<longleftrightarrow>
     seconds_grammar T s F \<and> (1 < parts \<longrightarrow> s < 60) \<and> duration_total h m s F < 2 ^ 64
     \<and> d = reduced (duration_total h m s F) (10 ^ length F)"

lemma parse_seconds_unfold:
  "parse_seconds parts h m T =
     (if 1 < length (filter (\<lambda>b. b = byte_of_char CHR ''.'') (with_periods T))
      then Inl DurationError_InvalidSyntax
      else case split_seconds (with_periods T) of (whole_text, fraction_text) \<Rightarrow>
        and_then (integer whole_text) (\<lambda>seconds.
        if 1 < parts \<and> 60 \<le> seconds then Inl DurationError_OutOfRange
        else
          and_then (fraction_part fraction_text) (\<lambda>(fraction, scale).
          and_then (ok_or (whole_seconds h m seconds) DurationError_Overflow) (\<lambda>whole.
          and_then (ok_or (Option.bind (checked_mul_n 64 whole scale)
              (\<lambda>value. checked_add_n 64 value fraction)) DurationError_Overflow) (\<lambda>numerator.
          Inr (reduced numerator scale))))))"
  by (simp add: parse_seconds_def with_periods_def Let_def)

lemma and_then_Inr: "and_then r f = Inr v \<longleftrightarrow> (\<exists>x. r = Inr x \<and> f x = Inr v)"
  by (cases r) (auto simp: and_then_def)

lemma parse_seconds_sound:
  assumes "parse_seconds parts h m T = Inr d"
  shows "\<exists>s F. seconds_parse parts h m T s F d"
proof -
  obtain S f where split: "split_seconds (with_periods T) = (S, f)" by fastforce
  obtain s fr sc where s: "integer S = Inr s" and range: "1 < parts \<longrightarrow> s < 60"
    and fr: "fraction_part f = Inr (fr, sc)"
    and tail: "and_then (ok_or (whole_seconds h m s) DurationError_Overflow) (\<lambda>whole.
          and_then (ok_or (Option.bind (checked_mul_n 64 whole sc)
              (\<lambda>value. checked_add_n 64 value fr)) DurationError_Overflow) (\<lambda>numerator.
          Inr (reduced numerator sc))) = Inr d"
    using assms unfolding parse_seconds_unfold split
    by (auto simp: and_then_Inr split: if_splits prod.splits simp del: not_le)
  have S: "digits S" "s = dec_value S" using s by (simp_all add: integer_Inr)
  have "\<forall>F. f = Some F \<longrightarrow> all_digits F" using fr fraction_part_Inr by (auto simp: digits_def)
  then consider (whole) "f = None" "T = S"
    | (decimal) F sep where "f = Some F" "T = S @ sep # F"
        "sep = byte_of_char CHR ''.'' \<or> sep = byte_of_char CHR '',''"
    using split_secondsD [OF split] S(1) unfolding digits_def by blast
  then show ?thesis
  proof cases
    case whole
    then have v: "fr = 0" "sc = 1" using fr by (simp_all add: fraction_part_def)
    then have "0 < sc" by simp
    from tail have "(h * 3600 + m * 60 + s) * sc + fr < 2 ^ 64
        \<and> d = reduced ((h * 3600 + m * 60 + s) * sc + fr) sc"
      unfolding duration_tail [OF \<open>0 < sc\<close>] .
    then have "seconds_parse parts h m T s [] d"
      using range seconds_grammar.whole [OF S(1)]
      unfolding seconds_parse_def duration_total_def whole(2) S(2) v by (simp add: dec_value_def)
    then show ?thesis by blast
  next
    case decimal
    then have F: "digits F" "length F \<le> 18" and v: "fr = dec_value F" "sc = 10 ^ length F"
      using fr fraction_part_Inr by auto
    have "0 < sc" by (simp add: v)
    from tail have "(h * 3600 + m * 60 + s) * sc + fr < 2 ^ 64
        \<and> d = reduced ((h * 3600 + m * 60 + s) * sc + fr) sc"
      unfolding duration_tail [OF \<open>0 < sc\<close>] .
    then have "seconds_parse parts h m T s F d"
      using range seconds_grammar.decimal [OF S(1) F decimal(3)]
      unfolding seconds_parse_def duration_total_def decimal(2) S(2) v by simp
    then show ?thesis by blast
  qed
qed

lemma parse_seconds_complete:
  assumes "seconds_parse parts h m T s F d"
  shows "parse_seconds parts h m T = Inr d"
proof -
  have range: "\<not> (1 < parts \<and> 60 \<le> s)" and total: "duration_total h m s F < 2 ^ 64"
    and d: "d = reduced (duration_total h m s F) (10 ^ length F)" and g: "seconds_grammar T s F"
    using assms unfolding seconds_parse_def by auto
  have pos: "0 < (10 :: nat) ^ length F" by simp
  have "s \<le> duration_total h m s F" "dec_value F \<le> duration_total h m s F"
    unfolding duration_total_def by (simp_all add: trans_le_add1 trans_le_add2 add_mult_distrib)
  then have fits: "s < 2 ^ 64" "dec_value F < 2 ^ 64" using total by linarith+
  note tail = duration_tail [OF pos, of h m s DurationError_Overflow "dec_value F" d, THEN iffD2,
      OF conjI, OF total [unfolded duration_total_def] d [unfolded duration_total_def]]
  from g show ?thesis
  proof cases
    case whole
    have f: "dec_value [] = 0" by (simp add: dec_value_def)
    have int: "integer T = Inr s" using whole fits by (simp add: integer_Inr)
    have "filter (\<lambda>b. b = byte_of_char CHR ''.'') (with_periods T) = []"
      using whole(3) all_digits_no_separator [of T] unfolding digits_def separators
      by (auto simp: with_periods_id filter_empty_conv)
    then show ?thesis
      using tail [unfolded whole(2) f] whole(3) range
      unfolding parse_seconds_unfold digits_def
      by (simp add: split_seconds_whole int and_then_def [of "Inr _"] fraction_part_def)
  next
    case (decimal S sep)
    have int: "integer S = Inr s" using decimal fits by (simp add: integer_Inr)
    have fr: "fraction_part (Some F) = Inr (dec_value F, 10 ^ length F)"
      using decimal fits by (simp add: fraction_part_Inr)
    note sp = split_seconds_decimal [of S F sep]
    show ?thesis
      using sp decimal range tail unfolding parse_seconds_unfold digits_def
      by (simp add: int fr and_then_def [of "Inr _"])
  qed
qed

lemma parse_seconds_Inr:
  "parse_seconds parts h m T = Inr d \<longleftrightarrow> (\<exists>s F. seconds_parse parts h m T s F d)"
  using parse_seconds_sound parse_seconds_complete by blast

section \<open>Correctness\<close>

lemma seconds_grammar_no_colon:
  "seconds_grammar T s F \<Longrightarrow> \<forall>b\<in>set T. b \<noteq> byte_of_char CHR '':''"
  by (induction rule: seconds_grammar.induct)
    (auto simp: digits_def separators dest: all_digits_no_separator)

lemma seconds_grammar_starts:
  "seconds_grammar T s F \<Longrightarrow> T \<noteq> [] \<and> is_ascii_digit (hd T)"
  by (induction rule: seconds_grammar.induct) (auto simp: digits_def neq_Nil_conv)

lemma duration_grammar_starts:
  "duration_grammar T h m s F \<Longrightarrow> T \<noteq> [] \<and> is_ascii_digit (hd T)"
  by (induction rule: duration_grammar.induct)
    (auto simp: seconds_grammar_starts digits_def neq_Nil_conv)

definition duration_of_text :: "u8 list \<Rightarrow> Duration \<Rightarrow> bool" where
  "duration_of_text T d \<longleftrightarrow> (\<exists>h m s F. duration_grammar T h m s F
     \<and> duration_total h m s F < 2 ^ 64 \<and> d = reduced (duration_total h m s F) (10 ^ length F))"

text \<open>The body of \<open>parse\<close> after the trim.\<close>

definition duration_body :: "u8 list \<Rightarrow> DurationError + Duration" where
  "duration_body input =
     (let components = split_on (\<lambda>b. b = byte_of_char CHR '':'') input in
      if \<not> (1 \<le> length components \<and> length components \<le> 3) then Inl DurationError_InvalidSyntax
      else
        and_then (colon_parts components) (\<lambda>(hours, minutes, seconds_text).
        if length components = 3 \<and> 60 \<le> minutes then Inl DurationError_OutOfRange
        else parse_seconds (length components) hours minutes seconds_text))"

lemma duration_body_sound:
  assumes "duration_body T = Inr d"
  shows "duration_of_text T d"
proof -
  let ?c = "\<lambda>b. b = byte_of_char CHR '':''"
  obtain C where C: "split_on ?c T = C" by simp
  have "C \<noteq> []" and len: "length C \<le> 3"
    using assms C by (auto simp: duration_body_def Let_def split: if_splits)
  then consider (one) a where "C = [a]" | (two) a b where "C = [a, b]" | (three) a b c where "C = [a, b, c]"
    by (cases C rule: list.exhaust; cases "tl C"; cases "tl (tl C)"; cases "tl (tl (tl C))") auto
  then show ?thesis
  proof cases
    case one
    then obtain s F where "seconds_parse 1 0 0 T s F d"
      using assms C split_on_single [of ?c T a]
      by (auto simp: duration_body_def colon_parts_def and_then_Inr parse_seconds_Inr)
    then show ?thesis unfolding duration_of_text_def seconds_parse_def using duration_grammar.seconds by blast
  next
    case two
    then have T: "T = a @ byte_of_char CHR '':'' # b"
      using C split_on_more [of ?c T a b "[]"] split_on_single [of ?c _ b] by auto
    obtain m s F where "integer a = Inr m" "seconds_parse 2 0 m b s F d"
      using assms C two
      by (auto simp: duration_body_def colon_parts_def and_then_Inr parse_seconds_Inr numeral_2_eq_2)
    then show ?thesis
      unfolding duration_of_text_def seconds_parse_def T integer_Inr using duration_grammar.minutes by fastforce
  next
    case three
    then have T: "T = a @ byte_of_char CHR '':'' # b @ byte_of_char CHR '':'' # c"
      using C split_on_more [of ?c T a b "[c]"] split_on_more [of ?c _ b c "[]"] split_on_single [of ?c _ c]
      by auto
    obtain h m s F where "integer a = Inr h" "integer b = Inr m" "m < 60" "seconds_parse 3 h m c s F d"
      using assms C three
      by (auto simp: duration_body_def colon_parts_def and_then_Inr parse_seconds_Inr numeral_3_eq_3
          split: if_splits)
    then show ?thesis
      unfolding duration_of_text_def seconds_parse_def T integer_Inr using duration_grammar.hours by fastforce
  qed
qed

lemma digits_no_colon: "digits a \<Longrightarrow> \<forall>b\<in>set a. \<not> b = byte_of_char CHR '':''"
  unfolding digits_def separators using all_digits_no_separator by blast

lemma duration_body_complete:
  assumes "duration_of_text T d"
  shows "duration_body T = Inr d"
proof -
  let ?c = "\<lambda>b. b = byte_of_char CHR '':''"
  obtain h m s F where g: "duration_grammar T h m s F" and total: "duration_total h m s F < 2 ^ 64"
    and d: "d = reduced (duration_total h m s F) (10 ^ length F)"
    using assms unfolding duration_of_text_def by blast
  have "h * 3600 + m * 60 + s \<le> duration_total h m s F"
    unfolding duration_total_def by (simp add: trans_le_add1)
  then have fits: "h < 2 ^ 64" "m < 2 ^ 64" using total by linarith+
  have sp: "\<And>parts U. seconds_grammar U s F \<Longrightarrow> 1 < parts \<longrightarrow> s < 60
      \<Longrightarrow> parse_seconds parts h m U = Inr d"
    using parse_seconds_complete total d unfolding seconds_parse_def by blast
  from g show ?thesis
  proof cases
    case seconds
    then have "split_on ?c T = [T]" by (simp add: split_on_none seconds_grammar_no_colon)
    then show ?thesis
      using sp [of T 1] seconds by (simp add: duration_body_def colon_parts_def and_then_def)
  next
    case (minutes M U)
    then have "split_on ?c T = [M, U]"
      by (simp add: split_on_append split_on_none seconds_grammar_no_colon digits_no_colon)
    moreover have "integer M = Inr m" using minutes fits by (simp add: integer_Inr)
    ultimately show ?thesis
      using sp [of U 2] minutes
      by (simp add: duration_body_def colon_parts_def and_then_def numeral_2_eq_2)
  next
    case (hours H M U)
    then have "split_on ?c T = [H, M, U]"
      by (simp add: split_on_append split_on_none seconds_grammar_no_colon digits_no_colon)
    moreover have "integer M = Inr m" "integer H = Inr h" using hours fits by (simp_all add: integer_Inr)
    ultimately show ?thesis
      using sp [of U 3] hours
      by (simp add: duration_body_def colon_parts_def and_then_def numeral_3_eq_3)
  qed
qed

lemma Duration_parse_body:
  "Duration_parse t =
     (let T = str_trim (bytes_of_str t) in
      if T = [] \<or> hd T = byte_of_char CHR ''-'' \<or> hd T = byte_of_char CHR ''+''
      then Inl DurationError_InvalidSyntax else duration_body T)"
  unfolding Duration_parse_def duration_body_def ..

lemma Duration_parse_Inr: "Duration_parse t = Inr d \<longleftrightarrow> duration_of_text (str_trim (bytes_of_str t)) d"
proof -
  let ?T = "str_trim (bytes_of_str t)"
  let ?bad = "?T = [] \<or> hd ?T = byte_of_char CHR ''-'' \<or> hd ?T = byte_of_char CHR ''+''"
  have "\<not> ?bad" if gram: "duration_of_text ?T d"
  proof -
    obtain h m s F where "duration_grammar ?T h m s F" using gram unfolding duration_of_text_def by blast
    then have starts: "?T \<noteq> []" "is_ascii_digit (hd ?T)" using duration_grammar_starts by blast+
    show ?thesis using starts(1) digit_not_separator [OF starts(2)] unfolding separators by blast
  qed
  moreover have "Duration_parse t = (if ?bad then Inl DurationError_InvalidSyntax else duration_body ?T)"
    unfolding Duration_parse_body Let_def ..
  ultimately show ?thesis using duration_body_sound duration_body_complete by (metis sum.distinct(1))
qed

text \<open>
  C35. Parsing a duration is exact: a text gives a duration precisely when, trimmed, it is one of
  the documented forms, the total in units of its last decimal fits 64 bits, and then the result
  is the unique fraction in lowest terms of that many seconds. Texts that are not a duration,
  and durations too long for the representation, are errors and never a wrong value.
\<close>
theorem duration_parse_exact:
  "Duration_parse t = Inr d \<longleftrightarrow>
     (\<exists>h m s F. duration_grammar (str_trim (bytes_of_str t)) h m s F
        \<and> duration_total h m s F < 2 ^ 64
        \<and> du_numerator d * 10 ^ length F = duration_total h m s F * du_denominator d
        \<and> 0 < du_denominator d \<and> coprime (du_numerator d) (du_denominator d))"
proof -
  have key: "du_numerator d * b = a * du_denominator d \<and> 0 < du_denominator d
      \<and> coprime (du_numerator d) (du_denominator d) \<longleftrightarrow> d = reduced a b" if "0 < b" for a b
  proof
    assume "d = reduced a b"
    moreover have "du_numerator (reduced a b) * b = a * du_denominator (reduced a b)"
      using reduced_laws(1) [OF that, of a] reduced_laws(3) [OF that, of a] that
      unfolding duration_value_def by (simp add: frac_eq_eq flip: of_nat_mult)
    ultimately show "du_numerator d * b = a * du_denominator d \<and> 0 < du_denominator d
      \<and> coprime (du_numerator d) (du_denominator d)"
      using reduced_laws [OF that, of a] by simp
  qed (use reduced_unique [OF that] in blast)
  have lowest: "d = reduced a (10 ^ length F) \<longleftrightarrow>
      du_numerator d * 10 ^ length F = a * du_denominator d \<and> 0 < du_denominator d
      \<and> coprime (du_numerator d) (du_denominator d)" for a and F :: "u8 list"
    by (rule key [symmetric]) simp
  show ?thesis unfolding Duration_parse_Inr duration_of_text_def lowest ..
qed

text \<open>The frames of a duration are the whole frames of its exact seconds.\<close>

lemma to_frames_floor_exact:
  assumes "0 < du_denominator d" and "Duration_to_frames_floor d rate = Inr n"
  shows "int n = \<lfloor>duration_value d * of_nat (unat rate)\<rfloor>" and "n < 2 ^ 64"
proof -
  have n: "n = du_numerator d * unat rate div du_denominator d" and "n < 2 ^ 64"
    using assms(2) by (auto simp: Duration_to_frames_floor_def ok_or_def and_then_def checked_n_defs
        split: if_splits)
  show "n < 2 ^ 64" by fact
  have "duration_value d * of_nat (unat rate)
      = (of_nat (du_numerator d * unat rate) / of_nat (du_denominator d) :: rat)"
    by (simp add: duration_value_def)
  then show "int n = \<lfloor>duration_value d * of_nat (unat rate)\<rfloor>"
    by (simp only: n floor_divide_of_nat_eq)
qed

end
