(* ===== verification/Psf_Metadata.thy ===== *)
theory Psf_Metadata
  imports Psf_Container Psf_Duration
begin

text \<open>
  Playback metadata (\<open>crates/formats/shared/psf/src/metadata.rs\<close>) and the reading of
  \<open>f64\<close> text it relies on. A finite \<open>f64\<close> is the rational it denotes (the sign of zero is
  not kept): \<open>str::parse\<close> gives the double nearest to the decimal number, ties to even.
\<close>

section \<open>\<open>f64\<close> text\<close>

datatype F64 = F64_Finite rat | F64_Infinite | F64_NaN

definition is_finite :: "F64 \<Rightarrow> bool" where
  "is_finite x = (case x of F64_Finite _ \<Rightarrow> True | _ \<Rightarrow> False)"

fun bit_length :: "nat \<Rightarrow> nat" where
  "bit_length n = (if n = 0 then 0 else Suc (bit_length (n div 2)))"

declare bit_length.simps [simp del]

definition pow_int :: "rat \<Rightarrow> int \<Rightarrow> rat" where
  "pow_int b e = (if 0 \<le> e then b ^ nat e else 1 / b ^ nat (- e))"

definition round_half_even :: "rat \<Rightarrow> int" where
  "round_half_even q =
     (let f = \<lfloor>q\<rfloor>; r = q - of_int f in
      if r < 1 / 2 then f else if 1 / 2 < r then f + 1 else if even f then f else f + 1)"

text \<open>The double nearest to a nonnegative number.\<close>

definition f64_round :: "rat \<Rightarrow> F64" where
  "f64_round q =
     (let (n, d) = quotient_of q;
          k = int (bit_length (nat n)) - int (bit_length (nat d));
          k = (if q < pow_int 2 k then k - 1 else k);
          e = max (k - 52) (- 1074);
          value = of_int (round_half_even (q / pow_int 2 e)) * pow_int 2 e in
      if pow_int 2 1024 \<le> value then F64_Infinite else F64_Finite value)"

definition f64_exponent :: "u8 list \<Rightarrow> int option" where
  "f64_exponent bs = (case bs of
     [] \<Rightarrow> Some 0
   | c # cs \<Rightarrow>
       if to_ascii_lowercase c \<noteq> byte_of_char CHR ''e'' then None
       else
         let ds = (case cs of [] \<Rightarrow> [] | s # r \<Rightarrow>
               if s = byte_of_char CHR ''-'' \<or> s = byte_of_char CHR ''+'' then r else cs);
             negative = (case cs of [] \<Rightarrow> False | s # r \<Rightarrow> s = byte_of_char CHR ''-'') in
         if ds = [] \<or> \<not> all_digits ds then None
         else Some (if negative then - int (dec_value ds) else int (dec_value ds)))"

definition f64_number :: "u8 list \<Rightarrow> rat option" where
  "f64_number bs =
     (let whole = takeWhile is_ascii_digit bs;
          rest = dropWhile is_ascii_digit bs;
          dot = (case rest of [] \<Rightarrow> False | c # _ \<Rightarrow> c = byte_of_char CHR ''.'');
          decimals = (if dot then takeWhile is_ascii_digit (tl rest) else []);
          tail = (if dot then dropWhile is_ascii_digit (tl rest) else rest) in
      if whole = [] \<and> decimals = [] then None
      else map_option
        (\<lambda>e. of_nat (dec_value (whole @ decimals)) * pow_int 10 (e - int (length decimals)))
        (f64_exponent tail))"

definition f64_negate :: "F64 \<Rightarrow> F64" where
  "f64_negate x = (case x of F64_Finite q \<Rightarrow> F64_Finite (- q) | _ \<Rightarrow> x)"

definition f64_parse :: "u8 list \<Rightarrow> F64 option" where
  "f64_parse bs =
     (let signed = (case bs of [] \<Rightarrow> False
            | c # _ \<Rightarrow> c = byte_of_char CHR ''-'' \<or> c = byte_of_char CHR ''+'');
          body = (if signed then tl bs else bs);
          lower = map to_ascii_lowercase body;
          sign = (if signed \<and> hd bs = byte_of_char CHR ''-'' then f64_negate else (\<lambda>x. x)) in
      if body = [] then None
      else case f64_number body of
        Some q \<Rightarrow> Some (sign (f64_round q))
      | None \<Rightarrow>
          if lower = bytes_of_str ''inf'' \<or> lower = bytes_of_str ''infinity'' then Some F64_Infinite
          else if lower = bytes_of_str ''nan'' then Some F64_NaN
          else None)"

section \<open>Metadata\<close>

datatype RefreshRate = RefreshRate_Hz50 | RefreshRate_Hz60

definition RefreshRate_hz :: "RefreshRate \<Rightarrow> u8" where
  "RefreshRate_hz self = (case self of RefreshRate_Hz50 \<Rightarrow> 50 | RefreshRate_Hz60 \<Rightarrow> 60)"

record PlaybackMetadata =
  pm_title :: "string option"
  pm_artist :: "string option"
  pm_game :: "string option"
  pm_year :: "string option"
  pm_genre :: "string option"
  pm_comment :: "string option"
  pm_copyright :: "string option"
  pm_psfby :: "string option"
  pm_volume :: F64
  pm_length :: "Duration option"
  pm_fade :: Duration
  pm_refresh :: "RefreshRate option"
  pm_raw_tags :: "Tag list"

datatype MetadataError =
    MetadataError_InvalidVolume
  | MetadataError_InvalidDuration DurationError
  | MetadataError_InvalidRefresh

definition metadata_volume :: "Tags \<Rightarrow> MetadataError + F64" where
  "metadata_volume tags =
     (case Tags_get tags ''volume'' of
        None \<Rightarrow> Inr (F64_Finite 1)
      | Some value \<Rightarrow>
          and_then (ok_or (f64_parse (map (\<lambda>b. if b = byte_of_char CHR '',''
              then byte_of_char CHR ''.'' else b) (bytes_of_str value))) MetadataError_InvalidVolume)
            (\<lambda>parsed. if is_finite parsed then Inr parsed else Inl MetadataError_InvalidVolume))"

definition metadata_duration :: "Tags \<Rightarrow> string \<Rightarrow> MetadataError + Duration option" where
  "metadata_duration tags key =
     (case Tags_get tags key of
        None \<Rightarrow> Inr None
      | Some value \<Rightarrow> map_err MetadataError_InvalidDuration
          (and_then (Duration_parse value) (\<lambda>d. Inr (Some d))))"

definition metadata_refresh :: "Tags \<Rightarrow> MetadataError + RefreshRate option" where
  "metadata_refresh tags =
     (case Tags_get tags ''_refresh'' of
        None \<Rightarrow> Inr None
      | Some value \<Rightarrow>
          if value = ''50'' then Inr (Some RefreshRate_Hz50)
          else if value = ''60'' then Inr (Some RefreshRate_Hz60)
          else Inl MetadataError_InvalidRefresh)"

definition PlaybackMetadata_parse :: "Tags \<Rightarrow> MetadataError + PlaybackMetadata" where
  "PlaybackMetadata_parse tags =
     and_then (metadata_volume tags) (\<lambda>volume.
     and_then (metadata_duration tags ''length'') (\<lambda>length'.
     and_then (metadata_duration tags ''fade'') (\<lambda>fade.
     and_then (metadata_refresh tags) (\<lambda>refresh.
     Inr \<lparr>pm_title = Tags_get tags ''title'', pm_artist = Tags_get tags ''artist'',
       pm_game = Tags_get tags ''game'', pm_year = Tags_get tags ''year'',
       pm_genre = Tags_get tags ''genre'', pm_comment = Tags_get tags ''comment'',
       pm_copyright = Tags_get tags ''copyright'', pm_psfby = Tags_get tags ''psfby'',
       pm_volume = volume, pm_length = length',
       pm_fade = (case fade of None \<Rightarrow> Duration_ZERO | Some d \<Rightarrow> d),
       pm_refresh = refresh, pm_raw_tags = tags\<rparr>))))"

lemma parse_metadata_refresh:
  "PlaybackMetadata_parse tags = Inr m \<Longrightarrow> metadata_refresh tags = Inr (pm_refresh m)"
  by (auto simp: PlaybackMetadata_parse_def and_then_Inr)

end
