(* ===== verification/Result_State.thy ===== *)
theory Result_State
  imports Upse_Prelude
begin

text \<open>
  Methods on \<open>&mut self\<close> that return a \<open>Result\<close>: functions from the state to a
  result and the new state, which an error keeps (an early return with \<open>?\<close> leaves
  whatever was already written). \<open>rs_wp m Q E s\<close> says that \<open>m\<close> run from \<open>s\<close> ends in
  \<open>Q\<close> when it succeeds and in \<open>E\<close> when it fails; its equations, in the collection
  \<open>rs_wp\<close>, compute it through a method body.
\<close>

type_synonym ('s, 'e, 'a) rs = "'s \<Rightarrow> ('e + 'a) \<times> 's"

definition rs_return :: "'a \<Rightarrow> ('s, 'e, 'a) rs" where
  "rs_return x = (\<lambda>s. (Inr x, s))"

definition rs_fail :: "'e \<Rightarrow> ('s, 'e, 'a) rs" where
  "rs_fail e = (\<lambda>s. (Inl e, s))"

definition rs_lift :: "'e + 'a \<Rightarrow> ('s, 'e, 'a) rs" where
  "rs_lift r = (\<lambda>s. (r, s))"

definition rs_get :: "('s \<Rightarrow> 'a) \<Rightarrow> ('s, 'e, 'a) rs" where
  "rs_get f = (\<lambda>s. (Inr (f s), s))"

definition rs_try :: "('s \<Rightarrow> 'e + 'a) \<Rightarrow> ('s, 'e, 'a) rs" where
  "rs_try f = (\<lambda>s. (f s, s))"

definition rs_modify :: "('s \<Rightarrow> 's) \<Rightarrow> ('s, 'e, unit) rs" where
  "rs_modify f = (\<lambda>s. (Inr (), f s))"

definition rs_bind :: "('s, 'e, 'a) rs \<Rightarrow> ('a \<Rightarrow> ('s, 'e, 'b) rs) \<Rightarrow> ('s, 'e, 'b) rs" where
  "rs_bind m f = (\<lambda>s. case m s of (Inl e, s') \<Rightarrow> (Inl e, s') | (Inr x, s') \<Rightarrow> f x s')"

definition rs_then :: "('s, 'e, unit) rs \<Rightarrow> ('s, 'e, 'b) rs \<Rightarrow> ('s, 'e, 'b) rs" where
  "rs_then m n = rs_bind m (\<lambda>_. n)"

definition rs_map :: "('a \<Rightarrow> 'b) \<Rightarrow> ('s, 'e, 'a) rs \<Rightarrow> ('s, 'e, 'b) rs" where
  "rs_map f m = rs_bind m (\<lambda>x. rs_return (f x))"

definition rs_map_err :: "('e \<Rightarrow> 'f) \<Rightarrow> ('s, 'e, 'a) rs \<Rightarrow> ('s, 'f, 'a) rs" where
  "rs_map_err f m = (\<lambda>s. let (r, s') = m s in (map_err f r, s'))"

text \<open>A method of the first component of the state, with the second untouched.\<close>

definition rs_fst :: "('s, 'e, 'a) rs \<Rightarrow> ('s \<times> 't, 'e, 'a) rs" where
  "rs_fst m = (\<lambda>(s, t). let (r, s') = m s in (r, (s', t)))"

section \<open>Weakest preconditions\<close>

definition rs_wp ::
    "('s, 'e, 'a) rs \<Rightarrow> ('a \<Rightarrow> 's \<Rightarrow> bool) \<Rightarrow> ('e \<Rightarrow> 's \<Rightarrow> bool) \<Rightarrow> 's \<Rightarrow> bool" where
  "rs_wp m Q E s = (case m s of (Inl e, s') \<Rightarrow> E e s' | (Inr x, s') \<Rightarrow> Q x s')"

named_theorems rs_wp

lemma wp_return [rs_wp]: "rs_wp (rs_return x) Q E = Q x"
  by (rule ext) (simp add: rs_wp_def rs_return_def)

lemma wp_fail [rs_wp]: "rs_wp (rs_fail e) Q E = E e"
  by (rule ext) (simp add: rs_wp_def rs_fail_def)

lemma wp_lift [rs_wp]: "rs_wp (rs_lift r) Q E = (case r of Inl e \<Rightarrow> E e | Inr x \<Rightarrow> Q x)"
  by (rule ext) (simp add: rs_wp_def rs_lift_def split: sum.split)

lemma wp_get [rs_wp]: "rs_wp (rs_get f) Q E = (\<lambda>s. Q (f s) s)"
  by (rule ext) (simp add: rs_wp_def rs_get_def)

lemma wp_try [rs_wp]: "rs_wp (rs_try f) Q E = (\<lambda>s. case f s of Inl e \<Rightarrow> E e s | Inr x \<Rightarrow> Q x s)"
  by (rule ext) (simp add: rs_wp_def rs_try_def)

lemma wp_modify [rs_wp]: "rs_wp (rs_modify f) Q E = (\<lambda>s. Q () (f s))"
  by (rule ext) (simp add: rs_wp_def rs_modify_def)

lemma wp_bind [rs_wp]: "rs_wp (rs_bind m f) Q E = rs_wp m (\<lambda>x. rs_wp (f x) Q E) E"
  by (rule ext) (auto simp: rs_wp_def rs_bind_def split: prod.splits sum.splits)

lemma wp_then [rs_wp]: "rs_wp (rs_then m n) Q E = rs_wp m (\<lambda>_. rs_wp n Q E) E"
  by (simp add: rs_then_def wp_bind)

lemma wp_map [rs_wp]: "rs_wp (rs_map f m) Q E = rs_wp m (\<lambda>x. Q (f x)) E"
  by (simp add: rs_map_def wp_bind wp_return)

lemma wp_map_err [rs_wp]: "rs_wp (rs_map_err f m) Q E = rs_wp m Q (\<lambda>e. E (f e))"
  by (rule ext) (auto simp: rs_wp_def rs_map_err_def map_err_def Let_def split: prod.splits sum.splits)

lemma wp_fst [rs_wp]:
  "rs_wp (rs_fst m) Q E = (\<lambda>(s, t). rs_wp m (\<lambda>x s'. Q x (s', t)) (\<lambda>e s'. E e (s', t)) s)"
  by (rule ext) (auto simp: rs_wp_def rs_fst_def Let_def split: prod.splits sum.splits)

lemma wp_if [rs_wp]:
  "rs_wp (if b then m else n) Q E = (if b then rs_wp m Q E else rs_wp n Q E)"
  by simp

lemma wp_mono:
  "rs_wp m Q E s \<Longrightarrow> (\<And>x s'. Q x s' \<Longrightarrow> Q' x s') \<Longrightarrow> (\<And>e s'. E e s' \<Longrightarrow> E' e s') \<Longrightarrow> rs_wp m Q' E' s"
  by (auto simp: rs_wp_def split: prod.splits sum.splits)

lemma wp_conj:
  "rs_wp m Q E s \<Longrightarrow> rs_wp m Q' E' s \<Longrightarrow>
     rs_wp m (\<lambda>x s'. Q x s' \<and> Q' x s') (\<lambda>e s'. E e s' \<and> E' e s') s"
  by (auto simp: rs_wp_def split: prod.splits sum.splits)

text \<open>A property of the state that a method keeps whether or not it succeeds.\<close>

definition rs_keeps :: "('s \<Rightarrow> bool) \<Rightarrow> ('s, 'e, 'a) rs \<Rightarrow> bool" where
  "rs_keeps I m \<longleftrightarrow> (\<forall>s. I s \<longrightarrow> rs_wp m (\<lambda>_. I) (\<lambda>_. I) s)"

lemma rs_keepsI: "(\<And>s. I s \<Longrightarrow> rs_wp m (\<lambda>_. I) (\<lambda>_. I) s) \<Longrightarrow> rs_keeps I m"
  by (simp add: rs_keeps_def)

lemma rs_keepsD: "rs_keeps I m \<Longrightarrow> I s \<Longrightarrow> I (snd (m s))"
  by (cases "m s") (auto simp: rs_keeps_def rs_wp_def split: sum.splits dest: spec [of _ s])

end
