(* ===== verification/Psf_Load.thy ===== *)
theory Psf_Load
  imports Psf_Metadata Result_State "HOL-Library.Code_Target_Numeral"
begin

text \<open>
  The dependency plan of a PSF file (\<open>crates/formats/shared/psf/src/load.rs\<close>): the
  traversal of the \<open>_lib\<close> tags under the limits on depth, files and bytes, the detection
  of cycles, and the order of the layers. The resolver is a state of its own with one
  operation, as the trait has it; \<open>MemoryResolver\<close> is the one the source gives without a
  file system.
\<close>

section \<open>Limits, errors and plans\<close>

record DependencyLimits =
  max_depth :: usize
  max_files :: usize
  max_aggregate_bytes :: usize

definition DependencyLimits_default :: DependencyLimits where
  "DependencyLimits_default =
     \<lparr>max_depth = 10, max_files = 256, max_aggregate_bytes = 128 * 1024 * 1024\<rparr>"

record ResolverError =
  re_message :: string

record ResolvedFile =
  rf_origin :: string
  rf_bytes :: "u8 list"

type_synonym 'r Resolver = "'r \<Rightarrow> string \<Rightarrow> string \<Rightarrow> (ResolverError + ResolvedFile) \<times> 'r"

record PlanLayer =
  layer_origin :: string
  layer_container :: PsfContainer

record Psf1LoadPlan =
  p1_root_origin :: string
  p1_layers :: "PlanLayer list"
  p1_initial_state_origin :: string
  p1_refresh_override :: "RefreshRate option"
  p1_metadata :: PlaybackMetadata

record Psf2LoadPlan =
  p2_root_origin :: string
  p2_layers :: "PlanLayer list"
  p2_refresh_override :: "RefreshRate option"
  p2_metadata :: PlaybackMetadata

datatype LoadPlan = LoadPlan_Psf1 Psf1LoadPlan | LoadPlan_Psf2 Psf2LoadPlan

datatype LoadError =
    LoadError_Parse ParseError
  | LoadError_Metadata string MetadataError
  | LoadError_Resolve string string ResolverError
  | LoadError_VersionMismatch string PsfVersion PsfVersion
  | LoadError_Cycle "string list"
  | LoadError_LimitExceeded string

section \<open>Logical paths\<close>

definition forward_slashes :: "string \<Rightarrow> string" where
  "forward_slashes s = map (\<lambda>c. if c = CHR 0x5C then CHR ''/'' else c) s"

text \<open>
  The components of a path that \<open>normalize_logical\<close> does not skip (\<open>Path::components\<close> on
  Unix, where no path has a prefix): \<open>..\<close> is \<open>ParentDir\<close>, the rest is \<open>Normal\<close>.
\<close>

definition path_components :: "string \<Rightarrow> string list" where
  "path_components path =
     filter (\<lambda>part. part \<noteq> [] \<and> part \<noteq> ''.'') (split_on (\<lambda>c. c = CHR ''/'') path)"

fun normal_parts :: "string list \<Rightarrow> string list \<Rightarrow> ResolverError + string list" where
  "normal_parts [] parts = Inr parts"
| "normal_parts (component # components) parts =
     (if component = ''..''
      then if parts = [] then Inl \<lparr>re_message = ''logical path escapes resolver root''\<rparr>
        else normal_parts components (butlast parts)
      else normal_parts components (parts @ [component]))"

definition join_path :: "string list \<Rightarrow> string" where
  "join_path parts = concat (case parts of [] \<Rightarrow> []
     | p # ps \<Rightarrow> p # map (\<lambda>part. CHR ''/'' # part) ps)"

definition normalize_logical :: "string \<Rightarrow> ResolverError + string" where
  "normalize_logical input =
     and_then (normal_parts (path_components (forward_slashes input)) []) (\<lambda>parts.
     if parts = [] then Inl \<lparr>re_message = ''empty logical origin''\<rparr> else Inr (join_path parts))"

text \<open>
  \<open>PathBuf::pop\<close> of a normalized path, and \<open>PathBuf::push\<close>: an absolute path replaces
  the base.
\<close>

definition path_pop :: "string \<Rightarrow> string" where
  "path_pop path = join_path (butlast (split_on (\<lambda>c. c = CHR ''/'') path))"

definition path_push :: "string \<Rightarrow> string \<Rightarrow> string" where
  "path_push base path =
     (if path \<noteq> [] \<and> hd path = CHR ''/'' then path
      else if base \<noteq> [] \<and> last base \<noteq> CHR ''/'' then base @ CHR ''/'' # path
      else base @ path)"

definition resolve_logical :: "string \<Rightarrow> string \<Rightarrow> ResolverError + string" where
  "resolve_logical containing_origin reference =
     and_then (normalize_logical containing_origin) (\<lambda>containing.
     normalize_logical (path_push (path_pop containing) (forward_slashes reference)))"

type_synonym MemoryResolver = "string \<rightharpoonup> u8 list"

definition MemoryResolver_new :: MemoryResolver where
  "MemoryResolver_new = Map.empty"

definition MemoryResolver_insert ::
    "MemoryResolver \<Rightarrow> string \<Rightarrow> u8 list \<Rightarrow> (ResolverError + unit) \<times> MemoryResolver" where
  "MemoryResolver_insert self origin bytes =
     (case normalize_logical origin of
        Inl e \<Rightarrow> (Inl e, self) | Inr origin \<Rightarrow> (Inr (), self(origin \<mapsto> bytes)))"

definition MemoryResolver_resolve :: "MemoryResolver Resolver" where
  "MemoryResolver_resolve self containing_origin reference =
     (and_then (resolve_logical containing_origin reference) (\<lambda>origin.
      and_then (ok_or (self origin) \<lparr>re_message = ''missing logical file '' @ origin\<rparr>) (\<lambda>bytes.
      Inr \<lparr>rf_origin = origin, rf_bytes = bytes\<rparr>)), self)"

section \<open>Library tags\<close>

text \<open>The decimal text of a number, as \<open>format!\<close> writes it.\<close>

fun decimal_str :: "nat \<Rightarrow> string" where
  "decimal_str n = (if n < 10 then [char_of (0x30 + n)] else decimal_str (n div 10) @ [char_of (0x30 + n mod 10)])"

declare decimal_str.simps [simp del]

definition lib_key :: "nat \<Rightarrow> string" where
  "lib_key index = ''_lib'' @ decimal_str index"

lemma digit_byte: "d < 10 \<Longrightarrow> byte_of_char (char_of (0x30 + d)) = of_nat (0x30 + d)"
  by (simp add: byte_of_char_def)

lemma digit_byte_nat: "d < 10 \<Longrightarrow> unat (of_nat (0x30 + d) :: u8) = 0x30 + d"
  by (subst unat_of_nat_small) simp_all

lemma decimal_bytes:
  "all_digits (bytes_of_str (decimal_str n)) \<and> dec_value (bytes_of_str (decimal_str n)) = n"
proof (induction n rule: decimal_str.induct)
  case (1 n)
  have digit: "is_ascii_digit (of_nat (0x30 + d))" if "d < 10" for d
    using digit_byte_nat [OF that] that by (simp add: is_ascii_digit_def word_le_nat_alt)
  show ?case
  proof (cases "n < 10")
    case True
    then show ?thesis
      using digit [OF True] digit_byte [OF True] digit_byte_nat [OF True]
      by (simp add: decimal_str.simps [of n] bytes_of_str_def dec_value_def)
  next
    case False
    have d: "n mod 10 < 10" by simp
    have "bytes_of_str (decimal_str n) = bytes_of_str (decimal_str (n div 10)) @ [of_nat (0x30 + n mod 10)]"
      using False digit_byte [OF d] by (simp add: decimal_str.simps [of n] bytes_of_str_def)
    then show ?thesis
      using 1 False digit [OF d] digit_byte_nat [OF d] by (simp add: dec_value_def)
  qed
qed

lemma lower_digits: "all_digits bs \<Longrightarrow> map to_ascii_lowercase bs = bs"
  by (induction bs) (auto simp: is_ascii_digit_def to_ascii_lowercase_def word_le_nat_alt)

lemma lib_key_lower:
  "map to_ascii_lowercase (bytes_of_str (lib_key n)) = bytes_of_str ''_lib'' @ bytes_of_str (decimal_str n)"
  unfolding lib_key_def bytes_of_str_append map_append lower_digits [OF conjunct1 [OF decimal_bytes]]
  by (simp add: bytes_of_str_def byte_of_char_def to_ascii_lowercase_def)

lemma lib_key_inj:
  assumes "eq_ignore_ascii_case k (lib_key n)" and "eq_ignore_ascii_case k (lib_key m)"
  shows "n = m"
  using assms decimal_bytes [of n] decimal_bytes [of m]
  unfolding eq_ignore_ascii_case_def lib_key_lower by (metis same_append_eq)

lemma finite_lib_keys: "finite {i. Tags_get tags (lib_key i) \<noteq> None}"
proof -
  have "{i. Tags_get tags (lib_key i) \<noteq> None}
      \<subseteq> (\<Union>e\<in>set tags. {i. eq_ignore_ascii_case (tag_key e) (lib_key i)})"
    by (auto simp: Tags_get_def find_None_iff)
  moreover have "finite {i. eq_ignore_ascii_case k (lib_key i)}" for k
  proof (cases "\<exists>n. eq_ignore_ascii_case k (lib_key n)")
    case True
    then obtain n where n: "eq_ignore_ascii_case k (lib_key n)" ..
    then have "{i. eq_ignore_ascii_case k (lib_key i)} \<subseteq> {n}" using lib_key_inj by blast
    then show ?thesis by (rule finite_subset) simp
  qed simp
  ultimately show ?thesis by (meson List.finite_set finite_UN finite_subset)
qed

text \<open>The loop over \<open>_lib2\<close>, \<open>_lib3\<close> and on, from one index; it ends because tags are finite.\<close>

function libraries_from :: "Tags \<Rightarrow> nat \<Rightarrow> string list" where
  "libraries_from tags index =
     (case Tags_get tags (lib_key index) of
        None \<Rightarrow> [] | Some value \<Rightarrow> value # libraries_from tags (index + 1))"
  by pat_completeness auto
termination
proof (relation "measure (\<lambda>(tags, index). card {i. index \<le> i \<and> Tags_get tags (lib_key i) \<noteq> None})")
  fix tags index v
  assume "Tags_get tags (lib_key index) = Some v"
  then have "index \<in> {i. index \<le> i \<and> Tags_get tags (lib_key i) \<noteq> None}"
    and "index \<notin> {i. index + 1 \<le> i \<and> Tags_get tags (lib_key i) \<noteq> None}" by simp_all
  moreover have "{i. index + 1 \<le> i \<and> Tags_get tags (lib_key i) \<noteq> None}
      \<subseteq> {i. index \<le> i \<and> Tags_get tags (lib_key i) \<noteq> None}" by auto
  ultimately have "{i. index + 1 \<le> i \<and> Tags_get tags (lib_key i) \<noteq> None}
      \<subset> {i. index \<le> i \<and> Tags_get tags (lib_key i) \<noteq> None}" by blast
  moreover have "finite {i. index \<le> i \<and> Tags_get tags (lib_key i) \<noteq> None}"
    by (rule finite_subset [OF _ finite_lib_keys [of tags]]) blast
  ultimately show "((tags, index + 1), tags, index)
      \<in> measure (\<lambda>(tags, index). card {i. index \<le> i \<and> Tags_get tags (lib_key i) \<noteq> None})"
    by (simp add: psubset_card_mono)
qed simp

declare libraries_from.simps [simp del]

definition numbered_libraries :: "PsfContainer \<Rightarrow> string list" where
  "numbered_libraries container = libraries_from (psf_tags container) 2"

section \<open>The traversal\<close>

text \<open>
  \<open>LoadState\<close>: the fields that never change, with the resolver's operation and the parser's
  libraries, are the environment; the fields the traversal writes are the state.
\<close>

record ('r, 'z) LoadEnv =
  le_resolve :: "'r Resolver"
  le_zlib :: "'z Zlib"
  le_hash :: "u8 list \<Rightarrow> u32"
  le_parse_limits :: ParseLimits
  le_limits :: DependencyLimits
  le_version :: PsfVersion

record 'r LoadState =
  ls_resolver :: 'r
  ls_file_count :: usize
  ls_aggregate_bytes :: usize
  ls_active :: "string list"
  ls_refresh_override :: "RefreshRate option"

type_synonym ('r, 'a) load = "('r LoadState, LoadError, 'a) rs"

record Psf1Node =
  n1_layers :: "PlanLayer list"
  n1_initial_state_origin :: string

definition account :: "('r, 'z) LoadEnv \<Rightarrow> usize \<Rightarrow> ('r, unit) load" where
  "account env bytes = (\<lambda>self.
     case checked_add_n 64 (ls_file_count self) 1 of
       None \<Rightarrow> (Inl (LoadError_LimitExceeded ''file count''), self)
     | Some n \<Rightarrow>
         let self = self\<lparr>ls_file_count := n\<rparr> in
         if max_files (le_limits env) < ls_file_count self
         then (Inl (LoadError_LimitExceeded ''file count''), self)
         else case checked_add_n 64 (ls_aggregate_bytes self) bytes of
             None \<Rightarrow> (Inl (LoadError_LimitExceeded ''aggregate source bytes''), self)
           | Some n \<Rightarrow>
               let self = self\<lparr>ls_aggregate_bytes := n\<rparr> in
               if max_aggregate_bytes (le_limits env) < ls_aggregate_bytes self
               then (Inl (LoadError_LimitExceeded ''aggregate source bytes''), self)
               else (Inr (), self))"

definition metadata :: "string \<Rightarrow> PsfContainer \<Rightarrow> LoadError + PlaybackMetadata" where
  "metadata origin container =
     map_err (LoadError_Metadata origin) (PlaybackMetadata_parse (psf_tags container))"

definition observe_metadata :: "string \<Rightarrow> PsfContainer \<Rightarrow> ('r, unit) load" where
  "observe_metadata origin container =
     rs_bind (rs_lift (metadata origin container)) (\<lambda>parsed.
     rs_modify (\<lambda>self. if ls_refresh_override self = None
       then self\<lparr>ls_refresh_override := pm_refresh parsed\<rparr> else self))"

definition call_resolver ::
    "('r, 'z) LoadEnv \<Rightarrow> string \<Rightarrow> string \<Rightarrow> ('r, ResolvedFile) load" where
  "call_resolver env containing_origin reference = (\<lambda>self.
     let (result, resolver) = le_resolve env (ls_resolver self) containing_origin reference in
     (map_err (LoadError_Resolve containing_origin reference) result,
      self\<lparr>ls_resolver := resolver\<rparr>))"

definition check_cycle :: "string \<Rightarrow> ('r, unit) load" where
  "check_cycle origin = rs_try (\<lambda>self.
     case position (\<lambda>active. active = origin) (ls_active self) of
       None \<Rightarrow> Inr ()
     | Some i \<Rightarrow> Inl (LoadError_Cycle (drop i (ls_active self) @ [origin])))"

definition parse_file :: "('r, 'z) LoadEnv \<Rightarrow> string \<Rightarrow> u8 list \<Rightarrow> LoadError + PsfContainer" where
  "parse_file env origin bytes = map_err LoadError_Parse
     (PsfContainer_parse_with_limits (le_zlib env) (le_hash env) origin bytes (le_parse_limits env))"

definition LoadState_resolve ::
    "('r, 'z) LoadEnv \<Rightarrow> string \<Rightarrow> string \<Rightarrow> usize \<Rightarrow> ('r, string \<times> PsfContainer) load" where
  "LoadState_resolve env containing_origin reference depth =
     (if max_depth (le_limits env) < depth then rs_fail (LoadError_LimitExceeded ''dependency depth'')
      else
        rs_bind (call_resolver env containing_origin reference) (\<lambda>file.
        rs_bind (account env (length (rf_bytes file))) (\<lambda>_.
        rs_bind (check_cycle (rf_origin file)) (\<lambda>_.
        rs_bind (rs_lift (parse_file env (rf_origin file) (rf_bytes file))) (\<lambda>container.
        if psf_version container \<noteq> le_version env
        then rs_fail (LoadError_VersionMismatch (rf_origin file) (le_version env) (psf_version container))
        else rs_return (rf_origin file, container))))))"

text \<open>The origin is on the active stack while the node is visited, also when that fails.\<close>

definition with_active :: "string \<Rightarrow> ('r, 'a) load \<Rightarrow> ('r, 'a) load" where
  "with_active origin visit = (\<lambda>self.
     let (result, self) = visit (self\<lparr>ls_active := ls_active self @ [origin]\<rparr>) in
     (result, self\<lparr>ls_active := butlast (ls_active self)\<rparr>))"

lemma rs_bind_fundef_cong [fundef_cong]:
  assumes "m = m'" and "\<And>s x s'. m' s = (Inr x, s') \<Longrightarrow> f x = f' x"
  shows "rs_bind m f = rs_bind m' f'"
  using assms by (auto simp: rs_bind_def fun_eq_iff split: prod.splits sum.splits)

lemma resolve_depth:
  "LoadState_resolve env o1 r depth s = (Inr x, s') \<Longrightarrow> depth \<le> max_depth (le_limits env)"
  by (auto simp: LoadState_resolve_def rs_fail_def split: if_splits)

definition node_measure :: "('r, 'z) LoadEnv \<Rightarrow> nat \<Rightarrow> nat" where
  "node_measure env depth = (let d = max_depth (le_limits env) in
     if depth \<le> d then 2 * (d + 1 - depth) - 1 else 1)"

definition dependency_measure :: "('r, 'z) LoadEnv \<Rightarrow> nat \<Rightarrow> nat" where
  "dependency_measure env depth = 2 * (max_depth (le_limits env) + 1 - depth)"

lemma node_measures:
  "depth \<le> max_depth (le_limits env) \<Longrightarrow> node_measure env depth < dependency_measure env depth"
  "dependency_measure env (Suc depth) < node_measure env depth"
  by (auto simp: node_measure_def dependency_measure_def Let_def)

function psf1_node ::
      "('r, 'z) LoadEnv \<Rightarrow> string \<Rightarrow> PsfContainer \<Rightarrow> usize \<Rightarrow> ('r, Psf1Node) load"
    and psf1_additional :: "('r, 'z) LoadEnv \<Rightarrow> string \<Rightarrow> string list \<Rightarrow> usize \<Rightarrow> ('r, PlanLayer list) load"
    and psf1_dependency :: "('r, 'z) LoadEnv \<Rightarrow> string \<Rightarrow> string \<Rightarrow> usize \<Rightarrow> ('r, Psf1Node) load" where
  "psf1_node env origin container depth =
     rs_bind (observe_metadata origin container) (\<lambda>_.
     rs_bind
       (case Tags_get (psf_tags container) ''_lib'' of
          Some reference \<Rightarrow> psf1_dependency env origin reference (depth + 1)
        | None \<Rightarrow> rs_return \<lparr>n1_layers = [], n1_initial_state_origin = origin\<rparr>) (\<lambda>child.
     rs_bind (psf1_additional env origin (numbered_libraries container) depth) (\<lambda>layers.
     rs_return
       \<lparr>n1_layers = n1_layers child @ [\<lparr>layer_origin = origin, layer_container = container\<rparr>] @ layers,
        n1_initial_state_origin = n1_initial_state_origin child\<rparr>)))"
| "psf1_additional env origin [] depth = rs_return []"
| "psf1_additional env origin (reference # additional) depth =
     rs_bind (psf1_dependency env origin reference (depth + 1)) (\<lambda>child.
     rs_bind (psf1_additional env origin additional depth) (\<lambda>layers.
     rs_return (n1_layers child @ layers)))"
| "psf1_dependency env containing_origin reference depth =
     rs_bind (LoadState_resolve env containing_origin reference depth) (\<lambda>resolved.
     with_active (fst resolved) (psf1_node env (fst resolved) (snd resolved) depth))"
  by pat_completeness auto
termination
  by (relation "inv_image (less_than <*lex*> less_than <*lex*> less_than)
      (case_sum (\<lambda>(env, _, _, d). (node_measure env d, 1, 0))
        (case_sum (\<lambda>(env, _, rs, d). (node_measure env d, 0, length rs))
          (\<lambda>(env, _, _, d). (dependency_measure env d, 0, 0))))")
    (auto simp: node_measures dest: resolve_depth)

function psf2_node ::
      "('r, 'z) LoadEnv \<Rightarrow> string \<Rightarrow> PsfContainer \<Rightarrow> usize \<Rightarrow> ('r, PlanLayer list) load"
    and psf2_references :: "('r, 'z) LoadEnv \<Rightarrow> string \<Rightarrow> string list \<Rightarrow> usize \<Rightarrow> ('r, PlanLayer list) load"
    and psf2_dependency :: "('r, 'z) LoadEnv \<Rightarrow> string \<Rightarrow> string \<Rightarrow> usize \<Rightarrow> ('r, PlanLayer list) load" where
  "psf2_node env origin container depth =
     rs_bind (observe_metadata origin container) (\<lambda>_.
     rs_bind (psf2_references env origin
         ((case Tags_get (psf_tags container) ''_lib'' of None \<Rightarrow> [] | Some primary \<Rightarrow> [primary])
          @ numbered_libraries container) depth) (\<lambda>layers.
     rs_return (layers @ [\<lparr>layer_origin = origin, layer_container = container\<rparr>])))"
| "psf2_references env origin [] depth = rs_return []"
| "psf2_references env origin (reference # references) depth =
     rs_bind (psf2_dependency env origin reference (depth + 1)) (\<lambda>child.
     rs_bind (psf2_references env origin references depth) (\<lambda>layers.
     rs_return (child @ layers)))"
| "psf2_dependency env containing_origin reference depth =
     rs_bind (LoadState_resolve env containing_origin reference depth) (\<lambda>resolved.
     with_active (fst resolved) (psf2_node env (fst resolved) (snd resolved) depth))"
  by pat_completeness auto
termination
  by (relation "inv_image (less_than <*lex*> less_than <*lex*> less_than)
      (case_sum (\<lambda>(env, _, _, d). (node_measure env d, 1, 0))
        (case_sum (\<lambda>(env, _, rs, d). (node_measure env d, 0, length rs))
          (\<lambda>(env, _, _, d). (dependency_measure env d, 0, 0))))")
    (auto simp: node_measures dest: resolve_depth)

declare psf1_node.simps [simp del] psf1_dependency.simps [simp del]
  psf2_node.simps [simp del] psf2_dependency.simps [simp del]

text \<open>The traversal is evaluated with its state only.\<close>

lemmas traversal_code =
  psf1_node.simps [THEN fun_cong] psf1_additional.simps [THEN fun_cong] psf1_dependency.simps [THEN fun_cong]
  psf2_node.simps [THEN fun_cong] psf2_references.simps [THEN fun_cong] psf2_dependency.simps [THEN fun_cong]

declare psf1_node.simps [code del] psf1_additional.simps [code del] psf1_dependency.simps [code del]
  psf2_node.simps [code del] psf2_references.simps [code del] psf2_dependency.simps [code del]

declare traversal_code [code]

definition load_plan ::
    "string \<Rightarrow> u8 list \<Rightarrow> 'r Resolver \<Rightarrow> 'z Zlib \<Rightarrow> (u8 list \<Rightarrow> u32) \<Rightarrow> ParseLimits \<Rightarrow> DependencyLimits \<Rightarrow>
       'r \<Rightarrow> (LoadError + LoadPlan) \<times> 'r" where
  "load_plan root_origin root_bytes resolve z hash parse_limits dependency_limits resolver =
     (case map_err LoadError_Parse
         (PsfContainer_parse_with_limits z hash root_origin root_bytes parse_limits) of
        Inl e \<Rightarrow> (Inl e, resolver)
      | Inr root_container \<Rightarrow>
          (case metadata root_origin root_container of
             Inl e \<Rightarrow> (Inl e, resolver)
           | Inr root_metadata \<Rightarrow>
               let version = psf_version root_container;
                   env = \<lparr>le_resolve = resolve, le_zlib = z, le_hash = hash,
                     le_parse_limits = parse_limits, le_limits = dependency_limits,
                     le_version = version\<rparr>;
                   state = \<lparr>ls_resolver = resolver, ls_file_count = 0, ls_aggregate_bytes = 0,
                     ls_active = [], ls_refresh_override = None\<rparr>;
                   (result, state) =
                     rs_bind (account env (length root_bytes)) (\<lambda>_.
                     rs_bind (rs_modify (\<lambda>self. self\<lparr>ls_active := ls_active self @ [root_origin]\<rparr>)) (\<lambda>_.
                     case version of
                       PsfVersion_Psf1 \<Rightarrow>
                         rs_bind (psf1_node env root_origin root_container 0) (\<lambda>node.
                         rs_bind (rs_get ls_refresh_override) (\<lambda>refresh_override.
                         rs_return (LoadPlan_Psf1 \<lparr>p1_root_origin = root_origin,
                           p1_layers = n1_layers node,
                           p1_initial_state_origin = n1_initial_state_origin node,
                           p1_refresh_override = refresh_override, p1_metadata = root_metadata\<rparr>)))
                     | PsfVersion_Psf2 \<Rightarrow>
                         rs_bind (psf2_node env root_origin root_container 0) (\<lambda>layers.
                         rs_bind (rs_get ls_refresh_override) (\<lambda>refresh_override.
                         rs_return (LoadPlan_Psf2 \<lparr>p2_root_origin = root_origin,
                           p2_layers = layers,
                           p2_refresh_override = refresh_override, p2_metadata = root_metadata\<rparr>)))))
                     state
               in (result, ls_resolver state)))"

section \<open>The dependency tree\<close>

text \<open>
  What a plan is a flattening of: the files a root stands for, each with the tree of its
  \<open>_lib\<close> and those of its \<open>_lib2\<close>, \<open>_lib3\<close> and on. \<open>visits\<close> is the order in which the
  files are opened.
\<close>

datatype DepTree = DepTree
  (node_layer: PlanLayer) (node_bytes: nat) (node_primary: "DepTree option") (node_additional: "DepTree list")

definition node_origin :: "DepTree \<Rightarrow> string" where
  "node_origin t = layer_origin (node_layer t)"

definition node_container :: "DepTree \<Rightarrow> PsfContainer" where
  "node_container t = layer_container (node_layer t)"

primrec visits :: "DepTree \<Rightarrow> (PlanLayer \<times> nat) list" where
  "visits (DepTree layer bytes primary additional) =
     (layer, bytes) # (case map_option visits primary of None \<Rightarrow> [] | Some vs \<Rightarrow> vs)
       @ concat (map visits additional)"

primrec psf1_layers :: "DepTree \<Rightarrow> PlanLayer list" where
  "psf1_layers (DepTree layer bytes primary additional) =
     (case map_option psf1_layers primary of None \<Rightarrow> [] | Some ls \<Rightarrow> ls)
       @ [layer] @ concat (map psf1_layers additional)"

primrec psf1_initial :: "DepTree \<Rightarrow> string" where
  "psf1_initial (DepTree layer bytes primary additional) =
     (case map_option psf1_initial primary of None \<Rightarrow> layer_origin layer | Some origin \<Rightarrow> origin)"

primrec psf2_layers :: "DepTree \<Rightarrow> PlanLayer list" where
  "psf2_layers (DepTree layer bytes primary additional) =
     (case map_option psf2_layers primary of None \<Rightarrow> [] | Some ls \<Rightarrow> ls)
       @ concat (map psf2_layers additional) @ [layer]"

text \<open>The file a reference of a node stands for, below the nodes of \<open>path\<close>.\<close>

definition dep_edge ::
    "('r, 'z) LoadEnv \<Rightarrow> string list \<Rightarrow> string \<Rightarrow> string \<Rightarrow> DepTree \<Rightarrow> bool" where
  "dep_edge env path containing_origin reference t \<longleftrightarrow>
     length path \<le> max_depth (le_limits env) \<and> node_origin t \<notin> set path
     \<and> (\<exists>resolver resolver' file.
          le_resolve env resolver containing_origin reference = (Inr file, resolver')
          \<and> rf_origin file = node_origin t \<and> length (rf_bytes file) = node_bytes t
          \<and> parse_file env (rf_origin file) (rf_bytes file) = Inr (node_container t))
     \<and> psf_version (node_container t) = le_version env"

text \<open>\<open>dep_tree env path t\<close>: \<open>t\<close> has the files its tags name, below the nodes of \<open>path\<close>.\<close>

inductive dep_tree :: "('r, 'z) LoadEnv \<Rightarrow> string list \<Rightarrow> DepTree \<Rightarrow> bool" for env where
  dep_tree: "rel_option (\<lambda>reference t. dep_edge env (path @ [origin]) origin reference t
       \<and> dep_tree env (path @ [origin]) t) (Tags_get (psf_tags container) ''_lib'') primary
   \<Longrightarrow> list_all2 (\<lambda>reference t. dep_edge env (path @ [origin]) origin reference t
       \<and> dep_tree env (path @ [origin]) t) (numbered_libraries container) additional
   \<Longrightarrow> dep_tree env path
     (DepTree \<lparr>layer_origin = origin, layer_container = container\<rparr> bytes primary additional)"
monos option.rel_mono list.rel_mono

definition layer_refresh :: "PlanLayer \<Rightarrow> RefreshRate option" where
  "layer_refresh layer = (case PlaybackMetadata_parse (psf_tags (layer_container layer)) of
     Inl _ \<Rightarrow> None | Inr parsed \<Rightarrow> pm_refresh parsed)"

definition first_refresh :: "PlanLayer list \<Rightarrow> RefreshRate option \<Rightarrow> RefreshRate option" where
  "first_refresh layers r = fold (\<lambda>l r. if r = None then layer_refresh l else r) layers r"

definition within_limits :: "('r, 'z) LoadEnv \<Rightarrow> nat \<Rightarrow> nat \<Rightarrow> bool" where
  "within_limits env files bytes \<longleftrightarrow>
     files \<le> max_files (le_limits env) \<and> bytes \<le> max_aggregate_bytes (le_limits env)"

text \<open>What opening the files \<open>vs\<close> does to the state; \<open>opened\<close> counts a file, \<open>observed\<close> reads its tags.\<close>

definition traversed ::
    "('r, 'z) LoadEnv \<Rightarrow> 'r LoadState \<Rightarrow> (PlanLayer \<times> nat) list \<Rightarrow> 'r LoadState \<Rightarrow> bool" where
  "traversed env s vs s' \<longleftrightarrow>
     ls_active s' = ls_active s
     \<and> ls_file_count s' = ls_file_count s + length vs
     \<and> ls_aggregate_bytes s' = ls_aggregate_bytes s + sum_list (map snd vs)
     \<and> ls_refresh_override s' = first_refresh (map fst vs) (ls_refresh_override s)
     \<and> (within_limits env (ls_file_count s) (ls_aggregate_bytes s) \<longrightarrow>
        within_limits env (ls_file_count s') (ls_aggregate_bytes s'))"

lemma traversed_Nil: "traversed env s [] s"
  by (simp add: traversed_def first_refresh_def)

lemma traversed_append:
  "traversed env s vs s' \<Longrightarrow> traversed env s' ws s'' \<Longrightarrow> traversed env s (vs @ ws) s''"
  by (auto simp: traversed_def first_refresh_def)

definition observed :: "PlanLayer \<Rightarrow> 'r LoadState \<Rightarrow> 'r LoadState" where
  "observed layer s = s\<lparr>ls_refresh_override :=
     (if ls_refresh_override s = None then layer_refresh layer else ls_refresh_override s)\<rparr>"

lemma rs_bind_Inr:
  "rs_bind m f s = (Inr y, s'') \<longleftrightarrow> (\<exists>x s'. m s = (Inr x, s') \<and> f x s' = (Inr y, s''))"
  by (auto simp: rs_bind_def split: prod.splits sum.splits)

lemma rs_return_Inr: "rs_return x s = (Inr y, s') \<longleftrightarrow> y = x \<and> s' = s"
  by (auto simp: rs_return_def)

lemma observe_metadata_Inr:
  "observe_metadata origin container s = (Inr u, s') \<Longrightarrow>
     s' = observed \<lparr>layer_origin = origin, layer_container = container\<rparr> s"
  by (auto simp: observe_metadata_def rs_bind_Inr rs_lift_def rs_modify_def metadata_def map_err_def
      observed_def layer_refresh_def split: sum.splits if_splits)

lemma account_Inr:
  assumes "account env n s = (Inr u, s')"
  shows "s' = s\<lparr>ls_file_count := ls_file_count s + 1, ls_aggregate_bytes := ls_aggregate_bytes s + n\<rparr>"
    and "within_limits env (ls_file_count s') (ls_aggregate_bytes s')"
  using assms by (auto simp: account_def checked_n_defs Let_def within_limits_def split: if_splits option.splits)

lemma resolve_Inr:
  assumes "LoadState_resolve env o1 reference depth s = (Inr (origin, container), s')"
    and "depth = length (ls_active s)"
  obtains n resolver where "s' = s\<lparr>ls_resolver := resolver, ls_file_count := ls_file_count s + 1,
        ls_aggregate_bytes := ls_aggregate_bytes s + n\<rparr>"
    and "within_limits env (ls_file_count s') (ls_aggregate_bytes s')"
    and "\<And>primary additional. dep_edge env (ls_active s) o1 reference
      (DepTree \<lparr>layer_origin = origin, layer_container = container\<rparr> n primary additional)"
proof -
  have depth: "length (ls_active s) \<le> max_depth (le_limits env)"
    using resolve_depth [OF assms(1)] assms(2) by simp
  then obtain rf s1 s2 s3 where call: "call_resolver env o1 reference s = (Inr rf, s1)"
    and acc: "account env (length (rf_bytes rf)) s1 = (Inr (), s2)"
    and cyc: "check_cycle (rf_origin rf) s2 = (Inr (), s3)"
    and parse: "parse_file env (rf_origin rf) (rf_bytes rf) = Inr container"
    and version: "psf_version container = le_version env"
    and origin: "origin = rf_origin rf" and s': "s' = s3"
    using assms by (auto simp: LoadState_resolve_def rs_bind_Inr rs_lift_def rs_return_def rs_fail_def
        split: if_splits)
  obtain resolver where res: "le_resolve env (ls_resolver s) o1 reference = (Inr rf, resolver)"
    and s1: "s1 = s\<lparr>ls_resolver := resolver\<rparr>"
    using call by (auto simp: call_resolver_def map_err_def split: prod.splits sum.splits)
  have s3: "s3 = s2" and fresh: "rf_origin rf \<notin> set (ls_active s2)"
    using cyc by (auto simp: check_cycle_def rs_try_def position_None_iff split: option.splits)
  show thesis
  proof (rule that [of "length (rf_bytes rf)" resolver])
    show "s' = s\<lparr>ls_resolver := resolver, ls_file_count := ls_file_count s + 1,
        ls_aggregate_bytes := ls_aggregate_bytes s + length (rf_bytes rf)\<rparr>"
      using account_Inr(1) [OF acc] by (simp add: s' s3 s1)
    show "within_limits env (ls_file_count s') (ls_aggregate_bytes s')"
      using account_Inr(2) [OF acc] by (simp add: s' s3)
    have "rf_origin rf \<notin> set (ls_active s)" using fresh account_Inr(1) [OF acc] by (simp add: s1)
    then show "dep_edge env (ls_active s) o1 reference
        (DepTree \<lparr>layer_origin = origin, layer_container = container\<rparr> (length (rf_bytes rf)) p as)" for p as
      using depth res parse version unfolding dep_edge_def node_origin_def node_container_def origin
      by auto
  qed
qed

lemma dependency_step:
  assumes resolved: "LoadState_resolve env o1 reference depth s = (Inr (origin, container), s1)"
    and depth: "depth = length (ls_active s)"
    and active: "with_active origin visit s1 = (Inr x, s')"
    and node: "\<And>s2 bytes. visit (s1\<lparr>ls_active := ls_active s @ [origin]\<rparr>) = (Inr x, s2) \<Longrightarrow>
      \<exists>p as. dep_tree env (ls_active s) (DepTree \<lparr>layer_origin = origin, layer_container = container\<rparr> bytes p as)
        \<and> traversed env (observed \<lparr>layer_origin = origin, layer_container = container\<rparr>
             (s1\<lparr>ls_active := ls_active s @ [origin]\<rparr>))
           (tl (visits (DepTree \<lparr>layer_origin = origin, layer_container = container\<rparr> bytes p as))) s2
        \<and> R (DepTree \<lparr>layer_origin = origin, layer_container = container\<rparr> bytes p as)"
  shows "\<exists>t. dep_edge env (ls_active s) o1 reference t \<and> dep_tree env (ls_active s) t
    \<and> traversed env s (visits t) s' \<and> R t"
proof -
  let ?layer = "\<lparr>layer_origin = origin, layer_container = container\<rparr>"
  obtain n resolver where s1: "s1 = s\<lparr>ls_resolver := resolver, ls_file_count := ls_file_count s + 1,
        ls_aggregate_bytes := ls_aggregate_bytes s + n\<rparr>"
    and within: "within_limits env (ls_file_count s1) (ls_aggregate_bytes s1)"
    and edge: "\<And>p as. dep_edge env (ls_active s) o1 reference (DepTree ?layer n p as)"
    by (rule resolve_Inr [OF resolved depth]) blast
  have a1: "ls_active s1 = ls_active s" by (simp add: s1)
  obtain s2 where visit: "visit (s1\<lparr>ls_active := ls_active s @ [origin]\<rparr>) = (Inr x, s2)"
    and s': "s' = s2\<lparr>ls_active := butlast (ls_active s2)\<rparr>"
    using active a1 by (auto simp: with_active_def Let_def split: prod.splits)
  obtain p as where tree: "dep_tree env (ls_active s) (DepTree ?layer n p as)"
    and trav: "traversed env (observed ?layer (s1\<lparr>ls_active := ls_active s @ [origin]\<rparr>))
       (tl (visits (DepTree ?layer n p as))) s2" and R: "R (DepTree ?layer n p as)"
    using node [OF visit, of n] by blast
  have "traversed env s (visits (DepTree ?layer n p as)) s'"
    using trav within unfolding s' s1
    by (auto simp: traversed_def observed_def first_refresh_def)
  then show ?thesis using edge tree R by blast
qed

lemma psf1_sound:
  fixes env :: "('r, 'z) LoadEnv"
  shows "\<And>s s' node path bytes. psf1_node env origin container depth s = (Inr node, s') \<Longrightarrow>
      ls_active s = path @ [origin] \<Longrightarrow> length path = depth \<Longrightarrow>
      \<exists>p as. dep_tree env path (DepTree \<lparr>layer_origin = origin, layer_container = container\<rparr> bytes p as)
        \<and> traversed env (observed \<lparr>layer_origin = origin, layer_container = container\<rparr> s)
           (tl (visits (DepTree \<lparr>layer_origin = origin, layer_container = container\<rparr> bytes p as))) s'
        \<and> n1_layers node = psf1_layers (DepTree \<lparr>layer_origin = origin, layer_container = container\<rparr> bytes p as)
        \<and> n1_initial_state_origin node
            = psf1_initial (DepTree \<lparr>layer_origin = origin, layer_container = container\<rparr> bytes p as)"
    and "\<And>s s' layers path. psf1_additional env origin refs depth s = (Inr layers, s') \<Longrightarrow>
      ls_active s = path @ [origin] \<Longrightarrow> length path = depth \<Longrightarrow>
      \<exists>as. list_all2 (\<lambda>reference t. dep_edge env (path @ [origin]) origin reference t
          \<and> dep_tree env (path @ [origin]) t) refs as
        \<and> traversed env s (concat (map visits as)) s' \<and> layers = concat (map psf1_layers as)"
    and "\<And>s s' node. psf1_dependency env origin reference depth s = (Inr node, s') \<Longrightarrow>
      length (ls_active s) = depth \<Longrightarrow>
      \<exists>t. dep_edge env (ls_active s) origin reference t \<and> dep_tree env (ls_active s) t
        \<and> traversed env s (visits t) s' \<and> n1_layers node = psf1_layers t
        \<and> n1_initial_state_origin node = psf1_initial t"
proof (induction env origin container depth and env origin refs depth and env origin reference depth
    rule: psf1_node_psf1_additional_psf1_dependency.induct)
  case (1 env origin container depth)
  let ?layer = "\<lparr>layer_origin = origin, layer_container = container\<rparr>"
  let ?edge = "\<lambda>reference t. dep_edge env (path @ [origin]) origin reference t
          \<and> dep_tree env (path @ [origin]) t"
  obtain u s1 child s2 s3 layers where obs: "observe_metadata origin container s = (Inr u, s1)"
    and child: "(case Tags_get (psf_tags container) ''_lib'' of
          Some reference \<Rightarrow> psf1_dependency env origin reference (depth + 1)
        | None \<Rightarrow> rs_return \<lparr>n1_layers = [], n1_initial_state_origin = origin\<rparr>) s1
      = (Inr child, s2)"
    and more: "psf1_additional env origin (numbered_libraries container) depth s2 = (Inr layers, s3)"
    and node: "node = \<lparr>n1_layers = n1_layers child @ [?layer] @ layers,
        n1_initial_state_origin = n1_initial_state_origin child\<rparr>" and s': "s' = s3"
    using "1.prems"(1) unfolding psf1_node.simps rs_bind_Inr rs_return_Inr by blast
  have s1: "s1 = observed ?layer s" using observe_metadata_Inr [OF obs] .
  then have a1: "ls_active s1 = path @ [origin]" using "1.prems"(2) by (simp add: observed_def)
  have "\<exists>p. rel_option ?edge (Tags_get (psf_tags container) ''_lib'') p
      \<and> traversed env s1 (case map_option visits p of None \<Rightarrow> [] | Some vs \<Rightarrow> vs) s2
      \<and> n1_layers child = (case map_option psf1_layers p of None \<Rightarrow> [] | Some ls \<Rightarrow> ls)
      \<and> n1_initial_state_origin child
          = (case map_option psf1_initial p of None \<Rightarrow> origin | Some origin \<Rightarrow> origin)"
  proof (cases "Tags_get (psf_tags container) ''_lib''")
    case None
    then show ?thesis using child by (intro exI [of _ None]) (auto simp: rs_return_Inr traversed_Nil)
  next
    case (Some reference)
    have dep: "psf1_dependency env origin reference (depth + 1) s1 = (Inr child, s2)"
      using child Some by simp
    have len: "length (ls_active s1) = depth + 1" using a1 "1.prems"(3) by simp
    obtain t where "?edge reference t" "traversed env s1 (visits t) s2"
      "n1_layers child = psf1_layers t" "n1_initial_state_origin child = psf1_initial t"
      using "1.IH"(1) [OF obs Some dep len] unfolding a1 by blast
    then show ?thesis using Some by (intro exI [of _ "Some t"]) simp
  qed
  then obtain p where p: "rel_option ?edge (Tags_get (psf_tags container) ''_lib'') p"
    and p_trav: "traversed env s1 (case map_option visits p of None \<Rightarrow> [] | Some vs \<Rightarrow> vs) s2"
    and p_layers: "n1_layers child = (case map_option psf1_layers p of None \<Rightarrow> [] | Some ls \<Rightarrow> ls)"
    and p_initial: "n1_initial_state_origin child
          = (case map_option psf1_initial p of None \<Rightarrow> origin | Some origin \<Rightarrow> origin)" by blast
  have a2: "ls_active s2 = path @ [origin]" using p_trav a1 by (simp add: traversed_def)
  obtain as where as: "list_all2 ?edge (numbered_libraries container) as"
    and as_trav: "traversed env s2 (concat (map visits as)) s'"
    and as_layers: "layers = concat (map psf1_layers as)"
    using "1.IH"(2) [OF obs child more [folded s'] a2 "1.prems"(3)] by blast
  show ?case
  proof (intro exI conjI)
    show "dep_tree env path (DepTree ?layer bytes p as)" using p as by (rule dep_tree.intros)
    show "traversed env (observed ?layer s) (tl (visits (DepTree ?layer bytes p as))) s'"
      using traversed_append [OF p_trav as_trav] by (simp add: s1)
    show "n1_layers node = psf1_layers (DepTree ?layer bytes p as)"
      by (simp add: node p_layers as_layers)
    show "n1_initial_state_origin node = psf1_initial (DepTree ?layer bytes p as)"
      by (simp add: node p_initial split: option.split)
  qed
next
  case (2 env origin depth)
  then show ?case by (auto simp: rs_return_Inr intro!: traversed_Nil)
next
  case (3 env origin reference additional depth)
  obtain child s1 more where child: "psf1_dependency env origin reference (depth + 1) s = (Inr child, s1)"
    and more: "psf1_additional env origin additional depth s1 = (Inr more, s')"
    and layers: "layers = n1_layers child @ more"
    using "3.prems"(1) unfolding psf1_additional.simps rs_bind_Inr rs_return_Inr by blast
  have "length (ls_active s) = depth + 1" using "3.prems" by simp
  then obtain t where t: "dep_edge env (path @ [origin]) origin reference t"
      "dep_tree env (path @ [origin]) t" "traversed env s (visits t) s1" "n1_layers child = psf1_layers t"
    using "3.IH"(1) [OF child] unfolding "3.prems"(2) by blast
  then have "ls_active s1 = path @ [origin]" using "3.prems"(2) by (simp add: traversed_def)
  then obtain as where "list_all2 (\<lambda>reference t. dep_edge env (path @ [origin]) origin reference t
          \<and> dep_tree env (path @ [origin]) t) additional as"
    "traversed env s1 (concat (map visits as)) s'" "more = concat (map psf1_layers as)"
    using "3.IH"(2) [OF child more _ "3.prems"(3)] by blast
  then show ?case using t layers by (intro exI [of _ "t # as"]) (simp add: traversed_append)
next
  case (4 env containing_origin reference depth)
  obtain origin container s1
    where resolved: "LoadState_resolve env containing_origin reference depth s = (Inr (origin, container), s1)"
    and active: "with_active origin (psf1_node env origin container depth) s1 = (Inr node, s')"
    using "4.prems"(1) unfolding psf1_dependency.simps rs_bind_Inr by (metis prod.collapse)
  show ?case
  proof (rule dependency_step [OF resolved "4.prems"(2) [symmetric] active])
    fix s2 and bytes :: nat
    assume visit: "psf1_node env origin container depth (s1\<lparr>ls_active := ls_active s @ [origin]\<rparr>)
        = (Inr node, s2)"
    show "\<exists>p as. dep_tree env (ls_active s) (DepTree \<lparr>layer_origin = origin, layer_container = container\<rparr> bytes p as)
        \<and> traversed env (observed \<lparr>layer_origin = origin, layer_container = container\<rparr>
             (s1\<lparr>ls_active := ls_active s @ [origin]\<rparr>))
           (tl (visits (DepTree \<lparr>layer_origin = origin, layer_container = container\<rparr> bytes p as))) s2
        \<and> n1_layers node = psf1_layers (DepTree \<lparr>layer_origin = origin, layer_container = container\<rparr> bytes p as)
        \<and> n1_initial_state_origin node
            = psf1_initial (DepTree \<lparr>layer_origin = origin, layer_container = container\<rparr> bytes p as)"
      using "4.IH" [OF resolved, unfolded fst_conv snd_conv, OF visit, of "ls_active s"] "4.prems"(2)
      by simp
  qed
qed

lemma references_split:
  assumes "list_all2 R ((case primary of None \<Rightarrow> [] | Some reference \<Rightarrow> [reference]) @ refs) ts"
  obtains p as where "rel_option R primary p" and "list_all2 R refs as"
    and "ts = (case p of None \<Rightarrow> [] | Some t \<Rightarrow> [t]) @ as"
proof (cases primary)
  case None
  then show thesis using assms that [of None ts] by simp
next
  case (Some reference)
  then obtain t as where "ts = t # as" "R reference t" "list_all2 R refs as"
    using assms by (auto simp: list_all2_Cons1)
  then show thesis using Some that [of "Some t" as] by simp
qed

lemma psf2_sound:
  fixes env :: "('r, 'z) LoadEnv"
  shows "\<And>s s' layers path bytes. psf2_node env origin container depth s = (Inr layers, s') \<Longrightarrow>
      ls_active s = path @ [origin] \<Longrightarrow> length path = depth \<Longrightarrow>
      \<exists>p as. dep_tree env path (DepTree \<lparr>layer_origin = origin, layer_container = container\<rparr> bytes p as)
        \<and> traversed env (observed \<lparr>layer_origin = origin, layer_container = container\<rparr> s)
           (tl (visits (DepTree \<lparr>layer_origin = origin, layer_container = container\<rparr> bytes p as))) s'
        \<and> layers = psf2_layers (DepTree \<lparr>layer_origin = origin, layer_container = container\<rparr> bytes p as)"
    and "\<And>s s' layers path. psf2_references env origin refs depth s = (Inr layers, s') \<Longrightarrow>
      ls_active s = path @ [origin] \<Longrightarrow> length path = depth \<Longrightarrow>
      \<exists>as. list_all2 (\<lambda>reference t. dep_edge env (path @ [origin]) origin reference t
          \<and> dep_tree env (path @ [origin]) t) refs as
        \<and> traversed env s (concat (map visits as)) s' \<and> layers = concat (map psf2_layers as)"
    and "\<And>s s' layers. psf2_dependency env origin reference depth s = (Inr layers, s') \<Longrightarrow>
      length (ls_active s) = depth \<Longrightarrow>
      \<exists>t. dep_edge env (ls_active s) origin reference t \<and> dep_tree env (ls_active s) t
        \<and> traversed env s (visits t) s' \<and> layers = psf2_layers t"
proof (induction env origin container depth and env origin refs depth and env origin reference depth
    rule: psf2_node_psf2_references_psf2_dependency.induct)
  case (1 env origin container depth)
  let ?layer = "\<lparr>layer_origin = origin, layer_container = container\<rparr>"
  let ?edge = "\<lambda>reference t. dep_edge env (path @ [origin]) origin reference t
          \<and> dep_tree env (path @ [origin]) t"
  let ?refs = "(case Tags_get (psf_tags container) ''_lib'' of None \<Rightarrow> [] | Some primary \<Rightarrow> [primary])
          @ numbered_libraries container"
  obtain u s1 more where obs: "observe_metadata origin container s = (Inr u, s1)"
    and refs: "psf2_references env origin ?refs depth s1 = (Inr more, s')"
    and layers: "layers = more @ [?layer]"
    using "1.prems"(1) unfolding psf2_node.simps rs_bind_Inr rs_return_Inr by blast
  have s1: "s1 = observed ?layer s" using observe_metadata_Inr [OF obs] .
  then have a1: "ls_active s1 = path @ [origin]" using "1.prems"(2) by (simp add: observed_def)
  obtain ts where ts: "list_all2 ?edge ?refs ts" and trav: "traversed env s1 (concat (map visits ts)) s'"
    and more: "more = concat (map psf2_layers ts)"
    using "1.IH" [OF obs refs a1 "1.prems"(3)] by blast
  obtain p as where p: "rel_option ?edge (Tags_get (psf_tags container) ''_lib'') p"
    and as: "list_all2 ?edge (numbered_libraries container) as"
    and ts': "ts = (case p of None \<Rightarrow> [] | Some t \<Rightarrow> [t]) @ as"
    by (rule references_split [OF ts])
  show ?case
  proof (intro exI conjI)
    show "dep_tree env path (DepTree ?layer bytes p as)" using p as by (rule dep_tree.intros)
    show "traversed env (observed ?layer s) (tl (visits (DepTree ?layer bytes p as))) s'"
      using trav by (simp add: s1 ts' split: option.splits)
    show "layers = psf2_layers (DepTree ?layer bytes p as)"
      by (simp add: layers more ts' split: option.splits)
  qed
next
  case (2 env origin depth)
  then show ?case by (auto simp: rs_return_Inr intro!: traversed_Nil)
next
  case (3 env origin reference additional depth)
  obtain child s1 more where child: "psf2_dependency env origin reference (depth + 1) s = (Inr child, s1)"
    and more: "psf2_references env origin additional depth s1 = (Inr more, s')"
    and layers: "layers = child @ more"
    using "3.prems"(1) unfolding psf2_references.simps rs_bind_Inr rs_return_Inr by blast
  have "length (ls_active s) = depth + 1" using "3.prems" by simp
  then obtain t where t: "dep_edge env (path @ [origin]) origin reference t"
      "dep_tree env (path @ [origin]) t" "traversed env s (visits t) s1" "child = psf2_layers t"
    using "3.IH"(1) [OF child] unfolding "3.prems"(2) by blast
  then have "ls_active s1 = path @ [origin]" using "3.prems"(2) by (simp add: traversed_def)
  then obtain as where "list_all2 (\<lambda>reference t. dep_edge env (path @ [origin]) origin reference t
          \<and> dep_tree env (path @ [origin]) t) additional as"
    "traversed env s1 (concat (map visits as)) s'" "more = concat (map psf2_layers as)"
    using "3.IH"(2) [OF child more _ "3.prems"(3)] by blast
  then show ?case using t layers by (intro exI [of _ "t # as"]) (simp add: traversed_append)
next
  case (4 env containing_origin reference depth)
  obtain origin container s1
    where resolved: "LoadState_resolve env containing_origin reference depth s = (Inr (origin, container), s1)"
    and active: "with_active origin (psf2_node env origin container depth) s1 = (Inr layers, s')"
    using "4.prems"(1) unfolding psf2_dependency.simps rs_bind_Inr by (metis prod.collapse)
  show ?case
  proof (rule dependency_step [OF resolved "4.prems"(2) [symmetric] active])
    fix s2 and bytes :: nat
    assume visit: "psf2_node env origin container depth (s1\<lparr>ls_active := ls_active s @ [origin]\<rparr>)
        = (Inr layers, s2)"
    show "\<exists>p as. dep_tree env (ls_active s) (DepTree \<lparr>layer_origin = origin, layer_container = container\<rparr> bytes p as)
        \<and> traversed env (observed \<lparr>layer_origin = origin, layer_container = container\<rparr>
             (s1\<lparr>ls_active := ls_active s @ [origin]\<rparr>))
           (tl (visits (DepTree \<lparr>layer_origin = origin, layer_container = container\<rparr> bytes p as))) s2
        \<and> layers = psf2_layers (DepTree \<lparr>layer_origin = origin, layer_container = container\<rparr> bytes p as)"
      using "4.IH" [OF resolved, unfolded fst_conv snd_conv, OF visit, of "ls_active s"] "4.prems"(2)
      by simp
  qed
qed

section \<open>Correctness of the plan\<close>

definition plan_of_tree :: "LoadPlan \<Rightarrow> DepTree \<Rightarrow> bool" where
  "plan_of_tree plan t = (case plan of
     LoadPlan_Psf1 p \<Rightarrow>
       p1_root_origin p = node_origin t \<and> p1_layers p = psf1_layers t
       \<and> p1_initial_state_origin p = psf1_initial t
       \<and> p1_refresh_override p = first_refresh (map fst (visits t)) None
       \<and> psf_version (node_container t) = PsfVersion_Psf1
       \<and> PlaybackMetadata_parse (psf_tags (node_container t)) = Inr (p1_metadata p)
   | LoadPlan_Psf2 p \<Rightarrow>
       p2_root_origin p = node_origin t \<and> p2_layers p = psf2_layers t
       \<and> p2_refresh_override p = first_refresh (map fst (visits t)) None
       \<and> psf_version (node_container t) = PsfVersion_Psf2
       \<and> PlaybackMetadata_parse (psf_tags (node_container t)) = Inr (p2_metadata p))"

lemma load_plan_sound:
  assumes "load_plan root_origin root_bytes resolve z hash parse_limits limits resolver = (Inr plan, resolver')"
  shows "\<exists>t env. env = \<lparr>le_resolve = resolve, le_zlib = z, le_hash = hash, le_parse_limits = parse_limits,
        le_limits = limits, le_version = psf_version (node_container t)\<rparr>
    \<and> node_origin t = root_origin
    \<and> PsfContainer_parse_with_limits z hash root_origin root_bytes parse_limits = Inr (node_container t)
    \<and> dep_tree env [] t
    \<and> length (visits t) \<le> max_files limits
    \<and> length root_bytes + sum_list (map snd (tl (visits t))) \<le> max_aggregate_bytes limits
    \<and> plan_of_tree plan t"
proof -
  obtain container where parse:
      "PsfContainer_parse_with_limits z hash root_origin root_bytes parse_limits = Inr container"
    using assms by (cases "PsfContainer_parse_with_limits z hash root_origin root_bytes parse_limits")
      (auto simp: load_plan_def map_err_def)
  obtain m where meta: "metadata root_origin container = Inr m"
    using assms parse by (cases "metadata root_origin container") (auto simp: load_plan_def map_err_def)
  define env where "env = \<lparr>le_resolve = resolve, le_zlib = z, le_hash = hash, le_parse_limits = parse_limits,
        le_limits = limits, le_version = psf_version container\<rparr>"
  define s0 where "s0 = \<lparr>ls_resolver = resolver, ls_file_count = 0,
        ls_aggregate_bytes = 0, ls_active = [], ls_refresh_override = None\<rparr>"
  let ?layer = "\<lparr>layer_origin = root_origin, layer_container = container\<rparr>"
  have pm: "PlaybackMetadata_parse (psf_tags container) = Inr m"
    using meta by (simp add: metadata_def map_err_def split: sum.splits)
  let ?start = "\<lambda>s1. s1\<lparr>ls_active := ls_active s1 @ [root_origin]\<rparr>"
  let ?opened = "\<lambda>s1 s'. ls_active s1 = [] \<and> ls_file_count s1 = 1 \<and> ls_aggregate_bytes s1 = length root_bytes
      \<and> ls_refresh_override s1 = None \<and> within_limits env 1 (length root_bytes)"
  have acc: "?opened s1 s1" if "account env (length root_bytes) s0 = (Inr u, s1)" for u s1
    using account_Inr [OF that] by (simp add: s0_def)
  have tree: ?thesis
    if s1: "?opened s1 s1" and t: "dep_tree env [] (DepTree ?layer (length root_bytes) p as)"
      and trav: "traversed env (observed ?layer (?start s1))
          (tl (visits (DepTree ?layer (length root_bytes) p as))) s'"
      and plan: "plan_of_tree plan (DepTree ?layer (length root_bytes) p as)" for s1 s' p as
  proof (intro exI conjI)
    let ?t = "DepTree ?layer (length root_bytes) p as"
    show "env = \<lparr>le_resolve = resolve, le_zlib = z, le_hash = hash, le_parse_limits = parse_limits,
        le_limits = limits, le_version = psf_version (node_container ?t)\<rparr>"
      by (simp add: env_def node_container_def)
    show "node_origin ?t = root_origin" by (simp add: node_origin_def)
    show "PsfContainer_parse_with_limits z hash root_origin root_bytes parse_limits = Inr (node_container ?t)"
      by (simp add: parse node_container_def)
    have "within_limits env (1 + length (tl (visits ?t))) (length root_bytes + sum_list (map snd (tl (visits ?t))))"
      using trav s1 unfolding traversed_def observed_def by (auto simp del: visits.simps)
    then show "length (visits ?t) \<le> max_files limits"
      and "length root_bytes + sum_list (map snd (tl (visits ?t))) \<le> max_aggregate_bytes limits"
      by (simp_all add: within_limits_def env_def del: map_concat)
  qed (use t plan in simp_all)
  have refresh: "ls_refresh_override s' = first_refresh (map fst (visits (DepTree ?layer n p as))) None"
    if "?opened s1 s1" "traversed env (observed ?layer (?start s1)) (tl (visits (DepTree ?layer n p as))) s'"
    for s1 s' n p as
    using that by (auto simp: traversed_def observed_def first_refresh_def)
  show ?thesis
  proof (cases "psf_version container")
    case PsfVersion_Psf1
    have version: "\<lparr>le_resolve = resolve, le_zlib = z, le_hash = hash, le_parse_limits = parse_limits,
        le_limits = limits, le_version = PsfVersion_Psf1\<rparr> = env"
      by (simp add: env_def PsfVersion_Psf1)
    obtain u s1 node s' where s1: "account env (length root_bytes) s0 = (Inr u, s1)"
      and node: "psf1_node env root_origin container 0 (?start s1) = (Inr node, s')"
      and plan: "plan = LoadPlan_Psf1 \<lparr>p1_root_origin = root_origin, p1_layers = n1_layers node,
          p1_initial_state_origin = n1_initial_state_origin node,
          p1_refresh_override = ls_refresh_override s', p1_metadata = m\<rparr>"
      using assms parse meta PsfVersion_Psf1
      by (auto simp: load_plan_def map_err_def Let_def rs_bind_Inr rs_return_Inr rs_modify_def rs_get_def
          version s0_def [symmetric] split: prod.splits)
    have "ls_active (?start s1) = [] @ [root_origin]" using acc [OF s1] by simp
    from psf1_sound(1) [OF node this, where bytes = "length root_bytes"]
    obtain p as where p: "dep_tree env [] (DepTree ?layer (length root_bytes) p as)"
        "traversed env (observed ?layer (?start s1)) (tl (visits (DepTree ?layer (length root_bytes) p as))) s'"
        "n1_layers node = psf1_layers (DepTree ?layer (length root_bytes) p as)"
        "n1_initial_state_origin node = psf1_initial (DepTree ?layer (length root_bytes) p as)"
      by auto
    have "plan_of_tree plan (DepTree ?layer (length root_bytes) p as)"
      unfolding plan_of_tree_def plan using p(3,4) refresh [OF acc [OF s1] p(2)] pm PsfVersion_Psf1
      by (simp add: node_origin_def node_container_def)
    then show ?thesis using tree [OF acc [OF s1] p(1,2)] by blast
  next
    case PsfVersion_Psf2
    have version: "\<lparr>le_resolve = resolve, le_zlib = z, le_hash = hash, le_parse_limits = parse_limits,
        le_limits = limits, le_version = PsfVersion_Psf2\<rparr> = env"
      by (simp add: env_def PsfVersion_Psf2)
    obtain u s1 layers s' where s1: "account env (length root_bytes) s0 = (Inr u, s1)"
      and node: "psf2_node env root_origin container 0 (?start s1) = (Inr layers, s')"
      and plan: "plan = LoadPlan_Psf2 \<lparr>p2_root_origin = root_origin, p2_layers = layers,
          p2_refresh_override = ls_refresh_override s', p2_metadata = m\<rparr>"
      using assms parse meta PsfVersion_Psf2
      by (auto simp: load_plan_def map_err_def Let_def rs_bind_Inr rs_return_Inr rs_modify_def rs_get_def
          version s0_def [symmetric] split: prod.splits)
    have "ls_active (?start s1) = [] @ [root_origin]" using acc [OF s1] by simp
    from psf2_sound(1) [OF node this, where bytes = "length root_bytes"]
    obtain p as where p: "dep_tree env [] (DepTree ?layer (length root_bytes) p as)"
        "traversed env (observed ?layer (?start s1)) (tl (visits (DepTree ?layer (length root_bytes) p as))) s'"
        "layers = psf2_layers (DepTree ?layer (length root_bytes) p as)"
      by auto
    have "plan_of_tree plan (DepTree ?layer (length root_bytes) p as)"
      unfolding plan_of_tree_def plan using p(3) refresh [OF acc [OF s1] p(2)] pm PsfVersion_Psf2
      by (simp add: node_origin_def node_container_def)
    then show ?thesis using tree [OF acc [OF s1] p(1,2)] by blast
  qed
qed

text \<open>
  C36. A load plan is the flattening of one dependency tree. When \<open>load_plan\<close> succeeds there
  is a tree with the caller's root at its top in which every node is the parsed file that the
  resolver returned for a library tag of its parent, in tag order and with the root's version;
  no file is its own ancestor and none is deeper than the limit; the files and the bytes opened
  are within their limits. The layers are that tree in overlay order (for PSF1 the
  \<open>_lib\<close> subtree, the file itself, then the numbered libraries; for PSF2 the file after all of its
  libraries), the initial state is that of the last file on the chain of \<open>_lib\<close> tags, and the
  refresh override is the first one met in the order of opening.
\<close>
theorem load_plan_tree:
  assumes "load_plan root_origin root_bytes resolve z hash parse_limits limits resolver = (Inr plan, resolver')"
  shows "\<exists>t env. env = \<lparr>le_resolve = resolve, le_zlib = z, le_hash = hash, le_parse_limits = parse_limits,
        le_limits = limits, le_version = psf_version (node_container t)\<rparr>
    \<and> node_origin t = root_origin
    \<and> PsfContainer_parse_with_limits z hash root_origin root_bytes parse_limits = Inr (node_container t)
    \<and> dep_tree env [] t
    \<and> length (visits t) \<le> max_files limits
    \<and> length root_bytes + sum_list (map snd (tl (visits t))) \<le> max_aggregate_bytes limits
    \<and> plan_of_tree plan t"
  using load_plan_sound [OF assms] .

definition example_lib :: "u8 list" where
  "example_lib = [0x50, 0x53, 0x46, 2, 0, 0, 0, 0, 0, 0, 0, 0, 0, 0, 0, 0]"

definition example_limits :: "ParseLimits \<times> DependencyLimits" where
  "example_limits =
     (\<lparr>max_input_bytes = 1000, max_reserved_bytes = 100, max_decompressed_bytes = 100, max_tag_bytes = 100\<rparr>,
      \<lparr>max_depth = 2, max_files = 2, max_aggregate_bytes = 100\<rparr>)"

definition example_load :: "(LoadError + LoadPlan) \<times> MemoryResolver" where
  "example_load = load_plan ''s/a'' (example_lib @ bytes_of_str ''[TAG]_lib=b'') MemoryResolver_resolve
     stored_zlib (\<lambda>_. 0) (fst example_limits) (snd example_limits) [''s/b'' \<mapsto> example_lib]"

lemma load_plan_tree_witness:
  "case fst example_load of Inr (LoadPlan_Psf2 p) \<Rightarrow>
       map layer_origin (p2_layers p) = [''s/b'', ''s/a'']
       \<and> (\<exists>t. node_origin t = ''s/a'' \<and> length (visits t) \<le> 2 \<and> plan_of_tree (LoadPlan_Psf2 p) t)
   | _ \<Rightarrow> False"
proof -
  have run: "case fst example_load of Inr (LoadPlan_Psf2 p) \<Rightarrow>
      map layer_origin (p2_layers p) = [''s/b'', ''s/a''] | _ \<Rightarrow> False"
    by code_simp
  then obtain p where fst_p: "fst example_load = Inr (LoadPlan_Psf2 p)"
    and origins: "map layer_origin (p2_layers p) = [''s/b'', ''s/a'']"
    by (auto split: sum.splits LoadPlan.splits)
  then have p: "example_load = (Inr (LoadPlan_Psf2 p), snd example_load)" by (metis prod.collapse)
  show ?thesis
    using load_plan_tree [OF p [unfolded example_load_def]] origins
    by (auto simp: fst_p example_limits_def)
qed

end
