(* ===== verification/Psx_Exe.thy ===== *)
theory Psx_Exe
  imports Psf_Load
begin

text \<open>
  PS-X executables and the PSF1 memory image (\<open>crates/formats/ps1/psx-exe/src/lib.rs\<close>):
  the checked header, and the overlay of the layers of a load plan on two megabytes of RAM.
\<close>

section \<open>The executable\<close>

definition EXE_HEADER_SIZE :: usize where "EXE_HEADER_SIZE = 0x800"
definition EXE_RAM_SIZE :: usize where "EXE_RAM_SIZE = 2 * 1024 * 1024"

datatype Region = Region_Japan | Region_NorthAmerica | Region_Europe | Region_Unknown

definition Region_refresh :: "Region \<Rightarrow> RefreshRate option" where
  "Region_refresh self = (case self of
     Region_Japan \<Rightarrow> Some RefreshRate_Hz60
   | Region_NorthAmerica \<Rightarrow> Some RefreshRate_Hz60
   | Region_Europe \<Rightarrow> Some RefreshRate_Hz50
   | Region_Unknown \<Rightarrow> None)"

record PsxExe =
  exe_pc :: u32
  exe_text_address :: u32
  exe_sp :: u32
  exe_region :: Region
  exe_physical_text_offset :: usize
  exe_text :: "u8 list"

datatype ExeError =
    ExeError_TruncatedHeader
  | ExeError_InvalidSignature
  | ExeError_TruncatedText usize usize
  | ExeError_AddressOverflow
  | ExeError_TextOutsideRam u32 usize

datatype ImageError =
    ImageError_Executable string ExeError
  | ImageError_MissingInitialLayer
  | ImageError_UnknownRootRegion

definition checked_ram_range :: "u32 \<Rightarrow> usize \<Rightarrow> ExeError + usize \<times> usize" where
  "checked_ram_range address size' =
     (let physical = unat (address AND 0x1FFFFFFF) in
      and_then (ok_or (checked_add_n 64 physical size') ExeError_AddressOverflow) (\<lambda>range_end.
      if EXE_RAM_SIZE \<le> physical \<or> EXE_RAM_SIZE < range_end
      then Inl (ExeError_TextOutsideRam address size')
      else Inr (physical, range_end)))"

definition contains :: "u8 list \<Rightarrow> u8 list \<Rightarrow> bool" where
  "contains haystack needle =
     list_ex (\<lambda>i. take (length needle) (drop i haystack) = needle)
       [0..<Suc (length haystack) - length needle]"

definition exe_region_of :: "u8 list \<Rightarrow> Region" where
  "exe_region_of marker =
     (if contains marker (bytes_of_str ''North America'') then Region_NorthAmerica
      else if contains marker (bytes_of_str ''Japan'') then Region_Japan
      else if contains marker (bytes_of_str ''Europe'') then Region_Europe
      else Region_Unknown)"

definition PsxExe_parse :: "u8 list \<Rightarrow> ExeError + PsxExe" where
  "PsxExe_parse bytes =
     (if length bytes < EXE_HEADER_SIZE then Inl ExeError_TruncatedHeader
      else if take 8 bytes \<noteq> bytes_of_str ''PS-X EXE'' then Inl ExeError_InvalidSignature
      else
        let pc = read_u32 bytes 0x10;
            text_address = read_u32 bytes 0x18;
            text_size = unat (read_u32 bytes 0x1C);
            sp = read_u32 bytes 0x30 in
        and_then (ok_or (checked_add_n 64 EXE_HEADER_SIZE text_size) ExeError_AddressOverflow) (\<lambda>text_end.
        if length bytes < text_end
        then Inl (ExeError_TruncatedText text_size (length bytes - EXE_HEADER_SIZE))
        else
          and_then (checked_ram_range text_address text_size) (\<lambda>ram_range.
          Inr \<lparr>exe_pc = pc, exe_text_address = text_address, exe_sp = sp,
            exe_region = exe_region_of (slice bytes 0x4C EXE_HEADER_SIZE),
            exe_physical_text_offset = fst ram_range,
            exe_text = slice bytes EXE_HEADER_SIZE text_end\<rparr>)))"

section \<open>The image\<close>

record ExecutableImage =
  img_ram :: "u8 list"
  img_pc :: u32
  img_sp :: u32
  img_refresh :: RefreshRate

text \<open>\<open>ram[start..end].copy_from_slice\<close> with the range inside the RAM.\<close>

definition copy_into :: "'a list \<Rightarrow> nat \<Rightarrow> 'a list \<Rightarrow> 'a list" where
  "copy_into ram start bytes = take start ram @ bytes @ drop (start + length bytes) ram"

record Overlay =
  ov_ram :: "u8 list"
  ov_initial :: "(u32 \<times> u32) option"
  ov_root_region :: "Region option"

text \<open>One round of the loop over the layers, and the loop.\<close>

definition overlay_layer :: "Psf1LoadPlan \<Rightarrow> PlanLayer \<Rightarrow> Overlay \<Rightarrow> ImageError + Overlay" where
  "overlay_layer plan layer ov =
     and_then (map_err (ImageError_Executable (layer_origin layer))
         (PsxExe_parse (psf_program (layer_container layer)))) (\<lambda>exe.
     Inr \<lparr>ov_ram = copy_into (ov_ram ov) (exe_physical_text_offset exe) (exe_text exe),
       ov_initial = (if layer_origin layer = p1_initial_state_origin plan
         then Some (exe_pc exe, exe_sp exe) else ov_initial ov),
       ov_root_region = (if layer_origin layer = p1_root_origin plan
         then Some (exe_region exe) else ov_root_region ov)\<rparr>)"

fun overlay_layers :: "Psf1LoadPlan \<Rightarrow> PlanLayer list \<Rightarrow> Overlay \<Rightarrow> ImageError + Overlay" where
  "overlay_layers plan [] ov = Inr ov"
| "overlay_layers plan (layer # layers) ov =
     and_then (overlay_layer plan layer ov) (overlay_layers plan layers)"

definition ExecutableImage_from_plan :: "Psf1LoadPlan \<Rightarrow> ImageError + ExecutableImage" where
  "ExecutableImage_from_plan plan =
     and_then (overlay_layers plan (p1_layers plan)
         \<lparr>ov_ram = replicate EXE_RAM_SIZE 0, ov_initial = None, ov_root_region = None\<rparr>) (\<lambda>ov.
     and_then (ok_or (ov_initial ov) ImageError_MissingInitialLayer) (\<lambda>(pc, sp).
     and_then (ok_or
         (case p1_refresh_override plan of Some r \<Rightarrow> Some r
          | None \<Rightarrow> Option.bind (ov_root_region ov) Region_refresh)
         ImageError_UnknownRootRegion) (\<lambda>refresh.
     Inr \<lparr>img_ram = ov_ram ov, img_pc = pc, img_sp = sp, img_refresh = refresh\<rparr>)))"

section \<open>Bounds\<close>

lemma checked_ram_range_Inr:
  "checked_ram_range address n = Inr (a, b) \<Longrightarrow>
     a = unat (address AND 0x1FFFFFFF) \<and> b = a + n \<and> a < EXE_RAM_SIZE \<and> b \<le> EXE_RAM_SIZE"
  by (auto simp: checked_ram_range_def Let_def and_then_Inr ok_or_def checked_n_defs split: if_splits)

lemma PsxExe_parse_bounds:
  assumes "PsxExe_parse bytes = Inr exe"
  shows "exe_physical_text_offset exe + length (exe_text exe) \<le> EXE_RAM_SIZE"
    and "length (exe_text exe) = unat (read_u32 bytes 0x1C)"
    and "exe_physical_text_offset exe = unat (exe_text_address exe AND 0x1FFFFFFF)"
proof -
  obtain a b where r: "checked_ram_range (read_u32 bytes 0x18) (unat (read_u32 bytes 0x1C)) = Inr (a, b)"
    and exe: "exe_physical_text_offset exe = a" "exe_text_address exe = read_u32 bytes 0x18"
      "exe_text exe = slice bytes EXE_HEADER_SIZE (EXE_HEADER_SIZE + unat (read_u32 bytes 0x1C))"
    and len: "EXE_HEADER_SIZE + unat (read_u32 bytes 0x1C) \<le> length bytes"
    using assms
    by (auto simp: PsxExe_parse_def Let_def and_then_Inr ok_or_def checked_add_n_def split: if_splits)
  note bounds = checked_ram_range_Inr [OF r]
  show len': "length (exe_text exe) = unat (read_u32 bytes 0x1C)" using len by (simp add: exe slice_def)
  show "exe_physical_text_offset exe + length (exe_text exe) \<le> EXE_RAM_SIZE"
    unfolding len' using bounds by (simp add: exe)
  show "exe_physical_text_offset exe = unat (exe_text_address exe AND 0x1FFFFFFF)"
    using bounds by (simp add: exe)
qed

section \<open>Overlay\<close>

definition last_that :: "('a \<Rightarrow> bool) \<Rightarrow> 'a list \<Rightarrow> 'a option" where
  "last_that P xs = find P (rev xs)"

lemma last_that_simps [simp]:
  "last_that P [] = None"
  "last_that P (x # xs) = (case last_that P xs of None \<Rightarrow> if P x then Some x else None | Some y \<Rightarrow> Some y)"
proof -
  have "find P (ys @ [x]) = (case find P ys of None \<Rightarrow> if P x then Some x else None | Some y \<Rightarrow> Some y)"
    for ys by (induction ys) auto
  then show "last_that P (x # xs)
      = (case last_that P xs of None \<Rightarrow> if P x then Some x else None | Some y \<Rightarrow> Some y)"
    by (simp add: last_that_def)
qed (simp add: last_that_def)

definition covers :: "nat \<Rightarrow> PsxExe \<Rightarrow> bool" where
  "covers a exe \<longleftrightarrow> exe_physical_text_offset exe \<le> a
     \<and> a < exe_physical_text_offset exe + length (exe_text exe)"

definition exe_byte :: "nat \<Rightarrow> PsxExe \<Rightarrow> u8" where
  "exe_byte a exe = exe_text exe ! (a - exe_physical_text_offset exe)"

definition layer_exe :: "PlanLayer \<Rightarrow> PsxExe \<Rightarrow> bool" where
  "layer_exe layer exe \<longleftrightarrow> PsxExe_parse (psf_program (layer_container layer)) = Inr exe"

definition layer_is :: "string \<Rightarrow> PlanLayer \<times> PsxExe \<Rightarrow> bool" where
  "layer_is origin le \<longleftrightarrow> layer_origin (fst le) = origin"

lemma copy_into_laws:
  assumes "start + length bytes \<le> length ram"
  shows "length (copy_into ram start bytes) = length ram"
    and "a < length ram \<Longrightarrow> copy_into ram start bytes ! a =
      (if start \<le> a \<and> a < start + length bytes then bytes ! (a - start) else ram ! a)"
  using assms by (auto simp: copy_into_def nth_append)

lemma overlay_layer_Inr:
  assumes "overlay_layer plan layer ov = Inr ov'" and "length (ov_ram ov) = EXE_RAM_SIZE"
  obtains exe where "layer_exe layer exe" and "length (ov_ram ov') = EXE_RAM_SIZE"
    and "\<forall>a<EXE_RAM_SIZE. ov_ram ov' ! a = (if covers a exe then exe_byte a exe else ov_ram ov ! a)"
    and "ov_initial ov' = (if layer_is (p1_initial_state_origin plan) (layer, exe)
       then Some (exe_pc exe, exe_sp exe) else ov_initial ov)"
    and "ov_root_region ov' = (if layer_is (p1_root_origin plan) (layer, exe)
       then Some (exe_region exe) else ov_root_region ov)"
proof -
  obtain exe where parse: "PsxExe_parse (psf_program (layer_container layer)) = Inr exe"
    and ov': "ov' = \<lparr>ov_ram = copy_into (ov_ram ov) (exe_physical_text_offset exe) (exe_text exe),
       ov_initial = (if layer_origin layer = p1_initial_state_origin plan
         then Some (exe_pc exe, exe_sp exe) else ov_initial ov),
       ov_root_region = (if layer_origin layer = p1_root_origin plan
         then Some (exe_region exe) else ov_root_region ov)\<rparr>"
    using assms(1) by (auto simp: overlay_layer_def and_then_Inr map_err_def split: sum.splits)
  have "exe_physical_text_offset exe + length (exe_text exe) \<le> length (ov_ram ov)"
    using PsxExe_parse_bounds(1) [OF parse] assms(2) by simp
  note laws = copy_into_laws [OF this]
  show thesis
    by (rule that [of exe])
      (use laws assms(2) parse in \<open>auto simp: ov' layer_exe_def covers_def exe_byte_def layer_is_def\<close>)
qed

lemma overlay_layers_Inr:
  assumes "overlay_layers plan layers ov = Inr ov'" and "length (ov_ram ov) = EXE_RAM_SIZE"
  shows "\<exists>exes. list_all2 layer_exe layers exes \<and> length (ov_ram ov') = EXE_RAM_SIZE
    \<and> (\<forall>a<EXE_RAM_SIZE. ov_ram ov' ! a
        = (case last_that (covers a) exes of None \<Rightarrow> ov_ram ov ! a | Some exe \<Rightarrow> exe_byte a exe))
    \<and> ov_initial ov' = (case last_that (layer_is (p1_initial_state_origin plan)) (zip layers exes) of
         None \<Rightarrow> ov_initial ov | Some (_, exe) \<Rightarrow> Some (exe_pc exe, exe_sp exe))
    \<and> ov_root_region ov' = (case last_that (layer_is (p1_root_origin plan)) (zip layers exes) of
         None \<Rightarrow> ov_root_region ov | Some (_, exe) \<Rightarrow> Some (exe_region exe))"
  using assms
proof (induction layers arbitrary: ov)
  case Nil
  then show ?case by simp
next
  case (Cons layer layers)
  obtain ov1 where step: "overlay_layer plan layer ov = Inr ov1"
    and rest: "overlay_layers plan layers ov1 = Inr ov'"
    using Cons.prems(1) by (auto simp: and_then_Inr)
  obtain exe where exe: "layer_exe layer exe" and len: "length (ov_ram ov1) = EXE_RAM_SIZE"
    and ram: "\<forall>a<EXE_RAM_SIZE. ov_ram ov1 ! a = (if covers a exe then exe_byte a exe else ov_ram ov ! a)"
    and init: "ov_initial ov1 = (if layer_is (p1_initial_state_origin plan) (layer, exe)
       then Some (exe_pc exe, exe_sp exe) else ov_initial ov)"
    and region: "ov_root_region ov1 = (if layer_is (p1_root_origin plan) (layer, exe)
       then Some (exe_region exe) else ov_root_region ov)"
    by (rule overlay_layer_Inr [OF step Cons.prems(2)])
  obtain exes where ih: "list_all2 layer_exe layers exes" "length (ov_ram ov') = EXE_RAM_SIZE"
    "\<forall>a<EXE_RAM_SIZE. ov_ram ov' ! a
        = (case last_that (covers a) exes of None \<Rightarrow> ov_ram ov1 ! a | Some exe \<Rightarrow> exe_byte a exe)"
    "ov_initial ov' = (case last_that (layer_is (p1_initial_state_origin plan)) (zip layers exes) of
         None \<Rightarrow> ov_initial ov1 | Some (_, exe) \<Rightarrow> Some (exe_pc exe, exe_sp exe))"
    "ov_root_region ov' = (case last_that (layer_is (p1_root_origin plan)) (zip layers exes) of
         None \<Rightarrow> ov_root_region ov1 | Some (_, exe) \<Rightarrow> Some (exe_region exe))"
    using Cons.IH [OF rest len] by blast
  show ?case
    by (rule exI [of _ "exe # exes"])
      (use ih exe ram init region in \<open>auto split: option.split\<close>)
qed

text \<open>
  C37. The memory image is the last-writer-wins overlay of the plan. When
  \<open>from_plan\<close> succeeds every layer is a valid executable; the RAM is exactly two megabytes, each byte of it
  the byte of the last layer in plan order whose text covers it and zero where no text does; the
  program counter and stack pointer are those of the plan's initial layer, and the refresh rate is
  the override, or else the one of the root executable's region.
\<close>
theorem exe_image_overlay:
  assumes "ExecutableImage_from_plan plan = Inr img"
  shows "\<exists>exes. list_all2 layer_exe (p1_layers plan) exes
    \<and> length (img_ram img) = 2 * 1024 * 1024
    \<and> (\<forall>a<2 * 1024 * 1024. img_ram img ! a
        = (case last_that (covers a) exes of None \<Rightarrow> 0 | Some exe \<Rightarrow> exe_byte a exe))
    \<and> (\<exists>exe layer. last_that (layer_is (p1_initial_state_origin plan)) (zip (p1_layers plan) exes)
          = Some (layer, exe) \<and> img_pc img = exe_pc exe \<and> img_sp img = exe_sp exe)
    \<and> (case p1_refresh_override plan of Some r \<Rightarrow> img_refresh img = r
       | None \<Rightarrow> \<exists>exe layer. last_that (layer_is (p1_root_origin plan)) (zip (p1_layers plan) exes)
          = Some (layer, exe) \<and> Region_refresh (exe_region exe) = Some (img_refresh img))"
proof -
  let ?ov0 = "\<lparr>ov_ram = replicate EXE_RAM_SIZE 0, ov_initial = None, ov_root_region = None\<rparr>"
  obtain ov pc sp where run: "overlay_layers plan (p1_layers plan) ?ov0 = Inr ov"
    and init: "ov_initial ov = Some (pc, sp)"
    and refresh: "(case p1_refresh_override plan of Some r \<Rightarrow> Some r
          | None \<Rightarrow> Option.bind (ov_root_region ov) Region_refresh) = Some (img_refresh img)"
    and img: "img_ram img = ov_ram ov" "img_pc img = pc" "img_sp img = sp"
    using assms by (auto simp: ExecutableImage_from_plan_def and_then_Inr ok_or_def
        split: option.splits)
  obtain exes where e: "list_all2 layer_exe (p1_layers plan) exes" "length (ov_ram ov) = EXE_RAM_SIZE"
    "\<forall>a<EXE_RAM_SIZE. ov_ram ov ! a
        = (case last_that (covers a) exes of None \<Rightarrow> ov_ram ?ov0 ! a | Some exe \<Rightarrow> exe_byte a exe)"
    "ov_initial ov = (case last_that (layer_is (p1_initial_state_origin plan)) (zip (p1_layers plan) exes) of
         None \<Rightarrow> ov_initial ?ov0 | Some (_, exe) \<Rightarrow> Some (exe_pc exe, exe_sp exe))"
    "ov_root_region ov = (case last_that (layer_is (p1_root_origin plan)) (zip (p1_layers plan) exes) of
         None \<Rightarrow> ov_root_region ?ov0 | Some (_, exe) \<Rightarrow> Some (exe_region exe))"
    using overlay_layers_Inr [OF run] by auto
  show ?thesis
  proof (intro exI [of _ exes] conjI)
    show "length (img_ram img) = 2 * 1024 * 1024" using e(2) by (simp add: img EXE_RAM_SIZE_def)
    show "\<forall>a<2 * 1024 * 1024. img_ram img ! a
        = (case last_that (covers a) exes of None \<Rightarrow> 0 | Some exe \<Rightarrow> exe_byte a exe)"
      using e(3) unfolding img EXE_RAM_SIZE_def by (auto split: option.split)
    show "\<exists>exe layer. last_that (layer_is (p1_initial_state_origin plan)) (zip (p1_layers plan) exes)
          = Some (layer, exe) \<and> img_pc img = exe_pc exe \<and> img_sp img = exe_sp exe"
      using e(4) init by (auto simp: img split: option.splits)
    show "case p1_refresh_override plan of Some r \<Rightarrow> img_refresh img = r
       | None \<Rightarrow> \<exists>exe layer. last_that (layer_is (p1_root_origin plan)) (zip (p1_layers plan) exes)
          = Some (layer, exe) \<and> Region_refresh (exe_region exe) = Some (img_refresh img)"
      using e(5) refresh by (auto split: option.splits bind_splits)
  qed (rule e(1))
qed

definition example_header :: "u8 list" where
  "example_header = bytes_of_str ''PS-X EXE'' @ replicate 8 0 @ [0x10, 0, 1, 0x80] @ replicate 4 0
     @ [0, 0, 1, 0x80] @ [2, 0, 0, 0] @ replicate 16 0 @ [0, 0xFF, 0x1F, 0x80]"

definition example_exe :: "u8 list" where
  "example_exe = example_header @ replicate 1996 0 @ [7, 8]"

lemma example_exe_parse:
  obtains region where "PsxExe_parse example_exe = Inr \<lparr>exe_pc = 0x80010010, exe_text_address = 0x80010000,
    exe_sp = 0x801FFF00, exe_region = region, exe_physical_text_offset = 0x10000, exe_text = [7, 8]\<rparr>"
proof -
  have header: "length example_header = 52" by code_simp
  then have field: "read_u32 example_exe i = read_u32 example_header i" if "i + 3 < 52" for i
    using that by (simp add: read_u32_def example_exe_def nth_append)
  have "read_u32 example_header 0x10 = 0x80010010" "read_u32 example_header 0x18 = 0x80010000"
    "read_u32 example_header 0x1C = 2" "read_u32 example_header 0x30 = 0x801FFF00"
    by code_simp+
  then have fields: "read_u32 example_exe 0x10 = 0x80010010" "read_u32 example_exe 0x18 = 0x80010000"
    "read_u32 example_exe 0x1C = 2" "read_u32 example_exe 0x30 = 0x801FFF00"
    by (simp_all add: field)
  have "take 8 example_header = bytes_of_str ''PS-X EXE''" by code_simp
  then have len: "length example_exe = 2050" "take 8 example_exe = bytes_of_str ''PS-X EXE''"
    by (simp_all add: example_exe_def header)
  have text': "slice example_exe 0x800 0x802 = [7, 8]"
    by (simp add: slice_def example_exe_def header)
  have "checked_ram_range 0x80010000 2 = Inr (0x10000, 0x10002)"
    by code_simp
  then have "PsxExe_parse example_exe = Inr \<lparr>exe_pc = 0x80010010, exe_text_address = 0x80010000,
      exe_sp = 0x801FFF00, exe_region = exe_region_of (slice example_exe 0x4C 0x800),
      exe_physical_text_offset = 0x10000, exe_text = [7, 8]\<rparr>"
    using text' by (simp add: PsxExe_parse_def fields len EXE_HEADER_SIZE_def checked_add_n_def
        ok_or_def and_then_def)
  then show thesis by (rule that)
qed

definition example_plan :: Psf1LoadPlan where
  "example_plan = \<lparr>p1_root_origin = ''a'',
     p1_layers = [\<lparr>layer_origin = ''a'', layer_container =
       \<lparr>psf_version = PsfVersion_Psf1, psf_reserved = [], psf_compressed_program = [],
        psf_program = example_exe, psf_tags = [], psf_reserved_range = \<lparr>br_start = 16, br_end = 16\<rparr>,
        psf_compressed_range = \<lparr>br_start = 16, br_end = 16\<rparr>, psf_tag_range = None\<rparr>\<rparr>],
     p1_initial_state_origin = ''a'', p1_refresh_override = Some RefreshRate_Hz60,
     p1_metadata = \<lparr>pm_title = None, pm_artist = None, pm_game = None, pm_year = None,
       pm_genre = None, pm_comment = None, pm_copyright = None, pm_psfby = None,
       pm_volume = F64_Finite 1, pm_length = None, pm_fade = Duration_ZERO, pm_refresh = None,
       pm_raw_tags = []\<rparr>\<rparr>"

lemma exe_image_overlay_witness:
  "\<exists>img. ExecutableImage_from_plan example_plan = Inr img \<and> img_pc img = 0x80010010
     \<and> img_ram img ! 0x10001 = 8 \<and> img_ram img ! 0x10002 = 0 \<and> length (img_ram img) = 2097152"
proof -
  obtain region where parse: "PsxExe_parse example_exe = Inr \<lparr>exe_pc = 0x80010010,
      exe_text_address = 0x80010000, exe_sp = 0x801FFF00, exe_region = region,
      exe_physical_text_offset = 0x10000, exe_text = [7, 8]\<rparr>"
    by (rule example_exe_parse)
  obtain img where img: "ExecutableImage_from_plan example_plan = Inr img"
    unfolding ExecutableImage_from_plan_def example_plan_def
    by (simp add: overlay_layer_def parse and_then_def map_err_def ok_or_def)
  obtain exes where e: "list_all2 layer_exe (p1_layers example_plan) exes"
    and len: "length (img_ram img) = 2 * 1024 * 1024"
    and ram: "\<forall>a<2 * 1024 * 1024. img_ram img ! a
        = (case last_that (covers a) exes of None \<Rightarrow> 0 | Some exe \<Rightarrow> exe_byte a exe)"
    and state: "\<exists>exe layer. last_that (layer_is (p1_initial_state_origin example_plan))
        (zip (p1_layers example_plan) exes) = Some (layer, exe)
        \<and> img_pc img = exe_pc exe \<and> img_sp img = exe_sp exe"
    using exe_image_overlay [OF img] by blast
  have exes: "exes = [\<lparr>exe_pc = 0x80010010, exe_text_address = 0x80010000, exe_sp = 0x801FFF00,
      exe_region = region, exe_physical_text_offset = 0x10000, exe_text = [7, 8]\<rparr>]"
    using e by (auto simp: example_plan_def list_all2_Cons1 layer_exe_def parse)
  have pc: "img_pc img = 0x80010010"
    using state by (auto simp: exes example_plan_def layer_is_def)
  have "img_ram img ! 0x10001 = 8" "img_ram img ! 0x10002 = 0"
    using ram by (simp_all add: exes covers_def exe_byte_def)
  then show ?thesis using img len pc by auto
qed

section \<open>A loaded plan\<close>

lemma psf1_initial_in_layers: "psf1_initial t \<in> set (map layer_origin (psf1_layers t))"
proof (induction t)
  case (DepTree layer bytes primary additional)
  then show ?case by (cases primary) auto
qed

lemma last_that_exists: "x \<in> set xs \<Longrightarrow> P x \<Longrightarrow> last_that P xs \<noteq> None"
  by (auto simp: last_that_def find_None_iff)

text \<open>
  C38. A plan that \<open>load_plan\<close> made always has its initial layer: the error
  \<open>MissingInitialLayer\<close> of the overlay is unreachable behind the loader, whatever the files
  and the resolver.
\<close>
theorem loaded_plan_has_initial_layer:
  assumes "load_plan root_origin root_bytes resolve z hash parse_limits limits resolver
      = (Inr (LoadPlan_Psf1 plan), resolver')"
  shows "ExecutableImage_from_plan plan \<noteq> Inl ImageError_MissingInitialLayer"
proof
  assume err: "ExecutableImage_from_plan plan = Inl ImageError_MissingInitialLayer"
  obtain t where "p1_layers plan = psf1_layers t" "p1_initial_state_origin plan = psf1_initial t"
    using load_plan_sound [OF assms] by (auto simp: plan_of_tree_def)
  then obtain layer where layer: "layer \<in> set (p1_layers plan)"
    "layer_origin layer = p1_initial_state_origin plan"
    using psf1_initial_in_layers [of t] by auto
  let ?ov0 = "\<lparr>ov_ram = replicate EXE_RAM_SIZE 0, ov_initial = None, ov_root_region = None\<rparr>"
  have no_missing: "overlay_layers plan layers ov \<noteq> Inl ImageError_MissingInitialLayer" for layers ov
    by (induction layers arbitrary: ov)
      (auto simp: overlay_layer_def and_then_def map_err_def split: sum.splits)
  obtain ov where run: "overlay_layers plan (p1_layers plan) ?ov0 = Inr ov"
    using err no_missing [of "p1_layers plan" ?ov0]
    by (cases "overlay_layers plan (p1_layers plan) ?ov0")
      (auto simp: ExecutableImage_from_plan_def and_then_def)
  have none: "ov_initial ov = None"
    using err run by (auto simp: ExecutableImage_from_plan_def and_then_def ok_or_def
        split: option.splits sum.splits)
  obtain exes where exes: "list_all2 layer_exe (p1_layers plan) exes"
    "ov_initial ov = (case last_that (layer_is (p1_initial_state_origin plan)) (zip (p1_layers plan) exes) of
         None \<Rightarrow> ov_initial ?ov0 | Some (_, exe) \<Rightarrow> Some (exe_pc exe, exe_sp exe))"
    using overlay_layers_Inr [OF run] by auto
  obtain exe where "(layer, exe) \<in> set (zip (p1_layers plan) exes)"
    using layer(1) list_all2_lengthD [OF exes(1)] by (metis in_set_impl_in_set_zip1)
  then have "last_that (layer_is (p1_initial_state_origin plan)) (zip (p1_layers plan) exes) \<noteq> None"
    by (rule last_that_exists) (simp add: layer_is_def layer(2))
  then show False using exes(2) none by (auto split: option.splits)
qed

lemma loaded_plan_has_initial_layer_witness:
  "\<exists>plan. fst (load_plan ''s/a'' [0x50, 0x53, 0x46, 1, 0, 0, 0, 0, 0, 0, 0, 0, 0, 0, 0, 0]
        MemoryResolver_resolve stored_zlib (\<lambda>_. 0) (fst example_limits) (snd example_limits) Map.empty)
      = Inr (LoadPlan_Psf1 plan)
    \<and> ExecutableImage_from_plan plan \<noteq> Inl ImageError_MissingInitialLayer"
proof -
  let ?run = "load_plan ''s/a'' [0x50, 0x53, 0x46, 1, 0, 0, 0, 0, 0, 0, 0, 0, 0, 0, 0, 0]
        MemoryResolver_resolve stored_zlib (\<lambda>_. 0) (fst example_limits) (snd example_limits) Map.empty"
  have "case fst ?run of Inr (LoadPlan_Psf1 p) \<Rightarrow> True | _ \<Rightarrow> False"
    by code_simp
  then obtain p where p: "fst ?run = Inr (LoadPlan_Psf1 p)" by (auto split: sum.splits LoadPlan.splits)
  have run: "?run = (Inr (LoadPlan_Psf1 p), snd ?run)" unfolding p [symmetric] by (rule prod.collapse [symmetric])
  show ?thesis by (rule exI [of _ p], rule conjI, rule p, rule loaded_plan_has_initial_layer [OF run])
qed

end
