(* ===== verification/Psf2_Vfs.thy ===== *)
theory Psf2_Vfs
  imports Psf_Load "HOL-Library.List_Lexorder" "HOL-Library.Char_ord" "HOL-Library.Code_Target_Numeral"
begin

text \<open>
  The read-only file system of a PSF2 set, \<open>crates/formats/ps2/vfs/src/lib.rs\<close>: each layer of the
  load plan is a tree of directory tables and zlib-compressed files in the reserved section, and
  later layers replace earlier entries. A \<open>BTreeMap\<close> is an association list in key order, a
  \<open>BTreeSet\<close> an increasing list, a path a string of ASCII bytes. The decoder is a parameter, as in
  \<open>Psf_Container\<close>.
\<close>

section \<open>Limits and errors\<close>

definition NAME_BYTES :: usize where "NAME_BYTES = 36"
definition ENTRY_BYTES :: usize where "ENTRY_BYTES = 48"
definition SPEC_MAX_PATH_BYTES :: usize where "SPEC_MAX_PATH_BYTES = 255"

record VfsLimits =
  vl_max_depth :: usize
  vl_max_entries :: usize
  vl_max_path_bytes :: usize
  vl_max_blocks :: usize
  vl_max_file_bytes :: usize
  vl_max_block_bytes :: usize
  vl_max_aggregate_bytes :: usize

definition VfsLimits_default :: VfsLimits where
  "VfsLimits_default =
     \<lparr>vl_max_depth = 32, vl_max_entries = 65536, vl_max_path_bytes = SPEC_MAX_PATH_BYTES,
      vl_max_blocks = 262144, vl_max_file_bytes = 64 * 1024 * 1024,
      vl_max_block_bytes = 1024 * 1024, vl_max_aggregate_bytes = 256 * 1024 * 1024\<rparr>"

datatype VfsErrorKind =
    VfsErrorKind_WrongVersion
  | VfsErrorKind_Truncated
  | VfsErrorKind_InvalidName
  | VfsErrorKind_InvalidEntry
  | VfsErrorKind_OffsetOrder
  | VfsErrorKind_OffsetOverflow
  | VfsErrorKind_LimitExceeded string
  | VfsErrorKind_InvalidZlib string
  | VfsErrorKind_BlockSizeMismatch usize usize
  | VfsErrorKind_InvalidPath
  | VfsErrorKind_NotFound
  | VfsErrorKind_IsDirectory

record VfsError =
  ve_origin :: string
  ve_offset :: usize
  ve_path :: string
  ve_kind :: VfsErrorKind

definition display_path :: "string \<Rightarrow> string" where
  "display_path path = (if path = [] then ''/'' else ''/'' @ path)"

definition VfsError_layer :: "string \<Rightarrow> usize \<Rightarrow> string \<Rightarrow> VfsErrorKind \<Rightarrow> VfsError" where
  "VfsError_layer origin offset path kind =
     \<lparr>ve_origin = origin, ve_offset = offset, ve_path = display_path path, ve_kind = kind\<rparr>"

definition VfsError_lookup :: "string \<Rightarrow> VfsErrorKind \<Rightarrow> VfsError" where
  "VfsError_lookup path kind =
     \<lparr>ve_origin = ''lookup'', ve_offset = 0, ve_path = path, ve_kind = kind\<rparr>"

section \<open>Ordered maps of paths\<close>

type_synonym file_map = "(string \<times> u8 list) list"

fun file_insert :: "string \<Rightarrow> u8 list \<Rightarrow> file_map \<Rightarrow> file_map" where
  "file_insert path data [] = [(path, data)]"
| "file_insert path data ((key, v) # files) =
     (if path < key then (path, data) # (key, v) # files
      else if path = key then (path, data) # files
      else (key, v) # file_insert path data files)"

definition file_remove :: "string \<Rightarrow> file_map \<Rightarrow> file_map" where
  "file_remove path = filter (\<lambda>(key, _). key \<noteq> path)"

definition starts_with :: "string \<Rightarrow> string \<Rightarrow> bool" where
  "starts_with p text \<longleftrightarrow> take (length p) text = p"

definition outside :: "string \<Rightarrow> string \<Rightarrow> bool" where
  "outside path candidate \<longleftrightarrow> candidate \<noteq> path \<and> \<not> starts_with (path @ ''/'') candidate"

definition remove_subtree :: "string \<Rightarrow> file_map \<times> string list \<Rightarrow> file_map \<times> string list" where
  "remove_subtree path = (\<lambda>(files, directories).
     (filter (\<lambda>(candidate, _). outside path candidate) files, filter (outside path) directories))"

record VfsLayer =
  ly_files :: file_map
  ly_directories :: "string list"

definition VfsLayer_default :: VfsLayer where
  "VfsLayer_default = \<lparr>ly_files = [], ly_directories = []\<rparr>"

definition insert_file :: "string \<Rightarrow> u8 list \<Rightarrow> VfsLayer \<Rightarrow> VfsLayer" where
  "insert_file path data layer =
     (let (files, directories) = remove_subtree path (ly_files layer, ly_directories layer) in
      \<lparr>ly_files = file_insert path data files, ly_directories = directories\<rparr>)"

definition insert_directory :: "string \<Rightarrow> VfsLayer \<Rightarrow> VfsLayer" where
  "insert_directory path layer =
     \<lparr>ly_files = file_remove path (ly_files layer),
      ly_directories = insort_insert path (ly_directories layer)\<rparr>"

record VfsBuilder =
  vb_limits :: VfsLimits
  vb_entries :: usize
  vb_blocks :: usize
  vb_aggregate :: usize
  vb_files :: file_map
  vb_directories :: "string list"

definition Builder_new :: "VfsLimits \<Rightarrow> VfsBuilder" where
  "Builder_new limits =
     \<lparr>vb_limits = limits, vb_entries = 0, vb_blocks = 0, vb_aggregate = 0, vb_files = [],
      vb_directories = [[]]\<rparr>"

section \<open>Parsing\<close>

definition vfs_read_u32 :: "u8 list \<Rightarrow> usize \<Rightarrow> u32 option" where
  "vfs_read_u32 input offset =
     Option.bind (checked_add_n 64 offset 4) (\<lambda>stop.
       if stop \<le> length input
       then Some (u32_from_le_bytes (input ! offset) (input ! (offset + 1)) (input ! (offset + 2)) (input ! (offset + 3)))
       else None)"

definition parse_name :: "u8 list \<Rightarrow> VfsErrorKind + string" where
  "parse_name raw =
     (let len = (case position (\<lambda>b. b = 0) raw of None \<Rightarrow> length raw | Some i \<Rightarrow> i) in
      if len = 0 \<or> (\<exists>b \<in> set (drop len raw). b \<noteq> 0) then Inl VfsErrorKind_InvalidName
      else
        let name = take len raw in
        if \<exists>b \<in> set name. \<not> (32 \<le> b \<and> b \<le> 126) \<or> b = 0x2F \<or> b = 0x5C \<or> b = 0x3A
        then Inl VfsErrorKind_InvalidName
        else Inr (str_of_bytes (map to_ascii_lowercase name)))"

definition vfs_join :: "string \<Rightarrow> string \<Rightarrow> string" where
  "vfs_join parent name = (if parent = [] then name else parent @ ''/'' @ name)"

text \<open>The read loop of \<open>decompress_block\<close>: the block so far grows until the decoder ends.\<close>

function block_loop ::
    "'z Zlib \<Rightarrow> string \<Rightarrow> usize \<Rightarrow> string \<Rightarrow> usize \<Rightarrow> 'z \<Rightarrow> u8 list \<Rightarrow> VfsError + (u8 list \<times> 'z)" where
  "block_loop z origin offset path expected decoder block =
     (case zlib_read z decoder of
        (Inl message, _) \<Rightarrow> Inl (VfsError_layer origin offset path (VfsErrorKind_InvalidZlib message))
      | (Inr bytes, decoder) \<Rightarrow>
          if bytes = [] then Inr (block, decoder)
          else if (case checked_add_n 64 (length block) (length bytes) of
              None \<Rightarrow> True | Some len \<Rightarrow> expected < len)
          then Inl (VfsError_layer origin offset path
            (VfsErrorKind_BlockSizeMismatch expected (saturating_add_n 64 (length block) (length bytes))))
          else block_loop z origin offset path expected decoder (block @ bytes))"
  by pat_completeness auto
termination
  by (relation "measure (\<lambda>(_, _, _, _, expected, _, block). Suc expected - length block)")
    (auto simp: checked_add_n_def intro: decompress_decreases split: option.splits if_splits)

declare block_loop.simps [simp del]

definition decompress_block ::
    "'z Zlib \<Rightarrow> string \<Rightarrow> usize \<Rightarrow> string \<Rightarrow> u8 list \<Rightarrow> usize \<Rightarrow> VfsError + u8 list" where
  "decompress_block z origin offset path compressed expected =
     and_then (block_loop z origin offset path expected (zlib_new z compressed) [])
       (\<lambda>(block, decoder).
          if zlib_total_in z decoder \<noteq> length compressed
          then Inl (VfsError_layer origin (offset + zlib_total_in z decoder) path
            (VfsErrorKind_InvalidZlib ''trailing compressed data''))
          else if length block \<noteq> expected
          then Inl (VfsError_layer origin offset path
            (VfsErrorKind_BlockSizeMismatch expected (length block)))
          else Inr block)"

definition div_ceil :: "nat \<Rightarrow> nat \<Rightarrow> nat" where
  "div_ceil a b = a div b + (if a mod b = 0 then 0 else 1)"

text \<open>The loop of \<open>vfs_parse_file\<close> over the block numbers, with the compressed offset and the output.\<close>

fun read_blocks ::
    "'z Zlib \<Rightarrow> string \<Rightarrow> u8 list \<Rightarrow> usize \<Rightarrow> usize \<Rightarrow> usize \<Rightarrow> string \<Rightarrow> usize list \<Rightarrow> usize \<Rightarrow> u8 list \<Rightarrow>
       VfsError + u8 list" where
  "read_blocks z origin input offset len block_size path [] compressed_offset output = Inr output"
| "read_blocks z origin input offset len block_size path (block # blocks) compressed_offset output =
     (let size_offset = offset + block * 4 in
      and_then (ok_or (vfs_read_u32 input size_offset)
          (VfsError_layer origin size_offset path VfsErrorKind_Truncated)) (\<lambda>compressed_size.
      and_then (ok_or (checked_add_n 64 compressed_offset (unat compressed_size))
          (VfsError_layer origin compressed_offset path VfsErrorKind_OffsetOverflow)) (\<lambda>compressed_end.
        if length input < compressed_end
        then Inl (VfsError_layer origin (length input) path VfsErrorKind_Truncated)
        else
          and_then (decompress_block z origin compressed_offset path
              (slice input compressed_offset compressed_end) (min block_size (len - length output)))
            (\<lambda>block. read_blocks z origin input offset len block_size path blocks compressed_end
               (output @ block)))))"

text \<open>A resource counter: a checked sum, stored, then compared with its limit.\<close>

definition charge ::
    "(VfsBuilder \<Rightarrow> usize) \<Rightarrow> (usize \<Rightarrow> VfsBuilder \<Rightarrow> VfsBuilder) \<Rightarrow> (VfsLimits \<Rightarrow> usize) \<Rightarrow> string \<Rightarrow>
       string \<Rightarrow> usize \<Rightarrow> string \<Rightarrow> usize \<Rightarrow> (VfsBuilder, VfsError, unit) rs" where
  "charge get put limit what origin offset path amount = (\<lambda>self.
     case checked_add_n 64 (get self) amount of
       None \<Rightarrow> (Inl (VfsError_layer origin offset path VfsErrorKind_OffsetOverflow), self)
     | Some amount \<Rightarrow>
         let self = put amount self in
         if limit (vb_limits self) < amount
         then (Inl (VfsError_layer origin offset path (VfsErrorKind_LimitExceeded what)), self)
         else (Inr (), self))"

definition charge_entries :: "string \<Rightarrow> usize \<Rightarrow> string \<Rightarrow> usize \<Rightarrow> (VfsBuilder, VfsError, unit) rs" where
  "charge_entries = charge vb_entries (\<lambda>n self. self\<lparr>vb_entries := n\<rparr>) vl_max_entries ''entry count''"

definition vfs_parse_file ::
    "'z Zlib \<Rightarrow> string \<Rightarrow> u8 list \<Rightarrow> usize \<Rightarrow> usize \<Rightarrow> usize \<Rightarrow> string \<Rightarrow>
       (VfsBuilder, VfsError, u8 list) rs" where
  "vfs_parse_file z origin input offset len block_size path =
     (let fail = (\<lambda>pos kind. rs_fail (VfsError_layer origin pos path kind)) in
      rs_bind (rs_get vb_limits) (\<lambda>limits.
      if vl_max_file_bytes limits < len then fail offset (VfsErrorKind_LimitExceeded ''file bytes'')
      else if vl_max_block_bytes limits < block_size
      then fail offset (VfsErrorKind_LimitExceeded ''block bytes'')
      else
        rs_then (charge vb_aggregate (\<lambda>n self. self\<lparr>vb_aggregate := n\<rparr>) vl_max_aggregate_bytes
            ''aggregate file bytes'' origin offset path len)
        (let block_count = div_ceil len block_size in
        rs_then (charge vb_blocks (\<lambda>n self. self\<lparr>vb_blocks := n\<rparr>) vl_max_blocks
            ''block count'' origin offset path block_count)
        (case Option.bind (checked_mul_n 64 block_count 4) (checked_add_n 64 offset) of
           None \<Rightarrow> fail offset VfsErrorKind_OffsetOverflow
         | Some compressed_offset \<Rightarrow>
             if length input < compressed_offset then fail (length input) VfsErrorKind_Truncated
             else rs_lift (read_blocks z origin input offset len block_size path [0..<block_count]
               compressed_offset [])))))"

text \<open>One entry of a directory table; \<open>enter\<close> parses the table of a subdirectory.\<close>

definition parse_entry ::
    "'z Zlib \<Rightarrow> string \<Rightarrow> u8 list \<Rightarrow> string \<Rightarrow>
       (usize \<Rightarrow> string \<Rightarrow> (VfsBuilder \<times> VfsLayer, VfsError, unit) rs) \<Rightarrow> usize \<Rightarrow>
       (VfsBuilder \<times> VfsLayer, VfsError, unit) rs" where
  "parse_entry z origin input parent enter entry_offset =
     rs_bind (rs_lift (map_err (VfsError_layer origin entry_offset parent)
         (parse_name (slice input entry_offset (entry_offset + NAME_BYTES))))) (\<lambda>name.
     let path = vfs_join parent name;
         fail = (\<lambda>pos kind. rs_fail (VfsError_layer origin pos path kind));
         word = (\<lambda>k. unat (the (vfs_read_u32 input (entry_offset + k))));
         child_offset = word 36; len = word 40; block_size = word 44 in
     rs_bind (rs_get (\<lambda>(self, _). vb_limits self)) (\<lambda>limits.
     if min (vl_max_path_bytes limits) SPEC_MAX_PATH_BYTES < length path
     then fail entry_offset (VfsErrorKind_LimitExceeded ''path bytes'')
     else if child_offset = 0 \<and> len = 0 \<and> block_size = 0
     then rs_modify (\<lambda>(self, layer). (self, insert_file path [] layer))
     else if len = 0 \<and> block_size = 0 then
       (if child_offset \<le> entry_offset then fail (entry_offset + 36) VfsErrorKind_OffsetOrder
        else rs_then (rs_modify (\<lambda>(self, layer). (self, insert_directory path layer)))
          (enter child_offset path))
     else if child_offset \<noteq> 0 \<and> len \<noteq> 0 \<and> block_size \<noteq> 0 then
       (if child_offset \<le> entry_offset then fail (entry_offset + 36) VfsErrorKind_OffsetOrder
        else rs_bind (rs_fst (vfs_parse_file z origin input child_offset len block_size path)) (\<lambda>data.
          rs_modify (\<lambda>(self, layer). (self, insert_file path data layer))))
     else fail (entry_offset + 36) VfsErrorKind_InvalidEntry))"

fun parse_entries ::
    "'z Zlib \<Rightarrow> string \<Rightarrow> u8 list \<Rightarrow> string \<Rightarrow>
       (usize \<Rightarrow> string \<Rightarrow> (VfsBuilder \<times> VfsLayer, VfsError, unit) rs) \<Rightarrow> usize list \<Rightarrow>
       (VfsBuilder \<times> VfsLayer, VfsError, unit) rs" where
  "parse_entries z origin input parent enter [] = rs_return ()"
| "parse_entries z origin input parent enter (entry_offset # offsets) =
     rs_then (parse_entry z origin input parent enter entry_offset)
       (parse_entries z origin input parent enter offsets)"

lemma parse_entries_cong [fundef_cong]:
  "z = z' \<Longrightarrow> origin = origin' \<Longrightarrow> input = input' \<Longrightarrow> parent = parent' \<Longrightarrow> offsets = offsets' \<Longrightarrow>
     (\<And>offset path. enter offset path = enter' offset path) \<Longrightarrow>
     parse_entries z origin input parent enter offsets = parse_entries z' origin' input' parent' enter' offsets'"
  by (metis ext)

function parse_directory ::
    "'z Zlib \<Rightarrow> VfsLimits \<Rightarrow> string \<Rightarrow> u8 list \<Rightarrow> usize \<Rightarrow> string \<Rightarrow> usize \<Rightarrow>
       (VfsBuilder \<times> VfsLayer, VfsError, unit) rs" where
  "parse_directory z limits origin input offset parent depth =
     (let fail = (\<lambda>pos kind. rs_fail (VfsError_layer origin pos parent kind)) in
      if vl_max_depth limits < depth then fail offset (VfsErrorKind_LimitExceeded ''directory depth'')
      else
        case vfs_read_u32 input offset of
          None \<Rightarrow> fail offset VfsErrorKind_Truncated
        | Some count \<Rightarrow>
            let count = unat count in
            rs_then (rs_fst (charge_entries origin offset parent count))
            (case Option.bind (checked_add_n 64 offset 4) (\<lambda>table_start.
                Option.bind (checked_mul_n 64 count ENTRY_BYTES) (\<lambda>table_bytes.
                Option.bind (checked_add_n 64 table_start table_bytes) (\<lambda>table_end.
                  Some (table_start, table_end)))) of
               None \<Rightarrow> fail offset VfsErrorKind_OffsetOverflow
             | Some (table_start, table_end) \<Rightarrow>
                 if length input < table_end then fail (length input) VfsErrorKind_Truncated
                 else
                   rs_then (rs_modify (\<lambda>(self, layer).
                       (self, layer\<lparr>ly_directories := insort_insert parent (ly_directories layer)\<rparr>)))
                   (parse_entries z origin input parent
                      (\<lambda>child path. parse_directory z limits origin input child path (depth + 1))
                      (map (\<lambda>index. table_start + index * ENTRY_BYTES) [0..<count]))))"
  by pat_completeness auto
termination
  by (relation "measure (\<lambda>(_, limits, _, _, _, _, depth). vl_max_depth limits + 1 - depth)") auto

declare parse_directory.simps [simp del]

section \<open>The file system\<close>

definition Builder_apply :: "VfsLayer \<Rightarrow> VfsBuilder \<Rightarrow> VfsBuilder" where
  "Builder_apply layer self =
     (let self = fold (\<lambda>directory self.
            if directory = [] then self
            else self\<lparr>vb_files := file_remove directory (vb_files self),
                      vb_directories := insort_insert directory (vb_directories self)\<rparr>)
          (ly_directories layer) self in
      fold (\<lambda>(path, data) self.
          let (files, directories) = remove_subtree path (vb_files self, vb_directories self) in
          self\<lparr>vb_files := file_insert path data files, vb_directories := directories\<rparr>)
        (ly_files layer) self)"

record Psf2Vfs =
  vfs_files :: file_map
  vfs_directories :: "string list"

fun apply_layers ::
    "'z Zlib \<Rightarrow> VfsLimits \<Rightarrow> PlanLayer list \<Rightarrow> (VfsBuilder, VfsError, unit) rs" where
  "apply_layers z limits [] = rs_return ()"
| "apply_layers z limits (layer # layers) = (\<lambda>builder.
     if psf_version (layer_container layer) \<noteq> PsfVersion_Psf2
     then (Inl (VfsError_layer (layer_origin layer) 0 ''/'' VfsErrorKind_WrongVersion), builder)
     else
       case parse_directory z limits (layer_origin layer) (psf_reserved (layer_container layer)) 0 [] 0
           (builder, VfsLayer_default) of
         (Inl e, (builder, _)) \<Rightarrow> (Inl e, builder)
       | (Inr _, (builder, parsed)) \<Rightarrow> apply_layers z limits layers (Builder_apply parsed builder))"

definition Psf2Vfs_from_load_plan :: "'z Zlib \<Rightarrow> Psf2LoadPlan \<Rightarrow> VfsLimits \<Rightarrow> VfsError + Psf2Vfs" where
  "Psf2Vfs_from_load_plan z plan limits =
     (case apply_layers z limits (p2_layers plan) (Builder_new limits) of
        (Inl e, _) \<Rightarrow> Inl e
      | (Inr _, builder) \<Rightarrow>
          Inr \<lparr>vfs_files = vb_files builder, vfs_directories = vb_directories builder\<rparr>)"

definition Psf2Vfs_len :: "Psf2Vfs \<Rightarrow> usize" where
  "Psf2Vfs_len self = length (vfs_files self)"

definition Psf2Vfs_is_empty :: "Psf2Vfs \<Rightarrow> bool" where
  "Psf2Vfs_is_empty self = (vfs_files self = [])"

section \<open>Lookups\<close>

definition lower :: "string \<Rightarrow> string" where
  "lower text = str_of_bytes (map to_ascii_lowercase (bytes_of_str text))"

definition is_separator :: "char \<Rightarrow> bool" where
  "is_separator c \<longleftrightarrow> byte_of_char c = 0x2F \<or> byte_of_char c = 0x5C"

fun lookup_components :: "string list \<Rightarrow> VfsErrorKind + string list" where
  "lookup_components [] = Inr []"
| "lookup_components (component # rest) =
     (if component = [] then lookup_components rest
      else if component = ''.'' \<or> component = ''..'' \<or> NAME_BYTES < length component
        \<or> (\<exists>b \<in> set (bytes_of_str component). \<not> (32 \<le> b \<and> b \<le> 126) \<or> b = 0x3A)
      then Inl VfsErrorKind_InvalidPath
      else and_then (lookup_components rest) (\<lambda>components. Inr (lower component # components)))"

fun join_slash :: "string list \<Rightarrow> string" where
  "join_slash [] = []"
| "join_slash [component] = component"
| "join_slash (component # rest) = component @ ''/'' @ join_slash rest"

definition normalize_lookup :: "string \<Rightarrow> usize \<Rightarrow> VfsErrorKind + string" where
  "normalize_lookup path max_path_bytes =
     (if \<not> list_all is_ascii (bytes_of_str path) \<or> max_path_bytes < length path
      then Inl VfsErrorKind_InvalidPath
      else and_then (lookup_components (split_on is_separator path)) (\<lambda>components.
        let normalized = join_slash components in
        if max_path_bytes < length normalized then Inl VfsErrorKind_InvalidPath else Inr normalized))"

datatype NodeKind = NodeKind_Directory | NodeKind_File

definition Psf2Vfs_node_kind :: "Psf2Vfs \<Rightarrow> string \<Rightarrow> VfsError + NodeKind option" where
  "Psf2Vfs_node_kind self path =
     and_then (map_err (VfsError_lookup path) (normalize_lookup path SPEC_MAX_PATH_BYTES)) (\<lambda>normalized.
       if map_of (vfs_files self) normalized \<noteq> None then Inr (Some NodeKind_File)
       else if normalized \<in> set (vfs_directories self) then Inr (Some NodeKind_Directory)
       else Inr None)"

definition Psf2Vfs_file :: "Psf2Vfs \<Rightarrow> string \<Rightarrow> VfsError + u8 list" where
  "Psf2Vfs_file self path =
     and_then (map_err (VfsError_lookup path) (normalize_lookup path SPEC_MAX_PATH_BYTES)) (\<lambda>normalized.
       case map_of (vfs_files self) normalized of
         Some data \<Rightarrow> Inr data
       | None \<Rightarrow> Inl (VfsError_lookup path
           (if normalized \<in> set (vfs_directories self) then VfsErrorKind_IsDirectory
            else VfsErrorKind_NotFound)))"

text \<open>The count and the buffer after the copy.\<close>

definition Psf2Vfs_read :: "Psf2Vfs \<Rightarrow> string \<Rightarrow> usize \<Rightarrow> u8 list \<Rightarrow> VfsError + (usize \<times> u8 list)" where
  "Psf2Vfs_read self path offset buffer =
     and_then (Psf2Vfs_file self path) (\<lambda>data.
       if length data < offset then Inr (0, buffer)
       else
         let remaining = drop offset data; count = min (length remaining) (length buffer) in
         Inr (count, take count remaining @ drop count buffer))"

section \<open>Well-formed trees\<close>

definition valid_name :: "string \<Rightarrow> bool" where
  "valid_name name \<longleftrightarrow> name \<noteq> [] \<and> length name \<le> NAME_BYTES
     \<and> (\<forall>b \<in> set (bytes_of_str name). 32 \<le> b \<and> b \<le> 126 \<and> b \<notin> {0x2F, 0x5C, 0x3A} \<and> to_ascii_lowercase b = b)"

text \<open>
  No path is a file and a directory, every path but the root's is a valid name in a directory
  that exists, and paths are within the format's bound.
\<close>

definition child_of :: "string set \<Rightarrow> string \<Rightarrow> bool" where
  "child_of directories path \<longleftrightarrow> length path \<le> SPEC_MAX_PATH_BYTES \<and>
     (\<exists>parent name. path = vfs_join parent name \<and> valid_name name \<and> parent \<in> directories)"

definition tree_ok :: "file_map \<Rightarrow> string set \<Rightarrow> bool" where
  "tree_ok files directories \<longleftrightarrow>
     fst ` set files \<inter> directories = {} \<and> distinct (map fst files)
     \<and> (\<forall>path \<in> fst ` set files. child_of directories path)
     \<and> (\<forall>path \<in> directories. path = [] \<or> child_of directories path)"

lemma map_of_file_insert: "map_of (file_insert path data files) = (map_of files)(path \<mapsto> data)"
  by (induction path data files rule: file_insert.induct) (auto simp: fun_eq_iff)

lemma keys_file_insert: "fst ` set (file_insert path data files) = insert path (fst ` set files)"
  by (induction path data files rule: file_insert.induct) auto

lemma distinct_file_insert:
  assumes "path \<notin> fst ` set files" "distinct (map fst files)"
  shows "distinct (map fst (file_insert path data files))"
proof -
  have "length (file_insert path data files) = Suc (length files)" using assms(1)
    by (induction path data files rule: file_insert.induct) auto
  then have "card (insert path (fst ` set files)) = length (map fst (file_insert path data files))"
    using assms by (simp add: card_distinct flip: distinct_card [of "map fst files", simplified])
  then show ?thesis using keys_file_insert [of path data files] by (intro card_distinct) simp
qed

lemma join_longer: "valid_name name \<Longrightarrow> length parent < length (vfs_join parent name)"
  by (auto simp: vfs_join_def valid_name_def)

lemma outside_self [simp]: "\<not> outside path path"
  by (simp add: outside_def)

lemma outside_shorter: "length candidate \<le> length path \<Longrightarrow> candidate \<noteq> path \<Longrightarrow> outside path candidate"
  by (auto simp: outside_def starts_with_def dest: arg_cong [where f = length])

text \<open>What stays after removing a subtree keeps its parent.\<close>

lemma outside_parent:
  assumes "outside path (vfs_join parent name)" "path \<noteq> []"
  shows "outside path parent"
proof (cases "parent = []")
  case True
  then show ?thesis using assms(2) by (simp add: outside_def starts_with_def)
next
  case False
  then have j: "vfs_join parent name = parent @ ''/'' @ name" by (simp add: vfs_join_def)
  show ?thesis
  proof (rule ccontr)
    assume "\<not> outside path parent"
    then have "starts_with (path @ ''/'') (parent @ ''/'' @ name)"
    proof (cases "parent = path")
      case False
      then have "take (length path + 1) parent = path @ ''/''"
        using \<open>\<not> outside path parent\<close> by (simp add: outside_def starts_with_def)
      moreover from this have "length path + 1 \<le> length parent"
        by (metis (no_types, lifting) length_append length_take list.size(3,4) min.cobounded1 add_0 plus_1_eq_Suc add.commute)
      ultimately show ?thesis by (simp add: starts_with_def)
    qed (simp add: starts_with_def)
    then show False using assms(1) by (simp add: outside_def j)
  qed
qed

lemma insort_insert_set: "set (insort_insert x xs) = insert x (set xs)"
  by (cases "x \<in> set xs") (auto simp: insort_insert_triv insort_insert_insort set_insort_key)

lemma distinct_map_filter: "distinct (map f xs) \<Longrightarrow> distinct (map f (filter P xs))"
  by (induction xs) auto

lemma map_of_filter_key:
  "map_of (filter (\<lambda>(key, _). P key) files) p = (if P p then map_of files p else None)"
  by (induction files) auto

lemma subtree_ok:
  assumes ok: "tree_ok files (set directories)" and path: "path \<noteq> []"
    and sub: "remove_subtree path (files, directories) = (files', directories')"
  shows "tree_ok files' (set directories')" and "path \<notin> fst ` set files'" "path \<notin> set directories'"
    and "set directories' = {d \<in> set directories. outside path d}"
    and "map_of files' = (\<lambda>p. if outside path p then map_of files p else None)"
proof -
  have f: "files' = filter (\<lambda>(candidate, _). outside path candidate) files"
    and d: "directories' = filter (outside path) directories"
    using sub by (simp_all add: remove_subtree_def)
  have keys: "fst ` set files' = {k \<in> fst ` set files. outside path k}" by (force simp: f)
  show dirs: "set directories' = {d \<in> set directories. outside path d}" by (auto simp: d)
  show "path \<notin> fst ` set files'" "path \<notin> set directories'" by (simp_all add: keys dirs)
  show "map_of files' = (\<lambda>p. if outside path p then map_of files p else None)"
    by (simp add: fun_eq_iff f map_of_filter_key)
  have "child_of {d \<in> set directories. outside path d} p" if "child_of (set directories) p" "outside path p" for p
    using that outside_parent [OF _ path] by (auto simp: child_of_def)
  then show "tree_ok files' (set directories')"
    using ok unfolding tree_ok_def keys dirs by (auto simp: f distinct_map_filter)
qed

lemma child_nonempty: "child_of directories path \<Longrightarrow> path \<noteq> []"
  by (auto simp: child_of_def vfs_join_def valid_name_def split: if_splits)

lemma tree_no_root: "tree_ok files D \<Longrightarrow> [] \<notin> fst ` set files"
  using child_nonempty [of D "[]"] unfolding tree_ok_def by metis

lemma child_mono: "child_of D path \<Longrightarrow> D \<subseteq> E \<Longrightarrow> child_of E path"
  by (auto simp: child_of_def)

lemma child_kept:
  assumes "child_of directories path"
  shows "child_of {d \<in> directories. outside path d} path"
proof -
  obtain parent name where c: "path = vfs_join parent name" "valid_name name" "parent \<in> directories"
    using assms by (auto simp: child_of_def)
  have "length parent < length path" using join_longer c by blast
  then have "outside path parent" by (auto intro: outside_shorter)
  then show ?thesis using c assms by (auto simp: child_of_def)
qed

text \<open>Putting a file or a directory under an existing directory keeps the tree.\<close>

lemma tree_put_file:
  assumes ok: "tree_ok files (set directories)" and child: "child_of (set directories) path"
    and sub: "remove_subtree path (files, directories) = (files', directories')"
  shows "tree_ok (file_insert path data files') (set directories')"
proof -
  note s = subtree_ok [OF ok child_nonempty [OF child] sub]
  have c: "child_of (set directories') path" using child_kept [OF child] s(4) by simp
  have "distinct (map fst files')" using s(1) by (simp add: tree_ok_def)
  then have "distinct (map fst (file_insert path data files'))" using s(2) by (intro distinct_file_insert)
  then show ?thesis
    using s(1-3) c unfolding tree_ok_def keys_file_insert by auto
qed

lemma keys_file_remove: "fst ` set (file_remove path files) = fst ` set files - {path}"
  by (force simp: file_remove_def)

lemma tree_put_directory:
  assumes ok: "tree_ok files (set directories)" and child: "path = [] \<or> child_of (set directories) path"
  shows "tree_ok (file_remove path files) (set (insort_insert path directories))"
proof -
  have d: "distinct (map fst (file_remove path files))"
    using ok by (simp add: tree_ok_def file_remove_def distinct_map_filter)
  have up: "child_of (insert path (set directories)) p" if "child_of (set directories) p" for p
    using child_mono [OF that] by blast
  show ?thesis
    using ok child d up unfolding tree_ok_def keys_file_remove insort_insert_set by auto
qed

section \<open>Parsed files\<close>

definition file_bytes :: "file_map \<Rightarrow> nat" where
  "file_bytes files = sum_list (map (length \<circ> snd) files)"

lemma file_bytes_simps [simp]: "file_bytes [] = 0" "file_bytes (x # xs) = length (snd x) + file_bytes xs"
  by (simp_all add: file_bytes_def)

lemma file_bytes_filter: "file_bytes (filter P files) \<le> file_bytes files"
  by (induction files) auto

lemma file_bytes_insert: "file_bytes (file_insert path data files) \<le> file_bytes files + length data"
  by (induction path data files rule: file_insert.induct) auto

lemma length_file_insert: "length (file_insert path data files) \<le> Suc (length files)"
  by (induction path data files rule: file_insert.induct) auto

lemma remove_subtree_smaller:
  "remove_subtree path (files, directories) = (files', directories') \<Longrightarrow>
     file_bytes files' \<le> file_bytes files \<and> length files' \<le> length files \<and> set files' \<subseteq> set files"
  by (auto simp: remove_subtree_def file_bytes_filter)

lemma remove_subtree_paths:
  "remove_subtree path (files, directories) = (files', directories') \<Longrightarrow>
     fst ` set files' \<union> set directories' \<subseteq> fst ` set files \<union> set directories"
  by (auto simp: remove_subtree_def)

lemma block_exact:
  "decompress_block z origin offset path compressed expected = Inr block \<Longrightarrow> length block = expected"
  by (auto simp: decompress_block_def and_then_def split: sum.splits if_splits)

lemma div_ceil_Suc:
  assumes "0 < b"
  shows "(div_ceil a b = 0 \<longleftrightarrow> a = 0)" "a \<noteq> 0 \<Longrightarrow> div_ceil a b = Suc (div_ceil (a - b) b)"
proof -
  show "div_ceil a b = 0 \<longleftrightarrow> a = 0" using assms by (cases "a = 0") (auto simp: div_ceil_def div_eq_0_iff)
  show "div_ceil a b = Suc (div_ceil (a - b) b)" if "a \<noteq> 0"
  proof (cases "b \<le> a")
    case True
    then have "a div b = Suc ((a - b) div b)" "a mod b = (a - b) mod b"
      using assms by (simp_all add: le_div_geq le_mod_geq)
    then show ?thesis by (simp add: div_ceil_def)
  next
    case False
    then show ?thesis using that assms by (simp add: div_ceil_def)
  qed
qed

text \<open>The blocks of a file are exactly its declared size (the code's \<open>debug_assert_eq!\<close>).\<close>

lemma read_blocks_exact:
  assumes "0 < block_size"
  shows "read_blocks z origin input offset len block_size path blocks compressed_offset acc = Inr data \<Longrightarrow>
    length acc \<le> len \<Longrightarrow> length blocks = div_ceil (len - length acc) block_size \<Longrightarrow> length data = len"
proof (induction blocks arbitrary: compressed_offset acc)
  case Nil
  then show ?case using div_ceil_Suc(1) [OF assms, of "len - length acc"] by simp
next
  case (Cons b bs)
  obtain stop block where rest: "read_blocks z origin input offset len block_size path bs stop (acc @ block) = Inr data"
    and block: "length block = min block_size (len - length acc)"
    using Cons.prems(1) by (auto simp: Let_def and_then_def dest: block_exact split: sum.splits if_splits)
  have nz: "len - length acc \<noteq> 0" using Cons.prems(3) div_ceil_Suc(1) [OF assms] by (metis length_Cons nat.distinct(1))
  have "len - length (acc @ block) = len - length acc - block_size"
    using block by (simp add: min_def)
  then have "length bs = div_ceil (len - length (acc @ block)) block_size"
    using Cons.prems(3) div_ceil_Suc(2) [OF assms nz] by simp
  moreover have "length (acc @ block) \<le> len" using block Cons.prems(2) by simp
  ultimately show ?case using Cons.IH rest by blast
qed

lemma lowercase_unat: "unat (to_ascii_lowercase b) = (if 0x41 \<le> unat b \<and> unat b \<le> 0x5A then unat b + 32 else unat b)"
proof -
  have "unat (b + 0x20) = unat b + 32" if "unat b \<le> 0x5A"
    using that by (simp add: unat_word_ariths)
  then show ?thesis by (simp add: to_ascii_lowercase_def word_le_nat_alt)
qed

lemma lowercase_byte:
  assumes "32 \<le> b" "b \<le> 126" "b \<notin> {0x2F, 0x5C, 0x3A}"
  shows "32 \<le> to_ascii_lowercase b \<and> to_ascii_lowercase b \<le> 126 \<and> to_ascii_lowercase b \<notin> {0x2F, 0x5C, 0x3A}
    \<and> to_ascii_lowercase (to_ascii_lowercase b) = to_ascii_lowercase b"
proof -
  define n where "n = unat b"
  have b: "b = word_of_nat n" by (simp add: n_def)
  have n: "32 \<le> n" "n \<le> 126" using assms(1,2) by (simp_all add: n_def word_le_nat_alt)
  have "n \<noteq> 0x2F" "n \<noteq> 0x5C" "n \<noteq> 0x3A" using b assms(3) by auto
  note n = n this
  define m where "m = unat (to_ascii_lowercase b)"
  have m: "m = (if 0x41 \<le> n \<and> n \<le> 0x5A then n + 32 else n)" unfolding m_def n_def by (rule lowercase_unat)
  then have range: "32 \<le> m" "m \<le> 126" "m \<noteq> 0x2F" "m \<noteq> 0x5C" "m \<noteq> 0x3A" "\<not> (0x41 \<le> m \<and> m \<le> 0x5A)"
    using n by (auto split: if_splits)
  have "unat (to_ascii_lowercase (to_ascii_lowercase b)) = m"
    using range(6) by (subst lowercase_unat) (simp add: m_def)
  then have "to_ascii_lowercase (to_ascii_lowercase b) = to_ascii_lowercase b"
    by (simp add: m_def word_unat_eq_iff)
  moreover have "32 \<le> to_ascii_lowercase b" "to_ascii_lowercase b \<le> 126"
    using range(1,2) by (simp_all add: m_def word_le_nat_alt)
  moreover have "to_ascii_lowercase b \<notin> {0x2F, 0x5C, 0x3A}"
    using range(3-5) by (auto simp: m_def)
  ultimately show ?thesis by blast
qed

lemma parse_name_valid:
  assumes "parse_name raw = Inr name" "length raw \<le> NAME_BYTES"
  shows "valid_name name"
proof -
  define len where "len = (case position (\<lambda>b. b = 0) raw of None \<Rightarrow> length raw | Some i \<Rightarrow> i)"
  have n: "len \<noteq> 0" "str_of_bytes (map to_ascii_lowercase (take len raw)) = name"
    and "\<not> (\<exists>b \<in> set (take len raw). \<not> (32 \<le> b \<and> b \<le> 126) \<or> b = 0x2F \<or> b = 0x5C \<or> b = 0x3A)"
    using assms(1) unfolding parse_name_def Let_def len_def [symmetric]
    by (simp_all only: split: if_splits) simp_all
  then have bytes: "\<forall>b \<in> set (take len raw). 32 \<le> b \<and> b \<le> 126 \<and> b \<notin> {0x2F, 0x5C, 0x3A}" by blast
  have "raw \<noteq> []" using n(1) by (auto simp: len_def split: option.splits dest: position_SomeD)
  then have "name \<noteq> []" using n by (auto simp: str_of_bytes_def)
  moreover have "length name \<le> NAME_BYTES" using n(2) assms(2) by (auto simp: str_of_bytes_def)
  moreover have "bytes_of_str name = map to_ascii_lowercase (take len raw)"
    unfolding n(2) [symmetric] by (simp add: bytes_of_str_def str_of_bytes_def comp_def)
  moreover have "32 \<le> c \<and> c \<le> 126 \<and> c \<notin> {0x2F, 0x5C, 0x3A} \<and> to_ascii_lowercase c = c"
    if c: "c \<in> set (map to_ascii_lowercase (take len raw))" for c
  proof -
    obtain b where b: "b \<in> set (take len raw)" "c = to_ascii_lowercase b"
      using c by auto
    then have "32 \<le> b" "b \<le> 126" "b \<notin> {0x2F, 0x5C, 0x3A}" using bytes by blast+
    then show ?thesis unfolding b(2) by (rule lowercase_byte)
  qed
  ultimately show ?thesis unfolding valid_name_def by metis
qed

section \<open>Parsing keeps the tree and the bounds\<close>

definition parse_inv :: "VfsLimits \<Rightarrow> VfsBuilder \<Rightarrow> nat \<Rightarrow> VfsBuilder \<times> VfsLayer \<Rightarrow> bool" where
  "parse_inv limits b0 r = (\<lambda>(b, l).
     vb_limits b = limits \<and> vb_files b = vb_files b0 \<and> vb_directories b = vb_directories b0
     \<and> tree_ok (ly_files l) (set (ly_directories l))
     \<and> length (ly_files l) + length (vb_files b) + r \<le> vb_entries b \<and> vb_entries b \<le> vl_max_entries limits
     \<and> file_bytes (ly_files l) + file_bytes (vb_files b) \<le> vb_aggregate b
     \<and> vb_aggregate b \<le> vl_max_aggregate_bytes limits
     \<and> (\<forall>(p, d) \<in> set (ly_files l). length d \<le> vl_max_file_bytes limits)
     \<and> (\<forall>p \<in> fst ` set (ly_files l) \<union> set (ly_directories l). length p \<le> vl_max_path_bytes limits))"

definition dirs_of :: "VfsBuilder \<times> VfsLayer \<Rightarrow> string set" where
  "dirs_of st = set (ly_directories (snd st))"

definition keeps_dirs :: "nat \<Rightarrow> VfsBuilder \<times> VfsLayer \<Rightarrow> VfsBuilder \<times> VfsLayer \<Rightarrow> bool" where
  "keeps_dirs n st st' \<longleftrightarrow> (\<forall>d \<in> dirs_of st. length d \<le> n \<longrightarrow> d \<in> dirs_of st')"

lemma wp_charge:
  assumes "get s + amount \<le> limit (vb_limits (put (get s + amount) s)) \<Longrightarrow> Q () (put (get s + amount) s)"
  shows "rs_wp (charge get put limit what origin offset path amount) Q (\<lambda>_ _. True) s"
  using assms by (auto simp: charge_def rs_wp_def Let_def checked_add_n_def split: option.split)

lemma wp_parse_file:
  assumes "block_size \<noteq> 0"
    and "\<And>data b'. length data = len \<Longrightarrow> len \<le> vl_max_file_bytes (vb_limits b) \<Longrightarrow>
      vb_aggregate b + len \<le> vl_max_aggregate_bytes (vb_limits b) \<Longrightarrow>
      b' = b\<lparr>vb_aggregate := vb_aggregate b + len, vb_blocks := vb_blocks b + div_ceil len block_size\<rparr> \<Longrightarrow> Q data b'"
  shows "rs_wp (vfs_parse_file z origin input offset len block_size path) Q (\<lambda>_ _. True) b"
  unfolding vfs_parse_file_def Let_def rs_wp
  using assms read_blocks_exact [of block_size z origin input offset len path "[0..<div_ceil len block_size]" _ "[]"]
  by (auto simp: rs_wp split: option.split sum.split intro!: wp_charge)

lemma inv_weaken: "parse_inv limits b0 (Suc r) st \<Longrightarrow> parse_inv limits b0 r st"
  by (auto simp: parse_inv_def)

lemma inv_put_file:
  assumes inv: "parse_inv limits b0 (Suc r) (b, l)" and child: "child_of (set (ly_directories l)) path"
    and short: "length path \<le> vl_max_path_bytes limits"
    and b': "b' = b\<lparr>vb_aggregate := vb_aggregate b + length data, vb_blocks := n\<rparr>"
      "vb_aggregate b + length data \<le> vl_max_aggregate_bytes limits" "length data \<le> vl_max_file_bytes limits"
  shows "parse_inv limits b0 r (b', insert_file path data l)"
    and "m < length path \<Longrightarrow> keeps_dirs m (b, l) (b', insert_file path data l)"
proof -
  obtain files directories where sub: "remove_subtree path (ly_files l, ly_directories l) = (files, directories)"
    by force
  have l': "insert_file path data l = \<lparr>ly_files = file_insert path data files, ly_directories = directories\<rparr>"
    by (simp add: insert_file_def sub)
  have ok: "tree_ok (ly_files l) (set (ly_directories l))" using inv by (simp add: parse_inv_def)
  note small = remove_subtree_smaller [OF sub] and tree = tree_put_file [OF ok child sub, of data]
  have sets: "set (file_insert path data files) \<subseteq> insert (path, data) (set files)" for files
    by (induction path data files rule: file_insert.induct) auto
  have "file_bytes (file_insert path data files) \<le> file_bytes (ly_files l) + length data"
    "length (file_insert path data files) \<le> Suc (length (ly_files l))"
    using small file_bytes_insert [of path data files] length_file_insert [of path data files] by linarith+
  moreover have "\<forall>(p, d) \<in> set (file_insert path data files). length d \<le> vl_max_file_bytes limits"
    using sets [of files] small inv b'(3) by (fastforce simp: parse_inv_def)
  moreover have "\<forall>p \<in> fst ` set (file_insert path data files) \<union> set directories. length p \<le> vl_max_path_bytes limits"
    using small inv short remove_subtree_paths [OF sub] unfolding keys_file_insert parse_inv_def
    by blast
  ultimately show "parse_inv limits b0 r (b', insert_file path data l)"
    using inv tree b' by (auto simp: parse_inv_def l')
  show "keeps_dirs m (b, l) (b', insert_file path data l)" if "m < length path"
    using that subtree_ok(4) [OF ok child_nonempty [OF child] sub]
    by (auto simp: keeps_dirs_def dirs_of_def l' intro!: outside_shorter)
qed

lemma inv_put_directory:
  assumes inv: "parse_inv limits b0 r (b, l)" and child: "path = [] \<or> child_of (set (ly_directories l)) path"
    and short: "length path \<le> vl_max_path_bytes limits"
  shows "parse_inv limits b0 r (b, insert_directory path l)"
    and "keeps_dirs m (b, l) (b, insert_directory path l)" "path \<in> dirs_of (b, insert_directory path l)"
proof -
  have ok: "tree_ok (ly_files l) (set (ly_directories l))" using inv by (simp add: parse_inv_def)
  have "file_bytes (file_remove path (ly_files l)) \<le> file_bytes (ly_files l)"
    "length (file_remove path (ly_files l)) \<le> length (ly_files l)"
    "set (file_remove path (ly_files l)) \<subseteq> set (ly_files l)"
    by (auto simp: file_remove_def file_bytes_filter)
  then show "parse_inv limits b0 r (b, insert_directory path l)"
    using inv short tree_put_directory [OF ok child]
    by (auto simp: parse_inv_def insert_directory_def insort_insert_set)
  show "keeps_dirs m (b, l) (b, insert_directory path l)" "path \<in> dirs_of (b, insert_directory path l)"
    by (auto simp: keeps_dirs_def dirs_of_def insert_directory_def insort_insert_set)
qed

lemma wp_parse_entry:
  assumes enter: "\<And>child path st. parse_inv limits b0 r st \<Longrightarrow> path \<in> dirs_of st \<Longrightarrow>
      rs_wp (enter child path) (\<lambda>_ st'. parse_inv limits b0 r st' \<and> keeps_dirs (length path) st st') (\<lambda>_ _. True) st"
    and inv: "parse_inv limits b0 (Suc r) st" and parent: "parent \<in> dirs_of st"
  shows "rs_wp (parse_entry z origin input parent enter entry_offset)
    (\<lambda>_ st'. parse_inv limits b0 r st' \<and> keeps_dirs (length parent) st st') (\<lambda>_ _. True) st"
proof -
  obtain b l where st: "st = (b, l)" by force
  have lim: "vb_limits b = limits" using inv by (simp add: st parse_inv_def)
  have room: "vb_aggregate b \<le> vl_max_aggregate_bytes limits" using inv by (simp add: st parse_inv_def)
  { fix name
    assume name: "parse_name (slice input entry_offset (entry_offset + NAME_BYTES)) = Inr name"
    let ?path = "vfs_join parent name"
    assume short: "\<not> min (vl_max_path_bytes limits) SPEC_MAX_PATH_BYTES < length ?path"
    have valid: "valid_name name" using parse_name_valid [OF name] by (simp add: slice_def)
    then have child: "child_of (set (ly_directories l)) ?path" and longer: "length parent < length ?path"
      using parent short join_longer [OF valid, of parent] by (auto simp: child_of_def dirs_of_def st)
    note this valid
  } note named = this
  show ?thesis
  proof (cases "parse_name (slice input entry_offset (entry_offset + NAME_BYTES))")
    case (Inr name)
    let ?path = "vfs_join parent name"
    have enter': "rs_wp (enter child ?path) (\<lambda>_ st'. parse_inv limits b0 r st' \<and> keeps_dirs (length parent) (b, l) st')
        (\<lambda>_ _. True) (b, insert_directory ?path l)"
      if "child_of (set (ly_directories l)) ?path" "length parent < length ?path"
        "length ?path \<le> vl_max_path_bytes limits" for child
    proof -
      note d = inv_put_directory [OF inv_weaken [OF inv [unfolded st]], of ?path]
      show ?thesis
        by (rule wp_mono [OF enter]) (use d that in \<open>auto simp: keeps_dirs_def\<close>)
    qed
    have empty: "parse_inv limits b0 r (b, insert_file ?path [] l) \<and> keeps_dirs (length parent) (b, l) (b, insert_file ?path [] l)"
      if "\<not> min (vl_max_path_bytes limits) SPEC_MAX_PATH_BYTES < length ?path"
      using inv_put_file [where path = ?path and b' = b and data = "[]" and n = "vb_blocks b", OF inv [unfolded st]]
        named [OF Inr that] that room by simp
    have entered: "rs_wp (enter child ?path) (\<lambda>_ st'. parse_inv limits b0 r st' \<and> keeps_dirs (length parent) (b, l) st')
        (\<lambda>_ _. True) (b, insert_directory ?path l)"
      if "\<not> min (vl_max_path_bytes limits) SPEC_MAX_PATH_BYTES < length ?path" for child
      using enter' [OF named(1,2) [OF Inr that]] that by simp
    have parsed: "rs_wp (vfs_parse_file z origin input child len block_size ?path)
        (\<lambda>data s'. parse_inv limits b0 r (s', insert_file ?path data l)
           \<and> keeps_dirs (length parent) (b, l) (s', insert_file ?path data l)) (\<lambda>_ _. True) b"
      if "\<not> min (vl_max_path_bytes limits) SPEC_MAX_PATH_BYTES < length ?path" "block_size \<noteq> 0" for child len block_size
      using that(2)
    proof (rule wp_parse_file)
      fix data :: "u8 list" and b'
      assume "length data = len" "len \<le> vl_max_file_bytes (vb_limits b)"
        "vb_aggregate b + len \<le> vl_max_aggregate_bytes (vb_limits b)"
        "b' = b\<lparr>vb_aggregate := vb_aggregate b + len, vb_blocks := vb_blocks b + div_ceil len block_size\<rparr>"
      then show "parse_inv limits b0 r (b', insert_file ?path data l)
          \<and> keeps_dirs (length parent) (b, l) (b', insert_file ?path data l)"
        using inv_put_file [where path = ?path and b' = b' and data = data and n = "vb_blocks b'", OF inv [unfolded st]]
          named [OF Inr that(1)] that(1) by (simp add: lim)
    qed
    show ?thesis
      unfolding parse_entry_def Let_def rs_wp Inr map_err_def sum.case st
      by (simp only: lim rs_wp prod.case split: if_split) (use empty entered parsed in blast)
  qed (simp add: parse_entry_def rs_wp map_err_def)
qed

lemma keeps_dirs_trans: "keeps_dirs n a b \<Longrightarrow> keeps_dirs n b c \<Longrightarrow> keeps_dirs n a c"
  by (auto simp: keeps_dirs_def)

lemma wp_parse_entries:
  assumes enter: "\<And>r child path st. parse_inv limits b0 r st \<Longrightarrow> path \<in> dirs_of st \<Longrightarrow>
      rs_wp (enter child path) (\<lambda>_ st'. parse_inv limits b0 r st' \<and> keeps_dirs (length path) st st') (\<lambda>_ _. True) st"
  shows "parse_inv limits b0 (r + length offsets) st \<Longrightarrow> parent \<in> dirs_of st \<Longrightarrow>
    rs_wp (parse_entries z origin input parent enter offsets)
      (\<lambda>_ st'. parse_inv limits b0 r st' \<and> keeps_dirs (length parent) st st') (\<lambda>_ _. True) st"
proof (induction offsets arbitrary: st)
  case (Cons k offsets)
  have "parse_inv limits b0 (Suc (r + length offsets)) st" using Cons.prems(1) by simp
  from wp_parse_entry [OF enter this Cons.prems(2)]
  have "rs_wp (parse_entry z origin input parent enter k)
      (\<lambda>_ st'. rs_wp (parse_entries z origin input parent enter offsets)
        (\<lambda>_ st'. parse_inv limits b0 r st' \<and> keeps_dirs (length parent) st st') (\<lambda>_ _. True) st') (\<lambda>_ _. True) st"
  proof (rule wp_mono)
    fix x st'
    assume h: "parse_inv limits b0 (r + length offsets) st' \<and> keeps_dirs (length parent) st st'"
    then have "parent \<in> dirs_of st'" using Cons.prems(2) by (simp add: keeps_dirs_def)
    from Cons.IH [OF conjunct1 [OF h] this]
    show "rs_wp (parse_entries z origin input parent enter offsets)
        (\<lambda>_ st'. parse_inv limits b0 r st' \<and> keeps_dirs (length parent) st st') (\<lambda>_ _. True) st'"
      by (rule wp_mono) (use h keeps_dirs_trans in blast)+
  qed simp
  then show ?case by (simp add: rs_wp)
qed (simp add: rs_wp keeps_dirs_def)

lemma inv_enter_directory:
  assumes inv: "parse_inv limits b0 r (b, l)" and parent: "parent = [] \<or> parent \<in> dirs_of (b, l)"
  shows "parse_inv limits b0 r (b, l\<lparr>ly_directories := insort_insert parent (ly_directories l)\<rparr>)"
proof -
  have ok: "tree_ok (ly_files l) (set (ly_directories l))" using inv by (simp add: parse_inv_def)
  have "[] \<notin> fst ` set (ly_files l)" using ok child_nonempty [of _ "[]"] unfolding tree_ok_def by blast
  moreover have "child_of (insert parent (set (ly_directories l))) p" if "child_of (set (ly_directories l)) p" for p
    using child_mono [OF that] by blast
  ultimately have "tree_ok (ly_files l) (insert parent (set (ly_directories l)))"
    using ok parent by (auto simp: tree_ok_def dirs_of_def insert_absorb)
  then show ?thesis using inv parent by (auto simp: parse_inv_def insort_insert_set dirs_of_def)
qed

text \<open>A table parsed at any depth keeps the invariant and the directories it does not lie above.\<close>

lemma wp_parse_directory:
  "parse_inv limits b0 r st \<Longrightarrow> parent = [] \<or> parent \<in> dirs_of st \<Longrightarrow>
     rs_wp (parse_directory z limits origin input offset parent depth)
       (\<lambda>_ st'. parse_inv limits b0 r st' \<and> keeps_dirs (length parent) st st') (\<lambda>_ _. True) st"
proof (induction "vl_max_depth limits + 1 - depth" arbitrary: r st offset parent depth rule: less_induct)
  case less
  obtain b l where st: "st = (b, l)" by force
  show ?case
  proof (cases "vl_max_depth limits < depth \<or> vfs_read_u32 input offset = None")
    case True
    then show ?thesis by (subst parse_directory.simps) (auto simp: Let_def rs_wp)
  next
    case False
    then obtain count where depth: "\<not> vl_max_depth limits < depth" and count: "vfs_read_u32 input offset = Some count" by auto
    define n where "n = unat count"
    let ?enter = "\<lambda>child path. parse_directory z limits origin input child path (Suc depth)"
    have entries: "rs_wp (parse_entries z origin input parent ?enter offsets)
        (\<lambda>_ st'. parse_inv limits b0 r st' \<and> keeps_dirs (length parent) st st') (\<lambda>_ _. True) (b', l')"
      if "parse_inv limits b0 (r + length offsets) (b', l')" "parent \<in> dirs_of (b', l')" "keeps_dirs (length parent) st (b', l')"
      for offsets b' l'
    proof (rule wp_mono [OF wp_parse_entries [OF _ that(1,2)]])
      fix r child path st2
      assume "parse_inv limits b0 r st2" "path \<in> dirs_of st2"
      then show "rs_wp (?enter child path) (\<lambda>_ st'. parse_inv limits b0 r st' \<and> keeps_dirs (length path) st2 st')
          (\<lambda>_ _. True) st2"
        using less.hyps depth by simp
    qed (use that(3) keeps_dirs_trans in blast)+
    have charged: "parse_inv limits b0 (r + n) (b\<lparr>vb_entries := vb_entries b + n\<rparr>, l)"
      if "vb_entries b + n \<le> vl_max_entries (vb_limits b)"
      using less.prems(1) that by (auto simp: st parse_inv_def)
    have opened: "rs_wp (parse_entries z origin input parent ?enter offsets)
        (\<lambda>_ st'. parse_inv limits b0 r st' \<and> keeps_dirs (length parent) st st') (\<lambda>_ _. True)
        (b\<lparr>vb_entries := vb_entries b + n\<rparr>, l\<lparr>ly_directories := insort_insert parent (ly_directories l)\<rparr>)"
      if "vb_entries b + n \<le> vl_max_entries (vb_limits b)" "length offsets = n" for offsets
    proof (rule entries)
      show "parse_inv limits b0 (r + length offsets)
          (b\<lparr>vb_entries := vb_entries b + n\<rparr>, l\<lparr>ly_directories := insort_insert parent (ly_directories l)\<rparr>)"
        using inv_enter_directory [OF charged [OF that(1)], of parent] less.prems(2) that(2) by (simp add: dirs_of_def st)
    qed (auto simp: dirs_of_def insort_insert_set keeps_dirs_def st)
    show ?thesis
      by (subst parse_directory.simps)
        (auto simp: depth count Let_def rs_wp st charge_entries_def simp flip: n_def
          intro!: wp_charge opened [unfolded st] split: option.split)
  qed
qed

end
