(* ===== verification/Psf2_Overlay.thy ===== *)
theory Psf2_Overlay
  imports Psf2_Vfs
begin

text \<open>
  What a PSF2 layer's bytes mean, apart from the code that parses them: the tree of entries a
  directory table describes, what each entry uses of the configured bounds and what it puts into
  the layer. The parser returns such a tree's layer and charges exactly its use; a file system is
  the overlay of the layers of a load plan, and a file is found under every spelling of its path.
\<close>

section \<open>The tree of a table\<close>

datatype vfs_entry =
    Vfs_File string usize "u8 list"
  | Vfs_Directory string "vfs_entry list"

text \<open>What a decoder hands out until it ends, and a block that is all of its compressed bytes.\<close>

inductive inflates :: "'z Zlib \<Rightarrow> 'z \<Rightarrow> u8 list \<Rightarrow> 'z \<Rightarrow> bool" for z where
  inflates_end: "zlib_read z d = (Inr [], d') \<Longrightarrow> inflates z d [] d'"
| inflates_more: "zlib_read z d = (Inr bytes, d') \<Longrightarrow> bytes \<noteq> [] \<Longrightarrow> inflates z d' rest d'' \<Longrightarrow>
    inflates z d (bytes @ rest) d''"

definition block_at :: "'z Zlib \<Rightarrow> u8 list \<Rightarrow> u8 list \<Rightarrow> bool" where
  "block_at z compressed block \<longleftrightarrow>
     (\<exists>d. inflates z (zlib_new z compressed) block d \<and> zlib_total_in z d = length compressed)"

text \<open>
  The blocks of a file: \<open>left\<close> bytes in blocks of \<open>block_size\<close>, the last one shorter, whose
  compressed sizes are the words from \<open>sizes\<close> and whose bytes follow one another from \<open>pos\<close>.
\<close>

fun blocks_at :: "'z Zlib \<Rightarrow> u8 list \<Rightarrow> usize \<Rightarrow> usize \<Rightarrow> usize \<Rightarrow> nat \<Rightarrow> u8 list list \<Rightarrow> bool" where
  "blocks_at z input sizes pos block_size left [] \<longleftrightarrow> left = 0"
| "blocks_at z input sizes pos block_size left (block # blocks) \<longleftrightarrow>
     left \<noteq> 0 \<and> length block = min block_size left \<and>
     (\<exists>n. vfs_read_u32 input sizes = Some n \<and> pos + unat n \<le> length input \<and>
        block_at z (slice input pos (pos + unat n)) block \<and>
        blocks_at z input (sizes + 4) (pos + unat n) block_size (left - length block) blocks)"

definition file_at :: "'z Zlib \<Rightarrow> u8 list \<Rightarrow> usize \<Rightarrow> usize \<Rightarrow> usize \<Rightarrow> u8 list \<Rightarrow> bool" where
  "file_at z input start len block_size data \<longleftrightarrow>
     (\<exists>blocks. data = concat blocks \<and>
        blocks_at z input start (start + 4 * div_ceil len block_size) block_size len blocks)"

definition entry_word :: "u8 list \<Rightarrow> usize \<Rightarrow> nat" where
  "entry_word input pos = unat (the (vfs_read_u32 input pos))"

definition named :: "u8 list \<Rightarrow> string \<Rightarrow> usize \<Rightarrow> string \<Rightarrow> bool" where
  "named input parent pos path \<longleftrightarrow>
     (\<exists>name. parse_name (slice input pos (pos + NAME_BYTES)) = Inr name \<and> path = vfs_join parent name)"

text \<open>
  An entry of 48 bytes is its name and three words. All zero is an empty file; an offset alone is
  a directory whose table lies there; otherwise the words are a file's offset, size and block
  size. Tables and files lie behind the entry that names them.
\<close>

fun entry_at :: "'z Zlib \<Rightarrow> u8 list \<Rightarrow> string \<Rightarrow> usize \<Rightarrow> vfs_entry \<Rightarrow> bool"
  and entries_at :: "'z Zlib \<Rightarrow> u8 list \<Rightarrow> string \<Rightarrow> usize \<Rightarrow> vfs_entry list \<Rightarrow> bool" where
  "entry_at z input parent pos (Vfs_File path block_size data) \<longleftrightarrow>
     named input parent pos path \<and> entry_word input (pos + 40) = length data \<and>
     entry_word input (pos + 44) = block_size \<and>
     (if data = [] then entry_word input (pos + 36) = 0 \<and> block_size = 0
      else pos < entry_word input (pos + 36) \<and> block_size \<noteq> 0 \<and>
        file_at z input (entry_word input (pos + 36)) (length data) block_size data)"
| "entry_at z input parent pos (Vfs_Directory path entries) \<longleftrightarrow>
     named input parent pos path \<and> pos < entry_word input (pos + 36) \<and>
     entry_word input (pos + 40) = 0 \<and> entry_word input (pos + 44) = 0 \<and>
     map_option unat (vfs_read_u32 input (entry_word input (pos + 36))) = Some (length entries) \<and>
     entry_word input (pos + 36) + 4 + length entries * ENTRY_BYTES \<le> length input \<and>
     entries_at z input path (entry_word input (pos + 36) + 4) entries"
| "entries_at z input parent pos [] \<longleftrightarrow> True"
| "entries_at z input parent pos (entry # entries) \<longleftrightarrow>
     entry_at z input parent pos entry \<and> entries_at z input parent (pos + ENTRY_BYTES) entries"

definition table_at :: "'z Zlib \<Rightarrow> u8 list \<Rightarrow> string \<Rightarrow> usize \<Rightarrow> vfs_entry list \<Rightarrow> bool" where
  "table_at z input parent start entries \<longleftrightarrow>
     map_option unat (vfs_read_u32 input start) = Some (length entries) \<and>
     start + 4 + length entries * ENTRY_BYTES \<le> length input \<and>
     entries_at z input parent (start + 4) entries"

text \<open>What a tree uses: entries below the entry, blocks and bytes; and the bounds on one entry.\<close>

primrec entries_below :: "vfs_entry \<Rightarrow> nat" where
  "entries_below (Vfs_File path block_size data) = 0"
| "entries_below (Vfs_Directory path entries) = length entries + sum_list (map entries_below entries)"

primrec blocks_used :: "vfs_entry \<Rightarrow> nat" where
  "blocks_used (Vfs_File path block_size data) = div_ceil (length data) block_size"
| "blocks_used (Vfs_Directory path entries) = sum_list (map blocks_used entries)"

primrec bytes_used :: "vfs_entry \<Rightarrow> nat" where
  "bytes_used (Vfs_File path block_size data) = length data"
| "bytes_used (Vfs_Directory path entries) = sum_list (map bytes_used entries)"

fun entry_within :: "VfsLimits \<Rightarrow> nat \<Rightarrow> vfs_entry \<Rightarrow> bool" where
  "entry_within limits depth (Vfs_File path block_size data) \<longleftrightarrow>
     length path \<le> min (vl_max_path_bytes limits) SPEC_MAX_PATH_BYTES \<and>
     length data \<le> vl_max_file_bytes limits \<and> block_size \<le> vl_max_block_bytes limits"
| "entry_within limits depth (Vfs_Directory path entries) \<longleftrightarrow>
     length path \<le> min (vl_max_path_bytes limits) SPEC_MAX_PATH_BYTES \<and>
     depth < vl_max_depth limits \<and> (\<forall>entry \<in> set entries. entry_within limits (Suc depth) entry)"

definition table_entries :: "vfs_entry list \<Rightarrow> nat" where
  "table_entries entries = length entries + sum_list (map entries_below entries)"

text \<open>What the entries put into a layer, in the order of the table, a directory before its own.\<close>

fun put_entry :: "vfs_entry \<Rightarrow> VfsLayer \<Rightarrow> VfsLayer" where
  "put_entry (Vfs_File path block_size data) layer = insert_file path data layer"
| "put_entry (Vfs_Directory path entries) layer = fold put_entry entries (insert_directory path layer)"

definition table_layer :: "vfs_entry list \<Rightarrow> VfsLayer" where
  "table_layer entries = fold put_entry entries \<lparr>ly_files = [], ly_directories = [[]]\<rparr>"

section \<open>The parser finds the tree\<close>

definition vfs_fits :: "VfsLimits \<Rightarrow> VfsBuilder \<Rightarrow> bool" where
  "vfs_fits limits b \<longleftrightarrow> vb_limits b = limits \<and> vb_entries b \<le> vl_max_entries limits
     \<and> vb_aggregate b \<le> vl_max_aggregate_bytes limits \<and> vb_blocks b \<le> vl_max_blocks limits"

definition used :: "vfs_entry list \<Rightarrow> VfsBuilder \<Rightarrow> VfsBuilder" where
  "used entries b = b\<lparr>vb_entries := vb_entries b + sum_list (map entries_below entries),
     vb_aggregate := vb_aggregate b + sum_list (map bytes_used entries),
     vb_blocks := vb_blocks b + sum_list (map blocks_used entries)\<rparr>"

lemma used_Cons: "used (e # es) b = used es (used [e] b)"
  by (simp add: used_def)

lemma used_Nil [simp]: "used [] b = b"
  by (simp add: used_def)

lemma block_loop_inflates:
  "block_loop z origin offset path expected d acc = Inr (block, d') \<Longrightarrow>
     \<exists>rest. block = acc @ rest \<and> inflates z d rest d'"
proof (induction z origin offset path expected d acc rule: block_loop.induct)
  case (1 z origin offset path expected d acc)
  obtain bytes d1 where read: "zlib_read z d = (Inr bytes, d1)"
    using "1.prems" by (subst (asm) block_loop.simps) (auto split: prod.splits sum.splits)
  show ?case
  proof (cases "bytes = []")
    case True
    then show ?thesis using "1.prems" read
      by (subst (asm) block_loop.simps) (auto intro: inflates_end)
  next
    case False
    have guard: "\<not> (case checked_add_n 64 (length acc) (length bytes) of None \<Rightarrow> True | Some len \<Rightarrow> expected < len)"
      and rest: "block_loop z origin offset path expected d1 (acc @ bytes) = Inr (block, d')"
      using "1.prems" read False by (subst (asm) block_loop.simps, simp split: if_splits)+
    obtain rest where "block = (acc @ bytes) @ rest" "inflates z d1 rest d'"
      using "1.IH" [OF read [symmetric] refl False guard rest] by blast
    then show ?thesis using inflates_more [OF read False] by auto
  qed
qed

lemma decompress_block_at:
  assumes "decompress_block z origin offset path compressed expected = Inr block"
  shows "block_at z compressed block \<and> length block = expected"
proof -
  obtain d where "block_loop z origin offset path expected (zlib_new z compressed) [] = Inr (block, d)"
      "zlib_total_in z d = length compressed" "length block = expected"
    using assms by (auto simp: decompress_block_def and_then_def split: sum.splits if_splits)
  then show ?thesis using block_loop_inflates unfolding block_at_def by fastforce
qed

lemma read_blocks_at:
  assumes "0 < block_size"
  shows "read_blocks z origin input offset len block_size path [k..<k + m] pos acc = Inr data \<Longrightarrow>
    length acc \<le> len \<Longrightarrow> m = div_ceil (len - length acc) block_size \<Longrightarrow>
    \<exists>blocks. data = acc @ concat blocks
      \<and> blocks_at z input (offset + k * 4) pos block_size (len - length acc) blocks"
proof (induction m arbitrary: k pos acc)
  case 0
  then have "len - length acc = 0" using div_ceil_Suc(1) [OF assms] by metis
  then show ?case using "0.prems"(1) by (intro exI [of _ "[]"]) simp
next
  case (Suc m)
  have range: "[k..<k + Suc m] = k # [Suc k..<Suc k + m]" by (simp add: upt_conv_Cons)
  obtain n block where n: "vfs_read_u32 input (offset + k * 4) = Some n" "pos + unat n \<le> length input"
    and block: "decompress_block z origin pos path (slice input pos (pos + unat n)) (min block_size (len - length acc)) = Inr block"
    and rest: "read_blocks z origin input offset len block_size path [Suc k..<Suc k + m] (pos + unat n) (acc @ block) = Inr data"
    using Suc.prems(1) unfolding range
    by (auto simp: Let_def and_then_def ok_or_def checked_add_n_def not_less split: sum.splits if_splits option.splits)
  note b = decompress_block_at [OF block]
  have nz: "len - length acc \<noteq> 0" using Suc.prems(3) div_ceil_Suc(1) [OF assms] by (metis nat.distinct(1))
  have left: "len - length (acc @ block) = len - length acc - length block"
    "len - length acc - length block = len - length acc - block_size"
    using b by (simp_all add: min_def)
  have "m = div_ceil (len - length (acc @ block)) block_size"
    using Suc.prems(3) div_ceil_Suc(2) [OF assms nz] unfolding left by simp
  moreover have "length (acc @ block) \<le> len" using b Suc.prems(2) by simp
  ultimately obtain blocks where "data = (acc @ block) @ concat blocks"
    "blocks_at z input (offset + Suc k * 4) (pos + unat n) block_size (len - length (acc @ block)) blocks"
    using Suc.IH [OF rest] by blast
  then show ?case using n b nz unfolding left(1)
    by (intro exI [of _ "block # blocks"]) (auto simp: algebra_simps)
qed

lemma wp_file_at:
  assumes vfs_fits: "vfs_fits limits b" and "block_size \<noteq> 0"
  shows "rs_wp (vfs_parse_file z origin input offset len block_size path)
    (\<lambda>data b'. file_at z input offset len block_size data \<and> length data = len
       \<and> len \<le> vl_max_file_bytes limits \<and> block_size \<le> vl_max_block_bytes limits
       \<and> b' = b\<lparr>vb_aggregate := vb_aggregate b + len, vb_blocks := vb_blocks b + div_ceil len block_size\<rparr>
       \<and> vfs_fits limits b') (\<lambda>_ _. True) b"
proof -
  have blocks: "file_at z input offset len block_size data \<and> length data = len"
    if read: "read_blocks z origin input offset len block_size path [0..<div_ceil len block_size]
        (offset + div_ceil len block_size * 4) [] = Inr data" for data
  proof -
    have nz: "0 < block_size" using assms(2) by simp
    obtain blocks where "data = [] @ concat blocks"
        "blocks_at z input (offset + 0 * 4) (offset + div_ceil len block_size * 4) block_size (len - length ([] :: u8 list)) blocks"
      using read_blocks_at [OF nz, where k = 0 and m = "div_ceil len block_size" and acc = "[]", unfolded add_0, OF read]
      by auto
    then have "file_at z input offset len block_size data"
      unfolding file_at_def by (intro exI [of _ blocks]) (simp add: mult.commute)
    moreover have "length data = len" using read_blocks_exact [OF nz read] by simp
    ultimately show ?thesis by blast
  qed
  show ?thesis
    unfolding vfs_parse_file_def Let_def rs_wp
    using assms blocks
    by (auto simp: rs_wp vfs_fits_def checked_n_defs bind_eq_Some_conv split: option.split sum.split intro!: wp_charge)
qed

lemma insort_insert_again: "x \<in> set xs \<Longrightarrow> insort_insert x xs = xs"
  by (simp add: insort_insert_key_def)

text \<open>What the table of a directory at a depth leaves.\<close>

definition table_post ::
    "'z Zlib \<Rightarrow> VfsLimits \<Rightarrow> u8 list \<Rightarrow> usize \<Rightarrow> string \<Rightarrow> nat \<Rightarrow> VfsBuilder \<times> VfsLayer \<Rightarrow> VfsBuilder \<times> VfsLayer \<Rightarrow> bool" where
  "table_post z limits input start path depth = (\<lambda>(b, l) (b', l'). depth \<le> vl_max_depth limits \<and> vfs_fits limits b' \<and>
     (\<exists>entries. table_at z input path start entries \<and> (\<forall>e \<in> set entries. entry_within limits depth e)
        \<and> b' = used entries (b\<lparr>vb_entries := vb_entries b + length entries\<rparr>)
        \<and> l' = fold put_entry entries (l\<lparr>ly_directories := insort_insert path (ly_directories l)\<rparr>)))"

definition entries_post ::
    "'z Zlib \<Rightarrow> VfsLimits \<Rightarrow> u8 list \<Rightarrow> usize \<Rightarrow> string \<Rightarrow> nat \<Rightarrow> nat \<Rightarrow> VfsBuilder \<times> VfsLayer \<Rightarrow> VfsBuilder \<times> VfsLayer \<Rightarrow> bool" where
  "entries_post z limits input pos parent depth n = (\<lambda>(b, l) (b', l'). vfs_fits limits b' \<and>
     (\<exists>entries. length entries = n \<and> entries_at z input parent pos entries
        \<and> (\<forall>e \<in> set entries. entry_within limits depth e)
        \<and> b' = used entries b \<and> l' = fold put_entry entries l))"

lemma wp_entry_at:
  assumes enter: "\<And>child path st. vfs_fits limits (fst st) \<Longrightarrow>
      rs_wp (enter child path) (\<lambda>_. table_post z limits input child path (Suc depth) st) (\<lambda>_ _. True) st"
    and vfs_fits: "vfs_fits limits b"
  shows "rs_wp (parse_entry z origin input parent enter pos)
    (\<lambda>_. entries_post z limits input pos parent depth 1 (b, l)) (\<lambda>_ _. True) (b, l)"
proof (cases "parse_name (slice input pos (pos + NAME_BYTES))")
  case (Inr name)
  let ?path = "vfs_join parent name"
  let ?post = "entries_post z limits input pos parent depth 1 (b, l)"
  have lim: "vb_limits b = limits" using vfs_fits by (simp add: vfs_fits_def)
  have named: "named input parent pos ?path" using Inr by (auto simp: named_def)
  have one: "?post (used [e] b, put_entry e l)"
    if "entry_at z input parent pos e" "entry_within limits depth e" "vfs_fits limits (used [e] b)" for e
    unfolding entries_post_def using that by (auto intro!: exI [of _ "[e]"])
  have empty: "?post (b, insert_file ?path [] l)"
    if "\<not> min (vl_max_path_bytes limits) SPEC_MAX_PATH_BYTES < length ?path"
      "entry_word input (pos + 36) = 0" "entry_word input (pos + 40) = 0" "entry_word input (pos + 44) = 0"
    using one [of "Vfs_File ?path 0 []"] that named vfs_fits by (simp add: used_def div_ceil_def not_less)
  have directory: "rs_wp (enter (entry_word input (pos + 36)) ?path) (\<lambda>_. ?post) (\<lambda>_ _. True) (b, insert_directory ?path l)"
    if "\<not> min (vl_max_path_bytes limits) SPEC_MAX_PATH_BYTES < length ?path"
      "pos < entry_word input (pos + 36)" "entry_word input (pos + 40) = 0" "entry_word input (pos + 44) = 0"
  proof (rule wp_mono [OF enter])
    show "vfs_fits limits (fst (b, insert_directory ?path l))" using vfs_fits by simp
    fix x st assume post: "table_post z limits input (entry_word input (pos + 36)) ?path (Suc depth) (b, insert_directory ?path l) st"
    then obtain entries where e: "table_at z input ?path (entry_word input (pos + 36)) entries"
        "\<forall>e \<in> set entries. entry_within limits (Suc depth) e" "depth < vl_max_depth limits" "vfs_fits limits (fst st)"
        "fst st = used entries (b\<lparr>vb_entries := vb_entries b + length entries\<rparr>)"
        "snd st = fold put_entry entries ((insert_directory ?path l)\<lparr>ly_directories :=
           insort_insert ?path (ly_directories (insert_directory ?path l))\<rparr>)"
      by (auto simp: table_post_def Suc_le_eq)
    have again: "(insert_directory ?path l)\<lparr>ly_directories := insort_insert ?path (ly_directories (insert_directory ?path l))\<rparr>
        = insert_directory ?path l"
      by (simp add: insert_directory_def insort_insert_again insort_insert_set)
    let ?e = "Vfs_Directory ?path entries"
    have st: "st = (used [?e] b, put_entry ?e l)"
      using e(5,6) unfolding again by (cases st) (simp add: used_def add.assoc)
    show "?post st"
      unfolding st
    proof (rule one)
      show "entry_at z input parent pos ?e" using e(1) that named by (simp add: table_at_def)
      show "entry_within limits depth ?e" using e(2,3) that(1) by (simp add: not_less)
      show "vfs_fits limits (used [?e] b)" using e(4) by (simp add: st)
    qed
  qed simp
  have parsed: "rs_wp (vfs_parse_file z origin input (entry_word input (pos + 36)) (entry_word input (pos + 40))
        (entry_word input (pos + 44)) ?path) (\<lambda>data b'. ?post (b', insert_file ?path data l)) (\<lambda>_ _. True) b"
    if "\<not> min (vl_max_path_bytes limits) SPEC_MAX_PATH_BYTES < length ?path"
      "pos < entry_word input (pos + 36)" "entry_word input (pos + 40) \<noteq> 0" "entry_word input (pos + 44) \<noteq> 0"
  proof (rule wp_mono [OF wp_file_at [OF vfs_fits that(4)]])
    fix data b'
    let ?e = "Vfs_File ?path (entry_word input (pos + 44)) data"
    assume h: "file_at z input (entry_word input (pos + 36)) (entry_word input (pos + 40)) (entry_word input (pos + 44)) data
       \<and> length data = entry_word input (pos + 40)
       \<and> entry_word input (pos + 40) \<le> vl_max_file_bytes limits \<and> entry_word input (pos + 44) \<le> vl_max_block_bytes limits
       \<and> b' = b\<lparr>vb_aggregate := vb_aggregate b + entry_word input (pos + 40),
           vb_blocks := vb_blocks b + div_ceil (entry_word input (pos + 40)) (entry_word input (pos + 44))\<rparr>
       \<and> vfs_fits limits b'"
    then have b': "b' = used [?e] b" and "data \<noteq> []" using that(3) by (auto simp: used_def)
    have "?post (used [?e] b, put_entry ?e l)"
    proof (rule one)
      show "entry_at z input parent pos ?e" using h that \<open>data \<noteq> []\<close> named by simp
      show "entry_within limits depth ?e" using h that(1) by (simp add: not_less)
      show "vfs_fits limits (used [?e] b)" using h unfolding b' [symmetric] by blast
    qed
    then show "?post (b', insert_file ?path data l)" by (simp add: b')
  qed simp
  show ?thesis
    unfolding parse_entry_def Let_def rs_wp Inr map_err_def sum.case entry_word_def [symmetric]
    by (simp only: lim rs_wp prod.case split: if_split) (use empty directory parsed in \<open>auto simp: not_le\<close>)
qed (simp add: parse_entry_def rs_wp map_err_def)

lemma wp_entries_at:
  assumes enter: "\<And>child path st. vfs_fits limits (fst st) \<Longrightarrow>
      rs_wp (enter child path) (\<lambda>_. table_post z limits input child path (Suc depth) st) (\<lambda>_ _. True) st"
  shows "vfs_fits limits b \<Longrightarrow> rs_wp (parse_entries z origin input parent enter (map (\<lambda>k. pos + k * ENTRY_BYTES) [0..<n]))
    (\<lambda>_. entries_post z limits input pos parent depth n (b, l)) (\<lambda>_ _. True) (b, l)"
proof (induction n arbitrary: pos b l)
  case 0
  then show ?case by (simp add: rs_wp entries_post_def)
next
  case (Suc n)
  have offsets: "map (\<lambda>k. pos + k * ENTRY_BYTES) [0..<Suc n]
      = pos # map (\<lambda>k. (pos + ENTRY_BYTES) + k * ENTRY_BYTES) [0..<n]"
    unfolding map_upt_Suc by (simp add: algebra_simps)
  have "rs_wp (parse_entry z origin input parent enter pos)
      (\<lambda>_. rs_wp (parse_entries z origin input parent enter (map (\<lambda>k. (pos + ENTRY_BYTES) + k * ENTRY_BYTES) [0..<n]))
        (\<lambda>_. entries_post z limits input pos parent depth (Suc n) (b, l)) (\<lambda>_ _. True)) (\<lambda>_ _. True) (b, l)"
  proof (rule wp_mono [OF wp_entry_at [OF enter Suc.prems]])
    fix x st assume "entries_post z limits input pos parent depth 1 (b, l) st"
    then obtain e where e: "entry_at z input parent pos e" "entry_within limits depth e"
        "st = (used [e] b, put_entry e l)" "vfs_fits limits (used [e] b)"
      by (cases st) (auto simp: entries_post_def length_Suc_conv)
    show "rs_wp (parse_entries z origin input parent enter (map (\<lambda>k. (pos + ENTRY_BYTES) + k * ENTRY_BYTES) [0..<n]))
        (\<lambda>_. entries_post z limits input pos parent depth (Suc n) (b, l)) (\<lambda>_ _. True) st"
      unfolding e(3)
    proof (rule wp_mono [OF Suc.IH [OF e(4)]])
      fix x st assume "entries_post z limits input (pos + ENTRY_BYTES) parent depth n (used [e] b, put_entry e l) st"
      then obtain es where "length es = n" "entries_at z input parent (pos + ENTRY_BYTES) es"
          "\<forall>e \<in> set es. entry_within limits depth e" "st = (used es (used [e] b), fold put_entry es (put_entry e l))"
          "vfs_fits limits (used es (used [e] b))"
        by (cases st) (auto simp: entries_post_def)
      then show "entries_post z limits input pos parent depth (Suc n) (b, l) st"
        unfolding entries_post_def using e(1,2) by (auto simp: used_Cons [symmetric] intro!: exI [of _ "e # es"])
    qed simp
  qed (simp_all add: enter)
  then show ?case unfolding offsets by (simp add: rs_wp)
qed

lemma wp_table_at:
  "vfs_fits limits (fst st) \<Longrightarrow> rs_wp (parse_directory z limits origin input start parent depth)
     (\<lambda>_. table_post z limits input start parent depth st) (\<lambda>_ _. True) st"
proof (induction "vl_max_depth limits + 1 - depth" arbitrary: st start parent depth rule: less_induct)
  case less
  obtain b l where st: "st = (b, l)" by force
  show ?case
  proof (cases "vl_max_depth limits < depth \<or> vfs_read_u32 input start = None")
    case True
    then show ?thesis by (subst parse_directory.simps) (auto simp: Let_def rs_wp)
  next
    case False
    then obtain count where depth: "\<not> vl_max_depth limits < depth" and count: "vfs_read_u32 input start = Some count" by auto
    define n where "n = unat count"
    let ?enter = "\<lambda>child path. parse_directory z limits origin input child path (Suc depth)"
    let ?b = "b\<lparr>vb_entries := vb_entries b + n\<rparr>"
    let ?l = "l\<lparr>ly_directories := insort_insert parent (ly_directories l)\<rparr>"
    have entries: "rs_wp (parse_entries z origin input parent ?enter (map (\<lambda>k. start + 4 + k * ENTRY_BYTES) [0..<n]))
        (\<lambda>_. table_post z limits input start parent depth (b, l)) (\<lambda>_ _. True) (?b, ?l)"
      if "vb_entries b + n \<le> vl_max_entries (vb_limits b)" "start + 4 + n * ENTRY_BYTES \<le> length input"
    proof (rule wp_mono [OF wp_entries_at])
      show "rs_wp (?enter child path) (\<lambda>_. table_post z limits input child path (Suc depth) st') (\<lambda>_ _. True) st'"
        if "vfs_fits limits (fst st')" for child path st'
        using less.hyps [of "Suc depth" st'] depth that by simp
      show "vfs_fits limits ?b" using less.prems that(1) by (simp add: vfs_fits_def st)
      fix x st' assume "entries_post z limits input (start + 4) parent depth n (?b, ?l) st'"
      then obtain es where "length es = n" "entries_at z input parent (start + 4) es"
          "\<forall>e \<in> set es. entry_within limits depth e" "st' = (used es ?b, fold put_entry es ?l)" "vfs_fits limits (used es ?b)"
        by (cases st') (auto simp: entries_post_def)
      then show "table_post z limits input start parent depth (b, l) st'"
        using depth count that(2)
        by (auto simp: table_post_def table_at_def n_def intro!: exI [of _ es])
    qed simp
    show ?thesis
      by (subst parse_directory.simps)
        (auto simp: depth count Let_def rs_wp st charge_entries_def checked_n_defs bind_eq_Some_conv
          simp flip: n_def intro!: wp_charge entries split: option.split)
  qed
qed

section \<open>Overlays\<close>

lemma outside_join:
  assumes "outside k parent" "k \<noteq> vfs_join parent name" "valid_name name"
  shows "outside k (vfs_join parent name)"
proof -
  have no_slash: "CHR ''/'' \<notin> set name"
  proof
    assume "CHR ''/'' \<in> set name"
    then have "byte_of_char (CHR ''/'') \<in> set (bytes_of_str name)" by (simp add: bytes_of_str_def)
    moreover have "byte_of_char (CHR ''/'') = 0x2F" by code_simp
    ultimately show False using assms(3) by (auto simp: valid_name_def)
  qed
  have "\<not> starts_with (k @ ''/'') (vfs_join parent name)"
  proof
    assume s: "starts_with (k @ ''/'') (vfs_join parent name)"
    then obtain rest where rest: "vfs_join parent name = k @ CHR ''/'' # rest"
      unfolding starts_with_def by (metis append_Cons append_Nil append_assoc append_take_drop_id)
    show False
    proof (cases "parent = []")
      case True
      then have "CHR ''/'' \<in> set name" using rest by (simp add: vfs_join_def)
      then show False using no_slash by simp
    next
      case False
      then have eq: "parent @ CHR ''/'' # name = k @ CHR ''/'' # rest" using rest by (simp add: vfs_join_def)
      then consider us where "parent = k @ us" "us @ CHR ''/'' # name = CHR ''/'' # rest"
        | us where "k = parent @ us" "CHR ''/'' # name = us @ CHR ''/'' # rest"
        by (auto simp: append_eq_append_conv2)
      then show False
      proof cases
        case 1
        then show False
          using assms(1) by (cases us) (auto simp: outside_def starts_with_def)
      next
        case 2
        then show False
          using assms(1) no_slash by (cases us) (auto simp: outside_def)
      qed
    qed
  qed
  then show ?thesis using assms(2) by (auto simp: outside_def)
qed

text \<open>In a tree nothing lies below a file.\<close>

lemma tree_outside:
  assumes ok: "tree_ok files directories" and k: "k \<in> fst ` set files"
  shows "p \<in> fst ` set files \<union> directories \<Longrightarrow> p \<noteq> k \<Longrightarrow> outside k p"
proof (induction p rule: length_induct)
  case (1 p)
  have kn: "k \<noteq> []" using ok k child_nonempty [of _ "[]"] unfolding tree_ok_def by blast
  show ?case
  proof (cases "p = []")
    case True
    then show ?thesis using kn by (simp add: outside_def starts_with_def)
  next
    case False
    then have "child_of directories p" using ok "1.prems"(1) by (auto simp: tree_ok_def)
    then obtain parent name where c: "p = vfs_join parent name" "valid_name name" "parent \<in> directories"
      by (auto simp: child_of_def)
    have "parent \<noteq> k" using c(3) ok k by (auto simp: tree_ok_def)
    then have "outside k parent" using "1.IH" c join_longer [OF c(2), of parent] by simp
    then show ?thesis using outside_join [OF _ _ c(2)] c(1) "1.prems"(2) by metis
  qed
qed

lemma apply_directories:
  "fold (\<lambda>directory self. if directory = [] then self
       else self\<lparr>vb_files := file_remove directory (vb_files self),
                 vb_directories := insort_insert directory (vb_directories self)\<rparr>) ds b
   = b\<lparr>vb_files := filter (\<lambda>(key, _). key = [] \<or> key \<notin> set ds) (vb_files b),
       vb_directories := fold (\<lambda>d. if d = [] then id else insort_insert d) ds (vb_directories b)\<rparr>"
proof (induction ds arbitrary: b)
  case (Cons d ds)
  have "filter (\<lambda>(key, _). key = [] \<or> key \<notin> set ds) (file_remove d files)
      = filter (\<lambda>(key, _). key = [] \<or> key \<notin> set (d # ds)) files" if "d \<noteq> []" for files
    using that unfolding file_remove_def filter_filter by (intro filter_cong refl) auto
  moreover have "filter (\<lambda>(key, _). key = [] \<or> key \<notin> set ds) files
      = filter (\<lambda>(key, _). key = [] \<or> key \<notin> set (d # ds)) files" if "d = []" for files :: file_map
    using that by (intro filter_cong refl) auto
  ultimately show ?case using Cons.IH by simp
qed (simp add: case_prod_beta)

lemma set_insert_all:
  "set (fold (\<lambda>d. if d = [] then id else insort_insert d) ds D) = set D \<union> (set ds - {[]})"
  by (induction ds arbitrary: D) (auto simp: insort_insert_set)

definition apply_file :: "string \<times> u8 list \<Rightarrow> VfsBuilder \<Rightarrow> VfsBuilder" where
  "apply_file = (\<lambda>(path, data) self.
     let (files, directories) = remove_subtree path (vb_files self, vb_directories self) in
     self\<lparr>vb_files := file_insert path data files, vb_directories := directories\<rparr>)"

text \<open>
  The meaning of an overlay: the new layer's files win; an old file is hidden by a directory or
  a file of the new layer at its path, or by a file above it.
\<close>

definition overlay_file :: "VfsLayer \<Rightarrow> (string \<Rightarrow> u8 list option) \<Rightarrow> string \<Rightarrow> u8 list option" where
  "overlay_file layer old path =
     (case map_of (ly_files layer) path of
        Some data \<Rightarrow> Some data
      | None \<Rightarrow>
          if path \<in> set (ly_directories layer) \<or> (\<exists>k \<in> fst ` set (ly_files layer). \<not> outside k path)
          then None else old path)"

definition overlay_directories :: "VfsLayer \<Rightarrow> string set \<Rightarrow> string set" where
  "overlay_directories layer old =
     set (ly_directories layer) \<union> {d \<in> old. \<forall>k \<in> fst ` set (ly_files layer). outside k d}"

lemma apply_files:
  assumes "tree_ok (vb_files b) (set (vb_directories b))"
    and "distinct (map fst fs)"
    and "\<forall>k \<in> fst ` set fs. \<forall>k' \<in> fst ` set fs. k \<noteq> k' \<longrightarrow> outside k k'"
    and "\<forall>k \<in> fst ` set fs. child_of {d \<in> set (vb_directories b). \<forall>k \<in> fst ` set fs. outside k d} k"
  shows "tree_ok (vb_files (fold apply_file fs b)) (set (vb_directories (fold apply_file fs b)))
    \<and> set (vb_directories (fold apply_file fs b)) = {d \<in> set (vb_directories b). \<forall>k \<in> fst ` set fs. outside k d}
    \<and> (\<forall>p. map_of (vb_files (fold apply_file fs b)) p = (case map_of fs p of Some data \<Rightarrow> Some data
         | None \<Rightarrow> if \<exists>k \<in> fst ` set fs. \<not> outside k p then None else map_of (vb_files b) p))
    \<and> file_bytes (vb_files (fold apply_file fs b)) \<le> file_bytes (vb_files b) + file_bytes fs
    \<and> length (vb_files (fold apply_file fs b)) \<le> length (vb_files b) + length fs
    \<and> set (vb_files (fold apply_file fs b)) \<subseteq> set (vb_files b) \<union> set fs
    \<and> (\<exists>files directories. fold apply_file fs b = b\<lparr>vb_files := files, vb_directories := directories\<rparr>)"
  using assms
proof (induction fs arbitrary: b)
  case Nil
  have "b = b\<lparr>vb_files := vb_files b, vb_directories := vb_directories b\<rparr>" by simp
  then have "\<exists>files directories. b = b\<lparr>vb_files := files, vb_directories := directories\<rparr>" by metis
  then show ?case using Nil by simp
next
  case (Cons f fs)
  obtain path data where f: "f = (path, data)" by force
  obtain files directories where sub: "remove_subtree path (vb_files b, vb_directories b) = (files, directories)" by force
  define b2 where "b2 = b\<lparr>vb_files := file_insert path data files, vb_directories := directories\<rparr>"
  have b2: "vb_files b2 = file_insert path data files" "vb_directories b2 = directories" by (simp_all add: b2_def)
  have step: "fold apply_file (f # fs) b = fold apply_file fs b2" by (simp add: apply_file_def f sub b2_def)
  have "child_of {d \<in> set (vb_directories b). \<forall>k \<in> fst ` set (f # fs). outside k d} path"
    using Cons.prems(4) by (simp add: f)
  then have child: "child_of (set (vb_directories b)) path" by (rule child_mono) auto
  note tree = tree_put_file [OF Cons.prems(1) child sub, of data]
    and s = subtree_ok [OF Cons.prems(1) child_nonempty [OF child] sub]
  have kids: "\<forall>k \<in> fst ` set fs. child_of {d \<in> set (vb_directories b2). \<forall>k \<in> fst ` set fs. outside k d} k"
  proof
    fix k assume "k \<in> fst ` set fs"
    then have "child_of {d \<in> set (vb_directories b). \<forall>k \<in> fst ` set (f # fs). outside k d} k"
      using Cons.prems(4) by auto
    then show "child_of {d \<in> set (vb_directories b2). \<forall>k \<in> fst ` set fs. outside k d} k"
      by (rule child_mono) (auto simp: s(4) f b2)
  qed
  have tree2: "tree_ok (vb_files b2) (set (vb_directories b2))" using tree by (simp add: b2)
  have dist2: "distinct (map fst fs)" and path_new: "path \<notin> fst ` set fs" using Cons.prems(2) by (simp_all add: f)
  have apart2: "\<forall>k \<in> fst ` set fs. \<forall>k' \<in> fst ` set fs. k \<noteq> k' \<longrightarrow> outside k k'"
    using Cons.prems(3) by simp
  note ih = Cons.IH [OF tree2 dist2 apart2 kids]
  let ?e = "fold apply_file fs b2"
  have ih1: "tree_ok (vb_files ?e) (set (vb_directories ?e))"
    and ih2: "set (vb_directories ?e) = {d \<in> set directories. \<forall>k \<in> fst ` set fs. outside k d}"
    and ih3: "\<And>p. map_of (vb_files ?e) p = (case map_of fs p of Some data \<Rightarrow> Some data
         | None \<Rightarrow> if \<exists>k \<in> fst ` set fs. \<not> outside k p then None else map_of (file_insert path data files) p)"
    and ih4: "file_bytes (vb_files ?e) \<le> file_bytes (file_insert path data files) + file_bytes fs"
    and ih5: "length (vb_files ?e) \<le> length (file_insert path data files) + length fs"
    and ih6: "set (vb_files ?e) \<subseteq> set (file_insert path data files) \<union> set fs"
    and ih7: "\<exists>files directories. ?e = b2\<lparr>vb_files := files, vb_directories := directories\<rparr>"
    using ih unfolding b2 by - (elim conjE, (assumption | erule spec))+
  have shape: "\<exists>files directories. ?e = b\<lparr>vb_files := files, vb_directories := directories\<rparr>"
    using ih7 by (auto simp: b2_def)
  have dirs: "set (vb_directories ?e) = {d \<in> set (vb_directories b). \<forall>k \<in> fst ` set (f # fs). outside k d}"
    unfolding ih2 s(4) by (auto simp: f)
  have none: "map_of fs path = None" using path_new by (simp add: map_of_eq_None_iff)
  have apart: "outside k path" if "k \<in> fst ` set fs" for k
    using Cons.prems(3) that path_new by (auto simp: f)
  have lookup: "map_of (vb_files ?e) p = (case map_of (f # fs) p of Some data \<Rightarrow> Some data
         | None \<Rightarrow> if \<exists>k \<in> fst ` set (f # fs). \<not> outside k p then None else map_of (vb_files b) p)" for p
  proof (cases "p = path")
    case True
    then show ?thesis unfolding ih3 map_of_file_insert using apart none by (auto simp: f)
  next
    case False
    then show ?thesis unfolding ih3 map_of_file_insert s(5) by (auto simp: f split: option.split)
  qed
  have "set (file_insert path data files) \<subseteq> insert (path, data) (set files)" for files
    by (induction path data files rule: file_insert.induct) auto
  then have sets: "set (vb_files ?e) \<subseteq> set (vb_files b) \<union> set (f # fs)"
    using ih6 remove_subtree_smaller [OF sub] f by fastforce
  have bounds: "file_bytes (vb_files ?e) \<le> file_bytes (vb_files b) + file_bytes (f # fs)"
    "length (vb_files ?e) \<le> length (vb_files b) + length (f # fs)"
    using ih4 ih5 remove_subtree_smaller [OF sub] file_bytes_insert [of path data files]
      length_file_insert [of path data files] by (simp_all add: f)
  show ?case
    unfolding step using ih1 dirs lookup bounds sets shape by blast
qed

lemma Builder_apply_overlay:
  assumes b: "tree_ok (vb_files b) (set (vb_directories b))" "[] \<in> set (vb_directories b)"
    and l: "tree_ok (ly_files l) (set (ly_directories l))"
  shows "tree_ok (vb_files (Builder_apply l b)) (set (vb_directories (Builder_apply l b)))"
    and "[] \<in> set (vb_directories (Builder_apply l b))"
    and "map_of (vb_files (Builder_apply l b)) = overlay_file l (map_of (vb_files b))"
    and "set (vb_directories (Builder_apply l b)) = overlay_directories l (set (vb_directories b))"
    and "file_bytes (vb_files (Builder_apply l b)) \<le> file_bytes (vb_files b) + file_bytes (ly_files l)"
    and "length (vb_files (Builder_apply l b)) \<le> length (vb_files b) + length (ly_files l)"
    and "set (vb_files (Builder_apply l b)) \<subseteq> set (vb_files b) \<union> set (ly_files l)"
    and "\<exists>files directories. Builder_apply l b = b\<lparr>vb_files := files, vb_directories := directories\<rparr>"
proof -
  let ?K = "fst ` set (ly_files l)" and ?D = "set (ly_directories l)"
  let ?files = "filter (\<lambda>(key, _). key = [] \<or> key \<notin> ?D) (vb_files b)"
  define b2 where "b2 = b\<lparr>vb_files := ?files,
    vb_directories := fold (\<lambda>d. if d = [] then id else insort_insert d) (ly_directories l) (vb_directories b)\<rparr>"
  have vfiles: "vb_files b2 = ?files" by (simp add: b2_def)
  have app: "Builder_apply l b = fold apply_file (ly_files l) b2"
    unfolding Builder_apply_def Let_def apply_directories apply_file_def b2_def by simp
  have dirs: "set (vb_directories b2) = set (vb_directories b) \<union> ?D"
    using b(2) by (auto simp: set_insert_all b2_def)
  have files_no_root: "[] \<notin> fst ` set (vb_files b)" "[] \<notin> ?K"
    using tree_no_root b(1) l by blast+
  have keys: "fst ` set ?files = fst ` set (vb_files b) - ?D" using files_no_root by force
  have up: "child_of (set (vb_directories b) \<union> ?D) p"
    if "child_of (set (vb_directories b)) p \<or> child_of ?D p" for p
    using that child_mono by blast
  have tree: "tree_ok (vb_files b2) (set (vb_directories b2))"
    unfolding dirs vfiles using b(1) l up by (auto simp: tree_ok_def keys distinct_map_filter simp del: set_filter)
  have below: "outside k p" if "k \<in> ?K" "p \<in> ?K \<union> ?D" "p \<noteq> k" for k p
    using tree_outside [OF l that] .
  have kids: "\<forall>k \<in> ?K. child_of {d \<in> set (vb_directories b2). \<forall>k \<in> ?K. outside k d} k"
  proof
    fix k assume "k \<in> ?K"
    then have "child_of ?D k" using l by (auto simp: tree_ok_def)
    moreover have "?D \<subseteq> {d \<in> set (vb_directories b2). \<forall>k \<in> ?K. outside k d}"
      unfolding dirs using below l by (auto simp: tree_ok_def)
    ultimately show "child_of {d \<in> set (vb_directories b2). \<forall>k \<in> ?K. outside k d} k" by (rule child_mono)
  qed
  have distinct: "distinct (map fst (ly_files l))" using l by (simp add: tree_ok_def)
  have apart: "\<forall>k \<in> ?K. \<forall>k' \<in> ?K. k \<noteq> k' \<longrightarrow> outside k k'"
    by (intro ballI impI below) auto
  note a = apply_files [OF tree distinct apart kids, folded app]
  have a1: "tree_ok (vb_files (Builder_apply l b)) (set (vb_directories (Builder_apply l b)))"
    "set (vb_directories (Builder_apply l b)) = {d \<in> set (vb_directories b2). \<forall>k \<in> ?K. outside k d}"
    "\<And>p. map_of (vb_files (Builder_apply l b)) p = (case map_of (ly_files l) p of Some data \<Rightarrow> Some data
         | None \<Rightarrow> if \<exists>k \<in> ?K. \<not> outside k p then None else map_of ?files p)"
    "file_bytes (vb_files (Builder_apply l b)) \<le> file_bytes ?files + file_bytes (ly_files l)"
    "length (vb_files (Builder_apply l b)) \<le> length ?files + length (ly_files l)"
    "set (vb_files (Builder_apply l b)) \<subseteq> set ?files \<union> set (ly_files l)"
    "\<exists>files directories. Builder_apply l b = b2\<lparr>vb_files := files, vb_directories := directories\<rparr>"
    using a unfolding vfiles by - (elim conjE, (assumption | erule spec))+
  show "tree_ok (vb_files (Builder_apply l b)) (set (vb_directories (Builder_apply l b)))" by (rule a1(1))
  show "set (vb_directories (Builder_apply l b)) = overlay_directories l (set (vb_directories b))"
    unfolding a1(2) dirs overlay_directories_def using below l by (auto simp: tree_ok_def)
  then show "[] \<in> set (vb_directories (Builder_apply l b))"
    using b(2) files_no_root(2) by (auto simp: overlay_directories_def outside_def starts_with_def)
  have "map_of ?files p = (if p \<noteq> [] \<and> p \<in> ?D then None else map_of (vb_files b) p)" for p
    by (simp add: map_of_filter_key)
  moreover have "map_of (vb_files b) [] = None" using files_no_root by (simp add: map_of_eq_None_iff)
  ultimately show "map_of (vb_files (Builder_apply l b)) = overlay_file l (map_of (vb_files b))"
    by (auto simp: fun_eq_iff a1(3) overlay_file_def split: option.split)
  show "file_bytes (vb_files (Builder_apply l b)) \<le> file_bytes (vb_files b) + file_bytes (ly_files l)"
    using a1(4) file_bytes_filter order_trans add_le_mono1 by blast
  show "length (vb_files (Builder_apply l b)) \<le> length (vb_files b) + length (ly_files l)"
    using a1(5) length_filter_le order_trans add_le_mono1 by blast
  show "set (vb_files (Builder_apply l b)) \<subseteq> set (vb_files b) \<union> set (ly_files l)" using a1(6) by auto
  show "\<exists>files directories. Builder_apply l b = b\<lparr>vb_files := files, vb_directories := directories\<rparr>" using a1(7) by (auto simp: b2_def)
qed

definition builder_ok :: "VfsLimits \<Rightarrow> VfsBuilder \<Rightarrow> bool" where
  "builder_ok limits b \<longleftrightarrow> vb_limits b = limits
     \<and> tree_ok (vb_files b) (set (vb_directories b)) \<and> [] \<in> set (vb_directories b)
     \<and> length (vb_files b) \<le> vb_entries b \<and> vb_entries b \<le> vl_max_entries limits
     \<and> file_bytes (vb_files b) \<le> vb_aggregate b \<and> vb_aggregate b \<le> vl_max_aggregate_bytes limits
     \<and> (\<forall>(p, d) \<in> set (vb_files b). length d \<le> vl_max_file_bytes limits)
     \<and> (\<forall>p \<in> fst ` set (vb_files b) \<union> set (vb_directories b). length p \<le> vl_max_path_bytes limits)
     \<and> vfs_fits limits b"

text \<open>A layer of a plan and the tree its reserved section describes.\<close>

definition layer_table :: "'z Zlib \<Rightarrow> VfsLimits \<Rightarrow> PlanLayer \<Rightarrow> vfs_entry list \<Rightarrow> bool" where
  "layer_table z limits layer entries \<longleftrightarrow>
     psf_version (layer_container layer) = PsfVersion_Psf2
     \<and> table_at z (psf_reserved (layer_container layer)) [] 0 entries
     \<and> (\<forall>entry \<in> set entries. entry_within limits 0 entry)
     \<and> tree_ok (ly_files (table_layer entries)) (set (ly_directories (table_layer entries)))"

lemma overlay_paths:
  assumes "map_of files' = overlay_file l (map_of files)" and "D' = overlay_directories l D"
  shows "fst ` set files' \<union> D' \<subseteq> fst ` set files \<union> D \<union> fst ` set (ly_files l) \<union> set (ly_directories l)"
proof -
  have "p \<in> fst ` set files \<union> fst ` set (ly_files l)" if "p \<in> fst ` set files'" for p
  proof -
    have "overlay_file l (map_of files) p \<noteq> None"
      using that unfolding assms(1) [symmetric] by (simp add: map_of_eq_None_iff)
    then have "map_of (ly_files l) p \<noteq> None \<or> map_of files p \<noteq> None"
      by (auto simp: overlay_file_def split: option.splits if_splits)
    then show ?thesis unfolding map_of_eq_None_iff by blast
  qed
  then show ?thesis by (auto simp: assms(2) overlay_directories_def)
qed

text \<open>One layer: its tree is found, charged and laid over the builder's.\<close>

lemma apply_layer_overlay:
  assumes b: "builder_ok limits b" and version: "psf_version (layer_container layer) = PsfVersion_Psf2"
    and parse: "parse_directory z limits (layer_origin layer) (psf_reserved (layer_container layer)) 0 [] 0
        (b, VfsLayer_default) = (Inr (), b1, parsed)"
  obtains entries where "layer_table z limits layer entries" "parsed = table_layer entries"
    "builder_ok limits (Builder_apply parsed b1)"
    "map_of (vb_files (Builder_apply parsed b1)) = overlay_file parsed (map_of (vb_files b))"
    "set (vb_directories (Builder_apply parsed b1)) = overlay_directories parsed (set (vb_directories b))"
    "vb_entries (Builder_apply parsed b1) = vb_entries b + table_entries entries"
    "vb_blocks (Builder_apply parsed b1) = vb_blocks b + sum_list (map blocks_used entries)"
    "vb_aggregate (Builder_apply parsed b1) = vb_aggregate b + sum_list (map bytes_used entries)"
proof -
  let ?b = "Builder_apply parsed b1"
  have "parse_inv limits b 0 (b, VfsLayer_default)"
    using b by (auto simp: parse_inv_def builder_ok_def VfsLayer_default_def tree_ok_def)
  from wp_parse_directory [OF this disjI1 [OF refl], where z = z and origin = "layer_origin layer" and depth = 0
      and input = "psf_reserved (layer_container layer)" and offset = 0]
  have inv: "parse_inv limits b 0 (b1, parsed)" by (simp add: rs_wp_def parse)
  have "vfs_fits limits (fst (b, VfsLayer_default))" using b by (simp add: builder_ok_def)
  from wp_table_at [OF this, where z = z and origin = "layer_origin layer" and depth = 0
      and input = "psf_reserved (layer_container layer)" and start = 0 and parent = "[]"]
  have "table_post z limits (psf_reserved (layer_container layer)) 0 [] 0 (b, VfsLayer_default) (b1, parsed)"
    by (simp add: rs_wp_def parse)
  then obtain entries where e: "table_at z (psf_reserved (layer_container layer)) [] 0 entries"
      "\<forall>e \<in> set entries. entry_within limits 0 e" "b1 = used entries (b\<lparr>vb_entries := vb_entries b + length entries\<rparr>)"
      "parsed = table_layer entries" and vfs_fits: "vfs_fits limits b1"
    by (auto simp: table_post_def table_layer_def VfsLayer_default_def insort_insert_key_def)
  have trees: "tree_ok (vb_files b1) (set (vb_directories b1))" "[] \<in> set (vb_directories b1)"
      "tree_ok (ly_files parsed) (set (ly_directories parsed))"
    and same: "vb_files b1 = vb_files b" "vb_directories b1 = vb_directories b"
    using b inv by (auto simp: parse_inv_def builder_ok_def)
  note a = Builder_apply_overlay [OF trees]
  obtain files directories where shape: "?b = b1\<lparr>vb_files := files, vb_directories := directories\<rparr>"
    using a(8) by blast
  have old: "\<forall>p \<in> fst ` set (vb_files b) \<union> set (vb_directories b). length p \<le> vl_max_path_bytes limits"
    using b by (simp add: builder_ok_def)
  have new: "\<forall>p \<in> fst ` set (ly_files parsed) \<union> set (ly_directories parsed). length p \<le> vl_max_path_bytes limits"
    using inv by (simp add: parse_inv_def)
  have "builder_ok limits ?b"
    unfolding builder_ok_def
  proof (intro conjI)
    show "length (vb_files ?b) \<le> vb_entries ?b" using a(6) inv by (auto simp: parse_inv_def shape)
    show "file_bytes (vb_files ?b) \<le> vb_aggregate ?b" using a(5) inv by (auto simp: parse_inv_def shape)
    show "\<forall>(p, d) \<in> set (vb_files ?b). length d \<le> vl_max_file_bytes limits"
      using a(7) inv b unfolding parse_inv_def builder_ok_def by fastforce
    show "\<forall>p \<in> fst ` set (vb_files ?b) \<union> set (vb_directories ?b). length p \<le> vl_max_path_bytes limits"
    proof
      fix p assume p: "p \<in> fst ` set (vb_files ?b) \<union> set (vb_directories ?b)"
      have "p \<in> fst ` set (vb_files b) \<union> set (vb_directories b) \<or> p \<in> fst ` set (ly_files parsed) \<union> set (ly_directories parsed)"
        using subsetD [OF overlay_paths [OF a(3,4)] p] unfolding same by blast
      then show "length p \<le> vl_max_path_bytes limits" using old new by blast
    qed
    show "vfs_fits limits ?b" using vfs_fits by (simp add: vfs_fits_def shape)
  qed (use a(1,2) inv shape in \<open>auto simp: parse_inv_def\<close>)
  moreover have "layer_table z limits layer entries"
    using version e(1,2,4) trees(3) by (simp add: layer_table_def)
  moreover have "vb_entries ?b = vb_entries b + table_entries entries"
    "vb_blocks ?b = vb_blocks b + sum_list (map blocks_used entries)"
    "vb_aggregate ?b = vb_aggregate b + sum_list (map bytes_used entries)"
    unfolding shape by (simp_all add: e(3) used_def table_entries_def)
  ultimately show thesis using a(3,4) e(4) unfolding same by (intro that)
qed

lemma apply_layers_overlay:
  "builder_ok limits b \<Longrightarrow> apply_layers z limits layers b = (Inr (), b') \<Longrightarrow>
     builder_ok limits b' \<and> (\<exists>tables. list_all2 (layer_table z limits) layers tables
       \<and> map_of (vb_files b') = fold overlay_file (map table_layer tables) (map_of (vb_files b))
       \<and> set (vb_directories b') = fold overlay_directories (map table_layer tables) (set (vb_directories b))
       \<and> vb_entries b' = vb_entries b + sum_list (map table_entries tables)
       \<and> vb_blocks b' = vb_blocks b + sum_list (map blocks_used (concat tables))
       \<and> vb_aggregate b' = vb_aggregate b + sum_list (map bytes_used (concat tables)))"
proof (induction layers arbitrary: b)
  case Nil
  then show ?case by (simp add: rs_return_def)
next
  case (Cons layer layers)
  obtain b1 parsed where version: "psf_version (layer_container layer) = PsfVersion_Psf2"
    and parse: "parse_directory z limits (layer_origin layer) (psf_reserved (layer_container layer)) 0 [] 0
        (b, VfsLayer_default) = (Inr (), b1, parsed)"
    and rest: "apply_layers z limits layers (Builder_apply parsed b1) = (Inr (), b')"
    using Cons.prems(2) by (auto split: if_splits prod.splits sum.splits)
  obtain entries where e: "layer_table z limits layer entries" "parsed = table_layer entries"
    "builder_ok limits (Builder_apply parsed b1)"
    "map_of (vb_files (Builder_apply parsed b1)) = overlay_file parsed (map_of (vb_files b))"
    "set (vb_directories (Builder_apply parsed b1)) = overlay_directories parsed (set (vb_directories b))"
    "vb_entries (Builder_apply parsed b1) = vb_entries b + table_entries entries"
    "vb_blocks (Builder_apply parsed b1) = vb_blocks b + sum_list (map blocks_used entries)"
    "vb_aggregate (Builder_apply parsed b1) = vb_aggregate b + sum_list (map bytes_used entries)"
    by (rule apply_layer_overlay [OF Cons.prems(1) version parse])
  from Cons.IH [OF e(3) rest] obtain tables where t: "builder_ok limits b'" "list_all2 (layer_table z limits) layers tables"
      "map_of (vb_files b') = fold overlay_file (map table_layer tables) (overlay_file parsed (map_of (vb_files b)))"
      "set (vb_directories b') = fold overlay_directories (map table_layer tables) (overlay_directories parsed (set (vb_directories b)))"
      "vb_entries b' = vb_entries b + table_entries entries + sum_list (map table_entries tables)"
      "vb_blocks b' = vb_blocks b + sum_list (map blocks_used entries) + sum_list (map blocks_used (concat tables))"
      "vb_aggregate b' = vb_aggregate b + sum_list (map bytes_used entries) + sum_list (map bytes_used (concat tables))"
    unfolding e(4-8) by blast
  show ?case using t e(1,2) by (intro conjI exI [of _ "entries # tables"]) simp_all
qed

lemma builder_new_ok: "builder_ok limits (Builder_new limits)"
  by (simp add: builder_ok_def Builder_new_def tree_ok_def vfs_fits_def)

section \<open>Properties\<close>

definition vfs_ok :: "VfsLimits \<Rightarrow> Psf2Vfs \<Rightarrow> bool" where
  "vfs_ok limits vfs \<longleftrightarrow>
     tree_ok (vfs_files vfs) (set (vfs_directories vfs)) \<and> [] \<in> set (vfs_directories vfs)
     \<and> Psf2Vfs_len vfs \<le> vl_max_entries limits \<and> file_bytes (vfs_files vfs) \<le> vl_max_aggregate_bytes limits
     \<and> (\<forall>(p, d) \<in> set (vfs_files vfs). length d \<le> vl_max_file_bytes limits)
     \<and> (\<forall>p \<in> fst ` set (vfs_files vfs) \<union> set (vfs_directories vfs). length p \<le> vl_max_path_bytes limits)"

text \<open>The use of all the layers together is within the bounds.\<close>

definition tables_fit :: "VfsLimits \<Rightarrow> vfs_entry list list \<Rightarrow> bool" where
  "tables_fit limits tables \<longleftrightarrow>
     sum_list (map table_entries tables) \<le> vl_max_entries limits
     \<and> sum_list (map blocks_used (concat tables)) \<le> vl_max_blocks limits
     \<and> sum_list (map bytes_used (concat tables)) \<le> vl_max_aggregate_bytes limits"

lemma plan_ok:
  assumes "Psf2Vfs_from_load_plan z plan limits = Inr vfs"
  shows "vfs_ok limits vfs"
    and "\<exists>tables. list_all2 (layer_table z limits) (p2_layers plan) tables \<and> tables_fit limits tables
      \<and> map_of (vfs_files vfs) = fold overlay_file (map table_layer tables) (\<lambda>_. None)
      \<and> set (vfs_directories vfs) = fold overlay_directories (map table_layer tables) {[]}"
proof -
  obtain b where b: "apply_layers z limits (p2_layers plan) (Builder_new limits) = (Inr (), b)"
    and vfs: "vfs = \<lparr>vfs_files = vb_files b, vfs_directories = vb_directories b\<rparr>"
    using assms by (auto simp: Psf2Vfs_from_load_plan_def split: prod.splits sum.splits)
  note a = apply_layers_overlay [OF builder_new_ok b]
  show "vfs_ok limits vfs" using a by (auto simp: vfs_ok_def builder_ok_def vfs Psf2Vfs_len_def)
  obtain tables where t: "list_all2 (layer_table z limits) (p2_layers plan) tables"
      "map_of (vb_files b) = fold overlay_file (map table_layer tables) (\<lambda>_. None)"
      "set (vb_directories b) = fold overlay_directories (map table_layer tables) {[]}"
      "vb_entries b = sum_list (map table_entries tables)"
      "vb_blocks b = sum_list (map blocks_used (concat tables))"
      "vb_aggregate b = sum_list (map bytes_used (concat tables))"
    using a by (auto simp: Builder_new_def)
  have "vfs_fits limits b" using a by (simp add: builder_ok_def)
  then have "tables_fit limits tables" unfolding vfs_fits_def tables_fit_def t(4-6) by blast
  then show "\<exists>tables. list_all2 (layer_table z limits) (p2_layers plan) tables \<and> tables_fit limits tables
      \<and> map_of (vfs_files vfs) = fold overlay_file (map table_layer tables) (\<lambda>_. None)
      \<and> set (vfs_directories vfs) = fold overlay_directories (map table_layer tables) {[]}"
    using t(1-3) by (auto simp: vfs)
qed


text \<open>
  A layer with an empty file \<open>A\<close>, and one with a directory \<open>a\<close> that holds an empty file \<open>b\<close>.
\<close>

definition example_layer :: "u8 list \<Rightarrow> PlanLayer" where
  "example_layer reserved =
     \<lparr>layer_origin = ''o'', layer_container =
        \<lparr>psf_version = PsfVersion_Psf2, psf_reserved = reserved, psf_compressed_program = [], psf_program = [],
         psf_tags = [], psf_reserved_range = \<lparr>br_start = 16, br_end = 16\<rparr>,
         psf_compressed_range = \<lparr>br_start = 16, br_end = 16\<rparr>, psf_tag_range = None\<rparr>\<rparr>"

definition file_table :: "u8 list" where
  "file_table = [
   1, 0, 0, 0, 65, 0, 0, 0, 0, 0, 0, 0, 0, 0, 0, 0, 0, 0, 0, 0, 0, 0, 0, 0, 0, 0, 0, 0, 0, 0, 0,
   0, 0, 0, 0, 0, 0, 0, 0, 0, 0, 0, 0, 0, 0, 0, 0, 0, 0, 0, 0, 0]"

definition directory_table :: "u8 list" where
  "directory_table = [
   1, 0, 0, 0, 97, 0, 0, 0, 0, 0, 0, 0, 0, 0, 0, 0, 0, 0, 0, 0, 0, 0, 0, 0, 0, 0, 0, 0, 0, 0, 0,
   0, 0, 0, 0, 0, 0, 0, 0, 0, 52, 0, 0, 0, 0, 0, 0, 0, 0, 0, 0, 0, 1, 0, 0, 0, 98, 0, 0, 0, 0, 0,
   0, 0, 0, 0, 0, 0, 0, 0, 0, 0, 0, 0, 0, 0, 0, 0, 0, 0, 0, 0, 0, 0, 0, 0, 0, 0, 0, 0, 0, 0, 0,
   0, 0, 0, 0, 0, 0, 0, 0, 0, 0, 0]"

definition example_layers :: "PlanLayer list" where
  "example_layers = [example_layer file_table, example_layer directory_table]"

text \<open>Evaluation of a table of one entry.\<close>

lemma parse_directory_one:
  assumes "depth \<le> vl_max_depth limits" "vfs_read_u32 input offset = Some 1" "vb_limits b = limits"
    and "vb_entries b + 1 \<le> vl_max_entries limits" "vl_max_entries limits < 2 ^ 64"
    and "offset + 52 \<le> length input" "length input < 2 ^ 64"
  shows "parse_directory z limits origin input offset parent depth (b, l) =
    rs_then (parse_entry z origin input parent
        (\<lambda>child path. parse_directory z limits origin input child path (depth + 1)) (offset + 4)) (rs_return ())
      (b\<lparr>vb_entries := vb_entries b + 1\<rparr>, l\<lparr>ly_directories := insort_insert parent (ly_directories l)\<rparr>)"
  using assms
  by (subst parse_directory.simps)
    (simp add: Let_def rs_then_def rs_bind_def rs_fst_def rs_modify_def charge_entries_def charge_def
      checked_n_defs ENTRY_BYTES_def)

lemma parse_entry_empty:
  assumes "parse_name (slice input k (k + NAME_BYTES)) = Inr name"
    and "vfs_read_u32 input (k + 36) = Some 0" "vfs_read_u32 input (k + 40) = Some 0" "vfs_read_u32 input (k + 44) = Some 0"
    and "\<not> min (vl_max_path_bytes (vb_limits b)) SPEC_MAX_PATH_BYTES < length (vfs_join parent name)"
  shows "parse_entry z origin input parent enter k (b, l) = (Inr (), b, insert_file (vfs_join parent name) [] l)"
  using assms by (simp add: parse_entry_def Let_def rs_bind_def rs_lift_def rs_get_def rs_modify_def map_err_def)

lemma parse_entry_directory:
  assumes "parse_name (slice input k (k + NAME_BYTES)) = Inr name"
    and "vfs_read_u32 input (k + 36) = Some child" "vfs_read_u32 input (k + 40) = Some 0" "vfs_read_u32 input (k + 44) = Some 0"
    and "k < unat child" "\<not> min (vl_max_path_bytes (vb_limits b)) SPEC_MAX_PATH_BYTES < length (vfs_join parent name)"
  shows "parse_entry z origin input parent enter k (b, l) =
    enter (unat child) (vfs_join parent name) (b, insert_directory (vfs_join parent name) l)"
  using assms
  by (auto simp: parse_entry_def Let_def rs_bind_def rs_then_def rs_lift_def rs_get_def rs_modify_def map_err_def
      split: prod.split sum.split)

lemmas table_defs = file_table_def directory_table_def

lemma table_words:
  "vfs_read_u32 file_table 0 = Some 1" "vfs_read_u32 directory_table 0 = Some 1" "vfs_read_u32 directory_table 52 = Some 1"
  "vfs_read_u32 file_table 40 = Some 0" "vfs_read_u32 file_table 44 = Some 0" "vfs_read_u32 file_table 48 = Some 0"
  "vfs_read_u32 directory_table 40 = Some 52" "vfs_read_u32 directory_table 44 = Some 0" "vfs_read_u32 directory_table 48 = Some 0"
  "vfs_read_u32 directory_table 92 = Some 0" "vfs_read_u32 directory_table 96 = Some 0" "vfs_read_u32 directory_table 100 = Some 0"
  by (simp_all add: vfs_read_u32_def checked_add_n_def table_defs u32_from_le_bytes_def)

lemma table_names:
  "length file_table = 52" "length directory_table = 104"
  "parse_name (slice file_table 4 40) = Inr ''a''" "parse_name (slice directory_table 4 40) = Inr ''a''"
  "parse_name (slice directory_table 56 92) = Inr ''b''"
  by (simp_all add: table_defs) (code_simp+)

text \<open>The first layer's file \<open>A\<close> is replaced by the second layer's directory \<open>a\<close>, which holds \<open>b\<close>.\<close>

lemma file_table_parsed:
  "vb_limits b = VfsLimits_default \<Longrightarrow> vb_entries b < 65536 \<Longrightarrow>
   parse_directory z VfsLimits_default origin file_table 0 [] 0 (b, VfsLayer_default)
     = (Inr (), b\<lparr>vb_entries := vb_entries b + 1\<rparr>, \<lparr>ly_files = [(''a'', [])], ly_directories = [[]]\<rparr>)"
  by (subst parse_directory_one)
    (simp_all add: table_words table_names rs_then_def rs_bind_def rs_return_def parse_entry_empty NAME_BYTES_def
      VfsLimits_default_def SPEC_MAX_PATH_BYTES_def vfs_join_def insert_file_def remove_subtree_def
      VfsLayer_default_def outside_def starts_with_def insort_insert_key_def)

lemma directory_table_parsed:
  "vb_limits b = VfsLimits_default \<Longrightarrow> vb_entries b < 65535 \<Longrightarrow>
   parse_directory z VfsLimits_default origin directory_table 0 [] 0 (b, VfsLayer_default)
     = (Inr (), b\<lparr>vb_entries := vb_entries b + 2\<rparr>,
        \<lparr>ly_files = [(''a/b'', [])], ly_directories = [[], ''a'']\<rparr>)"
  by (subst parse_directory_one)
    (simp_all add: table_words table_names rs_then_def rs_bind_def rs_return_def parse_entry_empty
      parse_entry_directory parse_directory_one NAME_BYTES_def
      VfsLimits_default_def SPEC_MAX_PATH_BYTES_def vfs_join_def insert_file_def insert_directory_def remove_subtree_def
      VfsLayer_default_def outside_def starts_with_def insort_insert_key_def file_remove_def)

definition example_psf2_plan :: Psf2LoadPlan where
  "example_psf2_plan = \<lparr>p2_root_origin = ''o'', p2_layers = example_layers, p2_refresh_override = None,
     p2_metadata = \<lparr>pm_title = None, pm_artist = None, pm_game = None, pm_year = None, pm_genre = None,
       pm_comment = None, pm_copyright = None, pm_psfby = None, pm_volume = F64_Finite 1,
       pm_length = None, pm_fade = Duration_ZERO, pm_refresh = None, pm_raw_tags = []\<rparr>\<rparr>"


section \<open>Spellings\<close>

lemma split_on_general: "P y \<Longrightarrow> split_on P (xs @ y # ys) = split_on P xs @ split_on P ys"
  by (induction xs) (auto split: list.split)

lemma join_slash_snoc: "cs \<noteq> [] \<Longrightarrow> join_slash (cs @ [c]) = join_slash cs @ ''/'' @ c"
  by (induction cs rule: join_slash.induct) auto

lemma slash_separates: "is_separator (CHR ''/'')"
  by code_simp

lemma valid_name_whole: "valid_name name \<Longrightarrow> split_on is_separator name = [name]"
  by (rule split_on_none) (auto simp: valid_name_def is_separator_def bytes_of_str_def)

text \<open>A stored path is the join of its components, which are valid names.\<close>

lemma stored_path_components:
  assumes ok: "tree_ok files directories"
  shows "p \<in> fst ` set files \<union> directories \<Longrightarrow> p \<noteq> [] \<Longrightarrow>
    join_slash (split_on is_separator p) = p \<and> (\<forall>c \<in> set (split_on is_separator p). valid_name c)"
proof (induction p rule: length_induct)
  case (1 p)
  have "child_of directories p" using "1.prems" ok by (auto simp: tree_ok_def)
  then obtain parent name where c: "p = vfs_join parent name" "valid_name name" "parent \<in> directories"
    by (auto simp: child_of_def)
  show ?case
  proof (cases "parent = []")
    case True
    then show ?thesis using c valid_name_whole by (simp add: vfs_join_def)
  next
    case False
    have "split_on is_separator p = split_on is_separator parent @ [name]"
      using False c(1) split_on_general [where P = is_separator and y = "CHR ''/''", OF slash_separates, of parent name]
        valid_name_whole [OF c(2)] by (simp add: vfs_join_def)
    moreover have "join_slash (split_on is_separator parent) = parent \<and> (\<forall>c \<in> set (split_on is_separator parent). valid_name c)"
      using "1.IH" c join_longer [OF c(2), of parent] False by blast
    ultimately show ?thesis using c False by (auto simp: join_slash_snoc vfs_join_def)
  qed
qed

lemma lower_unat: "bytes_of_str (lower c) = map to_ascii_lowercase (bytes_of_str c)"
  by (simp add: lower_def bytes_of_str_def str_of_bytes_def comp_def)

lemma lookup_components_lower:
  assumes "\<forall>c \<in> set cs. c \<noteq> [] \<longrightarrow> valid_name (lower c) \<and> lower c \<noteq> ''.'' \<and> lower c \<noteq> ''..''"
  shows "lookup_components cs = Inr (map lower (filter (\<lambda>c. c \<noteq> []) cs))"
  using assms
proof (induction cs)
  case (Cons c cs)
  have ok: "\<not> (c = ''.'' \<or> c = ''..'' \<or> NAME_BYTES < length c
      \<or> (\<exists>b \<in> set (bytes_of_str c). \<not> (32 \<le> b \<and> b \<le> 126) \<or> b = 0x3A))" if "c \<noteq> []"
  proof -
    have v: "valid_name (lower c)" "lower c \<noteq> ''.''" "lower c \<noteq> ''..''" using Cons.prems that by auto
    have dots: "lower ''.'' = ''.''" "lower ''..'' = ''..''" by code_simp+
    have "length (lower c) = length c" by (simp add: lower_def bytes_of_str_def str_of_bytes_def)
    moreover have "32 \<le> b \<and> b \<le> 126 \<and> b \<noteq> 0x3A" if b: "b \<in> set (bytes_of_str c)" for b
    proof -
      have l: "32 \<le> to_ascii_lowercase b" "to_ascii_lowercase b \<le> 126" "to_ascii_lowercase b \<noteq> 0x3A"
        using v(1) b by (auto simp: valid_name_def lower_unat)
      define n where "n = unat b"
      have "unat (to_ascii_lowercase b) = (if 0x41 \<le> n \<and> n \<le> 0x5A then n + 32 else n)"
        unfolding n_def by (rule lowercase_unat)
      moreover have "32 \<le> unat (to_ascii_lowercase b)" "unat (to_ascii_lowercase b) \<le> 126"
        using l by (simp_all add: word_le_nat_alt)
      ultimately have "32 \<le> n" "n \<le> 126" by (auto split: if_splits)
      moreover have "b \<noteq> 0x3A" using l(3) by (auto simp: to_ascii_lowercase_def)
      ultimately show ?thesis by (simp add: n_def word_le_nat_alt)
    qed
    ultimately show ?thesis using v dots by (auto simp: valid_name_def)
  qed
  then show ?case using Cons by (auto simp: and_then_def)
qed simp

text \<open>
  C40. A file of a PSF2 set is found under every spelling of its path: in any case, with either
  separator, with leading, doubled or trailing separators, as long as the spelling is ASCII and
  within the format's 255 bytes and no component is a dot name. A read then returns the bytes
  from the offset, as many as there are and the buffer holds.
\<close>
theorem vfs_every_spelling:
  assumes "Psf2Vfs_from_load_plan z plan limits = Inr vfs" and "map_of (vfs_files vfs) path = Some data"
    and "list_all is_ascii (bytes_of_str spelling)" and "length spelling \<le> SPEC_MAX_PATH_BYTES"
    and "map lower (filter (\<lambda>c. c \<noteq> []) (split_on is_separator spelling)) = split_on is_separator path"
    and "''.'' \<notin> set (split_on is_separator path)" "''..'' \<notin> set (split_on is_separator path)"
  shows "Psf2Vfs_file vfs spelling = Inr data
    \<and> Psf2Vfs_node_kind vfs spelling = Inr (Some NodeKind_File)
    \<and> (\<exists>count buffer'. Psf2Vfs_read vfs spelling offset buffer = Inr (count, buffer')
        \<and> count = min (length data - offset) (length buffer) \<and> length buffer' = length buffer
        \<and> (\<forall>i < length buffer. buffer' ! i = (if i < count then data ! (offset + i) else buffer ! i)))"
proof -
  have ok: "tree_ok (vfs_files vfs) (set (vfs_directories vfs))"
    using plan_ok(1) [OF assms(1)] by (simp add: vfs_ok_def)
  have key: "path \<in> fst ` set (vfs_files vfs)" using assms(2) by (metis image_eqI map_of_SomeD fst_conv)
  then have "path \<noteq> []" using tree_no_root [OF ok] by metis
  with stored_path_components [OF ok, of path] key
  have path: "join_slash (split_on is_separator path) = path" "\<forall>c \<in> set (split_on is_separator path). valid_name c"
    by auto
  have "child_of (set (vfs_directories vfs)) path" using ok key by (auto simp: tree_ok_def)
  then have len: "length path \<le> SPEC_MAX_PATH_BYTES" by (simp add: child_of_def)
  have "lower c \<in> set (split_on is_separator path)" if "c \<in> set (split_on is_separator spelling)" "c \<noteq> []" for c
  proof -
    have "lower c \<in> set (map lower (filter (\<lambda>c. c \<noteq> []) (split_on is_separator spelling)))" using that by auto
    then show ?thesis unfolding assms(5) .
  qed
  then have "lookup_components (split_on is_separator spelling) = Inr (split_on is_separator path)"
    using lookup_components_lower [of "split_on is_separator spelling"] path(2) assms(5-7) by metis
  then have norm: "normalize_lookup spelling SPEC_MAX_PATH_BYTES = Inr path"
    using assms(3,4) path(1) len by (simp add: normalize_lookup_def and_then_def Let_def)
  then have found: "Psf2Vfs_file vfs spelling = Inr data"
    using assms(2) by (simp add: Psf2Vfs_file_def and_then_def map_err_def)
  moreover have "Psf2Vfs_node_kind vfs spelling = Inr (Some NodeKind_File)"
    using norm assms(2) by (simp add: Psf2Vfs_node_kind_def and_then_def map_err_def)
  moreover have "\<exists>count buffer'. Psf2Vfs_read vfs spelling offset buffer = Inr (count, buffer')
        \<and> count = min (length data - offset) (length buffer) \<and> length buffer' = length buffer
        \<and> (\<forall>i < length buffer. buffer' ! i = (if i < count then data ! (offset + i) else buffer ! i))"
    using found by (auto simp: Psf2Vfs_read_def and_then_def Let_def nth_append min_def)
  ultimately show ?thesis by blast
qed

lemma vfs_every_spelling_witness:
  "\<exists>vfs. Psf2Vfs_from_load_plan stored_zlib example_psf2_plan VfsLimits_default = Inr vfs
     \<and> Psf2Vfs_file vfs ''/A//B'' = Inr []"
proof -
  have run: "Psf2Vfs_from_load_plan stored_zlib example_psf2_plan VfsLimits_default
      = Inr \<lparr>vfs_files = [(''a/b'', [])], vfs_directories = [[], ''a'']\<rparr>"
    by (simp add: Psf2Vfs_from_load_plan_def example_psf2_plan_def example_layers_def example_layer_def
        file_table_parsed directory_table_parsed Builder_new_def Builder_apply_def rs_return_def
        remove_subtree_def outside_def starts_with_def insort_insert_key_def file_remove_def)
  have "list_all is_ascii (bytes_of_str ''/A//B'')" "length ''/A//B'' \<le> SPEC_MAX_PATH_BYTES"
    "map lower (filter (\<lambda>c. c \<noteq> []) (split_on is_separator ''/A//B'')) = split_on is_separator ''a/b''"
    "''.'' \<notin> set (split_on is_separator ''a/b'')" "''..'' \<notin> set (split_on is_separator ''a/b'')"
    by code_simp+
  with vfs_every_spelling [OF run, of "''a/b''" "[]" "''/A//B''"] run show ?thesis by simp
qed

end
