(* ===== verification/Clock.thy ===== *)
theory Clock
  imports Upse_Prelude
begin

text \<open>
  The crate \<open>upse-clock\<close> (\<open>crates/support/clock\<close>): tick counts and deadlines with
  checked 64-bit arithmetic, and the remainder-preserving rate converter.
\<close>

section \<open>Ticks and deadlines\<close>

type_synonym Ticks = u64
type_synonym Deadline = u64

datatype ClockError = ClockError_ZeroRate | ClockError_Overflow

definition Ticks_checked_add :: "Ticks \<Rightarrow> Ticks \<Rightarrow> ClockError + Ticks" where
  "Ticks_checked_add self other = ok_or (checked_add_n 64 self other) ClockError_Overflow"

definition Deadline_checked_advance :: "Deadline \<Rightarrow> Ticks \<Rightarrow> ClockError + Deadline" where
  "Deadline_checked_advance self ticks = ok_or (checked_add_n 64 self ticks) ClockError_Overflow"

definition Deadline_elapsed_since :: "Deadline \<Rightarrow> Deadline \<Rightarrow> Ticks option" where
  "Deadline_elapsed_since self earlier = checked_sub_n self earlier"

section \<open>The rate converter\<close>

record RateConverter =
  rc_source_hz :: u64
  rc_target_hz :: u64
  rc_remainder :: u64

definition RateConverter_new :: "u64 \<Rightarrow> u64 \<Rightarrow> ClockError + RateConverter" where
  "RateConverter_new source_hz target_hz =
     (if source_hz = 0 \<or> target_hz = 0 then Inl ClockError_ZeroRate
      else Inr \<lparr>rc_source_hz = source_hz, rc_target_hz = target_hz, rc_remainder = 0\<rparr>)"

text \<open>
  \<open>advance\<close> stores the remainder before it converts the quotient: when only the quotient
  overflows, the error leaves the new remainder behind.
\<close>

definition RateConverter_advance ::
    "RateConverter \<Rightarrow> Ticks \<Rightarrow> (ClockError + Ticks) \<times> RateConverter" where
  "RateConverter_advance self source_ticks =
     (case Option.bind (checked_mul_n 128 source_ticks (rc_target_hz self))
             (\<lambda>value. checked_add_n 128 value (rc_remainder self)) of
        None \<Rightarrow> (Inl ClockError_Overflow, self)
      | Some tot \<Rightarrow>
          let whole = tot div rc_source_hz self in
          (case try_from_n 64 (tot mod rc_source_hz self) of
             None \<Rightarrow> (Inl ClockError_Overflow, self)
           | Some r \<Rightarrow>
               (ok_or (try_from_n 64 whole) ClockError_Overflow, self\<lparr>rc_remainder := r\<rparr>)))"

definition RateConverter_reset :: "RateConverter \<Rightarrow> RateConverter" where
  "RateConverter_reset self = self\<lparr>rc_remainder := 0\<rparr>"

definition RateConverter_convert_floor :: "Ticks \<Rightarrow> u64 \<Rightarrow> u64 \<Rightarrow> ClockError + Ticks" where
  "RateConverter_convert_floor source_ticks source_hz target_hz =
     (if source_hz = 0 \<or> target_hz = 0 then Inl ClockError_ZeroRate
      else case checked_mul_n 128 source_ticks target_hz of
             None \<Rightarrow> Inl ClockError_Overflow
           | Some value \<Rightarrow> ok_or (try_from_n 64 (value div source_hz)) ClockError_Overflow)"

text \<open>The invariant of a converter made by \<open>new\<close> from 64-bit rates.\<close>

definition RateConverter_inv :: "RateConverter \<Rightarrow> bool" where
  "RateConverter_inv rc \<longleftrightarrow>
     0 < rc_source_hz rc \<and> rc_source_hz rc < 2 ^ 64 \<and>
     0 < rc_target_hz rc \<and> rc_target_hz rc < 2 ^ 64 \<and>
     rc_remainder rc < rc_source_hz rc"

text \<open>A successful call, as the metered step of the shared contract.\<close>

definition rate_step :: "nat \<Rightarrow> RateConverter \<Rightarrow> (nat \<times> RateConverter) option" where
  "rate_step n rc = (case RateConverter_advance rc n of
      (Inl _, _) \<Rightarrow> None
    | (Inr m, rc') \<Rightarrow> Some (m, rc'))"

section \<open>Correctness\<close>

lemma RateConverter_new_inv:
  "RateConverter_new s t = Inr rc \<Longrightarrow> s < 2 ^ 64 \<Longrightarrow> t < 2 ^ 64 \<Longrightarrow> RateConverter_inv rc"
  by (auto simp: RateConverter_new_def RateConverter_inv_def split: if_splits)

lemma rate_total_fits:
  assumes "(n::nat) < 2 ^ 64" "t < 2 ^ 64" "r < 2 ^ 64"
  shows "n * t < 2 ^ 128" and "n * t + r < 2 ^ 128"
proof -
  have "n * t \<le> (2 ^ 64 - 1) * (2 ^ 64 - 1)"
    using assms by (intro mult_le_mono) simp_all
  then show "n * t < 2 ^ 128" and "n * t + r < 2 ^ 128"
    using assms by simp_all
qed

text \<open>On 64-bit inputs the 128-bit intermediate never overflows: a call computes one division.\<close>

lemma RateConverter_advance_eq:
  assumes "RateConverter_inv rc" and "n < 2 ^ 64"
  shows "RateConverter_advance rc n =
    (let tot = n * rc_target_hz rc + rc_remainder rc in
     (if tot div rc_source_hz rc < 2 ^ 64 then Inr (tot div rc_source_hz rc)
      else Inl ClockError_Overflow,
      rc\<lparr>rc_remainder := tot mod rc_source_hz rc\<rparr>))"
proof -
  have r: "rc_remainder rc < 2 ^ 64" and t: "rc_target_hz rc < 2 ^ 64"
    and s: "0 < rc_source_hz rc" "rc_source_hz rc < 2 ^ 64"
    using assms(1) by (simp_all add: RateConverter_inv_def)
  have "(n * rc_target_hz rc + rc_remainder rc) mod rc_source_hz rc < 2 ^ 64"
    using s by (meson mod_less_divisor order_less_trans)
  then show ?thesis
    using rate_total_fits [OF assms(2) t r]
    by (simp add: RateConverter_advance_def checked_n_defs ok_or_def Let_def)
qed

lemma RateConverter_advance_inv:
  assumes "RateConverter_inv rc" and "n < 2 ^ 64"
  shows "RateConverter_inv (snd (RateConverter_advance rc n))"
  using assms by (simp add: RateConverter_advance_eq Let_def) (simp add: RateConverter_inv_def)

lemma rate_step_eq:
  assumes "RateConverter_inv rc" and "n < 2 ^ 64"
  shows "rate_step n rc =
    (let tot = n * rc_target_hz rc + rc_remainder rc in
     if tot div rc_source_hz rc < 2 ^ 64
     then Some (tot div rc_source_hz rc, rc\<lparr>rc_remainder := tot mod rc_source_hz rc\<rparr>)
     else None)"
  using assms by (simp add: rate_step_def RateConverter_advance_eq Let_def)


lemma rate_step_inv:
  assumes "RateConverter_inv rc" and "rate_step n rc = Some (m, rc')"
  shows "RateConverter_inv rc'"
proof -
  from assms(2) obtain r where "rc' = rc\<lparr>rc_remainder := r mod rc_source_hz rc\<rparr>"
    by (auto simp: rate_step_def RateConverter_advance_def ok_or_def checked_n_defs Let_def
        split: prod.splits sum.splits option.splits if_splits)
  then show ?thesis using assms(1) by (simp add: RateConverter_inv_def)
qed

lemma rate_step_add:
  assumes inv: "RateConverter_inv rc" and a: "rate_step a rc = Some (x, rc')"
    and b: "rate_step b rc' = Some (y, rc'')" and ab: "a + b < 2 ^ 64" and xy: "x + y < 2 ^ 64"
  shows "rate_step (a + b) rc = Some (x + y, rc'')"
proof -
  let ?s = "rc_source_hz rc" and ?t = "rc_target_hz rc" and ?r = "rc_remainder rc"
  from ab have ab': "a < 2 ^ 64" "b < 2 ^ 64" by simp_all
  have s: "0 < ?s" using inv by (simp add: RateConverter_inv_def)
  have x: "x = (a * ?t + ?r) div ?s" and rc': "rc' = rc\<lparr>rc_remainder := (a * ?t + ?r) mod ?s\<rparr>"
    using a ab'(1) inv by (auto simp: rate_step_eq Let_def split: if_splits)
  have y: "y = (b * ?t + (a * ?t + ?r) mod ?s) div ?s"
    and rc'': "rc'' = rc\<lparr>rc_remainder := (b * ?t + (a * ?t + ?r) mod ?s) mod ?s\<rparr>"
    using b ab'(2) rate_step_inv [OF inv a] by (auto simp: rate_step_eq rc' Let_def split: if_splits)
  have "((a + b) * ?t + ?r) div ?s = (b * ?t + (a * ?t + ?r)) div ?s"
    by (simp add: algebra_simps)
  also have "\<dots> = (b * ?t + (a * ?t + ?r) mod ?s + (a * ?t + ?r) div ?s * ?s) div ?s"
    by (metis add.assoc add.commute mod_div_mult_eq)
  also have "\<dots> = x + y"
    by (subst div_mult_self1) (use s in \<open>simp_all add: x y\<close>)
  finally have q: "((a + b) * ?t + ?r) div ?s = x + y" .
  have m: "((a + b) * ?t + ?r) mod ?s = (b * ?t + (a * ?t + ?r) mod ?s) mod ?s"
    by (simp add: mod_simps algebra_simps)
  show ?thesis
    using inv ab xy by (simp add: rate_step_eq q m rc'' Let_def)
qed

interpretation rate: metered rate_step RateConverter_inv
proof unfold_locales
  fix rc
  assume "RateConverter_inv rc"
  then show "rate_step 0 rc = Some (0, rc)"
    by (simp add: rate_step_eq Let_def) (simp add: RateConverter_inv_def)
qed (blast intro: rate_step_inv rate_step_add)+

text \<open>
  C1. Rate conversion never drifts: starting from a fresh converter, whatever way an interval
  is cut into calls that all succeed, the outputs add up to the single floor division of the
  whole interval that \<open>convert_floor\<close> computes, and the remainder kept is its remainder.
\<close>
theorem rate_conversion_exact:
  assumes "RateConverter_new s t = Inr rc" and "s < 2 ^ 64" and "t < 2 ^ 64"
    and "meter_run rate_step ns rc = Some (ms, rc')"
    and "sum_list ns < 2 ^ 64" and "sum_list ms < 2 ^ 64"
  shows "RateConverter_convert_floor (sum_list ns) s t = Inr (sum_list ms) \<and>
    rc_remainder rc' = sum_list ns * t mod s"
proof -
  have inv: "RateConverter_inv rc" using assms(1-3) by (rule RateConverter_new_inv)
  have rc: "rc_source_hz rc = s" "rc_target_hz rc = t" "rc_remainder rc = 0" "s \<noteq> 0" "t \<noteq> 0"
    using assms(1) by (auto simp: RateConverter_new_def split: if_splits)
  have "rate_step (sum_list ns) rc = Some (sum_list ms, rc')"
    using inv assms(4-6) by (rule rate.run_total)
  then have q: "sum_list ns * t div s = sum_list ms" and r: "rc' = rc\<lparr>rc_remainder := sum_list ns * t mod s\<rparr>"
    using inv assms(5) by (auto simp: rate_step_eq rc Let_def split: if_splits)
  have "sum_list ns * t < 2 ^ 128"
    using rate_total_fits(1) [OF assms(5,3), of 0] by simp
  then show ?thesis
    using assms(6) by (simp add: RateConverter_convert_floor_def checked_n_defs ok_or_def rc q r)
qed

theorem rate_conversion_exact_witness:
  "RateConverter_convert_floor (sum_list [37, 1000, 731]) 33868800 44100 = Inr (sum_list [0, 1, 1]) \<and>
   rc_remainder (RateConverter.make 33868800 44100 10231200) =
     sum_list [37, 1000, 731] * 44100 mod 33868800"
proof (rule rate_conversion_exact)
  show "RateConverter_new 33868800 44100 = Inr (RateConverter.make 33868800 44100 0)"
    by (simp add: RateConverter_new_def RateConverter.make_def)
  show "meter_run rate_step [37, 1000, 731] (RateConverter.make 33868800 44100 0) =
      Some ([0, 1, 1], RateConverter.make 33868800 44100 10231200)"
    by (simp add: rate_step_def RateConverter_advance_def checked_n_defs ok_or_def
        RateConverter.make_def Let_def)
qed simp_all

end
