(* ===== verification/Scheduler.thy ===== *)
theory Scheduler
  imports Clock "HOL-Library.AList" "HOL-Library.Product_Lexorder"
begin

text \<open>
  The crate \<open>upse-scheduler\<close> (\<open>crates/support/scheduler\<close>): a queue of replaceable
  device events, ordered by deadline and, at equal deadlines, by insertion.

  The \<open>BTreeSet\<close> of (deadline, sequence, ident) triples is a strictly increasing list in the
  lexicographic order; the \<open>HashMap\<close> from ids to (deadline, sequence) is an association
  list with distinct keys.
\<close>

section \<open>State and operations\<close>

type_synonym EventId = u32

record DueEvent =
  due_id :: EventId
  due_deadline :: Deadline

datatype SchedulerError = SchedulerError_SequenceExhausted

type_synonym sched_entry = "Deadline \<times> u64 \<times> EventId"

record Scheduler =
  sched_queue :: "sched_entry list"
  sched_active :: "(EventId \<times> (Deadline \<times> u64)) list"
  sched_next_sequence :: u64

definition Scheduler_new :: Scheduler where
  "Scheduler_new = \<lparr>sched_queue = [], sched_active = [], sched_next_sequence = 0\<rparr>"

definition Scheduler_len :: "Scheduler \<Rightarrow> usize" where
  "Scheduler_len self = length (sched_active self)"

definition Scheduler_is_empty :: "Scheduler \<Rightarrow> bool" where
  "Scheduler_is_empty self = (sched_active self = [])"

definition Scheduler_schedule ::
    "Scheduler \<Rightarrow> EventId \<Rightarrow> Deadline \<Rightarrow> (SchedulerError + unit) \<times> Scheduler" where
  "Scheduler_schedule self ident deadline =
     (let sequence = sched_next_sequence self in
      case checked_add_n 64 (sched_next_sequence self) 1 of
        None \<Rightarrow> (Inl SchedulerError_SequenceExhausted, self)
      | Some n \<Rightarrow>
          let queue = (case map_of (sched_active self) ident of
                         Some (old_deadline, old_sequence) \<Rightarrow>
                           remove1 (old_deadline, old_sequence, ident) (sched_queue self)
                       | None \<Rightarrow> sched_queue self)
          in (Inr (),
              \<lparr>sched_queue = insort_insert (deadline, sequence, ident) queue,
               sched_active = AList.update ident (deadline, sequence) (AList.delete ident (sched_active self)),
               sched_next_sequence = n\<rparr>))"

definition Scheduler_cancel :: "Scheduler \<Rightarrow> EventId \<Rightarrow> bool \<times> Scheduler" where
  "Scheduler_cancel self ident =
     (case map_of (sched_active self) ident of
        None \<Rightarrow> (False, self)
      | Some (deadline, sequence) \<Rightarrow>
          ((deadline, sequence, ident) \<in> set (sched_queue self),
           self\<lparr>sched_queue := remove1 (deadline, sequence, ident) (sched_queue self),
                sched_active := AList.delete ident (sched_active self)\<rparr>))"

definition Scheduler_next_deadline :: "Scheduler \<Rightarrow> Deadline option" where
  "Scheduler_next_deadline self =
     (case sched_queue self of [] \<Rightarrow> None | entry # _ \<Rightarrow> Some (fst entry))"

definition Scheduler_pop_due :: "Scheduler \<Rightarrow> Deadline \<Rightarrow> DueEvent option \<times> Scheduler" where
  "Scheduler_pop_due self now =
     (case sched_queue self of
        [] \<Rightarrow> (None, self)
      | (deadline, sequence, ident) # _ \<Rightarrow>
          if now < deadline then (None, self)
          else (Some \<lparr>due_id = ident, due_deadline = deadline\<rparr>,
                self\<lparr>sched_queue := remove1 (deadline, sequence, ident) (sched_queue self),
                     sched_active := AList.delete ident (sched_active self)\<rparr>))"

definition Scheduler_clear :: "Scheduler \<Rightarrow> Scheduler" where
  "Scheduler_clear self = self\<lparr>sched_queue := [], sched_active := []\<rparr>"

section \<open>The contract of an event queue\<close>

text \<open>
  What a client relies on: the pending entries as a set, the effect of scheduling on it, and
  that the entry popped is the least pending one. The dispatch loop of a machine, which pops
  until nothing is due, is analysed once over the contract; \<open>dispatch\<close> takes fuel because the
  loop ends only when the queue runs out of due entries.
\<close>

fun dispatch :: "('q \<Rightarrow> 'e option \<times> 'q) \<Rightarrow> nat \<Rightarrow> 'q \<Rightarrow> 'e list \<times> 'q" where
  "dispatch pop 0 q = ([], q)"
| "dispatch pop (Suc n) q =
     (case pop q of
        (None, q') \<Rightarrow> ([], q')
      | (Some e, q') \<Rightarrow> (let (es, q'') = dispatch pop n q' in (e # es, q'')))"

locale event_queue =
  fixes pop_due :: "'q \<Rightarrow> Deadline \<Rightarrow> 'e option \<times> 'q"
    and entries :: "'q \<Rightarrow> sched_entry set"
    and event_of :: "sched_entry \<Rightarrow> 'e"
    and invar :: "'q \<Rightarrow> bool"
  assumes finite_entries: "invar q \<Longrightarrow> finite (entries q)"
    and pop_None: "invar q \<Longrightarrow> pop_due q now = (None, q') \<Longrightarrow>
      q' = q \<and> (\<forall>x \<in> entries q. now < fst x)"
    and pop_Some: "invar q \<Longrightarrow> pop_due q now = (Some e, q') \<Longrightarrow>
      invar q' \<and> (\<exists>x. event_of x = e \<and> x \<in> entries q \<and> fst x \<le> now \<and>
        entries q' = entries q - {x} \<and> (\<forall>y \<in> entries q. x \<le> y))"
begin

lemma dispatch_due:
  assumes "invar q" and "card (entries q) \<le> n"
    and "dispatch (\<lambda>q. pop_due q now) n q = (es, q')"
  shows "\<exists>xs. es = map event_of xs \<and> sorted_wrt (<) xs \<and>
    set xs = {x \<in> entries q. fst x \<le> now} \<and>
    entries q' = {x \<in> entries q. now < fst x} \<and> invar q'"
  using assms
proof (induction n arbitrary: q es)
  case 0
  then have "entries q = {}" using finite_entries by simp
  with "0" show ?case by simp
next
  case (Suc n)
  show ?case
  proof (cases "pop_due q now")
    case (Pair r t)
    show ?thesis
    proof (cases r)
      case None
      then have "t = q" "\<forall>x \<in> entries q. now < fst x"
        using pop_None [OF Suc.prems(1)] Pair by auto
      then show ?thesis using Suc.prems Pair None by fastforce
    next
      case (Some e)
      then obtain x where t: "invar t" "event_of x = e" "x \<in> entries q" "fst x \<le> now"
        "entries t = entries q - {x}" "\<forall>y \<in> entries q. x \<le> y"
        using pop_Some [OF Suc.prems(1)] Pair by blast
      obtain fs where fs: "dispatch (\<lambda>q. pop_due q now) n t = (fs, q')" "es = e # fs"
        using Suc.prems(3) Pair Some by (auto split: prod.splits)
      have "card (entries t) \<le> n"
        using Suc.prems(1,2) t(3,5) finite_entries by simp
      then obtain xs where xs: "fs = map event_of xs" "sorted_wrt (<) xs"
        "set xs = {y \<in> entries t. fst y \<le> now}" "entries q' = {y \<in> entries t. now < fst y}"
        "invar q'"
        using Suc.IH [OF t(1) _ fs(1)] by blast
      have "\<forall>y \<in> set xs. x < y" using xs(3) t(5,6) by (auto simp: order_less_le)
      then have "sorted_wrt (<) (x # xs)" using xs(2) by simp
      moreover have "set (x # xs) = {y \<in> entries q. fst y \<le> now}"
        unfolding set_simps xs(3) t(5) using t(3,4) by blast
      moreover have "entries q' = {y \<in> entries q. now < fst y}"
        unfolding xs(4) t(5) using t(4) linorder_not_le by blast
      moreover have "es = map event_of (x # xs)" using fs(2) xs(1) t(2) by simp
      ultimately show ?thesis using xs(5) by blast
    qed
  qed
qed

end

section \<open>The representation invariant\<close>

definition sched_entries :: "Scheduler \<Rightarrow> sched_entry set" where
  "sched_entries s = {(d, n, i). map_of (sched_active s) i = Some (d, n)}"

definition Scheduler_inv :: "Scheduler \<Rightarrow> bool" where
  "Scheduler_inv s \<longleftrightarrow>
     sorted (sched_queue s) \<and> distinct (sched_queue s) \<and>
     distinct (map fst (sched_active s)) \<and>
     set (sched_queue s) = sched_entries s \<and>
     (\<forall>(d, n, i) \<in> sched_entries s. n < sched_next_sequence s) \<and>
     inj_on (\<lambda>(d, n, i). n) (sched_entries s) \<and>
     sched_next_sequence s < 2 ^ 64"

definition sched_event :: "sched_entry \<Rightarrow> DueEvent" where
  "sched_event x = (case x of (d, n, i) \<Rightarrow> \<lparr>due_id = i, due_deadline = d\<rparr>)"

lemma Scheduler_new_inv: "Scheduler_inv Scheduler_new"
  by (simp add: Scheduler_inv_def Scheduler_new_def sched_entries_def inj_on_def)

lemma set_insort_insert: "set (insort_insert x xs) = insert x (set xs)"
  by (cases "x \<in> set xs") (auto simp: insort_insert_triv insort_insert_insort set_insort_key)

lemma sched_entries_delete:
  "sched_entries (s\<lparr>sched_active := AList.delete i (sched_active s)\<rparr>) =
     {x \<in> sched_entries s. snd (snd x) \<noteq> i}"
  by (auto simp: sched_entries_def delete_conv)

lemma map_of_update_delete:
  "map_of (AList.update k v (AList.delete k al)) = (map_of al)(k \<mapsto> v)"
  by (simp add: update_conv' delete_conv' fun_upd_def fun_eq_iff)

lemma Scheduler_schedule_entries:
  assumes "Scheduler_inv s" and "Scheduler_schedule s i d = (Inr (), s')"
  shows "sched_entries s' =
      insert (d, sched_next_sequence s, i) {x \<in> sched_entries s. snd (snd x) \<noteq> i}"
    and "sched_next_sequence s' = Suc (sched_next_sequence s)"
    and "Scheduler_inv s'"
proof -
  let ?n = "sched_next_sequence s"
  let ?q = "case map_of (sched_active s) i of
       Some (d', n') \<Rightarrow> remove1 (d', n', i) (sched_queue s) | None \<Rightarrow> sched_queue s"
  have s': "s' = \<lparr>sched_queue = insort_insert (d, ?n, i) ?q,
      sched_active = AList.update i (d, ?n) (AList.delete i (sched_active s)),
      sched_next_sequence = Suc ?n\<rparr>" and fits: "Suc ?n < 2 ^ 64"
    using assms(2)
    by (auto simp: Scheduler_schedule_def checked_add_n_def Let_def split: option.splits if_splits)
  show ents: "sched_entries s' = insert (d, ?n, i) {x \<in> sched_entries s. snd (snd x) \<noteq> i}"
    by (auto simp: sched_entries_def s' map_of_update_delete)
  show nxt: "sched_next_sequence s' = Suc ?n" by (simp add: s')
  have q: "set ?q = {x \<in> sched_entries s. snd (snd x) \<noteq> i}" "sorted ?q" "distinct ?q"
  proof -
    have "set (sched_queue s) = {(d, n, i). map_of (sched_active s) i = Some (d, n)}"
      "distinct (sched_queue s)" "sorted (sched_queue s)"
      using assms(1) by (simp_all add: Scheduler_inv_def sched_entries_def)
    then show "set ?q = {x \<in> sched_entries s. snd (snd x) \<noteq> i}" "sorted ?q" "distinct ?q"
      by (auto simp: sched_entries_def sorted_remove1 split: option.splits)
  qed
  have "set (sched_queue s') = sched_entries s'"
    by (simp add: ents q(1) set_insort_insert) (simp add: s' set_insort_insert q(1))
  moreover have "sorted (sched_queue s')" "distinct (sched_queue s')"
    using q(2,3) by (simp_all add: s' sorted_insort_insert distinct_insort_insert)
  moreover have "distinct (map fst (sched_active s'))"
    using assms(1) by (simp add: s' Scheduler_inv_def distinct_update distinct_delete)
  moreover have "\<forall>(d, n, i) \<in> sched_entries s'. n < sched_next_sequence s'"
    using assms(1) by (auto simp: ents nxt Scheduler_inv_def less_Suc_eq)
  moreover have "inj_on (\<lambda>(d, n, i). n) (sched_entries s')"
    using assms(1) by (fastforce simp: ents Scheduler_inv_def inj_on_def)
  ultimately show "Scheduler_inv s'" using fits by (simp add: Scheduler_inv_def s')
qed

lemma Scheduler_remove_inv:
  assumes "Scheduler_inv s" and "map_of (sched_active s) i = Some (d, n)"
    and "s' = s\<lparr>sched_queue := remove1 (d, n, i) (sched_queue s),
                sched_active := AList.delete i (sched_active s)\<rparr>"
  shows "Scheduler_inv s'" and "sched_entries s' = sched_entries s - {(d, n, i)}"
proof -
  show ents: "sched_entries s' = sched_entries s - {(d, n, i)}"
    using assms(2,3) by (auto simp: sched_entries_def delete_conv)
  have "inj_on (\<lambda>(d, n, i). n) (sched_entries s')"
    using assms(1) by (auto simp: ents Scheduler_inv_def intro: inj_on_diff)
  then show "Scheduler_inv s'"
    using assms(1,3) ents
    by (auto simp: Scheduler_inv_def sorted_remove1 distinct_delete)
qed

lemma Scheduler_cancel_cases:
  assumes "Scheduler_inv s" and "Scheduler_cancel s i = (b, s')"
  shows "Scheduler_inv s'" and "map_of (sched_active s') = (map_of (sched_active s))(i := None)"
    and "b \<longleftrightarrow> i \<in> dom (map_of (sched_active s))"
proof -
  have "(Scheduler_inv s' \<and> map_of (sched_active s') = (map_of (sched_active s))(i := None)) \<and>
      (b \<longleftrightarrow> i \<in> dom (map_of (sched_active s)))"
  proof (cases "map_of (sched_active s) i")
    case None
    then show ?thesis using assms by (auto simp: Scheduler_cancel_def)
  next
    case (Some v)
    obtain d n where v: "v = (d, n)" by force
    then have "(d, n, i) \<in> set (sched_queue s)"
      using Some assms(1) unfolding Scheduler_inv_def by (simp add: sched_entries_def)
    then show ?thesis
      using assms(2) Some v Scheduler_remove_inv(1) [OF assms(1) Some [unfolded v] refl]
      by (auto simp: Scheduler_cancel_def delete_conv')
  qed
  then show "Scheduler_inv s'" "map_of (sched_active s') = (map_of (sched_active s))(i := None)"
    "b \<longleftrightarrow> i \<in> dom (map_of (sched_active s))" by blast+
qed

lemma Scheduler_pop_Some:
  assumes inv: "Scheduler_inv s" and pop: "Scheduler_pop_due s now = (Some e, s')"
  shows "Scheduler_inv s' \<and> (\<exists>x. sched_event x = e \<and> x \<in> sched_entries s \<and> fst x \<le> now \<and>
    sched_entries s' = sched_entries s - {x} \<and> (\<forall>y \<in> sched_entries s. x \<le> y))"
proof -
  from pop obtain d n i rest where q: "sched_queue s = (d, n, i) # rest" and d: "d \<le> now"
    and e: "e = \<lparr>due_id = i, due_deadline = d\<rparr>"
    and s': "s' = s\<lparr>sched_queue := remove1 (d, n, i) (sched_queue s),
        sched_active := AList.delete i (sched_active s)\<rparr>"
    by (auto simp: Scheduler_pop_due_def split: list.splits if_splits)
  have ents: "set (sched_queue s) = sched_entries s" and "sorted (sched_queue s)"
    using inv by (simp_all add: Scheduler_inv_def)
  then have least: "\<forall>y \<in> sched_entries s. (d, n, i) \<le> y" using q by (metis list.set_intros(1) set_ConsD sorted_simps(2) order_refl)
  have mem: "(d, n, i) \<in> sched_entries s" using ents q by auto
  then have "map_of (sched_active s) i = Some (d, n)" by (simp add: sched_entries_def)
  then have "Scheduler_inv s' \<and> sched_entries s' = sched_entries s - {(d, n, i)}"
    using Scheduler_remove_inv [OF inv _ s'] by blast
  moreover have "sched_event (d, n, i) = e" by (simp add: sched_event_def e)
  moreover have "fst (d, n, i) \<le> now" using d by simp
  ultimately show ?thesis using least mem by blast
qed

lemma Scheduler_pop_None:
  assumes inv: "Scheduler_inv s" and pop: "Scheduler_pop_due s now = (None, s')"
  shows "s' = s \<and> (\<forall>x \<in> sched_entries s. now < fst x)"
proof (cases "sched_queue s")
  case Nil
  with inv have "sched_entries s = {}" by (simp add: Scheduler_inv_def)
  then show ?thesis using pop Nil by (simp add: Scheduler_pop_due_def)
next
  case (Cons x rest)
  have *: "set (sched_queue s) = sched_entries s" and srt: "sorted (sched_queue s)"
    using inv by (simp_all add: Scheduler_inv_def)
  have "s' = s" and x: "now < fst x"
    using pop Cons by (auto simp: Scheduler_pop_due_def split: prod.splits if_splits)
  moreover have "fst x \<le> fst y" if "y \<in> set (sched_queue s)" for y
  proof -
    have "x \<le> y" using srt Cons that by auto
    then show ?thesis by (auto simp only: less_eq_prod_def less_imp_le)
  qed
  ultimately show ?thesis unfolding * [symmetric] using order_less_le_trans by blast
qed

interpretation scheduler: event_queue Scheduler_pop_due sched_entries sched_event Scheduler_inv
proof unfold_locales
  fix s
  assume "Scheduler_inv s"
  then show "finite (sched_entries s)" by (metis List.finite_set Scheduler_inv_def)
qed (use Scheduler_pop_None Scheduler_pop_Some in blast)+

section \<open>Reachable schedulers\<close>

inductive Scheduler_reachable :: "Scheduler \<Rightarrow> bool" where
  sched_start: "Scheduler_reachable Scheduler_new"
| sched_schedule: "Scheduler_reachable s \<Longrightarrow> Scheduler_reachable (snd (Scheduler_schedule s i d))"
| sched_cancel: "Scheduler_reachable s \<Longrightarrow> Scheduler_reachable (snd (Scheduler_cancel s i))"
| sched_pop: "Scheduler_reachable s \<Longrightarrow> Scheduler_reachable (snd (Scheduler_pop_due s now))"
| sched_clear: "Scheduler_reachable s \<Longrightarrow> Scheduler_reachable (Scheduler_clear s)"

lemma Scheduler_schedule_error:
  "Scheduler_schedule s i d = (Inl e, s') \<Longrightarrow> s' = s \<and> 2 ^ 64 \<le> Suc (sched_next_sequence s)"
  by (auto simp: Scheduler_schedule_def checked_add_n_def Let_def split: option.splits if_splits)

lemma Scheduler_schedule_keeps_inv:
  "Scheduler_inv s \<Longrightarrow> Scheduler_inv (snd (Scheduler_schedule s i d))"
  using Scheduler_schedule_error [of s i d] Scheduler_schedule_entries(3) [of s i d]
  by (cases "Scheduler_schedule s i d"; cases "fst (Scheduler_schedule s i d)") simp_all

lemma Scheduler_pop_keeps_inv:
  "Scheduler_inv s \<Longrightarrow> Scheduler_inv (snd (Scheduler_pop_due s now))"
  using Scheduler_pop_None [of s now] Scheduler_pop_Some [of s now]
  by (cases "Scheduler_pop_due s now"; cases "fst (Scheduler_pop_due s now)") simp_all

lemma Scheduler_clear_inv: "Scheduler_inv s \<Longrightarrow> Scheduler_inv (Scheduler_clear s)"
  by (simp add: Scheduler_inv_def Scheduler_clear_def sched_entries_def inj_on_def)

lemma Scheduler_reachable_inv: "Scheduler_reachable s \<Longrightarrow> Scheduler_inv s"
proof (induction rule: Scheduler_reachable.induct)
  case (sched_cancel s i)
  then show ?case using Scheduler_cancel_cases(1) by (metis prod.collapse)
qed (auto intro: Scheduler_new_inv Scheduler_schedule_keeps_inv Scheduler_pop_keeps_inv
    Scheduler_clear_inv)

lemma Scheduler_queue_strict: "Scheduler_inv s \<Longrightarrow> sorted_wrt (<) (sched_queue s)"
  by (simp add: Scheduler_inv_def strict_sorted_iff)

lemma Scheduler_len_queue:
  assumes "Scheduler_inv s"
  shows "Scheduler_len s = length (sched_queue s)"
proof -
  have d: "distinct (map fst (sched_active s))" and q: "distinct (sched_queue s)"
    and e: "set (sched_queue s) = sched_entries s" using assms by (simp_all add: Scheduler_inv_def)
  have "sched_entries s = (\<lambda>(i, d, n). (d, n, i)) ` set (sched_active s)"
    using d by (force simp: sched_entries_def)
  moreover have "inj_on (\<lambda>(i, d, n). (d, n, i)) (set (sched_active s))" by (auto simp: inj_on_def)
  ultimately have "card (set (sched_queue s)) = card (set (sched_active s))"
    unfolding e by (simp add: card_image)
  moreover have "distinct (sched_active s)" using d by (simp add: distinct_map)
  ultimately show ?thesis using q by (simp add: Scheduler_len_def distinct_card)
qed

section \<open>Properties\<close>

text \<open>
  C3. In every state reachable through the public operations the two indexes of the scheduler
  agree: the ordered queue holds, strictly increasing, exactly the (deadline, sequence, id)
  triples of the active map, no two pending events share a sequence number, and every sequence
  number handed out is below the next one.
\<close>
theorem scheduler_indexes_agree:
  assumes "Scheduler_reachable s"
  shows "sorted_wrt (<) (sched_queue s) \<and>
    set (sched_queue s) = {(d, n, i). map_of (sched_active s) i = Some (d, n)} \<and>
    Scheduler_len s = length (sched_queue s) \<and>
    distinct (map (\<lambda>(d, n, i). n) (sched_queue s)) \<and>
    (\<forall>(d, n, i) \<in> set (sched_queue s). n < sched_next_sequence s)"
proof -
  have inv: "Scheduler_inv s" using assms by (rule Scheduler_reachable_inv)
  then have "distinct (map (\<lambda>(d, n, i). n) (sched_queue s))"
    by (simp add: Scheduler_inv_def distinct_map)
  moreover have "Scheduler_len s = length (sched_queue s)" using inv by (rule Scheduler_len_queue)
  moreover have "sorted_wrt (<) (sched_queue s)" using inv by (rule Scheduler_queue_strict)
  moreover have "set (sched_queue s) = sched_entries s"
    "\<forall>(d, n, i) \<in> sched_entries s. n < sched_next_sequence s"
    using inv unfolding Scheduler_inv_def by blast+
  ultimately show ?thesis unfolding sched_entries_def by blast
qed


theorem scheduler_indexes_agree_witness:
  "let s = snd (Scheduler_schedule (snd (Scheduler_schedule Scheduler_new 7 10)) 3 5)
   in sorted_wrt (<) (sched_queue s) \<and> sched_queue s = [(5, 1, 3), (10, 0, 7)]"
proof -
  let ?s = "snd (Scheduler_schedule (snd (Scheduler_schedule Scheduler_new 7 10)) 3 5)"
  have "Scheduler_reachable ?s" by (intro Scheduler_reachable.intros)
  from scheduler_indexes_agree [OF this] show ?thesis
    by (simp add: Scheduler_schedule_def Scheduler_new_def checked_add_n_def Let_def
        insort_insert_key_def)
qed

text \<open>
  C4. Scheduling and cancelling act on the pending events as on a map from ids to deadlines.
  A successful \<open>schedule\<close> replaces the event of its id and gives it a sequence number above
  every pending one, so it comes after all events already at its deadline; \<open>schedule\<close> fails
  exactly when the 64-bit sequence is exhausted and then changes nothing; \<open>cancel\<close> removes the
  event and reports whether there was one.
\<close>
theorem scheduler_replaces_and_cancels:
  assumes "Scheduler_reachable s"
  shows "(case Scheduler_schedule s i d of
      (Inl e, s') \<Rightarrow> s' = s \<and> sched_next_sequence s = 2 ^ 64 - 1
    | (Inr _, s') \<Rightarrow>
        map_of (sched_active s') = (map_of (sched_active s))(i \<mapsto> (d, sched_next_sequence s)) \<and>
        (\<forall>x \<in> set (sched_queue s). snd (snd x) \<noteq> i \<longrightarrow> fst x \<le> d \<longrightarrow>
           x < (d, sched_next_sequence s, i)))
    \<and> (case Scheduler_cancel s i of (b, s') \<Rightarrow>
        map_of (sched_active s') = (map_of (sched_active s))(i := None) \<and>
        b = (i \<in> dom (map_of (sched_active s))))"
proof -
  have inv: "Scheduler_inv s" using assms by (rule Scheduler_reachable_inv)
  have "case Scheduler_cancel s i of (b, s') \<Rightarrow>
        map_of (sched_active s') = (map_of (sched_active s))(i := None) \<and>
        b = (i \<in> dom (map_of (sched_active s)))"
    using Scheduler_cancel_cases(2,3) [OF inv] by (auto split: prod.splits)
  moreover have "x < (d, sched_next_sequence s, i)"
    if "x \<in> set (sched_queue s)" "fst x \<le> d" for x
  proof -
    have "fst (snd x) < sched_next_sequence s" using inv that(1) by (auto simp: Scheduler_inv_def)
    then show ?thesis using that(2) by (cases x) (auto simp: less_prod_def)
  qed
  moreover have "sched_next_sequence s < 2 ^ 64" using inv by (simp add: Scheduler_inv_def)
  ultimately show ?thesis
    by (auto simp: Scheduler_schedule_def checked_add_n_def Let_def map_of_update_delete
        split: option.splits)
qed

theorem scheduler_replaces_and_cancels_witness:
  "let s = snd (Scheduler_schedule Scheduler_new 7 10)
   in map_of (sched_active (snd (Scheduler_schedule s 7 4))) 7 = Some (4, 1) \<and>
      fst (Scheduler_cancel s 7)"
proof -
  have "Scheduler_reachable (snd (Scheduler_schedule Scheduler_new 7 10))"
    by (intro Scheduler_reachable.intros)
  from scheduler_replaces_and_cancels [OF this, of 7 4] show ?thesis
    by (simp add: Scheduler_schedule_def Scheduler_new_def checked_add_n_def Let_def
        Scheduler_cancel_def)
qed

text \<open>
  C2. The dispatch loop, popping until nothing is due, delivers exactly the pending events whose
  deadline has passed, in increasing (deadline, sequence) order, which is first-in first-out at
  equal deadlines, and leaves exactly the later events pending.
\<close>
theorem scheduler_dispatch_order:
  assumes "Scheduler_reachable s" and "Scheduler_len s \<le> n"
    and "dispatch (\<lambda>q. Scheduler_pop_due q now) n s = (es, s')"
  shows "es = map sched_event (filter (\<lambda>x. fst x \<le> now) (sched_queue s)) \<and>
    sched_queue s' = filter (\<lambda>x. now < fst x) (sched_queue s)"
proof -
  have inv: "Scheduler_inv s" using assms(1) by (rule Scheduler_reachable_inv)
  have queue: "set (sched_queue t) = sched_entries t" if "Scheduler_inv t" for t
    using that by (simp add: Scheduler_inv_def)
  have "card (sched_entries s) \<le> n"
    using assms(2) card_length [of "sched_queue s"] Scheduler_len_queue [OF inv]
    by (simp add: queue [OF inv, symmetric])
  from scheduler.dispatch_due [OF inv this assms(3)]
  obtain xs where xs: "es = map sched_event xs" "sorted_wrt (<) xs"
    "set xs = {x \<in> sched_entries s. fst x \<le> now}"
    "sched_entries s' = {x \<in> sched_entries s. now < fst x}" "Scheduler_inv s'"
    by blast
  have "xs = filter (\<lambda>x. fst x \<le> now) (sched_queue s)"
    using Scheduler_queue_strict [OF inv] xs(2,3) queue [OF inv]
    by (intro strict_sorted_equal) (auto simp: sorted_wrt_filter)
  moreover have "sched_queue s' = filter (\<lambda>x. now < fst x) (sched_queue s)"
    using Scheduler_queue_strict [OF inv] Scheduler_queue_strict [OF xs(5)] xs(4)
      queue [OF inv] queue [OF xs(5)]
    by (intro strict_sorted_equal) (auto simp: sorted_wrt_filter)
  ultimately show ?thesis using xs(1) by blast
qed

theorem scheduler_dispatch_order_witness:
  "let s = snd (Scheduler_schedule (snd (Scheduler_schedule (snd (Scheduler_schedule
             Scheduler_new 3 10)) 1 10)) 2 20);
       r = dispatch (\<lambda>q. Scheduler_pop_due q 15) 3 s
   in fst r = [\<lparr>due_id = 3, due_deadline = 10\<rparr>, \<lparr>due_id = 1, due_deadline = 10\<rparr>] \<and>
      sched_queue (snd r) = [(20, 2, 2)]"
proof -
  let ?s = "snd (Scheduler_schedule (snd (Scheduler_schedule (snd (Scheduler_schedule
     Scheduler_new 3 10)) 1 10)) 2 20)"
  have r: "Scheduler_reachable ?s" by (intro Scheduler_reachable.intros)
  have s: "?s = \<lparr>sched_queue = [(10, 0, 3), (10, 1, 1), (20, 2, 2)],
      sched_active = [(3, 10, 0), (1, 10, 1), (2, 20, 2)], sched_next_sequence = 3\<rparr>"
    by (simp add: Scheduler_schedule_def Scheduler_new_def checked_add_n_def Let_def
        insort_insert_key_def)
  have "Scheduler_len ?s \<le> 3" by (simp add: s Scheduler_len_def)
  from scheduler_dispatch_order [OF r this surjective_pairing, of 15] show ?thesis
    by (simp add: s sched_event_def)
qed

end
