(* ===== verification/Bios_Types.thy ===== *)
theory Bios_Types
  imports Clock Scheduler
begin

text \<open>
  The vocabulary of the PS2 BIOS service layer (\<open>crates/hle/ps2/bios/src\<close>):
  the result codes of \<open>error.rs\<close>, and \<open>memory.rs\<close>: half-open guest ranges, their
  validation and the checked accesses to the guest memory of the machine. The
  trait \<open>GuestMemory\<close> is a record of its three operations over the machine's
  state.
\<close>

section \<open>Errors\<close>

datatype KernelError =
    KernelError_Error
  | KernelError_IllegalExceptionCode
  | KernelError_ExceptionHandlerNotInUse
  | KernelError_ExceptionHandlerInUse
  | KernelError_IllegalContext
  | KernelError_IllegalInterruptCode
  | KernelError_FoundHandler
  | KernelError_HandlerNotFound
  | KernelError_IllegalObject
  | KernelError_UnknownModule
  | KernelError_MemoryInUse
  | KernelError_AlreadyStarted
  | KernelError_NotStarted
  | KernelError_AlreadyStopped
  | KernelError_CannotStop
  | KernelError_NotStopped
  | KernelError_NotRemovable
  | KernelError_LibraryFound
  | KernelError_LibraryNotFound
  | KernelError_IllegalLibrary
  | KernelError_LibraryInUse
  | KernelError_AlreadyStopping
  | KernelError_NoMemory
  | KernelError_IllegalAttribute
  | KernelError_IllegalEntry
  | KernelError_IllegalPriority
  | KernelError_IllegalStackSize
  | KernelError_IllegalMode
  | KernelError_IllegalThreadId
  | KernelError_UnknownThreadId
  | KernelError_UnknownSemaphoreId
  | KernelError_UnknownEventFlagId
  | KernelError_UnknownMessageBoxId
  | KernelError_UnknownVariablePoolId
  | KernelError_UnknownFixedPoolId
  | KernelError_Dormant
  | KernelError_NotDormant
  | KernelError_NotSuspended
  | KernelError_NotWaiting
  | KernelError_CannotWait
  | KernelError_ReleaseWait
  | KernelError_SemaphoreZero
  | KernelError_SemaphoreOverflow
  | KernelError_EventFlagCondition
  | KernelError_EventFlagMultiple
  | KernelError_EventFlagIllegalPattern
  | KernelError_MessageBoxNoMessage
  | KernelError_WaitDeleted
  | KernelError_IllegalMemoryBlock
  | KernelError_IllegalMemorySize
  | KernelError_IllegalScratchpadAddress
  | KernelError_ScratchpadInUse
  | KernelError_ScratchpadNotInUse
  | KernelError_IllegalType
  | KernelError_IllegalSize

fun KernelError_code :: "KernelError \<Rightarrow> i32" where
  "KernelError_code KernelError_Error = - 1"
| "KernelError_code KernelError_IllegalExceptionCode = - 50"
| "KernelError_code KernelError_ExceptionHandlerNotInUse = - 51"
| "KernelError_code KernelError_ExceptionHandlerInUse = - 52"
| "KernelError_code KernelError_IllegalContext = - 100"
| "KernelError_code KernelError_IllegalInterruptCode = - 101"
| "KernelError_code KernelError_FoundHandler = - 104"
| "KernelError_code KernelError_HandlerNotFound = - 105"
| "KernelError_code KernelError_IllegalObject = - 201"
| "KernelError_code KernelError_UnknownModule = - 202"
| "KernelError_code KernelError_MemoryInUse = - 205"
| "KernelError_code KernelError_AlreadyStarted = - 206"
| "KernelError_code KernelError_NotStarted = - 207"
| "KernelError_code KernelError_AlreadyStopped = - 208"
| "KernelError_code KernelError_CannotStop = - 209"
| "KernelError_code KernelError_NotStopped = - 210"
| "KernelError_code KernelError_NotRemovable = - 211"
| "KernelError_code KernelError_LibraryFound = - 212"
| "KernelError_code KernelError_LibraryNotFound = - 213"
| "KernelError_code KernelError_IllegalLibrary = - 214"
| "KernelError_code KernelError_LibraryInUse = - 215"
| "KernelError_code KernelError_AlreadyStopping = - 216"
| "KernelError_code KernelError_NoMemory = - 400"
| "KernelError_code KernelError_IllegalAttribute = - 401"
| "KernelError_code KernelError_IllegalEntry = - 402"
| "KernelError_code KernelError_IllegalPriority = - 403"
| "KernelError_code KernelError_IllegalStackSize = - 404"
| "KernelError_code KernelError_IllegalMode = - 405"
| "KernelError_code KernelError_IllegalThreadId = - 406"
| "KernelError_code KernelError_UnknownThreadId = - 407"
| "KernelError_code KernelError_UnknownSemaphoreId = - 408"
| "KernelError_code KernelError_UnknownEventFlagId = - 409"
| "KernelError_code KernelError_UnknownMessageBoxId = - 410"
| "KernelError_code KernelError_UnknownVariablePoolId = - 411"
| "KernelError_code KernelError_UnknownFixedPoolId = - 412"
| "KernelError_code KernelError_Dormant = - 413"
| "KernelError_code KernelError_NotDormant = - 414"
| "KernelError_code KernelError_NotSuspended = - 415"
| "KernelError_code KernelError_NotWaiting = - 416"
| "KernelError_code KernelError_CannotWait = - 417"
| "KernelError_code KernelError_ReleaseWait = - 418"
| "KernelError_code KernelError_SemaphoreZero = - 419"
| "KernelError_code KernelError_SemaphoreOverflow = - 420"
| "KernelError_code KernelError_EventFlagCondition = - 421"
| "KernelError_code KernelError_EventFlagMultiple = - 422"
| "KernelError_code KernelError_EventFlagIllegalPattern = - 423"
| "KernelError_code KernelError_MessageBoxNoMessage = - 424"
| "KernelError_code KernelError_WaitDeleted = - 425"
| "KernelError_code KernelError_IllegalMemoryBlock = - 426"
| "KernelError_code KernelError_IllegalMemorySize = - 427"
| "KernelError_code KernelError_IllegalScratchpadAddress = - 428"
| "KernelError_code KernelError_ScratchpadInUse = - 429"
| "KernelError_code KernelError_ScratchpadNotInUse = - 430"
| "KernelError_code KernelError_IllegalType = - 431"
| "KernelError_code KernelError_IllegalSize = - 432"

datatype IrxErrorKind =
    IrxErrorKind_Truncated
  | IrxErrorKind_InvalidIdentification
  | IrxErrorKind_UnsupportedType u16
  | IrxErrorKind_UnsupportedMachine u16
  | IrxErrorKind_InvalidEntrySize
  | IrxErrorKind_Overflow
  | IrxErrorKind_LimitExceeded string
  | IrxErrorKind_InvalidProgramLayout
  | IrxErrorKind_OverlappingRanges
  | IrxErrorKind_OutOfRange
  | IrxErrorKind_InvalidSection
  | IrxErrorKind_InvalidSymbol
  | IrxErrorKind_UnsupportedRelocation u8
  | IrxErrorKind_MalformedRelocationPair
  | IrxErrorKind_MalformedRelocationChain
  | IrxErrorKind_RelocationOverflow
  | IrxErrorKind_InvalidModuleMetadata
  | IrxErrorKind_InvalidLinkTable
  | IrxErrorKind_InvalidLoadAddress
  | IrxErrorKind_TargetRange
  | IrxErrorKind_Target string

record IrxError =
  irx_origin :: string
  irx_offset :: usize
  irx_kind :: IrxErrorKind

record GuestMemoryError =
  gme_message :: string

datatype BiosError =
    BiosError_GuestMemory string u32 usize GuestMemoryError
  | BiosError_Irx IrxError
  | BiosError_Clock ClockError
  | BiosError_Scheduler SchedulerError
  | BiosError_Kernel KernelError
  | BiosError_UnknownOperation string u16 u32 u32
  | BiosError_InvalidState string

section \<open>Guest ranges\<close>

record GuestRange =
  gr_start :: u32
  gr_end :: u32

definition GuestRange_new :: "u32 \<Rightarrow> u32 \<Rightarrow> GuestRange option" where
  "GuestRange_new start fin =
     (if start \<le> fin then Some \<lparr>gr_start = start, gr_end = fin\<rparr> else None)"

definition GuestRange_contains :: "GuestRange \<Rightarrow> u32 \<Rightarrow> usize \<Rightarrow> bool" where
  "GuestRange_contains self address bytes =
     (case Option.bind (try_from_n 32 bytes) (\<lambda>bytes. checked_add address (of_nat bytes)) of
        None \<Rightarrow> False
      | Some fin \<Rightarrow> gr_start self \<le> address \<and> fin \<le> gr_end self)"

definition GuestRange_validate ::
    "GuestRange \<Rightarrow> u32 \<Rightarrow> usize \<Rightarrow> u32 \<Rightarrow> KernelError + unit" where
  "GuestRange_validate self address bytes alignment =
     (if bytes = 0 then Inl KernelError_IllegalSize
      else if address = 0 \<or> alignment = 0 \<or> \<not> is_power_of_two alignment
            \<or> address mod alignment \<noteq> 0 then Inl KernelError_IllegalObject
      else if \<not> GuestRange_contains self address bytes then Inl KernelError_IllegalObject
      else Inr ())"

lemma GuestRange_contains_iff:
  "GuestRange_contains r a n \<longleftrightarrow>
     unat (gr_start r) \<le> unat a \<and> unat a + n \<le> unat (gr_end r)"
proof (cases "unat a + n < 2 ^ 32")
  case True
  then have n: "unat (of_nat n :: u32) = n"
    by (intro unat_of_nat_small) simp
  then have "unat (a + of_nat n) = unat a + n"
    using True by (subst unat_add_lem [THEN iffD1]) simp_all
  with n True show ?thesis
    by (simp add: GuestRange_contains_def try_from_n_def checked_add_def word_le_nat_alt)
next
  case False
  have "unat (gr_end r) < 2 ^ 32"
    using unsigned_less [of "gr_end r", where ?'a = nat] by simp
  moreover have "\<not> GuestRange_contains r a n"
  proof (cases "n < 2 ^ 32")
    case n: True
    then have "unat (of_nat n :: u32) = n"
      by (intro unat_of_nat_small) simp
    with n False show ?thesis
      by (simp add: GuestRange_contains_def try_from_n_def checked_add_def)
  next
    case False
    then show ?thesis by (simp add: GuestRange_contains_def try_from_n_def)
  qed
  ultimately show ?thesis using False by linarith
qed

lemma GuestRange_validate_ok:
  assumes "GuestRange_validate r a n al = Inr ()"
  shows "0 < n" and "a \<noteq> 0" and "unat (gr_start r) \<le> unat a" and "unat a + n \<le> unat (gr_end r)"
    and "is_power_of_two al" and "unat a mod unat al = 0"
proof -
  have c: "GuestRange_contains r a n" and "0 < n" "a \<noteq> 0" "is_power_of_two al" and m: "a mod al = 0"
    using assms by (auto simp: GuestRange_validate_def split: if_splits)
  then show "0 < n" "a \<noteq> 0" "is_power_of_two al" by blast+
  show "unat (gr_start r) \<le> unat a" "unat a + n \<le> unat (gr_end r)"
    using c by (simp_all add: GuestRange_contains_iff)
  show "unat a mod unat al = 0"
    using m by (simp flip: unat_mod)
qed

section \<open>Guest memory\<close>

record 'm GuestMemory =
  gm_range :: "'m \<Rightarrow> GuestRange"
  gm_read :: "'m \<Rightarrow> u32 \<Rightarrow> usize \<Rightarrow> GuestMemoryError + u8 list"
  gm_write :: "'m \<Rightarrow> u32 \<Rightarrow> u8 list \<Rightarrow> (GuestMemoryError + unit) \<times> 'm"

definition read_guest ::
    "'m GuestMemory \<Rightarrow> 'm \<Rightarrow> u32 \<Rightarrow> usize \<Rightarrow> BiosError + u8 list" where
  "read_guest gm guest address n =
     and_then (map_err BiosError_Kernel (GuestRange_validate (gm_range gm guest) address n 1))
       (\<lambda>_. map_err (BiosError_GuestMemory ''read'' address n) (gm_read gm guest address n))"

definition write_guest ::
    "'m GuestMemory \<Rightarrow> 'm \<Rightarrow> u32 \<Rightarrow> u8 list \<Rightarrow> (BiosError + unit) \<times> 'm" where
  "write_guest gm guest address input =
     (case GuestRange_validate (gm_range gm guest) address (length input) 1 of
        Inl e \<Rightarrow> (Inl (BiosError_Kernel e), guest)
      | Inr _ \<Rightarrow>
          let (r, guest') = gm_write gm guest address input
          in (map_err (BiosError_GuestMemory ''write'' address (length input)) r, guest'))"

definition write_u16 :: "'m GuestMemory \<Rightarrow> 'm \<Rightarrow> u32 \<Rightarrow> u16 \<Rightarrow> (BiosError + unit) \<times> 'm" where
  "write_u16 gm guest address value =
     write_guest gm guest address [byte_of 0 value, byte_of 1 value]"

definition write_u32 :: "'m GuestMemory \<Rightarrow> 'm \<Rightarrow> u32 \<Rightarrow> u32 \<Rightarrow> (BiosError + unit) \<times> 'm" where
  "write_u32 gm guest address value =
     write_guest gm guest address
       [byte_of 0 value, byte_of 1 value, byte_of 2 value, byte_of 3 value]"

end
