(* ===== verification/Fixed_Table.thy ===== *)
theory Fixed_Table
  imports Bios_Types
begin

text \<open>
  The fixed-capacity handle table of the PS2 BIOS services
  (\<open>crates/hle/ps2/bios/src/table.rs\<close>): every kernel object, callback and memory
  block of the services lives in one. The constant generic \<open>N\<close> of the code is the
  length of the boxed slice, which no operation changes. The locale
  \<open>handle_table\<close> is the contract its clients rely on.
\<close>

section \<open>The table\<close>

record 'a FixedTable =
  ft_entries :: "'a option list"
  ft_first_id :: u32
  ft_len :: usize

definition FixedTable_new :: "nat \<Rightarrow> u32 \<Rightarrow> 'a FixedTable" where
  "FixedTable_new N first = \<lparr>ft_entries = replicate N None, ft_first_id = first, ft_len = 0\<rparr>"

definition FixedTable_clear :: "'a FixedTable \<Rightarrow> 'a FixedTable" where
  "FixedTable_clear self =
     self\<lparr>ft_entries := map (\<lambda>_. None) (ft_entries self), ft_len := 0\<rparr>"

definition FixedTable_capacity :: "'a FixedTable \<Rightarrow> usize" where
  "FixedTable_capacity self = length (ft_entries self)"

definition FixedTable_len :: "'a FixedTable \<Rightarrow> usize" where
  "FixedTable_len self = ft_len self"

definition FixedTable_is_empty :: "'a FixedTable \<Rightarrow> bool" where
  "FixedTable_is_empty self \<longleftrightarrow> ft_len self = 0"

definition FixedTable_id_of :: "u32 \<Rightarrow> usize \<Rightarrow> u32 option" where
  "FixedTable_id_of first index =
     Option.bind (try_from_n 32 index) (\<lambda>index. checked_add first (of_nat index))"

definition FixedTable_next_id :: "'a FixedTable \<Rightarrow> u32 option" where
  "FixedTable_next_id self =
     Option.bind (position Option.is_none (ft_entries self)) (FixedTable_id_of (ft_first_id self))"

definition FixedTable_index :: "'a FixedTable \<Rightarrow> u32 \<Rightarrow> usize option" where
  "FixedTable_index self ident =
     Option.bind (checked_sub ident (ft_first_id self))
       (\<lambda>d. if unat d < length (ft_entries self) then Some (unat d) else None)"

definition FixedTable_insert_at ::
    "'a FixedTable \<Rightarrow> u32 \<Rightarrow> 'a \<Rightarrow> (KernelError + unit) \<times> 'a FixedTable" where
  "FixedTable_insert_at self ident value =
     (case FixedTable_index self ident of
        None \<Rightarrow> (Inl KernelError_IllegalObject, self)
      | Some index \<Rightarrow>
          if ft_entries self ! index \<noteq> None then (Inl KernelError_IllegalObject, self)
          else (Inr (), self\<lparr>ft_entries := (ft_entries self)[index := Some value],
                             ft_len := ft_len self + 1\<rparr>))"

definition FixedTable_insert ::
    "'a FixedTable \<Rightarrow> 'a \<Rightarrow> (KernelError + u32) \<times> 'a FixedTable" where
  "FixedTable_insert self value =
     (case FixedTable_next_id self of
        None \<Rightarrow> (Inl KernelError_NoMemory, self)
      | Some ident \<Rightarrow>
          (case FixedTable_insert_at self ident value of
             (Inl e, self') \<Rightarrow> (Inl e, self')
           | (Inr _, self') \<Rightarrow> (Inr ident, self')))"

definition FixedTable_get :: "'a FixedTable \<Rightarrow> u32 \<Rightarrow> 'a option" where
  "FixedTable_get self ident =
     Option.bind (FixedTable_index self ident) (\<lambda>index. ft_entries self ! index)"

text \<open>
  A caller of \<open>get_mut\<close> gets a reference to the entry and writes through it; the
  model takes the write as a function and is \<open>None\<close> where the code returns \<open>None\<close>.
\<close>

definition FixedTable_get_mut ::
    "'a FixedTable \<Rightarrow> u32 \<Rightarrow> ('a \<Rightarrow> 'a) \<Rightarrow> 'a FixedTable option" where
  "FixedTable_get_mut self ident f =
     Option.bind (FixedTable_index self ident)
       (\<lambda>index. map_option
          (\<lambda>v. self\<lparr>ft_entries := (ft_entries self)[index := Some (f v)]\<rparr>)
          (ft_entries self ! index))"

definition FixedTable_remove :: "'a FixedTable \<Rightarrow> u32 \<Rightarrow> 'a option \<times> 'a FixedTable" where
  "FixedTable_remove self ident =
     (case FixedTable_index self ident of
        None \<Rightarrow> (None, self)
      | Some index \<Rightarrow>
          (let removed = ft_entries self ! index;
               self' = self\<lparr>ft_entries := (ft_entries self)[index := None]\<rparr>
           in (removed, if removed \<noteq> None then self'\<lparr>ft_len := ft_len self' - 1\<rparr> else self')))"

definition FixedTable_iter :: "'a FixedTable \<Rightarrow> (u32 \<times> 'a) list" where
  "FixedTable_iter self =
     List.map_filter
       (\<lambda>(index, entry). Option.bind entry (\<lambda>value.
          map_option (\<lambda>ident. (ident, value)) (FixedTable_id_of (ft_first_id self) index)))
       (enumerate 0 (ft_entries self))"

definition FixedTable_iter_mut :: "'a FixedTable \<Rightarrow> (u32 \<Rightarrow> 'a \<Rightarrow> 'a) \<Rightarrow> 'a FixedTable" where
  "FixedTable_iter_mut self f =
     self\<lparr>ft_entries :=
       map (\<lambda>(index, entry). Option.bind entry (\<lambda>value.
              case FixedTable_id_of (ft_first_id self) index of
                None \<Rightarrow> Some value
              | Some ident \<Rightarrow> Some (f ident value)))
           (enumerate 0 (ft_entries self))\<rparr>"

section \<open>Well-formed tables\<close>

text \<open>
  Every slot has a nonzero identifier that fits its type, and \<open>len\<close> counts the
  occupied slots.
\<close>

definition table_ok :: "'a FixedTable \<Rightarrow> bool" where
  "table_ok t \<longleftrightarrow>
     0 < ft_first_id t \<and> unat (ft_first_id t) + length (ft_entries t) \<le> 2 ^ 32 \<and>
     ft_len t = length (filter (\<lambda>e. e \<noteq> None) (ft_entries t))"

lemma table_ok_new: "0 < first \<Longrightarrow> unat first + N \<le> 2 ^ 32 \<Longrightarrow> table_ok (FixedTable_new N first)"
  by (simp add: table_ok_def FixedTable_new_def)

lemma table_ok_first_less: "table_ok t \<Longrightarrow> i < length (ft_entries t) \<Longrightarrow>
    unat (ft_first_id t) + i < 2 ^ 32"
  by (simp add: table_ok_def)

lemma id_of_slot:
  assumes "table_ok t" and "i < length (ft_entries t)"
  shows "FixedTable_id_of (ft_first_id t) i = Some (ft_first_id t + of_nat i)"
    and "unat (ft_first_id t + of_nat i) = unat (ft_first_id t) + i"
proof -
  have l: "unat (ft_first_id t) + i < 2 ^ 32" by (rule table_ok_first_less [OF assms])
  then have i: "unat (of_nat i :: u32) = i" by (intro unat_of_nat_small) simp
  show "unat (ft_first_id t + of_nat i) = unat (ft_first_id t) + i"
    using l i by (subst unat_add_lem [THEN iffD1]) simp_all
  show "FixedTable_id_of (ft_first_id t) i = Some (ft_first_id t + of_nat i)"
    using l i by (simp add: FixedTable_id_of_def try_from_n_def checked_add_def)
qed

lemma index_slot:
  assumes "table_ok t" and "i < length (ft_entries t)"
  shows "FixedTable_index t (ft_first_id t + of_nat i) = Some i"
proof -
  note u = id_of_slot(2) [OF assms]
  have "ft_first_id t \<le> ft_first_id t + of_nat i" by (simp add: word_le_nat_alt u)
  moreover have "unat (ft_first_id t + of_nat i - ft_first_id t) = i"
    using u by (metis add_diff_cancel_left' calculation unat_sub)
  ultimately show ?thesis
    using assms(2) by (simp add: FixedTable_index_def checked_sub_def)
qed

lemma index_SomeD:
  assumes "FixedTable_index t ident = Some i"
  shows "i < length (ft_entries t)" and "ident = ft_first_id t + of_nat i"
    and "unat ident = unat (ft_first_id t) + i"
proof -
  from assms have "ft_first_id t \<le> ident" and i: "unat (ident - ft_first_id t) = i"
    and "i < length (ft_entries t)"
    by (auto simp: FixedTable_index_def checked_sub_def split: if_splits)
  then show "i < length (ft_entries t)" by blast
  show "ident = ft_first_id t + of_nat i" using i by auto
  show "unat ident = unat (ft_first_id t) + i"
    using i \<open>ft_first_id t \<le> ident\<close> by (simp add: unat_sub word_le_nat_alt)
qed

lemma index_cong: "length (ft_entries t) = length (ft_entries t') \<Longrightarrow> ft_first_id t = ft_first_id t'
    \<Longrightarrow> FixedTable_index t = FixedTable_index t'"
  by (rule ext) (simp add: FixedTable_index_def)

lemma index_inj:
  "FixedTable_index t ident = Some i \<Longrightarrow> FixedTable_index t ident' = Some i \<Longrightarrow> ident = ident'"
  by (auto dest!: index_SomeD(2))

lemma get_slot: "table_ok t \<Longrightarrow> i < length (ft_entries t) \<Longrightarrow>
    FixedTable_get t (ft_first_id t + of_nat i) = ft_entries t ! i"
  by (simp add: FixedTable_get_def index_slot)

lemma get_new [simp]: "FixedTable_get (FixedTable_new N first :: 'a FixedTable) ident = None"
proof (cases "FixedTable_index (FixedTable_new N first :: 'a FixedTable) ident")
  case (Some i)
  have "FixedTable_get (FixedTable_new N first :: 'a FixedTable) ident = ft_entries (FixedTable_new N first :: 'a FixedTable) ! i"
    using Some by (simp add: FixedTable_get_def)
  then show ?thesis
    using index_SomeD(1) [OF Some] by (simp add: FixedTable_new_def)
qed (simp add: FixedTable_get_def)

lemma get_clear [simp]: "FixedTable_get (FixedTable_clear t) ident = None"
proof (cases "FixedTable_index (FixedTable_clear t) ident")
  case (Some i)
  have "FixedTable_get (FixedTable_clear t) ident = ft_entries (FixedTable_clear t) ! i"
    using Some by (simp add: FixedTable_get_def)
  then show ?thesis
    using index_SomeD(1) [OF Some] by (simp add: FixedTable_clear_def)
qed (simp add: FixedTable_get_def)

lemma table_ok_clear: "table_ok t \<Longrightarrow> table_ok (FixedTable_clear t)"
  by (simp add: table_ok_def FixedTable_clear_def filter_empty_conv)

lemma get_SomeD:
  "FixedTable_get t h = Some v \<Longrightarrow>
     \<exists>i. FixedTable_index t h = Some i \<and> i < length (ft_entries t) \<and> ft_entries t ! i = Some v"
  by (auto simp: FixedTable_get_def bind_eq_Some_conv dest: index_SomeD(1))

lemma get_nonzero: "table_ok t \<Longrightarrow> FixedTable_get t h = Some v \<Longrightarrow> 0 < h"
  by (auto dest!: get_SomeD index_SomeD(3) simp: table_ok_def word_less_nat_alt)

section \<open>The laws of the operations\<close>

lemma count_update:
  "i < length xs \<Longrightarrow> length (filter P (xs[i := x])) + (if P (xs ! i) then 1 else 0) =
     length (filter P xs) + (if P x then 1 else 0)"
proof (induction xs arbitrary: i)
  case (Cons y ys)
  then show ?case by (cases i) auto
qed simp

lemma get_entry_update:
  assumes "FixedTable_index t h = Some i"
  shows "FixedTable_get (t\<lparr>ft_entries := (ft_entries t)[i := x], ft_len := n\<rparr>) =
    (FixedTable_get t)(h := x)"
proof
  fix k
  let ?t = "t\<lparr>ft_entries := (ft_entries t)[i := x], ft_len := n\<rparr>"
  have ix: "FixedTable_index ?t = FixedTable_index t" by (rule index_cong) simp_all
  show "FixedTable_get ?t k = ((FixedTable_get t)(h := x)) k"
  proof (cases "FixedTable_index t k")
    case None
    with assms have "k \<noteq> h" by auto
    with None show ?thesis by (simp add: FixedTable_get_def ix)
  next
    case (Some j)
    show ?thesis
    proof (cases "k = h")
      case True
      with Some assms have "j = i" by simp
      with True assms index_SomeD(1) [OF assms] show ?thesis by (simp add: FixedTable_get_def ix)
    next
      case False
      with Some assms have "j \<noteq> i" by (auto dest: index_inj)
      with False Some show ?thesis by (simp add: FixedTable_get_def ix)
    qed
  qed
qed

lemma next_id_None_iff:
  "table_ok t \<Longrightarrow> FixedTable_next_id t = None \<longleftrightarrow> (\<forall>e\<in>set (ft_entries t). e \<noteq> None)"
proof (cases "position Option.is_none (ft_entries t)")
  case None
  then have "\<forall>e\<in>set (ft_entries t). e \<noteq> None"
    by (auto simp: position_None_iff Option.is_none_def)
  with None show ?thesis by (simp add: FixedTable_next_id_def)
next
  case (Some i)
  assume ok: "table_ok t"
  from position_SomeD [OF Some] have i: "i < length (ft_entries t)" "ft_entries t ! i = None"
    by (auto simp: Option.is_none_def)
  then have "None \<in> set (ft_entries t)" by (metis nth_mem)
  with Some i ok show ?thesis by (auto simp: FixedTable_next_id_def id_of_slot(1))
qed

lemma next_id_SomeD:
  assumes "table_ok t" and "FixedTable_next_id t = Some h"
  shows "\<exists>i. FixedTable_index t h = Some i \<and> ft_entries t ! i = None
    \<and> (\<forall>j<i. ft_entries t ! j \<noteq> None)"
proof -
  from assms(2) obtain i where i: "position Option.is_none (ft_entries t) = Some i"
    and h: "FixedTable_id_of (ft_first_id t) i = Some h"
    by (auto simp: FixedTable_next_id_def bind_eq_Some_conv)
  from position_SomeD [OF i] have "i < length (ft_entries t)" "ft_entries t ! i = None"
    and "\<forall>j<i. ft_entries t ! j \<noteq> None"
    by (auto simp: Option.is_none_def)
  with h assms(1) show ?thesis by (intro exI [of _ i]) (simp add: id_of_slot(1) index_slot [symmetric])
qed

lemma insert_at_Inr:
  assumes "table_ok t" and "FixedTable_insert_at t h v = (Inr (), t')"
  shows "FixedTable_get t h = None" and "FixedTable_get t' = (FixedTable_get t)(h \<mapsto> v)"
    and "table_ok t'"
proof -
  from assms(2) obtain i where i: "FixedTable_index t h = Some i" and n: "ft_entries t ! i = None"
    and t': "t' = t\<lparr>ft_entries := (ft_entries t)[i := Some v], ft_len := ft_len t + 1\<rparr>"
    by (auto simp: FixedTable_insert_at_def split: option.splits if_splits)
  show "FixedTable_get t h = None" using i n by (simp add: FixedTable_get_def)
  show "FixedTable_get t' = (FixedTable_get t)(h \<mapsto> v)"
    unfolding t' by (rule get_entry_update [OF i])
  show "table_ok t'"
    using assms(1) n count_update [OF index_SomeD(1) [OF i], of "\<lambda>e. e \<noteq> None" "Some v"]
    by (simp add: table_ok_def t')
qed

lemma insert_at_Inl: "FixedTable_insert_at t h v = (Inl e, t') \<Longrightarrow>
    t' = t \<and> e = KernelError_IllegalObject"
  by (auto simp: FixedTable_insert_at_def split: option.splits if_splits)

lemma insert_conv:
  assumes "table_ok t"
  shows "FixedTable_insert t v =
    (case FixedTable_next_id t of
       None \<Rightarrow> (Inl KernelError_NoMemory, t)
     | Some h \<Rightarrow> (Inr h, snd (FixedTable_insert_at t h v)))"
  using next_id_SomeD [OF assms]
  by (cases "FixedTable_next_id t")
    (auto simp: FixedTable_insert_def FixedTable_insert_at_def)

lemma insert_Inr:
  assumes "table_ok t" and "FixedTable_insert t v = (Inr h, t')"
  shows "FixedTable_next_id t = Some h" and "FixedTable_get t h = None"
    and "FixedTable_get t' = (FixedTable_get t)(h \<mapsto> v)" and "table_ok t'"
proof -
  from assms show n: "FixedTable_next_id t = Some h"
    by (simp add: insert_conv split: option.splits)
  have "FixedTable_insert_at t h v = (Inr (), t')"
    using next_id_SomeD [OF assms(1) n] assms(2) n
    by (auto simp: insert_conv [OF assms(1)] FixedTable_insert_at_def)
  from insert_at_Inr [OF assms(1) this]
  show "FixedTable_get t h = None" "FixedTable_get t' = (FixedTable_get t)(h \<mapsto> v)" "table_ok t'"
    by blast+
qed

lemma insert_Inl:
  assumes "table_ok t" and "FixedTable_insert t v = (Inl e, t')"
  shows "FixedTable_next_id t = None" and "e = KernelError_NoMemory" and "t' = t"
  using assms by (auto simp: insert_conv split: option.splits)

lemma remove_laws:
  assumes "table_ok t" and "FixedTable_remove t h = (r, t')"
  shows "r = FixedTable_get t h" and "FixedTable_get t' = (FixedTable_get t)(h := None)"
    and "table_ok t'"
proof -
  have all: "r = FixedTable_get t h \<and> FixedTable_get t' = (FixedTable_get t)(h := None) \<and> table_ok t'"
  proof (cases "FixedTable_index t h")
    case None
    with assms show ?thesis by (auto simp: FixedTable_remove_def FixedTable_get_def fun_eq_iff)
  next
    case (Some i)
    let ?n = "if ft_entries t ! i \<noteq> None then ft_len t - 1 else ft_len t"
    have r: "r = ft_entries t ! i"
      and t': "t' = t\<lparr>ft_entries := (ft_entries t)[i := None], ft_len := ?n\<rparr>"
      using assms(2) Some by (auto simp: FixedTable_remove_def Let_def)
    have "FixedTable_get t' = (FixedTable_get t)(h := None)"
      unfolding t' by (rule get_entry_update [OF Some])
    moreover have "table_ok t'"
      using assms(1) count_update [OF index_SomeD(1) [OF Some], of "\<lambda>e. e \<noteq> None" None]
      by (auto simp: table_ok_def t' split: if_splits)
    ultimately show ?thesis using r Some by (simp add: FixedTable_get_def)
  qed
  then show "r = FixedTable_get t h" "FixedTable_get t' = (FixedTable_get t)(h := None)" "table_ok t'"
    by blast+
qed

lemma get_mut_Some:
  assumes "table_ok t" and "FixedTable_get_mut t h f = Some t'"
  shows "\<exists>v. FixedTable_get t h = Some v \<and> FixedTable_get t' = (FixedTable_get t)(h \<mapsto> f v)"
    and "table_ok t'"
proof -
  from assms(2) obtain i v where i: "FixedTable_index t h = Some i"
    and v: "ft_entries t ! i = Some v"
    and t': "t' = t\<lparr>ft_entries := (ft_entries t)[i := Some (f v)], ft_len := ft_len t\<rparr>"
    by (auto simp: FixedTable_get_mut_def bind_eq_Some_conv)
  show "\<exists>v. FixedTable_get t h = Some v \<and> FixedTable_get t' = (FixedTable_get t)(h \<mapsto> f v)"
    using get_entry_update [OF i, where x = "Some (f v)" and n = "ft_len t"] i v unfolding t'
    by (intro exI [of _ v]) (simp add: FixedTable_get_def)
  show "table_ok t'"
    using assms(1) v count_update [OF index_SomeD(1) [OF i], of "\<lambda>e. e \<noteq> None" "Some (f v)"]
    by (simp add: table_ok_def t')
qed

lemma get_mut_None_iff: "FixedTable_get_mut t h f = None \<longleftrightarrow> FixedTable_get t h = None"
  by (auto simp: FixedTable_get_mut_def FixedTable_get_def bind_eq_None_conv split: option.splits)

section \<open>Iteration\<close>

lemma enumerate_conv: "enumerate 0 xs = map (\<lambda>i. (i, xs ! i)) [0..<length xs]"
  by (rule nth_equalityI) (simp_all add: nth_enumerate_eq)

lemma iter_conv:
  assumes "table_ok t"
  shows "FixedTable_iter t =
    map (\<lambda>i. (ft_first_id t + of_nat i, the (ft_entries t ! i)))
      (filter (\<lambda>i. ft_entries t ! i \<noteq> None) [0..<length (ft_entries t)])"
proof -
  show ?thesis
    unfolding FixedTable_iter_def map_filter_def enumerate_conv filter_map map_map o_def
    by (rule map_cong, rule filter_cong) (auto simp: id_of_slot(1) [OF assms] bind_eq_Some_conv)
qed

lemma iter_set: "table_ok t \<Longrightarrow> set (FixedTable_iter t) = {(h, v). FixedTable_get t h = Some v}"
  by (fastforce simp: iter_conv get_slot dest!: get_SomeD dest: index_SomeD(2))

lemma iter_sorted:
  assumes "table_ok t"
  shows "sorted_wrt (<) (map fst (FixedTable_iter t))"
proof -
  let ?P = "\<lambda>i. ft_entries t ! i \<noteq> None" and ?N = "length (ft_entries t)"
  have "sorted_wrt (<) (filter ?P [0..<?N])"
    by (intro sorted_wrt_filter) (simp add: sorted_wrt_upt)
  then have "sorted_wrt (\<lambda>i j. ft_first_id t + of_nat i < ft_first_id t + of_nat j)
      (filter ?P [0..<?N])"
    by (rule sorted_wrt_mono_rel [rotated]) (simp add: word_less_nat_alt id_of_slot(2) [OF assms])
  then show ?thesis by (simp add: iter_conv [OF assms] sorted_wrt_map o_def)
qed

lemma iter_distinct: "table_ok t \<Longrightarrow> distinct (map fst (FixedTable_iter t))"
  using iter_sorted [of t] by (simp add: strict_sorted_iff)

lemma iter_length: "table_ok t \<Longrightarrow> length (FixedTable_iter t) = FixedTable_len t"
proof -
  have "length (filter (\<lambda>i. xs ! i \<noteq> None) [0..<length xs]) = length (filter (\<lambda>e. e \<noteq> None) xs)"
    for xs :: "'b option list"
    by (subst (5) map_nth [symmetric]) (simp only: filter_map length_map o_def)
  then show "table_ok t \<Longrightarrow> length (FixedTable_iter t) = FixedTable_len t"
    by (simp add: iter_conv FixedTable_len_def table_ok_def)
qed

lemma iter_mut_laws:
  assumes "table_ok t"
  shows "FixedTable_get (FixedTable_iter_mut t f) = (\<lambda>h. map_option (f h) (FixedTable_get t h))"
    and "table_ok (FixedTable_iter_mut t f)"
proof -
  let ?t = "FixedTable_iter_mut t f"
  have e: "ft_entries ?t ! i = map_option (f (ft_first_id t + of_nat i)) (ft_entries t ! i)"
    if "i < length (ft_entries t)" for i
    using that id_of_slot(1) [OF assms that]
    by (cases "ft_entries t ! i") (simp_all add: FixedTable_iter_mut_def nth_enumerate_eq)
  have l: "length (ft_entries ?t) = length (ft_entries t)" "ft_first_id ?t = ft_first_id t"
    "ft_len ?t = ft_len t"
    by (simp_all add: FixedTable_iter_mut_def)
  have ix: "FixedTable_index ?t = FixedTable_index t" by (rule index_cong) (simp_all add: l)
  show "FixedTable_get ?t = (\<lambda>h. map_option (f h) (FixedTable_get t h))"
  proof
    fix h
    show "FixedTable_get ?t h = map_option (f h) (FixedTable_get t h)"
    proof (cases "FixedTable_index t h")
      case (Some i)
      with e [OF index_SomeD(1) [OF Some]] show ?thesis
        by (simp add: FixedTable_get_def ix index_SomeD(2) [OF Some])
    qed (simp add: FixedTable_get_def ix)
  qed
  have "length (filter (\<lambda>e. e \<noteq> None) (ft_entries ?t)) =
      length (filter (\<lambda>e. e \<noteq> None) (ft_entries t))"
  proof -
    have "map (\<lambda>e. e \<noteq> None) (ft_entries ?t) = map (\<lambda>e. e \<noteq> None) (ft_entries t)"
      by (rule nth_equalityI) (simp_all add: l e)
    then have "length (filter (\<lambda>b. b) (map (\<lambda>e. e \<noteq> None) (ft_entries ?t))) =
        length (filter (\<lambda>b. b) (map (\<lambda>e. e \<noteq> None) (ft_entries t)))"
      by (rule arg_cong)
    then show ?thesis by (simp only: filter_map length_map o_def)
  qed
  then show "table_ok ?t" using assms by (simp add: table_ok_def l)
qed

section \<open>The contract of a handle table\<close>

datatype 'a table_op = Table_Insert 'a | Table_Remove u32

text \<open>Runs of operations; a failed insertion leaves the run going.\<close>

fun table_run ::
    "('t \<Rightarrow> 'a \<Rightarrow> (KernelError + u32) \<times> 't) \<Rightarrow> ('t \<Rightarrow> u32 \<Rightarrow> 'a option \<times> 't) \<Rightarrow>
     'a table_op list \<Rightarrow> 't \<Rightarrow> 't" where
  "table_run ins del [] t = t"
| "table_run ins del (Table_Insert v # ops) t = table_run ins del ops (snd (ins t v))"
| "table_run ins del (Table_Remove h # ops) t = table_run ins del ops (snd (del t h))"

locale handle_table =
  fixes valid :: "'t \<Rightarrow> bool"
    and lookup :: "'t \<Rightarrow> u32 \<Rightarrow> 'a option"
    and ins :: "'t \<Rightarrow> 'a \<Rightarrow> (KernelError + u32) \<times> 't"
    and del :: "'t \<Rightarrow> u32 \<Rightarrow> 'a option \<times> 't"
  assumes ins_Inr: "valid t \<Longrightarrow> ins t v = (Inr h, t') \<Longrightarrow>
      lookup t h = None \<and> lookup t' = (lookup t)(h \<mapsto> v) \<and> valid t'"
    and ins_Inl: "valid t \<Longrightarrow> ins t v = (Inl e, t') \<Longrightarrow> t' = t"
    and del_ok: "valid t \<Longrightarrow> del t h = (r, t') \<Longrightarrow>
      r = lookup t h \<and> lookup t' = (lookup t)(h := None) \<and> valid t'"
begin

lemma ins_keeps:
  "valid t \<Longrightarrow> lookup t h = Some v \<Longrightarrow> lookup (snd (ins t w)) h = Some v \<and> valid (snd (ins t w))"
proof (cases "ins t w")
  assume t: "valid t" "lookup t h = Some v"
  case (Pair r t')
  show ?thesis
  proof (cases r)
    case (Inl e)
    with Pair ins_Inl [OF t(1), of w e t'] t show ?thesis by simp
  next
    case (Inr k)
    with Pair ins_Inr [OF t(1), of w k t'] t show ?thesis by auto
  qed
qed

lemma del_keeps:
  "valid t \<Longrightarrow> lookup t h = Some v \<Longrightarrow> h \<noteq> k \<Longrightarrow>
     lookup (snd (del t k)) h = Some v \<and> valid (snd (del t k))"
  by (cases "del t k") (auto dest: del_ok)

lemma run_keeps:
  "valid t \<Longrightarrow> lookup t h = Some v \<Longrightarrow> Table_Remove h \<notin> set ops \<Longrightarrow>
     lookup (table_run ins del ops t) h = Some v \<and> valid (table_run ins del ops t)"
proof (induction ops arbitrary: t)
  case (Cons x ops)
  then show ?case by (cases x) (auto dest: ins_keeps del_keeps)
qed simp

lemma inserted_stable:
  assumes "valid t" and "ins t v = (Inr h, t')" and "Table_Remove h \<notin> set ops"
  shows "lookup t h = None \<and> lookup (table_run ins del ops t') h = Some v
    \<and> valid (table_run ins del ops t')"
  using ins_Inr [OF assms(1,2)] run_keeps [OF _ _ assms(3), of t' v] by auto

end

interpretation fixed_table: handle_table table_ok FixedTable_get FixedTable_insert FixedTable_remove
  by unfold_locales (auto dest: insert_Inr insert_Inl remove_laws)

text \<open>
  C24. Handles are stable: a successful insertion returns the lowest free
  identifier, never zero and never one that is in use, and that identifier names
  the inserted object after any run of further insertions and removals that does
  not remove it. An insertion fails exactly when every slot is occupied, and then
  changes nothing.
\<close>
theorem table_handles_stable:
  assumes "table_ok t" and "Table_Remove h \<notin> set ops"
  shows "case FixedTable_insert t v of
      (Inl e, t') \<Rightarrow> e = KernelError_NoMemory \<and> t' = t
        \<and> (\<forall>i < FixedTable_capacity t. FixedTable_get t (ft_first_id t + of_nat i) \<noteq> None)
    | (Inr k, t') \<Rightarrow> 0 < k \<and> FixedTable_get t k = None
        \<and> (\<forall>j. ft_first_id t \<le> j \<and> j < k \<longrightarrow> FixedTable_get t j \<noteq> None)
        \<and> (k = h \<longrightarrow>
             FixedTable_get (table_run FixedTable_insert FixedTable_remove ops t') k = Some v)"
proof (cases "FixedTable_insert t v")
  case (Pair r t')
  show ?thesis
  proof (cases r)
    case (Inl e)
    with insert_Inl [OF assms(1), of v e t'] Pair
    have "FixedTable_next_id t = None" "e = KernelError_NoMemory" "t' = t" by simp_all
    then show ?thesis
      using Pair Inl assms(1)
      by (simp add: next_id_None_iff FixedTable_capacity_def get_slot)
  next
    case (Inr k)
    with Pair have run: "FixedTable_insert t v = (Inr k, t')" by simp
    from next_id_SomeD [OF assms(1) insert_Inr(1) [OF assms(1) run]] obtain i
      where i: "FixedTable_index t k = Some i" and low: "\<forall>j<i. ft_entries t ! j \<noteq> None" by blast
    have "FixedTable_get t j \<noteq> None" if j: "ft_first_id t \<le> j" "j < k" for j
    proof -
      define d where "d = unat (j - ft_first_id t)"
      have "d < i" using j index_SomeD(3) [OF i]
        by (simp add: d_def unat_sub word_le_nat_alt word_less_nat_alt)
      moreover have "FixedTable_index t j = Some d"
        using j(1) \<open>d < i\<close> index_SomeD(1) [OF i]
        by (simp add: FixedTable_index_def checked_sub_def d_def)
      ultimately show ?thesis using low by (auto simp: FixedTable_get_def)
    qed
    moreover have "0 < k"
      using index_SomeD(3) [OF i] assms(1) by (simp add: table_ok_def word_less_nat_alt)
    moreover have "k = h \<Longrightarrow>
        FixedTable_get (table_run FixedTable_insert FixedTable_remove ops t') k = Some v"
      using fixed_table.inserted_stable [OF assms(1) run, of ops] assms(2) by blast
    ultimately show ?thesis
      using run insert_Inr(2) [OF assms(1) run] by simp
  qed
qed

lemma table_handles_stable_witness:
  "let t = snd (FixedTable_insert (FixedTable_new 2 1) (5::nat)) in
     fst (FixedTable_insert t 6) = Inr 2
     \<and> FixedTable_get (table_run FixedTable_insert FixedTable_remove
          [Table_Remove 1, Table_Insert 7] (snd (FixedTable_insert t 6))) 2 = Some 6"
proof -
  define t where "t = snd (FixedTable_insert (FixedTable_new 2 1) (5::nat))"
  have new: "FixedTable_new 2 1 =
      \<lparr>ft_entries = [None, None :: nat option], ft_first_id = 1, ft_len = 0\<rparr>"
    by (simp add: FixedTable_new_def numeral_2_eq_2)
  have t: "t = \<lparr>ft_entries = [Some 5, None], ft_first_id = 1, ft_len = 1\<rparr>"
    by (simp add: t_def new FixedTable_insert_def FixedTable_insert_at_def
        FixedTable_next_id_def FixedTable_index_def FixedTable_id_of_def try_from_n_def
        checked_add_def checked_sub_def)
  have ok: "table_ok t"
    by (simp add: t table_ok_def)
  have r: "fst (FixedTable_insert t 6) = Inr 2"
    by (simp add: t FixedTable_insert_def FixedTable_insert_at_def
        FixedTable_next_id_def FixedTable_index_def FixedTable_id_of_def try_from_n_def
        checked_add_def checked_sub_def)
  then obtain t' where p: "FixedTable_insert t 6 = (Inr 2, t')" by (cases "FixedTable_insert t 6") auto
  have "Table_Remove 2 \<notin> set [Table_Remove 1, Table_Insert (7::nat)]" by simp
  from table_handles_stable [OF ok this, of 6]
  have "FixedTable_get (table_run FixedTable_insert FixedTable_remove
          [Table_Remove 1, Table_Insert 7] t') 2 = Some 6"
    unfolding p prod.case sum.case by blast
  then show ?thesis
    unfolding Let_def t_def [symmetric] p fst_conv snd_conv by blast
qed

end
