(* ===== verification/Sys_Memory.thy ===== *)
theory Sys_Memory
  imports Fixed_Table "HOL-Library.Multiset"
begin

text \<open>
  The IOP system-memory allocator (\<open>crates/hle/ps2/bios/src/allocator.rs\<close>):
  first-fit, last-fit and exact placement in one quantum-aligned arena, with
  its live blocks in a handle table of 256 slots. The scan of \<open>maximum_free\<close> is a
  loop that only the allocator's invariant ends, so it is a partial function
  whose termination is a theorem.
\<close>

section \<open>The allocator\<close>

definition SYSMEM_QUANTUM :: u32 where "SYSMEM_QUANTUM = 256"
definition DEFAULT_ALLOCATION_CAPACITY :: usize where "DEFAULT_ALLOCATION_CAPACITY = 256"
definition MAX_ALLOCATIONS :: usize where "MAX_ALLOCATIONS = DEFAULT_ALLOCATION_CAPACITY"

datatype AllocationMode =
    AllocationMode_First
  | AllocationMode_Last
  | AllocationMode_Address

definition AllocationMode_try_from :: "u32 \<Rightarrow> KernelError + AllocationMode" where
  "AllocationMode_try_from value =
     (if value = 0 then Inr AllocationMode_First
      else if value = 1 then Inr AllocationMode_Last
      else if value = 2 then Inr AllocationMode_Address
      else Inl KernelError_IllegalType)"

record Allocation =
  al_address :: u32
  al_size :: u32
  al_requested_size :: u32
  al_alignment :: u32

definition Allocation_end :: "Allocation \<Rightarrow> u32" where
  "Allocation_end self = al_address self + al_size self"

record SystemMemory =
  sm_start :: u32
  sm_end :: u32
  sm_allocations :: "Allocation FixedTable"

definition SystemMemory_new :: "u32 \<Rightarrow> u32 \<Rightarrow> KernelError + SystemMemory" where
  "SystemMemory_new start fin =
     (if start = 0 \<or> fin \<le> start \<or> start mod SYSMEM_QUANTUM \<noteq> 0 \<or> fin mod SYSMEM_QUANTUM \<noteq> 0
      then Inl KernelError_IllegalObject
      else Inr \<lparr>sm_start = start, sm_end = fin,
                sm_allocations = FixedTable_new MAX_ALLOCATIONS 1\<rparr>)"

definition SystemMemory_reset :: "SystemMemory \<Rightarrow> SystemMemory" where
  "SystemMemory_reset self = self\<lparr>sm_allocations := FixedTable_clear (sm_allocations self)\<rparr>"

definition SystemMemory_range :: "SystemMemory \<Rightarrow> u32 \<times> u32" where
  "SystemMemory_range self = (sm_start self, sm_end self)"

definition align_up :: "u32 \<Rightarrow> u32 \<Rightarrow> u32 option" where
  "align_up value alignment =
     map_option (\<lambda>value. value AND NOT (alignment - 1)) (checked_add value (alignment - 1))"

definition align_down :: "u32 \<Rightarrow> u32 \<Rightarrow> u32" where
  "align_down value alignment = value AND NOT (alignment - 1)"

definition sysmem_live :: "SystemMemory \<Rightarrow> Allocation list" where
  "sysmem_live self = map snd (FixedTable_iter (sm_allocations self))"

definition SystemMemory_allocations :: "SystemMemory \<Rightarrow> Allocation list" where
  "SystemMemory_allocations self = sort_key al_address (sysmem_live self)"

fun find_first_loop ::
    "u32 \<Rightarrow> u32 \<Rightarrow> u32 \<Rightarrow> Allocation list \<Rightarrow> u32 \<Rightarrow> u32 option" where
  "find_first_loop size' alignment fin [] cursor =
     Option.bind (checked_add cursor size') (\<lambda>e. if e \<le> fin then Some cursor else None)"
| "find_first_loop size' alignment fin (allocation # rest) cursor =
     Option.bind (checked_add cursor size') (\<lambda>e.
       if e \<le> al_address allocation then Some cursor
       else Option.bind (align_up (max cursor (Allocation_end allocation)) alignment)
              (find_first_loop size' alignment fin rest))"

definition SystemMemory_find_first :: "SystemMemory \<Rightarrow> u32 \<Rightarrow> u32 \<Rightarrow> u32 option" where
  "SystemMemory_find_first self size' alignment =
     Option.bind (align_up (sm_start self) alignment)
       (find_first_loop size' alignment (sm_end self) (SystemMemory_allocations self))"

fun find_last_loop ::
    "u32 \<Rightarrow> u32 \<Rightarrow> u32 \<Rightarrow> Allocation list \<Rightarrow> u32 \<Rightarrow> u32 option" where
  "find_last_loop size' alignment start [] boundary =
     Option.bind (map_option (\<lambda>b. align_down b alignment) (checked_sub boundary size'))
       (\<lambda>candidate. if start \<le> candidate then Some candidate else None)"
| "find_last_loop size' alignment start (allocation # rest) boundary =
     Option.bind (map_option (\<lambda>b. align_down b alignment) (checked_sub boundary size'))
       (\<lambda>candidate.
         if Allocation_end allocation \<le> candidate then Some candidate
         else find_last_loop size' alignment start rest (min boundary (al_address allocation)))"

definition SystemMemory_find_last :: "SystemMemory \<Rightarrow> u32 \<Rightarrow> u32 \<Rightarrow> u32 option" where
  "SystemMemory_find_last self size' alignment =
     find_last_loop size' alignment (sm_start self)
       (rev (SystemMemory_allocations self)) (sm_end self)"

definition SystemMemory_is_free :: "SystemMemory \<Rightarrow> u32 \<Rightarrow> u32 \<Rightarrow> bool" where
  "SystemMemory_is_free self address size' =
     (case checked_add address size' of
        None \<Rightarrow> False
      | Some e \<Rightarrow> sm_start self \<le> address \<and> e \<le> sm_end self
          \<and> list_all (\<lambda>a. e \<le> al_address a \<or> Allocation_end a \<le> address) (sysmem_live self))"

definition SystemMemory_allocate_aligned ::
    "SystemMemory \<Rightarrow> AllocationMode \<Rightarrow> u32 \<Rightarrow> u32 \<Rightarrow> u32 \<Rightarrow>
     (KernelError + Allocation) \<times> SystemMemory" where
  "SystemMemory_allocate_aligned self mode size' address alignment =
     (if size' = 0 then (Inl KernelError_IllegalSize, self)
      else if alignment < SYSMEM_QUANTUM \<or> \<not> is_power_of_two alignment
        then (Inl KernelError_IllegalObject, self)
      else if FixedTable_next_id (sm_allocations self) = None
        then (Inl KernelError_NoMemory, self)
      else
        (case align_up size' SYSMEM_QUANTUM of
           None \<Rightarrow> (Inl KernelError_IllegalSize, self)
         | Some reserved \<Rightarrow>
             if mode = AllocationMode_Address \<and> address mod alignment \<noteq> 0
             then (Inl KernelError_IllegalObject, self)
             else
               (case (case mode of
                   AllocationMode_First \<Rightarrow> SystemMemory_find_first self reserved alignment
                 | AllocationMode_Last \<Rightarrow> SystemMemory_find_last self reserved alignment
                 | AllocationMode_Address \<Rightarrow>
                     if SystemMemory_is_free self address reserved then Some address else None) of
                  None \<Rightarrow> (Inl KernelError_NoMemory, self)
                | Some selected \<Rightarrow>
                    (let allocation = \<lparr>al_address = selected, al_size = reserved,
                           al_requested_size = size', al_alignment = alignment\<rparr>
                     in case FixedTable_insert (sm_allocations self) allocation of
                          (Inl e, t) \<Rightarrow> (Inl e, self\<lparr>sm_allocations := t\<rparr>)
                        | (Inr _, t) \<Rightarrow> (Inr allocation, self\<lparr>sm_allocations := t\<rparr>)))))"

definition SystemMemory_allocate ::
    "SystemMemory \<Rightarrow> AllocationMode \<Rightarrow> u32 \<Rightarrow> u32 \<Rightarrow>
     (KernelError + Allocation) \<times> SystemMemory" where
  "SystemMemory_allocate self mode size' address =
     SystemMemory_allocate_aligned self mode size' address SYSMEM_QUANTUM"

definition SystemMemory_free ::
    "SystemMemory \<Rightarrow> u32 \<Rightarrow> (KernelError + Allocation) \<times> SystemMemory" where
  "SystemMemory_free self address =
     (case find (\<lambda>(_, a). al_address a = address) (FixedTable_iter (sm_allocations self)) of
        None \<Rightarrow> (Inl KernelError_IllegalObject, self)
      | Some (ident, _) \<Rightarrow>
          (let (removed, t) = FixedTable_remove (sm_allocations self) ident
           in (ok_or removed KernelError_IllegalObject, self\<lparr>sm_allocations := t\<rparr>)))"

definition SystemMemory_block :: "SystemMemory \<Rightarrow> u32 \<Rightarrow> Allocation option" where
  "SystemMemory_block self address =
     find (\<lambda>a. al_address a = address) (sysmem_live self)"

definition SystemMemory_memory_size :: "SystemMemory \<Rightarrow> u32" where
  "SystemMemory_memory_size self = sm_end self - sm_start self"

definition SystemMemory_total_free :: "SystemMemory \<Rightarrow> u32" where
  "SystemMemory_total_free self =
     SystemMemory_memory_size self - sum_list (map al_size (sysmem_live self))"

partial_function (option) maximum_free_loop ::
    "u32 \<Rightarrow> Allocation list \<Rightarrow> u32 \<Rightarrow> u32 \<Rightarrow> u32 option" where
  "maximum_free_loop fin live cursor maximum =
     (if fin \<le> cursor then Some maximum
      else case min_by_key al_address (filter (\<lambda>a. cursor \<le> al_address a) live) of
             Some a \<Rightarrow>
               maximum_free_loop fin live (Allocation_end a) (max maximum (al_address a - cursor))
           | None \<Rightarrow> Some (max maximum (fin - cursor)))"

definition SystemMemory_maximum_free :: "SystemMemory \<Rightarrow> u32 option" where
  "SystemMemory_maximum_free self =
     maximum_free_loop (sm_end self) (sysmem_live self) (sm_start self) 0"

section \<open>Alignment\<close>

lemma unat_mask_down:
  "k < 32 \<Longrightarrow> unat (v AND NOT (2 ^ k - 1)) = unat v div 2 ^ k * 2 ^ k" for v :: u32
  by (rule word_and_not_mask) simp

lemma multiple_between:
  fixes v x p :: nat
  assumes "x mod p = 0" and "v \<le> x" and "0 < p"
  shows "(v + (p - 1)) div p * p \<le> x"
proof -
  obtain q where x: "x = q * p" using assms(1) by (metis mod_0_imp_dvd dvd_div_mult_self)
  have "(v + (p - 1)) div p \<le> (q * p + (p - 1)) div p"
    using assms(2) x by (intro div_le_mono) simp
  also have "\<dots> = q" using assms(3) by (subst div_mult_self3) simp_all
  finally show ?thesis unfolding x by (rule mult_le_mono1)
qed

lemma unat_two_power_minus_one: "k < 32 \<Longrightarrow> unat ((2::u32) ^ k - 1) = 2 ^ k - 1"
proof -
  assume k: "k < 32"
  then have "unat ((2::u32) ^ k) = 2 ^ k" by (intro unat_two_power) simp
  moreover then have "(1::u32) \<le> 2 ^ k" by (simp add: word_le_nat_alt)
  ultimately show ?thesis by (simp add: unat_sub)
qed

lemma align_up_Some:
  fixes x :: u32
  assumes "k < 32" and "align_up v (2 ^ k) = Some w"
  shows "unat w mod 2 ^ k = 0" and "unat v \<le> unat w"
    and "unat x mod 2 ^ k = 0 \<Longrightarrow> unat v \<le> unat x \<Longrightarrow> unat w \<le> unat x"
    and "unat w < unat v + 2 ^ k"
proof -
  have p: "(0::nat) < 2 ^ k" by simp
  from assms(2) obtain s where s: "checked_add v (2 ^ k - 1) = Some s"
    and w: "w = s AND NOT (2 ^ k - 1)"
    by (auto simp: align_up_def)
  have us: "unat s = unat v + (2 ^ k - 1)"
    using checked_add_SomeD [OF s] unat_two_power_minus_one [OF assms(1)] by simp
  have uw: "unat w = (unat v + (2 ^ k - 1)) div 2 ^ k * 2 ^ k"
    unfolding w unat_mask_down [OF assms(1)] us ..
  show "unat w mod 2 ^ k = 0" by (simp add: uw)
  have "unat v + (2 ^ k - 1) < unat w + 2 ^ k"
    unfolding uw using mod_less_divisor [OF p] div_mult_mod_eq [of "unat v + (2 ^ k - 1)" "2 ^ k"]
    by (metis add.commute add_less_cancel_left)
  then show "unat v \<le> unat w" using p by linarith
  show "unat x mod 2 ^ k = 0 \<Longrightarrow> unat v \<le> unat x \<Longrightarrow> unat w \<le> unat x"
    unfolding uw by (rule multiple_between) simp_all
  have "unat w \<le> unat v + (2 ^ k - 1)" unfolding uw by (rule div_times_less_eq_dividend)
  then show "unat w < unat v + 2 ^ k" using p by linarith
qed

lemma align_up_None:
  fixes x :: u32
  assumes "k < 32" and "align_up v (2 ^ k) = None"
    and "unat x mod 2 ^ k = 0" and "unat v \<le> unat x"
  shows False
proof -
  have "2 ^ 32 \<le> unat v + (2 ^ k - 1)"
    using assms(2) unat_two_power_minus_one [OF assms(1)]
    by (simp add: align_up_def checked_add_None_iff)
  moreover have "(2::nat) ^ 32 = 2 ^ (32 - k) * 2 ^ k"
    using assms(1) by (simp flip: power_add)
  ultimately have "2 ^ (32 - k) \<le> (unat v + (2 ^ k - 1)) div 2 ^ k"
    by (metis div_le_mono nonzero_mult_div_cancel_right power_not_zero zero_neq_numeral)
  then have "2 ^ 32 \<le> (unat v + (2 ^ k - 1)) div 2 ^ k * 2 ^ k"
    using \<open>(2::nat) ^ 32 = 2 ^ (32 - k) * 2 ^ k\<close> by (metis mult_le_mono1)
  also have "\<dots> \<le> unat x" by (rule multiple_between [OF assms(3,4)]) simp
  finally show False using u32_bound [of x] by simp
qed

lemma align_down_laws:
  fixes x :: u32
  assumes "k < 32"
  shows "unat (align_down v (2 ^ k)) mod 2 ^ k = 0"
    and "unat (align_down v (2 ^ k)) \<le> unat v"
    and "unat x mod 2 ^ k = 0 \<Longrightarrow> unat x \<le> unat v \<Longrightarrow> unat x \<le> unat (align_down v (2 ^ k))"
proof -
  have u: "unat (align_down v (2 ^ k)) = unat v div 2 ^ k * 2 ^ k"
    unfolding align_down_def by (rule unat_mask_down [OF assms])
  show "unat (align_down v (2 ^ k)) mod 2 ^ k = 0" by (simp add: u)
  show "unat (align_down v (2 ^ k)) \<le> unat v" unfolding u by (rule div_times_less_eq_dividend)
  assume "unat x mod 2 ^ k = 0" and "unat x \<le> unat v"
  then have "unat x = unat x div 2 ^ k * 2 ^ k" by (metis mod_0_imp_dvd dvd_div_mult_self)
  also have "\<dots> \<le> unat v div 2 ^ k * 2 ^ k"
    using \<open>unat x \<le> unat v\<close> by (intro mult_le_mono1 div_le_mono)
  finally show "unat x \<le> unat (align_down v (2 ^ k))" unfolding u .
qed

section \<open>The arena and its blocks\<close>

text \<open>The exclusive end of a block as a natural number, where nothing wraps.\<close>

definition block_end :: "Allocation \<Rightarrow> nat" where
  "block_end a = unat (al_address a) + unat (al_size a)"

definition blocks_apart :: "Allocation \<Rightarrow> Allocation \<Rightarrow> bool" where
  "blocks_apart a b \<longleftrightarrow> block_end a \<le> unat (al_address b) \<or> block_end b \<le> unat (al_address a)"

definition block_ok :: "SystemMemory \<Rightarrow> Allocation \<Rightarrow> bool" where
  "block_ok m a \<longleftrightarrow>
     unat (sm_start m) \<le> unat (al_address a) \<and> block_end a \<le> unat (sm_end m) \<and>
     0 < unat (al_requested_size a) \<and> unat (al_requested_size a) \<le> unat (al_size a) \<and>
     unat (al_size a) < unat (al_requested_size a) + 256 \<and> unat (al_size a) mod 256 = 0 \<and>
     is_power_of_two (al_alignment a) \<and> 256 \<le> al_alignment a \<and>
     unat (al_address a) mod unat (al_alignment a) = 0"

definition sysmem_ok :: "SystemMemory \<Rightarrow> bool" where
  "sysmem_ok m \<longleftrightarrow>
     0 < sm_start m \<and> sm_start m < sm_end m \<and>
     table_ok (sm_allocations m) \<and>
     (\<forall>h a. FixedTable_get (sm_allocations m) h = Some a \<longrightarrow> block_ok m a) \<and>
     (\<forall>h k a b. FixedTable_get (sm_allocations m) h = Some a \<longrightarrow>
        FixedTable_get (sm_allocations m) k = Some b \<longrightarrow> h \<noteq> k \<longrightarrow> blocks_apart a b)"

lemma live_set: "table_ok (sm_allocations m) \<Longrightarrow>
    set (sysmem_live m) = ran (FixedTable_get (sm_allocations m))"
  by (force simp: sysmem_live_def iter_set ran_def)

lemma live_block_ok: "sysmem_ok m \<Longrightarrow> a \<in> set (sysmem_live m) \<Longrightarrow> block_ok m a"
  by (auto simp: sysmem_ok_def live_set ran_def)

lemma block_ok_end:
  assumes "block_ok m a"
  shows "unat (Allocation_end a) = block_end a" and "unat (al_address a) < block_end a"
    and "0 < unat (al_size a)" and "unat (sm_start m) \<le> unat (al_address a)"
    and "block_end a \<le> unat (sm_end m)"
proof -
  have "block_end a < 2 ^ 32"
    using assms u32_bound [of "sm_end m"] by (simp add: block_ok_def)
  then show "unat (Allocation_end a) = block_end a"
    unfolding Allocation_end_def block_end_def by (subst unat_add_lem [THEN iffD1]) simp_all
  show "unat (al_address a) < block_end a" "0 < unat (al_size a)"
    "unat (sm_start m) \<le> unat (al_address a)" "block_end a \<le> unat (sm_end m)"
    using assms by (simp_all add: block_ok_def block_end_def)
qed

lemma live_distinct_addresses:
  assumes ok: "sysmem_ok m"
  shows "distinct (map al_address (sysmem_live m))"
proof -
  have t: "table_ok (sm_allocations m)" using ok by (simp add: sysmem_ok_def)
  have "distinct (FixedTable_iter (sm_allocations m))"
    using iter_distinct [OF t] by (simp add: distinct_map)
  moreover have "inj_on (\<lambda>p. al_address (snd p)) (set (FixedTable_iter (sm_allocations m)))"
  proof (rule inj_onI)
    fix p q assume p: "p \<in> set (FixedTable_iter (sm_allocations m))"
      and q: "q \<in> set (FixedTable_iter (sm_allocations m))"
      and eq: "al_address (snd p) = al_address (snd q)"
    have gp: "FixedTable_get (sm_allocations m) (fst p) = Some (snd p)"
      and gq: "FixedTable_get (sm_allocations m) (fst q) = Some (snd q)"
      using p q by (auto simp: iter_set [OF t])
    have "fst p = fst q"
    proof (rule ccontr)
      assume "fst p \<noteq> fst q"
      with ok gp gq have "blocks_apart (snd p) (snd q)" "block_ok m (snd p)" "block_ok m (snd q)"
        unfolding sysmem_ok_def by blast+
      then show False using eq block_ok_end(2) [of m "snd p"] block_ok_end(2) [of m "snd q"]
        by (auto simp: blocks_apart_def)
    qed
    with gp gq show "p = q" by (metis option.inject prod.collapse)
  qed
  ultimately show ?thesis by (simp add: sysmem_live_def distinct_map comp_inj_on_iff o_def)
qed

lemma live_apart:
  assumes "sysmem_ok m" and "a \<in> set (sysmem_live m)" and "b \<in> set (sysmem_live m)" and "a \<noteq> b"
  shows "blocks_apart a b"
proof -
  have "table_ok (sm_allocations m)" using assms(1) by (simp add: sysmem_ok_def)
  with assms(2,3) obtain h k where h: "FixedTable_get (sm_allocations m) h = Some a"
    and k: "FixedTable_get (sm_allocations m) k = Some b"
    by (auto simp: live_set ran_def)
  with assms(4) have "h \<noteq> k" by auto
  with h k assms(1) show ?thesis unfolding sysmem_ok_def by blast
qed

lemma allocations_set [simp]: "set (SystemMemory_allocations m) = set (sysmem_live m)"
  by (simp add: SystemMemory_allocations_def)

lemma allocations_sorted:
  assumes ok: "sysmem_ok m"
  shows "sorted_wrt (\<lambda>a b. block_end a \<le> unat (al_address b)) (SystemMemory_allocations m)"
proof -
  let ?as = "SystemMemory_allocations m"
  have "sorted (map al_address ?as)" by (simp add: SystemMemory_allocations_def)
  moreover have "distinct (map al_address ?as)"
  proof -
    have "mset ?as = mset (sysmem_live m)" by (simp add: SystemMemory_allocations_def)
    then have "mset (map al_address ?as) = mset (map al_address (sysmem_live m))" by simp
    then show ?thesis using live_distinct_addresses [OF ok] by (metis mset_eq_imp_distinct_iff)
  qed
  ultimately have "sorted_wrt (\<lambda>a b. al_address a < al_address b) ?as"
    by (metis strict_sorted_iff sorted_wrt_map)
  then show ?thesis
  proof (rule sorted_wrt_mono_rel [rotated])
    fix a b assume a: "a \<in> set ?as" and b: "b \<in> set ?as" and less: "al_address a < al_address b"
    then have "blocks_apart a b" by (intro live_apart [OF ok]) auto
    then show "block_end a \<le> unat (al_address b)"
      using less block_ok_end(2) [OF live_block_ok [OF ok, of b]] b
      by (auto simp: blocks_apart_def word_less_nat_alt)
  qed
qed

section \<open>Placement\<close>

text \<open>\<open>fits\<close>: an aligned interval inside the arena that meets no live block.\<close>

definition fits :: "SystemMemory \<Rightarrow> nat \<Rightarrow> nat \<Rightarrow> u32 \<Rightarrow> bool" where
  "fits m n p x \<longleftrightarrow>
     unat x mod p = 0 \<and> unat (sm_start m) \<le> unat x \<and> unat x + n \<le> unat (sm_end m) \<and>
     (\<forall>a\<in>set (sysmem_live m). unat x + n \<le> unat (al_address a) \<or> block_end a \<le> unat x)"

definition least_word :: "(u32 \<Rightarrow> bool) \<Rightarrow> u32 option \<Rightarrow> bool" where
  "least_word P r \<longleftrightarrow>
     (case r of None \<Rightarrow> (\<forall>x. \<not> P x) | Some x \<Rightarrow> P x \<and> (\<forall>y. P y \<longrightarrow> x \<le> y))"

definition greatest_word :: "(u32 \<Rightarrow> bool) \<Rightarrow> u32 option \<Rightarrow> bool" where
  "greatest_word P r \<longleftrightarrow>
     (case r of None \<Rightarrow> (\<forall>x. \<not> P x) | Some x \<Rightarrow> P x \<and> (\<forall>y. P y \<longrightarrow> y \<le> x))"

lemma least_word_cong: "(\<And>x. P x = Q x) \<Longrightarrow> least_word P r = least_word Q r"
  by presburger

lemma greatest_word_cong: "(\<And>x. P x = Q x) \<Longrightarrow> greatest_word P r = greatest_word Q r"
  by presburger

lemma find_first_loop_least:
  assumes k: "k < 32" and fin: "\<forall>a\<in>set as. unat (Allocation_end a) = block_end a
      \<and> unat (al_address a) < block_end a \<and> block_end a \<le> unat fin"
    and "sorted_wrt (\<lambda>a b. block_end a \<le> unat (al_address b)) as"
    and "unat cursor mod 2 ^ k = 0"
  shows "least_word
     (\<lambda>x. unat x mod 2 ^ k = 0 \<and> unat cursor \<le> unat x \<and> unat x + unat n \<le> unat fin
        \<and> (\<forall>a\<in>set as. unat x + unat n \<le> unat (al_address a) \<or> block_end a \<le> unat x))
     (find_first_loop n (2 ^ k) fin as cursor)"
  using assms(2-)
proof (induction as arbitrary: cursor)
  case Nil
  show ?case
  proof (cases "checked_add cursor n")
    case None
    then have "4294967296 \<le> unat cursor + unat n" by (simp add: checked_add_None_iff)
    then show ?thesis using u32_bound [of fin] None
      by (auto simp: least_word_def)
  next
    case (Some e)
    then show ?thesis using Nil.prems(3) checked_add_SomeD [OF Some]
      by (auto simp: least_word_def word_le_nat_alt)
  qed
next
  case (Cons a as)
  let ?P = "\<lambda>x::u32. unat x mod 2 ^ k = 0 \<and> unat cursor \<le> unat x \<and> unat x + unat n \<le> unat fin
        \<and> (\<forall>a\<in>set (a # as). unat x + unat n \<le> unat (al_address a) \<or> block_end a \<le> unat x)"
  show ?case
  proof (cases "checked_add cursor n")
    case None
    then have "4294967296 \<le> unat cursor + unat n" by (simp add: checked_add_None_iff)
    then show ?thesis using u32_bound [of fin] None
      by (auto simp: least_word_def)
  next
    case (Some e)
    note e = checked_add_SomeD [OF Some]
    have a: "unat (Allocation_end a) = block_end a" "unat (al_address a) < block_end a"
      "block_end a \<le> unat fin"
      using Cons.prems(1) by simp_all
    show ?thesis
    proof (cases "e \<le> al_address a")
      case True
      then have ea: "unat cursor + unat n \<le> unat (al_address a)" using e by (simp add: word_le_nat_alt)
      have "unat cursor + unat n \<le> unat (al_address b)" if "b \<in> set as" for b
      proof -
        have "block_end a \<le> unat (al_address b)" using Cons.prems(2) that by simp
        then show ?thesis using ea a(2) by linarith
      qed
      then have "?P cursor" using ea a Cons.prems(3) by auto
      moreover have "find_first_loop n (2 ^ k) fin (a # as) cursor = Some cursor"
        using Some True by simp
      ultimately show ?thesis by (auto simp: least_word_def word_le_nat_alt)
    next
      case False
      then have ea: "unat (al_address a) < unat cursor + unat n"
        using e by (simp add: word_le_nat_alt)
      have P_iff: "?P x \<longleftrightarrow> unat x mod 2 ^ k = 0 \<and> unat (max cursor (Allocation_end a)) \<le> unat x
          \<and> unat x + unat n \<le> unat fin
          \<and> (\<forall>a\<in>set as. unat x + unat n \<le> unat (al_address a) \<or> block_end a \<le> unat x)" for x
        using ea a(1) by (auto simp: max_def word_le_nat_alt)
      show ?thesis
      proof (cases "align_up (max cursor (Allocation_end a)) (2 ^ k)")
        case None
        have "\<not> ?P x" for x
          unfolding P_iff using align_up_None [OF k None, of x] by auto
        moreover have "find_first_loop n (2 ^ k) fin (a # as) cursor = None"
          using Some False None by simp
        ultimately show ?thesis by (simp only: least_word_def option.case) blast
      next
        case c: (Some c)
        note cl = align_up_Some [OF k c]
        have Q_iff: "?P x \<longleftrightarrow> unat x mod 2 ^ k = 0 \<and> unat c \<le> unat x
          \<and> unat x + unat n \<le> unat fin
          \<and> (\<forall>a\<in>set as. unat x + unat n \<le> unat (al_address a) \<or> block_end a \<le> unat x)" for x
          unfolding P_iff using cl(2) cl(3) [of x] by linarith
        have "find_first_loop n (2 ^ k) fin (a # as) cursor = find_first_loop n (2 ^ k) fin as c"
          using Some False c by simp
        moreover have "least_word ?P (find_first_loop n (2 ^ k) fin as c)"
          unfolding least_word_cong [OF Q_iff]
          using Cons.prems cl(1) by (intro Cons.IH) simp_all
        ultimately show ?thesis by (simp only:)
      qed
    qed
  qed
qed

lemma find_last_loop_greatest:
  assumes k: "k < 32" and "\<forall>a\<in>set as. unat (Allocation_end a) = block_end a
      \<and> unat (al_address a) < block_end a \<and> unat start \<le> unat (al_address a)"
    and "sorted_wrt (\<lambda>a b. block_end b \<le> unat (al_address a)) as"
  shows "greatest_word
     (\<lambda>x. unat x mod 2 ^ k = 0 \<and> unat start \<le> unat x \<and> unat x + unat n \<le> unat boundary
        \<and> (\<forall>a\<in>set as. unat x + unat n \<le> unat (al_address a) \<or> block_end a \<le> unat x))
     (find_last_loop n (2 ^ k) start as boundary)"
  using assms(2-)
proof (induction as arbitrary: boundary)
  case Nil
  show ?case
  proof (cases "checked_sub boundary n")
    case None
    then have "unat boundary < unat n" by (simp add: checked_sub_None_iff)
    then show ?thesis using None by (auto simp: greatest_word_def)
  next
    case (Some d)
    note d = checked_sub_SomeD [OF Some]
    note al = align_down_laws [OF k, where v = d]
    have P: "unat x mod 2 ^ k = 0 \<and> unat start \<le> unat x \<and> unat x + unat n \<le> unat boundary
        \<Longrightarrow> unat x \<le> unat (align_down d (2 ^ k))" for x :: u32
      using d by (intro al(3)) linarith+
    show ?thesis
    proof (cases "start \<le> align_down d (2 ^ k)")
      case True
      moreover have "unat (align_down d (2 ^ k)) + unat n \<le> unat boundary"
        using al(2) d by linarith
      ultimately show ?thesis using Some al(1) P
        by (simp add: greatest_word_def word_le_nat_alt)
    next
      case False
      then have "\<not> (unat x mod 2 ^ k = 0 \<and> unat start \<le> unat x \<and> unat x + unat n \<le> unat boundary)"
        for x :: u32
        using P [of x] unfolding word_le_nat_alt by linarith
      then show ?thesis using Some False
        by (simp add: greatest_word_def)
    qed
  qed
next
  case (Cons a as)
  let ?P = "\<lambda>x::u32. unat x mod 2 ^ k = 0 \<and> unat start \<le> unat x
        \<and> unat x + unat n \<le> unat boundary
        \<and> (\<forall>a\<in>set (a # as). unat x + unat n \<le> unat (al_address a) \<or> block_end a \<le> unat x)"
  show ?case
  proof (cases "checked_sub boundary n")
    case None
    then have "unat boundary < unat n" by (simp add: checked_sub_None_iff)
    then show ?thesis using None by (auto simp: greatest_word_def)
  next
    case (Some d)
    note d = checked_sub_SomeD [OF Some]
    note al = align_down_laws [OF k, where v = d]
    have a: "unat (Allocation_end a) = block_end a" "unat (al_address a) < block_end a"
      "unat start \<le> unat (al_address a)"
      using Cons.prems(1) by simp_all
    have P: "unat x \<le> unat (align_down d (2 ^ k))" if "?P x" for x :: u32
      using d that by (intro al(3)) linarith+
    show ?thesis
    proof (cases "Allocation_end a \<le> align_down d (2 ^ k)")
      case True
      then have ea: "block_end a \<le> unat (align_down d (2 ^ k))" using a(1) by (simp add: word_le_nat_alt)
      have "block_end b \<le> unat (align_down d (2 ^ k))" if "b \<in> set as" for b
      proof -
        have "block_end b \<le> unat (al_address a)" using Cons.prems(2) that by simp
        then show ?thesis using ea a(2) by linarith
      qed
      then have "?P (align_down d (2 ^ k))" using ea a al(1,2) d by auto
      moreover have "find_last_loop n (2 ^ k) start (a # as) boundary = Some (align_down d (2 ^ k))"
        using Some True by simp
      ultimately show ?thesis using P
        by (simp only: greatest_word_def option.case word_le_nat_alt) blast
    next
      case False
      then have ea: "unat (align_down d (2 ^ k)) < block_end a"
        using a(1) by (simp add: word_le_nat_alt)
      have Q_iff: "?P x \<longleftrightarrow> unat x mod 2 ^ k = 0 \<and> unat start \<le> unat x
          \<and> unat x + unat n \<le> unat (min boundary (al_address a))
          \<and> (\<forall>a\<in>set as. unat x + unat n \<le> unat (al_address a) \<or> block_end a \<le> unat x)" for x :: u32
        using P [of x] ea by (auto simp: min_def word_le_nat_alt)
      have "find_last_loop n (2 ^ k) start (a # as) boundary =
          find_last_loop n (2 ^ k) start as (min boundary (al_address a))"
        using Some False by simp
      moreover have "greatest_word ?P (find_last_loop n (2 ^ k) start as (min boundary (al_address a)))"
        unfolding greatest_word_cong [OF Q_iff]
        using Cons.prems by (intro Cons.IH) simp_all
      ultimately show ?thesis by (simp only:)
    qed
  qed
qed

lemma u32_power_of_twoE:
  assumes "is_power_of_two (w :: u32)"
  obtains k where "k < 32" and "w = 2 ^ k" and "unat w = 2 ^ k"
  by (rule is_power_of_twoE [OF assms]) (rule that, simp_all)

lemma live_ends:
  assumes "sysmem_ok m"
  shows "\<forall>a\<in>set (sysmem_live m). unat (Allocation_end a) = block_end a
    \<and> unat (al_address a) < block_end a \<and> unat (sm_start m) \<le> unat (al_address a)
    \<and> block_end a \<le> unat (sm_end m)"
  using block_ok_end [OF live_block_ok [OF assms]] by blast

lemma find_first_least:
  assumes ok: "sysmem_ok m" and al: "is_power_of_two al"
  shows "least_word (fits m (unat n) (unat al)) (SystemMemory_find_first m n al)"
proof (rule u32_power_of_twoE [OF al])
  fix k assume k: "k < 32" and al': "al = 2 ^ k" and ual: "unat al = 2 ^ k"
  show ?thesis
  proof (cases "align_up (sm_start m) al")
    case None
    then have "\<not> fits m (unat n) (unat al) x" for x
      using align_up_None [OF k, of "sm_start m" x] by (auto simp: fits_def al' ual [unfolded al'])
    with None show ?thesis by (simp add: SystemMemory_find_first_def least_word_def)
  next
    case (Some c)
    note cl = align_up_Some [OF k Some [unfolded al']]
    have "fits m (unat n) (unat al) x \<longleftrightarrow>
        unat x mod 2 ^ k = 0 \<and> unat c \<le> unat x \<and> unat x + unat n \<le> unat (sm_end m)
        \<and> (\<forall>a\<in>set (SystemMemory_allocations m).
              unat x + unat n \<le> unat (al_address a) \<or> block_end a \<le> unat x)" for x
      using cl(2) cl(3) [of x] unfolding fits_def ual allocations_set by linarith
    note eq = least_word_cong [OF this]
    have "least_word (fits m (unat n) (unat al))
        (find_first_loop n (2 ^ k) (sm_end m) (SystemMemory_allocations m) c)"
      unfolding eq
      by (rule find_first_loop_least [OF k _ allocations_sorted [OF ok] cl(1)])
        (use live_ends [OF ok] in simp)
    then show ?thesis using Some by (simp add: SystemMemory_find_first_def al')
  qed
qed

lemma find_last_greatest:
  assumes ok: "sysmem_ok m" and al: "is_power_of_two al"
  shows "greatest_word (fits m (unat n) (unat al)) (SystemMemory_find_last m n al)"
proof (rule u32_power_of_twoE [OF al])
  fix k assume k: "k < 32" and al': "al = 2 ^ k" and ual: "unat al = 2 ^ k"
  have "fits m (unat n) (unat al) x \<longleftrightarrow>
      unat x mod 2 ^ k = 0 \<and> unat (sm_start m) \<le> unat x \<and> unat x + unat n \<le> unat (sm_end m)
      \<and> (\<forall>a\<in>set (rev (SystemMemory_allocations m)).
            unat x + unat n \<le> unat (al_address a) \<or> block_end a \<le> unat x)" for x
    by (simp add: fits_def ual)
  note eq = greatest_word_cong [OF this]
  have s: "sorted_wrt (\<lambda>a b. block_end b \<le> unat (al_address a)) (rev (SystemMemory_allocations m))"
    using allocations_sorted [OF ok] by (simp add: sorted_wrt_rev)
  have "greatest_word (fits m (unat n) (unat al))
      (find_last_loop n (2 ^ k) (sm_start m) (rev (SystemMemory_allocations m)) (sm_end m))"
    unfolding eq
    by (rule find_last_loop_greatest [OF k _ s]) (use live_ends [OF ok] in simp)
  then show ?thesis by (simp add: SystemMemory_find_last_def al')
qed

lemma is_free_iff:
  assumes ok: "sysmem_ok m"
  shows "SystemMemory_is_free m x n \<longleftrightarrow> fits m (unat n) 1 x"
proof (cases "checked_add x n")
  case None
  then have "4294967296 \<le> unat x + unat n" by (simp add: checked_add_None_iff)
  then show ?thesis using None u32_bound [of "sm_end m"]
    by (simp add: SystemMemory_is_free_def fits_def)
next
  case (Some e)
  then show ?thesis using checked_add_SomeD [OF Some] live_ends [OF ok]
    by (simp add: SystemMemory_is_free_def fits_def word_le_nat_alt list_all_iff)
qed

section \<open>Allocation and release\<close>

lemma sysmem_ok_new:
  assumes "SystemMemory_new s e = Inr m"
  shows "sysmem_ok m" and "sm_start m = s" and "sm_end m = e" and "sysmem_live m = []"
proof -
  have m: "m = \<lparr>sm_start = s, sm_end = e, sm_allocations = FixedTable_new MAX_ALLOCATIONS 1\<rparr>"
    and s: "s \<noteq> 0" "s < e"
    using assms by (auto simp: SystemMemory_new_def split: if_splits)
  have t: "table_ok (FixedTable_new MAX_ALLOCATIONS 1 :: Allocation FixedTable)"
    by (rule table_ok_new) (simp_all add: MAX_ALLOCATIONS_def DEFAULT_ALLOCATION_CAPACITY_def)
  then show "sysmem_ok m" using s by (simp add: sysmem_ok_def m word_neq_0_conv)
  show "sm_start m = s" "sm_end m = e" by (simp_all add: m)
  have "set (sysmem_live m) = {}" using t by (simp add: live_set m ran_def)
  then show "sysmem_live m = []" by simp
qed

lemma sysmem_ok_reset: "sysmem_ok m \<Longrightarrow> sysmem_ok (SystemMemory_reset m)"
  by (simp add: sysmem_ok_def SystemMemory_reset_def table_ok_clear)

lemma fits_weaken: "fits m n p x \<Longrightarrow> fits m n 1 x"
  by (simp add: fits_def)

lemma sysmem_insert:
  assumes ok: "sysmem_ok m" and b: "block_ok m a" and f: "fits m (unat (al_size a)) 1 (al_address a)"
    and ins: "FixedTable_insert (sm_allocations m) a = (Inr h, t)"
  shows "sysmem_ok (m\<lparr>sm_allocations := t\<rparr>)"
    and "set (sysmem_live (m\<lparr>sm_allocations := t\<rparr>)) = insert a (set (sysmem_live m))"
proof -
  have t0: "table_ok (sm_allocations m)" using ok by (simp add: sysmem_ok_def)
  note t = insert_Inr [OF t0 ins]
  let ?m = "m\<lparr>sm_allocations := t\<rparr>"
  have blk: "block_ok ?m = block_ok m" by (rule ext) (simp add: block_ok_def)
  have apart: "blocks_apart a c" "blocks_apart c a"
    if "FixedTable_get (sm_allocations m) k = Some c" for k c
  proof -
    have "c \<in> set (sysmem_live m)" using that by (auto simp: live_set [OF t0] ran_def)
    then show "blocks_apart a c" "blocks_apart c a"
      using f by (auto simp: fits_def blocks_apart_def block_end_def [of a])
  qed
  show "sysmem_ok ?m"
    unfolding sysmem_ok_def blk
    using ok b apart by (simp add: sysmem_ok_def t(3,4))
  show "set (sysmem_live ?m) = insert a (set (sysmem_live m))"
    using t(2) by (simp add: live_set t0 t(4) t(3) ran_map_upd)
qed

lemma quantum_conv: "SYSMEM_QUANTUM = 2 ^ 8"
  by (simp add: SYSMEM_QUANTUM_def)

lemma reserved_Some:
  assumes "align_up n SYSMEM_QUANTUM = Some r"
  shows "unat r = (unat n + 255) div 256 * 256"
proof -
  have c: "checked_add n 255 = Some (n + 255)" and r: "unat r = unat (n + 255) div 256 * 256"
    using assms word_and_not_mask [of 8 "n + 255"]
    by (auto simp: align_up_def SYSMEM_QUANTUM_def checked_add_def split: if_splits)
  from checked_add_SomeD [OF c] r show ?thesis by simp
qed

lemma reserved_None:
  assumes "align_up n SYSMEM_QUANTUM = None"
  shows "2 ^ 32 \<le> (unat n + 255) div 256 * 256"
proof -
  have "4294967296 \<le> unat n + 255"
    using assms by (simp add: align_up_def SYSMEM_QUANTUM_def checked_add_None_iff)
  then have "4294967296 div 256 \<le> (unat n + 255) div 256" by (rule div_le_mono)
  then show ?thesis by simp
qed

definition sysmem_selects ::
    "SystemMemory \<Rightarrow> AllocationMode \<Rightarrow> nat \<Rightarrow> u32 \<Rightarrow> nat \<Rightarrow> u32 option \<Rightarrow> bool" where
  "sysmem_selects m mode n address p r =
     (case mode of
        AllocationMode_First \<Rightarrow> least_word (fits m n p) r
      | AllocationMode_Last \<Rightarrow> greatest_word (fits m n p) r
      | AllocationMode_Address \<Rightarrow> r = (if fits m n p address then Some address else None))"

lemma selects_fits: "sysmem_selects m mode n address p (Some x) \<Longrightarrow> fits m n p x"
  by (auto simp: sysmem_selects_def least_word_def greatest_word_def
      split: AllocationMode.splits if_splits)

lemma not_fits_huge: "2 ^ 32 \<le> n \<Longrightarrow> \<not> fits m n p x"
  using u32_bound [of "sm_end m"] by (simp add: fits_def)

lemma selects_None:
  "sysmem_selects m mode n address p None \<longleftrightarrow>
     (if mode = AllocationMode_Address then \<not> fits m n p address else \<forall>x. \<not> fits m n p x)"
  by (cases mode) (simp_all add: sysmem_selects_def least_word_def greatest_word_def)

lemma select_correct:
  assumes ok: "sysmem_ok m" and al: "is_power_of_two al"
    and "mode = AllocationMode_Address \<longrightarrow> unat address mod unat al = 0"
  shows "sysmem_selects m mode (unat r) address (unat al)
    (case mode of
       AllocationMode_First \<Rightarrow> SystemMemory_find_first m r al
     | AllocationMode_Last \<Rightarrow> SystemMemory_find_last m r al
     | AllocationMode_Address \<Rightarrow>
         if SystemMemory_is_free m address r then Some address else None)"
proof (cases mode)
  case AllocationMode_Address
  then have "fits m (unat r) 1 address = fits m (unat r) (unat al) address"
    using assms(3) by (simp add: fits_def)
  then show ?thesis using AllocationMode_Address
    by (simp add: sysmem_selects_def is_free_iff [OF ok])
qed (simp_all add: sysmem_selects_def find_first_least [OF ok al] find_last_greatest [OF ok al])

lemma block_ok_selected:
  assumes "fits m (unat r) (unat al) x" and "unat r = (unat n + 255) div 256 * 256" and "n \<noteq> 0"
    and "is_power_of_two al" and "256 \<le> al"
  shows "block_ok m \<lparr>al_address = x, al_size = r, al_requested_size = n, al_alignment = al\<rparr>"
proof -
  have "0 < unat n" using assms(3) by (simp add: unat_gt_0)
  moreover have "unat n \<le> unat r" "unat r < unat n + 256" "unat r mod 256 = 0"
    unfolding assms(2) using div_mult_mod_eq [of "unat n + 255" 256] mod_less_divisor [of 256 "unat n + 255"]
    by linarith+ simp
  ultimately show ?thesis
    using assms(1,4,5) by (simp add: block_ok_def fits_def block_end_def)
qed

text \<open>What \<open>allocate_aligned\<close> does with valid arguments and a free slot.\<close>

lemma allocate_outcome:
  assumes ok: "sysmem_ok m" and n: "n \<noteq> 0" and al: "is_power_of_two al" "256 \<le> al"
    and slot: "FixedTable_next_id (sm_allocations m) \<noteq> None"
    and run: "SystemMemory_allocate_aligned m mode n address al = (res, m')"
  shows "case res of
      Inl e \<Rightarrow> m' = m
        \<and> sysmem_selects m mode ((unat n + 255) div 256 * 256) address (unat al) None
    | Inr a \<Rightarrow> sysmem_selects m mode ((unat n + 255) div 256 * 256) address (unat al)
          (Some (al_address a))
        \<and> unat (al_size a) = (unat n + 255) div 256 * 256 \<and> al_requested_size a = n
        \<and> al_alignment a = al \<and> sysmem_ok m' \<and> sm_start m' = sm_start m \<and> sm_end m' = sm_end m
        \<and> set (sysmem_live m') = insert a (set (sysmem_live m))"
proof -
  let ?n = "(unat n + 255) div 256 * 256"
  have t0: "table_ok (sm_allocations m)" using ok by (simp add: sysmem_ok_def)
  have alq: "\<not> al < SYSMEM_QUANTUM" using al(2) by (simp add: SYSMEM_QUANTUM_def not_less)
  show ?thesis
  proof (cases "align_up n SYSMEM_QUANTUM")
    case None
    have "res = Inl KernelError_IllegalSize" "m' = m"
      using run n alq al slot None by (simp_all add: SystemMemory_allocate_aligned_def)
    then show ?thesis using not_fits_huge [OF reserved_None [OF None]]
      by (simp add: selects_None)
  next
    case r: (Some r)
    note ur = reserved_Some [OF r]
    show ?thesis
    proof (cases "mode = AllocationMode_Address \<and> address mod al \<noteq> 0")
      case True
      then have "unat address mod unat al \<noteq> 0"
        by (metis unat_eq_zero unat_mod)
      moreover have "res = Inl KernelError_IllegalObject" "m' = m"
        using run n alq al slot r True by (simp_all add: SystemMemory_allocate_aligned_def)
      ultimately show ?thesis using True by (simp add: selects_None fits_def)
    next
      case False
      let ?sel = "case mode of
          AllocationMode_First \<Rightarrow> SystemMemory_find_first m r al
        | AllocationMode_Last \<Rightarrow> SystemMemory_find_last m r al
        | AllocationMode_Address \<Rightarrow>
            if SystemMemory_is_free m address r then Some address else None"
      have "mode = AllocationMode_Address \<longrightarrow> unat address mod unat al = 0"
        using False by (metis unat_0 unat_mod)
      from select_correct [OF ok al(1) this, of r]
      have sel: "sysmem_selects m mode ?n address (unat al) ?sel" by (simp only: ur)
      show ?thesis
      proof (cases ?sel)
        case None
        have "res = Inl KernelError_NoMemory" "m' = m"
          using run n alq al slot r False None by (simp_all add: SystemMemory_allocate_aligned_def)
        then show ?thesis using sel None by simp
      next
        case (Some x)
        let ?a = "\<lparr>al_address = x, al_size = r, al_requested_size = n, al_alignment = al\<rparr>"
        have fx: "fits m (unat r) (unat al) x" using selects_fits sel Some ur by metis
        obtain h t where ins: "FixedTable_insert (sm_allocations m) ?a = (Inr h, t)"
          using slot insert_conv [OF t0, of ?a] by auto
        have "SystemMemory_allocate_aligned m mode n address al = (Inr ?a, m\<lparr>sm_allocations := t\<rparr>)"
          unfolding SystemMemory_allocate_aligned_def using n alq al slot r False Some ins by simp
        then have res: "res = Inr ?a" "m' = m\<lparr>sm_allocations := t\<rparr>" using run by simp_all
        have "fits m (unat (al_size ?a)) 1 (al_address ?a)" using fits_weaken [OF fx] by simp
        note si = sysmem_insert [OF ok block_ok_selected [OF fx ur n al] this ins]
        show ?thesis using si sel Some by (simp add: res ur)
      qed
    qed
  qed
qed

lemma allocate_error:
  assumes "n = 0 \<or> al < 256 \<or> \<not> is_power_of_two al \<or> FixedTable_next_id (sm_allocations m) = None"
  shows "\<exists>e. SystemMemory_allocate_aligned m mode n address al = (Inl e, m)"
  using assms by (auto simp: SystemMemory_allocate_aligned_def SYSMEM_QUANTUM_def)

lemma allocate_ok:
  assumes ok: "sysmem_ok m" and run: "SystemMemory_allocate_aligned m mode n address al = (res, m')"
  shows "sysmem_ok m' \<and> sm_start m' = sm_start m \<and> sm_end m' = sm_end m"
proof (cases "n = 0 \<or> al < 256 \<or> \<not> is_power_of_two al \<or> FixedTable_next_id (sm_allocations m) = None")
  case True
  from allocate_error [OF this, of mode address] run ok show ?thesis by auto
next
  case False
  then have al: "n \<noteq> 0" "is_power_of_two al" "256 \<le> al"
    "FixedTable_next_id (sm_allocations m) \<noteq> None" by (simp_all add: not_less)
  from allocate_outcome [OF ok al run] ok show ?thesis by (auto split: sum.splits)
qed

lemma free_conv:
  assumes ok: "sysmem_ok m" and a: "a \<in> set (sysmem_live m)"
  shows "\<exists>h. FixedTable_get (sm_allocations m) h = Some a
    \<and> SystemMemory_free m (al_address a) =
        (Inr a, m\<lparr>sm_allocations := snd (FixedTable_remove (sm_allocations m) h)\<rparr>)"
proof -
  let ?t = "sm_allocations m"
  have t: "table_ok ?t" using ok by (simp add: sysmem_ok_def)
  obtain h where h: "(h, a) \<in> set (FixedTable_iter ?t)"
    using a by (auto simp: sysmem_live_def)
  then have get: "FixedTable_get ?t h = Some a" by (simp add: iter_set [OF t])
  have inj: "distinct (map (\<lambda>p. al_address (snd p)) (FixedTable_iter ?t))"
    using live_distinct_addresses [OF ok] by (simp add: sysmem_live_def o_def)
  have "find (\<lambda>(_, b). al_address b = al_address a) (FixedTable_iter ?t) = Some (h, a)"
  proof (cases "find (\<lambda>(_, b). al_address b = al_address a) (FixedTable_iter ?t)")
    case None
    with h show ?thesis by (auto simp: find_None_iff)
  next
    case (Some p)
    then have "p \<in> set (FixedTable_iter ?t)" "al_address (snd p) = al_address a"
      by (auto dest: find_SomeD)
    with inj h have "p = (h, a)" by (auto simp: distinct_map inj_on_def)
    with Some show ?thesis by simp
  qed
  moreover obtain r t' where rem: "FixedTable_remove ?t h = (r, t')" by force
  moreover have "r = Some a" using remove_laws(1) [OF t rem] get by simp
  ultimately have "SystemMemory_free m (al_address a) =
      (Inr a, m\<lparr>sm_allocations := snd (FixedTable_remove ?t h)\<rparr>)"
    by (simp add: SystemMemory_free_def ok_or_def)
  with get show ?thesis by blast
qed

lemma free_unknown:
  "table_ok (sm_allocations m) \<Longrightarrow> \<forall>a\<in>set (sysmem_live m). al_address a \<noteq> address \<Longrightarrow>
     SystemMemory_free m address = (Inl KernelError_IllegalObject, m)"
proof -
  assume "\<forall>a\<in>set (sysmem_live m). al_address a \<noteq> address"
  then have "find (\<lambda>(_, a). al_address a = address) (FixedTable_iter (sm_allocations m)) = None"
    by (auto simp: find_None_iff sysmem_live_def)
  then show ?thesis by (simp add: SystemMemory_free_def)
qed

lemma free_ok:
  assumes ok: "sysmem_ok m" and run: "SystemMemory_free m address = (res, m')"
  shows "sysmem_ok m' \<and> sm_start m' = sm_start m \<and> sm_end m' = sm_end m"
    and "\<And>a. res = Inr a \<Longrightarrow> a \<in> set (sysmem_live m) \<and> al_address a = address
      \<and> set (sysmem_live m') = set (sysmem_live m) - {a}"
proof -
  have t: "table_ok (sm_allocations m)" using ok by (simp add: sysmem_ok_def)
  have "sysmem_ok m' \<and> sm_start m' = sm_start m \<and> sm_end m' = sm_end m \<and>
    (\<forall>a. res = Inr a \<longrightarrow> a \<in> set (sysmem_live m) \<and> al_address a = address
      \<and> set (sysmem_live m') = set (sysmem_live m) - {a})"
  proof (cases "\<exists>a\<in>set (sysmem_live m). al_address a = address")
    case False
    with free_unknown [OF t, of address] run ok show ?thesis by auto
  next
    case True
    then obtain a where a: "a \<in> set (sysmem_live m)" and ad: "al_address a = address" by blast
    from free_conv [OF ok a] obtain h where get: "FixedTable_get (sm_allocations m) h = Some a"
      and f: "SystemMemory_free m address =
        (Inr a, m\<lparr>sm_allocations := snd (FixedTable_remove (sm_allocations m) h)\<rparr>)"
      using ad by blast
    obtain r t' where rem: "FixedTable_remove (sm_allocations m) h = (r, t')" by force
    note rl = remove_laws [OF t rem]
    have res: "res = Inr a" and m': "m' = m\<lparr>sm_allocations := t'\<rparr>" using run f rem by simp_all
    have "block_ok m' = block_ok m" by (rule ext) (simp add: block_ok_def m')
    then have ok': "sysmem_ok m'"
      using ok by (simp add: sysmem_ok_def m' rl(2,3))
    have uniq: "k = h" if "FixedTable_get (sm_allocations m) k = Some a" for k
    proof (rule ccontr)
      assume "k \<noteq> h"
      with ok that get have "blocks_apart a a" unfolding sysmem_ok_def by blast
      then show False using block_ok_end(2) [OF live_block_ok [OF ok a]]
        by (simp add: blocks_apart_def)
    qed
    have "ran ((FixedTable_get (sm_allocations m))(h := None)) =
        ran (FixedTable_get (sm_allocations m)) - {a}"
    proof -
      have "ran (G(h := None)) = ran G - {a}" if g: "G h = Some a"
        and u: "\<And>k. G k = Some a \<Longrightarrow> k = h" for G :: "u32 \<Rightarrow> Allocation option"
      proof (rule set_eqI, rule iffI)
        fix x assume "x \<in> ran (G(h := None))"
        then obtain k where "k \<noteq> h" "G k = Some x" by (auto simp: ran_def split: if_splits)
        with u show "x \<in> ran G - {a}" by (auto simp: ran_def)
      next
        fix x assume "x \<in> ran G - {a}"
        then obtain k where "G k = Some x" "x \<noteq> a" by (auto simp: ran_def)
        with g show "x \<in> ran (G(h := None))" unfolding ran_def by (auto intro!: exI [of _ k])
      qed
      then show ?thesis using get uniq by blast
    qed
    then have "set (sysmem_live m') = set (sysmem_live m) - {a}"
      by (simp add: live_set t m' rl(2,3))
    with ok' a ad show ?thesis by (simp add: res m')
  qed
  then show "sysmem_ok m' \<and> sm_start m' = sm_start m \<and> sm_end m' = sm_end m"
    and "\<And>a. res = Inr a \<Longrightarrow> a \<in> set (sysmem_live m) \<and> al_address a = address
      \<and> set (sysmem_live m') = set (sysmem_live m) - {a}"
    by blast+
qed

section \<open>The free-space scan\<close>

text \<open>The scan over the sorted blocks, the reference for the loop of the code.\<close>

fun gap_scan :: "nat \<Rightarrow> Allocation list \<Rightarrow> nat \<Rightarrow> nat \<Rightarrow> nat" where
  "gap_scan fin [] cursor best = max best (fin - cursor)"
| "gap_scan fin (a # as) cursor best =
     gap_scan fin as (block_end a) (max best (unat (al_address a) - cursor))"

lemma sizes_bound:
  assumes "sorted_wrt (\<lambda>a b. block_end a \<le> unat (al_address b)) as"
    and "\<forall>a\<in>set as. cursor \<le> unat (al_address a) \<and> block_end a \<le> fin" and "cursor \<le> fin"
  shows "cursor + sum_list (map (\<lambda>a. unat (al_size a)) as) \<le> fin"
  using assms
proof (induction as arbitrary: cursor)
  case (Cons a as)
  have "block_end a + sum_list (map (\<lambda>a. unat (al_size a)) as) \<le> fin"
    using Cons.prems by (intro Cons.IH) auto
  then show ?case using Cons.prems(2) by (simp add: block_end_def)
qed simp

lemma gap_scan_bound:
  assumes "sorted_wrt (\<lambda>a b. block_end a \<le> unat (al_address b)) as"
    and "\<forall>a\<in>set as. cursor \<le> unat (al_address a) \<and> block_end a \<le> fin" and "cursor \<le> fin"
  shows "gap_scan fin as cursor best
      \<le> max best (fin - cursor - sum_list (map (\<lambda>a. unat (al_size a)) as))"
  using assms
proof (induction as arbitrary: cursor best)
  case (Cons a as)
  let ?S = "sum_list (map (\<lambda>a. unat (al_size a)) as)"
  have "gap_scan fin as (block_end a) (max best (unat (al_address a) - cursor))
      \<le> max (max best (unat (al_address a) - cursor)) (fin - block_end a - ?S)"
    using Cons.prems by (intro Cons.IH) auto
  moreover have "block_end a + ?S \<le> fin"
    using Cons.prems by (intro sizes_bound) auto
  moreover have "cursor \<le> unat (al_address a)" using Cons.prems(2) by simp
  ultimately show ?case by (simp add: block_end_def) linarith
qed simp

lemma gap_scan_best: "best \<le> gap_scan fin as cursor best"
proof (induction as arbitrary: cursor best)
  case (Cons a as)
  have "max best (unat (al_address a) - cursor)
      \<le> gap_scan fin as (block_end a) (max best (unat (al_address a) - cursor))"
    by (rule Cons.IH)
  then show ?case by simp
qed simp

text \<open>
  No interval clear of the blocks is longer than the scan's result, and some
  interval has that length.
\<close>

lemma gap_scan_upper:
  assumes "sorted_wrt (\<lambda>a b. block_end a \<le> unat (al_address b)) as"
    and "\<forall>a\<in>set as. unat (al_address a) < block_end a"
    and "cursor \<le> x" and "x + n \<le> fin"
    and "\<forall>a\<in>set as. x + n \<le> unat (al_address a) \<or> block_end a \<le> x"
  shows "n \<le> gap_scan fin as cursor best"
  using assms
proof (induction as arbitrary: cursor best)
  case (Cons a as)
  show ?case
  proof (cases "block_end a \<le> x")
    case True
    then have "n \<le> gap_scan fin as (block_end a) (max best (unat (al_address a) - cursor))"
      using Cons.prems by (intro Cons.IH) auto
    then show ?thesis by simp
  next
    case False
    then have "x + n \<le> unat (al_address a)" using Cons.prems(5) by simp
    then have "n \<le> max best (unat (al_address a) - cursor)" using Cons.prems(3) by linarith
    then show ?thesis using gap_scan_best [of "max best (unat (al_address a) - cursor)"]
      by (simp del: max.bounded_iff) (rule order_trans)
  qed
qed simp

lemma gap_scan_attained:
  assumes "sorted_wrt (\<lambda>a b. block_end a \<le> unat (al_address b)) as"
    and "\<forall>a\<in>set as. unat (al_address a) < block_end a \<and> cursor \<le> unat (al_address a)
      \<and> block_end a \<le> fin"
    and "cursor \<le> fin"
  shows "gap_scan fin as cursor best = best \<or>
    (\<exists>x. cursor \<le> x \<and> x + gap_scan fin as cursor best \<le> fin \<and>
       (\<forall>a\<in>set as. x + gap_scan fin as cursor best \<le> unat (al_address a) \<or> block_end a \<le> x))"
  using assms
proof (induction as arbitrary: cursor best)
  case Nil
  show ?case
  proof (cases "fin - cursor \<le> best")
    case False
    then show ?thesis using Nil.prems(3) by (intro disjI2 exI [of _ cursor]) simp
  qed simp
next
  case (Cons a as)
  let ?b = "max best (unat (al_address a) - cursor)"
  let ?r = "gap_scan fin as (block_end a) ?b"
  have later: "\<forall>b\<in>set as. block_end a \<le> unat (al_address b)" using Cons.prems(1) by simp
  have "?r = ?b \<or> (\<exists>x. block_end a \<le> x \<and> x + ?r \<le> fin \<and>
       (\<forall>a\<in>set as. x + ?r \<le> unat (al_address a) \<or> block_end a \<le> x))"
    using Cons.prems later by (intro Cons.IH) auto
  then show ?case
  proof
    assume r: "?r = ?b"
    show ?thesis
    proof (cases "?b = best")
      case False
      then have b: "?b = unat (al_address a) - cursor" by linarith
      have "cursor + ?b = unat (al_address a)" using b Cons.prems(2) by simp
      moreover have "\<forall>b\<in>set as. unat (al_address a) \<le> unat (al_address b)"
        using later Cons.prems(2) by (auto intro: order_trans [OF less_imp_le])
      ultimately show ?thesis
        using r Cons.prems(2) by (intro disjI2 exI [of _ cursor]) auto
    next
      case True
      then show ?thesis using r by simp
    qed
  next
    assume "\<exists>x. block_end a \<le> x \<and> x + ?r \<le> fin \<and>
       (\<forall>a\<in>set as. x + ?r \<le> unat (al_address a) \<or> block_end a \<le> x)"
    then obtain x where "block_end a \<le> x" "x + ?r \<le> fin"
      "\<forall>a\<in>set as. x + ?r \<le> unat (al_address a) \<or> block_end a \<le> x" by blast
    moreover have "cursor \<le> x" using Cons.prems(2) \<open>block_end a \<le> x\<close> by simp
    ultimately show ?thesis by (intro disjI2 exI [of _ x]) simp
  qed
qed

lemma maximum_free_loop_scan:
  assumes "sorted_wrt (\<lambda>a b. block_end a \<le> unat (al_address b)) (pre @ suf)"
    and "\<forall>a\<in>set (pre @ suf). unat (Allocation_end a) = block_end a
      \<and> unat (al_address a) < block_end a \<and> block_end a \<le> unat fin"
    and "set live = set (pre @ suf)"
    and "\<forall>a\<in>set pre. al_address a < cursor" and "\<forall>a\<in>set suf. cursor \<le> al_address a"
    and "cursor \<le> fin"
  shows "\<exists>r. maximum_free_loop fin live cursor best = Some r
    \<and> unat r = gap_scan (unat fin) suf (unat cursor) (unat best)"
  using assms
proof (induction suf arbitrary: pre cursor best)
  case Nil
  have none: "filter (\<lambda>a. cursor \<le> al_address a) live = []"
    using Nil.prems(3,4) by (auto simp: filter_empty_conv not_le)
  have u: "unat (max best (fin - cursor)) = max (unat best) (unat fin - unat cursor)"
    using Nil.prems(6) by (auto simp: max_def unat_sub word_le_nat_alt)
  show ?case
  proof (cases "fin \<le> cursor")
    case True
    then show ?thesis using Nil.prems(6)
      by (subst maximum_free_loop.simps) (simp add: word_le_nat_alt)
  next
    case False
    then show ?thesis using none u by (subst maximum_free_loop.simps) simp
  qed
next
  case (Cons a suf)
  have a: "unat (Allocation_end a) = block_end a" "unat (al_address a) < block_end a"
    "block_end a \<le> unat fin" "cursor \<le> al_address a"
    using Cons.prems(2,5) by simp_all
  then have lt: "\<not> fin \<le> cursor" by (simp add: word_le_nat_alt)
  have eq: "set (filter (\<lambda>b. cursor \<le> al_address b) live) = set (a # suf)"
    using Cons.prems(3-5) by (auto simp: not_le)
  obtain y where y: "min_by_key al_address (filter (\<lambda>b. cursor \<le> al_address b) live) = Some y"
    using eq by (metis empty_iff list.set(1) list.set_intros(1) min_by_key_None_iff option.exhaust)
  have "y = a"
  proof (rule ccontr)
    assume ne: "y \<noteq> a"
    from min_by_key_Some [OF y] have "y \<in> set (a # suf)" "al_address y \<le> al_address a"
      unfolding eq by simp_all
    with ne Cons.prems(1) a(2) show False
      by (auto simp: sorted_wrt_append word_le_nat_alt)
  qed
  then have step: "maximum_free_loop fin live cursor best =
      maximum_free_loop fin live (Allocation_end a) (max best (al_address a - cursor))"
    using lt y by (subst maximum_free_loop.simps) simp
  have u: "unat (max best (al_address a - cursor)) = max (unat best) (unat (al_address a) - unat cursor)"
    using a(4) by (auto simp: max_def unat_sub word_le_nat_alt)
  have "\<exists>r. maximum_free_loop fin live (Allocation_end a) (max best (al_address a - cursor)) = Some r
    \<and> unat r = gap_scan (unat fin) suf (unat (Allocation_end a))
        (unat (max best (al_address a - cursor)))"
  proof (rule Cons.IH [of "pre @ [a]"])
    show "\<forall>b\<in>set (pre @ [a]). al_address b < Allocation_end a"
      using Cons.prems(4) a by (auto simp: word_less_nat_alt word_le_nat_alt)
    show "\<forall>b\<in>set suf. Allocation_end a \<le> al_address b"
      using Cons.prems(1) a(1) by (auto simp: sorted_wrt_append word_le_nat_alt)
    show "Allocation_end a \<le> fin" using a by (simp add: word_le_nat_alt)
  qed (use Cons.prems in \<open>simp_all\<close>)
  then show ?case unfolding step u a(1) by simp
qed

lemma unat_sum_list:
  "sum_list (map unat ws) < 2 ^ 32 \<Longrightarrow> unat (sum_list (ws :: u32 list)) = sum_list (map unat ws)"
proof (induction ws)
  case (Cons w ws)
  then have "unat (sum_list ws) = sum_list (map unat ws)" by simp
  then show ?case using Cons.prems by (subst sum_list.Cons, subst unat_add_lem [THEN iffD1]) simp_all
qed simp

lemma round_up_unique:
  fixes r n :: nat
  assumes "r mod 256 = 0" and "n \<le> r" and "r < n + 256"
  shows "r = (n + 255) div 256 * 256"
proof -
  obtain q where q: "r = 256 * q" using assms(1) by auto
  have "(n + 255) div 256 = q"
    using assms(2,3) q by (intro div_nat_eqI) simp_all
  then show ?thesis using q by simp
qed

lemma selects_Some:
  "sysmem_selects m mode n address p (Some x) \<longleftrightarrow>
     fits m n p x \<and> (case mode of
       AllocationMode_First \<Rightarrow> \<forall>y. fits m n p y \<longrightarrow> x \<le> y
     | AllocationMode_Last \<Rightarrow> \<forall>y. fits m n p y \<longrightarrow> y \<le> x
     | AllocationMode_Address \<Rightarrow> x = address)"
  by (cases mode) (auto simp: sysmem_selects_def least_word_def greatest_word_def)

section \<open>Properties\<close>

datatype sysmem_op =
    Sysmem_Allocate AllocationMode u32 u32 u32
  | Sysmem_Free u32
  | Sysmem_Reset

fun sysmem_step :: "sysmem_op \<Rightarrow> SystemMemory \<Rightarrow> SystemMemory" where
  "sysmem_step (Sysmem_Allocate mode n address al) m =
     snd (SystemMemory_allocate_aligned m mode n address al)"
| "sysmem_step (Sysmem_Free address) m = snd (SystemMemory_free m address)"
| "sysmem_step Sysmem_Reset m = SystemMemory_reset m"

lemma sysmem_step_ok:
  "sysmem_ok m \<Longrightarrow> sysmem_ok (sysmem_step x m) \<and> sm_start (sysmem_step x m) = sm_start m
     \<and> sm_end (sysmem_step x m) = sm_end m"
proof (cases x)
  case (Sysmem_Allocate mode n address al)
  assume "sysmem_ok m"
  then show ?thesis
    using allocate_ok [of m mode n address al] Sysmem_Allocate
    by (cases "SystemMemory_allocate_aligned m mode n address al") simp
next
  case (Sysmem_Free address)
  assume "sysmem_ok m"
  then show ?thesis
    using free_ok(1) [of m address] Sysmem_Free by (cases "SystemMemory_free m address") simp
next
  case Sysmem_Reset
  assume "sysmem_ok m"
  then show ?thesis
    using sysmem_ok_reset [of m] Sysmem_Reset by (simp add: SystemMemory_reset_def)
qed

lemma sysmem_run_ok:
  "sysmem_ok m \<Longrightarrow> sysmem_ok (fold sysmem_step ops m)
     \<and> sm_start (fold sysmem_step ops m) = sm_start m \<and> sm_end (fold sysmem_step ops m) = sm_end m"
  by (induction ops arbitrary: m) (simp_all add: sysmem_step_ok)

text \<open>
  C25. After any sequence of allocations in any mode, releases and resets, failed
  ones included, the blocks listed by \<open>allocations\<close> are in ascending order
  without overlap, lie inside the arena, are aligned as asked and are the
  request rounded up to the quantum; no end address has wrapped.
\<close>
theorem sysmem_blocks_disjoint:
  assumes "SystemMemory_new s e = Inr m"
  shows "let m' = fold sysmem_step ops m; as = SystemMemory_allocations m' in
    SystemMemory_range m' = (s, e)
    \<and> sorted_wrt (\<lambda>a b. unat (al_address a) + unat (al_size a) \<le> unat (al_address b)) as
    \<and> (\<forall>a\<in>set as. unat s \<le> unat (al_address a)
        \<and> unat (al_address a) + unat (al_size a) \<le> unat e
        \<and> unat (Allocation_end a) = unat (al_address a) + unat (al_size a)
        \<and> unat (al_address a) mod unat (al_alignment a) = 0
        \<and> unat (al_size a) = (unat (al_requested_size a) + 255) div 256 * 256
        \<and> 0 < unat (al_size a))"
proof -
  let ?m = "fold sysmem_step ops m"
  note new = sysmem_ok_new [OF assms]
  note run = sysmem_run_ok [OF new(1), of ops]
  have ok: "sysmem_ok ?m" using run by blast
  have "unat s \<le> unat (al_address a) \<and> unat (al_address a) + unat (al_size a) \<le> unat e
        \<and> unat (Allocation_end a) = unat (al_address a) + unat (al_size a)
        \<and> unat (al_address a) mod unat (al_alignment a) = 0
        \<and> unat (al_size a) = (unat (al_requested_size a) + 255) div 256 * 256
        \<and> 0 < unat (al_size a)" if a: "a \<in> set (sysmem_live ?m)" for a
  proof -
    note b = live_block_ok [OF ok a]
    have "unat (al_size a) = (unat (al_requested_size a) + 255) div 256 * 256"
      using b by (intro round_up_unique) (simp_all add: block_ok_def)
    then show ?thesis
      using block_ok_end [OF b] b run new(2,3) by (simp add: block_end_def block_ok_def)
  qed
  moreover have "SystemMemory_range ?m = (s, e)"
    using run new(2,3) by (simp add: SystemMemory_range_def)
  ultimately show ?thesis
    using allocations_sorted [OF ok, unfolded block_end_def] unfolding Let_def allocations_set by blast
qed

definition sysmem_demo :: SystemMemory where
  "sysmem_demo = \<lparr>sm_start = 256, sm_end = 1024,
     sm_allocations = FixedTable_new MAX_ALLOCATIONS 1\<rparr>"

lemma sysmem_demo_new: "SystemMemory_new 256 1024 = Inr sysmem_demo"
  by (simp add: SystemMemory_new_def sysmem_demo_def SYSMEM_QUANTUM_def)

lemmas sysmem_demo_ok = sysmem_ok_new [OF sysmem_demo_new]

lemma sysmem_demo_fits: "fits sysmem_demo n p x \<longleftrightarrow>
    unat x mod p = 0 \<and> 256 \<le> unat x \<and> unat x + n \<le> 1024"
  using sysmem_demo_ok(2-4) by (simp add: fits_def)

lemma sysmem_blocks_disjoint_witness:
  "let m' = fold sysmem_step
       [Sysmem_Allocate AllocationMode_First 300 0 256, Sysmem_Allocate AllocationMode_Last 1 0 512,
        Sysmem_Free 256, Sysmem_Free 3] sysmem_demo in
    SystemMemory_range m' = (256, 1024)
    \<and> sorted_wrt (\<lambda>a b. unat (al_address a) + unat (al_size a) \<le> unat (al_address b))
        (SystemMemory_allocations m')"
  using sysmem_blocks_disjoint [OF sysmem_demo_new] unfolding Let_def by blast

text \<open>
  C26. Placement is optimal and complete. With valid arguments and a free slot,
  \<open>allocate_aligned\<close> in mode \<open>First\<close> returns the lowest address, in mode \<open>Last\<close> the
  highest, and in mode \<open>Address\<close> the given one, among the aligned addresses
  where the rounded request meets no live block and stays in the arena; it fails
  only when there is none, and then changes nothing.
\<close>
theorem sysmem_placement:
  assumes "sysmem_ok m" and "n \<noteq> 0" and "is_power_of_two al" and "256 \<le> al"
    and "FixedTable_next_id (sm_allocations m) \<noteq> None"
  shows "let p = fits m ((unat n + 255) div 256 * 256) (unat al) in
    case SystemMemory_allocate_aligned m mode n address al of
      (Inl e, m') \<Rightarrow> m' = m
        \<and> (case mode of AllocationMode_Address \<Rightarrow> \<not> p address | _ \<Rightarrow> (\<forall>x. \<not> p x))
    | (Inr a, m') \<Rightarrow> p (al_address a)
        \<and> set (SystemMemory_allocations m') = insert a (set (SystemMemory_allocations m))
        \<and> (case mode of
             AllocationMode_First \<Rightarrow> \<forall>x. p x \<longrightarrow> al_address a \<le> x
           | AllocationMode_Last \<Rightarrow> \<forall>x. p x \<longrightarrow> x \<le> al_address a
           | AllocationMode_Address \<Rightarrow> al_address a = address)"
proof -
  obtain r m' where run: "SystemMemory_allocate_aligned m mode n address al = (r, m')" by force
  note out = allocate_outcome [OF assms run]
  show ?thesis
  proof (cases r)
    case (Inl e)
    with out show ?thesis unfolding run Let_def by (cases mode) (simp_all add: selects_None)
  next
    case (Inr a)
    with out show ?thesis unfolding run Let_def by (simp add: selects_Some)
  qed
qed

lemma sysmem_placement_witness:
  "\<exists>a. fst (SystemMemory_allocate_aligned sysmem_demo AllocationMode_First 300 0 256) = Inr a
     \<and> al_address a = 256"
proof -
  have p: "is_power_of_two (256 :: u32)"
    by (auto simp: is_power_of_two_def list_ex_iff push_bit_eq_mult intro!: bexI [of _ 8])
  have "FixedTable_next_id (sm_allocations sysmem_demo) \<noteq> None"
    using sysmem_demo_ok(1)
    by (simp add: next_id_None_iff sysmem_ok_def)
      (simp add: sysmem_demo_def FixedTable_new_def MAX_ALLOCATIONS_def DEFAULT_ALLOCATION_CAPACITY_def)
  from sysmem_placement [OF sysmem_demo_ok(1) _ p _ this,
      where n = 300 and mode = AllocationMode_First and address = 0]
  show ?thesis
    by (cases "SystemMemory_allocate_aligned sysmem_demo AllocationMode_First 300 0 256";
        cases "fst (SystemMemory_allocate_aligned sysmem_demo AllocationMode_First 300 0 256)")
      (auto simp: sysmem_demo_fits word_le_nat_alt dest: spec [of _ 256] intro!: word_unat_eq_iff [THEN iffD2])
qed

text \<open>
  C27. The scan of \<open>maximum_free\<close> ends on every reachable allocator, and its
  result is the length of the longest free interval; \<open>total_free\<close> is the arena
  less the blocks, without wrap-around, and bounds it.
\<close>
theorem sysmem_free_space:
  assumes "sysmem_ok m"
  shows "\<exists>r. SystemMemory_maximum_free m = Some r
    \<and> (\<forall>x n. fits m n 1 x \<longrightarrow> n \<le> unat r)
    \<and> (0 < unat r \<longrightarrow> (\<exists>x. fits m (unat r) 1 x))
    \<and> unat (SystemMemory_total_free m) + sum_list (map (\<lambda>a. unat (al_size a)) (sysmem_live m))
        = unat (sm_end m) - unat (sm_start m)
    \<and> unat r \<le> unat (SystemMemory_total_free m)"
proof -
  let ?as = "SystemMemory_allocations m" and ?S = "unat (sm_start m)" and ?E = "unat (sm_end m)"
  have se: "sm_start m < sm_end m" using assms by (simp add: sysmem_ok_def)
  then have SE: "?S < ?E" by (simp add: word_less_nat_alt)
  note sorted = allocations_sorted [OF assms]
  have ends: "\<forall>a\<in>set ?as. unat (Allocation_end a) = block_end a
      \<and> unat (al_address a) < block_end a \<and> ?S \<le> unat (al_address a) \<and> block_end a \<le> ?E"
    using live_ends [OF assms] by simp
  have "\<exists>r. maximum_free_loop (sm_end m) (sysmem_live m) (sm_start m) 0 = Some r
      \<and> unat r = gap_scan ?E ?as ?S (unat (0 :: u32))"
    by (rule maximum_free_loop_scan [where pre = "[]"])
      (use sorted ends SE in \<open>auto simp: word_le_nat_alt\<close>)
  then obtain r where run: "SystemMemory_maximum_free m = Some r"
    and r: "unat r = gap_scan ?E ?as ?S 0"
    by (auto simp: SystemMemory_maximum_free_def)
  have upper: "n \<le> unat r" if f: "fits m n 1 x" for x n
    unfolding r by (rule gap_scan_upper [OF sorted, of ?S "unat x"])
      (use f ends in \<open>simp_all add: fits_def\<close>)
  have "\<exists>x. fits m (unat r) 1 x" if pos: "0 < unat r"
  proof -
    have "gap_scan ?E ?as ?S 0 = 0 \<or> (\<exists>x. ?S \<le> x \<and> x + gap_scan ?E ?as ?S 0 \<le> ?E \<and>
       (\<forall>a\<in>set ?as. x + gap_scan ?E ?as ?S 0 \<le> unat (al_address a) \<or> block_end a \<le> x))"
      by (rule gap_scan_attained [OF sorted]) (use ends SE in simp_all)
    with pos r obtain x where x: "?S \<le> x" "x + unat r \<le> ?E"
      "\<forall>a\<in>set ?as. x + unat r \<le> unat (al_address a) \<or> block_end a \<le> x" by auto
    then have "unat (of_nat x :: u32) = x"
      using u32_bound [of "sm_end m"] by (intro unat_of_nat_small) simp
    with x show ?thesis by (intro exI [of _ "of_nat x"]) (simp add: fits_def)
  qed
  moreover have total: "unat (SystemMemory_total_free m)
      + sum_list (map (\<lambda>a. unat (al_size a)) (sysmem_live m)) = ?E - ?S"
    and "unat r \<le> unat (SystemMemory_total_free m)"
  proof -
    let ?T = "sum_list (map (\<lambda>a. unat (al_size a)) (sysmem_live m))"
    have "mset (map (\<lambda>a. unat (al_size a)) ?as) = mset (map (\<lambda>a. unat (al_size a)) (sysmem_live m))"
      by (simp add: SystemMemory_allocations_def)
    then have T: "sum_list (map (\<lambda>a. unat (al_size a)) ?as) = ?T" by (metis sum_mset_sum_list)
    have b: "?S + ?T \<le> ?E"
      using sizes_bound [OF sorted, of ?S ?E] ends SE unfolding T by simp
    then have u: "unat (sum_list (map al_size (sysmem_live m))) = ?T"
      using unat_sum_list [of "map al_size (sysmem_live m)"] u32_bound [of "sm_end m"]
      by (simp add: o_def)
    have ms: "unat (SystemMemory_memory_size m) = ?E - ?S"
      using se by (simp add: SystemMemory_memory_size_def unat_sub)
    have tf: "unat (SystemMemory_total_free m) = ?E - ?S - ?T"
      using b u ms by (simp add: SystemMemory_total_free_def unat_sub word_le_nat_alt)
    then show "unat (SystemMemory_total_free m) + ?T = ?E - ?S" using b by simp
    have "gap_scan ?E ?as ?S 0 \<le> max 0 (?E - ?S - ?T)"
      using gap_scan_bound [OF sorted, of ?S ?E 0] ends SE unfolding T by simp
    then show "unat r \<le> unat (SystemMemory_total_free m)" by (simp add: tf r)
  qed
  ultimately show ?thesis using run upper
    by (intro exI [of _ r]) simp
qed

lemma sysmem_free_space_witness:
  "\<exists>r. SystemMemory_maximum_free sysmem_demo = Some r \<and> unat r = 768"
proof -
  from sysmem_free_space [OF sysmem_demo_ok(1)] sysmem_demo_ok(2-4)
  obtain r where r: "SystemMemory_maximum_free sysmem_demo = Some r"
    and upper: "\<forall>x n. fits sysmem_demo n 1 x \<longrightarrow> n \<le> unat r" and "unat r \<le> 768"
    by auto
  moreover have "fits sysmem_demo 768 1 256" by (simp add: sysmem_demo_fits)
  with upper have "768 \<le> unat r" by blast
  ultimately show ?thesis by auto
qed

end
