(* ===== verification/Cpu_Context.thy ===== *)
theory Cpu_Context
  imports Bios_Types
begin

text \<open>
  The register file that the PS2 BIOS services save and restore for a thread, an
  exception or a callback (\<open>CpuContext\<close> and \<open>CallbackRequest\<close> of
  \<open>crates/hle/ps2/bios/src/dispatch.rs\<close>).
\<close>

definition REGISTER_COUNT :: usize where "REGISTER_COUNT = 32"
definition A0 :: usize where "A0 = 4"
definition RA :: usize where "RA = 31"
definition SP :: usize where "SP = 29"

record CpuContext =
  ctx_registers :: "u32 list"
  ctx_hi :: u32
  ctx_lo :: u32
  ctx_status :: u32
  ctx_cause :: u32
  ctx_epc :: u32
  ctx_pc :: u32

definition CpuContext_reset :: "u32 \<Rightarrow> u32 \<Rightarrow> CpuContext" where
  "CpuContext_reset entry stack =
     \<lparr>ctx_registers = (replicate REGISTER_COUNT 0)[SP := stack],
      ctx_hi = 0, ctx_lo = 0, ctx_status = 0, ctx_cause = 0, ctx_epc = 0, ctx_pc = entry\<rparr>"

definition CpuContext_register :: "CpuContext \<Rightarrow> usize \<Rightarrow> u32 option" where
  "CpuContext_register self index =
     (if index < length (ctx_registers self) then Some (ctx_registers self ! index) else None)"

definition CpuContext_set_register :: "usize \<Rightarrow> u32 \<Rightarrow> CpuContext \<Rightarrow> bool \<times> CpuContext" where
  "CpuContext_set_register index value self =
     (if length (ctx_registers self) \<le> index then (False, self)
      else (True, if index \<noteq> 0 then self\<lparr>ctx_registers := (ctx_registers self)[index := value]\<rparr>
                  else self))"

record CallbackRequest =
  cb_entry :: u32
  cb_argument :: u32
  cb_return_address :: u32
  cb_source :: u32

definition CallbackRequest_apply :: "CallbackRequest \<Rightarrow> CpuContext \<Rightarrow> CpuContext" where
  "CallbackRequest_apply self context =
     (let context = snd (CpuContext_set_register A0 (cb_argument self) context);
          context = snd (CpuContext_set_register RA (cb_return_address self) context)
      in context\<lparr>ctx_pc := cb_entry self\<rparr>)"

definition context_ok :: "CpuContext \<Rightarrow> bool" where
  "context_ok c \<longleftrightarrow> length (ctx_registers c) = REGISTER_COUNT \<and> ctx_registers c ! 0 = 0"

lemma context_ok_reset: "context_ok (CpuContext_reset entry stack)"
  by (simp add: context_ok_def CpuContext_reset_def REGISTER_COUNT_def SP_def)

lemma context_ok_set: "context_ok c \<Longrightarrow> context_ok (snd (CpuContext_set_register i v c))"
  by (simp add: context_ok_def CpuContext_set_register_def)

lemma context_ok_apply: "context_ok c \<Longrightarrow> context_ok (CallbackRequest_apply r c)"
  unfolding CallbackRequest_apply_def Let_def
  by (drule context_ok_set [of _ A0 "cb_argument r"], drule context_ok_set [of _ RA "cb_return_address r"])
    (simp add: context_ok_def)

end
