(* ===== verification/Kernel.thy ===== *)
theory Kernel
  imports Cpu_Context Fixed_Table Result_State
begin

text \<open>
  The IOP kernel of the PS2 BIOS services (\<open>crates/hle/ps2/bios/src/kernel.rs\<close>):
  threads with priority scheduling, semaphores, event flags, message boxes, fixed
  and variable memory pools, alarms and timed waits. A method on \<open>&mut self\<close> is a
  function of \<open>Result_State\<close> over \<open>Kernel\<close>; a method that also takes the CPU
  context by mutable reference works on the pair of the two. A \<open>VecDeque\<close> is a list, a
  \<open>BTreeSet\<close> a set and a \<open>BTreeMap\<close> an association list with distinct keys.
\<close>

section \<open>Constants\<close>

definition V0 :: usize where "V0 = 2"
definition V1 :: usize where "V1 = 3"
definition A1 :: usize where "A1 = 5"
definition A2 :: usize where "A2 = 6"
definition A3 :: usize where "A3 = 7"
definition GP :: usize where "GP = 28"
definition THREAD_CAPACITY :: usize where "THREAD_CAPACITY = 64"
definition SEMAPHORE_CAPACITY :: usize where "SEMAPHORE_CAPACITY = 64"
definition EVENT_FLAG_CAPACITY :: usize where "EVENT_FLAG_CAPACITY = 64"
definition MESSAGE_BOX_CAPACITY :: usize where "MESSAGE_BOX_CAPACITY = 64"
definition FIXED_POOL_CAPACITY :: usize where "FIXED_POOL_CAPACITY = 32"
definition VARIABLE_POOL_CAPACITY :: usize where "VARIABLE_POOL_CAPACITY = 32"
definition ALARM_CAPACITY :: usize where "ALARM_CAPACITY = 32"
definition CALLBACK_DEPTH :: usize where "CALLBACK_DEPTH = 8"
definition MIN_THREAD_PRIORITY :: u32 where "MIN_THREAD_PRIORITY = 1"
definition MAX_THREAD_PRIORITY :: u32 where "MAX_THREAD_PRIORITY = 126"
definition MIN_STACK_SIZE :: u32 where "MIN_STACK_SIZE = 0x100"
definition WAIT_EVENT_BASE :: u32 where "WAIT_EVENT_BASE = 0x1000"
definition ALARM_EVENT_BASE :: u32 where "ALARM_EVENT_BASE = 0x2000"
definition WAIT_ANY :: u32 where "WAIT_ANY = 1"
definition WAIT_CLEAR :: u32 where "WAIT_CLEAR = 0x10"
definition RETURN_ENTRY :: u32 where "RETURN_ENTRY = 0x440"
definition THREAD_RETURN_ENTRY :: u32 where "THREAD_RETURN_ENTRY = 0x450"

section \<open>Data\<close>

record ThreadSpec =
  ts_entry :: u32
  ts_stack :: u32
  ts_stack_size :: u32
  ts_priority :: u32
  ts_global_pointer :: u32
  ts_attributes :: u32
  ts_option :: u32

datatype WaitReason =
    WaitReason_Sleep
  | WaitReason_Delay
  | WaitReason_VBlankStart
  | WaitReason_VBlankEnd
  | WaitReason_ModuleStart u32
  | WaitReason_Semaphore u32
  | WaitReason_EventFlag u32 u32 u32
  | WaitReason_MessageBox u32
  | WaitReason_FixedPool u32
  | WaitReason_VariablePool u32 u32

datatype ThreadState =
    ThreadState_Dormant
  | ThreadState_Ready
  | ThreadState_Running
  | ThreadState_Waiting WaitReason

record Thread =
  th_spec :: ThreadSpec
  th_context :: CpuContext
  th_state :: ThreadState
  th_current_priority :: u32
  th_wakeup_count :: u32
  th_ready_order :: u64

datatype RescheduleReason =
    RescheduleReason_HleReturn
  | RescheduleReason_Yield
  | RescheduleReason_InterruptReturn
  | RescheduleReason_ObjectSignal
  | RescheduleReason_Timer
  | RescheduleReason_VBlank

record ScheduleAction =
  sa_previous :: "u32 option"
  sa_current :: "u32 option"
  sa_switched :: bool

record SemaphoreSpec =
  ss_initial :: u32
  ss_maximum :: u32
  ss_attributes :: u32

record EventFlagSpec =
  efs_bits :: u32
  efs_attributes :: u32

record MessageBoxSpec =
  mbs_attributes :: u32

record FixedPoolSpec =
  fps_base :: u32
  fps_block_size :: u32
  fps_blocks :: u32
  fps_attributes :: u32

record VariablePoolSpec =
  vps_base :: u32
  vps_size :: u32
  vps_attributes :: u32

datatype KernelEvent =
    KernelEvent_ThreadReady u32
  | KernelEvent_Alarm u32 CallbackRequest

record Semaphore =
  sem_count :: u32
  sem_maximum :: u32
  sem_attributes :: u32
  sem_waiters :: "u32 list"

record EventFlag =
  ef_bits :: u32
  ef_attributes :: u32
  ef_waiters :: "u32 list"

record MessageBox =
  mb_attributes :: u32
  mb_messages :: "u32 list"
  mb_waiters :: "u32 list"

record FixedPool =
  fp_attributes :: u32
  fp_block_size :: u32
  fp_free :: "u32 list"
  fp_allocated :: "u32 set"
  fp_waiters :: "u32 list"

record FreeRegion =
  fr_address :: u32
  fr_size :: u32

record VariablePool =
  vp_attributes :: u32
  vp_free :: "FreeRegion list"
  vp_allocated :: "(u32 \<times> u32) list"
  vp_waiters :: "u32 list"

record Alarm =
  alarm_entry :: u32
  alarm_argument :: u32

record Kernel =
  kn_threads :: "Thread FixedTable"
  kn_semaphores :: "Semaphore FixedTable"
  kn_event_flags :: "EventFlag FixedTable"
  kn_message_boxes :: "MessageBox FixedTable"
  kn_fixed_pools :: "FixedPool FixedTable"
  kn_variable_pools :: "VariablePool FixedTable"
  kn_alarms :: "Alarm FixedTable"
  kn_scheduler :: Scheduler
  kn_now :: Deadline
  kn_current_thread :: "u32 option"
  kn_next_ready_order :: u64
  kn_callback_contexts :: "CpuContext list"

type_synonym 'a kernel_op = "(Kernel, KernelError, 'a) rs"
type_synonym 'a context_op = "(Kernel \<times> CpuContext, KernelError, 'a) rs"
type_synonym 'a bios_op = "(Kernel \<times> CpuContext, BiosError, 'a) rs"

definition Kernel_new :: Kernel where
  "Kernel_new = \<lparr>
     kn_threads = FixedTable_new THREAD_CAPACITY 1,
     kn_semaphores = FixedTable_new SEMAPHORE_CAPACITY 1,
     kn_event_flags = FixedTable_new EVENT_FLAG_CAPACITY 1,
     kn_message_boxes = FixedTable_new MESSAGE_BOX_CAPACITY 1,
     kn_fixed_pools = FixedTable_new FIXED_POOL_CAPACITY 1,
     kn_variable_pools = FixedTable_new VARIABLE_POOL_CAPACITY 1,
     kn_alarms = FixedTable_new ALARM_CAPACITY 1,
     kn_scheduler = Scheduler_new,
     kn_now = 0,
     kn_current_thread = None,
     kn_next_ready_order = 0,
     kn_callback_contexts = []\<rparr>"

definition Kernel_reset :: "Kernel \<Rightarrow> Kernel" where
  "Kernel_reset self = Kernel_new"

definition Kernel_thread :: "Kernel \<Rightarrow> u32 \<Rightarrow> Thread option" where
  "Kernel_thread self ident = FixedTable_get (kn_threads self) ident"

definition Kernel_threads :: "Kernel \<Rightarrow> (u32 \<times> Thread) list" where
  "Kernel_threads self = FixedTable_iter (kn_threads self)"

definition Kernel_next_deadline :: "Kernel \<Rightarrow> Deadline option" where
  "Kernel_next_deadline self = Scheduler_next_deadline (kn_scheduler self)"

section \<open>Validation and waiter queues\<close>

definition validate_priority :: "u32 \<Rightarrow> KernelError + unit" where
  "validate_priority priority =
     (if MIN_THREAD_PRIORITY \<le> priority \<and> priority \<le> MAX_THREAD_PRIORITY then Inr ()
      else Inl KernelError_IllegalPriority)"

definition validate_attributes :: "u32 \<Rightarrow> KernelError + unit" where
  "validate_attributes attributes =
     (if attributes AND NOT 0x101 = 0 then Inr () else Inl KernelError_IllegalAttribute)"

definition validate_thread_attributes :: "u32 \<Rightarrow> KernelError + unit" where
  "validate_thread_attributes attributes =
     (if attributes AND NOT 0x03300008 = 0 then Inr () else Inl KernelError_IllegalAttribute)"

definition validate_event_wait :: "u32 \<Rightarrow> u32 \<Rightarrow> KernelError + unit" where
  "validate_event_wait pattern mode =
     (if pattern = 0 then Inl KernelError_EventFlagIllegalPattern
      else if mode AND NOT (WAIT_ANY OR WAIT_CLEAR) \<noteq> 0 then Inl KernelError_IllegalMode
      else Inr ())"

definition event_satisfied :: "u32 \<Rightarrow> u32 \<Rightarrow> u32 \<Rightarrow> bool" where
  "event_satisfied bits pattern mode =
     (if mode AND WAIT_ANY \<noteq> 0 then bits AND pattern \<noteq> 0 else bits AND pattern = pattern)"

definition consume_event_bits :: "EventFlag \<Rightarrow> u32 \<Rightarrow> u32 \<Rightarrow> u32 option \<times> EventFlag" where
  "consume_event_bits event pattern mode =
     (if \<not> event_satisfied (ef_bits event) pattern mode then (None, event)
      else (Some (ef_bits event),
            if mode AND WAIT_CLEAR \<noteq> 0 then event\<lparr>ef_bits := ef_bits event AND NOT pattern\<rparr>
            else event))"

definition insert_waiter :: "u32 list \<Rightarrow> u32 \<Rightarrow> u32 \<Rightarrow> Thread FixedTable \<Rightarrow> u32 list" where
  "insert_waiter waiters thread_id attributes threads =
     (if attributes AND 1 = 0 then waiters @ [thread_id]
      else
        let priority = (case FixedTable_get threads thread_id of
                          None \<Rightarrow> MAX_THREAD_PRIORITY + 1
                        | Some t \<Rightarrow> th_current_priority t)
        in (case position (\<lambda>w. case FixedTable_get threads w of
                             None \<Rightarrow> False
                           | Some t \<Rightarrow> priority < th_current_priority t) waiters of
              Some p \<Rightarrow> take p waiters @ thread_id # drop p waiters
            | None \<Rightarrow> waiters @ [thread_id]))"

definition align_pool_size :: "u32 \<Rightarrow> KernelError + u32" where
  "align_pool_size size' =
     (if size' = 0 then Inl KernelError_IllegalMemorySize
      else ok_or (map_option (\<lambda>value. value AND NOT 3) (checked_add size' 3))
             KernelError_IllegalMemorySize)"

definition allocate_region :: "VariablePool \<Rightarrow> u32 \<Rightarrow> u32 option \<times> VariablePool" where
  "allocate_region pool size' =
     (case position (\<lambda>region. size' \<le> fr_size region) (vp_free pool) of
        None \<Rightarrow> (None, pool)
      | Some index \<Rightarrow>
          (let region = vp_free pool ! index; address = fr_address region in
           case checked_add address size' of
             None \<Rightarrow> (None, pool)
           | Some next \<Rightarrow>
               (let region = \<lparr>fr_address = next, fr_size = fr_size region - size'\<rparr>
                in (Some address,
                    pool\<lparr>vp_free := (if fr_size region = 0
                           then take index (vp_free pool) @ drop (index + 1) (vp_free pool)
                           else (vp_free pool)[index := region]),
                         vp_allocated := AList.update address size' (vp_allocated pool)\<rparr>))))"

fun coalesce_loop :: "FreeRegion list \<Rightarrow> FreeRegion list \<Rightarrow> FreeRegion list" where
  "coalesce_loop output [] = output"
| "coalesce_loop output (region # regions) =
     (if output \<noteq> [] \<and> checked_add (fr_address (last output)) (fr_size (last output))
           = Some (fr_address region)
      then coalesce_loop
             (butlast output @ [(last output)\<lparr>fr_size := fr_size (last output) + fr_size region\<rparr>])
             regions
      else coalesce_loop (output @ [region]) regions)"

definition coalesce_regions :: "FreeRegion list \<Rightarrow> FreeRegion list" where
  "coalesce_regions regions = coalesce_loop [] (sort_key fr_address regions)"

definition wait_event :: "u32 \<Rightarrow> EventId" where "wait_event ident = WAIT_EVENT_BASE + ident"
definition alarm_event :: "u32 \<Rightarrow> EventId" where "alarm_event ident = ALARM_EVENT_BASE + ident"

section \<open>Access to the tables\<close>

text \<open>\<open>self.<table>.get_mut(id).ok_or(e)?\<close> followed by a write through the reference.\<close>

definition thread_mut :: "u32 \<Rightarrow> (Thread \<Rightarrow> Thread) \<Rightarrow> unit kernel_op" where
  "thread_mut ident f = (\<lambda>k. case FixedTable_get_mut (kn_threads k) ident f of
     None \<Rightarrow> (Inl KernelError_UnknownThreadId, k) | Some t \<Rightarrow> (Inr (), k\<lparr>kn_threads := t\<rparr>))"

definition semaphore_mut :: "u32 \<Rightarrow> (Semaphore \<Rightarrow> Semaphore) \<Rightarrow> unit kernel_op" where
  "semaphore_mut ident f = (\<lambda>k. case FixedTable_get_mut (kn_semaphores k) ident f of
     None \<Rightarrow> (Inl KernelError_UnknownSemaphoreId, k)
   | Some t \<Rightarrow> (Inr (), k\<lparr>kn_semaphores := t\<rparr>))"

definition event_flag_mut :: "u32 \<Rightarrow> (EventFlag \<Rightarrow> EventFlag) \<Rightarrow> unit kernel_op" where
  "event_flag_mut ident f = (\<lambda>k. case FixedTable_get_mut (kn_event_flags k) ident f of
     None \<Rightarrow> (Inl KernelError_UnknownEventFlagId, k)
   | Some t \<Rightarrow> (Inr (), k\<lparr>kn_event_flags := t\<rparr>))"

definition message_box_mut :: "u32 \<Rightarrow> (MessageBox \<Rightarrow> MessageBox) \<Rightarrow> unit kernel_op" where
  "message_box_mut ident f = (\<lambda>k. case FixedTable_get_mut (kn_message_boxes k) ident f of
     None \<Rightarrow> (Inl KernelError_UnknownMessageBoxId, k)
   | Some t \<Rightarrow> (Inr (), k\<lparr>kn_message_boxes := t\<rparr>))"

definition fixed_pool_mut :: "u32 \<Rightarrow> (FixedPool \<Rightarrow> FixedPool) \<Rightarrow> unit kernel_op" where
  "fixed_pool_mut ident f = (\<lambda>k. case FixedTable_get_mut (kn_fixed_pools k) ident f of
     None \<Rightarrow> (Inl KernelError_UnknownFixedPoolId, k)
   | Some t \<Rightarrow> (Inr (), k\<lparr>kn_fixed_pools := t\<rparr>))"

definition variable_pool_mut :: "u32 \<Rightarrow> (VariablePool \<Rightarrow> VariablePool) \<Rightarrow> unit kernel_op" where
  "variable_pool_mut ident f = (\<lambda>k. case FixedTable_get_mut (kn_variable_pools k) ident f of
     None \<Rightarrow> (Inl KernelError_UnknownVariablePoolId, k)
   | Some t \<Rightarrow> (Inr (), k\<lparr>kn_variable_pools := t\<rparr>))"

text \<open>\<open>self.<table>.get(id).ok_or(e)?\<close>.\<close>

definition get_thread :: "u32 \<Rightarrow> Thread kernel_op" where
  "get_thread ident = rs_try (\<lambda>k.
     ok_or (FixedTable_get (kn_threads k) ident) KernelError_UnknownThreadId)"

definition get_semaphore :: "u32 \<Rightarrow> Semaphore kernel_op" where
  "get_semaphore ident = rs_try (\<lambda>k.
     ok_or (FixedTable_get (kn_semaphores k) ident) KernelError_UnknownSemaphoreId)"

definition get_event_flag :: "u32 \<Rightarrow> EventFlag kernel_op" where
  "get_event_flag ident = rs_try (\<lambda>k.
     ok_or (FixedTable_get (kn_event_flags k) ident) KernelError_UnknownEventFlagId)"

definition get_message_box :: "u32 \<Rightarrow> MessageBox kernel_op" where
  "get_message_box ident = rs_try (\<lambda>k.
     ok_or (FixedTable_get (kn_message_boxes k) ident) KernelError_UnknownMessageBoxId)"

definition get_fixed_pool :: "u32 \<Rightarrow> FixedPool kernel_op" where
  "get_fixed_pool ident = rs_try (\<lambda>k.
     ok_or (FixedTable_get (kn_fixed_pools k) ident) KernelError_UnknownFixedPoolId)"

definition get_variable_pool :: "u32 \<Rightarrow> VariablePool kernel_op" where
  "get_variable_pool ident = rs_try (\<lambda>k.
     ok_or (FixedTable_get (kn_variable_pools k) ident) KernelError_UnknownVariablePoolId)"

definition get_current :: "KernelError \<Rightarrow> u32 kernel_op" where
  "get_current e = rs_try (\<lambda>k. ok_or (kn_current_thread k) e)"

text \<open>\<open>self.current_thread.take().ok_or(e)?\<close>.\<close>

definition take_current :: "KernelError \<Rightarrow> u32 kernel_op" where
  "take_current e = (\<lambda>k. (ok_or (kn_current_thread k) e, k\<lparr>kn_current_thread := None\<rparr>))"

definition cancel_event :: "EventId \<Rightarrow> unit kernel_op" where
  "cancel_event event =
     rs_modify (\<lambda>k. k\<lparr>kn_scheduler := snd (Scheduler_cancel (kn_scheduler k) event)\<rparr>)"

definition schedule_event :: "EventId \<Rightarrow> Deadline \<Rightarrow> (Kernel, SchedulerError, unit) rs" where
  "schedule_event event deadline = (\<lambda>k.
     let (r, s) = Scheduler_schedule (kn_scheduler k) event deadline in (r, k\<lparr>kn_scheduler := s\<rparr>))"

section \<open>The scheduler\<close>

definition Kernel_take_ready_order :: "u64 kernel_op" where
  "Kernel_take_ready_order = (\<lambda>k.
     case checked_add_n 64 (kn_next_ready_order k) 1 of
       None \<Rightarrow> (Inl KernelError_NoMemory, k)
     | Some n \<Rightarrow> (Inr (kn_next_ready_order k), k\<lparr>kn_next_ready_order := n\<rparr>))"

definition Kernel_best_ready :: "Kernel \<Rightarrow> u32 option" where
  "Kernel_best_ready self =
     map_option fst
       (min_by_key (\<lambda>(_, thread). (th_current_priority thread, th_ready_order thread))
         (filter (\<lambda>(_, thread). th_state thread = ThreadState_Ready)
           (FixedTable_iter (kn_threads self))))"

definition Kernel_should_switch :: "u32 option \<Rightarrow> bool \<Rightarrow> bool kernel_op" where
  "Kernel_should_switch candidate force =
     rs_bind (rs_get kn_current_thread) (\<lambda>current.
       case (current, candidate) of
         (None, Some _) \<Rightarrow> rs_return True
       | (_, None) \<Rightarrow> rs_return False
       | (Some current, Some candidate) \<Rightarrow>
           rs_bind (get_thread current) (\<lambda>c.
           rs_bind (get_thread candidate) (\<lambda>d.
           rs_return (force \<or> th_current_priority d < th_current_priority c))))"

definition Kernel_preempt :: "unit context_op" where
  "Kernel_preempt = (\<lambda>(k, context). rs_fst (\<lambda>k.
     case kn_current_thread k of
       None \<Rightarrow> (Inr (), k)
     | Some current \<Rightarrow>
         rs_bind Kernel_take_ready_order
           (\<lambda>order. thread_mut current (\<lambda>t. t\<lparr>th_context := context, th_ready_order := order,
              th_state := ThreadState_Ready\<rparr>))
           (k\<lparr>kn_current_thread := None\<rparr>)) (k, context))"

definition Kernel_install :: "u32 \<Rightarrow> unit context_op" where
  "Kernel_install candidate =
     rs_then (rs_fst (thread_mut candidate (\<lambda>t. t\<lparr>th_state := ThreadState_Running\<rparr>)))
     (rs_bind (rs_fst (get_thread candidate)) (\<lambda>thread.
      rs_modify (\<lambda>(k, context). (k\<lparr>kn_current_thread := Some candidate\<rparr>, th_context thread))))"

definition Kernel_switch :: "u32 option \<Rightarrow> u32 option \<Rightarrow> bool \<Rightarrow> ScheduleAction context_op" where
  "Kernel_switch previous candidate should_switch =
     (if \<not> should_switch then
       rs_bind (rs_fst (rs_get kn_current_thread)) (\<lambda>current.
       rs_return \<lparr>sa_previous = previous, sa_current = current, sa_switched = False\<rparr>)
     else
       rs_then Kernel_preempt
       (rs_bind (rs_lift (ok_or candidate KernelError_IllegalContext)) (\<lambda>candidate.
        rs_then (Kernel_install candidate)
        (rs_return \<lparr>sa_previous = previous, sa_current = Some candidate,
           sa_switched = (previous \<noteq> Some candidate)\<rparr>))))"

definition Kernel_select :: "u32 option \<Rightarrow> bool \<Rightarrow> ScheduleAction context_op" where
  "Kernel_select previous force =
     rs_bind (rs_fst (rs_get Kernel_best_ready)) (\<lambda>candidate.
     rs_bind (rs_fst (Kernel_should_switch candidate force))
       (Kernel_switch previous candidate))"

text \<open>\<open>thread.context = context.clone()\<close> and the writes beside it.\<close>

definition save_thread :: "u32 \<Rightarrow> (Thread \<Rightarrow> Thread) \<Rightarrow> unit context_op" where
  "save_thread ident f = (\<lambda>(k, context).
     rs_fst (thread_mut ident (\<lambda>t. f (t\<lparr>th_context := context\<rparr>))) (k, context))"

definition Kernel_block_current ::
    "WaitReason \<Rightarrow> Deadline option \<Rightarrow> ScheduleAction context_op" where
  "Kernel_block_current reason deadline =
     rs_bind (rs_fst (take_current KernelError_CannotWait)) (\<lambda>ident.
     rs_then (save_thread ident (\<lambda>t. t\<lparr>th_state := ThreadState_Waiting reason\<rparr>))
     (rs_then (case deadline of
         None \<Rightarrow> rs_return ()
       | Some deadline \<Rightarrow>
           rs_fst (rs_map_err (\<lambda>_. KernelError_NoMemory)
             (schedule_event (wait_event ident) deadline)))
     (Kernel_select (Some ident) True)))"

definition Kernel_wait_matches :: "Kernel \<Rightarrow> u32 \<Rightarrow> WaitReason \<Rightarrow> bool" where
  "Kernel_wait_matches self ident expected =
     (case FixedTable_get (kn_threads self) ident of
        None \<Rightarrow> False
      | Some thread \<Rightarrow> th_state thread = ThreadState_Waiting expected)"

definition wait_reason :: "Thread \<Rightarrow> WaitReason option" where
  "wait_reason thread = (case th_state thread of ThreadState_Waiting r \<Rightarrow> Some r | _ \<Rightarrow> None)"

text \<open>The writes of \<open>complete_wait\<close> to the thread it makes ready.\<close>

definition wait_result :: "u64 \<Rightarrow> i32 \<Rightarrow> u32 option \<Rightarrow> Thread \<Rightarrow> Thread" where
  "wait_result order result value thread =
     (let c = snd (CpuContext_set_register V0 (word_of_int result) (th_context thread));
          c = (case value of None \<Rightarrow> c | Some v \<Rightarrow> snd (CpuContext_set_register V1 v c))
      in thread\<lparr>th_context := c, th_ready_order := order, th_state := ThreadState_Ready\<rparr>)"

definition Kernel_complete_wait :: "u32 \<Rightarrow> i32 \<Rightarrow> u32 option \<Rightarrow> unit kernel_op" where
  "Kernel_complete_wait ident result value =
     rs_then (cancel_event (wait_event ident))
     (rs_bind Kernel_take_ready_order (\<lambda>order.
      rs_bind (get_thread ident) (\<lambda>thread.
      if wait_reason thread = None then rs_fail KernelError_NotWaiting
      else thread_mut ident (wait_result order result value))))"

definition table_mut :: "u32 \<Rightarrow> ('a \<Rightarrow> 'a) \<Rightarrow> 'a FixedTable \<Rightarrow> 'a FixedTable" where
  "table_mut ident f t = (case FixedTable_get_mut t ident f of None \<Rightarrow> t | Some t' \<Rightarrow> t')"

definition Kernel_remove_waiter :: "u32 \<Rightarrow> WaitReason \<Rightarrow> Kernel \<Rightarrow> Kernel" where
  "Kernel_remove_waiter ident reason self =
     (case reason of
        WaitReason_Semaphore object \<Rightarrow>
          self\<lparr>kn_semaphores := table_mut object
            (\<lambda>v. v\<lparr>sem_waiters := filter (\<lambda>w. w \<noteq> ident) (sem_waiters v)\<rparr>) (kn_semaphores self)\<rparr>
      | WaitReason_EventFlag object _ _ \<Rightarrow>
          self\<lparr>kn_event_flags := table_mut object
            (\<lambda>v. v\<lparr>ef_waiters := filter (\<lambda>w. w \<noteq> ident) (ef_waiters v)\<rparr>) (kn_event_flags self)\<rparr>
      | WaitReason_MessageBox object \<Rightarrow>
          self\<lparr>kn_message_boxes := table_mut object
            (\<lambda>v. v\<lparr>mb_waiters := filter (\<lambda>w. w \<noteq> ident) (mb_waiters v)\<rparr>) (kn_message_boxes self)\<rparr>
      | WaitReason_FixedPool object \<Rightarrow>
          self\<lparr>kn_fixed_pools := table_mut object
            (\<lambda>v. v\<lparr>fp_waiters := filter (\<lambda>w. w \<noteq> ident) (fp_waiters v)\<rparr>) (kn_fixed_pools self)\<rparr>
      | WaitReason_VariablePool object _ \<Rightarrow>
          self\<lparr>kn_variable_pools := table_mut object
            (\<lambda>v. v\<lparr>vp_waiters := filter (\<lambda>w. w \<noteq> ident) (vp_waiters v)\<rparr>) (kn_variable_pools self)\<rparr>
      | _ \<Rightarrow> self)"

fun Kernel_release_deleted_waiters :: "u32 list \<Rightarrow> unit kernel_op" where
  "Kernel_release_deleted_waiters [] = rs_return ()"
| "Kernel_release_deleted_waiters (ident # waiters) =
     rs_bind (rs_get (\<lambda>k. Option.bind (FixedTable_get (kn_threads k) ident) wait_reason)) (\<lambda>reason.
     rs_then
       (if reason \<noteq> None
        then Kernel_complete_wait ident (KernelError_code KernelError_WaitDeleted) None
        else rs_return ())
       (Kernel_release_deleted_waiters waiters))"

section \<open>Threads\<close>

definition Kernel_create_thread :: "ThreadSpec \<Rightarrow> GuestRange \<Rightarrow> u32 kernel_op" where
  "Kernel_create_thread spec guest_range =
     rs_then (rs_lift (validate_thread_attributes (ts_attributes spec)))
     (rs_then (rs_lift (validate_priority (ts_priority spec)))
     (if ts_stack_size spec < MIN_STACK_SIZE then rs_fail KernelError_IllegalStackSize
      else
        rs_then (rs_lift (map_err (\<lambda>_. KernelError_IllegalEntry)
          (GuestRange_validate guest_range (ts_entry spec) 4 4)))
        (rs_then (rs_lift (map_err (\<lambda>_. KernelError_IllegalStackSize)
          (GuestRange_validate guest_range (ts_stack spec) (unat (ts_stack_size spec)) 16)))
        (rs_bind (rs_lift (ok_or (checked_add (ts_stack spec) (ts_stack_size spec))
          KernelError_IllegalStackSize)) (\<lambda>stack_top.
        (\<lambda>k. let (r, t) = FixedTable_insert (kn_threads k)
               \<lparr>th_spec = spec, th_context = CpuContext_reset (ts_entry spec) stack_top,
                th_state = ThreadState_Dormant, th_current_priority = ts_priority spec,
                th_wakeup_count = 0, th_ready_order = 0\<rparr>
             in (r, k\<lparr>kn_threads := t\<rparr>)))))))"

definition start_context :: "Thread \<Rightarrow> u32 list \<Rightarrow> u32 \<Rightarrow> CpuContext" where
  "start_context thread arguments return_address =
     (let c = CpuContext_reset (ts_entry (th_spec thread))
                (ts_stack (th_spec thread) + ts_stack_size (th_spec thread));
          c = snd (CpuContext_set_register A0 (arguments ! 0) c);
          c = snd (CpuContext_set_register A1 (arguments ! 1) c);
          c = snd (CpuContext_set_register A2 (arguments ! 2) c);
          c = snd (CpuContext_set_register A3 (arguments ! 3) c);
          c = snd (CpuContext_set_register GP (ts_global_pointer (th_spec thread)) c)
      in snd (CpuContext_set_register RA return_address c))"

text \<open>\<open>arguments\<close> is the four-element array of the code.\<close>

definition Kernel_start_thread_with_context :: "u32 \<Rightarrow> u32 list \<Rightarrow> u32 \<Rightarrow> unit kernel_op" where
  "Kernel_start_thread_with_context ident arguments return_address =
     rs_bind (get_thread ident) (\<lambda>thread.
     if th_state thread \<noteq> ThreadState_Dormant then rs_fail KernelError_NotDormant
     else
       rs_bind Kernel_take_ready_order (\<lambda>ready_order.
       thread_mut ident (\<lambda>thread. thread\<lparr>
         th_context := start_context thread arguments return_address,
         th_current_priority := ts_priority (th_spec thread),
         th_wakeup_count := 0,
         th_ready_order := ready_order,
         th_state := ThreadState_Ready\<rparr>)))"

definition Kernel_start_thread :: "u32 \<Rightarrow> u32 \<Rightarrow> unit kernel_op" where
  "Kernel_start_thread ident argument =
     Kernel_start_thread_with_context ident [argument, 0, 0, 0] THREAD_RETURN_ENTRY"

definition Kernel_wait_module_start :: "u32 \<Rightarrow> ScheduleAction context_op" where
  "Kernel_wait_module_start child =
     rs_bind (rs_fst (rs_get (\<lambda>k. FixedTable_get (kn_threads k) child))) (\<lambda>thread.
     if map_option th_state thread \<noteq> Some ThreadState_Ready then rs_fail KernelError_UnknownThreadId
     else Kernel_block_current (WaitReason_ModuleStart child) None)"

definition Kernel_complete_module_start ::
    "u32 \<Rightarrow> u32 \<Rightarrow> u32 \<Rightarrow> u32 \<Rightarrow> unit kernel_op" where
  "Kernel_complete_module_start requester child module_id resident =
     rs_bind (rs_get (\<lambda>k. Kernel_wait_matches k requester (WaitReason_ModuleStart child))) (\<lambda>matches.
     if \<not> matches then rs_fail KernelError_NotWaiting
     else if 2 ^ 31 \<le> unat module_id then rs_fail KernelError_IllegalObject
     else Kernel_complete_wait requester (uint module_id) (Some resident))"

definition remove_thread :: "u32 \<Rightarrow> Thread kernel_op" where
  "remove_thread ident = (\<lambda>k. let (r, t) = FixedTable_remove (kn_threads k) ident
     in (ok_or r KernelError_UnknownThreadId, k\<lparr>kn_threads := t\<rparr>))"

definition Kernel_delete_thread :: "u32 \<Rightarrow> Thread kernel_op" where
  "Kernel_delete_thread ident =
     rs_bind (get_thread ident) (\<lambda>thread.
     if th_state thread \<noteq> ThreadState_Dormant then rs_fail KernelError_NotDormant
     else remove_thread ident)"

definition Kernel_exit_current :: "ScheduleAction context_op" where
  "Kernel_exit_current =
     rs_bind (rs_fst (take_current KernelError_IllegalContext)) (\<lambda>ident.
     rs_then (save_thread ident
       (\<lambda>t. t\<lparr>th_state := ThreadState_Dormant, th_wakeup_count := 0\<rparr>))
     (rs_then (rs_fst (cancel_event (wait_event ident)))
     (Kernel_select (Some ident) True)))"

definition Kernel_exit_delete_current :: "ScheduleAction context_op" where
  "Kernel_exit_delete_current =
     rs_bind (rs_fst (take_current KernelError_IllegalContext)) (\<lambda>ident.
     rs_then (rs_fst (cancel_event (wait_event ident)))
     (rs_bind (rs_fst (remove_thread ident)) (\<lambda>_.
     Kernel_select (Some ident) True)))"

definition Kernel_change_priority :: "u32 \<Rightarrow> u32 \<Rightarrow> u32 kernel_op" where
  "Kernel_change_priority ident priority =
     rs_bind (get_thread ident) (\<lambda>thread.
     if priority \<noteq> 0 then
       rs_then (rs_lift (validate_priority priority))
       (rs_then (thread_mut ident (\<lambda>t. t\<lparr>th_current_priority := priority\<rparr>))
       (rs_return (th_current_priority thread)))
     else rs_return (th_current_priority thread))"

definition Kernel_reschedule :: "RescheduleReason \<Rightarrow> ScheduleAction context_op" where
  "Kernel_reschedule reason =
     rs_bind (rs_fst (rs_get kn_current_thread)) (\<lambda>previous.
     rs_then (case previous of
         None \<Rightarrow> rs_return ()
       | Some ident \<Rightarrow>
           rs_bind (rs_fst (get_thread ident)) (\<lambda>thread.
           if th_state thread \<noteq> ThreadState_Running then rs_fail KernelError_IllegalContext
           else save_thread ident (\<lambda>t. t)))
     (Kernel_select previous (reason = RescheduleReason_Yield)))"

definition Kernel_sleep_current :: "ScheduleAction context_op" where
  "Kernel_sleep_current =
     rs_bind (rs_fst (get_current KernelError_IllegalContext)) (\<lambda>ident.
     rs_bind (rs_fst (get_thread ident)) (\<lambda>thread.
     if th_wakeup_count thread \<noteq> 0 then
       rs_then (rs_fst (thread_mut ident (\<lambda>t. t\<lparr>th_wakeup_count := th_wakeup_count t - 1\<rparr>)))
       (rs_return \<lparr>sa_previous = Some ident, sa_current = Some ident, sa_switched = False\<rparr>)
     else Kernel_block_current WaitReason_Sleep None))"

definition Kernel_wakeup_thread :: "u32 \<Rightarrow> bool kernel_op" where
  "Kernel_wakeup_thread ident =
     rs_bind (get_thread ident) (\<lambda>thread.
     if th_state thread = ThreadState_Waiting WaitReason_Sleep then
       rs_then (Kernel_complete_wait ident 0 None) (rs_return True)
     else
       rs_bind (rs_lift (ok_or (checked_add (th_wakeup_count thread) 1) KernelError_NoMemory)) (\<lambda>n.
       rs_then (thread_mut ident (\<lambda>t. t\<lparr>th_wakeup_count := n\<rparr>)) (rs_return False)))"

text \<open>\<open>timeout.map(|ticks| self.now.checked_advance(ticks)).transpose()?\<close>.\<close>

definition wait_deadline :: "Ticks option \<Rightarrow> (Kernel, BiosError, Deadline option) rs" where
  "wait_deadline timeout = rs_try (\<lambda>k.
     case timeout of
       None \<Rightarrow> Inr None
     | Some ticks \<Rightarrow>
         map_err BiosError_Clock
           (map_sum id Some (Deadline_checked_advance (kn_now k) ticks)))"

definition Kernel_delay_current :: "Ticks \<Rightarrow> ScheduleAction bios_op" where
  "Kernel_delay_current ticks =
     (if ticks = 0 then rs_map_err BiosError_Kernel (Kernel_reschedule RescheduleReason_Yield)
      else
        rs_bind (rs_fst (wait_deadline (Some ticks))) (\<lambda>deadline.
        rs_map_err BiosError_Kernel (Kernel_block_current WaitReason_Delay deadline)))"

definition vblank_reason :: "u32 \<Rightarrow> KernelError + WaitReason" where
  "vblank_reason phase =
     (if phase = 0 then Inr WaitReason_VBlankStart
      else if phase = 1 then Inr WaitReason_VBlankEnd
      else Inl KernelError_IllegalObject)"

definition Kernel_wait_vblank :: "u32 \<Rightarrow> ScheduleAction context_op" where
  "Kernel_wait_vblank phase =
     rs_bind (rs_lift (vblank_reason phase)) (\<lambda>reason. Kernel_block_current reason None)"

fun complete_all :: "u32 list \<Rightarrow> unit kernel_op" where
  "complete_all [] = rs_return ()"
| "complete_all (ident # waiters) =
     rs_then (Kernel_complete_wait ident 0 None) (complete_all waiters)"

definition Kernel_notify_vblank :: "u32 \<Rightarrow> (u32 list) kernel_op" where
  "Kernel_notify_vblank phase =
     rs_bind (rs_lift (vblank_reason phase)) (\<lambda>reason.
     rs_bind (rs_get (\<lambda>k. map fst
       (filter (\<lambda>(_, thread). th_state thread = ThreadState_Waiting reason)
         (FixedTable_iter (kn_threads k))))) (\<lambda>waiters.
     rs_then (complete_all waiters) (rs_return waiters)))"

definition Kernel_release_wait :: "u32 \<Rightarrow> unit kernel_op" where
  "Kernel_release_wait ident =
     rs_bind (get_thread ident) (\<lambda>thread.
     case wait_reason thread of
       None \<Rightarrow> rs_fail KernelError_NotWaiting
     | Some reason \<Rightarrow>
         rs_then (rs_modify (Kernel_remove_waiter ident reason))
         (Kernel_complete_wait ident (KernelError_code KernelError_ReleaseWait) None))"

section \<open>Semaphores\<close>

definition insert_semaphore :: "Semaphore \<Rightarrow> u32 kernel_op" where
  "insert_semaphore v = (\<lambda>k. let (r, t) = FixedTable_insert (kn_semaphores k) v
     in (r, k\<lparr>kn_semaphores := t\<rparr>))"

definition Kernel_create_semaphore :: "SemaphoreSpec \<Rightarrow> u32 kernel_op" where
  "Kernel_create_semaphore spec =
     rs_then (rs_lift (validate_attributes (ss_attributes spec)))
     (if ss_maximum spec = 0 \<or> ss_maximum spec < ss_initial spec then rs_fail KernelError_IllegalSize
      else insert_semaphore \<lparr>sem_count = ss_initial spec, sem_maximum = ss_maximum spec,
             sem_attributes = ss_attributes spec, sem_waiters = []\<rparr>)"

definition Kernel_delete_semaphore :: "u32 \<Rightarrow> unit kernel_op" where
  "Kernel_delete_semaphore ident =
     rs_bind (\<lambda>k. let (r, t) = FixedTable_remove (kn_semaphores k) ident
        in (ok_or r KernelError_UnknownSemaphoreId, k\<lparr>kn_semaphores := t\<rparr>)) (\<lambda>semaphore.
     Kernel_release_deleted_waiters (sem_waiters semaphore))"

definition Kernel_wait_semaphore ::
    "u32 \<Rightarrow> Ticks option \<Rightarrow> ScheduleAction option bios_op" where
  "Kernel_wait_semaphore ident timeout =
     rs_bind (rs_map_err BiosError_Kernel (rs_fst (get_semaphore ident))) (\<lambda>semaphore.
     if sem_count semaphore \<noteq> 0 then
       rs_then (rs_map_err BiosError_Kernel (rs_fst
         (semaphore_mut ident (\<lambda>v. v\<lparr>sem_count := sem_count v - 1\<rparr>))))
       (rs_return None)
     else
       rs_bind (rs_map_err BiosError_Kernel (rs_fst (get_current KernelError_CannotWait)))
       (\<lambda>thread_id.
       rs_bind (rs_fst (rs_get kn_threads)) (\<lambda>threads.
       rs_then (rs_map_err BiosError_Kernel (rs_fst (semaphore_mut ident (\<lambda>v.
         v\<lparr>sem_waiters := insert_waiter (sem_waiters v) thread_id (sem_attributes v) threads\<rparr>))))
       (rs_bind (rs_fst (wait_deadline timeout)) (\<lambda>deadline.
       rs_map Some (rs_map_err BiosError_Kernel
         (Kernel_block_current (WaitReason_Semaphore ident) deadline)))))))"

definition Kernel_poll_semaphore :: "u32 \<Rightarrow> unit kernel_op" where
  "Kernel_poll_semaphore ident =
     rs_bind (get_semaphore ident) (\<lambda>semaphore.
     if sem_count semaphore = 0 then rs_fail KernelError_SemaphoreZero
     else semaphore_mut ident (\<lambda>v. v\<lparr>sem_count := sem_count v - 1\<rparr>))"

text \<open>The loop pops the waiters one by one; the list is what it has not popped yet.\<close>

fun signal_loop :: "u32 \<Rightarrow> u32 list \<Rightarrow> u32 option kernel_op" where
  "signal_loop ident [] =
     rs_bind (get_semaphore ident) (\<lambda>semaphore.
     if sem_count semaphore = sem_maximum semaphore then rs_fail KernelError_SemaphoreOverflow
     else
       rs_then (semaphore_mut ident (\<lambda>v. v\<lparr>sem_count := sem_count v + 1\<rparr>)) (rs_return None))"
| "signal_loop ident (thread_id # waiters) =
     rs_then (semaphore_mut ident (\<lambda>v. v\<lparr>sem_waiters := waiters\<rparr>))
     (rs_bind (rs_get (\<lambda>k. Kernel_wait_matches k thread_id (WaitReason_Semaphore ident)))
     (\<lambda>matches.
     if matches then
       rs_then (Kernel_complete_wait thread_id 0 None) (rs_return (Some thread_id))
     else signal_loop ident waiters))"

definition Kernel_signal_semaphore :: "u32 \<Rightarrow> u32 option kernel_op" where
  "Kernel_signal_semaphore ident =
     rs_bind (get_semaphore ident) (\<lambda>semaphore. signal_loop ident (sem_waiters semaphore))"

section \<open>Event flags\<close>

definition Kernel_create_event_flag :: "EventFlagSpec \<Rightarrow> u32 kernel_op" where
  "Kernel_create_event_flag spec =
     (if efs_attributes spec AND NOT 0x103 \<noteq> 0 then rs_fail KernelError_IllegalAttribute
      else (\<lambda>k. let (r, t) = FixedTable_insert (kn_event_flags k)
              \<lparr>ef_bits = efs_bits spec, ef_attributes = efs_attributes spec, ef_waiters = []\<rparr>
            in (r, k\<lparr>kn_event_flags := t\<rparr>)))"

definition Kernel_delete_event_flag :: "u32 \<Rightarrow> unit kernel_op" where
  "Kernel_delete_event_flag ident =
     rs_bind (\<lambda>k. let (r, t) = FixedTable_remove (kn_event_flags k) ident
        in (ok_or r KernelError_UnknownEventFlagId, k\<lparr>kn_event_flags := t\<rparr>)) (\<lambda>event.
     Kernel_release_deleted_waiters (ef_waiters event))"

definition Kernel_wait_event_flag ::
    "u32 \<Rightarrow> u32 \<Rightarrow> u32 \<Rightarrow> Ticks option \<Rightarrow> (u32 + ScheduleAction) bios_op" where
  "Kernel_wait_event_flag ident pattern mode timeout =
     rs_then (rs_map_err BiosError_Kernel (rs_lift (validate_event_wait pattern mode)))
     (rs_bind (rs_map_err BiosError_Kernel (rs_fst (get_current KernelError_CannotWait)))
     (\<lambda>thread_id.
     rs_bind (rs_map_err BiosError_Kernel (rs_fst (get_event_flag ident))) (\<lambda>event.
     case consume_event_bits event pattern mode of
       (Some bits, event') \<Rightarrow>
         rs_then (rs_map_err BiosError_Kernel (rs_fst (event_flag_mut ident (\<lambda>_. event'))))
         (rs_return (Inl bits))
     | (None, _) \<Rightarrow>
         if ef_attributes event AND 2 = 0 \<and> ef_waiters event \<noteq> []
         then rs_fail (BiosError_Kernel KernelError_EventFlagMultiple)
         else
           rs_bind (rs_fst (rs_get kn_threads)) (\<lambda>threads.
           rs_then (rs_map_err BiosError_Kernel (rs_fst (event_flag_mut ident (\<lambda>v.
             v\<lparr>ef_waiters := insert_waiter (ef_waiters v) thread_id (ef_attributes v AND 1)
                 threads\<rparr>))))
           (rs_bind (rs_fst (wait_deadline timeout)) (\<lambda>deadline.
           rs_map Inr (rs_map_err BiosError_Kernel
             (Kernel_block_current (WaitReason_EventFlag ident pattern mode) deadline))))))))"

definition Kernel_poll_event_flag :: "u32 \<Rightarrow> u32 \<Rightarrow> u32 \<Rightarrow> u32 kernel_op" where
  "Kernel_poll_event_flag ident pattern mode =
     rs_then (rs_lift (validate_event_wait pattern mode))
     (rs_bind (get_event_flag ident) (\<lambda>event.
      let (bits, event') = consume_event_bits event pattern mode in
      rs_then (event_flag_mut ident (\<lambda>_. event'))
      (rs_lift (ok_or bits KernelError_EventFlagCondition))))"

definition event_wait_of :: "u32 \<Rightarrow> Kernel \<Rightarrow> u32 \<Rightarrow> (u32 \<times> u32) option" where
  "event_wait_of ident k thread_id =
     Option.bind (FixedTable_get (kn_threads k) thread_id) (\<lambda>thread.
       case th_state thread of
         ThreadState_Waiting (WaitReason_EventFlag wait_id pattern mode) \<Rightarrow>
           (if wait_id = ident then Some (pattern, mode) else None)
       | _ \<Rightarrow> None)"

text \<open>The result is the pair of the retained waiters and the threads made ready.\<close>

fun set_event_loop ::
    "u32 \<Rightarrow> u32 list \<Rightarrow> u32 list \<Rightarrow> u32 list \<Rightarrow> (u32 list \<times> u32 list) kernel_op" where
  "set_event_loop ident [] retained ready = rs_return (retained, ready)"
| "set_event_loop ident (thread_id # queued) retained ready =
     rs_bind (rs_get (\<lambda>k. event_wait_of ident k thread_id)) (\<lambda>reason.
     case reason of
       None \<Rightarrow> set_event_loop ident queued retained ready
     | Some (pattern, mode) \<Rightarrow>
         rs_bind (get_event_flag ident) (\<lambda>event.
         let (matched, event') = consume_event_bits event pattern mode in
         rs_then (event_flag_mut ident (\<lambda>_. event'))
         (case matched of
            Some value \<Rightarrow>
              rs_then (Kernel_complete_wait thread_id 0 (Some value))
                (set_event_loop ident queued retained (ready @ [thread_id]))
          | None \<Rightarrow> set_event_loop ident queued (retained @ [thread_id]) ready)))"

definition Kernel_set_event_flag :: "u32 \<Rightarrow> u32 \<Rightarrow> (u32 list) kernel_op" where
  "Kernel_set_event_flag ident bits =
     rs_bind (get_event_flag ident) (\<lambda>event.
     rs_then (event_flag_mut ident (\<lambda>v. v\<lparr>ef_bits := ef_bits v OR bits, ef_waiters := []\<rparr>))
     (rs_bind (set_event_loop ident (ef_waiters event) [] []) (\<lambda>(retained, ready).
      rs_then (event_flag_mut ident (\<lambda>v. v\<lparr>ef_waiters := retained\<rparr>)) (rs_return ready))))"

definition Kernel_clear_event_flag :: "u32 \<Rightarrow> u32 \<Rightarrow> u32 kernel_op" where
  "Kernel_clear_event_flag ident mask' =
     rs_bind (get_event_flag ident) (\<lambda>event.
     rs_then (event_flag_mut ident (\<lambda>v. v\<lparr>ef_bits := ef_bits v AND mask'\<rparr>))
     (rs_return (ef_bits event)))"

section \<open>Message boxes\<close>

definition Kernel_create_message_box :: "MessageBoxSpec \<Rightarrow> u32 kernel_op" where
  "Kernel_create_message_box spec =
     rs_then (rs_lift (validate_attributes (mbs_attributes spec)))
     (\<lambda>k. let (r, t) = FixedTable_insert (kn_message_boxes k)
            \<lparr>mb_attributes = mbs_attributes spec, mb_messages = [], mb_waiters = []\<rparr>
          in (r, k\<lparr>kn_message_boxes := t\<rparr>))"

definition Kernel_delete_message_box :: "u32 \<Rightarrow> unit kernel_op" where
  "Kernel_delete_message_box ident =
     rs_bind (\<lambda>k. let (r, t) = FixedTable_remove (kn_message_boxes k) ident
        in (ok_or r KernelError_UnknownMessageBoxId, k\<lparr>kn_message_boxes := t\<rparr>)) (\<lambda>message_box.
     Kernel_release_deleted_waiters (mb_waiters message_box))"

fun send_loop :: "u32 \<Rightarrow> u32 \<Rightarrow> u32 list \<Rightarrow> u32 option kernel_op" where
  "send_loop ident message [] =
     rs_then (message_box_mut ident (\<lambda>v. v\<lparr>mb_messages := mb_messages v @ [message]\<rparr>))
       (rs_return None)"
| "send_loop ident message (thread_id # waiters) =
     rs_then (message_box_mut ident (\<lambda>v. v\<lparr>mb_waiters := waiters\<rparr>))
     (rs_bind (rs_get (\<lambda>k. Kernel_wait_matches k thread_id (WaitReason_MessageBox ident)))
     (\<lambda>matches.
     if matches then
       rs_then (Kernel_complete_wait thread_id 0 (Some message)) (rs_return (Some thread_id))
     else send_loop ident message waiters))"

definition Kernel_send_message :: "u32 \<Rightarrow> u32 \<Rightarrow> u32 option kernel_op" where
  "Kernel_send_message ident message =
     (if message = 0 \<or> message AND 3 \<noteq> 0 then rs_fail KernelError_IllegalObject
      else rs_bind (get_message_box ident) (\<lambda>message_box.
        send_loop ident message (mb_waiters message_box)))"

definition Kernel_receive_message :: "u32 \<Rightarrow> Ticks option \<Rightarrow> (u32 + ScheduleAction) bios_op" where
  "Kernel_receive_message ident timeout =
     rs_bind (rs_map_err BiosError_Kernel (rs_fst (get_current KernelError_CannotWait)))
     (\<lambda>thread_id.
     rs_bind (rs_map_err BiosError_Kernel (rs_fst (get_message_box ident))) (\<lambda>message_box.
     case mb_messages message_box of
       message # messages \<Rightarrow>
         rs_then (rs_map_err BiosError_Kernel (rs_fst
           (message_box_mut ident (\<lambda>v. v\<lparr>mb_messages := messages\<rparr>))))
         (rs_return (Inl message))
     | [] \<Rightarrow>
         rs_bind (rs_fst (rs_get kn_threads)) (\<lambda>threads.
         rs_then (rs_map_err BiosError_Kernel (rs_fst (message_box_mut ident (\<lambda>v.
           v\<lparr>mb_waiters := insert_waiter (mb_waiters v) thread_id (mb_attributes v) threads\<rparr>))))
         (rs_bind (rs_fst (wait_deadline timeout)) (\<lambda>deadline.
         rs_map Inr (rs_map_err BiosError_Kernel
           (Kernel_block_current (WaitReason_MessageBox ident) deadline)))))))"

definition Kernel_poll_message :: "u32 \<Rightarrow> u32 kernel_op" where
  "Kernel_poll_message ident =
     rs_bind (get_message_box ident) (\<lambda>message_box.
     case mb_messages message_box of
       [] \<Rightarrow> rs_fail KernelError_MessageBoxNoMessage
     | message # messages \<Rightarrow>
         rs_then (message_box_mut ident (\<lambda>v. v\<lparr>mb_messages := messages\<rparr>)) (rs_return message))"

section \<open>Fixed pools\<close>

definition Kernel_create_fixed_pool :: "FixedPoolSpec \<Rightarrow> GuestRange \<Rightarrow> u32 kernel_op" where
  "Kernel_create_fixed_pool spec guest_range =
     rs_then (rs_lift (validate_attributes (fps_attributes spec)))
     (if fps_block_size spec = 0 \<or> fps_blocks spec = 0 \<or> fps_block_size spec AND 3 \<noteq> 0
      then rs_fail KernelError_IllegalMemorySize
      else
        rs_bind (rs_lift (ok_or
          (checked_mul_n 32 (unat (fps_block_size spec)) (unat (fps_blocks spec)))
          KernelError_IllegalMemorySize)) (\<lambda>bytes.
        rs_then (rs_lift (map_err (\<lambda>_. KernelError_IllegalMemoryBlock)
          (GuestRange_validate guest_range (fps_base spec) bytes 4)))
        (\<lambda>k. let (r, t) = FixedTable_insert (kn_fixed_pools k)
               \<lparr>fp_attributes = fps_attributes spec, fp_block_size = fps_block_size spec,
                fp_free = map (\<lambda>index. fps_base spec + of_nat index * fps_block_size spec)
                            [0..<unat (fps_blocks spec)],
                fp_allocated = {}, fp_waiters = []\<rparr>
             in (r, k\<lparr>kn_fixed_pools := t\<rparr>))))"

definition Kernel_delete_fixed_pool :: "u32 \<Rightarrow> unit kernel_op" where
  "Kernel_delete_fixed_pool ident =
     rs_bind (get_fixed_pool ident) (\<lambda>pool.
     if fp_allocated pool \<noteq> {} then rs_fail KernelError_MemoryInUse
     else
       rs_bind (\<lambda>k. let (r, t) = FixedTable_remove (kn_fixed_pools k) ident
          in (ok_or r KernelError_UnknownFixedPoolId, k\<lparr>kn_fixed_pools := t\<rparr>)) (\<lambda>pool.
       Kernel_release_deleted_waiters (fp_waiters pool)))"

definition Kernel_allocate_fixed :: "u32 \<Rightarrow> Ticks option \<Rightarrow> (u32 + ScheduleAction) bios_op" where
  "Kernel_allocate_fixed ident timeout =
     rs_bind (rs_map_err BiosError_Kernel (rs_fst (get_current KernelError_CannotWait)))
     (\<lambda>thread_id.
     rs_bind (rs_map_err BiosError_Kernel (rs_fst (get_fixed_pool ident))) (\<lambda>pool.
     case fp_free pool of
       address # free \<Rightarrow>
         rs_then (rs_map_err BiosError_Kernel (rs_fst (fixed_pool_mut ident (\<lambda>v.
           v\<lparr>fp_free := free, fp_allocated := insert address (fp_allocated v)\<rparr>))))
         (rs_return (Inl address))
     | [] \<Rightarrow>
         rs_bind (rs_fst (rs_get kn_threads)) (\<lambda>threads.
         rs_then (rs_map_err BiosError_Kernel (rs_fst (fixed_pool_mut ident (\<lambda>v.
           v\<lparr>fp_waiters := insert_waiter (fp_waiters v) thread_id (fp_attributes v) threads\<rparr>))))
         (rs_bind (rs_fst (wait_deadline timeout)) (\<lambda>deadline.
         rs_map Inr (rs_map_err BiosError_Kernel
           (Kernel_block_current (WaitReason_FixedPool ident) deadline)))))))"

fun free_fixed_loop :: "u32 \<Rightarrow> u32 \<Rightarrow> u32 list \<Rightarrow> u32 option kernel_op" where
  "free_fixed_loop ident address [] =
     rs_then (fixed_pool_mut ident (\<lambda>v. v\<lparr>fp_free := fp_free v @ [address]\<rparr>)) (rs_return None)"
| "free_fixed_loop ident address (thread_id # waiters) =
     rs_then (fixed_pool_mut ident (\<lambda>v. v\<lparr>fp_waiters := waiters\<rparr>))
     (rs_bind (rs_get (\<lambda>k. Kernel_wait_matches k thread_id (WaitReason_FixedPool ident)))
     (\<lambda>matches.
     if matches then
       rs_then (fixed_pool_mut ident (\<lambda>v. v\<lparr>fp_allocated := insert address (fp_allocated v)\<rparr>))
       (rs_then (Kernel_complete_wait thread_id 0 (Some address)) (rs_return (Some thread_id)))
     else free_fixed_loop ident address waiters))"

definition Kernel_free_fixed :: "u32 \<Rightarrow> u32 \<Rightarrow> u32 option kernel_op" where
  "Kernel_free_fixed ident address =
     rs_bind (get_fixed_pool ident) (\<lambda>pool.
     if address \<notin> fp_allocated pool then rs_fail KernelError_IllegalMemoryBlock
     else
       rs_then (fixed_pool_mut ident (\<lambda>v. v\<lparr>fp_allocated := fp_allocated v - {address}\<rparr>))
         (free_fixed_loop ident address (fp_waiters pool)))"

definition Kernel_fixed_block_size :: "u32 \<Rightarrow> u32 kernel_op" where
  "Kernel_fixed_block_size ident = rs_map fp_block_size (get_fixed_pool ident)"

section \<open>Variable pools\<close>

definition Kernel_create_variable_pool :: "VariablePoolSpec \<Rightarrow> GuestRange \<Rightarrow> u32 kernel_op" where
  "Kernel_create_variable_pool spec guest_range =
     rs_then (rs_lift (validate_attributes (vps_attributes spec)))
     (if vps_size spec = 0 \<or> vps_size spec AND 3 \<noteq> 0 then rs_fail KernelError_IllegalMemorySize
      else
        rs_then (rs_lift (map_err (\<lambda>_. KernelError_IllegalMemoryBlock)
          (GuestRange_validate guest_range (vps_base spec) (unat (vps_size spec)) 4)))
        (\<lambda>k. let (r, t) = FixedTable_insert (kn_variable_pools k)
               \<lparr>vp_attributes = vps_attributes spec,
                vp_free = [\<lparr>fr_address = vps_base spec, fr_size = vps_size spec\<rparr>],
                vp_allocated = [], vp_waiters = []\<rparr>
             in (r, k\<lparr>kn_variable_pools := t\<rparr>)))"

definition Kernel_delete_variable_pool :: "u32 \<Rightarrow> unit kernel_op" where
  "Kernel_delete_variable_pool ident =
     rs_bind (get_variable_pool ident) (\<lambda>pool.
     if vp_allocated pool \<noteq> [] then rs_fail KernelError_MemoryInUse
     else
       rs_bind (\<lambda>k. let (r, t) = FixedTable_remove (kn_variable_pools k) ident
          in (ok_or r KernelError_UnknownVariablePoolId, k\<lparr>kn_variable_pools := t\<rparr>)) (\<lambda>pool.
       Kernel_release_deleted_waiters (vp_waiters pool)))"

definition Kernel_allocate_variable ::
    "u32 \<Rightarrow> u32 \<Rightarrow> Ticks option \<Rightarrow> (u32 + ScheduleAction) bios_op" where
  "Kernel_allocate_variable ident requested timeout =
     rs_bind (rs_map_err BiosError_Kernel (rs_lift (align_pool_size requested))) (\<lambda>bytes.
     rs_bind (rs_map_err BiosError_Kernel (rs_fst (get_current KernelError_CannotWait)))
     (\<lambda>thread_id.
     rs_bind (rs_map_err BiosError_Kernel (rs_fst (get_variable_pool ident))) (\<lambda>pool.
     case allocate_region pool bytes of
       (Some address, pool') \<Rightarrow>
         rs_then (rs_map_err BiosError_Kernel (rs_fst (variable_pool_mut ident (\<lambda>_. pool'))))
         (rs_return (Inl address))
     | (None, _) \<Rightarrow>
         rs_bind (rs_fst (rs_get kn_threads)) (\<lambda>threads.
         rs_then (rs_map_err BiosError_Kernel (rs_fst (variable_pool_mut ident (\<lambda>v.
           v\<lparr>vp_waiters := insert_waiter (vp_waiters v) thread_id (vp_attributes v) threads\<rparr>))))
         (rs_bind (rs_fst (wait_deadline timeout)) (\<lambda>deadline.
         rs_map Inr (rs_map_err BiosError_Kernel
           (Kernel_block_current (WaitReason_VariablePool ident bytes) deadline))))))))"

definition variable_wait_of :: "u32 \<Rightarrow> Kernel \<Rightarrow> u32 \<Rightarrow> u32 option" where
  "variable_wait_of ident k thread_id =
     Option.bind (FixedTable_get (kn_threads k) thread_id) (\<lambda>thread.
       case th_state thread of
         ThreadState_Waiting (WaitReason_VariablePool wait_id requested) \<Rightarrow>
           (if wait_id = ident then Some requested else None)
       | _ \<Rightarrow> None)"

fun free_variable_loop ::
    "u32 \<Rightarrow> u32 list \<Rightarrow> u32 list \<Rightarrow> u32 list \<Rightarrow> (u32 list \<times> u32 list) kernel_op" where
  "free_variable_loop ident [] retained ready = rs_return (retained, ready)"
| "free_variable_loop ident (thread_id # queued) retained ready =
     rs_bind (rs_get (\<lambda>k. variable_wait_of ident k thread_id)) (\<lambda>requested.
     case requested of
       None \<Rightarrow> free_variable_loop ident queued retained ready
     | Some requested \<Rightarrow>
         rs_bind (get_variable_pool ident) (\<lambda>pool.
         let (allocation, pool') = allocate_region pool requested in
         rs_then (variable_pool_mut ident (\<lambda>_. pool'))
         (case allocation of
            Some block \<Rightarrow>
              rs_then (Kernel_complete_wait thread_id 0 (Some block))
                (free_variable_loop ident queued retained (ready @ [thread_id]))
          | None \<Rightarrow> free_variable_loop ident queued (retained @ [thread_id]) ready)))"

text \<open>The block goes back to the free list and the queue is taken to be served.\<close>

definition free_region :: "u32 \<Rightarrow> u32 \<Rightarrow> VariablePool \<Rightarrow> VariablePool" where
  "free_region address bytes v = v\<lparr>
     vp_allocated := AList.delete address (vp_allocated v),
     vp_free := coalesce_regions (vp_free v @ [\<lparr>fr_address = address, fr_size = bytes\<rparr>]),
     vp_waiters := []\<rparr>"

definition Kernel_free_variable :: "u32 \<Rightarrow> u32 \<Rightarrow> (u32 list) kernel_op" where
  "Kernel_free_variable ident address =
     rs_bind (get_variable_pool ident) (\<lambda>pool.
     rs_bind (rs_lift (ok_or (map_of (vp_allocated pool) address) KernelError_IllegalMemoryBlock))
     (\<lambda>bytes.
     rs_then (variable_pool_mut ident (free_region address bytes))
     (rs_bind (free_variable_loop ident (vp_waiters pool) [] []) (\<lambda>(retained, ready).
      rs_then (variable_pool_mut ident (\<lambda>v. v\<lparr>vp_waiters := retained\<rparr>)) (rs_return ready)))))"

section \<open>Alarms and time\<close>

definition insert_alarm_at :: "u32 \<Rightarrow> Alarm \<Rightarrow> unit kernel_op" where
  "insert_alarm_at ident v = (\<lambda>k. let (r, t) = FixedTable_insert_at (kn_alarms k) ident v
     in (r, k\<lparr>kn_alarms := t\<rparr>))"

definition Kernel_set_alarm ::
    "Ticks \<Rightarrow> u32 \<Rightarrow> u32 \<Rightarrow> GuestRange \<Rightarrow> (Kernel, BiosError, u32) rs" where
  "Kernel_set_alarm delay entry argument guest_range =
     rs_then (rs_lift (map_err (\<lambda>_. BiosError_Kernel KernelError_IllegalEntry)
       (GuestRange_validate guest_range entry 4 4)))
     (rs_bind (rs_try (\<lambda>k.
       map_err BiosError_Clock (Deadline_checked_advance (kn_now k) delay))) (\<lambda>deadline.
     rs_bind (rs_try (\<lambda>k. ok_or (FixedTable_next_id (kn_alarms k))
       (BiosError_Kernel KernelError_NoMemory))) (\<lambda>ident.
     rs_then (rs_map_err BiosError_Scheduler (schedule_event (alarm_event ident) deadline))
     (rs_then (rs_map_err BiosError_Kernel
       (insert_alarm_at ident \<lparr>alarm_entry = entry, alarm_argument = argument\<rparr>))
     (rs_return ident)))))"

definition remove_alarm :: "u32 \<Rightarrow> (Alarm option) kernel_op" where
  "remove_alarm ident = (\<lambda>k. let (r, t) = FixedTable_remove (kn_alarms k) ident
     in (Inr r, k\<lparr>kn_alarms := t\<rparr>))"

definition Kernel_cancel_alarm :: "u32 \<Rightarrow> u32 kernel_op" where
  "Kernel_cancel_alarm ident =
     rs_bind (remove_alarm ident) (\<lambda>alarm.
     rs_bind (rs_lift (ok_or alarm KernelError_IllegalObject)) (\<lambda>alarm.
     rs_then (cancel_event (alarm_event ident)) (rs_return (alarm_entry alarm))))"

text \<open>What one due event does; the result is what it pushes on the event list.\<close>

definition Kernel_due :: "EventId \<Rightarrow> (KernelEvent list) kernel_op" where
  "Kernel_due raw =
     (if WAIT_EVENT_BASE \<le> raw \<and> raw < ALARM_EVENT_BASE then
        (let ident = raw - WAIT_EVENT_BASE in
         rs_bind (rs_get (\<lambda>k. Option.bind (FixedTable_get (kn_threads k) ident) wait_reason))
         (\<lambda>reason.
         case reason of
           None \<Rightarrow> rs_return []
         | Some reason \<Rightarrow>
             rs_then (rs_modify (Kernel_remove_waiter ident reason))
             (rs_then (Kernel_complete_wait ident
                 (if reason = WaitReason_Delay then 0
                  else KernelError_code KernelError_ReleaseWait) None)
             (rs_return [KernelEvent_ThreadReady ident]))))
      else if ALARM_EVENT_BASE \<le> raw then
        rs_bind (remove_alarm (raw - ALARM_EVENT_BASE)) (\<lambda>alarm.
        case alarm of
          None \<Rightarrow> rs_return []
        | Some alarm \<Rightarrow>
            rs_return [KernelEvent_Alarm (raw - ALARM_EVENT_BASE)
              \<lparr>cb_entry = alarm_entry alarm, cb_argument = alarm_argument alarm,
               cb_return_address = RETURN_ENTRY, cb_source = raw - ALARM_EVENT_BASE\<rparr>])
      else rs_return [])"

lemma queue_cancel: "length (sched_queue (snd (Scheduler_cancel s e))) \<le> length (sched_queue s)"
  by (auto simp: Scheduler_cancel_def length_remove1 split: option.splits prod.splits)

lemma queue_pop:
  "Scheduler_pop_due s now = (Some due, s') \<Longrightarrow> length (sched_queue s') < length (sched_queue s)"
  by (auto simp: Scheduler_pop_due_def split: list.splits if_splits)

lemma scheduler_remove_waiter [simp]: "kn_scheduler (Kernel_remove_waiter i r k) = kn_scheduler k"
  by (cases r) (simp_all add: Kernel_remove_waiter_def)

lemma queue_complete_wait:
  "length (sched_queue (kn_scheduler (snd (Kernel_complete_wait i r v k))))
     \<le> length (sched_queue (kn_scheduler k))"
  by (auto simp: Kernel_complete_wait_def rs_then_def rs_bind_def cancel_event_def rs_modify_def
      Kernel_take_ready_order_def get_thread_def rs_try_def ok_or_def rs_fail_def thread_mut_def
      Let_def intro: queue_cancel split: option.splits sum.splits prod.splits)

lemma then_modify: "rs_then (rs_modify f) m k = m (f k)"
  by (simp add: rs_then_def rs_bind_def rs_modify_def)

lemma queue_due:
  "length (sched_queue (kn_scheduler (snd (Kernel_due raw k)))) \<le> length (sched_queue (kn_scheduler k))"
proof -
  have "length (sched_queue (kn_scheduler (snd (rs_then (Kernel_complete_wait i r v) (rs_return x) k))))
      \<le> length (sched_queue (kn_scheduler k))" for i r v x and k :: Kernel
    using queue_complete_wait [of i r v k]
    by (auto simp: rs_then_def rs_bind_def rs_return_def split: sum.splits prod.splits)
  then have "length (sched_queue (kn_scheduler (snd (rs_then (rs_modify (Kernel_remove_waiter i w))
      (rs_then (Kernel_complete_wait i r v) (rs_return x)) k)))) \<le> length (sched_queue (kn_scheduler k))"
    for i w r v x and k :: Kernel
    unfolding then_modify by (metis scheduler_remove_waiter)
  then show ?thesis
    by (auto simp: Kernel_due_def Let_def rs_bind_def rs_get_def rs_return_def remove_alarm_def
        split: option.splits sum.splits prod.splits)
qed

lemma advance_decreases:
  assumes "Scheduler_pop_due (kn_scheduler k) now = (Some due, s)"
    and "Kernel_due raw (k\<lparr>kn_scheduler := s\<rparr>) = (Inr es, k')"
  shows "length (sched_queue (kn_scheduler k')) < length (sched_queue (kn_scheduler k))"
  using queue_due [of raw "k\<lparr>kn_scheduler := s\<rparr>"] queue_pop [OF assms(1)] by (simp add: assms(2))

function advance_loop :: "Deadline \<Rightarrow> KernelEvent list \<Rightarrow> (KernelEvent list) kernel_op" where
  "advance_loop now events k =
     (case Scheduler_pop_due (kn_scheduler k) now of
        (None, s) \<Rightarrow> (Inr events, k\<lparr>kn_scheduler := s\<rparr>)
      | (Some due, s) \<Rightarrow>
          (case Kernel_due (due_id due) (k\<lparr>kn_scheduler := s\<rparr>) of
             (Inl e, k') \<Rightarrow> (Inl e, k')
           | (Inr es, k') \<Rightarrow> advance_loop now (events @ es) k'))"
  by pat_completeness auto
termination
  by (relation "measure (\<lambda>(_, _, k). length (sched_queue (kn_scheduler k)))")
    (auto intro: advance_decreases dest: sym)

declare advance_loop.simps [simp del]

definition Kernel_advance_to :: "Deadline \<Rightarrow> (KernelEvent list) kernel_op" where
  "Kernel_advance_to now = (\<lambda>k.
     if now < kn_now k then (Inl KernelError_IllegalSize, k)
     else advance_loop now [] (k\<lparr>kn_now := now\<rparr>))"

section \<open>Callbacks\<close>

definition Kernel_enter_callback :: "CallbackRequest \<Rightarrow> unit context_op" where
  "Kernel_enter_callback callback = (\<lambda>(k, context).
     if length (kn_callback_contexts k) = CALLBACK_DEPTH
     then (Inl KernelError_IllegalContext, (k, context))
     else (Inr (), (k\<lparr>kn_callback_contexts := kn_callback_contexts k @ [context]\<rparr>,
                    CallbackRequest_apply callback context)))"

definition Kernel_return_from_callback :: "unit context_op" where
  "Kernel_return_from_callback = (\<lambda>(k, context).
     if kn_callback_contexts k = [] then (Inl KernelError_IllegalContext, (k, context))
     else (Inr (), (k\<lparr>kn_callback_contexts := butlast (kn_callback_contexts k)\<rparr>,
                    last (kn_callback_contexts k))))"

end
