(* ===== verification/Kernel_Proofs.thy ===== *)
theory Kernel_Proofs
  imports Kernel
begin

text \<open>
  Invariants of the IOP kernel. The kernel is seen through its tables as maps;
  \<open>kernel_inv\<close> has two parameters, the thread that may be running and the waits
  that may be uncovered, which are \<open>kn_current_thread\<close> and nothing between two
  calls and something else in the middle of one.
\<close>

section \<open>Tables as maps\<close>

lemma get_table_mut:
  "FixedTable_get (table_mut i f t) = (\<lambda>h. if h = i then map_option f (FixedTable_get t i)
     else FixedTable_get t h)"
proof (cases "FixedTable_get_mut t i f")
  case None
  moreover from None have "FixedTable_get t i = None" by (simp add: get_mut_None_iff)
  ultimately show ?thesis by (auto simp: table_mut_def fun_eq_iff)
next
  case (Some t')
  then obtain j v where j: "FixedTable_index t i = Some j" and v: "ft_entries t ! j = Some v"
    and t': "t' = t\<lparr>ft_entries := (ft_entries t)[j := Some (f v)], ft_len := ft_len t\<rparr>"
    by (auto simp: FixedTable_get_mut_def bind_eq_Some_conv)
  have "FixedTable_get t' = (FixedTable_get t)(i := Some (f v))"
    unfolding t' by (rule get_entry_update [OF j])
  moreover have "FixedTable_get t i = Some v" using j v by (simp add: FixedTable_get_def)
  ultimately show ?thesis using Some by (auto simp: table_mut_def fun_eq_iff)
qed

definition table_dims :: "nat \<Rightarrow> 'a FixedTable \<Rightarrow> bool" where
  "table_dims N t \<longleftrightarrow> table_ok t \<and> ft_first_id t = 1 \<and> length (ft_entries t) = N"

lemma table_dims_new: "N < 2 ^ 31 \<Longrightarrow> table_dims N (FixedTable_new N 1)"
  by (auto simp: table_dims_def intro!: table_ok_new) (simp_all add: FixedTable_new_def)

lemma table_dims_mut: "table_dims N t \<Longrightarrow> table_dims N (table_mut i f t)"
  by (cases "FixedTable_get_mut t i f")
    (auto simp: table_dims_def table_mut_def dest: get_mut_Some(2),
     auto simp: FixedTable_get_mut_def bind_eq_Some_conv)

lemma table_dims_insert_at:
  "table_dims N t \<Longrightarrow> FixedTable_insert_at t h v = (r, t') \<Longrightarrow> table_dims N t'"
proof (cases r)
  case (Inl e)
  assume "table_dims N t" "FixedTable_insert_at t h v = (r, t')"
  with Inl show ?thesis using insert_at_Inl [of t h v e t'] by simp
next
  case (Inr u)
  assume t: "table_dims N t" and i: "FixedTable_insert_at t h v = (r, t')"
  then have "table_ok t'" using Inr insert_at_Inr(3) [of t h v t'] by (simp add: table_dims_def)
  then show ?thesis using t i
    by (auto simp: table_dims_def FixedTable_insert_at_def split: option.splits if_splits)
qed

lemma table_dims_insert:
  assumes "table_dims N t" and "FixedTable_insert t v = (r, t')"
  shows "table_dims N t'"
proof (cases "FixedTable_next_id t")
  case None
  then show ?thesis using assms by (simp add: FixedTable_insert_def)
next
  case (Some h)
  then have "t' = snd (FixedTable_insert_at t h v)"
    using assms by (auto simp: FixedTable_insert_def split: prod.splits sum.splits)
  then show ?thesis using assms(1) table_dims_insert_at [of N t h v] by (metis prod.collapse)
qed

lemma table_dims_remove:
  assumes "table_dims N t" and "FixedTable_remove t h = (r, t')"
  shows "table_dims N t'"
proof -
  have "table_ok t'" using assms remove_laws(3) [of t h r t'] by (simp add: table_dims_def)
  then show ?thesis using assms
    by (auto simp: table_dims_def FixedTable_remove_def Let_def split: option.splits if_splits)
qed

lemma table_dims_ok [simp]: "table_dims N t \<Longrightarrow> table_ok t"
  by (simp add: table_dims_def)

lemma table_dims_id:
  "table_dims N t \<Longrightarrow> FixedTable_get t h = Some v \<Longrightarrow> 0 < unat h \<and> unat h \<le> N"
  by (auto simp: table_dims_def dest!: get_SomeD index_SomeD(3))

section \<open>Primitive steps\<close>

abbreviation thr :: "Kernel \<Rightarrow> u32 \<Rightarrow> Thread option" where
  "thr k \<equiv> FixedTable_get (kn_threads k)"

abbreviation sems :: "Kernel \<Rightarrow> u32 \<Rightarrow> Semaphore option" where
  "sems k \<equiv> FixedTable_get (kn_semaphores k)"

abbreviation flags :: "Kernel \<Rightarrow> u32 \<Rightarrow> EventFlag option" where
  "flags k \<equiv> FixedTable_get (kn_event_flags k)"

abbreviation boxes :: "Kernel \<Rightarrow> u32 \<Rightarrow> MessageBox option" where
  "boxes k \<equiv> FixedTable_get (kn_message_boxes k)"

abbreviation fpools :: "Kernel \<Rightarrow> u32 \<Rightarrow> FixedPool option" where
  "fpools k \<equiv> FixedTable_get (kn_fixed_pools k)"

abbreviation vpools :: "Kernel \<Rightarrow> u32 \<Rightarrow> VariablePool option" where
  "vpools k \<equiv> FixedTable_get (kn_variable_pools k)"

abbreviation alarms :: "Kernel \<Rightarrow> u32 \<Rightarrow> Alarm option" where
  "alarms k \<equiv> FixedTable_get (kn_alarms k)"

abbreviation active :: "Kernel \<Rightarrow> EventId \<Rightarrow> (Deadline \<times> u64) option" where
  "active k \<equiv> map_of (sched_active (kn_scheduler k))"

lemma mut_conv:
  "(case FixedTable_get_mut t i f of None \<Rightarrow> a | Some t' \<Rightarrow> b t') =
   (case FixedTable_get t i of None \<Rightarrow> a | Some _ \<Rightarrow> b (table_mut i f t))"
proof (cases "FixedTable_get_mut t i f")
  case None
  moreover from None have "FixedTable_get t i = None" by (simp add: get_mut_None_iff)
  ultimately show ?thesis by simp
next
  case (Some t')
  then have "FixedTable_get t i \<noteq> None" by (metis get_mut_None_iff option.distinct(1))
  with Some show ?thesis by (auto simp: table_mut_def)
qed

lemma wp_thread_mut [rs_wp]:
  "rs_wp (thread_mut i f) Q E = (\<lambda>k. case thr k i of None \<Rightarrow> E KernelError_UnknownThreadId k
     | Some _ \<Rightarrow> Q () (k\<lparr>kn_threads := table_mut i f (kn_threads k)\<rparr>))"
  by (rule ext) (simp add: rs_wp_def thread_mut_def mut_conv split: option.split)

lemma wp_semaphore_mut [rs_wp]:
  "rs_wp (semaphore_mut i f) Q E = (\<lambda>k. case sems k i of None \<Rightarrow> E KernelError_UnknownSemaphoreId k
     | Some _ \<Rightarrow> Q () (k\<lparr>kn_semaphores := table_mut i f (kn_semaphores k)\<rparr>))"
  by (rule ext) (simp add: rs_wp_def semaphore_mut_def mut_conv split: option.split)

lemma wp_event_flag_mut [rs_wp]:
  "rs_wp (event_flag_mut i f) Q E = (\<lambda>k. case flags k i of None \<Rightarrow> E KernelError_UnknownEventFlagId k
     | Some _ \<Rightarrow> Q () (k\<lparr>kn_event_flags := table_mut i f (kn_event_flags k)\<rparr>))"
  by (rule ext) (simp add: rs_wp_def event_flag_mut_def mut_conv split: option.split)

lemma wp_message_box_mut [rs_wp]:
  "rs_wp (message_box_mut i f) Q E = (\<lambda>k. case boxes k i of None \<Rightarrow> E KernelError_UnknownMessageBoxId k
     | Some _ \<Rightarrow> Q () (k\<lparr>kn_message_boxes := table_mut i f (kn_message_boxes k)\<rparr>))"
  by (rule ext) (simp add: rs_wp_def message_box_mut_def mut_conv split: option.split)

lemma wp_fixed_pool_mut [rs_wp]:
  "rs_wp (fixed_pool_mut i f) Q E = (\<lambda>k. case fpools k i of None \<Rightarrow> E KernelError_UnknownFixedPoolId k
     | Some _ \<Rightarrow> Q () (k\<lparr>kn_fixed_pools := table_mut i f (kn_fixed_pools k)\<rparr>))"
  by (rule ext) (simp add: rs_wp_def fixed_pool_mut_def mut_conv split: option.split)

lemma wp_variable_pool_mut [rs_wp]:
  "rs_wp (variable_pool_mut i f) Q E = (\<lambda>k. case vpools k i of
       None \<Rightarrow> E KernelError_UnknownVariablePoolId k
     | Some _ \<Rightarrow> Q () (k\<lparr>kn_variable_pools := table_mut i f (kn_variable_pools k)\<rparr>))"
  by (rule ext) (simp add: rs_wp_def variable_pool_mut_def mut_conv split: option.split)

lemma wp_take_current [rs_wp]:
  "rs_wp (take_current e) Q E = (\<lambda>k. case kn_current_thread k of
       None \<Rightarrow> E e (k\<lparr>kn_current_thread := None\<rparr>)
     | Some i \<Rightarrow> Q i (k\<lparr>kn_current_thread := None\<rparr>))"
  by (rule ext) (simp add: rs_wp_def take_current_def ok_or_def split: option.split)

lemma wp_cancel_event [rs_wp]:
  "rs_wp (cancel_event e) Q E =
     (\<lambda>k. Q () (k\<lparr>kn_scheduler := snd (Scheduler_cancel (kn_scheduler k) e)\<rparr>))"
  by (simp add: cancel_event_def wp_modify)

lemma wp_take_ready_order [rs_wp]:
  "rs_wp Kernel_take_ready_order Q E = (\<lambda>k.
     if kn_next_ready_order k + 1 < 2 ^ 64
     then Q (kn_next_ready_order k) (k\<lparr>kn_next_ready_order := kn_next_ready_order k + 1\<rparr>)
     else E KernelError_NoMemory k)"
  by (rule ext) (simp add: rs_wp_def Kernel_take_ready_order_def checked_add_n_def)

lemmas get_object_defs = get_thread_def get_semaphore_def get_event_flag_def get_message_box_def
  get_fixed_pool_def get_variable_pool_def get_current_def

lemma case_ok_or:
  "(case ok_or x e of Inl e \<Rightarrow> f e | Inr v \<Rightarrow> g v) = (case x of None \<Rightarrow> f e | Some v \<Rightarrow> g v)"
  by (simp add: ok_or_def split: option.split)

section \<open>The invariant\<close>

text \<open>The 64-bit insertion sequences of the ready queue and of the event queue.\<close>

definition exhausted :: "Kernel \<Rightarrow> bool" where
  "exhausted k \<longleftrightarrow> 2 ^ 64 \<le> kn_next_ready_order k + 1
     \<or> 2 ^ 64 \<le> sched_next_sequence (kn_scheduler k) + 1"

definition tables_ok :: "Kernel \<Rightarrow> bool" where
  "tables_ok k \<longleftrightarrow> table_dims THREAD_CAPACITY (kn_threads k)
     \<and> table_dims SEMAPHORE_CAPACITY (kn_semaphores k)
     \<and> table_dims EVENT_FLAG_CAPACITY (kn_event_flags k)
     \<and> table_dims MESSAGE_BOX_CAPACITY (kn_message_boxes k)
     \<and> table_dims FIXED_POOL_CAPACITY (kn_fixed_pools k)
     \<and> table_dims VARIABLE_POOL_CAPACITY (kn_variable_pools k)
     \<and> table_dims ALARM_CAPACITY (kn_alarms k)"

definition running_ok :: "u32 option \<Rightarrow> (u32 \<Rightarrow> Thread option) \<Rightarrow> bool" where
  "running_ok R T \<longleftrightarrow>
     (\<forall>i t. T i = Some t \<longrightarrow> (th_state t = ThreadState_Running \<longleftrightarrow> R = Some i))
     \<and> (\<forall>i. R = Some i \<longrightarrow> T i \<noteq> None)"

definition orders_ok :: "nat \<Rightarrow> (u32 \<Rightarrow> Thread option) \<Rightarrow> bool" where
  "orders_ok n T \<longleftrightarrow>
     (\<forall>i t. T i = Some t \<longrightarrow> th_state t = ThreadState_Ready \<longrightarrow> th_ready_order t < n)
     \<and> (\<forall>i j s t. T i = Some s \<longrightarrow> T j = Some t \<longrightarrow> th_state s = ThreadState_Ready \<longrightarrow>
          th_state t = ThreadState_Ready \<longrightarrow> th_ready_order s = th_ready_order t \<longrightarrow> i = j)"

text \<open>
  A wait is covered: the object exists, has the thread in its queue and cannot
  serve it now; a delay has its deadline pending. The waits that have no object (sleep, vertical
  blank and module start) are the business of \<open>sleepers_ok\<close> and of the operations that end them.
\<close>

definition blocked :: "Kernel \<Rightarrow> u32 \<Rightarrow> WaitReason \<Rightarrow> bool" where
  "blocked k i r = (case r of
     WaitReason_Delay \<Rightarrow> active k (wait_event i) \<noteq> None
   | WaitReason_Semaphore s \<Rightarrow>
       (\<exists>v. sems k s = Some v \<and> i \<in> set (sem_waiters v) \<and> sem_count v = 0)
   | WaitReason_EventFlag s pattern mode \<Rightarrow>
       (\<exists>v. flags k s = Some v \<and> i \<in> set (ef_waiters v)
          \<and> \<not> event_satisfied (ef_bits v) pattern mode)
   | WaitReason_MessageBox s \<Rightarrow>
       (\<exists>v. boxes k s = Some v \<and> i \<in> set (mb_waiters v) \<and> mb_messages v = [])
   | WaitReason_FixedPool s \<Rightarrow>
       (\<exists>v. fpools k s = Some v \<and> i \<in> set (fp_waiters v) \<and> fp_free v = [])
   | WaitReason_VariablePool s bytes \<Rightarrow>
       (\<exists>v. vpools k s = Some v \<and> i \<in> set (vp_waiters v)
          \<and> (\<forall>region\<in>set (vp_free v). fr_size region < bytes))
   | _ \<Rightarrow> True)"

lemma blocked_cong:
  assumes "sems k' = sems k" and "flags k' = flags k" and "boxes k' = boxes k"
    and "fpools k' = fpools k" and "vpools k' = vpools k" and "active k' = active k"
  shows "blocked k' = blocked k"
  by (intro ext) (simp add: blocked_def assms split: WaitReason.split)

definition waits_ok :: "(u32 \<Rightarrow> WaitReason \<Rightarrow> bool) \<Rightarrow> Kernel \<Rightarrow> bool" where
  "waits_ok X k \<longleftrightarrow>
     (\<forall>i t r. thr k i = Some t \<longrightarrow> th_state t = ThreadState_Waiting r \<longrightarrow> X i r \<or> blocked k i r)"

text \<open>A thread that sleeps has no wakeup left to consume.\<close>

definition sleepers_ok :: "(u32 \<Rightarrow> Thread option) \<Rightarrow> bool" where
  "sleepers_ok T \<longleftrightarrow>
     (\<forall>i t. T i = Some t \<longrightarrow> th_state t = ThreadState_Waiting WaitReason_Sleep \<longrightarrow> th_wakeup_count t = 0)"

text \<open>Pending events belong to waiting threads and to live alarms, and every alarm has one.\<close>

definition events_ok :: "(u32 \<Rightarrow> Thread option) \<Rightarrow> (u32 \<Rightarrow> Alarm option) \<Rightarrow> Scheduler \<Rightarrow> bool" where
  "events_ok T AL s \<longleftrightarrow> Scheduler_inv s
     \<and> (\<forall>e v. map_of (sched_active s) e = Some v \<longrightarrow>
          (\<exists>i t r. e = wait_event i \<and> T i = Some t \<and> th_state t = ThreadState_Waiting r)
          \<or> (\<exists>i a. e = alarm_event i \<and> AL i = Some a))
     \<and> (\<forall>i a. AL i = Some a \<longrightarrow> map_of (sched_active s) (alarm_event i) \<noteq> None)"

definition sems_ok :: "(u32 \<Rightarrow> Semaphore option) \<Rightarrow> bool" where
  "sems_ok S \<longleftrightarrow> (\<forall>i v. S i = Some v \<longrightarrow> sem_count v \<le> sem_maximum v)"

definition region_ok :: "FreeRegion \<Rightarrow> bool" where
  "region_ok r \<longleftrightarrow> unat (fr_address r) + unat (fr_size r) < 2 ^ 32"

definition fixed_pool_ok :: "FixedPool \<Rightarrow> bool" where
  "fixed_pool_ok v \<longleftrightarrow> distinct (fp_free v) \<and> set (fp_free v) \<inter> fp_allocated v = {}"

definition variable_pool_ok :: "VariablePool \<Rightarrow> bool" where
  "variable_pool_ok v \<longleftrightarrow> (\<forall>r\<in>set (vp_free v). region_ok r)
     \<and> (\<forall>(a, n)\<in>set (vp_allocated v). unat a + unat n < 2 ^ 32)"

lemma fixed_pool_ok_waiters [simp]: "fixed_pool_ok (v\<lparr>fp_waiters := ws\<rparr>) = fixed_pool_ok v"
  by (simp add: fixed_pool_ok_def)

lemma variable_pool_ok_waiters [simp]:
  "variable_pool_ok (v\<lparr>vp_waiters := ws\<rparr>) = variable_pool_ok v"
  by (simp add: variable_pool_ok_def)

definition fixed_ok :: "(u32 \<Rightarrow> FixedPool option) \<Rightarrow> bool" where
  "fixed_ok P \<longleftrightarrow> (\<forall>i v. P i = Some v \<longrightarrow> fixed_pool_ok v)"

definition variable_ok :: "(u32 \<Rightarrow> VariablePool option) \<Rightarrow> bool" where
  "variable_ok P \<longleftrightarrow> (\<forall>i v. P i = Some v \<longrightarrow> variable_pool_ok v)"

definition kernel_inv :: "u32 option \<Rightarrow> (u32 \<Rightarrow> WaitReason \<Rightarrow> bool) \<Rightarrow> Kernel \<Rightarrow> bool" where
  "kernel_inv R X k \<longleftrightarrow> tables_ok k \<and> running_ok R (thr k) \<and>
     orders_ok (kn_next_ready_order k) (thr k) \<and> waits_ok X k \<and> sleepers_ok (thr k) \<and>
     events_ok (thr k) (alarms k) (kn_scheduler k) \<and> sems_ok (sems k) \<and>
     fixed_ok (fpools k) \<and> variable_ok (vpools k)"

abbreviation no_exemption :: "u32 \<Rightarrow> WaitReason \<Rightarrow> bool" where
  "no_exemption \<equiv> \<lambda>_ _. False"

definition kernel_ok :: "Kernel \<Rightarrow> bool" where
  "kernel_ok k \<longleftrightarrow> kernel_inv (kn_current_thread k) no_exemption k"

text \<open>The state after a method: the invariant, or a 64-bit sequence has run out.\<close>

definition fin :: "Kernel \<Rightarrow> bool" where
  "fin k \<longleftrightarrow> exhausted k \<or> kernel_ok k"

section \<open>Events\<close>

lemma wait_event_inj [simp]: "wait_event i = wait_event j \<longleftrightarrow> i = j"
  by (simp add: wait_event_def)

lemma alarm_event_inj [simp]: "alarm_event i = alarm_event j \<longleftrightarrow> i = j"
  by (simp add: alarm_event_def)

lemma wait_not_alarm:
  assumes "unat i \<le> 64" and "unat j \<le> 64"
  shows "wait_event i \<noteq> alarm_event j"
proof
  assume "wait_event i = alarm_event j"
  then have "i = 0x1000 + j" by (simp add: wait_event_def alarm_event_def WAIT_EVENT_BASE_def
        ALARM_EVENT_BASE_def algebra_simps)
  then have "unat i = 0x1000 + unat j" using assms(2) by (simp add: unat_word_ariths)
  then show False using assms(1) by simp
qed

lemma thread_id_bound: "tables_ok k \<Longrightarrow> thr k i = Some t \<Longrightarrow> 0 < unat i \<and> unat i \<le> 64"
  using table_dims_id [of 64 "kn_threads k" i t] by (simp add: tables_ok_def THREAD_CAPACITY_def)

lemma alarm_id_bound: "tables_ok k \<Longrightarrow> alarms k i = Some t \<Longrightarrow> 0 < unat i \<and> unat i \<le> 64"
  using table_dims_id [of 32 "kn_alarms k" i t] by (simp add: tables_ok_def ALARM_CAPACITY_def)

lemma cancel_active:
  "Scheduler_inv s \<Longrightarrow> Scheduler_inv (snd (Scheduler_cancel s e))
     \<and> map_of (sched_active (snd (Scheduler_cancel s e))) = (map_of (sched_active s))(e := None)"
  using Scheduler_cancel_cases [of s e] by (cases "Scheduler_cancel s e") simp

lemma cancel_sequence [simp]:
  "sched_next_sequence (snd (Scheduler_cancel s e)) = sched_next_sequence s"
  by (simp add: Scheduler_cancel_def split: option.splits prod.splits)

lemma schedule_active:
  assumes "Scheduler_inv s" and "Scheduler_schedule s e d = (Inr u, s')"
  shows "Scheduler_inv s'"
    and "map_of (sched_active s') = (map_of (sched_active s))(e \<mapsto> (d, sched_next_sequence s))"
  using Scheduler_schedule_entries(3) [OF assms(1), of e d s'] assms(2)
  by (simp_all, auto simp: Scheduler_schedule_def Let_def map_of_update_delete
      split: option.splits)

lemma schedule_error:
  "Scheduler_schedule s e d = (Inl x, s') \<Longrightarrow> s' = s \<and> 2 ^ 64 \<le> sched_next_sequence s + 1"
  using Scheduler_schedule_error [of s e d x s'] by simp

lemma events_cancel_thread:
  assumes ev: "events_ok T AL s" and i: "unat i \<le> 64"
    and al: "\<And>j a. AL j = Some a \<Longrightarrow> unat j \<le> 64"
    and T': "\<And>j. j \<noteq> i \<Longrightarrow> T' j = T j"
  shows "events_ok T' AL (snd (Scheduler_cancel s (wait_event i)))"
proof -
  have inv: "Scheduler_inv s" using ev by (simp add: events_ok_def)
  note c = cancel_active [OF inv, of "wait_event i"]
  show ?thesis
    unfolding events_ok_def
  proof (intro conjI allI impI)
    show "Scheduler_inv (snd (Scheduler_cancel s (wait_event i)))" using c by blast
  next
    fix e v
    assume "map_of (sched_active (snd (Scheduler_cancel s (wait_event i)))) e = Some v"
    then have e: "e \<noteq> wait_event i" "map_of (sched_active s) e = Some v"
      using c by (auto split: if_splits)
    with ev have "(\<exists>i t r. e = wait_event i \<and> T i = Some t \<and> th_state t = ThreadState_Waiting r)
        \<or> (\<exists>i a. e = alarm_event i \<and> AL i = Some a)"
      unfolding events_ok_def by blast
    then show "(\<exists>i t r. e = wait_event i \<and> T' i = Some t \<and> th_state t = ThreadState_Waiting r)
        \<or> (\<exists>i a. e = alarm_event i \<and> AL i = Some a)"
      using e(1) T' by metis
  next
    fix j a assume a: "AL j = Some a"
    then have "alarm_event j \<noteq> wait_event i" using wait_not_alarm [OF i al [OF a]] by simp
    moreover have "map_of (sched_active s) (alarm_event j) \<noteq> None"
      using ev a unfolding events_ok_def by blast
    ultimately show "map_of (sched_active (snd (Scheduler_cancel s (wait_event i)))) (alarm_event j) \<noteq> None"
      using c by simp
  qed
qed

section \<open>Completing a wait\<close>

definition completed :: "u32 \<Rightarrow> (Thread \<Rightarrow> Thread) \<Rightarrow> Kernel \<Rightarrow> Kernel" where
  "completed i f k = k\<lparr>
     kn_scheduler := snd (Scheduler_cancel (kn_scheduler k) (wait_event i)),
     kn_next_ready_order := kn_next_ready_order k + 1,
     kn_threads := table_mut i f (kn_threads k)\<rparr>"

lemma blocked_other:
  assumes "Scheduler_inv (kn_scheduler k)" and "j \<noteq> i"
  shows "blocked (completed i f k) j r = blocked k j r"
  using cancel_active [OF assms(1), of "wait_event i"] assms(2)
  by (cases r) (simp_all add: blocked_def completed_def)

lemma kernel_inv_completed:
  assumes inv: "kernel_inv R X k" and t: "thr k i = Some t"
    and w: "th_state t = ThreadState_Waiting w"
    and f: "th_state (f t) = ThreadState_Ready" "th_ready_order (f t) = kn_next_ready_order k"
  shows "kernel_inv R (\<lambda>j r. X j r \<and> j \<noteq> i) (completed i f k)"
proof -
  let ?k = "completed i f k"
  have thr: "thr ?k = (\<lambda>j. if j = i then Some (f t) else thr k j)"
    by (simp add: completed_def get_table_mut t fun_eq_iff)
  have tab: "tables_ok k" and sch: "Scheduler_inv (kn_scheduler k)"
    using inv by (simp_all add: kernel_inv_def events_ok_def)
  have "tables_ok ?k" using tab by (simp add: tables_ok_def completed_def table_dims_mut)
  moreover have "running_ok R (thr ?k)"
  proof -
    have "th_state t = ThreadState_Running \<longleftrightarrow> R = Some i"
      using inv t unfolding kernel_inv_def running_ok_def by blast
    with w have "R \<noteq> Some i" by simp
    then show ?thesis using inv f(1) by (auto simp: kernel_inv_def running_ok_def thr)
  qed
  moreover have "orders_ok (kn_next_ready_order ?k) (thr ?k)"
  proof -
    have "orders_ok (kn_next_ready_order k) (thr k)" using inv by (simp add: kernel_inv_def)
    then have less: "\<And>j u. thr k j = Some u \<Longrightarrow> th_state u = ThreadState_Ready \<Longrightarrow>
        th_ready_order u < kn_next_ready_order k"
      and inj: "\<And>j l u v. thr k j = Some u \<Longrightarrow> thr k l = Some v \<Longrightarrow>
        th_state u = ThreadState_Ready \<Longrightarrow> th_state v = ThreadState_Ready \<Longrightarrow>
        th_ready_order u = th_ready_order v \<Longrightarrow> j = l"
      unfolding orders_ok_def by blast+
    have next': "kn_next_ready_order ?k = Suc (kn_next_ready_order k)" by (simp add: completed_def)
    show ?thesis
      unfolding orders_ok_def thr next'
      using f less inj by (auto simp: less_Suc_eq split: if_splits dest: less)
  qed
  moreover have "sleepers_ok (thr ?k)"
    using inv f(1) unfolding kernel_inv_def sleepers_ok_def thr by (auto split: if_splits)
  moreover have "waits_ok (\<lambda>j r. X j r \<and> j \<noteq> i) ?k"
    using inv f(1) unfolding kernel_inv_def waits_ok_def thr
    by (auto simp: blocked_other [OF sch] split: if_splits)
  moreover have "events_ok (thr ?k) (alarms ?k) (kn_scheduler ?k)"
  proof -
    have "events_ok (thr k) (alarms k) (kn_scheduler k)" using inv by (simp add: kernel_inv_def)
    from events_cancel_thread [OF this, of i "thr ?k"] show ?thesis
      using thread_id_bound [OF tab t] alarm_id_bound [OF tab] thr by (simp add: completed_def)
  qed
  moreover have "sems ?k = sems k" "fpools ?k = fpools k" "vpools ?k = vpools k"
    by (simp_all add: completed_def)
  ultimately show ?thesis using inv by (simp add: kernel_inv_def)
qed

text \<open>A state that differs only in the event and the order counter.\<close>

lemma kernel_inv_cancel:
  assumes inv: "kernel_inv R X k" and i: "\<And>t r. thr k i = Some t \<Longrightarrow>
      th_state t \<noteq> ThreadState_Waiting r" and "unat i \<le> 64" and "n \<ge> kn_next_ready_order k"
  shows "kernel_inv R X (k\<lparr>
     kn_scheduler := snd (Scheduler_cancel (kn_scheduler k) (wait_event i)),
     kn_next_ready_order := n\<rparr>)"
proof -
  let ?k = "k\<lparr>kn_scheduler := snd (Scheduler_cancel (kn_scheduler k) (wait_event i)),
     kn_next_ready_order := n\<rparr>"
  have tab: "tables_ok k" and sch: "Scheduler_inv (kn_scheduler k)"
    using inv by (simp_all add: kernel_inv_def events_ok_def)
  have b: "blocked ?k j r = blocked k j r" if "j \<noteq> i" for j r
    using cancel_active [OF sch, of "wait_event i"] that
    by (cases r) (simp_all add: blocked_def)
  have "waits_ok X ?k"
    unfolding waits_ok_def
  proof (intro allI impI)
    fix j t r assume t: "thr ?k j = Some t" and r: "th_state t = ThreadState_Waiting r"
    then have "j \<noteq> i" using i by auto
    with t r inv show "X j r \<or> blocked ?k j r"
      unfolding kernel_inv_def waits_ok_def b [OF \<open>j \<noteq> i\<close>] by simp
  qed
  moreover have "events_ok (thr k) (alarms k) (snd (Scheduler_cancel (kn_scheduler k) (wait_event i)))"
    using inv assms(3) alarm_id_bound [OF tab]
    by (intro events_cancel_thread [of "thr k"]) (auto simp: kernel_inv_def)
  moreover have "orders_ok n (thr k)"
  proof -
    have "orders_ok (kn_next_ready_order k) (thr k)" using inv by (simp add: kernel_inv_def)
    then show ?thesis using assms(4) unfolding orders_ok_def by (meson less_le_trans)
  qed
  ultimately show ?thesis using inv by (simp add: kernel_inv_def tables_ok_def)
qed

lemma wait_result_simps [simp]:
  "th_state (wait_result n r v t) = ThreadState_Ready"
  "th_ready_order (wait_result n r v t) = n"
  by (simp_all add: wait_result_def Let_def)

lemma wp_complete_wait:
  assumes inv: "kernel_inv R X k" and t: "thr k i = Some t"
    and w: "th_state t = ThreadState_Waiting w"
    and Q: "kernel_inv R (\<lambda>j s. X j s \<and> j \<noteq> i)
        (completed i (wait_result (kn_next_ready_order k) r v) k) \<Longrightarrow>
        Q () (completed i (wait_result (kn_next_ready_order k) r v) k)"
    and E: "\<And>k'. exhausted k' \<Longrightarrow> E KernelError_NoMemory k'"
  shows "rs_wp (Kernel_complete_wait i r v) Q E k"
proof (cases "kn_next_ready_order k + 1 < 2 ^ 64")
  case True
  have "kernel_inv R (\<lambda>j s. X j s \<and> j \<noteq> i)
      (completed i (wait_result (kn_next_ready_order k) r v) k)"
    using inv t w by (rule kernel_inv_completed) simp_all
  from Q [OF this] show ?thesis
    using True t w
    by (simp add: Kernel_complete_wait_def rs_wp get_thread_def case_ok_or wait_reason_def
        completed_def)
next
  case False
  then show ?thesis
    by (auto simp: Kernel_complete_wait_def rs_wp intro!: E) (simp add: exhausted_def)
qed

section \<open>Scheduling decisions\<close>

lemma best_ready_Some:
  assumes "table_ok (kn_threads k)" and "Kernel_best_ready k = Some c"
  shows "\<exists>t. thr k c = Some t \<and> th_state t = ThreadState_Ready \<and>
    (\<forall>j u. thr k j = Some u \<longrightarrow> th_state u = ThreadState_Ready \<longrightarrow>
       (th_current_priority t, th_ready_order t) \<le> (th_current_priority u, th_ready_order u))"
proof -
  let ?xs = "filter (\<lambda>(_, thread). th_state thread = ThreadState_Ready) (FixedTable_iter (kn_threads k))"
  let ?f = "\<lambda>(_, thread). (th_current_priority thread, th_ready_order thread)"
  from assms(2) obtain t where m: "min_by_key ?f ?xs = Some (c, t)"
    by (auto simp: Kernel_best_ready_def)
  have set: "set ?xs = {(i, t). thr k i = Some t \<and> th_state t = ThreadState_Ready}"
    by (auto simp: iter_set [OF assms(1)])
  have mem: "(c, t) \<in> set ?xs" and least: "\<forall>p\<in>set ?xs. ?f (c, t) \<le> ?f p"
    using min_by_key_Some [OF m] by blast+
  from mem have "thr k c = Some t \<and> th_state t = ThreadState_Ready" unfolding set by blast
  moreover have "?f (c, t) \<le> ?f (j, u)" if "thr k j = Some u" "th_state u = ThreadState_Ready" for j u
  proof -
    have "(j, u) \<in> set ?xs" unfolding set using that by blast
    with least show ?thesis by blast
  qed
  ultimately show ?thesis unfolding prod.case by blast
qed

lemma best_ready_None:
  assumes "table_ok (kn_threads k)" and "Kernel_best_ready k = None" and "thr k j = Some u"
  shows "th_state u \<noteq> ThreadState_Ready"
proof
  assume "th_state u = ThreadState_Ready"
  with assms(1,3) have "(j, u) \<in> set (filter (\<lambda>(_, thread). th_state thread = ThreadState_Ready)
      (FixedTable_iter (kn_threads k)))"
    by (simp add: iter_set)
  with assms(2) show False by (auto simp: Kernel_best_ready_def min_by_key_None_iff)
qed

lemma events_ok_threads:
  assumes "events_ok T AL s"
    and "\<And>i t r. T i = Some t \<Longrightarrow> th_state t = ThreadState_Waiting r \<Longrightarrow>
      \<exists>t r. T' i = Some t \<and> th_state t = ThreadState_Waiting r"
  shows "events_ok T' AL s"
  using assms unfolding events_ok_def by metis

text \<open>The running thread leaves the processor.\<close>

lemma kernel_inv_leave:
  assumes inv: "kernel_inv (Some i) X k" and t: "thr k i = Some t"
    and run: "th_state (f t) \<noteq> ThreadState_Running"
    and ready: "th_state (f t) = ThreadState_Ready \<Longrightarrow>
      th_ready_order (f t) = kn_next_ready_order k \<and> kn_next_ready_order k < n"
    and n: "kn_next_ready_order k \<le> n"
    and wait: "\<And>r. th_state (f t) = ThreadState_Waiting r \<Longrightarrow> X' i r"
    and X: "\<And>j r. X j r \<Longrightarrow> X' j r"
    and sleep: "th_state (f t) = ThreadState_Waiting WaitReason_Sleep \<Longrightarrow> th_wakeup_count (f t) = 0"
  shows "kernel_inv None X' (k\<lparr>kn_current_thread := None, kn_next_ready_order := n,
    kn_threads := table_mut i f (kn_threads k)\<rparr>)"
proof -
  let ?k = "k\<lparr>kn_current_thread := None, kn_next_ready_order := n,
    kn_threads := table_mut i f (kn_threads k)\<rparr>"
  have thr: "thr ?k = (\<lambda>j. if j = i then Some (f t) else thr k j)"
    by (simp add: get_table_mut t fun_eq_iff)
  have state: "th_state t = ThreadState_Running"
    using inv t unfolding kernel_inv_def running_ok_def by blast
  have "tables_ok ?k" using inv by (simp add: kernel_inv_def tables_ok_def table_dims_mut)
  moreover have "running_ok None (thr ?k)"
    using inv run unfolding kernel_inv_def running_ok_def thr by auto
  moreover have "orders_ok n (thr ?k)"
  proof -
    have "orders_ok (kn_next_ready_order k) (thr k)" using inv by (simp add: kernel_inv_def)
    then have less: "\<And>j u. thr k j = Some u \<Longrightarrow> th_state u = ThreadState_Ready \<Longrightarrow>
        th_ready_order u < kn_next_ready_order k"
      and inj: "\<And>j l u v. thr k j = Some u \<Longrightarrow> thr k l = Some v \<Longrightarrow>
        th_state u = ThreadState_Ready \<Longrightarrow> th_state v = ThreadState_Ready \<Longrightarrow>
        th_ready_order u = th_ready_order v \<Longrightarrow> j = l"
      unfolding orders_ok_def by blast+
    show ?thesis
      unfolding orders_ok_def thr
      using ready n less inj by (fastforce split: if_splits dest: less)
  qed
  moreover have "sleepers_ok (thr ?k)"
    using inv sleep unfolding kernel_inv_def sleepers_ok_def thr by auto
  moreover have "waits_ok X' ?k"
    unfolding waits_ok_def
  proof (intro allI impI)
    fix j u r assume u: "thr ?k j = Some u" and r: "th_state u = ThreadState_Waiting r"
    have b: "blocked ?k j r = blocked k j r" by (subst blocked_cong [of ?k k]) simp_all
    show "X' j r \<or> blocked ?k j r"
    proof (cases "j = i")
      case True
      then show ?thesis using u r wait by (simp add: get_table_mut t)
    next
      case False
      then have "X j r \<or> blocked k j r"
        using inv u r unfolding kernel_inv_def waits_ok_def thr by simp
      then show ?thesis using X b by blast
    qed
  qed
  moreover have "events_ok (thr ?k) (alarms ?k) (kn_scheduler ?k)"
  proof -
    have "events_ok (thr k) (alarms k) (kn_scheduler k)" using inv by (simp add: kernel_inv_def)
    then have "events_ok (thr ?k) (alarms k) (kn_scheduler k)"
      unfolding thr by (rule events_ok_threads) (use t state in \<open>auto split: if_splits\<close>)
    then show ?thesis by simp
  qed
  ultimately show ?thesis using inv by (simp add: kernel_inv_def)
qed

text \<open>A ready thread is installed.\<close>

lemma kernel_inv_install:
  assumes inv: "kernel_inv None X k" and t: "thr k c = Some t"
    and ready: "th_state t = ThreadState_Ready"
  shows "kernel_inv (Some c) X (k\<lparr>
    kn_threads := table_mut c (\<lambda>t. t\<lparr>th_state := ThreadState_Running\<rparr>) (kn_threads k),
    kn_current_thread := Some c\<rparr>)"
proof -
  let ?f = "\<lambda>t. t\<lparr>th_state := ThreadState_Running\<rparr>"
  let ?k = "k\<lparr>kn_threads := table_mut c ?f (kn_threads k), kn_current_thread := Some c\<rparr>"
  have thr: "thr ?k = (\<lambda>j. if j = c then Some (?f t) else thr k j)"
    by (simp add: get_table_mut t fun_eq_iff)
  have "tables_ok ?k" using inv by (simp add: kernel_inv_def tables_ok_def table_dims_mut)
  moreover have "running_ok (Some c) (thr ?k)"
    using inv unfolding kernel_inv_def running_ok_def thr by auto
  moreover have "orders_ok (kn_next_ready_order k) (thr ?k)"
    using inv unfolding kernel_inv_def orders_ok_def thr by (auto split: if_splits)
  moreover have "sleepers_ok (thr ?k)"
    using inv unfolding kernel_inv_def sleepers_ok_def thr by (auto split: if_splits)
  moreover have "waits_ok X ?k"
  proof -
    have "blocked ?k = blocked k" by (rule blocked_cong) simp_all
    then show ?thesis
      using inv unfolding kernel_inv_def waits_ok_def thr by (auto split: if_splits)
  qed
  moreover have "events_ok (thr ?k) (alarms ?k) (kn_scheduler ?k)"
  proof -
    have "events_ok (thr k) (alarms k) (kn_scheduler k)" using inv by (simp add: kernel_inv_def)
    then have "events_ok (thr ?k) (alarms k) (kn_scheduler k)"
      unfolding thr by (rule events_ok_threads) (use t ready in \<open>auto split: if_splits\<close>)
    then show ?thesis by simp
  qed
  ultimately show ?thesis using inv by (simp add: kernel_inv_def)
qed

lemma kernel_inv_current [simp]:
  "kernel_inv R X (k\<lparr>kn_current_thread := c\<rparr>) = kernel_inv R X k"
proof -
  have "blocked (k\<lparr>kn_current_thread := c\<rparr>) = blocked k" by (rule blocked_cong) simp_all
  then show ?thesis by (simp add: kernel_inv_def tables_ok_def waits_ok_def)
qed

lemma wp_install:
  assumes "kernel_inv None X k" and "thr k c = Some t" and "th_state t = ThreadState_Ready"
    and "\<And>k' context'. kernel_inv (Some c) X k' \<Longrightarrow> kn_current_thread k' = Some c \<Longrightarrow>
      Q () (k', context')"
  shows "rs_wp (Kernel_install c) Q E (k, context)"
  using assms(2) kernel_inv_install [OF assms(1-3)]
  by (simp add: Kernel_install_def rs_wp get_thread_def case_ok_or get_table_mut assms(4))

lemma wp_preempt_eq:
  "rs_wp Kernel_preempt Q E (k, context) =
     (case kn_current_thread k of
        None \<Rightarrow> Q () (k, context)
      | Some i \<Rightarrow>
          if kn_next_ready_order k + 1 < 2 ^ 64 then
            (case thr k i of
               None \<Rightarrow> E KernelError_UnknownThreadId
                 (k\<lparr>kn_current_thread := None,
                    kn_next_ready_order := kn_next_ready_order k + 1\<rparr>, context)
             | Some _ \<Rightarrow> Q ()
                 (k\<lparr>kn_current_thread := None,
                    kn_next_ready_order := kn_next_ready_order k + 1,
                    kn_threads := table_mut i (\<lambda>t. t\<lparr>th_context := context,
                      th_ready_order := kn_next_ready_order k, th_state := ThreadState_Ready\<rparr>)
                      (kn_threads k)\<rparr>, context))
          else E KernelError_NoMemory (k\<lparr>kn_current_thread := None\<rparr>, context))"
  by (simp add: Kernel_preempt_def rs_wp_def rs_fst_def rs_bind_def Kernel_take_ready_order_def
      checked_add_n_def thread_mut_def mut_conv Let_def split: option.split)

lemma wp_preempt:
  assumes inv: "kernel_inv (kn_current_thread k) X k" and "\<not> exhausted k"
    and "\<And>k' context'. kernel_inv None X k' \<Longrightarrow> (\<And>j u. thr k j = Some u \<Longrightarrow>
        th_state u = ThreadState_Ready \<Longrightarrow> thr k' j = Some u) \<Longrightarrow> Q () (k', context')"
  shows "rs_wp Kernel_preempt Q E (k, context)"
proof (cases "kn_current_thread k")
  case None
  have "Q () (k, context)" using inv None by (intro assms(3)) simp_all
  then show ?thesis
    using None by (simp add: Kernel_preempt_def rs_wp_def rs_fst_def)
next
  case (Some i)
  then obtain t where t: "thr k i = Some t" and st: "th_state t = ThreadState_Running"
    using inv unfolding kernel_inv_def running_ok_def by force
  let ?f = "\<lambda>t. t\<lparr>th_context := context, th_ready_order := kn_next_ready_order k,
              th_state := ThreadState_Ready\<rparr>"
  let ?k = "k\<lparr>kn_current_thread := None, kn_next_ready_order := kn_next_ready_order k + 1,
    kn_threads := table_mut i ?f (kn_threads k)\<rparr>"
  have n: "kn_next_ready_order k + 1 < 2 ^ 64" using assms(2) by (simp add: exhausted_def)
  have "kernel_inv None X ?k"
    using inv Some t by (intro kernel_inv_leave) simp_all
  then have "Q () (?k, context)"
    by (rule assms(3)) (use t st in \<open>auto simp: get_table_mut\<close>)
  then show ?thesis
    using Some t n
    by (simp add: Kernel_preempt_def rs_wp_def rs_fst_def rs_bind_def Kernel_take_ready_order_def
        checked_add_n_def thread_mut_def mut_conv Let_def)
qed

lemma fin_exhausted [intro]: "exhausted k \<Longrightarrow> fin k"
  by (simp add: fin_def)

lemma fin_ok [intro]: "kernel_inv R no_exemption k \<Longrightarrow> kn_current_thread k = R \<Longrightarrow> fin k"
  by (auto simp: fin_def kernel_ok_def)

lemma exhausted_cong:
  "kn_next_ready_order k' = kn_next_ready_order k \<Longrightarrow>
     sched_next_sequence (kn_scheduler k') = sched_next_sequence (kn_scheduler k) \<Longrightarrow>
     exhausted k' = exhausted k"
  by (simp add: exhausted_def)

lemma wp_should_switch:
  assumes "kernel_inv (kn_current_thread k) X k" and "\<And>c. candidate = Some c \<Longrightarrow> thr k c \<noteq> None"
    and "\<And>b. (candidate = None \<Longrightarrow> \<not> b) \<Longrightarrow> Q b k"
  shows "rs_wp (Kernel_should_switch candidate force) Q E k"
proof (cases "kn_current_thread k")
  case None
  then show ?thesis
    by (cases candidate) (auto simp: Kernel_should_switch_def rs_wp intro!: assms(3))
next
  case (Some i)
  then obtain t where "thr k i = Some t"
    using assms(1) unfolding kernel_inv_def running_ok_def by auto
  with Some assms(2) show ?thesis
    by (cases candidate)
      (auto simp: Kernel_should_switch_def rs_wp get_thread_def case_ok_or intro!: assms(3))
qed

lemma exhausted_mono:
  "exhausted k \<Longrightarrow> kn_next_ready_order k \<le> kn_next_ready_order k' \<Longrightarrow>
     sched_next_sequence (kn_scheduler k) \<le> sched_next_sequence (kn_scheduler k') \<Longrightarrow> exhausted k'"
  by (auto simp: exhausted_def)

lemma select_exhausted:
  assumes "exhausted k"
  shows "rs_wp (Kernel_select previous force) (\<lambda>_ s. exhausted (fst s)) (\<lambda>_ s. exhausted (fst s))
    (k, context)"
proof -
  have preempt: "rs_wp Kernel_preempt (\<lambda>_ s. exhausted (fst s)) (\<lambda>_ s. exhausted (fst s)) (k, ctx)"
    if "exhausted k" for k ctx
    using that by (auto simp: wp_preempt_eq split: option.split elim!: exhausted_mono)
  have install: "rs_wp (Kernel_install c) (\<lambda>_ s. exhausted (fst s)) (\<lambda>_ s. exhausted (fst s)) s"
    if "exhausted (fst s)" for s c
    using that by (cases s) (auto simp: Kernel_install_def rs_wp get_thread_def case_ok_or
        split: option.split elim!: exhausted_mono)
  have switch: "rs_wp (Kernel_switch previous c b) (\<lambda>_ s. exhausted (fst s)) (\<lambda>_ s. exhausted (fst s)) (k, ctx)"
    if "exhausted k" for k ctx c b
  proof (cases c)
    case None
    then show ?thesis using that preempt [OF that] by (simp add: Kernel_switch_def rs_wp case_ok_or)
  next
    case (Some d)
    have "rs_wp Kernel_preempt (\<lambda>_. rs_wp (Kernel_install d) (\<lambda>_ s. exhausted (fst s))
        (\<lambda>_ s. exhausted (fst s))) (\<lambda>_ s. exhausted (fst s)) (k, ctx)"
      by (rule wp_mono [OF preempt [OF that]]) (simp_all add: install)
    then show ?thesis using that Some by (simp add: Kernel_switch_def rs_wp case_ok_or)
  qed
  have "rs_wp (Kernel_should_switch c force) (\<lambda>_ k. exhausted k) (\<lambda>_ k. exhausted k) k" for c
    using assms by (auto simp: Kernel_should_switch_def rs_wp get_thread_def case_ok_or split: option.split)
  then have "rs_wp (Kernel_should_switch (Kernel_best_ready k) force)
      (\<lambda>b k'. rs_wp (Kernel_switch previous (Kernel_best_ready k) b) (\<lambda>_ s. exhausted (fst s))
         (\<lambda>_ s. exhausted (fst s)) (k', context)) (\<lambda>_. exhausted) k"
    by (rule wp_mono) (simp_all add: switch)
  then show ?thesis by (simp add: Kernel_select_def rs_wp)
qed

lemma wp_switch:
  assumes inv: "kernel_inv (kn_current_thread k) no_exemption k" and "\<not> exhausted k"
    and cand: "should_switch \<Longrightarrow> \<exists>c t. candidate = Some c \<and> thr k c = Some t \<and>
      th_state t = ThreadState_Ready"
  shows "rs_wp (Kernel_switch previous candidate should_switch) (\<lambda>_ s. fin (fst s))
    (\<lambda>_ s. fin (fst s)) (k, context)"
proof (cases should_switch)
  case False
  then show ?thesis using inv by (auto simp: Kernel_switch_def rs_wp)
next
  case True
  with cand obtain c t where c: "candidate = Some c" and t: "thr k c = Some t"
    "th_state t = ThreadState_Ready" by blast
  have "rs_wp Kernel_preempt (\<lambda>_. rs_wp (Kernel_install c) (\<lambda>_ s. fin (fst s)) (\<lambda>_ s. fin (fst s)))
      (\<lambda>_ s. fin (fst s)) (k, context)"
  proof (rule wp_preempt [OF inv assms(2)])
    fix k' context' assume k': "kernel_inv None no_exemption k'"
      and same: "\<And>j u. thr k j = Some u \<Longrightarrow> th_state u = ThreadState_Ready \<Longrightarrow> thr k' j = Some u"
    show "rs_wp (Kernel_install c) (\<lambda>_ s. fin (fst s)) (\<lambda>_ s. fin (fst s)) (k', context')"
      by (rule wp_install [OF k' same [OF t] t(2)]) auto
  qed
  then show ?thesis using True c by (simp add: Kernel_switch_def rs_wp case_ok_or)
qed

lemma wp_select:
  assumes inv: "kernel_inv (kn_current_thread k) no_exemption k"
  shows "rs_wp (Kernel_select previous force) (\<lambda>_ s. fin (fst s)) (\<lambda>_ s. fin (fst s)) (k, context)"
proof (cases "exhausted k")
  case True
  then show ?thesis
    by (intro wp_mono [OF select_exhausted]) auto
next
  case False
  have ok: "table_ok (kn_threads k)"
    using inv by (auto simp: kernel_inv_def tables_ok_def intro: table_dims_ok)
  have ready: "\<exists>t. thr k c = Some t \<and> th_state t = ThreadState_Ready"
    if "Kernel_best_ready k = Some c" for c
    using best_ready_Some [OF ok that] by blast
  have "rs_wp (Kernel_should_switch (Kernel_best_ready k) force)
      (\<lambda>b k'. rs_wp (Kernel_switch previous (Kernel_best_ready k) b) (\<lambda>_ s. fin (fst s))
         (\<lambda>_ s. fin (fst s)) (k', context)) (\<lambda>_. fin) k"
  proof (rule wp_should_switch [OF inv])
    fix c assume "Kernel_best_ready k = Some c"
    from ready [OF this] show "thr k c \<noteq> None" by auto
  next
    fix b assume b: "Kernel_best_ready k = None \<Longrightarrow> \<not> b"
    show "rs_wp (Kernel_switch previous (Kernel_best_ready k) b) (\<lambda>_ s. fin (fst s))
         (\<lambda>_ s. fin (fst s)) (k, context)"
      by (rule wp_switch [OF inv False]) (use b ready in blast)
  qed
  then show ?thesis by (simp add: Kernel_select_def rs_wp)
qed

section \<open>Blocking the current thread\<close>

lemma kernel_inv_exempt:
  assumes "kernel_inv R X k"
    and "\<And>i t r. X i r \<Longrightarrow> thr k i = Some t \<Longrightarrow> th_state t = ThreadState_Waiting r \<Longrightarrow>
      X' i r \<or> blocked k i r"
  shows "kernel_inv R X' k"
  using assms unfolding kernel_inv_def waits_ok_def by blast

lemma kernel_inv_weaken: "kernel_inv R X k \<Longrightarrow> (\<And>i r. X i r \<Longrightarrow> X' i r) \<Longrightarrow> kernel_inv R X' k"
  unfolding kernel_inv_def waits_ok_def by blast

lemma blocked_schedule:
  assumes "Scheduler_inv (kn_scheduler k)"
    and "Scheduler_schedule (kn_scheduler k) e d = (Inr u, s)"
  shows "blocked k j r \<Longrightarrow> blocked (k\<lparr>kn_scheduler := s\<rparr>) j r"
  using schedule_active(2) [OF assms] by (cases r) (simp_all add: blocked_def)

lemma kernel_inv_schedule:
  assumes inv: "kernel_inv R X k" and t: "thr k i = Some t" "th_state t = ThreadState_Waiting w"
    and s: "Scheduler_schedule (kn_scheduler k) (wait_event i) d = (Inr u, s)"
  shows "kernel_inv R X (k\<lparr>kn_scheduler := s\<rparr>)"
proof -
  let ?k = "k\<lparr>kn_scheduler := s\<rparr>"
  have ev: "events_ok (thr k) (alarms k) (kn_scheduler k)" using inv by (simp add: kernel_inv_def)
  then have sch: "Scheduler_inv (kn_scheduler k)" by (simp add: events_ok_def)
  note a = schedule_active [OF sch s]
  have "events_ok (thr k) (alarms k) s"
    using ev t unfolding events_ok_def a(2) by (auto simp: a(1) split: if_splits)
  moreover have "waits_ok X ?k"
    using inv blocked_schedule [OF sch s] unfolding kernel_inv_def waits_ok_def by simp blast
  ultimately show ?thesis using inv by (simp add: kernel_inv_def tables_ok_def)
qed

lemma wp_save_thread [rs_wp]:
  "rs_wp (save_thread i f) Q E = (\<lambda>(k, context). case thr k i of
       None \<Rightarrow> E KernelError_UnknownThreadId (k, context)
     | Some _ \<Rightarrow> Q () (k\<lparr>kn_threads :=
         table_mut i (\<lambda>t. f (t\<lparr>th_context := context\<rparr>)) (kn_threads k)\<rparr>, context))"
  by (rule ext) (simp add: save_thread_def rs_wp_def rs_fst_def thread_mut_def mut_conv Let_def
      split: prod.split option.split)

lemma wp_schedule_event [rs_wp]:
  "rs_wp (schedule_event e d) Q E = (\<lambda>k.
     case Scheduler_schedule (kn_scheduler k) e d of
       (Inl x, s) \<Rightarrow> E x (k\<lparr>kn_scheduler := s\<rparr>)
     | (Inr u, s) \<Rightarrow> Q u (k\<lparr>kn_scheduler := s\<rparr>))"
  by (rule ext) (simp add: schedule_event_def rs_wp_def Let_def split: prod.split sum.split)

lemma schedule_exhausted:
  "Scheduler_schedule (kn_scheduler k) e d = (Inl x, s) \<Longrightarrow> exhausted (k'\<lparr>kn_scheduler := s\<rparr>)"
  by (drule schedule_error) (simp add: exhausted_def)

lemma running_thread:
  assumes "kernel_inv (Some i) X k"
  obtains t where "thr k i = Some t" and "th_state t = ThreadState_Running"
proof -
  from assms obtain t where "thr k i = Some t" unfolding kernel_inv_def running_ok_def by blast
  moreover from this assms have "th_state t = ThreadState_Running"
    unfolding kernel_inv_def running_ok_def by blast
  ultimately show ?thesis by (rule that)
qed

lemma kernel_inv_leave_same:
  assumes inv: "kernel_inv (Some i) X k" and t: "thr k i = Some t"
    and run: "th_state (f t) \<noteq> ThreadState_Running" "th_state (f t) \<noteq> ThreadState_Ready"
    and wait: "\<And>r. th_state (f t) = ThreadState_Waiting r \<Longrightarrow> X' i r"
    and X: "\<And>j r. X j r \<Longrightarrow> X' j r"
    and sleep: "th_state (f t) = ThreadState_Waiting WaitReason_Sleep \<Longrightarrow> th_wakeup_count (f t) = 0"
  shows "kernel_inv None X' (k\<lparr>kn_current_thread := None,
    kn_threads := table_mut i f (kn_threads k)\<rparr>)"
proof -
  have "k\<lparr>kn_current_thread := None, kn_threads := table_mut i f (kn_threads k)\<rparr> =
      k\<lparr>kn_current_thread := None, kn_next_ready_order := kn_next_ready_order k,
        kn_threads := table_mut i f (kn_threads k)\<rparr>"
    by simp
  moreover have "kernel_inv None X' \<dots>"
    by (rule kernel_inv_leave [OF inv t]) (use run wait X sleep in auto)
  ultimately show ?thesis by simp
qed

lemma wp_block_current:
  assumes inv: "kernel_inv (kn_current_thread k) no_exemption k"
    and blk: "\<And>i. kn_current_thread k = Some i \<Longrightarrow> reason = WaitReason_Delay \<and> deadline \<noteq> None
      \<or> blocked k i reason \<and> reason \<noteq> WaitReason_Delay"
    and sleep: "\<And>i t. kn_current_thread k = Some i \<Longrightarrow> thr k i = Some t \<Longrightarrow>
      reason = WaitReason_Sleep \<Longrightarrow> th_wakeup_count t = 0"
  shows "rs_wp (Kernel_block_current reason deadline) (\<lambda>_ s. fin (fst s)) (\<lambda>_ s. fin (fst s)) (k, context)"
proof (cases "kn_current_thread k")
  case None
  then have "fin (k\<lparr>kn_current_thread := None\<rparr>)" using inv by (intro fin_ok [of None]) simp_all
  then show ?thesis using None by (simp add: Kernel_block_current_def rs_wp)
next
  case (Some i)
  let ?f = "\<lambda>t. t\<lparr>th_context := context, th_state := ThreadState_Waiting reason\<rparr>"
  let ?k = "k\<lparr>kn_current_thread := None, kn_threads := table_mut i ?f (kn_threads k)\<rparr>"
  have inv': "kernel_inv (Some i) no_exemption k" using inv Some by simp
  obtain t where t: "thr k i = Some t" by (rule running_thread [OF inv'])
  have k: "kernel_inv None (\<lambda>j r. j = i \<and> r = reason) ?k"
    by (rule kernel_inv_leave_same [where f = ?f, OF inv' t]) (use sleep [OF Some t] in simp_all)
  have thr: "thr ?k i = Some (?f t)" by (simp add: get_table_mut t)
  have b: "blocked ?k = blocked k" by (rule blocked_cong) simp_all
  have sel: "rs_wp (Kernel_select (Some i) True) (\<lambda>_ s. fin (fst s)) (\<lambda>_ s. fin (fst s)) (k', context)"
    if "kernel_inv None no_exemption k'" "kn_current_thread k' = None" for k'
    using that by (intro wp_select) simp
  show ?thesis
  proof (cases deadline)
    case None
    have "blocked k i reason" using blk [OF Some] None by blast
    then have "kernel_inv None no_exemption ?k"
      by (intro kernel_inv_exempt [OF k]) (simp add: b)
    then show ?thesis
      using Some None t sel [of ?k] by (simp add: Kernel_block_current_def rs_wp)
  next
    case d: (Some d)
    have sch: "Scheduler_inv (kn_scheduler ?k)" using k by (simp only: kernel_inv_def events_ok_def)
    show ?thesis
    proof (cases "Scheduler_schedule (kn_scheduler k) (wait_event i) d")
      case (Pair r s)
      show ?thesis
      proof (cases r)
        case (Inl x)
        have "fin (?k\<lparr>kn_scheduler := s\<rparr>)"
          using schedule_exhausted [of k "wait_event i" d x s] Pair Inl by blast
        then show ?thesis
          using Some d t Pair Inl by (simp add: Kernel_block_current_def rs_wp)
      next
        case (Inr u)
        let ?k2 = "?k\<lparr>kn_scheduler := s\<rparr>"
        have s: "Scheduler_schedule (kn_scheduler ?k) (wait_event i) d = (Inr u, s)"
          using Pair Inr by simp
        have k2: "kernel_inv None (\<lambda>j r. j = i \<and> r = reason) ?k2"
          by (rule kernel_inv_schedule [OF k thr _ s]) simp
        have blk2: "blocked ?k2 i reason"
        proof (cases "reason = WaitReason_Delay")
          case True
          have "active ?k2 (wait_event i) \<noteq> None" using schedule_active(2) [OF sch s] by simp
          then show ?thesis unfolding True blocked_def WaitReason.case .
        next
          case False
          then have "blocked ?k i reason" using blk [OF Some] by (simp add: b)
          then show ?thesis by (rule blocked_schedule [OF sch s])
        qed
        have "kernel_inv None no_exemption ?k2"
          by (rule kernel_inv_exempt [OF k2]) (use blk2 in blast)
        then show ?thesis
          using Some d t Pair Inr sel [of ?k2] by (simp add: Kernel_block_current_def rs_wp)
      qed
    qed
  qed
qed

end
