(* ===== verification/Kernel_Ops.thy ===== *)
theory Kernel_Ops
  imports Kernel_Proofs
begin

text \<open>
  Every operation of the IOP kernel keeps the invariant of \<open>Kernel_Proofs\<close>, on
  success and on error.
\<close>

definition op_keeps :: "(Kernel, 'e, 'a) rs \<Rightarrow> bool" where
  "op_keeps m \<longleftrightarrow> (\<forall>k. kernel_ok k \<longrightarrow> rs_wp m (\<lambda>_. fin) (\<lambda>_. fin) k)"

definition ctx_keeps :: "(Kernel \<times> CpuContext, 'e, 'a) rs \<Rightarrow> bool" where
  "ctx_keeps m \<longleftrightarrow> (\<forall>k context. kernel_ok k \<longrightarrow>
     rs_wp m (\<lambda>_ s. fin (fst s)) (\<lambda>_ s. fin (fst s)) (k, context))"

lemma op_keepsI: "(\<And>k. kernel_ok k \<Longrightarrow> rs_wp m (\<lambda>_. fin) (\<lambda>_. fin) k) \<Longrightarrow> op_keeps m"
  by (simp add: op_keeps_def)

lemma ctx_keepsI: "(\<And>k context. kernel_ok k \<Longrightarrow>
    rs_wp m (\<lambda>_ s. fin (fst s)) (\<lambda>_ s. fin (fst s)) (k, context)) \<Longrightarrow> ctx_keeps m"
  by (simp add: ctx_keeps_def)

lemma ok_fin [intro]: "kernel_ok k \<Longrightarrow> fin k"
  by (simp add: fin_def)

section \<open>Thread records\<close>

lemma kernel_inv_replace:
  assumes inv: "kernel_inv R X k" and dims: "table_dims THREAD_CAPACITY T"
    and T: "FixedTable_get T = (thr k)(i := v)"
    and old: "\<And>t. thr k i = Some t \<Longrightarrow> th_state t = ThreadState_Dormant"
    and new: "\<And>t. v = Some t \<Longrightarrow> th_state t = ThreadState_Dormant \<or>
      th_state t = ThreadState_Ready \<and> th_ready_order t = kn_next_ready_order k
        \<and> kn_next_ready_order k < n"
    and n: "kn_next_ready_order k \<le> n"
  shows "kernel_inv R X (k\<lparr>kn_next_ready_order := n, kn_threads := T\<rparr>)"
proof -
  let ?k = "k\<lparr>kn_next_ready_order := n, kn_threads := T\<rparr>"
  have thr: "thr ?k = (\<lambda>j. if j = i then v else thr k j)" by (simp add: T fun_eq_iff)
  have R: "R \<noteq> Some i"
    using inv old unfolding kernel_inv_def running_ok_def by force
  have "tables_ok ?k" using inv dims by (simp add: kernel_inv_def tables_ok_def)
  moreover have "running_ok R (thr ?k)"
    using inv R new unfolding kernel_inv_def running_ok_def thr by (auto split: if_splits)
  moreover have "orders_ok n (thr ?k)"
  proof -
    have "orders_ok (kn_next_ready_order k) (thr k)" using inv by (simp add: kernel_inv_def)
    then have less: "\<And>j u. thr k j = Some u \<Longrightarrow> th_state u = ThreadState_Ready \<Longrightarrow>
        th_ready_order u < kn_next_ready_order k"
      and inj: "\<And>j l u v. thr k j = Some u \<Longrightarrow> thr k l = Some v \<Longrightarrow>
        th_state u = ThreadState_Ready \<Longrightarrow> th_state v = ThreadState_Ready \<Longrightarrow>
        th_ready_order u = th_ready_order v \<Longrightarrow> j = l"
      unfolding orders_ok_def by blast+
    show ?thesis
      unfolding orders_ok_def thr
      using new n less inj by (fastforce split: if_splits dest: less)
  qed
  moreover have "sleepers_ok (thr ?k)"
    using inv new unfolding kernel_inv_def sleepers_ok_def thr by (auto split: if_splits)
  moreover have "waits_ok X ?k"
  proof -
    have "blocked ?k = blocked k" by (rule blocked_cong) simp_all
    then show ?thesis
      using inv new unfolding kernel_inv_def waits_ok_def thr by (auto split: if_splits)
  qed
  moreover have "events_ok (thr ?k) (alarms ?k) (kn_scheduler ?k)"
  proof -
    have "events_ok (thr k) (alarms k) (kn_scheduler k)" using inv by (simp add: kernel_inv_def)
    then have "events_ok (thr ?k) (alarms k) (kn_scheduler k)"
      unfolding thr by (rule events_ok_threads) (use old in \<open>auto split: if_splits\<close>)
    then show ?thesis by simp
  qed
  ultimately show ?thesis using inv by (simp add: kernel_inv_def)
qed

text \<open>
  A write that leaves the state and the ready order of the thread alone, and the wakeups of one
  that sleeps.
\<close>

lemma kernel_inv_benign:
  assumes inv: "kernel_inv R X k"
    and f: "\<And>t. th_state (f t) = th_state t" "\<And>t. th_ready_order (f t) = th_ready_order t"
    and sleep: "\<And>t. thr k i = Some t \<Longrightarrow> th_state t = ThreadState_Waiting WaitReason_Sleep \<Longrightarrow>
      th_wakeup_count t = 0 \<Longrightarrow> th_wakeup_count (f t) = 0"
  shows "kernel_inv R X (k\<lparr>kn_threads := table_mut i f (kn_threads k)\<rparr>)"
proof -
  let ?k = "k\<lparr>kn_threads := table_mut i f (kn_threads k)\<rparr>"
  have thr: "thr ?k = (\<lambda>j. if j = i then map_option f (thr k i) else thr k j)"
    by (simp add: get_table_mut)
  have "tables_ok ?k" using inv by (simp add: kernel_inv_def tables_ok_def table_dims_mut)
  moreover have "running_ok R (thr ?k)"
    using inv f(1) unfolding kernel_inv_def running_ok_def thr by (auto split: if_splits)
  moreover have "orders_ok (kn_next_ready_order k) (thr ?k)"
    using inv f unfolding kernel_inv_def orders_ok_def thr by (auto split: if_splits)
  moreover have "sleepers_ok (thr ?k)"
    using inv f(1) sleep unfolding kernel_inv_def sleepers_ok_def thr by (auto split: if_splits)
  moreover have "waits_ok X ?k"
  proof -
    have "blocked ?k = blocked k" by (rule blocked_cong) simp_all
    moreover have "X j r \<or> blocked k j r"
      if u: "thr ?k j = Some u" "th_state u = ThreadState_Waiting r" for j u r
    proof -
      obtain u' where "thr k j = Some u'" "th_state u' = ThreadState_Waiting r"
        using u f(1) unfolding thr by (auto split: if_splits)
      with inv show ?thesis unfolding kernel_inv_def waits_ok_def by blast
    qed
    ultimately show ?thesis unfolding waits_ok_def by simp
  qed
  moreover have "events_ok (thr ?k) (alarms ?k) (kn_scheduler ?k)"
  proof -
    have "events_ok (thr k) (alarms k) (kn_scheduler k)" using inv by (simp add: kernel_inv_def)
    then have "events_ok (thr ?k) (alarms k) (kn_scheduler k)"
      unfolding thr by (rule events_ok_threads) (use f in \<open>auto split: if_splits\<close>)
    then show ?thesis by simp
  qed
  ultimately show ?thesis using inv by (simp add: kernel_inv_def)
qed

lemma kernel_ok_benign:
  "kernel_ok k \<Longrightarrow> (\<And>t. th_state (f t) = th_state t) \<Longrightarrow>
     (\<And>t. th_ready_order (f t) = th_ready_order t) \<Longrightarrow>
     (\<And>t. thr k i = Some t \<Longrightarrow> th_state t = ThreadState_Waiting WaitReason_Sleep \<Longrightarrow>
       th_wakeup_count t = 0 \<Longrightarrow> th_wakeup_count (f t) = 0) \<Longrightarrow>
     kernel_ok (k\<lparr>kn_threads := table_mut i f (kn_threads k)\<rparr>)"
  unfolding kernel_ok_def by (simp add: kernel_inv_benign)

lemma threads_dims: "kernel_inv R X k \<Longrightarrow> table_dims THREAD_CAPACITY (kn_threads k)"
  by (simp add: kernel_inv_def tables_ok_def)

lemma create_thread_keeps: "op_keeps (Kernel_create_thread spec r0)"
proof (rule op_keepsI)
  fix k assume k: "kernel_ok k"
  have inv: "kernel_inv (kn_current_thread k) no_exemption k" using k by (simp add: kernel_ok_def)
  note dims = threads_dims [OF inv]
  have ins: "fin (k\<lparr>kn_threads := t'\<rparr>)"
    if i: "FixedTable_insert (kn_threads k) t = (r, t')" and st: "th_state t = ThreadState_Dormant"
    for t r t'
  proof (cases r)
    case (Inl e)
    then have "t' = kn_threads k" using insert_Inl(3) [OF table_dims_ok [OF dims]] i by blast
    then show ?thesis using k by (auto simp: fin_def)
  next
    case (Inr h)
    note ins = insert_Inr [OF table_dims_ok [OF dims], of t h t']
    have "kernel_inv (kn_current_thread k) no_exemption
        (k\<lparr>kn_next_ready_order := kn_next_ready_order k, kn_threads := t'\<rparr>)"
      using i Inr st ins(2,3)
      by (intro kernel_inv_replace [OF inv table_dims_insert [OF dims i], where i = h and v = "Some t"])
        auto
    then show ?thesis by (intro fin_ok) simp_all
  qed
  show "rs_wp (Kernel_create_thread spec r0) (\<lambda>_. fin) (\<lambda>_. fin) k"
    unfolding Kernel_create_thread_def rs_wp
    using k ins
    by (auto simp: rs_wp_def Let_def case_ok_or split: sum.split prod.split option.split)
qed

lemma start_thread_keeps: "op_keeps (Kernel_start_thread_with_context ident arguments ra)"
proof (rule op_keepsI)
  fix k assume k: "kernel_ok k"
  have inv: "kernel_inv (kn_current_thread k) no_exemption k" using k by (simp add: kernel_ok_def)
  show "rs_wp (Kernel_start_thread_with_context ident arguments ra) (\<lambda>_. fin) (\<lambda>_. fin) k"
  proof (cases "thr k ident")
    case None
    then show ?thesis using k
      by (auto simp: Kernel_start_thread_with_context_def rs_wp get_thread_def case_ok_or)
  next
    case (Some t)
    show ?thesis
    proof (cases "th_state t = ThreadState_Dormant \<and> kn_next_ready_order k + 1 < 2 ^ 64")
      case False
      then show ?thesis using k Some
        by (auto simp: Kernel_start_thread_with_context_def rs_wp get_thread_def case_ok_or fin_def
            exhausted_def)
    next
      case True
      let ?f = "\<lambda>thread. thread\<lparr>
         th_context := start_context thread arguments ra,
         th_current_priority := ts_priority (th_spec thread),
         th_wakeup_count := 0,
         th_ready_order := kn_next_ready_order k,
         th_state := ThreadState_Ready\<rparr>"
      have "kernel_inv (kn_current_thread k) no_exemption
          (k\<lparr>kn_next_ready_order := kn_next_ready_order k + 1,
             kn_threads := table_mut ident ?f (kn_threads k)\<rparr>)"
        using Some True
        by (intro kernel_inv_replace [OF inv table_dims_mut [OF threads_dims [OF inv]],
              where i = ident and v = "Some (?f t)"])
          (auto simp: get_table_mut fun_eq_iff)
      then have "fin (k\<lparr>kn_next_ready_order := kn_next_ready_order k + 1,
             kn_threads := table_mut ident ?f (kn_threads k)\<rparr>)" by (intro fin_ok) simp_all
      then show ?thesis using Some True
        by (simp add: Kernel_start_thread_with_context_def rs_wp get_thread_def case_ok_or)
    qed
  qed
qed

lemma delete_thread_keeps: "op_keeps (Kernel_delete_thread ident)"
proof (rule op_keepsI)
  fix k assume k: "kernel_ok k"
  have inv: "kernel_inv (kn_current_thread k) no_exemption k" using k by (simp add: kernel_ok_def)
  obtain r t' where rem: "FixedTable_remove (kn_threads k) ident = (r, t')" by force
  note rl = remove_laws [OF table_dims_ok [OF threads_dims [OF inv]] rem]
  show "rs_wp (Kernel_delete_thread ident) (\<lambda>_. fin) (\<lambda>_. fin) k"
  proof (cases "thr k ident")
    case None
    then show ?thesis using k
      by (auto simp: Kernel_delete_thread_def rs_wp get_thread_def case_ok_or)
  next
    case (Some t)
    show ?thesis
    proof (cases "th_state t = ThreadState_Dormant")
      case False
      then show ?thesis using k Some
        by (auto simp: Kernel_delete_thread_def rs_wp get_thread_def case_ok_or)
    next
      case True
      have "kernel_inv (kn_current_thread k) no_exemption
          (k\<lparr>kn_next_ready_order := kn_next_ready_order k, kn_threads := t'\<rparr>)"
        using Some True rl
        by (intro kernel_inv_replace [OF inv table_dims_remove [OF threads_dims [OF inv] rem],
              where i = ident and v = None]) auto
      then have "fin (k\<lparr>kn_threads := t'\<rparr>)" by (intro fin_ok) simp_all
      then show ?thesis using Some True rem rl(1)
        by (simp add: Kernel_delete_thread_def rs_wp get_thread_def case_ok_or)
          (simp add: rs_wp_def remove_thread_def ok_or_def)
    qed
  qed
qed

lemma change_priority_keeps: "op_keeps (Kernel_change_priority ident priority)"
  by (rule op_keepsI)
    (auto simp: Kernel_change_priority_def rs_wp get_thread_def case_ok_or
      intro!: ok_fin kernel_ok_benign split: option.split sum.split)

section \<open>Waits of threads\<close>

lemma complete_wait_fin:
  assumes "kernel_inv (kn_current_thread k) X k" and "\<And>j r. X j r \<Longrightarrow> j = i"
    and "thr k i = Some t" and "th_state t = ThreadState_Waiting w"
  shows "rs_wp (Kernel_complete_wait i r v) (\<lambda>_. fin) (\<lambda>_. fin) k"
proof (rule wp_complete_wait [OF assms(1,3,4)])
  let ?k = "completed i (wait_result (kn_next_ready_order k) r v) k"
  assume "kernel_inv (kn_current_thread k) (\<lambda>j s. X j s \<and> j \<noteq> i) ?k"
  then have "kernel_inv (kn_current_thread k) no_exemption ?k"
    by (rule kernel_inv_weaken) (use assms(2) in blast)
  then show "fin ?k" by (rule fin_ok) (simp add: completed_def)
qed auto

lemma kernel_inv_objects:
  assumes inv: "kernel_inv R X k"
    and same: "kn_threads k' = kn_threads k" "kn_scheduler k' = kn_scheduler k"
      "kn_alarms k' = kn_alarms k" "kn_next_ready_order k' = kn_next_ready_order k"
    and ok: "tables_ok k'" "sems_ok (sems k')" "fixed_ok (fpools k')" "variable_ok (vpools k')"
    and b: "\<And>i t r. thr k i = Some t \<Longrightarrow> th_state t = ThreadState_Waiting r \<Longrightarrow>
      X i r \<or> blocked k i r \<Longrightarrow> X' i r \<or> blocked k' i r"
  shows "kernel_inv R X' k'"
  using inv ok b unfolding kernel_inv_def waits_ok_def same by blast

lemma kernel_inv_remove_waiter:
  assumes inv: "kernel_inv R X k" and X: "\<And>j r. X j r \<Longrightarrow> j = i"
  shows "kernel_inv R (\<lambda>j _. j = i) (Kernel_remove_waiter i reason k)"
proof (rule kernel_inv_objects [OF inv])
  let ?k = "Kernel_remove_waiter i reason k"
  have ok: "tables_ok k" "sems_ok (sems k)" "fixed_ok (fpools k)" "variable_ok (vpools k)"
    using inv by (simp_all add: kernel_inv_def)
  show "kn_threads ?k = kn_threads k" "kn_scheduler ?k = kn_scheduler k"
    "kn_alarms ?k = kn_alarms k" "kn_next_ready_order ?k = kn_next_ready_order k"
    by (simp_all add: Kernel_remove_waiter_def split: WaitReason.split)
  show "tables_ok ?k"
    using ok(1) by (simp add: Kernel_remove_waiter_def tables_ok_def table_dims_mut split: WaitReason.split)
  show "sems_ok (sems ?k)"
    using ok(2) by (auto simp: Kernel_remove_waiter_def sems_ok_def get_table_mut split: WaitReason.split if_splits)
  show "fixed_ok (fpools ?k)"
    using ok(3) unfolding Kernel_remove_waiter_def fixed_ok_def
    by (auto simp: get_table_mut split: WaitReason.split if_splits)
  show "variable_ok (vpools ?k)"
    using ok(4) unfolding Kernel_remove_waiter_def variable_ok_def
    by (auto simp: get_table_mut split: WaitReason.split if_splits)
  fix j t r
  assume "thr k j = Some t" "th_state t = ThreadState_Waiting r" "X j r \<or> blocked k j r"
  then have "j = i \<or> blocked k j r" using X by blast
  then show "j = i \<or> blocked ?k j r"
    by (cases reason; cases r) (auto simp: Kernel_remove_waiter_def blocked_def get_table_mut)
qed

lemma kernel_ok_inv: "kernel_ok k \<Longrightarrow> kernel_inv (kn_current_thread k) no_exemption k"
  by (simp add: kernel_ok_def)

lemma current_remove_waiter [simp]: "kn_current_thread (Kernel_remove_waiter i r k) = kn_current_thread k"
  "kn_threads (Kernel_remove_waiter i r k) = kn_threads k"
  by (simp_all add: Kernel_remove_waiter_def split: WaitReason.split)

lemma wait_reason_Some: "wait_reason t = Some r \<longleftrightarrow> th_state t = ThreadState_Waiting r"
  by (simp add: wait_reason_def split: ThreadState.split)

lemma release_fin:
  assumes k: "kernel_ok k" and t: "thr k i = Some t" "th_state t = ThreadState_Waiting w"
  shows "rs_wp (Kernel_complete_wait i r v) (\<lambda>_. fin) (\<lambda>_. fin) (Kernel_remove_waiter i w k)"
  using kernel_inv_remove_waiter [OF kernel_ok_inv [OF k], of i w, simplified] t
  by (intro complete_wait_fin [where X = "\<lambda>j _. j = i"]) simp_all

lemma release_wait_keeps: "op_keeps (Kernel_release_wait i)"
proof (rule op_keepsI)
  fix k assume k: "kernel_ok k"
  then show "rs_wp (Kernel_release_wait i) (\<lambda>_. fin) (\<lambda>_. fin) k"
    by (auto simp: Kernel_release_wait_def rs_wp get_thread_def case_ok_or wait_reason_Some
        intro!: release_fin split: option.split)
qed

lemma wakeup_thread_keeps: "op_keeps (Kernel_wakeup_thread i)"
proof (rule op_keepsI)
  fix k assume k: "kernel_ok k"
  then show "rs_wp (Kernel_wakeup_thread i) (\<lambda>_. fin) (\<lambda>_. fin) k"
    by (auto simp: Kernel_wakeup_thread_def rs_wp get_thread_def case_ok_or
        intro!: complete_wait_fin [where X = no_exemption] ok_fin kernel_ok_benign dest: kernel_ok_inv
        split: option.split)
qed

lemma complete_module_start_keeps: "op_keeps (Kernel_complete_module_start r c m v)"
proof (rule op_keepsI)
  fix k assume k: "kernel_ok k"
  then show "rs_wp (Kernel_complete_module_start r c m v) (\<lambda>_. fin) (\<lambda>_. fin) k"
    by (auto simp: Kernel_complete_module_start_def rs_wp Kernel_wait_matches_def
        intro!: complete_wait_fin [where X = no_exemption] dest: kernel_ok_inv
        split: option.splits)
qed

lemma complete_all_keeps:
  assumes "kernel_ok k" and "distinct ws"
    and "\<And>i. i \<in> set ws \<Longrightarrow> \<exists>t w. thr k i = Some t \<and> th_state t = ThreadState_Waiting w"
  shows "rs_wp (complete_all ws) (\<lambda>_. fin) (\<lambda>_. fin) k"
  using assms
proof (induction ws arbitrary: k)
  case Nil
  then show ?case by (auto simp: rs_wp)
next
  case (Cons i ws)
  from Cons.prems(3) [of i] obtain t w where t: "thr k i = Some t"
    and w: "th_state t = ThreadState_Waiting w" by auto
  have "rs_wp (Kernel_complete_wait i 0 None) (\<lambda>_. rs_wp (complete_all ws) (\<lambda>_. fin) (\<lambda>_. fin)) (\<lambda>_. fin) k"
  proof (rule wp_complete_wait [OF kernel_ok_inv [OF Cons.prems(1)] t w])
    let ?k = "completed i (wait_result (kn_next_ready_order k) 0 None) k"
    assume "kernel_inv (kn_current_thread k) (\<lambda>j s. False \<and> j \<noteq> i) ?k"
    then have "kernel_ok ?k" by (simp add: kernel_ok_def completed_def)
    then show "rs_wp (complete_all ws) (\<lambda>_. fin) (\<lambda>_. fin) ?k"
      by (rule Cons.IH) (use Cons.prems(2,3) in \<open>auto simp: completed_def get_table_mut\<close>)
  qed auto
  then show ?case by (simp add: rs_wp)
qed

lemma notify_vblank_keeps: "op_keeps (Kernel_notify_vblank phase)"
proof (rule op_keepsI)
  fix k assume k: "kernel_ok k"
  have dims: "table_ok (kn_threads k)"
    using threads_dims [OF kernel_ok_inv [OF k]] by (rule table_dims_ok)
  have d: "distinct (map fst (filter P (FixedTable_iter (kn_threads k))))" for P
    using iter_distinct [OF dims] by (simp add: distinct_map_filter)
  show "rs_wp (Kernel_notify_vblank phase) (\<lambda>_. fin) (\<lambda>_. fin) k"
    using k
    by (auto simp: Kernel_notify_vblank_def rs_wp vblank_reason_def iter_set [OF dims]
        intro!: complete_all_keeps d split: if_splits)
qed

section \<open>Operations on the current thread\<close>

lemma ctx_conv: "kernel_ok k \<Longrightarrow> (\<And>k. kernel_ok k \<Longrightarrow> P k) \<Longrightarrow> P k"
  by blast

lemma block_current_keeps:
  "kernel_ok k \<Longrightarrow> (\<And>i. kn_current_thread k = Some i \<Longrightarrow> reason = WaitReason_Delay \<and> deadline \<noteq> None
      \<or> blocked k i reason \<and> reason \<noteq> WaitReason_Delay) \<Longrightarrow>
   (\<And>i t. kn_current_thread k = Some i \<Longrightarrow> thr k i = Some t \<Longrightarrow> reason = WaitReason_Sleep \<Longrightarrow>
      th_wakeup_count t = 0) \<Longrightarrow>
   rs_wp (Kernel_block_current reason deadline) (\<lambda>_ s. fin (fst s)) (\<lambda>_ s. fin (fst s)) (k, context)"
  by (rule wp_block_current) (auto dest: kernel_ok_inv)

lemma wait_module_start_keeps: "ctx_keeps (Kernel_wait_module_start c)"
  by (rule ctx_keepsI)
    (auto simp: Kernel_wait_module_start_def rs_wp blocked_def intro!: block_current_keeps)

lemma wait_vblank_keeps: "ctx_keeps (Kernel_wait_vblank phase)"
  by (rule ctx_keepsI)
    (auto simp: Kernel_wait_vblank_def rs_wp vblank_reason_def blocked_def intro!: block_current_keeps)

lemma select_keeps:
  "kernel_ok k \<Longrightarrow> rs_wp (Kernel_select p f) (\<lambda>_ s. fin (fst s)) (\<lambda>_ s. fin (fst s)) (k, context)"
  by (rule wp_select) (rule kernel_ok_inv)

lemma reschedule_keeps: "ctx_keeps (Kernel_reschedule reason)"
  by (rule ctx_keepsI)
    (auto simp: Kernel_reschedule_def rs_wp get_thread_def case_ok_or
      intro!: select_keeps kernel_ok_benign split: option.split)

lemma sleep_current_keeps: "ctx_keeps Kernel_sleep_current"
  by (rule ctx_keepsI)
    (auto simp: Kernel_sleep_current_def rs_wp get_thread_def get_current_def case_ok_or blocked_def
      intro!: block_current_keeps ok_fin kernel_ok_benign split: option.split)

lemma delay_current_keeps: "ctx_keeps (Kernel_delay_current ticks)"
proof (rule ctx_keepsI)
  fix k ctx assume k: "kernel_ok k"
  have "rs_wp (Kernel_reschedule RescheduleReason_Yield) (\<lambda>_ s. fin (fst s)) (\<lambda>_ s. fin (fst s)) (k, ctx)"
    using reschedule_keeps k by (simp add: ctx_keeps_def)
  then show "rs_wp (Kernel_delay_current ticks) (\<lambda>_ s. fin (fst s)) (\<lambda>_ s. fin (fst s)) (k, ctx)"
    using k
    by (cases "Deadline_checked_advance (kn_now k) ticks")
      (auto simp: Kernel_delay_current_def rs_wp wait_deadline_def map_err_def
        intro!: block_current_keeps)
qed

section \<open>Exit\<close>

lemma kernel_inv_cancel_same:
  assumes "kernel_inv R X k" and "\<And>t r. thr k i = Some t \<Longrightarrow> th_state t \<noteq> ThreadState_Waiting r"
    and "unat i \<le> 64"
  shows "kernel_inv R X (k\<lparr>kn_scheduler := snd (Scheduler_cancel (kn_scheduler k) (wait_event i))\<rparr>)"
proof -
  have "k\<lparr>kn_scheduler := snd (Scheduler_cancel (kn_scheduler k) (wait_event i))\<rparr> =
      k\<lparr>kn_scheduler := snd (Scheduler_cancel (kn_scheduler k) (wait_event i)),
        kn_next_ready_order := kn_next_ready_order k\<rparr>"
    by simp
  moreover have "kernel_inv R X \<dots>" by (rule kernel_inv_cancel [OF assms order_refl])
  ultimately show ?thesis by simp
qed

lemma kernel_inv_gone:
  assumes inv: "kernel_inv (Some i) X k" and rem: "FixedTable_remove (kn_threads k) i = (r, T)"
  shows "kernel_inv None X (k\<lparr>kn_threads := T\<rparr>)"
proof -
  let ?k = "k\<lparr>kn_threads := T\<rparr>"
  have T: "thr ?k = (\<lambda>j. if j = i then None else thr k j)"
    using remove_laws(2) [OF table_dims_ok [OF threads_dims [OF inv]] rem] by (simp add: fun_eq_iff)
  have "tables_ok ?k"
    using inv table_dims_remove [OF threads_dims [OF inv] rem] by (simp add: kernel_inv_def tables_ok_def)
  moreover have "running_ok None (thr ?k)"
    using inv unfolding kernel_inv_def running_ok_def T by auto
  moreover have "orders_ok (kn_next_ready_order k) (thr ?k)"
    using inv unfolding kernel_inv_def orders_ok_def T by (auto split: if_splits)
  moreover have "sleepers_ok (thr ?k)"
    using inv unfolding kernel_inv_def sleepers_ok_def T by (auto split: if_splits)
  moreover have "waits_ok X ?k"
  proof -
    have "blocked ?k = blocked k" by (rule blocked_cong) simp_all
    then show ?thesis
      using inv unfolding kernel_inv_def waits_ok_def T by (auto split: if_splits)
  qed
  moreover have "events_ok (thr ?k) (alarms ?k) (kn_scheduler ?k)"
  proof -
    obtain t where t: "thr k i = Some t" "th_state t = ThreadState_Running"
      by (rule running_thread [OF inv])
    have "events_ok (thr k) (alarms k) (kn_scheduler k)" using inv by (simp add: kernel_inv_def)
    then have "events_ok (thr ?k) (alarms k) (kn_scheduler k)"
      unfolding T by (rule events_ok_threads) (use t in \<open>auto split: if_splits\<close>)
    then show ?thesis by simp
  qed
  ultimately show ?thesis using inv by (simp add: kernel_inv_def)
qed

lemma no_current_fin:
  "kernel_ok k \<Longrightarrow> kn_current_thread k = None \<Longrightarrow> fin (k\<lparr>kn_current_thread := None\<rparr>)"
  by (rule fin_ok [of None]) (auto dest: kernel_ok_inv)

lemma exit_current_keeps: "ctx_keeps Kernel_exit_current"
proof (rule ctx_keepsI)
  fix k ctx assume k: "kernel_ok k"
  note inv = kernel_ok_inv [OF k]
  show "rs_wp Kernel_exit_current (\<lambda>_ s. fin (fst s)) (\<lambda>_ s. fin (fst s)) (k, ctx)"
  proof (cases "kn_current_thread k")
    case None
    then show ?thesis using no_current_fin [OF k] by (simp add: Kernel_exit_current_def rs_wp)
  next
    case (Some i)
    have inv': "kernel_inv (Some i) no_exemption k" using inv Some by simp
    obtain t where t: "thr k i = Some t" by (rule running_thread [OF inv'])
    let ?f = "\<lambda>t. t\<lparr>th_context := ctx, th_state := ThreadState_Dormant, th_wakeup_count := 0\<rparr>"
    let ?k = "k\<lparr>kn_current_thread := None, kn_threads := table_mut i ?f (kn_threads k)\<rparr>"
    have k1: "kernel_inv None no_exemption ?k"
      by (rule kernel_inv_leave_same [where f = ?f, OF inv' t]) simp_all
    have "kernel_inv None no_exemption
        (?k\<lparr>kn_scheduler := snd (Scheduler_cancel (kn_scheduler ?k) (wait_event i))\<rparr>)"
      using thread_id_bound [of k i t] inv t
      by (intro kernel_inv_cancel_same [OF k1]) (auto simp: get_table_mut kernel_inv_def)
    then have "rs_wp (Kernel_select (Some i) True) (\<lambda>_ s. fin (fst s)) (\<lambda>_ s. fin (fst s))
        (?k\<lparr>kn_scheduler := snd (Scheduler_cancel (kn_scheduler k) (wait_event i))\<rparr>, ctx)"
      by (intro wp_select) simp
    then show ?thesis using Some t by (simp add: Kernel_exit_current_def rs_wp)
  qed
qed

lemma wp_remove_thread [rs_wp]:
  "rs_wp (remove_thread i) Q E = (\<lambda>k. case FixedTable_remove (kn_threads k) i of
       (None, T) \<Rightarrow> E KernelError_UnknownThreadId (k\<lparr>kn_threads := T\<rparr>)
     | (Some t, T) \<Rightarrow> Q t (k\<lparr>kn_threads := T\<rparr>))"
  by (rule ext) (simp add: rs_wp_def remove_thread_def ok_or_def Let_def split: prod.split option.split)

lemma exit_delete_current_keeps: "ctx_keeps Kernel_exit_delete_current"
proof (rule ctx_keepsI)
  fix k ctx assume k: "kernel_ok k"
  note inv = kernel_ok_inv [OF k]
  show "rs_wp Kernel_exit_delete_current (\<lambda>_ s. fin (fst s)) (\<lambda>_ s. fin (fst s)) (k, ctx)"
  proof (cases "kn_current_thread k")
    case None
    then show ?thesis using no_current_fin [OF k] by (simp add: Kernel_exit_delete_current_def rs_wp)
  next
    case (Some i)
    have inv': "kernel_inv (Some i) no_exemption k" using inv Some by simp
    obtain t where t: "thr k i = Some t" "th_state t = ThreadState_Running"
      by (rule running_thread [OF inv'])
    let ?k = "k\<lparr>kn_current_thread := None\<rparr>"
    let ?k1 = "?k\<lparr>kn_scheduler := snd (Scheduler_cancel (kn_scheduler ?k) (wait_event i))\<rparr>"
    have "kernel_inv (Some i) no_exemption ?k" using inv' by simp
    moreover have "unat i \<le> 64"
      using thread_id_bound [of k i t] inv t by (simp add: kernel_inv_def)
    ultimately have k1: "kernel_inv (Some i) no_exemption ?k1"
      using t by (intro kernel_inv_cancel_same) simp_all
    obtain r T where rem: "FixedTable_remove (kn_threads k) i = (r, T)" by force
    have r: "r = Some t"
      using remove_laws(1) [OF table_dims_ok [OF threads_dims [OF inv]] rem] t by simp
    have "kernel_inv None no_exemption (?k1\<lparr>kn_threads := T\<rparr>)"
      using rem by (intro kernel_inv_gone [OF k1]) simp
    then have "rs_wp (Kernel_select (Some i) True) (\<lambda>_ s. fin (fst s)) (\<lambda>_ s. fin (fst s))
        (?k1\<lparr>kn_threads := T\<rparr>, ctx)"
      by (intro wp_select) simp
    then show ?thesis using Some rem r by (simp add: Kernel_exit_delete_current_def rs_wp)
  qed
qed

section \<open>Creating and deleting objects\<close>

lemma release_deleted_keeps:
  assumes "kernel_inv (kn_current_thread k) X k" and "\<And>j r. X j r \<Longrightarrow> j \<in> set ws"
  shows "rs_wp (Kernel_release_deleted_waiters ws) (\<lambda>_. fin) (\<lambda>_. fin) k"
  using assms
proof (induction ws arbitrary: k X)
  case Nil
  have "kernel_inv (kn_current_thread k) no_exemption k"
    by (rule kernel_inv_weaken [OF Nil.prems(1)]) (use Nil.prems(2) in auto)
  then show ?case by (auto simp: rs_wp)
next
  case (Cons i ws)
  let ?X = "\<lambda>j r. X j r \<and> j \<noteq> i"
  show ?case
  proof (cases "Option.bind (thr k i) wait_reason")
    case None
    have "kernel_inv (kn_current_thread k) ?X k"
    proof (rule kernel_inv_exempt [OF Cons.prems(1)])
      fix j t r assume "X j r" "thr k j = Some t" "th_state t = ThreadState_Waiting r"
      then show "?X j r \<or> blocked k j r" using None by (cases "j = i") (auto simp: wait_reason_def)
    qed
    then have "rs_wp (Kernel_release_deleted_waiters ws) (\<lambda>_. fin) (\<lambda>_. fin) k"
      by (rule Cons.IH) (use Cons.prems(2) in auto)
    then show ?thesis using None by (simp add: rs_wp)
  next
    case (Some w)
    then obtain t where t: "thr k i = Some t" "th_state t = ThreadState_Waiting w"
      by (auto simp: bind_eq_Some_conv wait_reason_Some)
    have "rs_wp (Kernel_complete_wait i r v)
        (\<lambda>_. rs_wp (Kernel_release_deleted_waiters ws) (\<lambda>_. fin) (\<lambda>_. fin)) (\<lambda>_. fin) k" for r v
    proof (rule wp_complete_wait [OF Cons.prems(1) t])
      let ?k = "completed i (wait_result (kn_next_ready_order k) r v) k"
      assume "kernel_inv (kn_current_thread k) ?X ?k"
      then have "kernel_inv (kn_current_thread ?k) ?X ?k" by (simp add: completed_def)
      then show "rs_wp (Kernel_release_deleted_waiters ws) (\<lambda>_. fin) (\<lambda>_. fin) ?k"
        by (rule Cons.IH) (use Cons.prems(2) in auto)
    qed auto
    then show ?thesis using Some by (simp add: rs_wp)
  qed
qed

lemma kernel_ok_objects:
  assumes "kernel_ok k"
    and "kn_threads k' = kn_threads k" "kn_scheduler k' = kn_scheduler k"
      "kn_alarms k' = kn_alarms k" "kn_next_ready_order k' = kn_next_ready_order k"
      "kn_current_thread k' = kn_current_thread k"
    and "tables_ok k'" "sems_ok (sems k')" "fixed_ok (fpools k')" "variable_ok (vpools k')"
    and "\<And>i t r. thr k i = Some t \<Longrightarrow> th_state t = ThreadState_Waiting r \<Longrightarrow>
      blocked k i r \<Longrightarrow> blocked k' i r"
  shows "kernel_ok k'"
  unfolding kernel_ok_def assms(6)
  by (rule kernel_inv_objects [OF kernel_ok_inv [OF assms(1)] assms(2-5,7-10)]) (use assms(11) in blast)

lemma kernel_ok_parts:
  assumes "kernel_ok k"
  shows "tables_ok k" "sems_ok (sems k)" "fixed_ok (fpools k)" "variable_ok (vpools k)"
  using assms by (simp_all add: kernel_ok_def kernel_inv_def)

end
