(* ===== verification/Kernel_Objects.thy ===== *)
theory Kernel_Objects
  imports Kernel_Ops
begin

text \<open>
  The five kinds of kernel objects a thread can wait on. The locale
  \<open>wait_object\<close> is what their operations rely on: a table in the kernel, a waiter
  queue per object and a condition under which the object cannot serve a wait.
  Creation, deletion, changes and waits are analysed once, and each kind is an
  interpretation.
\<close>

section \<open>The contract\<close>

locale wait_object =
  fixes tab :: "Kernel \<Rightarrow> 'o FixedTable"
    and put :: "'o FixedTable \<Rightarrow> Kernel \<Rightarrow> Kernel"
    and N :: nat
    and waiters :: "'o \<Rightarrow> u32 list"
    and stuck :: "'o \<Rightarrow> WaitReason \<Rightarrow> bool"
    and refers :: "WaitReason \<Rightarrow> u32 option"
    and obj_ok :: "'o \<Rightarrow> bool"
  assumes tab_put: "tab (put T k) = T"
    and put_current: "kn_current_thread (put T k) = kn_current_thread k"
    and blocked_refers: "refers r = Some s \<Longrightarrow> blocked k j r \<longleftrightarrow>
      (\<exists>v. FixedTable_get (tab k) s = Some v \<and> j \<in> set (waiters v) \<and> stuck v r)"
    and not_delay: "refers r = Some s \<Longrightarrow> r \<noteq> WaitReason_Delay \<and> r \<noteq> WaitReason_Sleep"
    and tab_inv: "kernel_inv R X k \<Longrightarrow>
      table_dims N (tab k) \<and> (\<forall>s v. FixedTable_get (tab k) s = Some v \<longrightarrow> obj_ok v)"
    and put_inv: "kernel_inv R X k \<Longrightarrow> table_dims N T \<Longrightarrow>
      (\<forall>s v. FixedTable_get T s = Some v \<longrightarrow> obj_ok v) \<Longrightarrow>
      (\<And>j r s. refers r = Some s \<Longrightarrow> X j r \<or> blocked k j r \<Longrightarrow> X' j r \<or> blocked (put T k) j r) \<Longrightarrow>
      (\<And>j r. refers r = None \<Longrightarrow> X j r \<Longrightarrow> X' j r) \<Longrightarrow> kernel_inv R X' (put T k)"
begin

lemma mut:
  assumes inv: "kernel_inv R X k"
    and ok: "\<And>v. FixedTable_get (tab k) s = Some v \<Longrightarrow> obj_ok v \<Longrightarrow> obj_ok (f v)"
    and cov: "\<And>v j r. FixedTable_get (tab k) s = Some v \<Longrightarrow> refers r = Some s \<Longrightarrow>
      j \<in> set (waiters v) \<Longrightarrow> stuck v r \<Longrightarrow> X' j r \<or> j \<in> set (waiters (f v)) \<and> stuck (f v) r"
    and X: "\<And>j r. X j r \<Longrightarrow> X' j r"
  shows "kernel_inv R X' (put (table_mut s f (tab k)) k)"
proof (rule put_inv [OF inv])
  have ti: "table_dims N (tab k)" "\<forall>s v. FixedTable_get (tab k) s = Some v \<longrightarrow> obj_ok v"
    using tab_inv [OF inv] by blast+
  show "table_dims N (table_mut s f (tab k))" using ti(1) by (rule table_dims_mut)
  show "\<forall>t v. FixedTable_get (table_mut s f (tab k)) t = Some v \<longrightarrow> obj_ok v"
    using ti(2) ok by (auto simp: get_table_mut split: if_splits)
  show "X' j r" if "X j r" for j r using X that .
  fix j r t
  assume r: "refers r = Some t" and b: "X j r \<or> blocked k j r"
  show "X' j r \<or> blocked (put (table_mut s f (tab k)) k) j r"
  proof (cases "X j r")
    case True
    then show ?thesis using X by blast
  next
    case False
    with b obtain v where v: "FixedTable_get (tab k) t = Some v" "j \<in> set (waiters v)" "stuck v r"
      by (auto simp: blocked_refers [OF r])
    show ?thesis
    proof (cases "t = s")
      case True
      with cov [of v r j] v r have "X' j r \<or> j \<in> set (waiters (f v)) \<and> stuck (f v) r" by simp
      then show ?thesis
        using v True by (auto simp: blocked_refers [OF r] tab_put get_table_mut)
    next
      case False
      then show ?thesis using v by (simp add: blocked_refers [OF r] tab_put get_table_mut)
    qed
  qed
qed

lemma mut_ok:
  assumes "kernel_ok k"
    and "\<And>v. FixedTable_get (tab k) s = Some v \<Longrightarrow> obj_ok v \<Longrightarrow> obj_ok (f v)"
    and "\<And>v j r. FixedTable_get (tab k) s = Some v \<Longrightarrow> refers r = Some s \<Longrightarrow>
      j \<in> set (waiters v) \<Longrightarrow> stuck v r \<Longrightarrow> j \<in> set (waiters (f v)) \<and> stuck (f v) r"
  shows "kernel_ok (put (table_mut s f (tab k)) k)"
  unfolding kernel_ok_def put_current
  by (rule mut [OF kernel_ok_inv [OF assms(1)]]) (use assms(2,3) in auto)

lemma insert_ok:
  assumes k: "kernel_ok k" and ins: "FixedTable_insert (tab k) v = (r, T)" and v: "obj_ok v"
  shows "kernel_ok (put T k)"
proof -
  note ti = tab_inv [OF kernel_ok_inv [OF k]]
  have ok: "table_ok (tab k)" using ti by (blast intro: table_dims_ok)
  have T: "\<exists>h. FixedTable_get T = (if r = Inr h then (FixedTable_get (tab k))(h \<mapsto> v) else FixedTable_get (tab k))
      \<and> FixedTable_get (tab k) h = None \<or> T = tab k"
    using ins insert_Inr [OF ok, of v _ T] insert_Inl [OF ok, of v _ T] by (cases r) auto
  have mono: "FixedTable_get T s = Some u" if "FixedTable_get (tab k) s = Some u" for s u
    using T that by (auto split: if_splits)
  show ?thesis
    unfolding kernel_ok_def put_current
  proof (rule put_inv [OF kernel_ok_inv [OF k]])
    show "table_dims N T" using table_dims_insert [of N "tab k" v r T] ti ins by blast
    show "\<forall>s v. FixedTable_get T s = Some v \<longrightarrow> obj_ok v"
      using T ti v by (auto split: if_splits)
    fix j r s assume r: "refers r = Some s" and "False \<or> blocked k j r"
    then show "False \<or> blocked (put T k) j r"
      using mono by (auto simp: blocked_refers [OF r] tab_put)
  qed simp
qed

lemma delete_keeps:
  "op_keeps (rs_bind (\<lambda>k. let (r, T) = FixedTable_remove (tab k) s in (ok_or r e, put T k))
     (\<lambda>v. Kernel_release_deleted_waiters (waiters v)))"
proof (rule op_keepsI)
  fix k assume k: "kernel_ok k"
  note ti = tab_inv [OF kernel_ok_inv [OF k]]
  have ok: "table_ok (tab k)" using ti by (blast intro: table_dims_ok)
  obtain r T where rem: "FixedTable_remove (tab k) s = (r, T)" by force
  note rl = remove_laws [OF ok rem]
  let ?X = "\<lambda>j (w :: WaitReason). \<exists>v. r = Some v \<and> j \<in> set (waiters v)"
  have "kernel_inv (kn_current_thread k) ?X (put T k)"
  proof (rule put_inv [OF kernel_ok_inv [OF k]])
    show "table_dims N T" using table_dims_remove [of N "tab k" s r T] ti rem by blast
    show "\<forall>s v. FixedTable_get T s = Some v \<longrightarrow> obj_ok v" using ti by (auto simp: rl(2) split: if_splits)
    fix j w t assume w: "refers w = Some t" and "False \<or> blocked k j w"
    then show "?X j w \<or> blocked (put T k) j w"
      by (cases "t = s") (auto simp: blocked_refers [OF w] tab_put rl(1,2))
  qed simp
  then have inv: "kernel_inv (kn_current_thread (put T k)) ?X (put T k)" by (simp add: put_current)
  show "rs_wp (rs_bind (\<lambda>k. let (r, T) = FixedTable_remove (tab k) s in (ok_or r e, put T k))
      (\<lambda>v. Kernel_release_deleted_waiters (waiters v))) (\<lambda>_. fin) (\<lambda>_. fin) k"
  proof (cases r)
    case None
    have "kernel_ok (put T k)"
      unfolding kernel_ok_def by (rule kernel_inv_weaken [OF inv]) (use None in auto)
    then show ?thesis using rem None by (auto simp: rs_wp_def rs_bind_def ok_or_def)
  next
    case (Some v)
    have "rs_wp (Kernel_release_deleted_waiters (waiters v)) (\<lambda>_. fin) (\<lambda>_. fin) (put T k)"
      by (rule release_deleted_keeps [OF inv]) (use Some in auto)
    then show ?thesis using rem Some by (simp add: rs_wp_def rs_bind_def ok_or_def)
  qed
qed

text \<open>
  The end of a waiting operation: the current thread has been put in the queue, a
  deadline is computed and the thread blocks.
\<close>

lemma wait_keeps:
  assumes k: "kernel_ok k" and cur: "kn_current_thread k = Some i"
    and v: "FixedTable_get (tab k) s = Some v" and r: "refers r = Some s"
    and st: "stuck v r" and f: "\<And>w. stuck (f v) w = stuck v w" "obj_ok v \<Longrightarrow> obj_ok (f v)"
    and q: "set (waiters (f v)) = insert i (set (waiters v))"
  shows "rs_wp (rs_fst (wait_deadline timeout))
      (\<lambda>d. rs_wp (Kernel_block_current r d) (\<lambda>_ s. fin (fst s)) (\<lambda>_ s. fin (fst s)))
      (\<lambda>_ s. fin (fst s)) (put (table_mut s f (tab k)) k, ctx)"
proof -
  let ?k = "put (table_mut s f (tab k)) k"
  have k': "kernel_ok ?k"
    by (rule mut_ok [OF k]) (use v f q in auto)
  have "blocked ?k i r"
    using v st f(1) q by (simp add: blocked_refers [OF r] tab_put get_table_mut)
  then have "rs_wp (Kernel_block_current r d) (\<lambda>_ s. fin (fst s)) (\<lambda>_ s. fin (fst s)) (?k, ctx)" for d
    using not_delay [OF r] cur by (intro block_current_keeps [OF k']) (simp_all add: put_current)
  then show ?thesis using k' by (auto simp: rs_wp wait_deadline_def split: sum.split)
qed

text \<open>
  The waiters of one object while a loop serves them in order: those still queued,
  and those passed over because the object cannot serve them.
\<close>

definition pending :: "'o \<Rightarrow> u32 \<Rightarrow> u32 list \<Rightarrow> u32 list \<Rightarrow> u32 \<Rightarrow> WaitReason \<Rightarrow> bool" where
  "pending v s queued retained j r \<longleftrightarrow>
     refers r = Some s \<and> (j \<in> set queued \<or> j \<in> set retained \<and> stuck v r)"

lemma pending_skip:
  assumes "kernel_inv R (pending v s (w # queued) retained) k"
    and "\<And>t r. thr k w = Some t \<Longrightarrow> th_state t = ThreadState_Waiting r \<Longrightarrow> refers r \<noteq> Some s"
  shows "kernel_inv R (pending v s queued retained) k"
  by (rule kernel_inv_exempt [OF assms(1)]) (use assms(2) in \<open>auto simp: pending_def\<close>)

lemma pending_retain:
  assumes "kernel_inv R (pending v s (w # queued) retained) k"
    and "\<And>t r. thr k w = Some t \<Longrightarrow> th_state t = ThreadState_Waiting r \<Longrightarrow> stuck v r"
  shows "kernel_inv R (pending v s queued (retained @ [w])) k"
  by (rule kernel_inv_exempt [OF assms(1)]) (use assms(2) in \<open>auto simp: pending_def\<close>)

lemma pending_change:
  assumes inv: "kernel_inv R (pending v s queued retained) k"
    and v: "FixedTable_get (tab k) s = Some v" and v': "obj_ok v \<Longrightarrow> obj_ok v'"
    and w: "set (waiters v) \<subseteq> set (waiters v')"
    and st: "\<And>r. refers r = Some s \<Longrightarrow> stuck v r \<Longrightarrow> stuck v' r"
  shows "kernel_inv R (pending v' s queued retained) (put (table_mut s (\<lambda>_. v') (tab k)) k)"
  by (rule mut [OF kernel_inv_weaken [OF inv]]) (use v v' w st in \<open>auto simp: pending_def\<close>)

lemma pending_done:
  assumes inv: "kernel_inv (kn_current_thread k) (pending v s [] retained) k"
    and v: "FixedTable_get (tab k) s = Some v" and w: "waiters v = []"
    and f: "obj_ok v \<Longrightarrow> obj_ok (f v)" "waiters (f v) = retained" "stuck (f v) = stuck v"
  shows "kernel_ok (put (table_mut s f (tab k)) k)"
  unfolding kernel_ok_def put_current
proof (rule put_inv [OF inv])
  note ti = tab_inv [OF inv]
  show "table_dims N (table_mut s f (tab k))" using ti by (blast intro: table_dims_mut)
  show "\<forall>t u. FixedTable_get (table_mut s f (tab k)) t = Some u \<longrightarrow> obj_ok u"
    using ti v f(1) by (auto simp: get_table_mut split: if_splits)
  fix j r t assume r: "refers r = Some t" and "pending v s [] retained j r \<or> blocked k j r"
  then show "False \<or> blocked (put (table_mut s f (tab k)) k) j r"
    using v w f(2,3)
    by (cases "t = s") (auto simp: pending_def blocked_refers [OF r] tab_put get_table_mut)
qed (simp add: pending_def)

lemma pending_start:
  assumes k: "kernel_ok k" and v: "FixedTable_get (tab k) s = Some v"
    and f: "obj_ok v \<Longrightarrow> obj_ok (f v)"
  shows "kernel_inv (kn_current_thread k) (pending (f v) s (waiters v) [])
    (put (table_mut s f (tab k)) k)"
  by (rule mut [OF kernel_inv_weaken [OF kernel_ok_inv [OF k]]])
    (use v f in \<open>auto simp: pending_def\<close>)

end

lemma set_insert_waiter: "set (insert_waiter ws i a T) = insert i (set ws)"
proof -
  have "set (take p ws @ i # drop p ws) = insert i (set ws)" for p
  proof -
    have "set ws = set (take p ws) \<union> set (drop p ws)" by (metis append_take_drop_id set_append)
    then show ?thesis by simp
  qed
  then show ?thesis by (auto simp: insert_waiter_def Let_def split: option.split)
qed

section \<open>Interpretations\<close>

text \<open>Every interpretation leaves the rest of the kernel alone.\<close>

definition sem_refers :: "WaitReason \<Rightarrow> u32 option" where
  "sem_refers r = (case r of WaitReason_Semaphore s \<Rightarrow> Some s | _ \<Rightarrow> None)"

definition flag_refers :: "WaitReason \<Rightarrow> u32 option" where
  "flag_refers r = (case r of WaitReason_EventFlag s _ _ \<Rightarrow> Some s | _ \<Rightarrow> None)"

definition box_refers :: "WaitReason \<Rightarrow> u32 option" where
  "box_refers r = (case r of WaitReason_MessageBox s \<Rightarrow> Some s | _ \<Rightarrow> None)"

definition fixed_refers :: "WaitReason \<Rightarrow> u32 option" where
  "fixed_refers r = (case r of WaitReason_FixedPool s \<Rightarrow> Some s | _ \<Rightarrow> None)"

definition variable_refers :: "WaitReason \<Rightarrow> u32 option" where
  "variable_refers r = (case r of WaitReason_VariablePool s _ \<Rightarrow> Some s | _ \<Rightarrow> None)"

lemma refers_Some:
  "sem_refers r = Some s \<longleftrightarrow> r = WaitReason_Semaphore s"
  "flag_refers r = Some s \<longleftrightarrow> (\<exists>p m. r = WaitReason_EventFlag s p m)"
  "box_refers r = Some s \<longleftrightarrow> r = WaitReason_MessageBox s"
  "fixed_refers r = Some s \<longleftrightarrow> r = WaitReason_FixedPool s"
  "variable_refers r = Some s \<longleftrightarrow> (\<exists>n. r = WaitReason_VariablePool s n)"
  by (auto simp: sem_refers_def flag_refers_def box_refers_def fixed_refers_def variable_refers_def
      split: WaitReason.splits)

definition flag_stuck :: "EventFlag \<Rightarrow> WaitReason \<Rightarrow> bool" where
  "flag_stuck v r = (case r of WaitReason_EventFlag _ p m \<Rightarrow> \<not> event_satisfied (ef_bits v) p m
     | _ \<Rightarrow> False)"

definition variable_stuck :: "VariablePool \<Rightarrow> WaitReason \<Rightarrow> bool" where
  "variable_stuck v r = (case r of
     WaitReason_VariablePool _ n \<Rightarrow> (\<forall>region\<in>set (vp_free v). fr_size region < n) | _ \<Rightarrow> False)"

interpretation semaphore_wait: wait_object kn_semaphores "\<lambda>T k. k\<lparr>kn_semaphores := T\<rparr>"
  SEMAPHORE_CAPACITY sem_waiters "\<lambda>v _. sem_count v = 0" sem_refers
  "\<lambda>v. sem_count v \<le> sem_maximum v"
proof unfold_locales
  fix R X k assume "kernel_inv R X k"
  then show "table_dims SEMAPHORE_CAPACITY (kn_semaphores k) \<and>
      (\<forall>s v. sems k s = Some v \<longrightarrow> sem_count v \<le> sem_maximum v)"
    by (simp add: kernel_inv_def tables_ok_def sems_ok_def)
next
  fix R X k T X'
  assume inv: "kernel_inv R X k" and "table_dims SEMAPHORE_CAPACITY T"
    and "\<forall>s v. FixedTable_get T s = Some v \<longrightarrow> sem_count v \<le> sem_maximum v"
    and b: "\<And>j r s. sem_refers r = Some s \<Longrightarrow> X j r \<or> blocked k j r \<Longrightarrow>
      X' j r \<or> blocked (k\<lparr>kn_semaphores := T\<rparr>) j r"
    and X: "\<And>j r. sem_refers r = None \<Longrightarrow> X j r \<Longrightarrow> X' j r"
  then show "kernel_inv R X' (k\<lparr>kn_semaphores := T\<rparr>)"
  proof (intro kernel_inv_objects [OF inv])
    fix j t r assume "X j r \<or> blocked k j r"
    then show "X' j r \<or> blocked (k\<lparr>kn_semaphores := T\<rparr>) j r"
      using b [of r _ j] X [of r j] by (cases r) (auto simp: sem_refers_def blocked_def)
  qed (simp_all add: kernel_inv_def tables_ok_def sems_ok_def)
qed (auto simp: refers_Some blocked_def)

interpretation flag_wait: wait_object kn_event_flags "\<lambda>T k. k\<lparr>kn_event_flags := T\<rparr>"
  EVENT_FLAG_CAPACITY ef_waiters flag_stuck flag_refers
  "\<lambda>_. True"
proof unfold_locales
  fix R X k assume "kernel_inv R X k"
  then show "table_dims EVENT_FLAG_CAPACITY (kn_event_flags k) \<and>
      (\<forall>s v. flags k s = Some v \<longrightarrow> True)"
    by (simp add: kernel_inv_def tables_ok_def)
next
  fix R X k T X'
  assume inv: "kernel_inv R X k" and "table_dims EVENT_FLAG_CAPACITY T"
    and "\<forall>s v. FixedTable_get T s = Some v \<longrightarrow> True"
    and b: "\<And>j r s. flag_refers r = Some s \<Longrightarrow> X j r \<or> blocked k j r \<Longrightarrow>
      X' j r \<or> blocked (k\<lparr>kn_event_flags := T\<rparr>) j r"
    and X: "\<And>j r. flag_refers r = None \<Longrightarrow> X j r \<Longrightarrow> X' j r"
  then show "kernel_inv R X' (k\<lparr>kn_event_flags := T\<rparr>)"
  proof (intro kernel_inv_objects [OF inv])
    fix j t r assume "X j r \<or> blocked k j r"
    then show "X' j r \<or> blocked (k\<lparr>kn_event_flags := T\<rparr>) j r"
      using b [of r _ j] X [of r j] by (cases r) (auto simp: flag_refers_def blocked_def)
  qed (simp_all add: kernel_inv_def tables_ok_def)
qed (auto simp: refers_Some blocked_def flag_stuck_def)

interpretation box_wait: wait_object kn_message_boxes "\<lambda>T k. k\<lparr>kn_message_boxes := T\<rparr>"
  MESSAGE_BOX_CAPACITY mb_waiters "\<lambda>v _. mb_messages v = []" box_refers
  "\<lambda>_. True"
proof unfold_locales
  fix R X k assume "kernel_inv R X k"
  then show "table_dims MESSAGE_BOX_CAPACITY (kn_message_boxes k) \<and>
      (\<forall>s v. boxes k s = Some v \<longrightarrow> True)"
    by (simp add: kernel_inv_def tables_ok_def)
next
  fix R X k T X'
  assume inv: "kernel_inv R X k" and "table_dims MESSAGE_BOX_CAPACITY T"
    and "\<forall>s v. FixedTable_get T s = Some v \<longrightarrow> True"
    and b: "\<And>j r s. box_refers r = Some s \<Longrightarrow> X j r \<or> blocked k j r \<Longrightarrow>
      X' j r \<or> blocked (k\<lparr>kn_message_boxes := T\<rparr>) j r"
    and X: "\<And>j r. box_refers r = None \<Longrightarrow> X j r \<Longrightarrow> X' j r"
  then show "kernel_inv R X' (k\<lparr>kn_message_boxes := T\<rparr>)"
  proof (intro kernel_inv_objects [OF inv])
    fix j t r assume "X j r \<or> blocked k j r"
    then show "X' j r \<or> blocked (k\<lparr>kn_message_boxes := T\<rparr>) j r"
      using b [of r _ j] X [of r j] by (cases r) (auto simp: box_refers_def blocked_def)
  qed (simp_all add: kernel_inv_def tables_ok_def)
qed (auto simp: refers_Some blocked_def)

interpretation fixed_wait: wait_object kn_fixed_pools "\<lambda>T k. k\<lparr>kn_fixed_pools := T\<rparr>"
  FIXED_POOL_CAPACITY fp_waiters "\<lambda>v _. fp_free v = []" fixed_refers
  fixed_pool_ok
proof unfold_locales
  fix R X k assume "kernel_inv R X k"
  then show "table_dims FIXED_POOL_CAPACITY (kn_fixed_pools k) \<and>
      (\<forall>s v. fpools k s = Some v \<longrightarrow> fixed_pool_ok v)"
    by (simp add: kernel_inv_def tables_ok_def fixed_ok_def)
next
  fix R X k T X'
  assume inv: "kernel_inv R X k" and "table_dims FIXED_POOL_CAPACITY T"
    and "\<forall>s v. FixedTable_get T s = Some v \<longrightarrow> fixed_pool_ok v"
    and b: "\<And>j r s. fixed_refers r = Some s \<Longrightarrow> X j r \<or> blocked k j r \<Longrightarrow>
      X' j r \<or> blocked (k\<lparr>kn_fixed_pools := T\<rparr>) j r"
    and X: "\<And>j r. fixed_refers r = None \<Longrightarrow> X j r \<Longrightarrow> X' j r"
  then show "kernel_inv R X' (k\<lparr>kn_fixed_pools := T\<rparr>)"
  proof (intro kernel_inv_objects [OF inv])
    fix j t r assume "X j r \<or> blocked k j r"
    then show "X' j r \<or> blocked (k\<lparr>kn_fixed_pools := T\<rparr>) j r"
      using b [of r _ j] X [of r j] by (cases r) (auto simp: fixed_refers_def blocked_def)
  qed (simp_all add: kernel_inv_def tables_ok_def fixed_ok_def)
qed (auto simp: refers_Some blocked_def)

interpretation variable_wait: wait_object kn_variable_pools "\<lambda>T k. k\<lparr>kn_variable_pools := T\<rparr>"
  VARIABLE_POOL_CAPACITY vp_waiters variable_stuck variable_refers
  variable_pool_ok
proof unfold_locales
  fix R X k assume "kernel_inv R X k"
  then show "table_dims VARIABLE_POOL_CAPACITY (kn_variable_pools k) \<and>
      (\<forall>s v. vpools k s = Some v \<longrightarrow> variable_pool_ok v)"
    by (simp add: kernel_inv_def tables_ok_def variable_ok_def)
next
  fix R X k T X'
  assume inv: "kernel_inv R X k" and "table_dims VARIABLE_POOL_CAPACITY T"
    and "\<forall>s v. FixedTable_get T s = Some v \<longrightarrow> variable_pool_ok v"
    and b: "\<And>j r s. variable_refers r = Some s \<Longrightarrow> X j r \<or> blocked k j r \<Longrightarrow>
      X' j r \<or> blocked (k\<lparr>kn_variable_pools := T\<rparr>) j r"
    and X: "\<And>j r. variable_refers r = None \<Longrightarrow> X j r \<Longrightarrow> X' j r"
  then show "kernel_inv R X' (k\<lparr>kn_variable_pools := T\<rparr>)"
  proof (intro kernel_inv_objects [OF inv])
    fix j t r assume "X j r \<or> blocked k j r"
    then show "X' j r \<or> blocked (k\<lparr>kn_variable_pools := T\<rparr>) j r"
      using b [of r _ j] X [of r j] by (cases r) (auto simp: variable_refers_def blocked_def)
  qed (simp_all add: kernel_inv_def tables_ok_def variable_ok_def)
qed (auto simp: refers_Some blocked_def variable_stuck_def)

section \<open>Semaphores\<close>

lemma wp_raw: "rs_wp m Q E k = (case m k of (Inl e, k') \<Rightarrow> E e k' | (Inr x, k') \<Rightarrow> Q x k')"
  by (simp add: rs_wp_def)

lemma create_semaphore_keeps: "op_keeps (Kernel_create_semaphore spec)"
proof (rule op_keepsI)
  fix k assume k: "kernel_ok k"
  have "rs_wp (insert_semaphore v) (\<lambda>_. fin) (\<lambda>_. fin) k" if "sem_count v \<le> sem_maximum v" for v
    using semaphore_wait.insert_ok [OF k] that
    by (auto simp: wp_raw insert_semaphore_def Let_def split: prod.split sum.split)
  then show "rs_wp (Kernel_create_semaphore spec) (\<lambda>_. fin) (\<lambda>_. fin) k"
    using k by (auto simp: Kernel_create_semaphore_def rs_wp not_less split: sum.split)
qed

lemma delete_semaphore_keeps: "op_keeps (Kernel_delete_semaphore i)"
  unfolding Kernel_delete_semaphore_def by (rule semaphore_wait.delete_keeps)

lemma wait_semaphore_keeps: "ctx_keeps (Kernel_wait_semaphore s timeout)"
proof (rule ctx_keepsI)
  fix k ctx assume k: "kernel_ok k"
  show "rs_wp (Kernel_wait_semaphore s timeout) (\<lambda>_ s. fin (fst s)) (\<lambda>_ s. fin (fst s)) (k, ctx)"
  proof (cases "sems k s")
    case None
    then show ?thesis using k
      by (auto simp: Kernel_wait_semaphore_def rs_wp get_semaphore_def case_ok_or)
  next
    case v: (Some v)
    show ?thesis
    proof (cases "sem_count v = 0")
      case False
      have "kernel_ok (k\<lparr>kn_semaphores := table_mut s (\<lambda>v. v\<lparr>sem_count := sem_count v - 1\<rparr>)
          (kn_semaphores k)\<rparr>)"
        using v False
        by (intro semaphore_wait.mut_ok [OF k])
          (auto simp: word_le_nat_alt unat_minus_one intro: order_trans [OF diff_le_self])
      then show ?thesis using v False
        by (auto simp: Kernel_wait_semaphore_def rs_wp get_semaphore_def case_ok_or)
    next
      case True
      show ?thesis
      proof (cases "kn_current_thread k")
        case None
        then show ?thesis using k v True
          by (auto simp: Kernel_wait_semaphore_def rs_wp get_semaphore_def get_current_def case_ok_or)
      next
        case (Some i)
        have "rs_wp (rs_fst (wait_deadline timeout))
            (\<lambda>d. rs_wp (Kernel_block_current (WaitReason_Semaphore s) d)
              (\<lambda>_ s. fin (fst s)) (\<lambda>_ s. fin (fst s)))
            (\<lambda>_ s. fin (fst s)) (k\<lparr>kn_semaphores := table_mut s (\<lambda>v. v\<lparr>sem_waiters :=
              insert_waiter (sem_waiters v) i (sem_attributes v) (kn_threads k)\<rparr>)
              (kn_semaphores k)\<rparr>, ctx)"
          by (rule semaphore_wait.wait_keeps [OF k Some v])
            (simp_all add: refers_Some set_insert_waiter True)
        then show ?thesis using v True Some
          by (simp add: Kernel_wait_semaphore_def rs_wp get_semaphore_def get_current_def case_ok_or)
      qed
    qed
  qed
qed

lemma poll_semaphore_keeps: "op_keeps (Kernel_poll_semaphore s)"
proof (rule op_keepsI)
  fix k assume k: "kernel_ok k"
  have "kernel_ok (k\<lparr>kn_semaphores := table_mut s (\<lambda>v. v\<lparr>sem_count := sem_count v - 1\<rparr>)
          (kn_semaphores k)\<rparr>)" if "sems k s = Some v" "sem_count v \<noteq> 0" for v
    using that
    by (intro semaphore_wait.mut_ok [OF k])
      (auto simp: word_le_nat_alt unat_minus_one intro: order_trans [OF diff_le_self])
  then show "rs_wp (Kernel_poll_semaphore s) (\<lambda>_. fin) (\<lambda>_. fin) k"
    using k by (auto simp: Kernel_poll_semaphore_def rs_wp get_semaphore_def case_ok_or split: option.split)
qed

text \<open>A waiter that is popped and not waiting here needs no exemption.\<close>

lemma not_waiting_exempt:
  assumes "kernel_inv R (\<lambda>j r. j = w \<and> r = reason) k" and "\<not> Kernel_wait_matches k w reason"
  shows "kernel_inv R no_exemption k"
  by (rule kernel_inv_exempt [OF assms(1)]) (use assms(2) in \<open>auto simp: Kernel_wait_matches_def\<close>)

lemma matching_complete_fin:
  assumes inv: "kernel_inv (kn_current_thread k) (\<lambda>j r. j = w \<and> r = reason) k"
    and m: "Kernel_wait_matches k w reason"
  shows "rs_wp (Kernel_complete_wait w r v) (\<lambda>_. fin) (\<lambda>_. fin) k"
proof -
  obtain t where "thr k w = Some t" "th_state t = ThreadState_Waiting reason"
    using m by (auto simp: Kernel_wait_matches_def split: option.splits)
  then show ?thesis by (intro complete_wait_fin [OF inv]) auto
qed

lemma signal_loop_keeps:
  assumes "kernel_ok k" and "sems k s = Some v" and "sem_waiters v = ws"
  shows "rs_wp (signal_loop s ws) (\<lambda>_. fin) (\<lambda>_. fin) k"
  using assms
proof (induction ws arbitrary: k v)
  case Nil
  note k = Nil.prems(1)
  have le: "sem_count v \<le> sem_maximum v"
    using semaphore_wait.tab_inv [OF kernel_ok_inv [OF k]] Nil.prems(2) by blast
  have "kernel_ok (k\<lparr>kn_semaphores := table_mut s (\<lambda>v. v\<lparr>sem_count := sem_count v + 1\<rparr>)
          (kn_semaphores k)\<rparr>)" if "sem_count v \<noteq> sem_maximum v"
    using Nil.prems(2,3) le that
    by (intro semaphore_wait.mut_ok [OF k]) (auto intro: inc_le)
  then show ?case using Nil.prems
    by (auto simp: rs_wp get_semaphore_def case_ok_or)
next
  case (Cons w ws)
  let ?k = "k\<lparr>kn_semaphores := table_mut s (\<lambda>v. v\<lparr>sem_waiters := ws\<rparr>) (kn_semaphores k)\<rparr>"
  have inv: "kernel_inv (kn_current_thread k) (\<lambda>j r. j = w \<and> r = WaitReason_Semaphore s) ?k"
    using Cons.prems(2,3)
    by (intro semaphore_wait.mut [OF kernel_ok_inv [OF Cons.prems(1)]])
      (auto simp: refers_Some)
  show ?case
  proof (cases "Kernel_wait_matches ?k w (WaitReason_Semaphore s)")
    case True
    have "rs_wp (Kernel_complete_wait w 0 None) (\<lambda>_. fin) (\<lambda>_. fin) ?k"
      by (rule matching_complete_fin [OF _ True]) (use inv in simp)
    then show ?thesis using Cons.prems(2) True by (simp add: rs_wp)
  next
    case False
    have "kernel_ok ?k"
      unfolding kernel_ok_def using not_waiting_exempt [OF inv False] by simp
    then have "rs_wp (signal_loop s ws) (\<lambda>_. fin) (\<lambda>_. fin) ?k"
      by (rule Cons.IH [where v = "v\<lparr>sem_waiters := ws\<rparr>"])
        (use Cons.prems(2) in \<open>simp_all add: get_table_mut\<close>)
    then show ?thesis using Cons.prems(2) False by (simp add: rs_wp)
  qed
qed

lemma signal_semaphore_keeps: "op_keeps (Kernel_signal_semaphore s)"
  by (rule op_keepsI)
    (auto simp: Kernel_signal_semaphore_def rs_wp get_semaphore_def case_ok_or
      intro!: signal_loop_keeps split: option.split)

end
