(* ===== verification/Kernel_Flags.thy ===== *)
theory Kernel_Flags
  imports Kernel_Objects
begin

text \<open>
  The operations on event flags and message boxes keep the kernel's invariant.
\<close>

section \<open>Event flags\<close>

lemma satisfied_and:
  assumes "event_satisfied (b AND c) p m"
  shows "event_satisfied b p m"
proof (cases "m AND WAIT_ANY = 0")
  case True
  then have p: "(b AND c) AND p = p" using assms by (simp add: event_satisfied_def)
  have "b AND p = b AND ((b AND c) AND p)" by (simp only: p)
  also have "\<dots> = (b AND c) AND p" by (simp add: and.assoc)
  finally show ?thesis using True p by (simp add: event_satisfied_def)
next
  case False
  then have "(b AND p) AND c \<noteq> 0" using assms by (simp add: event_satisfied_def ac_simps)
  then have "b AND p \<noteq> 0" by auto
  then show ?thesis using False by (simp add: event_satisfied_def)
qed

lemma flag_stuck_waiters [simp]: "flag_stuck (v\<lparr>ef_waiters := ws\<rparr>) = flag_stuck v"
  by (rule ext) (simp add: flag_stuck_def split: WaitReason.split)

lemma flag_stuck_and:
  "flag_stuck v r \<Longrightarrow> ef_bits v' = ef_bits v AND c \<Longrightarrow> flag_stuck v' r"
  by (auto simp: flag_stuck_def split: WaitReason.splits dest: satisfied_and)

lemma consume_laws:
  assumes "consume_event_bits v p m = (b, v')"
  shows "ef_waiters v' = ef_waiters v" "ef_attributes v' = ef_attributes v"
    "flag_stuck v r \<Longrightarrow> flag_stuck v' r"
    "b = None \<Longrightarrow> v' = v \<and> \<not> event_satisfied (ef_bits v) p m"
  using assms flag_stuck_and [of v r v' "NOT p"]
  by (auto simp: consume_event_bits_def split: if_splits)

lemma flag_change_keeps:
  "kernel_ok k \<Longrightarrow> flags k s = Some v \<Longrightarrow> consume_event_bits v p m = (b, v') \<Longrightarrow>
     kernel_ok (k\<lparr>kn_event_flags := table_mut s (\<lambda>_. v') (kn_event_flags k)\<rparr>)"
  by (rule flag_wait.mut_ok) (auto simp: consume_laws)

lemma create_event_flag_keeps: "op_keeps (Kernel_create_event_flag spec)"
proof (rule op_keepsI)
  fix k assume k: "kernel_ok k"
  show "rs_wp (Kernel_create_event_flag spec) (\<lambda>_. fin) (\<lambda>_. fin) k"
    using k flag_wait.insert_ok [OF k]
    by (auto simp: Kernel_create_event_flag_def rs_wp wp_raw Let_def split: prod.split sum.split)
qed

lemma delete_event_flag_keeps: "op_keeps (Kernel_delete_event_flag i)"
  unfolding Kernel_delete_event_flag_def by (rule flag_wait.delete_keeps)

lemma clear_event_flag_keeps: "op_keeps (Kernel_clear_event_flag i b)"
proof (rule op_keepsI)
  fix k assume k: "kernel_ok k"
  have "kernel_ok (k\<lparr>kn_event_flags := table_mut i (\<lambda>v. v\<lparr>ef_bits := ef_bits v AND b\<rparr>)
      (kn_event_flags k)\<rparr>)"
    by (rule flag_wait.mut_ok [OF k]) (auto elim: flag_stuck_and)
  then show "rs_wp (Kernel_clear_event_flag i b) (\<lambda>_. fin) (\<lambda>_. fin) k"
    using k by (auto simp: Kernel_clear_event_flag_def rs_wp get_event_flag_def case_ok_or split: option.split)
qed

lemma poll_event_flag_keeps: "op_keeps (Kernel_poll_event_flag i p m)"
proof (rule op_keepsI)
  fix k assume k: "kernel_ok k"
  show "rs_wp (Kernel_poll_event_flag i p m) (\<lambda>_. fin) (\<lambda>_. fin) k"
  proof (cases "flags k i")
    case None
    then show ?thesis using k
      by (auto simp: Kernel_poll_event_flag_def rs_wp get_event_flag_def case_ok_or split: sum.split)
  next
    case (Some v)
    obtain b v' where c: "consume_event_bits v p m = (b, v')" by force
    show ?thesis using k Some c flag_change_keeps [OF k Some c]
      by (auto simp: Kernel_poll_event_flag_def rs_wp get_event_flag_def case_ok_or split: sum.split option.split)
  qed
qed

lemma wait_event_flag_keeps: "ctx_keeps (Kernel_wait_event_flag s p m timeout)"
proof (rule ctx_keepsI)
  fix k ctx assume k: "kernel_ok k"
  show "rs_wp (Kernel_wait_event_flag s p m timeout) (\<lambda>_ s. fin (fst s)) (\<lambda>_ s. fin (fst s)) (k, ctx)"
  proof (cases "validate_event_wait p m = Inr () \<and> kn_current_thread k \<noteq> None \<and> flags k s \<noteq> None")
    case False
    then show ?thesis using k
      by (cases "validate_event_wait p m")
        (auto simp: Kernel_wait_event_flag_def rs_wp get_event_flag_def get_current_def case_ok_or
          split: option.split)
  next
    case True
    then obtain i v where i: "kn_current_thread k = Some i" and v: "flags k s = Some v" by auto
    obtain b v' where c: "consume_event_bits v p m = (b, v')" by force
    show ?thesis
    proof (cases b)
      case (Some bits)
      then show ?thesis using True i v c flag_change_keeps [OF k v c]
        by (auto simp: Kernel_wait_event_flag_def rs_wp get_event_flag_def get_current_def case_ok_or)
    next
      case None
      have st: "flag_stuck v (WaitReason_EventFlag s p m)"
        using consume_laws(4) [OF c None] by (simp add: flag_stuck_def)
      have "rs_wp (rs_fst (wait_deadline timeout))
            (\<lambda>d. rs_wp (Kernel_block_current (WaitReason_EventFlag s p m) d)
              (\<lambda>_ s. fin (fst s)) (\<lambda>_ s. fin (fst s)))
            (\<lambda>_ s. fin (fst s)) (k\<lparr>kn_event_flags := table_mut s (\<lambda>v. v\<lparr>ef_waiters :=
              insert_waiter (ef_waiters v) i (ef_attributes v AND 1) (kn_threads k)\<rparr>)
              (kn_event_flags k)\<rparr>, ctx)"
        by (rule flag_wait.wait_keeps [OF k i v _ st])
          (simp_all add: refers_Some set_insert_waiter flag_stuck_def split: WaitReason.split)
      then show ?thesis using True i v c None k
        by (auto simp: Kernel_wait_event_flag_def rs_wp get_event_flag_def get_current_def case_ok_or)
    qed
  qed
qed

lemma event_wait_of_None:
  "event_wait_of s k w = None \<Longrightarrow> thr k w = Some t \<Longrightarrow> th_state t = ThreadState_Waiting r \<Longrightarrow>
     flag_refers r \<noteq> Some s"
  by (auto simp: event_wait_of_def refers_Some split: if_splits)

lemma event_wait_of_Some:
  "event_wait_of s k w = Some (p, m) \<Longrightarrow>
     \<exists>t. thr k w = Some t \<and> th_state t = ThreadState_Waiting (WaitReason_EventFlag s p m)"
proof (cases "thr k w")
  case (Some t)
  assume *: "event_wait_of s k w = Some (p, m)"
  show ?thesis
  proof (cases "th_state t")
    case (ThreadState_Waiting r)
    then show ?thesis using * Some by (cases r) (simp_all add: event_wait_of_def split: if_split_asm)
  qed (use * Some in \<open>simp_all add: event_wait_of_def\<close>)
qed (simp add: event_wait_of_def)

lemma set_event_loop_keeps:
  assumes "kernel_inv (kn_current_thread k) (flag_wait.pending v s queued retained) k"
    and "flags k s = Some v" and "ef_waiters v = []"
  shows "rs_wp (set_event_loop s queued retained ready)
    (\<lambda>x k'. \<exists>v'. flags k' s = Some v' \<and> ef_waiters v' = [] \<and>
       kernel_inv (kn_current_thread k') (flag_wait.pending v' s [] (fst x)) k') (\<lambda>_. fin) k"
  using assms
proof (induction queued arbitrary: k v retained ready)
  case Nil
  then show ?case by (auto simp: rs_wp)
next
  case (Cons w queued)
  let ?Q = "\<lambda>x k'. \<exists>v'. flags k' s = Some v' \<and> ef_waiters v' = [] \<and>
       kernel_inv (kn_current_thread k') (flag_wait.pending v' s [] (fst x)) k'"
  show ?case
  proof (cases "event_wait_of s k w")
    case None
    have "kernel_inv (kn_current_thread k) (flag_wait.pending v s queued retained) k"
      by (rule flag_wait.pending_skip [OF Cons.prems(1)]) (use event_wait_of_None [OF None] in auto)
    from Cons.IH [OF this Cons.prems(2,3)] show ?thesis using None by (simp add: rs_wp)
  next
    case (Some pm)
    obtain p m where pm: "pm = (p, m)" by force
    from event_wait_of_Some [OF Some [unfolded pm]] obtain t where t: "thr k w = Some t"
      "th_state t = ThreadState_Waiting (WaitReason_EventFlag s p m)" by blast
    obtain b v' where c: "consume_event_bits v p m = (b, v')" by force
    note cl = consume_laws [OF c]
    let ?k = "k\<lparr>kn_event_flags := table_mut s (\<lambda>_. v') (kn_event_flags k)\<rparr>"
    have inv: "kernel_inv (kn_current_thread k) (flag_wait.pending v' s (w # queued) retained) ?k"
      by (rule flag_wait.pending_change [OF Cons.prems(1,2)]) (simp_all add: cl)
    have v': "flags ?k s = Some v'" "ef_waiters v' = []"
      using Cons.prems(2,3) cl(1) by (simp_all add: get_table_mut)
    show ?thesis
    proof (cases b)
      case b: None
      have st: "flag_stuck v' (WaitReason_EventFlag s p m)"
        using cl(4) [OF b] by (simp add: flag_stuck_def)
      have "kernel_inv (kn_current_thread k) (flag_wait.pending v' s queued (retained @ [w])) ?k"
        by (rule flag_wait.pending_retain [OF inv]) (use t st in auto)
      then have "kernel_inv (kn_current_thread ?k) (flag_wait.pending v' s queued (retained @ [w])) ?k"
        by simp
      from Cons.IH [OF this v'] show ?thesis
        using Some pm Cons.prems(2) c b by (simp add: rs_wp get_event_flag_def case_ok_or)
    next
      case b: (Some x)
      have "rs_wp (Kernel_complete_wait w 0 (Some x))
          (\<lambda>_. rs_wp (set_event_loop s queued retained (ready @ [w])) ?Q (\<lambda>_. fin)) (\<lambda>_. fin) ?k"
      proof (rule wp_complete_wait [OF inv _ t(2)])
        show "thr ?k w = Some t" using t(1) by simp
        let ?k' = "completed w (wait_result (kn_next_ready_order ?k) 0 (Some x)) ?k"
        assume "kernel_inv (kn_current_thread k)
          (\<lambda>j r. flag_wait.pending v' s (w # queued) retained j r \<and> j \<noteq> w) ?k'"
        then have "kernel_inv (kn_current_thread ?k') (flag_wait.pending v' s queued retained) ?k'"
          by (auto elim!: kernel_inv_weaken simp: flag_wait.pending_def completed_def)
        then show "rs_wp (set_event_loop s queued retained (ready @ [w])) ?Q (\<lambda>_. fin) ?k'"
          by (rule Cons.IH) (use v' in \<open>simp_all add: completed_def\<close>)
      qed auto
      then show ?thesis
        using Some pm Cons.prems(2) c b by (simp add: rs_wp get_event_flag_def case_ok_or)
    qed
  qed
qed

lemma set_event_flag_keeps: "op_keeps (Kernel_set_event_flag s bits)"
proof (rule op_keepsI)
  fix k assume k: "kernel_ok k"
  show "rs_wp (Kernel_set_event_flag s bits) (\<lambda>_. fin) (\<lambda>_. fin) k"
  proof (cases "flags k s")
    case None
    then show ?thesis using k
      by (auto simp: Kernel_set_event_flag_def rs_wp get_event_flag_def case_ok_or)
  next
    case (Some v)
    let ?f = "\<lambda>v. v\<lparr>ef_bits := ef_bits v OR bits, ef_waiters := []\<rparr>"
    let ?k = "k\<lparr>kn_event_flags := table_mut s ?f (kn_event_flags k)\<rparr>"
    have inv: "kernel_inv (kn_current_thread ?k) (flag_wait.pending (?f v) s (ef_waiters v) []) ?k"
      using flag_wait.pending_start [OF k Some, of ?f] by simp
    have "rs_wp (set_event_loop s (ef_waiters v) [] [])
        (\<lambda>x k'. rs_wp (case x of (retained, ready) \<Rightarrow>
            rs_then (event_flag_mut s (\<lambda>v. v\<lparr>ef_waiters := retained\<rparr>)) (rs_return ready))
          (\<lambda>_. fin) (\<lambda>_. fin) k') (\<lambda>_. fin) ?k"
    proof (rule wp_mono [OF set_event_loop_keeps [OF inv]], simp add: get_table_mut Some, simp)
      fix x k'
      assume "\<exists>v'. flags k' s = Some v' \<and> ef_waiters v' = [] \<and>
        kernel_inv (kn_current_thread k') (flag_wait.pending v' s [] (fst x)) k'"
      then obtain v' where v': "flags k' s = Some v'" "ef_waiters v' = []"
        and inv': "kernel_inv (kn_current_thread k') (flag_wait.pending v' s [] (fst x)) k'" by blast
      have "kernel_ok (k'\<lparr>kn_event_flags := table_mut s (\<lambda>v. v\<lparr>ef_waiters := fst x\<rparr>)
          (kn_event_flags k')\<rparr>)"
        by (rule flag_wait.pending_done [OF inv' v']) (simp_all add: flag_stuck_waiters)
      then show "rs_wp (case x of (retained, ready) \<Rightarrow>
            rs_then (event_flag_mut s (\<lambda>v. v\<lparr>ef_waiters := retained\<rparr>)) (rs_return ready))
          (\<lambda>_. fin) (\<lambda>_. fin) k'"
        using v' by (cases x) (auto simp: rs_wp)
    qed
    then show ?thesis using Some
      by (simp add: Kernel_set_event_flag_def rs_wp get_event_flag_def case_ok_or)
  qed
qed

section \<open>Message boxes\<close>

lemma create_message_box_keeps: "op_keeps (Kernel_create_message_box spec)"
proof (rule op_keepsI)
  fix k assume k: "kernel_ok k"
  show "rs_wp (Kernel_create_message_box spec) (\<lambda>_. fin) (\<lambda>_. fin) k"
    using k box_wait.insert_ok [OF k]
    by (auto simp: Kernel_create_message_box_def rs_wp wp_raw Let_def split: prod.split sum.split)
qed

lemma delete_message_box_keeps: "op_keeps (Kernel_delete_message_box i)"
  unfolding Kernel_delete_message_box_def by (rule box_wait.delete_keeps)

lemma send_loop_keeps:
  assumes "kernel_ok k" and "boxes k s = Some v" and "mb_waiters v = ws"
  shows "rs_wp (send_loop s m ws) (\<lambda>_. fin) (\<lambda>_. fin) k"
  using assms
proof (induction ws arbitrary: k v)
  case Nil
  have "kernel_ok (k\<lparr>kn_message_boxes := table_mut s (\<lambda>v. v\<lparr>mb_messages := mb_messages v @ [m]\<rparr>)
          (kn_message_boxes k)\<rparr>)"
    using Nil.prems(2,3) by (intro box_wait.mut_ok [OF Nil.prems(1)]) auto
  then show ?case using Nil.prems by (auto simp: rs_wp)
next
  case (Cons w ws)
  let ?k = "k\<lparr>kn_message_boxes := table_mut s (\<lambda>v. v\<lparr>mb_waiters := ws\<rparr>) (kn_message_boxes k)\<rparr>"
  have inv: "kernel_inv (kn_current_thread k) (\<lambda>j r. j = w \<and> r = WaitReason_MessageBox s) ?k"
    using Cons.prems(2,3)
    by (intro box_wait.mut [OF kernel_ok_inv [OF Cons.prems(1)]]) (auto simp: refers_Some)
  show ?case
  proof (cases "Kernel_wait_matches ?k w (WaitReason_MessageBox s)")
    case True
    have "rs_wp (Kernel_complete_wait w 0 (Some m)) (\<lambda>_. fin) (\<lambda>_. fin) ?k"
      by (rule matching_complete_fin [OF _ True]) (use inv in simp)
    then show ?thesis using Cons.prems(2) True by (simp add: rs_wp)
  next
    case False
    have "kernel_ok ?k"
      unfolding kernel_ok_def using not_waiting_exempt [OF inv False] by simp
    then have "rs_wp (send_loop s m ws) (\<lambda>_. fin) (\<lambda>_. fin) ?k"
      by (rule Cons.IH [where v = "v\<lparr>mb_waiters := ws\<rparr>"])
        (use Cons.prems(2) in \<open>simp_all add: get_table_mut\<close>)
    then show ?thesis using Cons.prems(2) False by (simp add: rs_wp)
  qed
qed

lemma send_message_keeps: "op_keeps (Kernel_send_message s m)"
  by (rule op_keepsI)
    (auto simp: Kernel_send_message_def rs_wp get_message_box_def case_ok_or
      intro!: send_loop_keeps split: option.split)

lemma take_message_ok:
  "kernel_ok k \<Longrightarrow> boxes k s = Some v \<Longrightarrow> mb_messages v = m # ms \<Longrightarrow>
     kernel_ok (k\<lparr>kn_message_boxes := table_mut s (\<lambda>v. v\<lparr>mb_messages := ms\<rparr>) (kn_message_boxes k)\<rparr>)"
  by (rule box_wait.mut_ok) auto

lemma poll_message_keeps: "op_keeps (Kernel_poll_message s)"
proof (rule op_keepsI)
  fix k assume k: "kernel_ok k"
  then show "rs_wp (Kernel_poll_message s) (\<lambda>_. fin) (\<lambda>_. fin) k"
    using take_message_ok [OF k, of s]
    by (auto simp: Kernel_poll_message_def rs_wp get_message_box_def case_ok_or
        split: option.split list.split)
qed

lemma receive_message_keeps: "ctx_keeps (Kernel_receive_message s timeout)"
proof (rule ctx_keepsI)
  fix k ctx assume k: "kernel_ok k"
  show "rs_wp (Kernel_receive_message s timeout) (\<lambda>_ s. fin (fst s)) (\<lambda>_ s. fin (fst s)) (k, ctx)"
  proof (cases "kn_current_thread k \<noteq> None \<and> boxes k s \<noteq> None")
    case False
    then show ?thesis using k
      by (auto simp: Kernel_receive_message_def rs_wp get_message_box_def get_current_def case_ok_or
          split: option.split)
  next
    case True
    then obtain i v where i: "kn_current_thread k = Some i" and v: "boxes k s = Some v" by auto
    show ?thesis
    proof (cases "mb_messages v")
      case (Cons m ms)
      then show ?thesis using i v take_message_ok [OF k v Cons]
        by (auto simp: Kernel_receive_message_def rs_wp get_message_box_def get_current_def case_ok_or)
    next
      case Nil
      have "rs_wp (rs_fst (wait_deadline timeout))
            (\<lambda>d. rs_wp (Kernel_block_current (WaitReason_MessageBox s) d)
              (\<lambda>_ s. fin (fst s)) (\<lambda>_ s. fin (fst s)))
            (\<lambda>_ s. fin (fst s)) (k\<lparr>kn_message_boxes := table_mut s (\<lambda>v. v\<lparr>mb_waiters :=
              insert_waiter (mb_waiters v) i (mb_attributes v) (kn_threads k)\<rparr>)
              (kn_message_boxes k)\<rparr>, ctx)"
        by (rule box_wait.wait_keeps [OF k i v])
          (simp_all add: refers_Some set_insert_waiter Nil)
      then show ?thesis using i v Nil
        by (simp add: Kernel_receive_message_def rs_wp get_message_box_def get_current_def case_ok_or)
    qed
  qed
qed

end
