(* ===== verification/Kernel_Pools.thy ===== *)
theory Kernel_Pools
  imports Kernel_Flags
begin

text \<open>
  The operations on fixed and variable memory pools keep the kernel's invariant:
  a fixed pool never holds a block twice, and no region of a variable pool wraps.
\<close>

section \<open>Fixed pools\<close>

lemma fixed_blocks_distinct:
  assumes "checked_mul_n 32 (unat b) n = Some bytes" and "b \<noteq> (0::u32)"
  shows "distinct (map (\<lambda>i. base + of_nat i * b) [0..<n])"
proof -
  have lt: "unat b * n < 2 ^ 32" using assms(1) by (simp add: checked_mul_n_def split: if_splits)
  have pos: "0 < unat b" using assms(2) by (simp add: unat_gt_0)
  have un: "unat (of_nat i * b) = i * unat b" if "i < n" for i
  proof -
    have "i * unat b < 2 ^ 32"
      using that lt by (metis less_imp_le_nat mult.commute mult_le_mono1 order_le_less_trans)
    moreover from this pos have "i < 2 ^ 32"
      by (metis One_nat_def Suc_leI mult.right_neutral mult_le_mono2 order_le_less_trans)
    ultimately show ?thesis by (simp add: unat_word_ariths unat_of_nat_small)
  qed
  have "inj_on (\<lambda>i. base + of_nat i * b) {..<n}"
  proof (rule inj_onI)
    fix i j assume i: "i \<in> {..<n}" and j: "j \<in> {..<n}" and "base + of_nat i * b = base + of_nat j * b"
    then have "unat (of_nat i * b) = unat (of_nat j * b)" by simp
    then show "i = j" using i j pos by (simp add: un)
  qed
  then show ?thesis by (simp add: distinct_map atLeast_upt lessThan_atLeast0)
qed

lemma create_fixed_pool_keeps: "op_keeps (Kernel_create_fixed_pool spec gr)"
proof (rule op_keepsI)
  fix k assume k: "kernel_ok k"
  have "rs_wp (\<lambda>k. let (r, t) = FixedTable_insert (kn_fixed_pools k) v
      in (r, k\<lparr>kn_fixed_pools := t\<rparr>)) (\<lambda>_. fin) (\<lambda>_. fin) k" if "fixed_pool_ok v" for v
    using fixed_wait.insert_ok [OF k] that by (auto simp: wp_raw Let_def split: prod.split sum.split)
  then show "rs_wp (Kernel_create_fixed_pool spec gr) (\<lambda>_. fin) (\<lambda>_. fin) k"
    using k fixed_blocks_distinct [of "fps_block_size spec" "unat (fps_blocks spec)"]
    by (auto simp: Kernel_create_fixed_pool_def rs_wp case_ok_or fixed_pool_ok_def
        split: sum.split option.split)
qed

lemma delete_fixed_pool_keeps: "op_keeps (Kernel_delete_fixed_pool i)"
proof (rule op_keepsI)
  fix k assume k: "kernel_ok k"
  have "rs_wp (rs_bind (\<lambda>k. let (r, t) = FixedTable_remove (kn_fixed_pools k) i
      in (ok_or r KernelError_UnknownFixedPoolId, k\<lparr>kn_fixed_pools := t\<rparr>)) (\<lambda>pool.
     Kernel_release_deleted_waiters (fp_waiters pool))) (\<lambda>_. fin) (\<lambda>_. fin) k"
    using fixed_wait.delete_keeps k by (simp add: op_keeps_def)
  then show "rs_wp (Kernel_delete_fixed_pool i) (\<lambda>_. fin) (\<lambda>_. fin) k"
    using k unfolding Kernel_delete_fixed_pool_def wp_bind [of "get_fixed_pool i"]
    by (auto simp: get_fixed_pool_def wp_try wp_if wp_fail case_ok_or split: option.split)
qed

lemma allocate_fixed_keeps: "ctx_keeps (Kernel_allocate_fixed s timeout)"
proof (rule ctx_keepsI)
  fix k ctx assume k: "kernel_ok k"
  show "rs_wp (Kernel_allocate_fixed s timeout) (\<lambda>_ s. fin (fst s)) (\<lambda>_ s. fin (fst s)) (k, ctx)"
  proof (cases "kn_current_thread k \<noteq> None \<and> fpools k s \<noteq> None")
    case False
    then show ?thesis using k
      by (auto simp: Kernel_allocate_fixed_def rs_wp get_fixed_pool_def get_current_def case_ok_or
          split: option.split)
  next
    case True
    then obtain i v where i: "kn_current_thread k = Some i" and v: "fpools k s = Some v" by auto
    show ?thesis
    proof (cases "fp_free v")
      case (Cons a free)
      have "kernel_ok (k\<lparr>kn_fixed_pools := table_mut s (\<lambda>v.
           v\<lparr>fp_free := free, fp_allocated := insert a (fp_allocated v)\<rparr>) (kn_fixed_pools k)\<rparr>)"
        by (rule fixed_wait.mut_ok [OF k]) (use v Cons in \<open>auto simp: fixed_pool_ok_def\<close>)
      then show ?thesis using i v Cons
        by (auto simp: Kernel_allocate_fixed_def rs_wp get_fixed_pool_def get_current_def case_ok_or)
    next
      case Nil
      have "rs_wp (rs_fst (wait_deadline timeout))
            (\<lambda>d. rs_wp (Kernel_block_current (WaitReason_FixedPool s) d)
              (\<lambda>_ s. fin (fst s)) (\<lambda>_ s. fin (fst s)))
            (\<lambda>_ s. fin (fst s)) (k\<lparr>kn_fixed_pools := table_mut s (\<lambda>v. v\<lparr>fp_waiters :=
              insert_waiter (fp_waiters v) i (fp_attributes v) (kn_threads k)\<rparr>)
              (kn_fixed_pools k)\<rparr>, ctx)"
        by (rule fixed_wait.wait_keeps [OF k i v])
          (simp_all add: refers_Some set_insert_waiter Nil)
      then show ?thesis using i v Nil
        by (simp add: Kernel_allocate_fixed_def rs_wp get_fixed_pool_def get_current_def case_ok_or)
    qed
  qed
qed

lemma free_fixed_loop_keeps:
  assumes "kernel_ok k" and "fpools k s = Some v" and "fp_waiters v = ws"
    and "a \<notin> set (fp_free v)" and "a \<notin> fp_allocated v"
  shows "rs_wp (free_fixed_loop s a ws) (\<lambda>_. fin) (\<lambda>_. fin) k"
  using assms
proof (induction ws arbitrary: k v)
  case Nil
  have "kernel_ok (k\<lparr>kn_fixed_pools := table_mut s (\<lambda>v. v\<lparr>fp_free := fp_free v @ [a]\<rparr>)
          (kn_fixed_pools k)\<rparr>)"
    using Nil.prems(2-5)
    by (intro fixed_wait.mut_ok [OF Nil.prems(1)]) (auto simp: fixed_pool_ok_def)
  then show ?case using Nil.prems by (auto simp: rs_wp)
next
  case (Cons w ws)
  let ?k = "k\<lparr>kn_fixed_pools := table_mut s (\<lambda>v. v\<lparr>fp_waiters := ws\<rparr>) (kn_fixed_pools k)\<rparr>"
  let ?v = "v\<lparr>fp_waiters := ws\<rparr>"
  have inv: "kernel_inv (kn_current_thread k) (\<lambda>j r. j = w \<and> r = WaitReason_FixedPool s) ?k"
    using Cons.prems(2,3)
    by (intro fixed_wait.mut [OF kernel_ok_inv [OF Cons.prems(1)]]) (auto simp: refers_Some)
  have v: "fpools ?k s = Some ?v" using Cons.prems(2) by (simp add: get_table_mut)
  show ?case
  proof (cases "Kernel_wait_matches ?k w (WaitReason_FixedPool s)")
    case True
    let ?k2 = "?k\<lparr>kn_fixed_pools := table_mut s
      (\<lambda>v. v\<lparr>fp_allocated := insert a (fp_allocated v)\<rparr>) (kn_fixed_pools ?k)\<rparr>"
    have "kernel_inv (kn_current_thread ?k2) (\<lambda>j r. j = w \<and> r = WaitReason_FixedPool s) ?k2"
      using fixed_wait.mut [OF inv, of s "\<lambda>v. v\<lparr>fp_allocated := insert a (fp_allocated v)\<rparr>"]
        v Cons.prems(4,5) by (auto simp: fixed_pool_ok_def)
    then have "rs_wp (Kernel_complete_wait w 0 (Some a)) (\<lambda>_. fin) (\<lambda>_. fin) ?k2"
      by (rule matching_complete_fin) (use True in \<open>simp add: Kernel_wait_matches_def\<close>)
    then show ?thesis using Cons.prems(2) True v by (simp add: rs_wp)
  next
    case False
    have "kernel_ok ?k"
      unfolding kernel_ok_def using not_waiting_exempt [OF inv False] by simp
    then have "rs_wp (free_fixed_loop s a ws) (\<lambda>_. fin) (\<lambda>_. fin) ?k"
      by (rule Cons.IH [OF _ v]) (use Cons.prems(4,5) in simp_all)
    then show ?thesis using Cons.prems(2) False by (simp add: rs_wp)
  qed
qed

lemma free_fixed_keeps: "op_keeps (Kernel_free_fixed s a)"
proof (rule op_keepsI)
  fix k assume k: "kernel_ok k"
  show "rs_wp (Kernel_free_fixed s a) (\<lambda>_. fin) (\<lambda>_. fin) k"
  proof (cases "fpools k s")
    case None
    then show ?thesis using k by (auto simp: Kernel_free_fixed_def rs_wp get_fixed_pool_def case_ok_or)
  next
    case (Some v)
    let ?k = "k\<lparr>kn_fixed_pools := table_mut s (\<lambda>v. v\<lparr>fp_allocated := fp_allocated v - {a}\<rparr>)
          (kn_fixed_pools k)\<rparr>"
    have "fixed_pool_ok v" using fixed_wait.tab_inv [OF kernel_ok_inv [OF k]] Some by blast
    then have a: "a \<in> fp_allocated v \<Longrightarrow> a \<notin> set (fp_free v)" by (auto simp: fixed_pool_ok_def)
    have "kernel_ok ?k"
      by (rule fixed_wait.mut_ok [OF k]) (auto simp: fixed_pool_ok_def)
    then have "rs_wp (free_fixed_loop s a (fp_waiters v)) (\<lambda>_. fin) (\<lambda>_. fin) ?k"
      if "a \<in> fp_allocated v"
      by (rule free_fixed_loop_keeps [where v = "v\<lparr>fp_allocated := fp_allocated v - {a}\<rparr>"])
        (use Some a that in \<open>simp_all add: get_table_mut\<close>)
    then show ?thesis using Some k
      by (auto simp: Kernel_free_fixed_def rs_wp get_fixed_pool_def case_ok_or)
  qed
qed

section \<open>Variable pools\<close>

lemma variable_stuck_waiters [simp]: "variable_stuck (v\<lparr>vp_waiters := ws\<rparr>) = variable_stuck v"
  by (rule ext) (simp add: variable_stuck_def split: WaitReason.split)

text \<open>What an allocation does: it takes the front of the first region that is large enough.\<close>

lemma allocate_region_Some:
  assumes "allocate_region v n = (Some a, v')"
  obtains pre r post where "vp_free v = pre @ r # post" and "\<forall>q\<in>set pre. fr_size q < n"
    and "n \<le> fr_size r" and "fr_address r = a" and "checked_add a n = Some (a + n)"
    and "vp_free v' = pre @ (if fr_size r = n then []
        else [\<lparr>fr_address = a + n, fr_size = fr_size r - n\<rparr>]) @ post"
    and "vp_allocated v' = AList.update a n (vp_allocated v)"
    and "vp_waiters v' = vp_waiters v" and "vp_attributes v' = vp_attributes v"
proof -
  obtain i where i: "position (\<lambda>region. n \<le> fr_size region) (vp_free v) = Some i"
    using assms by (auto simp: allocate_region_def split: option.splits)
  note p = position_SomeD [OF i]
  let ?r = "vp_free v ! i"
  have split: "vp_free v = take i (vp_free v) @ ?r # drop (Suc i) (vp_free v)"
    using p by (simp add: id_take_nth_drop)
  have pre: "\<forall>q\<in>set (take i (vp_free v)). fr_size q < n"
    using p by (auto simp: in_set_conv_nth not_le)
  have c: "checked_add (fr_address ?r) n = Some (fr_address ?r + n)"
    using assms i by (auto simp: allocate_region_def checked_add_def Let_def split: option.splits if_splits)
  then have a: "a = fr_address ?r"
    and v': "vp_free v' = (if fr_size ?r = n then take i (vp_free v) @ drop (Suc i) (vp_free v)
        else (vp_free v)[i := \<lparr>fr_address = fr_address ?r + n, fr_size = fr_size ?r - n\<rparr>])"
    and rest: "vp_allocated v' = AList.update a n (vp_allocated v)"
      "vp_waiters v' = vp_waiters v" "vp_attributes v' = vp_attributes v"
    using assms i by (auto simp: allocate_region_def Let_def)
  show thesis
    by (rule that [of "take i (vp_free v)" ?r "drop (Suc i) (vp_free v)"])
      (use split pre p c a v' rest in \<open>auto simp: upd_conv_take_nth_drop\<close>)
qed

lemma allocate_region_None:
  assumes "allocate_region v n = (None, v')" and "variable_pool_ok v"
  shows "v' = v \<and> (\<forall>r\<in>set (vp_free v). fr_size r < n)"
proof (cases "position (\<lambda>region. n \<le> fr_size region) (vp_free v)")
  case None
  then have "\<forall>r\<in>set (vp_free v). fr_size r < n" by (simp add: position_None_iff not_le)
  then show ?thesis using assms(1) None by (simp add: allocate_region_def)
next
  case (Some i)
  note p = position_SomeD [OF Some]
  let ?r = "vp_free v ! i"
  have "region_ok ?r" using assms(2) p by (simp add: variable_pool_ok_def)
  moreover have "unat n \<le> unat (fr_size ?r)" using p by (simp add: word_le_nat_alt)
  ultimately have "checked_add (fr_address ?r) n \<noteq> None"
    by (simp add: region_ok_def checked_add_def)
  then show ?thesis using assms(1) Some by (auto simp: allocate_region_def Let_def split: option.splits)
qed

lemma set_update_subset: "set (AList.update a n xs) \<subseteq> insert (a, n) (set xs)"
  by (induction xs) (auto split: if_splits)

lemma allocate_region_ok:
  assumes "variable_pool_ok v" and "allocate_region v n = (x, v')"
  shows "variable_pool_ok v'"
proof (cases x)
  case None
  then show ?thesis using allocate_region_None [of v n v'] assms by simp
next
  case (Some a)
  with assms(2) obtain pre r post where f: "vp_free v = pre @ r # post" "n \<le> fr_size r"
      "fr_address r = a" "checked_add a n = Some (a + n)"
    and f': "vp_free v' = pre @ (if fr_size r = n then []
        else [\<lparr>fr_address = a + n, fr_size = fr_size r - n\<rparr>]) @ post"
    and al: "vp_allocated v' = AList.update a n (vp_allocated v)"
    using allocate_region_Some [of v n a v'] Some by metis
  have r: "unat a + unat (fr_size r) < 2 ^ 32"
    using assms(1) f by (simp add: variable_pool_ok_def region_ok_def)
  have le: "unat n \<le> unat (fr_size r)" using f(2) by (simp add: word_le_nat_alt)
  have "region_ok \<lparr>fr_address = a + n, fr_size = fr_size r - n\<rparr>"
    using checked_add_SomeD [OF f(4)] r le by (simp add: region_ok_def unat_sub f(2))
  moreover have "\<forall>(b, m)\<in>set (vp_allocated v'). unat b + unat m < 2 ^ 32"
    using set_update_subset [of a n "vp_allocated v"] assms(1) r le
    unfolding al variable_pool_ok_def by fastforce
  ultimately show ?thesis
    using assms(1) f f' by (auto simp: variable_pool_ok_def)
qed

lemma allocate_region_stuck:
  assumes "allocate_region v n = (x, v')" and "variable_pool_ok v" and "variable_stuck v r"
  shows "variable_stuck v' r"
proof (cases x)
  case None
  then show ?thesis using allocate_region_None [of v n v'] assms by simp
next
  case (Some a)
  with assms(1) obtain pre q post where f: "vp_free v = pre @ q # post" "n \<le> fr_size q"
    and f': "vp_free v' = pre @ (if fr_size q = n then []
        else [\<lparr>fr_address = a + n, fr_size = fr_size q - n\<rparr>]) @ post"
    using allocate_region_Some [of v n a v'] Some by metis
  have "fr_size q - n \<le> fr_size q" using f(2) by (simp add: word_sub_le)
  then have "\<exists>p\<in>set (vp_free v). fr_size p' \<le> fr_size p" if "p' \<in> set (vp_free v')" for p'
    using that f f' by (auto split: if_splits)
  then show ?thesis using assms(3)
    by (auto simp: variable_stuck_def split: WaitReason.splits) (meson order_le_less_trans)
qed

lemma allocate_region_waiters:
  assumes "allocate_region v n = (x, v')"
  shows "vp_waiters v' = vp_waiters v"
  using assms by (auto simp: allocate_region_def Let_def split: option.splits)

lemma region_ok_merge:
  assumes "checked_add (fr_address l) (fr_size l) = Some (fr_address r)" and "region_ok r"
  shows "region_ok (l\<lparr>fr_size := fr_size l + fr_size r\<rparr>)"
    and "unat (fr_size l + fr_size r) = unat (fr_size l) + unat (fr_size r)"
proof -
  have ok: "unat (fr_address r) + unat (fr_size r) < 2 ^ 32" using assms(2) by (simp add: region_ok_def)
  have sum: "unat (fr_address r) = unat (fr_address l) + unat (fr_size l)"
    using checked_add_SomeD [OF assms(1)] .
  then have "unat (fr_size l) + unat (fr_size r) < 2 ^ 32" using ok by simp
  then show "unat (fr_size l + fr_size r) = unat (fr_size l) + unat (fr_size r)"
    by (simp add: unat_word_ariths)
  then show "region_ok (l\<lparr>fr_size := fr_size l + fr_size r\<rparr>)"
    using ok sum by (simp add: region_ok_def)
qed

lemma coalesce_loop_ok:
  "\<forall>r\<in>set out. region_ok r \<Longrightarrow> \<forall>r\<in>set rs. region_ok r \<Longrightarrow> \<forall>r\<in>set (coalesce_loop out rs). region_ok r"
proof (induction out rs rule: coalesce_loop.induct)
  case (2 out r rs)
  let ?l = "last out"
  show ?case
  proof (cases "out \<noteq> [] \<and> checked_add (fr_address ?l) (fr_size ?l) = Some (fr_address r)")
    case True
    have "\<forall>q\<in>set (butlast out @ [?l\<lparr>fr_size := fr_size ?l + fr_size r\<rparr>]). region_ok q"
      using "2.prems" region_ok_merge(1) [of ?l r] True by (auto dest: in_set_butlastD)
    from "2.IH"(1) [OF True this] show ?thesis using True "2.prems"(2) by simp
  next
    case False
    then show ?thesis using "2.IH"(2) [OF False] "2.prems" by auto
  qed
qed simp

lemma coalesce_ok: "\<forall>r\<in>set rs. region_ok r \<Longrightarrow> \<forall>r\<in>set (coalesce_regions rs). region_ok r"
  unfolding coalesce_regions_def by (rule coalesce_loop_ok) simp_all

lemma create_variable_pool_keeps: "op_keeps (Kernel_create_variable_pool spec gr)"
proof (rule op_keepsI)
  fix k assume k: "kernel_ok k"
  have ins: "rs_wp (\<lambda>k. let (r, t) = FixedTable_insert (kn_variable_pools k) v
      in (r, k\<lparr>kn_variable_pools := t\<rparr>)) (\<lambda>_. fin) (\<lambda>_. fin) k" if "variable_pool_ok v" for v
    using variable_wait.insert_ok [OF k] that by (auto simp: wp_raw Let_def split: prod.split sum.split)
  have "unat (vps_base spec) + unat (vps_size spec) < 2 ^ 32"
    if "GuestRange_validate gr (vps_base spec) (unat (vps_size spec)) 4 = Inr u" for u
    using GuestRange_validate_ok(4) [of gr "vps_base spec" "unat (vps_size spec)" 4] that
      u32_bound [of "gr_end gr"] by simp
  then show "rs_wp (Kernel_create_variable_pool spec gr) (\<lambda>_. fin) (\<lambda>_. fin) k"
    using k ins
    by (auto simp: Kernel_create_variable_pool_def rs_wp variable_pool_ok_def region_ok_def map_err_def
        split: sum.splits)
qed

lemma delete_variable_pool_keeps: "op_keeps (Kernel_delete_variable_pool i)"
proof (rule op_keepsI)
  fix k assume k: "kernel_ok k"
  have "rs_wp (rs_bind (\<lambda>k. let (r, t) = FixedTable_remove (kn_variable_pools k) i
      in (ok_or r KernelError_UnknownVariablePoolId, k\<lparr>kn_variable_pools := t\<rparr>)) (\<lambda>pool.
     Kernel_release_deleted_waiters (vp_waiters pool))) (\<lambda>_. fin) (\<lambda>_. fin) k"
    using variable_wait.delete_keeps k by (simp add: op_keeps_def)
  then show "rs_wp (Kernel_delete_variable_pool i) (\<lambda>_. fin) (\<lambda>_. fin) k"
    using k unfolding Kernel_delete_variable_pool_def wp_bind [of "get_variable_pool i"]
    by (auto simp: get_variable_pool_def wp_try wp_if wp_fail case_ok_or split: option.split)
qed

lemma allocate_variable_keeps: "ctx_keeps (Kernel_allocate_variable s n timeout)"
proof (rule ctx_keepsI)
  fix k ctx assume k: "kernel_ok k"
  show "rs_wp (Kernel_allocate_variable s n timeout) (\<lambda>_ s. fin (fst s)) (\<lambda>_ s. fin (fst s)) (k, ctx)"
  proof (cases "kn_current_thread k \<noteq> None \<and> vpools k s \<noteq> None")
    case False
    then show ?thesis using k
      by (auto simp: Kernel_allocate_variable_def rs_wp get_variable_pool_def get_current_def case_ok_or
          split: option.split sum.split)
  next
    case True
    then obtain i v where i: "kn_current_thread k = Some i" and v: "vpools k s = Some v" by auto
    have ok: "variable_pool_ok v" using variable_wait.tab_inv [OF kernel_ok_inv [OF k]] v by blast
    show ?thesis
    proof (cases "align_pool_size n")
      case (Inl e)
      then show ?thesis using k by (auto simp: Kernel_allocate_variable_def rs_wp)
    next
      case n: (Inr bytes)
      obtain x v' where a: "allocate_region v bytes = (x, v')" by force
      show ?thesis
      proof (cases x)
        case (Some block)
        have "kernel_ok (k\<lparr>kn_variable_pools := table_mut s (\<lambda>_. v') (kn_variable_pools k)\<rparr>)"
          by (rule variable_wait.mut_ok [OF k])
            (use v allocate_region_ok [OF ok a] allocate_region_waiters [OF a]
              allocate_region_stuck [OF a ok] in auto)
        then show ?thesis using i v n a Some
          by (auto simp: Kernel_allocate_variable_def rs_wp get_variable_pool_def get_current_def case_ok_or)
      next
        case None
        have st: "variable_stuck v (WaitReason_VariablePool s bytes)"
          using allocate_region_None [OF a [unfolded None] ok] by (simp add: variable_stuck_def)
        have "rs_wp (rs_fst (wait_deadline timeout))
            (\<lambda>d. rs_wp (Kernel_block_current (WaitReason_VariablePool s bytes) d)
              (\<lambda>_ s. fin (fst s)) (\<lambda>_ s. fin (fst s)))
            (\<lambda>_ s. fin (fst s)) (k\<lparr>kn_variable_pools := table_mut s (\<lambda>v. v\<lparr>vp_waiters :=
              insert_waiter (vp_waiters v) i (vp_attributes v) (kn_threads k)\<rparr>)
              (kn_variable_pools k)\<rparr>, ctx)"
          by (rule variable_wait.wait_keeps [OF k i v _ st])
            (simp_all add: refers_Some set_insert_waiter)
        then show ?thesis using i v n a None
          by (simp add: Kernel_allocate_variable_def rs_wp get_variable_pool_def get_current_def case_ok_or)
      qed
    qed
  qed
qed

lemma variable_wait_of_None:
  "variable_wait_of s k w = None \<Longrightarrow> thr k w = Some t \<Longrightarrow> th_state t = ThreadState_Waiting r \<Longrightarrow>
     variable_refers r \<noteq> Some s"
  by (auto simp: variable_wait_of_def refers_Some split: if_splits)

lemma variable_wait_of_Some:
  "variable_wait_of s k w = Some n \<Longrightarrow>
     \<exists>t. thr k w = Some t \<and> th_state t = ThreadState_Waiting (WaitReason_VariablePool s n)"
proof (cases "thr k w")
  case (Some t)
  assume *: "variable_wait_of s k w = Some n"
  show ?thesis
  proof (cases "th_state t")
    case (ThreadState_Waiting r)
    then show ?thesis using * Some by (cases r) (simp_all add: variable_wait_of_def split: if_split_asm)
  qed (use * Some in \<open>simp_all add: variable_wait_of_def\<close>)
qed (simp add: variable_wait_of_def)

lemma free_variable_loop_keeps:
  assumes "kernel_inv (kn_current_thread k) (variable_wait.pending v s queued retained) k"
    and "vpools k s = Some v" and "vp_waiters v = []"
  shows "rs_wp (free_variable_loop s queued retained ready)
    (\<lambda>x k'. \<exists>v'. vpools k' s = Some v' \<and> vp_waiters v' = [] \<and>
       kernel_inv (kn_current_thread k') (variable_wait.pending v' s [] (fst x)) k') (\<lambda>_. fin) k"
  using assms
proof (induction queued arbitrary: k v retained ready)
  case Nil
  then show ?case by (auto simp: rs_wp)
next
  case (Cons w queued)
  let ?Q = "\<lambda>x k'. \<exists>v'. vpools k' s = Some v' \<and> vp_waiters v' = [] \<and>
       kernel_inv (kn_current_thread k') (variable_wait.pending v' s [] (fst x)) k'"
  have ok: "variable_pool_ok v" using variable_wait.tab_inv [OF Cons.prems(1)] Cons.prems(2) by blast
  show ?case
  proof (cases "variable_wait_of s k w")
    case None
    have "kernel_inv (kn_current_thread k) (variable_wait.pending v s queued retained) k"
      by (rule variable_wait.pending_skip [OF Cons.prems(1)]) (use variable_wait_of_None [OF None] in auto)
    from Cons.IH [OF this Cons.prems(2,3)] show ?thesis using None by (simp add: rs_wp)
  next
    case (Some n)
    from variable_wait_of_Some [OF Some] obtain t where t: "thr k w = Some t"
      "th_state t = ThreadState_Waiting (WaitReason_VariablePool s n)" by blast
    obtain b v' where a: "allocate_region v n = (b, v')" by force
    let ?k = "k\<lparr>kn_variable_pools := table_mut s (\<lambda>_. v') (kn_variable_pools k)\<rparr>"
    have inv: "kernel_inv (kn_current_thread k) (variable_wait.pending v' s (w # queued) retained) ?k"
      by (rule variable_wait.pending_change [OF Cons.prems(1,2)])
        (use allocate_region_ok [OF _ a] allocate_region_waiters [OF a]
          allocate_region_stuck [OF a ok] in auto)
    have v': "vpools ?k s = Some v'" "vp_waiters v' = []"
      using Cons.prems(2,3) allocate_region_waiters [OF a] by (simp_all add: get_table_mut)
    show ?thesis
    proof (cases b)
      case b: None
      have st: "variable_stuck v' (WaitReason_VariablePool s n)"
        using allocate_region_None [OF a [unfolded b] ok] by (simp add: variable_stuck_def)
      have "kernel_inv (kn_current_thread k) (variable_wait.pending v' s queued (retained @ [w])) ?k"
        by (rule variable_wait.pending_retain [OF inv]) (use t st in auto)
      then have "kernel_inv (kn_current_thread ?k) (variable_wait.pending v' s queued (retained @ [w])) ?k"
        by simp
      from Cons.IH [OF this v'] show ?thesis
        using Some Cons.prems(2) a b by (simp add: rs_wp get_variable_pool_def case_ok_or)
    next
      case b: (Some x)
      have "rs_wp (Kernel_complete_wait w 0 (Some x))
          (\<lambda>_. rs_wp (free_variable_loop s queued retained (ready @ [w])) ?Q (\<lambda>_. fin)) (\<lambda>_. fin) ?k"
      proof (rule wp_complete_wait [OF inv _ t(2)])
        show "thr ?k w = Some t" using t(1) by simp
        let ?k' = "completed w (wait_result (kn_next_ready_order ?k) 0 (Some x)) ?k"
        assume "kernel_inv (kn_current_thread k)
          (\<lambda>j r. variable_wait.pending v' s (w # queued) retained j r \<and> j \<noteq> w) ?k'"
        then have "kernel_inv (kn_current_thread ?k') (variable_wait.pending v' s queued retained) ?k'"
          by (auto elim!: kernel_inv_weaken simp: variable_wait.pending_def completed_def)
        then show "rs_wp (free_variable_loop s queued retained (ready @ [w])) ?Q (\<lambda>_. fin) ?k'"
          by (rule Cons.IH) (use v' in \<open>simp_all add: completed_def\<close>)
      qed auto
      then show ?thesis
        using Some Cons.prems(2) a b by (simp add: rs_wp get_variable_pool_def case_ok_or)
    qed
  qed
qed

lemma free_variable_keeps: "op_keeps (Kernel_free_variable s a)"
proof (rule op_keepsI)
  fix k assume k: "kernel_ok k"
  show "rs_wp (Kernel_free_variable s a) (\<lambda>_. fin) (\<lambda>_. fin) k"
  proof (cases "\<exists>v n. vpools k s = Some v \<and> map_of (vp_allocated v) a = Some n")
    case False
    then show ?thesis using k
      by (auto simp: Kernel_free_variable_def rs_wp get_variable_pool_def case_ok_or split: option.split)
  next
    case True
    then obtain v n where v: "vpools k s = Some v" and n: "map_of (vp_allocated v) a = Some n" by blast
    let ?f = "free_region a n"
    let ?k = "k\<lparr>kn_variable_pools := table_mut s ?f (kn_variable_pools k)\<rparr>"
    have ok: "variable_pool_ok (?f v)" if "variable_pool_ok v"
    proof -
      have al: "\<forall>(b, m)\<in>set (vp_allocated v). unat b + unat m < 2 ^ 32"
        using that unfolding variable_pool_ok_def by (rule conjunct2)
      then have "region_ok \<lparr>fr_address = a, fr_size = n\<rparr>"
        using map_of_SomeD [OF n] by (auto simp: region_ok_def)
      then have "\<forall>r\<in>set (vp_free v @ [\<lparr>fr_address = a, fr_size = n\<rparr>]). region_ok r"
        using that by (simp add: variable_pool_ok_def)
      from coalesce_ok [OF this] al show ?thesis
        by (simp add: free_region_def variable_pool_ok_def AList.delete_eq)
    qed
    then have inv: "kernel_inv (kn_current_thread ?k)
        (variable_wait.pending (?f v) s (vp_waiters v) []) ?k"
      using variable_wait.pending_start [OF k v, of ?f] ok by simp
    have "rs_wp (free_variable_loop s (vp_waiters v) [] [])
        (\<lambda>x k'. rs_wp (case x of (retained, ready) \<Rightarrow>
            rs_then (variable_pool_mut s (\<lambda>v. v\<lparr>vp_waiters := retained\<rparr>)) (rs_return ready))
          (\<lambda>_. fin) (\<lambda>_. fin) k') (\<lambda>_. fin) ?k"
    proof (rule wp_mono [OF free_variable_loop_keeps [OF inv]],
        simp add: get_table_mut v, simp add: free_region_def)
      fix x k'
      assume "\<exists>v'. vpools k' s = Some v' \<and> vp_waiters v' = [] \<and>
        kernel_inv (kn_current_thread k') (variable_wait.pending v' s [] (fst x)) k'"
      then obtain v' where v': "vpools k' s = Some v'" "vp_waiters v' = []"
        and inv': "kernel_inv (kn_current_thread k') (variable_wait.pending v' s [] (fst x)) k'" by blast
      have "kernel_ok (k'\<lparr>kn_variable_pools := table_mut s (\<lambda>v. v\<lparr>vp_waiters := fst x\<rparr>)
          (kn_variable_pools k')\<rparr>)"
        by (rule variable_wait.pending_done [OF inv' v']) simp_all
      then show "rs_wp (case x of (retained, ready) \<Rightarrow>
            rs_then (variable_pool_mut s (\<lambda>v. v\<lparr>vp_waiters := retained\<rparr>)) (rs_return ready))
          (\<lambda>_. fin) (\<lambda>_. fin) k'"
        using v' by (cases x) (auto simp: rs_wp)
    qed
    then show ?thesis using v n
      by (simp add: Kernel_free_variable_def rs_wp get_variable_pool_def case_ok_or ok_or_def)
  qed
qed

section \<open>The blocks of a variable pool\<close>

text \<open>How many blocks, free or allocated, an address of the pool is in.\<close>

definition within :: "nat \<Rightarrow> u32 \<Rightarrow> u32 \<Rightarrow> bool" where
  "within x a n \<longleftrightarrow> unat a \<le> x \<and> x < unat a + unat n"

definition free_cover :: "FreeRegion list \<Rightarrow> nat \<Rightarrow> nat" where
  "free_cover rs x = length (filter (\<lambda>r. within x (fr_address r) (fr_size r)) rs)"

definition used_cover :: "(u32 \<times> u32) list \<Rightarrow> nat \<Rightarrow> nat" where
  "used_cover al x = length (filter (\<lambda>(a, n). within x a n) al)"

definition pool_cover :: "VariablePool \<Rightarrow> nat \<Rightarrow> nat" where
  "pool_cover v x = free_cover (vp_free v) x + used_cover (vp_allocated v) x"

definition pool_wf :: "VariablePool \<Rightarrow> bool" where
  "pool_wf v \<longleftrightarrow> variable_pool_ok v \<and> distinct (map fst (vp_allocated v))
     \<and> (\<forall>(a, n)\<in>set (vp_allocated v). 0 < n) \<and> (\<forall>x. pool_cover v x \<le> 1)"

lemma free_cover_simps [simp]:
  "free_cover [] x = 0"
  "free_cover (r # rs) x = (if within x (fr_address r) (fr_size r) then 1 else 0) + free_cover rs x"
  "free_cover (rs @ ss) x = free_cover rs x + free_cover ss x"
  by (simp_all add: free_cover_def)

lemma used_cover_simps [simp]:
  "used_cover [] x = 0"
  "used_cover ((a, n) # al) x = (if within x a n then 1 else 0) + used_cover al x"
  by (simp_all add: used_cover_def)

lemma used_cover_update:
  "a \<notin> fst ` set al \<Longrightarrow>
     used_cover (AList.update a n al) x = used_cover al x + (if within x a n then 1 else 0)"
  by (induction al) (auto simp: used_cover_def)

lemma used_cover_delete:
  "distinct (map fst al) \<Longrightarrow> map_of al a = Some n \<Longrightarrow>
     used_cover al x = used_cover (AList.delete a al) x + (if within x a n then 1 else 0)"
proof (induction al)
  case (Cons p al)
  obtain b m where p: "p = (b, m)" by force
  show ?case
  proof (cases "b = a")
    case True
    then have "a \<notin> fst ` set al" using Cons.prems(1) p by simp
    then have "AList.delete a al = al" by (induction al) auto
    then show ?thesis using True Cons.prems(2) p by simp
  next
    case False
    then show ?thesis using Cons p by simp
  qed
qed simp

lemma within_split:
  assumes "n \<le> m" and "unat a + unat m < 2 ^ 32"
  shows "(if within x a m then 1 else 0) =
    (if within x a n then 1 else 0) + (if within x (a + n) (m - n) then 1 else (0::nat))"
proof -
  have le: "unat n \<le> unat m" using assms(1) by (simp add: word_le_nat_alt)
  then have "unat (a + n) = unat a + unat n" using assms(2) by (simp add: unat_word_ariths)
  moreover have "unat (m - n) = unat m - unat n" using assms(1) by (simp add: unat_sub)
  ultimately show ?thesis using le by (auto simp: within_def)
qed

lemma coalesce_loop_cover:
  assumes "\<forall>r\<in>set out. region_ok r" and "\<forall>r\<in>set rs. region_ok r"
  shows "free_cover (coalesce_loop out rs) x = free_cover out x + free_cover rs x"
  using assms
proof (induction out rs rule: coalesce_loop.induct)
  case (2 out r rs)
  let ?l = "last out" and ?n = "fr_size (last out) + fr_size r"
  show ?case
  proof (cases "out \<noteq> [] \<and> checked_add (fr_address ?l) (fr_size ?l) = Some (fr_address r)")
    case True
    note ok = region_ok_merge [OF True [THEN conjunct2]]
    have r: "region_ok r" using "2.prems"(2) by simp
    have "\<forall>q\<in>set (butlast out @ [?l\<lparr>fr_size := ?n\<rparr>]). region_ok q"
      using "2.prems"(1) ok [OF r] by (auto dest: in_set_butlastD)
    moreover have "free_cover out x = free_cover (butlast out) x + free_cover [?l] x"
      using True by (metis append_butlast_last_id free_cover_simps(3))
    moreover have "(if within x (fr_address ?l) ?n then 1 else 0) =
        (if within x (fr_address ?l) (fr_size ?l) then 1 else 0) +
        (if within x (fr_address r) (fr_size r) then 1 else (0::nat))"
    proof -
      have sum: "unat (fr_address r) = unat (fr_address ?l) + unat (fr_size ?l)"
        and n: "unat ?n = unat (fr_size ?l) + unat (fr_size r)"
        using True checked_add_SomeD ok(2) [OF r] by blast+
      then show ?thesis by (auto simp: within_def)
    qed
    ultimately show ?thesis using "2.IH"(1) [OF True] True "2.prems"(2) by simp
  next
    case False
    then show ?thesis using "2.IH"(2) [OF False] "2.prems" by auto
  qed
qed simp

lemma free_cover_sort: "free_cover (sort_key f rs) x = free_cover rs x"
  by (simp add: free_cover_def filter_sort)

lemma coalesce_cover:
  "\<forall>r\<in>set rs. region_ok r \<Longrightarrow> free_cover (coalesce_regions rs) x = free_cover rs x"
  using coalesce_loop_cover [of "[]" "sort_key fr_address rs" x]
  by (simp add: coalesce_regions_def free_cover_sort)

lemma pool_alloc_fresh:
  assumes wf: "pool_wf v" and r: "r \<in> set (vp_free v)" and n: "0 < fr_size r"
  shows "fr_address r \<notin> fst ` set (vp_allocated v)"
proof
  assume "fr_address r \<in> fst ` set (vp_allocated v)"
  then obtain m where m: "(fr_address r, m) \<in> set (vp_allocated v)" by force
  then have "0 < m" using wf by (auto simp: pool_wf_def)
  let ?x = "unat (fr_address r)"
  have "r \<in> set (filter (\<lambda>r. within ?x (fr_address r) (fr_size r)) (vp_free v))"
    using r n by (simp add: within_def unat_gt_0)
  then have "0 < free_cover (vp_free v) ?x" unfolding free_cover_def by (metis length_pos_if_in_set)
  moreover have "(fr_address r, m) \<in> set (filter (\<lambda>(a, n). within ?x a n) (vp_allocated v))"
    using m \<open>0 < m\<close> by (simp add: within_def unat_gt_0)
  then have "0 < used_cover (vp_allocated v) ?x" unfolding used_cover_def by (metis length_pos_if_in_set)
  moreover have "free_cover (vp_free v) ?x + used_cover (vp_allocated v) ?x \<le> 1"
    using wf by (simp add: pool_wf_def pool_cover_def)
  ultimately show False by simp
qed

lemma allocate_region_cover:
  assumes wf: "pool_wf v" and n: "0 < n" and a: "allocate_region v n = (Some a, v')"
  shows "pool_cover v' = pool_cover v" and "pool_wf v'" and "map_of (vp_allocated v') a = Some n"
    and "map_of (vp_allocated v) a = None"
proof -
  have ok: "variable_pool_ok v" using wf by (simp add: pool_wf_def)
  obtain pre r post where f: "vp_free v = pre @ r # post" "n \<le> fr_size r" "fr_address r = a"
    and f': "vp_free v' = pre @ (if fr_size r = n then []
        else [\<lparr>fr_address = a + n, fr_size = fr_size r - n\<rparr>]) @ post"
    and al: "vp_allocated v' = AList.update a n (vp_allocated v)"
    using allocate_region_Some [OF a] by metis
  have fresh: "a \<notin> fst ` set (vp_allocated v)"
    using pool_alloc_fresh [OF wf, of r] f n by (auto simp: order_less_le_trans)
  have r: "unat a + unat (fr_size r) < 2 ^ 32"
    using ok f by (simp add: variable_pool_ok_def region_ok_def)
  show cov: "pool_cover v' = pool_cover v"
  proof
    fix x
    show "pool_cover v' x = pool_cover v x"
      using within_split [OF f(2) r, of x] f(3)
      by (auto simp: pool_cover_def f(1) f' al used_cover_update [OF fresh] within_def)
  qed
  show "map_of (vp_allocated v') a = Some n" by (simp add: al update_conv)
  show "map_of (vp_allocated v) a = None" using fresh by (simp add: map_of_eq_None_iff)
  have "set (vp_allocated v') \<subseteq> insert (a, n) (set (vp_allocated v))"
    unfolding al by (rule set_update_subset)
  moreover have "distinct (map fst (vp_allocated v'))"
    using wf by (simp add: pool_wf_def al distinct_update)
  ultimately show "pool_wf v'"
    using wf n allocate_region_ok [OF ok a] cov unfolding pool_wf_def by fastforce
qed

lemma free_region_cover:
  assumes wf: "pool_wf v" and a: "map_of (vp_allocated v) a = Some n"
  shows "pool_cover (free_region a n v) = pool_cover v" and "pool_wf (free_region a n v)"
proof -
  let ?v = "free_region a n v"
  have d: "distinct (map fst (vp_allocated v))" and ok: "variable_pool_ok v"
    using wf by (simp_all add: pool_wf_def)
  have "unat a + unat n < 2 ^ 32"
    using ok map_of_SomeD [OF a] unfolding variable_pool_ok_def by fastforce
  then have rs: "\<forall>r\<in>set (vp_free v @ [\<lparr>fr_address = a, fr_size = n\<rparr>]). region_ok r"
    using ok by (auto simp: variable_pool_ok_def region_ok_def [of "\<lparr>fr_address = a, fr_size = n\<rparr>"])
  show cov: "pool_cover ?v = pool_cover v"
    using used_cover_delete [OF d a] coalesce_cover [OF rs]
    by (auto simp: pool_cover_def free_region_def fun_eq_iff)
  have "variable_pool_ok ?v"
    using coalesce_ok [OF rs] ok unfolding variable_pool_ok_def free_region_def by (simp add: AList.delete_eq)
  then show "pool_wf ?v"
    using wf cov d by (auto simp: pool_wf_def free_region_def AList.delete_eq distinct_map_filter)
qed

section \<open>Properties\<close>

text \<open>
  C32. A variable pool is a partition of its memory. For a pool whose blocks are
  disjoint and non-empty, allocating and freeing (with the coalescing of neighbours) keep
  every address in exactly as many blocks, free or allocated, as before, so nothing is lost,
  handed out twice or invented, and keep the pool well formed; an allocation returns an
  address not allocated before and records its size; it fails, changing nothing, only
  when every free region is too small.
\<close>
theorem variable_pool_partition:
  assumes "pool_wf v"
  shows "(0 < n \<longrightarrow> (case allocate_region v n of
      (Some a, v') \<Rightarrow> pool_wf v' \<and> pool_cover v' = pool_cover v \<and>
        map_of (vp_allocated v) a = None \<and> map_of (vp_allocated v') a = Some n
    | (None, v') \<Rightarrow> v' = v \<and> (\<forall>r\<in>set (vp_free v). fr_size r < n))) \<and>
    (map_of (vp_allocated v) b = Some m \<longrightarrow>
      pool_wf (free_region b m v) \<and> pool_cover (free_region b m v) = pool_cover v)"
proof -
  have ok: "variable_pool_ok v" using assms by (simp add: pool_wf_def)
  have "case allocate_region v n of
      (Some a, v') \<Rightarrow> pool_wf v' \<and> pool_cover v' = pool_cover v \<and>
        map_of (vp_allocated v) a = None \<and> map_of (vp_allocated v') a = Some n
    | (None, v') \<Rightarrow> v' = v \<and> (\<forall>r\<in>set (vp_free v). fr_size r < n)" if "0 < n"
    using allocate_region_cover [OF assms that] allocate_region_None [OF _ ok]
    by (simp split: prod.split option.split)
  then show ?thesis using free_region_cover [OF assms] by blast
qed

lemma variable_pool_partition_witness:
  "let v = \<lparr>vp_attributes = 0, vp_free = [\<lparr>fr_address = 0x1000, fr_size = 0x100\<rparr>],
     vp_allocated = [], vp_waiters = []\<rparr> in
   case allocate_region v 0x10 of
     (Some a, v') \<Rightarrow> a = 0x1000 \<and> pool_cover v' = pool_cover v
   | (None, v') \<Rightarrow> False"
proof -
  let ?v = "\<lparr>vp_attributes = 0, vp_free = [\<lparr>fr_address = 0x1000, fr_size = 0x100\<rparr>],
     vp_allocated = [], vp_waiters = []\<rparr>"
  have "pool_wf ?v"
    by (simp add: pool_wf_def variable_pool_ok_def region_ok_def pool_cover_def)
  note part = variable_pool_partition [OF this, where n = 16]
  have run: "allocate_region ?v 0x10 = (Some 0x1000, ?v\<lparr>
      vp_free := [\<lparr>fr_address = 0x1010, fr_size = 0xF0\<rparr>], vp_allocated := [(0x1000, 0x10)]\<rparr>)"
    by (simp add: allocate_region_def checked_add_def)
  from part [unfolded run] show ?thesis
    unfolding Let_def run by simp
qed

end
