(* ===== verification/Kernel_Time.thy ===== *)
theory Kernel_Time
  imports Kernel_Pools
begin

text \<open>
  Alarms, the advance of time and callbacks keep the kernel's invariant.
\<close>

section \<open>Changes of the event queue\<close>

lemma kernel_inv_events:
  assumes inv: "kernel_inv R X k" and al: "table_dims ALARM_CAPACITY AT"
    and ev: "events_ok (thr k) (FixedTable_get AT) s"
    and d: "\<And>i t. thr k i = Some t \<Longrightarrow> th_state t = ThreadState_Waiting WaitReason_Delay \<Longrightarrow>
      active k (wait_event i) \<noteq> None \<Longrightarrow>
      X' i WaitReason_Delay \<or> map_of (sched_active s) (wait_event i) \<noteq> None"
    and X: "\<And>j r. X j r \<Longrightarrow> X' j r"
  shows "kernel_inv R X' (k\<lparr>kn_scheduler := s, kn_alarms := AT\<rparr>)"
proof -
  let ?k = "k\<lparr>kn_scheduler := s, kn_alarms := AT\<rparr>"
  have "waits_ok X' ?k"
    unfolding waits_ok_def
  proof (intro allI impI)
    fix i t r assume t: "thr ?k i = Some t" "th_state t = ThreadState_Waiting r"
    then have "X i r \<or> blocked k i r" using inv unfolding kernel_inv_def waits_ok_def by simp
    then show "X' i r \<or> blocked ?k i r"
      using X [of i r] d [of i t] t by (cases r) (auto simp: blocked_def)
  qed
  then show ?thesis using inv al ev by (simp add: kernel_inv_def tables_ok_def)
qed

lemma kernel_inv_scheduler:
  assumes "kernel_inv R X k" and "events_ok (thr k) (alarms k) s"
    and "\<And>i t. thr k i = Some t \<Longrightarrow> th_state t = ThreadState_Waiting WaitReason_Delay \<Longrightarrow>
      active k (wait_event i) \<noteq> None \<Longrightarrow>
      X' i WaitReason_Delay \<or> map_of (sched_active s) (wait_event i) \<noteq> None"
    and "\<And>j r. X j r \<Longrightarrow> X' j r"
  shows "kernel_inv R X' (k\<lparr>kn_scheduler := s\<rparr>)"
proof -
  have "table_dims ALARM_CAPACITY (kn_alarms k)"
    using assms(1) by (simp add: kernel_inv_def tables_ok_def)
  from kernel_inv_events [where X' = X', OF assms(1) this assms(2)] show ?thesis
    using assms(3,4) by simp
qed

lemma alarm_dims: "kernel_inv R X k \<Longrightarrow> table_dims ALARM_CAPACITY (kn_alarms k)"
  by (simp add: kernel_inv_def tables_ok_def)

lemma kernel_events_ok: "kernel_inv R X k \<Longrightarrow> events_ok (thr k) (alarms k) (kn_scheduler k)"
  by (simp add: kernel_inv_def)

lemma events_okD:
  assumes "events_ok T AL s" and "map_of (sched_active s) e = Some v"
  shows "(\<exists>i t r. e = wait_event i \<and> T i = Some t \<and> th_state t = ThreadState_Waiting r)
    \<or> (\<exists>i a. e = alarm_event i \<and> AL i = Some a)"
  using assms unfolding events_ok_def by blast

lemma events_alarm_insert:
  assumes ev: "events_ok T AL s" and "Scheduler_inv s'"
    and a: "map_of (sched_active s') = (map_of (sched_active s))(alarm_event h \<mapsto> v)"
  shows "events_ok T (AL(h \<mapsto> x)) s'"
  unfolding events_ok_def
proof (intro conjI allI impI)
  fix e w assume "map_of (sched_active s') e = Some w"
  then have "e = alarm_event h \<or> map_of (sched_active s) e = Some w" by (auto simp: a split: if_splits)
  then have "e = alarm_event h \<or>
      (\<exists>i t r. e = wait_event i \<and> T i = Some t \<and> th_state t = ThreadState_Waiting r) \<or>
      (\<exists>i a. e = alarm_event i \<and> AL i = Some a)"
    using events_okD [OF ev] by blast
  then show "(\<exists>i t r. e = wait_event i \<and> T i = Some t \<and> th_state t = ThreadState_Waiting r)
      \<or> (\<exists>i a. e = alarm_event i \<and> (AL(h \<mapsto> x)) i = Some a)"
  proof (elim disjE)
    assume "e = alarm_event h"
    then show ?thesis by (intro disjI2 exI [of _ h] exI [of _ x]) simp
  next
    assume "\<exists>i a. e = alarm_event i \<and> AL i = Some a"
    then obtain i a where "e = alarm_event i" "AL i = Some a" by blast
    then show ?thesis by (intro disjI2 exI [of _ i]) simp
  qed blast
next
  fix i b assume "(AL(h \<mapsto> x)) i = Some b"
  then show "map_of (sched_active s') (alarm_event i) \<noteq> None"
    using ev unfolding events_ok_def a by (auto split: if_splits)
qed fact

lemma events_alarm_gone:
  assumes ev: "events_ok T AL s" and "Scheduler_inv s'"
    and a: "map_of (sched_active s') = (map_of (sched_active s))(alarm_event h := None)"
  shows "events_ok T (AL(h := None)) s'"
  unfolding events_ok_def
proof (intro conjI allI impI)
  fix e w assume "map_of (sched_active s') e = Some w"
  then have "e \<noteq> alarm_event h" and "map_of (sched_active s) e = Some w" by (auto simp: a split: if_splits)
  then show "(\<exists>i t r. e = wait_event i \<and> T i = Some t \<and> th_state t = ThreadState_Waiting r)
      \<or> (\<exists>i a. e = alarm_event i \<and> (AL(h := None)) i = Some a)"
    using events_okD [OF ev] by (metis fun_upd_apply)
next
  fix i b assume "(AL(h := None)) i = Some b"
  then show "map_of (sched_active s') (alarm_event i) \<noteq> None"
    using ev unfolding events_ok_def a by (auto split: if_splits)
qed fact

section \<open>Alarms\<close>

lemma wp_insert_alarm_at [rs_wp]:
  "rs_wp (insert_alarm_at i v) Q E = (\<lambda>k. case FixedTable_insert_at (kn_alarms k) i v of
     (Inl e, t) \<Rightarrow> E e (k\<lparr>kn_alarms := t\<rparr>) | (Inr x, t) \<Rightarrow> Q x (k\<lparr>kn_alarms := t\<rparr>))"
  by (rule ext) (simp add: rs_wp_def insert_alarm_at_def Let_def split: prod.split sum.split)

lemma set_alarm_keeps: "op_keeps (Kernel_set_alarm delay entry argument gr)"
proof (rule op_keepsI)
  fix k assume k: "kernel_ok k"
  note inv = kernel_ok_inv [OF k]
  have ok: "table_ok (kn_alarms k)" using alarm_dims [OF inv] by simp
  note ev = kernel_events_ok [OF inv]
  then have sch: "Scheduler_inv (kn_scheduler k)" by (simp add: events_ok_def)
  let ?a = "\<lparr>alarm_entry = entry, alarm_argument = argument\<rparr>"
  have set: "fin (k\<lparr>kn_scheduler := s, kn_alarms := AT\<rparr>)"
    if h: "FixedTable_next_id (kn_alarms k) = Some h"
      and s: "Scheduler_schedule (kn_scheduler k) (alarm_event h) d = (Inr u, s)"
      and AT: "FixedTable_insert_at (kn_alarms k) h ?a = (r, AT)" for h d u s r AT
  proof -
    obtain i where i: "FixedTable_index (kn_alarms k) h = Some i" "ft_entries (kn_alarms k) ! i = None"
      using next_id_SomeD [OF ok h] by blast
    then have "r = Inr ()" using AT by (auto simp: FixedTable_insert_at_def)
    with AT have ins: "FixedTable_insert_at (kn_alarms k) h ?a = (Inr (), AT)" by simp
    note il = insert_at_Inr [OF ok ins]
    note a = schedule_active [OF sch s]
    have "events_ok (thr k) (FixedTable_get AT) s"
      unfolding il(2) by (rule events_alarm_insert [OF ev a])
    then have "kernel_inv (kn_current_thread k) no_exemption (k\<lparr>kn_scheduler := s, kn_alarms := AT\<rparr>)"
      using table_dims_insert_at [OF alarm_dims [OF inv] ins] a(2)
      by (intro kernel_inv_events [OF inv]) auto
    then show ?thesis by (rule fin_ok) simp
  qed
  have err: "fin (k\<lparr>kn_scheduler := s\<rparr>)"
    if "Scheduler_schedule (kn_scheduler k) e d = (Inl x, s)" for e d x s
    using schedule_exhausted [OF that] by blast
  show "rs_wp (Kernel_set_alarm delay entry argument gr) (\<lambda>_. fin) (\<lambda>_. fin) k"
    using k set err
    by (auto simp: Kernel_set_alarm_def rs_wp case_ok_or split: sum.split option.split prod.split)
qed

lemma wp_remove_alarm [rs_wp]:
  "rs_wp (remove_alarm i) Q E = (\<lambda>k. Q (fst (FixedTable_remove (kn_alarms k) i))
     (k\<lparr>kn_alarms := snd (FixedTable_remove (kn_alarms k) i)\<rparr>))"
  by (rule ext) (simp add: rs_wp_def remove_alarm_def Let_def split: prod.split)

text \<open>An alarm and its event go together.\<close>

lemma kernel_inv_alarm_gone:
  assumes inv: "kernel_inv R no_exemption k" and a: "alarms k i = Some al"
    and rem: "FixedTable_remove (kn_alarms k) i = (x, AT)"
    and s: "Scheduler_inv s" "map_of (sched_active s) = (active k)(alarm_event i := None)"
  shows "kernel_inv R no_exemption (k\<lparr>kn_scheduler := s, kn_alarms := AT\<rparr>)"
proof (rule kernel_inv_events [OF inv table_dims_remove [OF alarm_dims [OF inv] rem]])
  have ok: "table_ok (kn_alarms k)" using alarm_dims [OF inv] by simp
  note rl = remove_laws [OF ok rem]
  have tab: "tables_ok k" using inv by (simp add: kernel_inv_def)
  show "events_ok (thr k) (FixedTable_get AT) s"
    unfolding rl(2) by (rule events_alarm_gone [OF kernel_events_ok [OF inv] s])
  fix j t assume "thr k j = Some t" and "active k (wait_event j) \<noteq> None"
  moreover from this have "wait_event j \<noteq> alarm_event i"
    using wait_not_alarm thread_id_bound [OF tab] alarm_id_bound [OF tab a] by blast
  ultimately show "False \<or> map_of (sched_active s) (wait_event j) \<noteq> None" by (simp add: s(2))
qed simp

lemma cancel_alarm_keeps: "op_keeps (Kernel_cancel_alarm i)"
proof (rule op_keepsI)
  fix k assume k: "kernel_ok k"
  note inv = kernel_ok_inv [OF k]
  have ok: "table_ok (kn_alarms k)" using alarm_dims [OF inv] by simp
  obtain x AT where rem: "FixedTable_remove (kn_alarms k) i = (x, AT)" by force
  note rl = remove_laws [OF ok rem]
  show "rs_wp (Kernel_cancel_alarm i) (\<lambda>_. fin) (\<lambda>_. fin) k"
  proof (cases "alarms k i")
    case None
    have "kernel_inv (kn_current_thread k) no_exemption (k\<lparr>kn_scheduler := kn_scheduler k, kn_alarms := AT\<rparr>)"
      by (rule kernel_inv_events [OF inv table_dims_remove [OF alarm_dims [OF inv] rem]])
        (use kernel_events_ok [OF inv] None rl(2) in \<open>simp_all add: fun_upd_idem\<close>)
    then have "fin (k\<lparr>kn_alarms := AT\<rparr>)" by (intro fin_ok [of "kn_current_thread k"]) simp_all
    then show ?thesis using None rl(1) rem by (simp add: Kernel_cancel_alarm_def rs_wp case_ok_or)
  next
    case (Some a)
    let ?s = "snd (Scheduler_cancel (kn_scheduler k) (alarm_event i))"
    have "Scheduler_inv (kn_scheduler k)" using kernel_events_ok [OF inv] by (simp add: events_ok_def)
    note c = cancel_active [OF this, of "alarm_event i"]
    have eq: "k\<lparr>kn_alarms := AT, kn_scheduler := ?s\<rparr> = k\<lparr>kn_scheduler := ?s, kn_alarms := AT\<rparr>" by simp
    have "kernel_inv (kn_current_thread k) no_exemption (k\<lparr>kn_scheduler := ?s, kn_alarms := AT\<rparr>)"
      using kernel_inv_alarm_gone [OF inv Some rem] c by blast
    then have "fin (k\<lparr>kn_alarms := AT, kn_scheduler := ?s\<rparr>)"
      unfolding eq by (intro fin_ok [of "kn_current_thread k"]) simp_all
    then show ?thesis using Some rl(1) rem by (simp add: Kernel_cancel_alarm_def rs_wp case_ok_or)
  qed
qed

section \<open>The advance of time\<close>

lemma pop_active:
  assumes "Scheduler_inv s" and "Scheduler_pop_due s now = (Some due, s')"
  shows "Scheduler_inv s'" and "map_of (sched_active s') = (map_of (sched_active s))(due_id due := None)"
    and "\<exists>n. map_of (sched_active s) (due_id due) = Some (due_deadline due, n)"
    and "due_deadline due \<le> now" and "sched_next_sequence s' = sched_next_sequence s"
proof -
  have "Scheduler_inv s' \<and> (\<exists>x. sched_event x = due \<and> x \<in> sched_entries s \<and> fst x \<le> now)"
    using Scheduler_pop_Some [OF assms] by blast
  then show "Scheduler_inv s'" "due_deadline due \<le> now"
    "\<exists>n. map_of (sched_active s) (due_id due) = Some (due_deadline due, n)"
    by (auto simp: sched_entries_def sched_event_def)
  show "map_of (sched_active s') = (map_of (sched_active s))(due_id due := None)"
    "sched_next_sequence s' = sched_next_sequence s"
    using assms(2) by (auto simp: Scheduler_pop_due_def delete_conv' split: list.splits if_splits)
qed

lemma wait_event_range:
  assumes "unat i \<le> 64"
  shows "WAIT_EVENT_BASE \<le> wait_event i" and "wait_event i < ALARM_EVENT_BASE"
    and "wait_event i - WAIT_EVENT_BASE = i"
  using assms by (simp_all add: wait_event_def WAIT_EVENT_BASE_def ALARM_EVENT_BASE_def
      word_le_nat_alt word_less_nat_alt unat_word_ariths)

lemma alarm_event_range:
  assumes "unat i \<le> 64"
  shows "ALARM_EVENT_BASE \<le> alarm_event i" and "alarm_event i - ALARM_EVENT_BASE = i"
  using assms by (simp_all add: alarm_event_def ALARM_EVENT_BASE_def word_le_nat_alt unat_word_ariths)

text \<open>
  One due event, popped and handled: a thread whose wait it ends becomes ready and an
  alarm fires. The ready order grows by one, and nothing fails before it runs out.
\<close>

lemma due_step:
  assumes k: "kernel_ok k" and pop: "Scheduler_pop_due (kn_scheduler k) now = (Some due, s)"
  shows "rs_wp (Kernel_due (due_id due)) (\<lambda>_ k'. kernel_ok k' \<and> kn_now k' = kn_now k) (\<lambda>_. exhausted)
    (k\<lparr>kn_scheduler := s\<rparr>)"
proof -
  note inv = kernel_ok_inv [OF k]
  note ev = kernel_events_ok [OF inv]
  have tab: "tables_ok k" using inv by (simp add: kernel_inv_def)
  have sch: "Scheduler_inv (kn_scheduler k)" using ev by (simp add: events_ok_def)
  note p = pop_active [OF sch pop]
  obtain n where "active k (due_id due) = Some (due_deadline due, n)" using p(3) by blast
  from events_okD [OF ev this] consider
      (thread) i t r where "due_id due = wait_event i" "thr k i = Some t" "th_state t = ThreadState_Waiting r"
    | (alarm) i a where "due_id due = alarm_event i" "alarms k i = Some a"
    by blast
  then show ?thesis
  proof cases
    case thread
    let ?k = "k\<lparr>kn_scheduler := s\<rparr>"
    have i: "unat i \<le> 64" using thread_id_bound [OF tab thread(2)] by blast
    have other: "map_of (sched_active s) e = active k e" if "e \<noteq> wait_event i" for e
      using that p(2) thread(1) by simp
    have "events_ok (thr k) (alarms k) s"
    proof -
      have "alarm_event j \<noteq> wait_event i" if "alarms k j = Some a" for j a
        using wait_not_alarm [OF i] alarm_id_bound [OF tab that] by fastforce
      then have "events_ok (thr k) (alarms k) (snd (Scheduler_cancel (kn_scheduler k) (wait_event i)))"
        using events_cancel_thread [OF ev i _ refl] alarm_id_bound [OF tab] by blast
      then show ?thesis
        using cancel_active [OF sch, of "wait_event i"] p(1,2) thread(1) by (simp add: events_ok_def)
    qed
    then have k1: "kernel_inv (kn_current_thread k) (\<lambda>j r. j = i) ?k"
      by (intro kernel_inv_scheduler [OF inv]) (auto simp: other)
    let ?k2 = "Kernel_remove_waiter i r ?k"
    have k2: "kernel_inv (kn_current_thread k) (\<lambda>j _. j = i) ?k2"
      by (rule kernel_inv_remove_waiter [OF k1])
    have now: "kn_now ?k2 = kn_now k"
      by (simp add: Kernel_remove_waiter_def split: WaitReason.split)
    have thr: "thr ?k2 i = Some t" using thread(2) by simp
    have "rs_wp (Kernel_complete_wait i res None) (\<lambda>_ k'. kernel_ok k' \<and> kn_now k' = kn_now k)
        (\<lambda>_. exhausted) ?k2" for res
    proof (rule wp_complete_wait [OF k2 thr thread(3)])
      let ?k3 = "completed i (wait_result (kn_next_ready_order ?k2) res None) ?k2"
      assume "kernel_inv (kn_current_thread k) (\<lambda>j s. j = i \<and> j \<noteq> i) ?k3"
      then have "kernel_inv (kn_current_thread k) no_exemption ?k3" by simp
      moreover have "kn_current_thread ?k3 = kn_current_thread k" by (simp add: completed_def)
      ultimately show "kernel_ok ?k3 \<and> kn_now ?k3 = kn_now k"
        by (simp add: kernel_ok_def) (simp add: completed_def now)
    qed
    then show ?thesis
      using wait_event_range [OF i] thread
      by (simp add: Kernel_due_def Let_def rs_wp wait_reason_Some [THEN iffD2])
  next
    case alarm
    have i: "unat i \<le> 64" using alarm_id_bound [OF tab alarm(2)] by blast
    obtain x AT where rem: "FixedTable_remove (kn_alarms k) i = (x, AT)" by force
    have x: "x = Some a"
      using remove_laws(1) [OF _ rem] alarm_dims [OF inv] alarm(2) by simp
    have "kernel_inv (kn_current_thread k) no_exemption (k\<lparr>kn_scheduler := s, kn_alarms := AT\<rparr>)"
      by (rule kernel_inv_alarm_gone [OF inv alarm(2) rem p(1)]) (use p(2) alarm(1) in simp)
    then have "kernel_ok (k\<lparr>kn_scheduler := s, kn_alarms := AT\<rparr>)" by (simp add: kernel_ok_def)
    then show ?thesis
      using rem x alarm_event_range [OF i] alarm(1) by (simp add: Kernel_due_def Let_def rs_wp leD)
  qed
qed

lemma due_total:
  assumes k: "kernel_ok k" and pop: "Scheduler_pop_due (kn_scheduler k) now = (Some due, s)"
    and n: "kn_next_ready_order k + 1 < 2 ^ 64"
  shows "rs_wp (Kernel_due (due_id due)) (\<lambda>_ k'. kn_next_ready_order k' \<le> kn_next_ready_order k + 1)
    (\<lambda>_ _. False) (k\<lparr>kn_scheduler := s\<rparr>)"
proof -
  have same: "kn_next_ready_order (Kernel_remove_waiter i r k) = kn_next_ready_order k" for i r and k :: Kernel
    by (simp add: Kernel_remove_waiter_def split: WaitReason.split)
  show ?thesis
    using n by (auto simp: Kernel_due_def Let_def rs_wp Kernel_complete_wait_def get_thread_def case_ok_or
      wait_reason_Some same bind_eq_Some_conv split: option.split)
qed

lemma advance_loop_laws:
  assumes "kernel_ok k"
  shows "case advance_loop now es k of
      (Inr es', k') \<Rightarrow> kernel_ok k' \<and> kn_now k' = kn_now k \<and>
        (\<forall>e d n. active k' e = Some (d, n) \<longrightarrow> now < d)
    | (Inl e, k') \<Rightarrow> exhausted k'"
  using assms
proof (induction now es k rule: advance_loop.induct)
  case (1 now es k)
  have sch: "Scheduler_inv (kn_scheduler k)"
    using kernel_events_ok [OF kernel_ok_inv [OF "1.prems"]] by (simp add: events_ok_def)
  obtain r s where pop: "Scheduler_pop_due (kn_scheduler k) now = (r, s)" by force
  show ?case
  proof (cases r)
    case None
    then have "s = kn_scheduler k" "\<forall>x \<in> sched_entries (kn_scheduler k). now < fst x"
      using Scheduler_pop_None [OF sch] pop by auto
    then show ?thesis using "1.prems" pop None
      by (auto simp: advance_loop.simps [of now es k] sched_entries_def)
  next
    case (Some due)
    note step = due_step [OF "1.prems" pop [unfolded Some]]
    obtain x k' where x: "Kernel_due (due_id due) (k\<lparr>kn_scheduler := s\<rparr>) = (x, k')" by force
    show ?thesis
    proof (cases x)
      case (Inl e)
      then show ?thesis using step x pop Some
        by (simp add: advance_loop.simps [of now es k] rs_wp_def)
    next
      case (Inr fs)
      then have "kernel_ok k'" "kn_now k' = kn_now k" using step x by (simp_all add: rs_wp_def)
      then show ?thesis using "1.IH" [OF pop [symmetric] Some x [symmetric] Inr] pop Some x Inr
        by (auto simp: advance_loop.simps [of now es k] split: prod.splits sum.splits)
    qed
  qed
qed

lemma advance_loop_total:
  assumes "kernel_ok k" and "kn_next_ready_order k + length (sched_queue (kn_scheduler k)) < 2 ^ 64"
  shows "\<exists>es' k'. advance_loop now es k = (Inr es', k')"
  using assms
proof (induction now es k rule: advance_loop.induct)
  case (1 now es k)
  obtain r s where pop: "Scheduler_pop_due (kn_scheduler k) now = (r, s)" by force
  show ?case
  proof (cases r)
    case None
    then show ?thesis using pop by (simp add: advance_loop.simps [of now es k])
  next
    case (Some due)
    note pop' = pop [unfolded Some]
    have "kn_next_ready_order k + 1 < 2 ^ 64"
      using queue_pop [OF pop'] "1.prems"(2) by simp
    from wp_conj [OF due_step [OF "1.prems"(1) pop'] due_total [OF "1.prems"(1) pop' this]]
    obtain fs k' where x: "Kernel_due (due_id due) (k\<lparr>kn_scheduler := s\<rparr>) = (Inr fs, k')"
      and k': "kernel_ok k'" "kn_next_ready_order k' \<le> kn_next_ready_order k + 1"
      by (auto simp: rs_wp_def split: prod.splits sum.splits)
    have "kn_next_ready_order k' + length (sched_queue (kn_scheduler k')) < 2 ^ 64"
      using advance_decreases [OF pop' x] k'(2) "1.prems"(2) by simp
    from "1.IH" [OF pop [symmetric] Some x [symmetric] refl k'(1) this]
    show ?thesis using pop' x by (simp add: advance_loop.simps [of now es k])
  qed
qed

lemma kernel_inv_now [simp]: "kernel_inv R X (k\<lparr>kn_now := d\<rparr>) = kernel_inv R X k"
proof -
  have "blocked (k\<lparr>kn_now := d\<rparr>) = blocked k" by (rule blocked_cong) simp_all
  then show ?thesis by (simp add: kernel_inv_def tables_ok_def waits_ok_def)
qed

lemma kernel_ok_now [simp]: "kernel_ok (k\<lparr>kn_now := d\<rparr>) = kernel_ok k"
  by (simp add: kernel_ok_def)

lemma advance_to_keeps: "op_keeps (Kernel_advance_to now)"
proof (rule op_keepsI)
  fix k assume k: "kernel_ok k"
  then have "kernel_ok (k\<lparr>kn_now := now\<rparr>)" by simp
  from advance_loop_laws [OF this, of now "[]"] k
  show "rs_wp (Kernel_advance_to now) (\<lambda>_. fin) (\<lambda>_. fin) k"
    by (auto simp: Kernel_advance_to_def rs_wp_def split: prod.splits sum.splits)
qed

section \<open>Callbacks\<close>

lemma kernel_inv_callbacks [simp]:
  "kernel_inv R X (k\<lparr>kn_callback_contexts := cs\<rparr>) = kernel_inv R X k"
proof -
  have "blocked (k\<lparr>kn_callback_contexts := cs\<rparr>) = blocked k" by (rule blocked_cong) simp_all
  then show ?thesis by (simp add: kernel_inv_def tables_ok_def waits_ok_def)
qed

lemma kernel_ok_callbacks [simp]: "kernel_ok (k\<lparr>kn_callback_contexts := cs\<rparr>) = kernel_ok k"
  by (simp add: kernel_ok_def)

lemma enter_callback_keeps: "ctx_keeps (Kernel_enter_callback callback)"
  by (rule ctx_keepsI) (auto simp: Kernel_enter_callback_def rs_wp_def)

lemma return_from_callback_keeps: "ctx_keeps Kernel_return_from_callback"
  by (rule ctx_keepsI) (auto simp: Kernel_return_from_callback_def rs_wp_def)

end
