(* ===== verification/Kernel_Reach.thy ===== *)
theory Kernel_Reach
  imports Kernel_Time "HOL-Library.Code_Target_Numeral"
begin

text \<open>
  The states a kernel can get into: any sequence of calls to its public methods from
  \<open>Kernel_new\<close>. \<open>call\<close> runs one of them and keeps the state it leaves, also when it
  fails; the theorems about reachable states and scheduling follow.
\<close>

section \<open>Calls\<close>

datatype kernel_call =
    Create_thread ThreadSpec GuestRange
  | Start_thread_with_context u32 "u32 list" u32
  | Wait_module_start u32
  | Complete_module_start u32 u32 u32 u32
  | Delete_thread u32
  | Exit_current
  | Exit_delete_current
  | Change_priority u32 u32
  | Reschedule RescheduleReason
  | Sleep_current
  | Wakeup_thread u32
  | Delay_current Ticks
  | Wait_vblank u32
  | Notify_vblank u32
  | Release_wait u32
  | Create_semaphore SemaphoreSpec
  | Delete_semaphore u32
  | Wait_semaphore u32 "Ticks option"
  | Poll_semaphore u32
  | Signal_semaphore u32
  | Create_event_flag EventFlagSpec
  | Delete_event_flag u32
  | Wait_event_flag u32 u32 u32 "Ticks option"
  | Poll_event_flag u32 u32 u32
  | Set_event_flag u32 u32
  | Clear_event_flag u32 u32
  | Create_message_box MessageBoxSpec
  | Delete_message_box u32
  | Send_message u32 u32
  | Receive_message u32 "Ticks option"
  | Poll_message u32
  | Create_fixed_pool FixedPoolSpec GuestRange
  | Delete_fixed_pool u32
  | Allocate_fixed u32 "Ticks option"
  | Free_fixed u32 u32
  | Create_variable_pool VariablePoolSpec GuestRange
  | Delete_variable_pool u32
  | Allocate_variable u32 u32 "Ticks option"
  | Free_variable u32 u32
  | Set_alarm Ticks u32 u32 GuestRange
  | Cancel_alarm u32
  | Advance_to Deadline
  | Enter_callback CallbackRequest
  | Return_from_callback

text \<open>The state a method on the kernel alone, and one on kernel and context, leaves.\<close>

definition on_kernel :: "(Kernel, 'e, 'a) rs \<Rightarrow> Kernel \<times> CpuContext \<Rightarrow> Kernel \<times> CpuContext" where
  "on_kernel m s = (snd (m (fst s)), snd s)"

definition on_context ::
    "(Kernel \<times> CpuContext, 'e, 'a) rs \<Rightarrow> Kernel \<times> CpuContext \<Rightarrow> Kernel \<times> CpuContext" where
  "on_context m s = snd (m s)"

fun call :: "kernel_call \<Rightarrow> Kernel \<times> CpuContext \<Rightarrow> Kernel \<times> CpuContext" where
  "call (Create_thread spec gr) = on_kernel (Kernel_create_thread spec gr)"
| "call (Start_thread_with_context i args ra) =
     on_kernel (Kernel_start_thread_with_context i args ra)"
| "call (Wait_module_start c) = on_context (Kernel_wait_module_start c)"
| "call (Complete_module_start r c m v) = on_kernel (Kernel_complete_module_start r c m v)"
| "call (Delete_thread i) = on_kernel (Kernel_delete_thread i)"
| "call Exit_current = on_context Kernel_exit_current"
| "call Exit_delete_current = on_context Kernel_exit_delete_current"
| "call (Change_priority i p) = on_kernel (Kernel_change_priority i p)"
| "call (Reschedule r) = on_context (Kernel_reschedule r)"
| "call Sleep_current = on_context Kernel_sleep_current"
| "call (Wakeup_thread i) = on_kernel (Kernel_wakeup_thread i)"
| "call (Delay_current t) = on_context (Kernel_delay_current t)"
| "call (Wait_vblank p) = on_context (Kernel_wait_vblank p)"
| "call (Notify_vblank p) = on_kernel (Kernel_notify_vblank p)"
| "call (Release_wait i) = on_kernel (Kernel_release_wait i)"
| "call (Create_semaphore spec) = on_kernel (Kernel_create_semaphore spec)"
| "call (Delete_semaphore i) = on_kernel (Kernel_delete_semaphore i)"
| "call (Wait_semaphore i t) = on_context (Kernel_wait_semaphore i t)"
| "call (Poll_semaphore i) = on_kernel (Kernel_poll_semaphore i)"
| "call (Signal_semaphore i) = on_kernel (Kernel_signal_semaphore i)"
| "call (Create_event_flag spec) = on_kernel (Kernel_create_event_flag spec)"
| "call (Delete_event_flag i) = on_kernel (Kernel_delete_event_flag i)"
| "call (Wait_event_flag i p m t) = on_context (Kernel_wait_event_flag i p m t)"
| "call (Poll_event_flag i p m) = on_kernel (Kernel_poll_event_flag i p m)"
| "call (Set_event_flag i b) = on_kernel (Kernel_set_event_flag i b)"
| "call (Clear_event_flag i b) = on_kernel (Kernel_clear_event_flag i b)"
| "call (Create_message_box spec) = on_kernel (Kernel_create_message_box spec)"
| "call (Delete_message_box i) = on_kernel (Kernel_delete_message_box i)"
| "call (Send_message i m) = on_kernel (Kernel_send_message i m)"
| "call (Receive_message i t) = on_context (Kernel_receive_message i t)"
| "call (Poll_message i) = on_kernel (Kernel_poll_message i)"
| "call (Create_fixed_pool spec gr) = on_kernel (Kernel_create_fixed_pool spec gr)"
| "call (Delete_fixed_pool i) = on_kernel (Kernel_delete_fixed_pool i)"
| "call (Allocate_fixed i t) = on_context (Kernel_allocate_fixed i t)"
| "call (Free_fixed i a) = on_kernel (Kernel_free_fixed i a)"
| "call (Create_variable_pool spec gr) = on_kernel (Kernel_create_variable_pool spec gr)"
| "call (Delete_variable_pool i) = on_kernel (Kernel_delete_variable_pool i)"
| "call (Allocate_variable i n t) = on_context (Kernel_allocate_variable i n t)"
| "call (Free_variable i a) = on_kernel (Kernel_free_variable i a)"
| "call (Set_alarm d e a gr) = on_kernel (Kernel_set_alarm d e a gr)"
| "call (Cancel_alarm i) = on_kernel (Kernel_cancel_alarm i)"
| "call (Advance_to now) = on_kernel (Kernel_advance_to now)"
| "call (Enter_callback cb) = on_context (Kernel_enter_callback cb)"
| "call Return_from_callback = on_context Kernel_return_from_callback"

inductive kernel_reach :: "Kernel \<Rightarrow> CpuContext \<Rightarrow> bool" where
  reach_new: "kernel_reach Kernel_new ctx"
| reach_call: "kernel_reach k ctx \<Longrightarrow> \<not> exhausted k \<Longrightarrow> call c (k, ctx) = (k', ctx') \<Longrightarrow>
    kernel_reach k' ctx'"

lemma rs_wp_snd: "rs_wp m (\<lambda>_. P) (\<lambda>_. P) s \<Longrightarrow> P (snd (m s))"
  by (cases "m s"; cases "fst (m s)") (auto simp: rs_wp_def)

lemma on_kernel_fin: "op_keeps m \<Longrightarrow> kernel_ok (fst s) \<Longrightarrow> fin (fst (on_kernel m s))"
  by (auto simp: op_keeps_def on_kernel_def intro: rs_wp_snd)

lemma on_context_fin: "ctx_keeps m \<Longrightarrow> kernel_ok (fst s) \<Longrightarrow> fin (fst (on_context m s))"
  using rs_wp_snd [of m "\<lambda>s. fin (fst s)" s]
  by (cases s) (auto simp: ctx_keeps_def on_context_def)

lemmas keeps = create_thread_keeps start_thread_keeps wait_module_start_keeps
  complete_module_start_keeps delete_thread_keeps exit_current_keeps exit_delete_current_keeps
  change_priority_keeps reschedule_keeps sleep_current_keeps wakeup_thread_keeps
  delay_current_keeps wait_vblank_keeps notify_vblank_keeps release_wait_keeps
  create_semaphore_keeps delete_semaphore_keeps wait_semaphore_keeps poll_semaphore_keeps
  signal_semaphore_keeps create_event_flag_keeps delete_event_flag_keeps wait_event_flag_keeps
  poll_event_flag_keeps set_event_flag_keeps clear_event_flag_keeps create_message_box_keeps
  delete_message_box_keeps send_message_keeps receive_message_keeps poll_message_keeps
  create_fixed_pool_keeps delete_fixed_pool_keeps allocate_fixed_keeps free_fixed_keeps
  create_variable_pool_keeps delete_variable_pool_keeps allocate_variable_keeps
  free_variable_keeps set_alarm_keeps cancel_alarm_keeps advance_to_keeps enter_callback_keeps
  return_from_callback_keeps

lemma call_fin: "kernel_ok (fst s) \<Longrightarrow> fin (fst (call c s))"
  by (cases c) (simp_all add: on_kernel_fin on_context_fin keeps)

lemma kernel_ok_new: "kernel_ok Kernel_new"
proof -
  have new: "FixedTable_get (FixedTable_new n 1 :: 'a FixedTable) = (\<lambda>_. None)" for n
    by (rule ext) simp
  have s: "Scheduler_inv Scheduler_new" by (rule Scheduler_new_inv)
  have "sched_active Scheduler_new = []" by (simp add: Scheduler_new_def)
  then show ?thesis
    using s by (simp add: kernel_ok_def kernel_inv_def Kernel_new_def tables_ok_def table_dims_new
      running_ok_def orders_ok_def waits_ok_def sleepers_ok_def events_ok_def sems_ok_def fixed_ok_def variable_ok_def
      new THREAD_CAPACITY_def SEMAPHORE_CAPACITY_def EVENT_FLAG_CAPACITY_def MESSAGE_BOX_CAPACITY_def
      FIXED_POOL_CAPACITY_def VARIABLE_POOL_CAPACITY_def ALARM_CAPACITY_def)
qed

lemma kernel_reach_fin: "kernel_reach k ctx \<Longrightarrow> fin k"
proof (induction rule: kernel_reach.induct)
  case (reach_call k ctx c k' ctx')
  then have "kernel_ok k" by (simp add: fin_def)
  with call_fin [of "(k, ctx)" c] reach_call.hyps(3) show ?case by simp
qed (simp add: kernel_ok_new ok_fin)

lemma kernel_reach_ok: "kernel_reach k ctx \<Longrightarrow> \<not> exhausted k \<Longrightarrow> kernel_ok k"
  using kernel_reach_fin by (auto simp: fin_def)

section \<open>A concrete run\<close>

fun run_calls :: "kernel_call list \<Rightarrow> Kernel \<times> CpuContext \<Rightarrow> (Kernel \<times> CpuContext) option" where
  "run_calls [] s = Some s"
| "run_calls (c # cs) s = (if exhausted (fst s) then None else run_calls cs (call c s))"

lemma run_calls_reach: "kernel_reach (fst s) (snd s) \<Longrightarrow> run_calls cs s = Some s' \<Longrightarrow>
    kernel_reach (fst s') (snd s')"
proof (induction cs arbitrary: s)
  case (Cons c cs)
  then have e: "\<not> exhausted (fst s)" and run: "run_calls cs (call c s) = Some s'"
    by (auto split: if_splits)
  have "call c (fst s, snd s) = (fst (call c s), snd (call c s))" by (cases s) simp
  from reach_call [OF Cons.prems(1) e this] have "kernel_reach (fst (call c s)) (snd (call c s))" .
  from Cons.IH [OF this run] show ?case .
qed simp

text \<open>
  A thread starts and a semaphore is made (\<open>demo_start\<close>); the thread waits on it
  (\<open>demo_waiting\<close>) and is signalled (\<open>demo_signalled\<close>).
\<close>

definition demo_range :: GuestRange where
  "demo_range = \<lparr>gr_start = 0x1000, gr_end = 0x100000\<rparr>"

definition demo_thread :: ThreadSpec where
  "demo_thread = \<lparr>ts_entry = 0x2000, ts_stack = 0x4000, ts_stack_size = 0x1000,
     ts_priority = 10, ts_global_pointer = 0, ts_attributes = 0, ts_option = 0\<rparr>"

definition demo_calls :: "kernel_call list" where
  "demo_calls = [Create_thread demo_thread demo_range,
     Start_thread_with_context 1 [0, 0, 0, 0] THREAD_RETURN_ENTRY,
     Reschedule RescheduleReason_HleReturn,
     Advance_to 1,
     Create_semaphore \<lparr>ss_initial = 0, ss_maximum = 1, ss_attributes = 0\<rparr>]"

definition demo_start :: "Kernel \<times> CpuContext" where
  "demo_start = the (run_calls demo_calls (Kernel_new, CpuContext_reset 0 0))"

definition demo_waiting :: "Kernel \<times> CpuContext" where
  "demo_waiting = call (Wait_semaphore 1 None) demo_start"

definition demo_signalled :: "Kernel \<times> CpuContext" where
  "demo_signalled = call (Signal_semaphore 1) demo_waiting"

definition thread_state :: "Kernel \<Rightarrow> u32 \<Rightarrow> ThreadState option" where
  "thread_state k i = map_option th_state (FixedTable_get (kn_threads k) i)"

definition demo_facts :: "Kernel \<times> CpuContext \<Rightarrow> Kernel \<times> CpuContext \<Rightarrow>
    Kernel \<times> CpuContext \<Rightarrow> (KernelError + ScheduleAction) \<Rightarrow> bool" where
  "demo_facts s0 s1 s2 r \<longleftrightarrow> \<not> exhausted (fst s0) \<and> \<not> exhausted (fst s1) \<and> \<not> exhausted (fst s2) \<and>
     kn_current_thread (fst s0) = Some 1 \<and> kn_now (fst s0) = 1 \<and>
     map_option sem_count (FixedTable_get (kn_semaphores (fst s0)) 1) = Some 0 \<and>
     thread_state (fst s1) 1 = Some (ThreadState_Waiting (WaitReason_Semaphore 1)) \<and>
     map_option sem_maximum (FixedTable_get (kn_semaphores (fst s1)) 1) = Some 1 \<and>
     (case r of Inl _ \<Rightarrow> False | Inr a \<Rightarrow> sa_switched a \<and> sa_current a = Some 1)"

lemma demo_run:
  "case run_calls demo_calls (Kernel_new, CpuContext_reset 0 0) of
     None \<Rightarrow> False
   | Some s0 \<Rightarrow>
       (let s1 = call (Wait_semaphore 1 None) s0;
            s2 = call (Signal_semaphore 1) s1
        in demo_facts s0 s1 s2 (fst (Kernel_reschedule RescheduleReason_InterruptReturn s2)))"
  by code_simp

lemma demo_reach: "kernel_reach (fst demo_start) (snd demo_start)"
    "kernel_reach (fst demo_waiting) (snd demo_waiting)"
    "kernel_reach (fst demo_signalled) (snd demo_signalled)"
  and demo_laws: "demo_facts demo_start demo_waiting demo_signalled
    (fst (Kernel_reschedule RescheduleReason_InterruptReturn demo_signalled))"
proof -
  obtain s where s: "run_calls demo_calls (Kernel_new, CpuContext_reset 0 0) = Some s"
    using demo_run by (auto split: option.splits)
  then have d: "demo_start = s" by (simp add: demo_start_def)
  show laws: "demo_facts demo_start demo_waiting demo_signalled
      (fst (Kernel_reschedule RescheduleReason_InterruptReturn demo_signalled))"
    using demo_run s by (simp add: demo_waiting_def demo_signalled_def d Let_def)
  then have e: "\<not> exhausted (fst demo_start)" "\<not> exhausted (fst demo_waiting)"
    by (simp_all add: demo_facts_def)
  show start: "kernel_reach (fst demo_start) (snd demo_start)"
    unfolding d by (rule run_calls_reach [OF _ s]) (simp add: reach_new)
  show waiting: "kernel_reach (fst demo_waiting) (snd demo_waiting)"
    by (rule reach_call [OF start e(1), of "Wait_semaphore 1 None"]) (simp add: demo_waiting_def)
  show "kernel_reach (fst demo_signalled) (snd demo_signalled)"
    by (rule reach_call [OF waiting e(2), of "Signal_semaphore 1"]) (simp add: demo_signalled_def)
qed

section \<open>Properties\<close>

text \<open>
  The calls that end a wait without an object. \<open>readied k I k'\<close>: the threads of \<open>I\<close> are ready in
  \<open>k'\<close> and the others are as in \<open>k\<close>.
\<close>

definition readied :: "Kernel \<Rightarrow> u32 set \<Rightarrow> Kernel \<Rightarrow> bool" where
  "readied k I k' \<longleftrightarrow> (\<forall>j. if j \<in> I then \<exists>t. thr k' j = Some t \<and> th_state t = ThreadState_Ready
     else thr k' j = thr k j)"

definition waiting_for :: "Kernel \<Rightarrow> WaitReason \<Rightarrow> u32 set" where
  "waiting_for k r = {i. \<exists>t. thr k i = Some t \<and> th_state t = ThreadState_Waiting r}"

definition notifies :: "Kernel \<Rightarrow> u32 \<Rightarrow> WaitReason \<Rightarrow> bool" where
  "notifies k phase r \<longleftrightarrow> (\<exists>woken k'. Kernel_notify_vblank phase k = (Inr woken, k') \<and>
     set woken = waiting_for k r \<and> readied k (waiting_for k r) k')"

definition wakeable :: "Kernel \<Rightarrow> u32 \<Rightarrow> WaitReason \<Rightarrow> bool" where
  "wakeable k i r = (case r of
     WaitReason_Sleep \<Rightarrow> \<exists>k'. Kernel_wakeup_thread i k = (Inr True, k') \<and> readied k {i} k'
   | WaitReason_VBlankStart \<Rightarrow> notifies k 0 r
   | WaitReason_VBlankEnd \<Rightarrow> notifies k 1 r
   | WaitReason_ModuleStart child \<Rightarrow> (\<forall>module resident. unat module < 2 ^ 31 \<longrightarrow>
       (\<exists>k'. Kernel_complete_module_start i child module resident k = (Inr (), k') \<and> readied k {i} k'))
   | _ \<Rightarrow> True)"

lemma complete_wait_ready:
  assumes "i \<in> waiting_for k r" and "kn_next_ready_order k + 1 < 2 ^ 64"
  shows "\<exists>k'. Kernel_complete_wait i res v k = (Inr (), k') \<and> readied k {i} k'
    \<and> kn_next_ready_order k' = kn_next_ready_order k + 1"
proof -
  obtain t where t: "thr k i = Some t" "th_state t = ThreadState_Waiting r"
    using assms(1) by (auto simp: waiting_for_def)
  let ?k = "completed i (wait_result (kn_next_ready_order k) res v) k"
  have "rs_wp (Kernel_complete_wait i res v) (\<lambda>_ k'. k' = ?k) (\<lambda>_ _. False) k"
    using t assms(2) by (simp add: Kernel_complete_wait_def rs_wp get_thread_def case_ok_or
        wait_reason_def completed_def)
  then have "Kernel_complete_wait i res v k = (Inr (), ?k)"
    by (cases "Kernel_complete_wait i res v k") (auto simp: rs_wp_def split: sum.splits)
  moreover have "readied k {i} ?k" using t(1) by (auto simp: readied_def completed_def get_table_mut)
  ultimately show ?thesis by (simp add: completed_def)
qed

lemma complete_all_ready:
  "distinct ws \<Longrightarrow> set ws \<subseteq> waiting_for k r \<Longrightarrow> kn_next_ready_order k + length ws < 2 ^ 64 \<Longrightarrow>
     \<exists>k'. complete_all ws k = (Inr (), k') \<and> readied k (set ws) k'"
proof (induction ws arbitrary: k)
  case Nil
  then show ?case by (simp add: readied_def rs_return_def)
next
  case (Cons i ws)
  then obtain k1 where k1: "Kernel_complete_wait i 0 None k = (Inr (), k1)" "readied k {i} k1"
      "kn_next_ready_order k1 = kn_next_ready_order k + 1"
    using complete_wait_ready [of i k r 0 None] by auto
  have "set ws \<subseteq> waiting_for k1 r"
  proof
    fix j assume j: "j \<in> set ws"
    then have "j \<noteq> i" using Cons.prems(1) by auto
    then have "thr k1 j = thr k j" using k1(2) by (simp add: readied_def)
    then show "j \<in> waiting_for k1 r" using j Cons.prems(2) by (auto simp: waiting_for_def)
  qed
  then obtain k' where "complete_all ws k1 = (Inr (), k')" "readied k1 (set ws) k'"
    using Cons.IH [of k1] Cons.prems(1,3) k1(3) by auto
  moreover have "readied k (set (i # ws)) k'"
    using k1(2) calculation(2) Cons.prems(1) unfolding readied_def by (auto split: if_splits)
  ultimately show ?case using k1(1) by (simp add: rs_then_def rs_bind_def)
qed

lemma notify_ready:
  assumes k: "kernel_ok k" and phase: "vblank_reason phase = Inr r"
    and room: "kn_next_ready_order k + 64 < 2 ^ 64"
  shows "notifies k phase r"
proof -
  have dims: "table_dims THREAD_CAPACITY (kn_threads k)" using k by (simp add: kernel_ok_def kernel_inv_def tables_ok_def)
  note ok = table_dims_ok [OF dims]
  let ?ws = "map fst (filter (\<lambda>(_, thread). th_state thread = ThreadState_Waiting r) (FixedTable_iter (kn_threads k)))"
  have ws: "distinct ?ws" "set ?ws = waiting_for k r"
    using iter_distinct [OF ok] by (simp add: distinct_map_filter) (force simp: iter_set [OF ok] waiting_for_def)
  have "FixedTable_len (kn_threads k) \<le> 64"
    using dims length_filter_le [of "\<lambda>e. e \<noteq> None" "ft_entries (kn_threads k)"]
    by (simp add: table_dims_def THREAD_CAPACITY_def table_ok_def FixedTable_len_def)
  then have "length ?ws \<le> 64"
    unfolding length_map by (intro order_trans [OF length_filter_le]) (simp add: iter_length [OF ok])
  then obtain k' where "complete_all ?ws k = (Inr (), k')" "readied k (set ?ws) k'"
    using complete_all_ready [of ?ws k r] ws room by auto
  then show ?thesis
    unfolding notifies_def using ws(2) phase
    by (intro exI [of _ ?ws] exI [of _ k']) (simp add: Kernel_notify_vblank_def rs_bind_def rs_then_def
        rs_lift_def rs_get_def rs_return_def)
qed

lemma waits_wakeable:
  assumes k: "kernel_ok k" and i: "i \<in> waiting_for k r" and room: "kn_next_ready_order k + 64 < 2 ^ 64"
  shows "wakeable k i r"
proof -
  obtain t where t: "thr k i = Some t" "th_state t = ThreadState_Waiting r"
    using i by (auto simp: waiting_for_def)
  have run: "\<exists>k'. Kernel_complete_wait i res v k = (Inr (), k') \<and> readied k {i} k'" for res v
    using complete_wait_ready [OF i, of res v] room by auto
  show ?thesis
  proof (cases r)
    case WaitReason_Sleep
    obtain k' where "Kernel_complete_wait i 0 None k = (Inr (), k')" "readied k {i} k'" using run by blast
    then show ?thesis using t WaitReason_Sleep
      by (simp add: wakeable_def Kernel_wakeup_thread_def get_thread_def rs_bind_def rs_then_def
          rs_lift_def rs_try_def rs_return_def ok_or_def)
  next
    case (WaitReason_ModuleStart child)
    have "\<exists>k'. Kernel_complete_module_start i child m v k = (Inr (), k') \<and> readied k {i} k'"
      if "unat m < 2 ^ 31" for m v
      using run [of "uint m" "Some v"] that t WaitReason_ModuleStart
      by (simp add: Kernel_complete_module_start_def Kernel_wait_matches_def rs_bind_def rs_get_def)
    then show ?thesis using WaitReason_ModuleStart by (simp add: wakeable_def)
  qed (use notify_ready [OF k _ room] in \<open>simp_all add: wakeable_def vblank_reason_def\<close>)
qed

text \<open>
  C28. No wakeup is lost. In every state the kernel can reach before one of its 64-bit sequences
  runs out, the thread recorded as current is the one thread that is running, and no waiting
  thread waits for something it could have now. For the waits on the five kinds of objects, the
  object exists, has the thread in its queue and is unable to serve it (an empty semaphore, an
  event flag that does not satisfy its pattern, an empty mailbox or pool, no free region of its
  size); for a delay, its deadline is still pending; a sleeping thread has no wakeup left.
  The waits that have no object end by the call meant for them, as long as the order of ready
  threads has room: a wakeup readies the sleeping thread, the completion of a module start its
  requester, and a vertical blank exactly the threads that wait for its phase, no other thread
  being changed.
\<close>
theorem kernel_waits_covered:
  assumes "kernel_reach k ctx" and "\<not> exhausted k"
  shows "\<forall>i t. FixedTable_get (kn_threads k) i = Some t \<longrightarrow>
    (th_state t = ThreadState_Running \<longleftrightarrow> kn_current_thread k = Some i) \<and>
    (\<forall>r. th_state t = ThreadState_Waiting r \<longrightarrow>
      blocked k i r \<and> (r = WaitReason_Sleep \<longrightarrow> th_wakeup_count t = 0) \<and>
      (kn_next_ready_order k + 64 < 2 ^ 64 \<longrightarrow> wakeable k i r))"
  using kernel_reach_ok [OF assms] waits_wakeable [OF kernel_reach_ok [OF assms]]
  by (auto simp: kernel_ok_def kernel_inv_def running_ok_def waits_ok_def sleepers_ok_def waiting_for_def)

theorem kernel_waits_covered_witness:
  "thread_state (fst demo_waiting) 1 = Some (ThreadState_Waiting (WaitReason_Semaphore 1)) \<and>
   blocked (fst demo_waiting) 1 (WaitReason_Semaphore 1)"
proof -
  have e: "\<not> exhausted (fst demo_waiting)"
    and s: "thread_state (fst demo_waiting) 1 = Some (ThreadState_Waiting (WaitReason_Semaphore 1))"
    using demo_laws by (simp_all add: demo_facts_def)
  then obtain t where "thr (fst demo_waiting) 1 = Some t"
      "th_state t = ThreadState_Waiting (WaitReason_Semaphore 1)"
    by (auto simp: thread_state_def)
  then show ?thesis using kernel_waits_covered [OF demo_reach(2) e] s by blast
qed

text \<open>
  C29. The kernel's objects stay well formed. In every reachable state no semaphore counts past
  its maximum, a fixed pool holds each block at most once and never both free and allocated, no
  region of a variable pool wraps around the address space, every alarm has a pending
  event and every pending event belongs to an alarm or to a waiting thread.
\<close>
theorem kernel_objects_well_formed:
  assumes "kernel_reach k ctx" and "\<not> exhausted k"
  shows "(\<forall>i v. FixedTable_get (kn_semaphores k) i = Some v \<longrightarrow> sem_count v \<le> sem_maximum v) \<and>
    (\<forall>i v. FixedTable_get (kn_fixed_pools k) i = Some v \<longrightarrow>
      distinct (fp_free v) \<and> set (fp_free v) \<inter> fp_allocated v = {}) \<and>
    (\<forall>i v r. FixedTable_get (kn_variable_pools k) i = Some v \<longrightarrow> r \<in> set (vp_free v) \<longrightarrow>
      unat (fr_address r) + unat (fr_size r) < 2 ^ 32) \<and>
    (\<forall>i a. FixedTable_get (kn_alarms k) i = Some a \<longrightarrow>
      map_of (sched_active (kn_scheduler k)) (alarm_event i) \<noteq> None) \<and>
    (\<forall>e v. map_of (sched_active (kn_scheduler k)) e = Some v \<longrightarrow>
      (\<exists>i t r. e = wait_event i \<and> FixedTable_get (kn_threads k) i = Some t \<and>
        th_state t = ThreadState_Waiting r) \<or>
      (\<exists>i a. e = alarm_event i \<and> FixedTable_get (kn_alarms k) i = Some a))"
proof -
  have inv: "kernel_inv (kn_current_thread k) no_exemption k"
    using kernel_reach_ok [OF assms] by (simp add: kernel_ok_def)
  then have ok: "sems_ok (sems k)" "fixed_ok (fpools k)" "variable_ok (vpools k)"
    "events_ok (thr k) (alarms k) (kn_scheduler k)"
    by (simp_all add: kernel_inv_def)
  show ?thesis
  proof (intro conjI)
    show "\<forall>i v r. vpools k i = Some v \<longrightarrow> r \<in> set (vp_free v) \<longrightarrow>
        unat (fr_address r) + unat (fr_size r) < 2 ^ 32"
      using ok(3) unfolding variable_ok_def variable_pool_ok_def region_ok_def by blast
  qed (use ok in \<open>unfold sems_ok_def fixed_ok_def fixed_pool_ok_def events_ok_def, blast+\<close>)
qed

theorem kernel_objects_well_formed_witness:
  "\<exists>v. FixedTable_get (kn_semaphores (fst demo_waiting)) 1 = Some v \<and> sem_maximum v = 1 \<and>
    sem_count v \<le> sem_maximum v"
proof -
  have e: "\<not> exhausted (fst demo_waiting)"
    and "map_option sem_maximum (FixedTable_get (kn_semaphores (fst demo_waiting)) 1) = Some 1"
    using demo_laws by (simp_all add: demo_facts_def)
  then show ?thesis using kernel_objects_well_formed [OF demo_reach(2) e] by auto
qed

text \<open>What a reschedule that may not force a switch leaves.\<close>

definition best_runs :: "Kernel \<Rightarrow> bool" where
  "best_runs k \<longleftrightarrow> (\<forall>j u. thr k j = Some u \<longrightarrow> th_state u = ThreadState_Ready \<longrightarrow>
     (\<exists>i t. kn_current_thread k = Some i \<and> thr k i = Some t \<and>
        th_current_priority t \<le> th_current_priority u))"

lemma best_runs_install:
  assumes t: "thr k c = Some t"
    and least: "\<And>j u. thr k j = Some u \<Longrightarrow> th_state u = ThreadState_Ready \<Longrightarrow>
      th_current_priority t \<le> th_current_priority u"
    and Q: "\<And>k'. best_runs k' \<Longrightarrow> kn_current_thread k' = Some c \<Longrightarrow>
      thr k' = (thr k)(c \<mapsto> t\<lparr>th_state := ThreadState_Running\<rparr>) \<Longrightarrow> Q () (k', th_context t)"
  shows "rs_wp (Kernel_install c) Q E (k, ctx)"
proof -
  let ?k = "k\<lparr>kn_threads := table_mut c (\<lambda>t. t\<lparr>th_state := ThreadState_Running\<rparr>) (kn_threads k),
    kn_current_thread := Some c\<rparr>"
  have "best_runs ?k" using t least by (auto simp: best_runs_def get_table_mut split: if_splits)
  moreover have "thr ?k = (thr k)(c \<mapsto> t\<lparr>th_state := ThreadState_Running\<rparr>)"
    using t by (simp add: get_table_mut fun_eq_iff)
  ultimately have "Q () (?k, th_context t)" by (intro Q) simp_all
  then show ?thesis using t by (simp add: Kernel_install_def rs_wp get_thread_def case_ok_or get_table_mut)
qed

text \<open>
  What becomes of the threads: the one that ran has its registers saved and, when another takes
  over, is ready again with the newest order; the one that takes over runs; no other changes.
\<close>

definition saved_running :: "Kernel \<Rightarrow> (Thread \<Rightarrow> Thread) \<Rightarrow> u32 \<Rightarrow> Thread option" where
  "saved_running k f j = (if kn_current_thread k = Some j then map_option f (thr k j) else thr k j)"

definition preempted :: "nat \<Rightarrow> CpuContext \<Rightarrow> Thread \<Rightarrow> Thread" where
  "preempted order ctx t =
     t\<lparr>th_context := ctx, th_ready_order := order, th_state := ThreadState_Ready\<rparr>"

definition takes_over :: "Kernel \<Rightarrow> CpuContext \<Rightarrow> Kernel \<times> CpuContext \<Rightarrow> bool" where
  "takes_over k ctx s \<longleftrightarrow> (\<exists>c t. kn_current_thread (fst s) = Some c \<and> thr k c = Some t \<and>
     th_state t = ThreadState_Ready \<and> snd s = th_context t \<and>
     (\<forall>j u. thr k j = Some u \<longrightarrow> th_state u = ThreadState_Ready \<longrightarrow>
        (th_current_priority t, th_ready_order t) \<le> (th_current_priority u, th_ready_order u)) \<and>
     (\<forall>i u. kn_current_thread k = Some i \<longrightarrow> thr k i = Some u \<longrightarrow>
        th_current_priority t < th_current_priority u) \<and>
     thr (fst s) = (saved_running k (preempted (kn_next_ready_order k) ctx))
       (c \<mapsto> t\<lparr>th_state := ThreadState_Running\<rparr>))"

definition best_outcome ::
    "(Thread \<Rightarrow> Thread) \<Rightarrow> Kernel \<Rightarrow> CpuContext \<Rightarrow> ScheduleAction \<Rightarrow> Kernel \<times> CpuContext \<Rightarrow> bool" where
  "best_outcome f k ctx a s \<longleftrightarrow> best_runs (fst s) \<and> sa_previous a = kn_current_thread k \<and>
     sa_current a = kn_current_thread (fst s) \<and>
     (\<not> sa_switched a \<longrightarrow> snd s = ctx \<and> kn_current_thread (fst s) = kn_current_thread k \<and>
        thr (fst s) = saved_running k f) \<and>
     (sa_switched a \<longrightarrow> takes_over k ctx s)"

lemma saved_running_id: "saved_running k (\<lambda>t. t) = thr k"
  by (simp add: saved_running_def fun_eq_iff option.map_ident)

lemma select_best:
  assumes k: "kernel_ok k"
  shows "rs_wp (Kernel_select (kn_current_thread k) False) (best_outcome (\<lambda>t. t) k ctx) (\<lambda>_ _. True) (k, ctx)"
proof -
  have ok: "table_ok (kn_threads k)"
    using k by (auto simp: kernel_ok_def kernel_inv_def tables_ok_def intro: table_dims_ok)
  show ?thesis
  proof (cases "Kernel_best_ready k")
    case None
    have "best_runs k" using best_ready_None [OF ok None] by (auto simp: best_runs_def)
    then show ?thesis using None
      by (auto simp: Kernel_select_def Kernel_should_switch_def Kernel_switch_def rs_wp best_outcome_def
          saved_running_id split: option.split)
  next
    case (Some c)
    then obtain t where t: "thr k c = Some t" "th_state t = ThreadState_Ready"
      and least: "\<And>j u. thr k j = Some u \<Longrightarrow> th_state u = ThreadState_Ready \<Longrightarrow>
        (th_current_priority t, th_ready_order t) \<le> (th_current_priority u, th_ready_order u)"
      using best_ready_Some [OF ok Some] by blast
    have prio: "th_current_priority t \<le> th_current_priority u"
      if "thr k j = Some u" "th_state u = ThreadState_Ready" for j u
      using least [OF that] unfolding less_eq_prod_def fst_conv snd_conv by (elim disjE conjE) simp_all
    have out: "best_outcome (\<lambda>t. t) k ctx \<lparr>sa_previous = kn_current_thread k, sa_current = Some c,
        sa_switched = True\<rparr> (k', th_context t)"
      if "best_runs k'" "kn_current_thread k' = Some c"
        and "\<forall>i u. kn_current_thread k = Some i \<longrightarrow> thr k i = Some u \<longrightarrow>
          th_current_priority t < th_current_priority u"
        and "thr k' = (saved_running k (preempted (kn_next_ready_order k) ctx))
          (c \<mapsto> t\<lparr>th_state := ThreadState_Running\<rparr>)" for k'
    proof -
      have "takes_over k ctx (k', th_context t)"
        unfolding takes_over_def using that(2-) t least
        by (intro exI [of _ c] exI [of _ t] conjI) (simp_all only: fst_conv snd_conv, blast+)
      then show ?thesis using that(1,2) by (simp add: best_outcome_def)
    qed
    show ?thesis
    proof (cases "kn_current_thread k")
      case cur: None
      have same: "saved_running k f = thr k" for f by (simp add: saved_running_def cur fun_eq_iff)
      have "rs_wp (Kernel_install c) (\<lambda>_. best_outcome (\<lambda>t. t) k ctx \<lparr>sa_previous = kn_current_thread k,
          sa_current = Some c, sa_switched = True\<rparr>) (\<lambda>_ _. True) (k, ctx)"
        by (rule best_runs_install [OF t(1) prio]) (use out cur same in simp_all)
      then show ?thesis using cur Some
        by (simp add: Kernel_select_def Kernel_should_switch_def Kernel_switch_def rs_wp wp_preempt_eq case_ok_or)
    next
      case cur: (Some i)
      then obtain u where u: "thr k i = Some u" "th_state u = ThreadState_Running"
        using k unfolding kernel_ok_def kernel_inv_def running_ok_def by force
      have ci: "c \<noteq> i" using t u by auto
      show ?thesis
      proof (cases "th_current_priority t < th_current_priority u")
        case False
        have "best_runs k" unfolding best_runs_def using cur u(1) prio False by (meson le_less_linear order_trans)
        then show ?thesis using cur u(1) t(1) Some False
          by (simp add: Kernel_select_def Kernel_should_switch_def Kernel_switch_def rs_wp get_thread_def
              case_ok_or best_outcome_def saved_running_id)
      next
        case True
        let ?k = "k\<lparr>kn_current_thread := None, kn_next_ready_order := kn_next_ready_order k + 1,
          kn_threads := table_mut i (\<lambda>t. t\<lparr>th_context := ctx,
            th_ready_order := kn_next_ready_order k, th_state := ThreadState_Ready\<rparr>) (kn_threads k)\<rparr>"
        have thr: "thr ?k = saved_running k (preempted (kn_next_ready_order k) ctx)"
          using u(1) by (auto simp: saved_running_def preempted_def cur get_table_mut fun_eq_iff)
        have "rs_wp (Kernel_install c) (\<lambda>_. best_outcome (\<lambda>t. t) k ctx \<lparr>sa_previous = kn_current_thread k,
            sa_current = Some c, sa_switched = True\<rparr>) (\<lambda>_ _. True) (?k, ctx)"
        proof (rule best_runs_install)
          show "thr ?k c = Some t" using t(1) ci by (simp add: get_table_mut)
          fix j v assume "thr ?k j = Some v" "th_state v = ThreadState_Ready"
          then show "th_current_priority t \<le> th_current_priority v"
            using prio u(1) True by (auto simp: get_table_mut split: if_splits)
        qed (use out cur u(1) True in \<open>simp only: thr, simp\<close>)
        then show ?thesis using cur u(1) t(1) Some True ci
          by (simp add: Kernel_select_def Kernel_should_switch_def Kernel_switch_def rs_wp get_thread_def
              case_ok_or wp_preempt_eq)
      qed
    qed
  qed
qed

lemma reschedule_best:
  assumes k: "kernel_ok k" and r: "reason \<noteq> RescheduleReason_Yield"
  shows "rs_wp (Kernel_reschedule reason) (best_outcome (\<lambda>t. t\<lparr>th_context := ctx\<rparr>) k ctx)
    (\<lambda>_ _. True) (k, ctx)"
proof (cases "kn_current_thread k")
  case None
  have "saved_running k f = thr k" for f by (simp add: saved_running_def None fun_eq_iff)
  then show ?thesis using select_best [OF k, of ctx] r None
    by (simp add: Kernel_reschedule_def rs_wp best_outcome_def [abs_def])
next
  case (Some i)
  then obtain u where u: "thr k i = Some u" "th_state u = ThreadState_Running"
    using k unfolding kernel_ok_def kernel_inv_def running_ok_def by force
  let ?f = "\<lambda>t. t\<lparr>th_context := ctx\<rparr>"
  let ?k = "k\<lparr>kn_threads := table_mut i ?f (kn_threads k)\<rparr>"
  have k': "kernel_ok ?k" by (rule kernel_ok_benign [OF k]) simp_all
  have ready: "thr ?k j = Some v \<and> th_state v = ThreadState_Ready \<longleftrightarrow>
      thr k j = Some v \<and> th_state v = ThreadState_Ready" for j v
    using u by (auto simp: get_table_mut)
  have saved: "saved_running ?k (\<lambda>t. t) = saved_running k ?f"
    "saved_running ?k (preempted n ctx) = saved_running k (preempted n ctx)" for n
    using Some u(1) by (auto simp: saved_running_def preempted_def get_table_mut fun_eq_iff)
  have prios: "(\<forall>i' u. kn_current_thread ?k = Some i' \<longrightarrow> thr ?k i' = Some u \<longrightarrow> p < th_current_priority u)
      \<longleftrightarrow> (\<forall>i' u. kn_current_thread k = Some i' \<longrightarrow> thr k i' = Some u \<longrightarrow> p < th_current_priority u)" for p
    using Some u(1) by (simp add: get_table_mut)
  have "takes_over k ctx s" if "takes_over ?k ctx s" for s
  proof -
    from that obtain c t where c: "kn_current_thread (fst s) = Some c" "snd s = th_context t"
      and t: "thr ?k c = Some t \<and> th_state t = ThreadState_Ready"
      and least: "\<And>j u. thr ?k j = Some u \<and> th_state u = ThreadState_Ready \<Longrightarrow>
         (th_current_priority t, th_ready_order t) \<le> (th_current_priority u, th_ready_order u)"
      and beats: "\<forall>i' u. kn_current_thread ?k = Some i' \<longrightarrow> thr ?k i' = Some u \<longrightarrow>
        th_current_priority t < th_current_priority u"
      and threads: "thr (fst s) = (saved_running ?k (preempted (kn_next_ready_order ?k) ctx))
        (c \<mapsto> t\<lparr>th_state := ThreadState_Running\<rparr>)"
      unfolding takes_over_def by blast
    have "thr (fst s) = (saved_running k (preempted (kn_next_ready_order k) ctx))
        (c \<mapsto> t\<lparr>th_state := ThreadState_Running\<rparr>)"
      using threads unfolding saved by simp
    then show ?thesis
      unfolding takes_over_def using c t [unfolded ready] least [unfolded ready] beats [unfolded prios] by blast
  qed
  then have "best_outcome ?f k ctx a s" if out: "best_outcome (\<lambda>t. t) ?k ctx a s" for a s
    using out unfolding best_outcome_def saved by simp
  then have "rs_wp (Kernel_select (Some i) False) (best_outcome ?f k ctx) (\<lambda>_ _. True) (?k, ctx)"
    using select_best [OF k', of ctx] Some by (auto elim: wp_mono)
  then show ?thesis using Some u r
    by (simp add: Kernel_reschedule_def rs_wp get_thread_def case_ok_or)
qed

text \<open>
  C30. Rescheduling runs the best thread. A successful \<open>reschedule\<close> for any reason but a yield
  leaves no ready thread with a better (smaller) priority than the running one, and none at all
  when nothing runs. It reports the thread that ran before and the one that runs now. Without a
  switch the CPU context and the running thread stay, and the thread table only has its
  registers saved. A switch is made only to a thread that was ready, is strictly better than the
  one that ran, has the least priority of the ready ones and, among those, has been ready longest:
  its saved context is loaded, and the thread that ran is ready again, with its registers saved
  and the newest order. No other thread changes.
\<close>
theorem kernel_reschedule_priority:
  assumes "kernel_reach k ctx" and "\<not> exhausted k" and "reason \<noteq> RescheduleReason_Yield"
    and "Kernel_reschedule reason (k, ctx) = (Inr a, (k', ctx'))"
  shows "(\<forall>j u. FixedTable_get (kn_threads k') j = Some u \<longrightarrow> th_state u = ThreadState_Ready \<longrightarrow>
      (\<exists>i t. kn_current_thread k' = Some i \<and> FixedTable_get (kn_threads k') i = Some t \<and>
        th_current_priority t \<le> th_current_priority u)) \<and>
    sa_previous a = kn_current_thread k \<and> sa_current a = kn_current_thread k' \<and>
    (\<not> sa_switched a \<longrightarrow> ctx' = ctx \<and> kn_current_thread k' = kn_current_thread k \<and>
      FixedTable_get (kn_threads k') = saved_running k (\<lambda>t. t\<lparr>th_context := ctx\<rparr>)) \<and>
    (sa_switched a \<longrightarrow> (\<exists>c t. kn_current_thread k' = Some c \<and>
      FixedTable_get (kn_threads k) c = Some t \<and> th_state t = ThreadState_Ready \<and>
      ctx' = th_context t \<and>
      (\<forall>j u. FixedTable_get (kn_threads k) j = Some u \<longrightarrow> th_state u = ThreadState_Ready \<longrightarrow>
        (th_current_priority t, th_ready_order t) \<le> (th_current_priority u, th_ready_order u)) \<and>
      (\<forall>i u. kn_current_thread k = Some i \<longrightarrow> FixedTable_get (kn_threads k) i = Some u \<longrightarrow>
        th_current_priority t < th_current_priority u) \<and>
      FixedTable_get (kn_threads k') = (saved_running k (preempted (kn_next_ready_order k) ctx))
        (c \<mapsto> t\<lparr>th_state := ThreadState_Running\<rparr>)))"
  using reschedule_best [OF kernel_reach_ok [OF assms(1,2)] assms(3), of ctx] assms(4)
  by (simp add: rs_wp_def best_outcome_def best_runs_def takes_over_def)

theorem kernel_reschedule_priority_witness:
  "\<exists>a k' ctx'. Kernel_reschedule RescheduleReason_InterruptReturn demo_signalled = (Inr a, (k', ctx')) \<and>
    sa_current a = Some 1 \<and> kn_current_thread k' = Some 1 \<and>
    map_option th_context (FixedTable_get (kn_threads (fst demo_signalled)) 1) = Some ctx'"
proof -
  obtain r k' ctx' where run: "Kernel_reschedule RescheduleReason_InterruptReturn
      (fst demo_signalled, snd demo_signalled) = (r, (k', ctx'))"
    by (metis prod.collapse)
  have e: "\<not> exhausted (fst demo_signalled)" using demo_laws by (simp add: demo_facts_def)
  obtain a where a: "r = Inr a" "sa_switched a" "sa_current a = Some 1"
    using demo_laws run by (auto simp: demo_facts_def split: sum.splits)
  from kernel_reschedule_priority [OF demo_reach(3) e _ run [unfolded a(1)]] a
  have "kn_current_thread k' = Some 1 \<and> map_option th_context (thr (fst demo_signalled) 1) = Some ctx'"
    by auto
  then show ?thesis using run a by simp
qed

text \<open>
  C31. Time always advances. While the 64-bit order of ready threads has room for the pending
  events, \<open>advance_to\<close> with a time that is not in the past returns, succeeds, sets the clock and
  leaves only events that are due later: every thread still delayed has a deadline after the
  new time, and so has every alarm.
\<close>
theorem kernel_advance_complete:
  assumes "kernel_reach k ctx" and "\<not> exhausted k" and "kn_now k \<le> now"
    and "kn_next_ready_order k + length (sched_queue (kn_scheduler k)) < 2 ^ 64"
  shows "\<exists>events k'. Kernel_advance_to now k = (Inr events, k') \<and> kn_now k' = now \<and>
    (\<forall>e d n. map_of (sched_active (kn_scheduler k')) e = Some (d, n) \<longrightarrow> now < d) \<and>
    (\<forall>i t. FixedTable_get (kn_threads k') i = Some t \<longrightarrow>
      th_state t = ThreadState_Waiting WaitReason_Delay \<longrightarrow>
      (\<exists>d n. map_of (sched_active (kn_scheduler k')) (wait_event i) = Some (d, n) \<and> now < d)) \<and>
    (\<forall>i a. FixedTable_get (kn_alarms k') i = Some a \<longrightarrow>
      (\<exists>d n. map_of (sched_active (kn_scheduler k')) (alarm_event i) = Some (d, n) \<and> now < d))"
proof -
  let ?k = "k\<lparr>kn_now := now\<rparr>"
  have k: "kernel_ok ?k" using kernel_reach_ok [OF assms(1,2)] by simp
  obtain es k' where run: "advance_loop now [] ?k = (Inr es, k')"
    using advance_loop_total [OF k, of now "[]"] assms(4) by auto
  with advance_loop_laws [OF k, of now "[]"]
  have k': "kernel_ok k'" "kn_now k' = now" "\<forall>e d n. active k' e = Some (d, n) \<longrightarrow> now < d"
    by simp_all
  have "Kernel_advance_to now k = (Inr es, k')"
    using run assms(3) by (simp add: Kernel_advance_to_def not_less)
  moreover have "\<exists>d n. active k' (wait_event i) = Some (d, n) \<and> now < d"
    if "thr k' i = Some t" "th_state t = ThreadState_Waiting WaitReason_Delay" for i t
  proof -
    have "blocked k' i WaitReason_Delay"
      using k'(1) that unfolding kernel_ok_def kernel_inv_def waits_ok_def by blast
    then show ?thesis using k'(3) by (auto simp: blocked_def)
  qed
  moreover have "\<exists>d n. active k' (alarm_event i) = Some (d, n) \<and> now < d"
    if "alarms k' i = Some a" for i a
  proof -
    have "active k' (alarm_event i) \<noteq> None"
      using k'(1) that unfolding kernel_ok_def kernel_inv_def events_ok_def by blast
    then show ?thesis using k'(3) by auto
  qed
  ultimately show ?thesis using k'(2,3) by blast
qed

theorem kernel_advance_complete_witness:
  "\<exists>events k'. Kernel_advance_to 50 Kernel_new = (Inr events, k') \<and> kn_now k' = 50 \<and>
    (\<forall>e d n. map_of (sched_active (kn_scheduler k')) e = Some (d, n) \<longrightarrow> 50 < d)"
proof -
  have "\<not> exhausted Kernel_new" "kn_now Kernel_new \<le> 50"
    "kn_next_ready_order Kernel_new + length (sched_queue (kn_scheduler Kernel_new)) < 2 ^ 64"
    by (simp_all add: exhausted_def Kernel_new_def Scheduler_new_def)
  from kernel_advance_complete [OF reach_new this] show ?thesis by blast
qed

text \<open>
  C33. A wait that fails on its deadline leaves the thread in the queue. When the semaphore is
  empty and the timeout overflows the clock, \<open>wait_semaphore\<close> reports the clock error after
  it has put the current thread in the semaphore's queue: the thread keeps running and
  stays queued.
\<close>
theorem kernel_wait_overflow_stays_queued:
  assumes "FixedTable_get (kn_semaphores k) s = Some v" and "sem_count v = 0"
    and "kn_current_thread k = Some i" and "Deadline_checked_advance (kn_now k) ticks = Inl e"
  shows "\<exists>k' v'. Kernel_wait_semaphore s (Some ticks) (k, ctx) = (Inl (BiosError_Clock e), (k', ctx)) \<and>
    kn_current_thread k' = Some i \<and> kn_threads k' = kn_threads k \<and>
    FixedTable_get (kn_semaphores k') s = Some v' \<and> i \<in> set (sem_waiters v')"
proof -
  let ?f = "\<lambda>v. v\<lparr>sem_waiters := insert_waiter (sem_waiters v) i (sem_attributes v) (kn_threads k)\<rparr>"
  let ?k = "k\<lparr>kn_semaphores := table_mut s ?f (kn_semaphores k)\<rparr>"
  have "rs_wp (Kernel_wait_semaphore s (Some ticks)) (\<lambda>_ _. False)
      (\<lambda>x s'. x = BiosError_Clock e \<and> s' = (?k, ctx)) (k, ctx)"
    using assms by (simp add: Kernel_wait_semaphore_def rs_wp get_semaphore_def get_current_def case_ok_or
        wait_deadline_def map_err_def)
  then have "Kernel_wait_semaphore s (Some ticks) (k, ctx) = (Inl (BiosError_Clock e), (?k, ctx))"
    by (auto simp: rs_wp_def split: prod.splits sum.splits)
  moreover have "sems ?k s = Some (?f v)" using assms(1) by (simp add: get_table_mut)
  ultimately show ?thesis using assms(3)
    by (intro exI [of _ ?k] exI [of _ "?f v"]) (simp add: set_insert_waiter)
qed

theorem kernel_wait_overflow_stays_queued_witness:
  "\<exists>e k' v'. Kernel_wait_semaphore 1 (Some (2 ^ 64 - 1)) demo_start =
      (Inl (BiosError_Clock e), (k', snd demo_start)) \<and>
    kn_current_thread k' = Some 1 \<and> FixedTable_get (kn_semaphores k') 1 = Some v' \<and>
    1 \<in> set (sem_waiters v')"
proof -
  have "map_option sem_count (FixedTable_get (kn_semaphores (fst demo_start)) 1) = Some 0"
    and c: "kn_current_thread (fst demo_start) = Some 1" and n: "kn_now (fst demo_start) = 1"
    using demo_laws by (simp_all add: demo_facts_def)
  then obtain v where v: "FixedTable_get (kn_semaphores (fst demo_start)) 1 = Some v" "sem_count v = 0"
    by auto
  obtain e where e: "Deadline_checked_advance (kn_now (fst demo_start)) (2 ^ 64 - 1) = Inl e"
    by (simp add: n Deadline_checked_advance_def checked_add_n_def ok_or_def)
  show ?thesis
    using kernel_wait_overflow_stays_queued [OF v c e, of "snd demo_start"] by auto
qed

end
