(* ===== verification/Interrupt_Line.thy ===== *)
theory Interrupt_Line
  imports Upse_Prelude
begin

text \<open>
  The contract both interrupt controllers (\<open>crates/hw/ps1/irq\<close>, \<open>crates/hw/ps2/irq\<close>) offer to
  the devices: status, mask and level registers, one bit per source. The laws are stated bit
  by bit. Over them: the register invariant, that requests are idempotent and commute, and
  that a controller is a family of independent flip-flops, one per source.
\<close>

datatype ('src, 'w) irq_op =
    Op_request 'src
  | Op_set_level 'src bool
  | Op_acknowledge 'w
  | Op_set_mask 'w

text \<open>One line in isolation: is it latched, and is its level high?\<close>

fun line_step :: "'src \<Rightarrow> nat \<Rightarrow> bool \<times> bool \<Rightarrow> ('src, 'w::len word) irq_op \<Rightarrow> bool \<times> bool" where
  "line_step src n (latched, high) (Op_request s) = (latched \<or> s = src, high)"
| "line_step src n (latched, high) (Op_set_level s asserted) =
     (if s \<noteq> src then (latched, high) else if asserted then (True, True) else (latched, False))"
| "line_step src n (latched, high) (Op_acknowledge v) = (latched \<and> bit v n \<or> high, high)"
| "line_step src n (latched, high) (Op_set_mask v) = (latched, high)"

definition line_run :: "'src \<Rightarrow> nat \<Rightarrow> ('src, 'w::len word) irq_op list \<Rightarrow> bool \<times> bool" where
  "line_run src n ops = foldl (line_step src n) (False, False) ops"

locale irq_controller =
  fixes status mask levels :: "'s \<Rightarrow> 'w::len word"
    and reset :: 's
    and request :: "'s \<Rightarrow> 'src \<Rightarrow> 's"
    and set_level :: "'s \<Rightarrow> 'src \<Rightarrow> bool \<Rightarrow> 's"
    and acknowledge set_mask :: "'s \<Rightarrow> 'w word \<Rightarrow> 's"
    and index :: "'src \<Rightarrow> nat"
    and sources :: nat
  assumes index_bound: "index src < sources"
    and index_inj: "index a = index b \<Longrightarrow> a = b"
    and regs_ext: "status s = status t \<Longrightarrow> mask s = mask t \<Longrightarrow> levels s = levels t \<Longrightarrow> s = t"
    and reset_regs: "status reset = 0" "mask reset = 0" "levels reset = 0"
    and status_request: "bit (status (request s src)) n \<longleftrightarrow> bit (status s) n \<or> n = index src"
    and mask_request: "mask (request s src) = mask s"
    and levels_request: "levels (request s src) = levels s"
    and status_set_level: "bit (status (set_level s src asserted)) n \<longleftrightarrow>
      bit (status s) n \<or> asserted \<and> n = index src"
    and mask_set_level: "mask (set_level s src asserted) = mask s"
    and levels_set_level: "bit (levels (set_level s src asserted)) n \<longleftrightarrow>
      (if n = index src then asserted else bit (levels s) n)"
    and status_acknowledge: "bit (status (acknowledge s v)) n \<longleftrightarrow>
      bit (status s) n \<and> bit v n \<and> n < sources \<or> bit (levels s) n"
    and mask_acknowledge: "mask (acknowledge s v) = mask s"
    and levels_acknowledge: "levels (acknowledge s v) = levels s"
    and status_set_mask: "status (set_mask s v) = status s"
    and mask_set_mask: "bit (mask (set_mask s v)) n \<longleftrightarrow> bit v n \<and> n < sources"
    and levels_set_mask: "levels (set_mask s v) = levels s"
begin

lemmas register_laws = status_request mask_request levels_request status_set_level
  mask_set_level levels_set_level status_acknowledge mask_acknowledge levels_acknowledge
  status_set_mask mask_set_mask levels_set_mask

lemma request_idem: "request (request s a) a = request s a"
  by (rule regs_ext) (auto simp: register_laws intro: bit_word_eqI)

lemma request_commute: "request (request s a) b = request (request s b) a"
  by (rule regs_ext) (auto simp: register_laws intro: bit_word_eqI)

definition apply_op :: "'s \<Rightarrow> ('src, 'w word) irq_op \<Rightarrow> 's" where
  "apply_op s oper = (case oper of
     Op_request src \<Rightarrow> request s src
   | Op_set_level src a \<Rightarrow> set_level s src a
   | Op_acknowledge v \<Rightarrow> acknowledge s v
   | Op_set_mask v \<Rightarrow> set_mask s v)"

definition invar :: "'s \<Rightarrow> bool" where
  "invar s \<longleftrightarrow> (\<forall>n. (bit (levels s) n \<longrightarrow> bit (status s) n) \<and>
     (bit (status s) n \<longrightarrow> n < sources) \<and> (bit (mask s) n \<longrightarrow> n < sources))"

lemma invar_reset: "invar reset"
  by (simp add: invar_def reset_regs)

lemma invar_apply: "invar s \<Longrightarrow> invar (apply_op s oper)"
  using index_bound by (cases oper) (auto simp: invar_def apply_op_def register_laws)

lemma invar_run: "invar s \<Longrightarrow> invar (foldl apply_op s ops)"
  by (induction ops arbitrary: s) (simp_all add: invar_apply)

lemma line_apply:
  "line_step src (index src) (bit (status s) (index src), bit (levels s) (index src)) oper =
     (bit (status (apply_op s oper)) (index src), bit (levels (apply_op s oper)) (index src))"
  using index_bound index_inj by (cases oper) (auto simp: apply_op_def register_laws)

lemma line_fold:
  "foldl (line_step src (index src)) (bit (status s) (index src), bit (levels s) (index src)) ops =
     (bit (status (foldl apply_op s ops)) (index src),
      bit (levels (foldl apply_op s ops)) (index src))"
proof (induction ops arbitrary: s)
  case (Cons oper ops)
  show ?case unfolding foldl_Cons line_apply by (rule Cons.IH)
qed simp

lemma controller_refines_lines:
  "line_run src (index src) ops =
     (bit (status (foldl apply_op reset ops)) (index src),
      bit (levels (foldl apply_op reset ops)) (index src))"
  using line_fold [of src reset ops] by (simp add: line_run_def reset_regs)

lemma pending_iff:
  assumes "invar s" and "\<And>n. n < sources \<Longrightarrow> \<exists>src. index src = n"
  shows "status s AND mask s \<noteq> 0 \<longleftrightarrow>
    (\<exists>src. bit (status s) (index src) \<and> bit (mask s) (index src))"
proof
  assume "status s AND mask s \<noteq> 0"
  then obtain n where "bit (status s AND mask s) n" by (metis bit_0_eq bot_apply bot_bool_def bit_eqI)
  then show "\<exists>src. bit (status s) (index src) \<and> bit (mask s) (index src)"
    using assms by (metis bit_and_iff invar_def)
next
  assume "\<exists>src. bit (status s) (index src) \<and> bit (mask s) (index src)"
  then obtain src where "bit (status s AND mask s) (index src)" by (auto simp: bit_and_iff)
  then show "status s AND mask s \<noteq> 0" by (metis bit_0_eq bot_apply bot_bool_def)
qed

end

end
