(* ===== verification/Ps1_Irq.thy ===== *)
theory Ps1_Irq
  imports Interrupt_Line
begin

text \<open>
  The PS1 interrupt controller, \<open>crates/hw/ps1/irq/src/lib.rs\<close>: eleven source bits in the
  16-bit registers \<open>I_STAT\<close> and \<open>I_MASK\<close>, pulse and level producers, and acknowledgement by
  writing zeros.
\<close>

section \<open>State and operations\<close>

definition Irq1_I_STAT :: u32 where "Irq1_I_STAT = 0x1f801070"
definition Irq1_I_MASK :: u32 where "Irq1_I_MASK = 0x1f801074"
definition Irq1_VALID_BITS :: u16 where "Irq1_VALID_BITS = 0x07ff"

datatype Irq1Source =
    Irq1_VBlank | Irq1_Gpu | Irq1_CdRom | Irq1_Dma | Irq1_Timer0 | Irq1_Timer1 | Irq1_Timer2
  | Irq1_Controller | Irq1_Sio | Irq1_Spu | Irq1_LightPen

fun Irq1_index :: "Irq1Source \<Rightarrow> nat" where
  "Irq1_index Irq1_VBlank = 0"
| "Irq1_index Irq1_Gpu = 1"
| "Irq1_index Irq1_CdRom = 2"
| "Irq1_index Irq1_Dma = 3"
| "Irq1_index Irq1_Timer0 = 4"
| "Irq1_index Irq1_Timer1 = 5"
| "Irq1_index Irq1_Timer2 = 6"
| "Irq1_index Irq1_Controller = 7"
| "Irq1_index Irq1_Sio = 8"
| "Irq1_index Irq1_Spu = 9"
| "Irq1_index Irq1_LightPen = 10"

definition Irq1Source_bit :: "Irq1Source \<Rightarrow> u16" where
  "Irq1Source_bit src = push_bit (Irq1_index src) 1"

datatype Irq1Error = Irq1Error_InvalidRegister u32

record Irq1Controller =
  irq1_status :: u16
  irq1_mask :: u16
  irq1_levels :: u16

definition Irq1_new :: Irq1Controller where
  "Irq1_new = \<lparr>irq1_status = 0, irq1_mask = 0, irq1_levels = 0\<rparr>"

definition Irq1_request :: "Irq1Controller \<Rightarrow> Irq1Source \<Rightarrow> Irq1Controller" where
  "Irq1_request self src = self\<lparr>irq1_status := irq1_status self OR Irq1Source_bit src\<rparr>"

definition Irq1_set_level :: "Irq1Controller \<Rightarrow> Irq1Source \<Rightarrow> bool \<Rightarrow> Irq1Controller" where
  "Irq1_set_level self src asserted =
     (let b = Irq1Source_bit src in
      if asserted
      then self\<lparr>irq1_levels := irq1_levels self OR b, irq1_status := irq1_status self OR b\<rparr>
      else self\<lparr>irq1_levels := irq1_levels self AND NOT b\<rparr>)"

definition Irq1_pending :: "Irq1Controller \<Rightarrow> bool" where
  "Irq1_pending self \<longleftrightarrow> irq1_status self AND irq1_mask self \<noteq> 0"

definition Irq1_acknowledge :: "Irq1Controller \<Rightarrow> u16 \<Rightarrow> Irq1Controller" where
  "Irq1_acknowledge self value =
     self\<lparr>irq1_status := (irq1_status self AND (value AND Irq1_VALID_BITS)) OR irq1_levels self\<rparr>"

definition Irq1_set_mask :: "Irq1Controller \<Rightarrow> u16 \<Rightarrow> Irq1Controller" where
  "Irq1_set_mask self value = self\<lparr>irq1_mask := value AND Irq1_VALID_BITS\<rparr>"

definition Irq1_read :: "Irq1Controller \<Rightarrow> u32 \<Rightarrow> Irq1Error + u32" where
  "Irq1_read self address =
     (if address = Irq1_I_STAT then Inr (ucast (irq1_status self))
      else if address = Irq1_I_MASK then Inr (ucast (irq1_mask self))
      else Inl (Irq1Error_InvalidRegister address))"

definition Irq1_write :: "Irq1Controller \<Rightarrow> u32 \<Rightarrow> u32 \<Rightarrow> (Irq1Error + unit) \<times> Irq1Controller" where
  "Irq1_write self address value =
     (let v = u16_from_le_bytes (byte_of 0 value) (byte_of 1 value) in
      if address = Irq1_I_STAT then (Inr (), Irq1_acknowledge self v)
      else if address = Irq1_I_MASK then (Inr (), Irq1_set_mask self v)
      else (Inl (Irq1Error_InvalidRegister address), self))"

text \<open>A driver of the controller, as a sequence of the operations above.\<close>

fun Irq1_apply :: "Irq1Controller \<Rightarrow> (Irq1Source, u16) irq_op \<Rightarrow> Irq1Controller" where
  "Irq1_apply s (Op_request src) = Irq1_request s src"
| "Irq1_apply s (Op_set_level src a) = Irq1_set_level s src a"
| "Irq1_apply s (Op_acknowledge v) = Irq1_acknowledge s v"
| "Irq1_apply s (Op_set_mask v) = Irq1_set_mask s v"

section \<open>The controller meets the contract\<close>

lemma Irq1_index_bound: "Irq1_index src < 11"
  by (cases src) simp_all

lemma Irq1_index_inj: "Irq1_index a = Irq1_index b \<Longrightarrow> a = b"
  by (cases a; cases b) simp_all

lemma Irq1_index_surj: "n < 11 \<Longrightarrow> \<exists>src. Irq1_index src = n"
proof -
  assume "n < 11"
  then have "n \<in> {0, 1, 2, 3, 4, 5, 6, 7, 8, 9, 10}"
    by (simp only: insert_iff empty_iff) presburger
  then show ?thesis by (metis Irq1_index.simps empty_iff insert_iff)
qed

lemma bit_Irq1Source_bit: "bit (Irq1Source_bit src) n \<longleftrightarrow> n = Irq1_index src"
  using Irq1_index_bound [of src] by (auto simp: Irq1Source_bit_def bit_simps)

lemma bit_Irq1_VALID_BITS: "bit Irq1_VALID_BITS n \<longleftrightarrow> n < 11"
proof -
  have eq: "Irq1_VALID_BITS = mask 11" by (simp add: Irq1_VALID_BITS_def mask_eq_exp_minus_1)
  show ?thesis unfolding eq by (auto simp: bit_mask_iff)
qed

interpretation irq1: irq_controller irq1_status irq1_mask irq1_levels Irq1_new Irq1_request
  Irq1_set_level Irq1_acknowledge Irq1_set_mask Irq1_index 11
  by unfold_locales
    (auto simp: Irq1_index_bound Irq1_new_def Irq1_request_def Irq1_set_level_def
      Irq1_acknowledge_def Irq1_set_mask_def bit_simps bit_Irq1Source_bit bit_Irq1_VALID_BITS Let_def
      dest: Irq1_index_inj bit_imp_le_length)

lemma Irq1_apply_op: "irq1.apply_op = Irq1_apply"
proof (intro ext)
  show "irq1.apply_op s oper = Irq1_apply s oper" for s oper
    by (cases oper) (simp_all add: irq1.apply_op_def)
qed

section \<open>Properties\<close>

text \<open>
  C12. The PS1 controller is eleven independent flip-flops. After any sequence of requests, level
  changes, acknowledgements and mask writes from reset, the status bit of a source is what a
  single line reacting only to its own events would hold: latched by a request or a high
  level, cleared by an acknowledged zero, and not clearable while its level is high.
\<close>
theorem irq1_refines_lines:
  "line_run src (Irq1_index src) ops =
     (bit (irq1_status (foldl Irq1_apply Irq1_new ops)) (Irq1_index src),
      bit (irq1_levels (foldl Irq1_apply Irq1_new ops)) (Irq1_index src))"
  using irq1.controller_refines_lines by (simp only: Irq1_apply_op)

text \<open>
  The CPU line of the PS1 controller is high exactly when some source is both latched and
  enabled, in every state reachable from reset; only the eleven implemented bits of the
  registers are ever set.
\<close>
lemma irq1_pending_iff_source:
  "(Irq1_pending (foldl Irq1_apply Irq1_new ops) \<longleftrightarrow>
     (\<exists>src. bit (irq1_status (foldl Irq1_apply Irq1_new ops)) (Irq1_index src) \<and>
            bit (irq1_mask (foldl Irq1_apply Irq1_new ops)) (Irq1_index src))) \<and>
   irq1_status (foldl Irq1_apply Irq1_new ops) AND NOT Irq1_VALID_BITS = 0 \<and>
   irq1_mask (foldl Irq1_apply Irq1_new ops) AND NOT Irq1_VALID_BITS = 0"
proof -
  let ?s = "foldl Irq1_apply Irq1_new ops"
  have inv: "irq1.invar ?s"
    using irq1.invar_run [OF irq1.invar_reset] by (simp only: Irq1_apply_op)
  have "w AND NOT Irq1_VALID_BITS = 0" if "\<And>n. bit w n \<longrightarrow> n < 11" for w
    by (rule bit_word_eqI) (use that in \<open>auto simp: bit_simps bit_Irq1_VALID_BITS\<close>)
  then have "irq1_status ?s AND NOT Irq1_VALID_BITS = 0" "irq1_mask ?s AND NOT Irq1_VALID_BITS = 0"
    using inv unfolding irq1.invar_def by blast+
  then show ?thesis
    using irq1.pending_iff [OF inv Irq1_index_surj] by (simp add: Irq1_pending_def)
qed

end
