(* ===== verification/Ps2_Irq.thy ===== *)
theory Ps2_Irq
  imports Interrupt_Line
begin

text \<open>
  The PS2 IOP interrupt controller, \<open>crates/hw/ps2/irq/src/lib.rs\<close>: twenty-six source bits in
  the 32-bit registers \<open>I_STAT\<close> and \<open>I_MASK\<close>, and the priority encoder \<open>first_pending\<close>.
\<close>

section \<open>State and operations\<close>

definition Irq2_I_STAT :: u32 where "Irq2_I_STAT = 0x1f801070"
definition Irq2_I_MASK :: u32 where "Irq2_I_MASK = 0x1f801074"
definition Irq2_VALID_BITS :: u32 where "Irq2_VALID_BITS = 0x03ffffff"

datatype Irq2Source =
    Irq2_VBlank | Irq2_SBus | Irq2_Cdvd | Irq2_Dma | Irq2_Timer0 | Irq2_Timer1 |
  Irq2_Timer2 | Irq2_Sio0 | Irq2_Sio1 | Irq2_Spu2 | Irq2_Pio | Irq2_VBlankEnd | Irq2_Dvd |
  Irq2_Dev9 | Irq2_Timer3 | Irq2_Timer4 | Irq2_Timer5 | Irq2_Sio2 | Irq2_Hold0 |
  Irq2_Hold1 | Irq2_Hold2 | Irq2_Hold3 | Irq2_Usb | Irq2_Expansion | Irq2_ILink |
  Irq2_FireWireDma

text \<open>The discriminants of the \<open>repr(u8)\<close> enum.\<close>

fun Irq2_index :: "Irq2Source \<Rightarrow> nat" where
  "Irq2_index Irq2_VBlank = 0"
| "Irq2_index Irq2_SBus = 1"
| "Irq2_index Irq2_Cdvd = 2"
| "Irq2_index Irq2_Dma = 3"
| "Irq2_index Irq2_Timer0 = 4"
| "Irq2_index Irq2_Timer1 = 5"
| "Irq2_index Irq2_Timer2 = 6"
| "Irq2_index Irq2_Sio0 = 7"
| "Irq2_index Irq2_Sio1 = 8"
| "Irq2_index Irq2_Spu2 = 9"
| "Irq2_index Irq2_Pio = 10"
| "Irq2_index Irq2_VBlankEnd = 11"
| "Irq2_index Irq2_Dvd = 12"
| "Irq2_index Irq2_Dev9 = 13"
| "Irq2_index Irq2_Timer3 = 14"
| "Irq2_index Irq2_Timer4 = 15"
| "Irq2_index Irq2_Timer5 = 16"
| "Irq2_index Irq2_Sio2 = 17"
| "Irq2_index Irq2_Hold0 = 18"
| "Irq2_index Irq2_Hold1 = 19"
| "Irq2_index Irq2_Hold2 = 20"
| "Irq2_index Irq2_Hold3 = 21"
| "Irq2_index Irq2_Usb = 22"
| "Irq2_index Irq2_Expansion = 23"
| "Irq2_index Irq2_ILink = 24"
| "Irq2_index Irq2_FireWireDma = 25"

definition Irq2Source_bit :: "Irq2Source \<Rightarrow> u32" where
  "Irq2Source_bit src = push_bit (Irq2_index src) 1"

definition Irq2Source_from_index :: "nat \<Rightarrow> Irq2Source option" where
  "Irq2Source_from_index index =
     (if index = 0 then Some Irq2_VBlank
      else if index = 1 then Some Irq2_SBus
      else if index = 2 then Some Irq2_Cdvd
      else if index = 3 then Some Irq2_Dma
      else if index = 4 then Some Irq2_Timer0
      else if index = 5 then Some Irq2_Timer1
      else if index = 6 then Some Irq2_Timer2
      else if index = 7 then Some Irq2_Sio0
      else if index = 8 then Some Irq2_Sio1
      else if index = 9 then Some Irq2_Spu2
      else if index = 10 then Some Irq2_Pio
      else if index = 11 then Some Irq2_VBlankEnd
      else if index = 12 then Some Irq2_Dvd
      else if index = 13 then Some Irq2_Dev9
      else if index = 14 then Some Irq2_Timer3
      else if index = 15 then Some Irq2_Timer4
      else if index = 16 then Some Irq2_Timer5
      else if index = 17 then Some Irq2_Sio2
      else if index = 18 then Some Irq2_Hold0
      else if index = 19 then Some Irq2_Hold1
      else if index = 20 then Some Irq2_Hold2
      else if index = 21 then Some Irq2_Hold3
      else if index = 22 then Some Irq2_Usb
      else if index = 23 then Some Irq2_Expansion
      else if index = 24 then Some Irq2_ILink
      else if index = 25 then Some Irq2_FireWireDma
      else None)"

datatype Irq2Error = Irq2Error u32

record Irq2Controller =
  irq2_status :: u32
  irq2_mask :: u32
  irq2_levels :: u32

definition Irq2_new :: Irq2Controller where
  "Irq2_new = \<lparr>irq2_status = 0, irq2_mask = 0, irq2_levels = 0\<rparr>"

definition Irq2_pending_bits :: "Irq2Controller \<Rightarrow> u32" where
  "Irq2_pending_bits self = irq2_status self AND irq2_mask self"

text \<open>\<open>u32::trailing_zeros\<close> counts the zero bits below the lowest set bit.\<close>

definition u32_trailing_zeros :: "u32 \<Rightarrow> nat" where
  "u32_trailing_zeros w = length (takeWhile (\<lambda>n. \<not> bit w n) [0..<32])"

definition Irq2_first_pending :: "Irq2Controller \<Rightarrow> Irq2Source option" where
  "Irq2_first_pending self =
     (let bits = Irq2_pending_bits self in
      if bits = 0 then None
      else Option.bind (try_from_n 8 (u32_trailing_zeros bits)) Irq2Source_from_index)"

definition Irq2_pending :: "Irq2Controller \<Rightarrow> bool" where
  "Irq2_pending self \<longleftrightarrow> Irq2_pending_bits self \<noteq> 0"

definition Irq2_acknowledge :: "Irq2Controller \<Rightarrow> u32 \<Rightarrow> Irq2Controller" where
  "Irq2_acknowledge self value =
     self\<lparr>irq2_status := (irq2_status self AND (value AND Irq2_VALID_BITS)) OR irq2_levels self\<rparr>"

definition Irq2_set_mask :: "Irq2Controller \<Rightarrow> u32 \<Rightarrow> Irq2Controller" where
  "Irq2_set_mask self value = self\<lparr>irq2_mask := value AND Irq2_VALID_BITS\<rparr>"

definition Irq2_read :: "Irq2Controller \<Rightarrow> u32 \<Rightarrow> Irq2Error + u32" where
  "Irq2_read self address =
     (if address = Irq2_I_STAT then Inr (irq2_status self)
      else if address = Irq2_I_MASK then Inr (irq2_mask self)
      else Inl (Irq2Error address))"

definition Irq2_write :: "Irq2Controller \<Rightarrow> u32 \<Rightarrow> u32 \<Rightarrow> (Irq2Error + unit) \<times> Irq2Controller" where
  "Irq2_write self address value =
     (if address = Irq2_I_STAT then (Inr (), Irq2_acknowledge self value)
      else if address = Irq2_I_MASK then (Inr (), Irq2_set_mask self value)
      else (Inl (Irq2Error address), self))"

definition Irq2_request :: "Irq2Controller \<Rightarrow> Irq2Source \<Rightarrow> Irq2Controller" where
  "Irq2_request self src = self\<lparr>irq2_status := irq2_status self OR Irq2Source_bit src\<rparr>"

definition Irq2_set_level :: "Irq2Controller \<Rightarrow> Irq2Source \<Rightarrow> bool \<Rightarrow> Irq2Controller" where
  "Irq2_set_level self src asserted =
     (let b = Irq2Source_bit src in
      if asserted
      then self\<lparr>irq2_levels := irq2_levels self OR b, irq2_status := irq2_status self OR b\<rparr>
      else self\<lparr>irq2_levels := irq2_levels self AND NOT b\<rparr>)"

fun Irq2_apply :: "Irq2Controller \<Rightarrow> (Irq2Source, u32) irq_op \<Rightarrow> Irq2Controller" where
  "Irq2_apply s (Op_request src) = Irq2_request s src"
| "Irq2_apply s (Op_set_level src a) = Irq2_set_level s src a"
| "Irq2_apply s (Op_acknowledge v) = Irq2_acknowledge s v"
| "Irq2_apply s (Op_set_mask v) = Irq2_set_mask s v"

section \<open>The controller meets the contract\<close>

lemma Irq2_index_bound: "Irq2_index src < 26"
  by (cases src) simp_all

lemma Irq2_from_index_index: "Irq2Source_from_index (Irq2_index src) = Some src"
  by (cases src) (simp_all add: Irq2Source_from_index_def)

lemma Irq2_index_inj: "Irq2_index a = Irq2_index b \<Longrightarrow> a = b"
  by (metis Irq2_from_index_index option.inject)

lemma Irq2_index_from_index: "Irq2Source_from_index n = Some src \<Longrightarrow> Irq2_index src = n"
  by (auto simp: Irq2Source_from_index_def split: if_splits)

lemma Irq2_index_surj: "n < 26 \<Longrightarrow> \<exists>src. Irq2_index src = n"
proof -
  assume "n < 26"
  then have "Irq2Source_from_index n \<noteq> None"
    by (simp add: Irq2Source_from_index_def) presburger
  then show ?thesis using Irq2_index_from_index by auto
qed

lemma bit_Irq2Source_bit: "bit (Irq2Source_bit src) n \<longleftrightarrow> n = Irq2_index src"
  using Irq2_index_bound [of src] by (auto simp: Irq2Source_bit_def bit_simps)

lemma bit_Irq2_VALID_BITS: "bit Irq2_VALID_BITS n \<longleftrightarrow> n < 26"
proof -
  have eq: "Irq2_VALID_BITS = mask 26" by (simp add: Irq2_VALID_BITS_def mask_eq_exp_minus_1)
  show ?thesis unfolding eq by (auto simp: bit_mask_iff)
qed

interpretation irq2: irq_controller irq2_status irq2_mask irq2_levels Irq2_new Irq2_request
  Irq2_set_level Irq2_acknowledge Irq2_set_mask Irq2_index 26
  by unfold_locales
    (auto simp: Irq2_index_bound Irq2_new_def Irq2_request_def Irq2_set_level_def
      Irq2_acknowledge_def Irq2_set_mask_def bit_simps bit_Irq2Source_bit bit_Irq2_VALID_BITS Let_def
      dest: Irq2_index_inj bit_imp_le_length)

lemma Irq2_apply_op: "irq2.apply_op = Irq2_apply"
proof (intro ext)
  show "irq2.apply_op s oper = Irq2_apply s oper" for s oper
    by (cases oper) (simp_all add: irq2.apply_op_def)
qed

lemma u32_trailing_zeros_least:
  assumes "bit w n" and "n < 32"
  shows "bit w (u32_trailing_zeros w)" and "u32_trailing_zeros w \<le> n"
    and "m < u32_trailing_zeros w \<Longrightarrow> \<not> bit w m"
proof -
  let ?P = "\<lambda>n. \<not> bit w n"
  let ?k = "u32_trailing_zeros w"
  have before: "\<not> bit w m" if "m < ?k" for m
  proof -
    have "takeWhile ?P [0..<32] ! m = m"
      using that length_takeWhile_le [of ?P "[0..<32]"]
      by (simp add: takeWhile_nth u32_trailing_zeros_def)
    then show ?thesis
      using that nth_mem [of m "takeWhile ?P [0..<32]"] set_takeWhileD
      by (metis u32_trailing_zeros_def)
  qed
  then show "m < ?k \<Longrightarrow> \<not> bit w m" by blast
  show le: "?k \<le> n" using before assms(1) by (meson not_le)
  then have "?k < length [0..<32]" using assms(2) by simp
  then have "\<not> ?P ([0..<32] ! ?k)"
    unfolding u32_trailing_zeros_def by (rule nth_length_takeWhile)
  then show "bit w ?k" using \<open>?k < length [0..<32]\<close> by simp
qed

section \<open>Properties\<close>

text \<open>
  The priority encoder of the IOP controller is exact in every state reachable from reset:
  it answers \<open>None\<close> only when the CPU line is low, and otherwise names the enabled latched
  source with the smallest bit number among all pending bits.
\<close>
lemma irq2_first_pending_least:
  "case Irq2_first_pending (foldl Irq2_apply Irq2_new ops) of
     None \<Rightarrow> \<not> Irq2_pending (foldl Irq2_apply Irq2_new ops)
   | Some src \<Rightarrow>
       Irq2_pending (foldl Irq2_apply Irq2_new ops) \<and>
       bit (Irq2_pending_bits (foldl Irq2_apply Irq2_new ops)) (Irq2_index src) \<and>
       Irq2_index src = (LEAST n. bit (Irq2_pending_bits (foldl Irq2_apply Irq2_new ops)) n)"
proof -
  let ?s = "foldl Irq2_apply Irq2_new ops"
  let ?b = "Irq2_pending_bits ?s"
  have inv: "irq2.invar ?s"
    using irq2.invar_run [OF irq2.invar_reset] by (simp only: Irq2_apply_op)
  show ?thesis
  proof (cases "?b = 0")
    case True
    then show ?thesis by (simp add: Irq2_first_pending_def Irq2_pending_def)
  next
    case False
    then obtain n where n: "bit ?b n" by (metis bit_0_eq bot_apply bot_bool_def bit_eqI)
    then have "n < 26" using inv by (auto simp: irq2.invar_def Irq2_pending_bits_def bit_simps)
    then have tz: "bit ?b (u32_trailing_zeros ?b)" "u32_trailing_zeros ?b < 26"
      "\<And>m. m < u32_trailing_zeros ?b \<Longrightarrow> \<not> bit ?b m"
      using u32_trailing_zeros_least [OF n] by auto
    then obtain src where src: "Irq2_index src = u32_trailing_zeros ?b"
      using Irq2_index_surj by blast
    then have "Irq2_first_pending ?s = Some src"
      using False tz(2) Irq2_from_index_index [of src]
      by (simp add: Irq2_first_pending_def Let_def try_from_n_def)
    moreover have "(LEAST n. bit ?b n) = Irq2_index src"
      using tz(1,3) src by (intro Least_equality) (auto simp: not_less [symmetric])
    ultimately show ?thesis using tz src False by (simp add: Irq2_pending_def)
  qed
qed

text \<open>
  The IOP controller too is a family of independent flip-flops, one per source: after any
  sequence of operations from reset the status bit of a source depends on that source's own
  requests and levels and on the acknowledgements only.
\<close>
lemma irq2_refines_lines:
  "line_run src (Irq2_index src) ops =
     (bit (irq2_status (foldl Irq2_apply Irq2_new ops)) (Irq2_index src),
      bit (irq2_levels (foldl Irq2_apply Irq2_new ops)) (Irq2_index src))"
  using irq2.controller_refines_lines by (simp only: Irq2_apply_op)

end
