(* ===== verification/Ps1_Timers.thy ===== *)
theory Ps1_Timers
  imports Clock Ps1_Irq
begin

text \<open>
  The PS1 root counters and the vertical-blank clock, \<open>crates/hw/ps1/timers/src/lib.rs\<close>.

  The Rust code is generic in an \<open>InterruptSink\<close>; the model takes its \<open>request\<close> as the
  argument \<open>req\<close> and threads the sink through every operation. Tick counts are \<open>u64\<close>
  values read as naturals: the loop only compares and subtracts them.
\<close>

section \<open>Constants and types\<close>

definition T1_CPU_HZ :: nat where "T1_CPU_HZ = 33868800"
definition T1_TIMER_BASE :: u32 where "T1_TIMER_BASE = 0x1f801100"
definition T1_COUNTER_STRIDE :: u32 where "T1_COUNTER_STRIDE = 0x10"
definition MODE_SYNC_ENABLE :: u16 where "MODE_SYNC_ENABLE = push_bit 0 1"
definition MODE_RESET_TARGET :: u16 where "MODE_RESET_TARGET = push_bit 3 1"
definition MODE_IRQ_TARGET :: u16 where "MODE_IRQ_TARGET = push_bit 4 1"
definition MODE_IRQ_OVERFLOW :: u16 where "MODE_IRQ_OVERFLOW = push_bit 5 1"
definition MODE_IRQ_REPEAT :: u16 where "MODE_IRQ_REPEAT = push_bit 6 1"
definition MODE_IRQ_TOGGLE :: u16 where "MODE_IRQ_TOGGLE = push_bit 7 1"
definition MODE_CLOCK_MASK :: u16 where "MODE_CLOCK_MASK = push_bit 8 3"
definition MODE_IRQ_REQUEST :: u16 where "MODE_IRQ_REQUEST = push_bit 10 1"
definition MODE_REACHED_TARGET :: u16 where "MODE_REACHED_TARGET = push_bit 11 1"
definition MODE_REACHED_OVERFLOW :: u16 where "MODE_REACHED_OVERFLOW = push_bit 12 1"
definition MODE_WRITABLE :: u16 where "MODE_WRITABLE = 0x03ff"

datatype Timer1Id = T1_Timer0 | T1_Timer1 | T1_Timer2

definition Timer1Id_ALL :: "Timer1Id list" where
  "Timer1Id_ALL = [T1_Timer0, T1_Timer1, T1_Timer2]"

fun Timer1Id_index :: "Timer1Id \<Rightarrow> nat" where
  "Timer1Id_index T1_Timer0 = 0"
| "Timer1Id_index T1_Timer1 = 1"
| "Timer1Id_index T1_Timer2 = 2"

fun Timer1Id_interrupt :: "Timer1Id \<Rightarrow> Irq1Source" where
  "Timer1Id_interrupt T1_Timer0 = Irq1_Timer0"
| "Timer1Id_interrupt T1_Timer1 = Irq1_Timer1"
| "Timer1Id_interrupt T1_Timer2 = Irq1_Timer2"

datatype Timer1Register = T1_Counter | T1_Mode | T1_Target

datatype ClockInput = ClockInput_System | ClockInput_DotClock | ClockInput_HBlank

datatype VideoStandard = Ntsc | Pal

fun VideoStandard_refresh_hz :: "VideoStandard \<Rightarrow> u64" where
  "VideoStandard_refresh_hz Ntsc = 60"
| "VideoStandard_refresh_hz Pal = 50"

definition VideoStandard_cycles_per_vblank :: "VideoStandard \<Rightarrow> u64" where
  "VideoStandard_cycles_per_vblank self = T1_CPU_HZ div VideoStandard_refresh_hz self"

fun VideoStandard_scanlines_per_frame :: "VideoStandard \<Rightarrow> u64" where
  "VideoStandard_scanlines_per_frame Ntsc = 263"
| "VideoStandard_scanlines_per_frame Pal = 314"

definition VideoStandard_hblank_hz :: "VideoStandard \<Rightarrow> u64" where
  "VideoStandard_hblank_hz self =
     VideoStandard_refresh_hz self * VideoStandard_scanlines_per_frame self"

datatype Timer1Error = Timer1Error_InvalidRegister u32 | Timer1Error_ClockOverflow

section \<open>One counter\<close>

record Counter1 =
  c1_value :: u16
  c1_target :: u16
  c1_mode :: u16
  c1_divider_remainder :: u8
  c1_irq_fired :: bool
  c1_irq_request_high :: bool
  c1_pulse_pending :: bool
  c1_blank :: bool
  c1_sync_started :: bool

definition Counter1_default :: Counter1 where
  "Counter1_default =
     \<lparr>c1_value = 0, c1_target = 0, c1_mode = 0, c1_divider_remainder = 0, c1_irq_fired = False,
      c1_irq_request_high = True, c1_pulse_pending = False, c1_blank = False,
      c1_sync_started = False\<rparr>"

definition Counter1_read_mode :: "Counter1 \<Rightarrow> u16 \<times> Counter1" where
  "Counter1_read_mode self =
     (let value = c1_mode self;
          value = (if c1_irq_request_high self then value OR MODE_IRQ_REQUEST else value);
          value = (if c1_mode self AND MODE_REACHED_TARGET \<noteq> 0 then value OR MODE_REACHED_TARGET
                   else value);
          value = (if c1_mode self AND MODE_REACHED_OVERFLOW \<noteq> 0
                   then value OR MODE_REACHED_OVERFLOW else value)
      in (value,
          self\<lparr>c1_mode := c1_mode self AND NOT (MODE_REACHED_TARGET OR MODE_REACHED_OVERFLOW)\<rparr>))"

definition Counter1_write_mode :: "Counter1 \<Rightarrow> u16 \<Rightarrow> Counter1" where
  "Counter1_write_mode self value =
     self\<lparr>c1_value := 0, c1_mode := value AND MODE_WRITABLE, c1_divider_remainder := 0,
          c1_irq_fired := False, c1_irq_request_high := True, c1_pulse_pending := False,
          c1_sync_started := False\<rparr>"

definition Counter1_clock_bits :: "Counter1 \<Rightarrow> u16" where
  "Counter1_clock_bits self = drop_bit 8 (c1_mode self AND MODE_CLOCK_MASK)"

definition Counter1_sync_mode :: "Counter1 \<Rightarrow> u16" where
  "Counter1_sync_mode self = drop_bit 1 (c1_mode self) AND 3"

text \<open>The two-bit synchronization mode leaves the source's \<open>unreachable!\<close> arm without a value.\<close>

definition Counter1_paused :: "Counter1 \<Rightarrow> Timer1Id \<Rightarrow> bool" where
  "Counter1_paused self ident =
     (if c1_mode self AND MODE_SYNC_ENABLE = 0 then False
      else if ident = T1_Timer2 then Counter1_sync_mode self \<in> {0, 3}
      else if Counter1_sync_mode self = 0 then c1_blank self
      else if Counter1_sync_mode self = 1 then False
      else if Counter1_sync_mode self = 2 then \<not> c1_blank self
      else \<not> c1_sync_started self)"

definition Counter1_set_blank :: "Counter1 \<Rightarrow> Timer1Id \<Rightarrow> bool \<Rightarrow> Counter1" where
  "Counter1_set_blank self ident asserted =
     (let rising = asserted \<and> \<not> c1_blank self;
          self = self\<lparr>c1_blank := asserted\<rparr>
      in if ident = T1_Timer2 \<or> c1_mode self AND MODE_SYNC_ENABLE = 0 \<or> \<not> rising then self
         else if Counter1_sync_mode self \<in> {1, 2} then self\<lparr>c1_value := 0\<rparr>
         else if Counter1_sync_mode self = 3 then self\<lparr>c1_sync_started := True\<rparr>
         else self)"

definition Counter1_settle_pulse :: "Counter1 \<Rightarrow> Counter1" where
  "Counter1_settle_pulse self =
     (if c1_pulse_pending self
      then self\<lparr>c1_irq_request_high := True, c1_pulse_pending := False\<rparr> else self)"

definition Counter1_fire_irq ::
    "('s \<Rightarrow> Irq1Source \<Rightarrow> 's) \<Rightarrow> Timer1Id \<Rightarrow> Counter1 \<Rightarrow> 's \<Rightarrow> Counter1 \<times> 's" where
  "Counter1_fire_irq req ident self sink =
     (if c1_mode self AND MODE_IRQ_REPEAT = 0 \<and> c1_irq_fired self then (self, sink)
      else
        let self = self\<lparr>c1_irq_fired := True\<rparr> in
        if c1_mode self AND MODE_IRQ_TOGGLE \<noteq> 0
        then let self = self\<lparr>c1_irq_request_high := \<not> c1_irq_request_high self\<rparr>
             in (self, if \<not> c1_irq_request_high self then req sink (Timer1Id_interrupt ident) else sink)
        else (self\<lparr>c1_irq_request_high := False, c1_pulse_pending := True\<rparr>,
              req sink (Timer1Id_interrupt ident)))"

text \<open>Clocks until the counter wraps, and until it reaches its target.\<close>

definition Counter1_overflow_distance :: "Counter1 \<Rightarrow> nat" where
  "Counter1_overflow_distance self = 0x10000 - unat (c1_value self)"

definition Counter1_target_distance :: "Counter1 \<Rightarrow> nat" where
  "Counter1_target_distance self =
     (let value = unat (c1_value self); target = unat (c1_target self)
      in if value < target then target - value else 0x10000 - value + target)"

definition Counter1_distance :: "Counter1 \<Rightarrow> nat" where
  "Counter1_distance self =
     min (Counter1_overflow_distance self) (Counter1_target_distance self)"

definition Counter1_move :: "Counter1 \<Rightarrow> nat \<Rightarrow> Counter1" where
  "Counter1_move self n = self\<lparr>c1_value := word_of_nat (unat (c1_value self) + n)\<rparr>"

text \<open>The body of the tick loop once an event is reached, up to its interrupt.\<close>

definition Counter1_reach ::
    "('s \<Rightarrow> Irq1Source \<Rightarrow> 's) \<Rightarrow> Timer1Id \<Rightarrow> Counter1 \<Rightarrow> 's \<Rightarrow> Counter1 \<times> 's" where
  "Counter1_reach req ident self sink =
     (let distance = Counter1_distance self;
          hit_target = (distance = Counter1_target_distance self);
          hit_overflow = (distance = Counter1_overflow_distance self);
          self = self\<lparr>c1_value := word_of_nat (take_bit 16 (unat (c1_value self) + distance))\<rparr>;
          self = (if hit_target
                  then let self = self\<lparr>c1_mode := c1_mode self OR MODE_REACHED_TARGET\<rparr>
                       in if c1_mode self AND MODE_RESET_TARGET \<noteq> 0 then self\<lparr>c1_value := 0\<rparr> else self
                  else self);
          self = (if hit_overflow then self\<lparr>c1_mode := c1_mode self OR MODE_REACHED_OVERFLOW\<rparr>
                  else self);
          irq = (hit_target \<and> c1_mode self AND MODE_IRQ_TARGET \<noteq> 0 \<or>
                 hit_overflow \<and> c1_mode self AND MODE_IRQ_OVERFLOW \<noteq> 0)
      in if irq then Counter1_fire_irq req ident self sink else (self, sink))"

lemma Counter1_distance_pos: "0 < Counter1_distance c"
proof -
  have "unat (c1_value c) < 0x10000" using unsigned_less [of "c1_value c"] by simp
  then show ?thesis
    by (simp add: Counter1_distance_def Counter1_overflow_distance_def
        Counter1_target_distance_def Let_def)
qed

function Counter1_tick_loop ::
    "('s \<Rightarrow> Irq1Source \<Rightarrow> 's) \<Rightarrow> Timer1Id \<Rightarrow> nat \<Rightarrow> Counter1 \<Rightarrow> 's \<Rightarrow> Counter1 \<times> 's" where
  "Counter1_tick_loop req ident ticks self sink =
     (if ticks = 0 then (self, sink)
      else if ticks < Counter1_distance self
      then (Counter1_move self ticks, sink)
      else
        let rest = ticks - Counter1_distance self;
            r = Counter1_reach req ident self sink
        in Counter1_tick_loop req ident rest
             (if rest \<noteq> 0 then Counter1_settle_pulse (fst r) else fst r) (snd r))"
  by pat_completeness auto
termination
  by (relation "measure (\<lambda>(req, ident, ticks, self, sink). ticks)")
    (auto simp: Counter1_distance_pos)

declare Counter1_tick_loop.simps [simp del]

definition Counter1_tick ::
    "('s \<Rightarrow> Irq1Source \<Rightarrow> 's) \<Rightarrow> Timer1Id \<Rightarrow> nat \<Rightarrow> Counter1 \<times> 's \<Rightarrow> Counter1 \<times> 's" where
  "Counter1_tick req ident ticks cs =
     (if ticks = 0 then cs
      else
        let self = Counter1_settle_pulse (fst cs) in
        if Counter1_paused self ident then (self, snd cs)
        else Counter1_tick_loop req ident ticks self (snd cs))"

section \<open>The three counters\<close>

record RootCounters =
  rc1_counters :: "Counter1 list"
  rc1_now :: Deadline

definition RootCounters_new :: RootCounters where
  "RootCounters_new =
     \<lparr>rc1_counters = [Counter1_default, Counter1_default, Counter1_default], rc1_now = 0\<rparr>"

definition RootCounters_upd :: "RootCounters \<Rightarrow> Timer1Id \<Rightarrow> Counter1 \<Rightarrow> RootCounters" where
  "RootCounters_upd self ident c = self\<lparr>rc1_counters := (rc1_counters self)[Timer1Id_index ident := c]\<rparr>"

definition RootCounters_read_register ::
    "RootCounters \<Rightarrow> Timer1Id \<Rightarrow> Timer1Register \<Rightarrow> u16 \<times> RootCounters" where
  "RootCounters_read_register self ident register =
     (let counter = rc1_counters self ! Timer1Id_index ident in
      case register of
        T1_Counter \<Rightarrow> (c1_value counter, self)
      | T1_Mode \<Rightarrow> (let (v, c) = Counter1_read_mode counter in (v, RootCounters_upd self ident c))
      | T1_Target \<Rightarrow> (c1_target counter, self))"

definition RootCounters_write_register ::
    "RootCounters \<Rightarrow> Timer1Id \<Rightarrow> Timer1Register \<Rightarrow> u16 \<Rightarrow> RootCounters" where
  "RootCounters_write_register self ident register value =
     (let counter = rc1_counters self ! Timer1Id_index ident in
      RootCounters_upd self ident
        (case register of
           T1_Counter \<Rightarrow> counter\<lparr>c1_value := value\<rparr>
         | T1_Mode \<Rightarrow> Counter1_write_mode counter value
         | T1_Target \<Rightarrow> counter\<lparr>c1_target := value\<rparr>))"

definition Timer1_decode_register :: "u32 \<Rightarrow> Timer1Error + (Timer1Id \<times> Timer1Register)" where
  "Timer1_decode_register address =
     (case checked_sub address T1_TIMER_BASE of
        None \<Rightarrow> Inl (Timer1Error_InvalidRegister address)
      | Some relative \<Rightarrow>
          let q = relative div T1_COUNTER_STRIDE; r = relative mod T1_COUNTER_STRIDE in
          case (if q = 0 then Some T1_Timer0 else if q = 1 then Some T1_Timer1
                else if q = 2 then Some T1_Timer2 else None) of
            None \<Rightarrow> Inl (Timer1Error_InvalidRegister address)
          | Some ident \<Rightarrow>
              if r = 0 then Inr (ident, T1_Counter)
              else if r = 4 then Inr (ident, T1_Mode)
              else if r = 8 then Inr (ident, T1_Target)
              else Inl (Timer1Error_InvalidRegister address))"

definition RootCounters_read :: "RootCounters \<Rightarrow> u32 \<Rightarrow> (Timer1Error + u32) \<times> RootCounters" where
  "RootCounters_read self address =
     (case Timer1_decode_register address of
        Inl e \<Rightarrow> (Inl e, self)
      | Inr (ident, register) \<Rightarrow>
          let (v, self) = RootCounters_read_register self ident register in (Inr (ucast v), self))"

definition RootCounters_write ::
    "RootCounters \<Rightarrow> u32 \<Rightarrow> u32 \<Rightarrow> (Timer1Error + unit) \<times> RootCounters" where
  "RootCounters_write self address value =
     (case Timer1_decode_register address of
        Inl e \<Rightarrow> (Inl e, self)
      | Inr (ident, register) \<Rightarrow>
          (Inr (), RootCounters_write_register self ident register
             (u16_from_le_bytes (byte_of 0 value) (byte_of 1 value))))"

text \<open>One iteration of the loop of \<open>advance_system\<close>, for one counter.\<close>

definition Counter1_system ::
    "('s \<Rightarrow> Irq1Source \<Rightarrow> 's) \<Rightarrow> Ticks \<Rightarrow> Timer1Id \<Rightarrow> Counter1 \<times> 's \<Rightarrow> Counter1 \<times> 's" where
  "Counter1_system req ticks ident cs =
     (let clock_bits = Counter1_clock_bits (fst cs) in
      if ident \<in> {T1_Timer0, T1_Timer1} \<and> clock_bits AND 1 \<noteq> 0 then cs
      else if ident = T1_Timer2 \<and> clock_bits AND 2 \<noteq> 0
      then let tot = unat (c1_divider_remainder (fst cs)) + ticks
           in Counter1_tick req ident (tot div 8)
                ((fst cs)\<lparr>c1_divider_remainder := word_of_nat (tot mod 8)\<rparr>, snd cs)
      else Counter1_tick req ident ticks cs)"

definition RootCounters_each ::
    "('s \<Rightarrow> Irq1Source \<Rightarrow> 's) \<Rightarrow> Ticks \<Rightarrow> Timer1Id \<Rightarrow> RootCounters \<times> 's \<Rightarrow> RootCounters \<times> 's" where
  "RootCounters_each req ticks ident rs =
     (let (c, sink) = Counter1_system req ticks ident
                        (rc1_counters (fst rs) ! Timer1Id_index ident, snd rs)
      in (RootCounters_upd (fst rs) ident c, sink))"

definition RootCounters_advance_system ::
    "('s \<Rightarrow> Irq1Source \<Rightarrow> 's) \<Rightarrow> RootCounters \<Rightarrow> Ticks \<Rightarrow> 's \<Rightarrow>
       (Timer1Error + unit) \<times> RootCounters \<times> 's" where
  "RootCounters_advance_system req self ticks sink =
     (case Deadline_checked_advance (rc1_now self) ticks of
        Inl _ \<Rightarrow> (Inl Timer1Error_ClockOverflow, self, sink)
      | Inr now \<Rightarrow>
          (Inr (), fold (RootCounters_each req ticks) Timer1Id_ALL (self\<lparr>rc1_now := now\<rparr>, sink)))"

text \<open>The external clocks of counters 0 and 1.\<close>

definition RootCounters_external ::
    "('s \<Rightarrow> Irq1Source \<Rightarrow> 's) \<Rightarrow> Timer1Id \<Rightarrow> RootCounters \<Rightarrow> Ticks \<Rightarrow> 's \<Rightarrow> RootCounters \<times> 's" where
  "RootCounters_external req ident self ticks sink =
     (let counter = rc1_counters self ! Timer1Id_index ident in
      if Counter1_clock_bits counter AND 1 \<noteq> 0
      then let (c, sink) = Counter1_tick req ident ticks (counter, sink)
           in (RootCounters_upd self ident c, sink)
      else (self, sink))"

definition RootCounters_advance ::
    "('s \<Rightarrow> Irq1Source \<Rightarrow> 's) \<Rightarrow> RootCounters \<Rightarrow> ClockInput \<Rightarrow> Ticks \<Rightarrow> 's \<Rightarrow>
       (Timer1Error + unit) \<times> RootCounters \<times> 's" where
  "RootCounters_advance req self input ticks sink =
     (case input of
        ClockInput_System \<Rightarrow> RootCounters_advance_system req self ticks sink
      | ClockInput_DotClock \<Rightarrow> (Inr (), RootCounters_external req T1_Timer0 self ticks sink)
      | ClockInput_HBlank \<Rightarrow> (Inr (), RootCounters_external req T1_Timer1 self ticks sink))"

definition RootCounters_set_hblank :: "RootCounters \<Rightarrow> bool \<Rightarrow> RootCounters" where
  "RootCounters_set_hblank self asserted =
     RootCounters_upd self T1_Timer0
       (Counter1_set_blank (rc1_counters self ! Timer1Id_index T1_Timer0) T1_Timer0 asserted)"

definition RootCounters_set_vblank :: "RootCounters \<Rightarrow> bool \<Rightarrow> RootCounters" where
  "RootCounters_set_vblank self asserted =
     RootCounters_upd self T1_Timer1
       (Counter1_set_blank (rc1_counters self ! Timer1Id_index T1_Timer1) T1_Timer1 asserted)"

section \<open>The vertical-blank clock\<close>

record VBlankClock =
  vb_standard :: VideoStandard
  vb_now :: Deadline
  vb_next :: Deadline

definition VBlankClock_new :: "VideoStandard \<Rightarrow> VBlankClock" where
  "VBlankClock_new standard =
     \<lparr>vb_standard = standard, vb_now = 0, vb_next = VideoStandard_cycles_per_vblank standard\<rparr>"

lemma cycles_per_vblank_pos: "0 < VideoStandard_cycles_per_vblank standard"
  by (cases standard) (simp_all add: VideoStandard_cycles_per_vblank_def T1_CPU_HZ_def)

text \<open>
  The \<open>while\<close> loop of \<open>advance\<close>: an overflow leaves the requests already made and the deadlines
  already passed behind.
\<close>

function VBlankClock_loop ::
    "('s \<Rightarrow> Irq1Source \<Rightarrow> 's) \<Rightarrow> VideoStandard \<Rightarrow> Deadline \<Rightarrow> u64 \<Rightarrow> Deadline \<Rightarrow> 's \<Rightarrow>
       (Timer1Error + u64) \<times> Deadline \<times> 's" where
  "VBlankClock_loop req standard fin events nxt sink =
     (if nxt \<le> fin then
        let sink = req sink Irq1_VBlank in
        case checked_add_n 64 events 1 of
          None \<Rightarrow> (Inl Timer1Error_ClockOverflow, nxt, sink)
        | Some events \<Rightarrow>
            (case Deadline_checked_advance nxt (VideoStandard_cycles_per_vblank standard) of
               Inl _ \<Rightarrow> (Inl Timer1Error_ClockOverflow, nxt, sink)
             | Inr nxt \<Rightarrow> VBlankClock_loop req standard fin events nxt sink)
      else (Inr events, nxt, sink))"
  by pat_completeness auto
termination
  by (relation "measure (\<lambda>(req, standard, fin, events, nxt, sink). Suc fin - nxt)")
    (auto simp: Deadline_checked_advance_def checked_add_n_def ok_or_def cycles_per_vblank_pos
      split: if_splits intro!: diff_less_mono2)

declare VBlankClock_loop.simps [simp del]

definition VBlankClock_advance ::
    "('s \<Rightarrow> Irq1Source \<Rightarrow> 's) \<Rightarrow> VBlankClock \<Rightarrow> Ticks \<Rightarrow> 's \<Rightarrow>
       (Timer1Error + u64) \<times> VBlankClock \<times> 's" where
  "VBlankClock_advance req self ticks sink =
     (case Deadline_checked_advance (vb_now self) ticks of
        Inl _ \<Rightarrow> (Inl Timer1Error_ClockOverflow, self, sink)
      | Inr fin \<Rightarrow>
          (case VBlankClock_loop req (vb_standard self) fin 0 (vb_next self) sink of
             (Inl e, nxt, sink) \<Rightarrow> (Inl e, self\<lparr>vb_next := nxt\<rparr>, sink)
           | (Inr events, nxt, sink) \<Rightarrow>
               (Inr events, self\<lparr>vb_next := nxt, vb_now := fin\<rparr>, sink)))"

section \<open>Skipping to the next event is exact\<close>

text \<open>The reference: a counter that moves one clock at a time.\<close>

definition Counter1_land ::
    "('s \<Rightarrow> Irq1Source \<Rightarrow> 's) \<Rightarrow> Timer1Id \<Rightarrow> Counter1 \<Rightarrow> 's \<Rightarrow> Counter1 \<times> 's" where
  "Counter1_land req ident self sink =
     (let v = c1_value self + 1;
          hit_target = (v = c1_target self); hit_overflow = (v = 0);
          mode = c1_mode self;
          self = self\<lparr>c1_value := (if hit_target \<and> mode AND MODE_RESET_TARGET \<noteq> 0 then 0 else v)\<rparr>;
          self = (if hit_target then self\<lparr>c1_mode := c1_mode self OR MODE_REACHED_TARGET\<rparr> else self);
          self = (if hit_overflow then self\<lparr>c1_mode := c1_mode self OR MODE_REACHED_OVERFLOW\<rparr>
                  else self)
      in if hit_target \<and> mode AND MODE_IRQ_TARGET \<noteq> 0 \<or>
            hit_overflow \<and> mode AND MODE_IRQ_OVERFLOW \<noteq> 0
         then Counter1_fire_irq req ident self sink else (self, sink))"

definition Counter1_one ::
    "('s \<Rightarrow> Irq1Source \<Rightarrow> 's) \<Rightarrow> Timer1Id \<Rightarrow> Counter1 \<times> 's \<Rightarrow> Counter1 \<times> 's" where
  "Counter1_one req ident cs =
     (let self = Counter1_settle_pulse (fst cs) in
      if Counter1_paused self ident then (self, snd cs)
      else Counter1_land req ident self (snd cs))"

lemma c1_value_bound: "unat (c1_value c) < 0x10000"
  using unsigned_less [of "c1_value c"] by simp

lemma c1_target_bound: "unat (c1_target c) < 0x10000"
  using unsigned_less [of "c1_target c"] by simp

lemmas c1_distance_defs = Counter1_distance_def Counter1_overflow_distance_def
  Counter1_target_distance_def Let_def

lemma settle_not_pending: "\<not> c1_pulse_pending (Counter1_settle_pulse c)"
  by (simp add: Counter1_settle_pulse_def)

lemma settle_idle: "\<not> c1_pulse_pending c \<Longrightarrow> Counter1_settle_pulse c = c"
  by (simp add: Counter1_settle_pulse_def)

lemma settle_twice: "Counter1_settle_pulse (Counter1_settle_pulse c) = Counter1_settle_pulse c"
  by (simp add: settle_idle settle_not_pending)

text \<open>Moving part of the way to the next event does not change that event.\<close>

lemma c1_distance_bounds:
  "Counter1_distance c \<le> 0x10000 - unat (c1_value c)"
  "Counter1_distance c \<le> Counter1_target_distance c"
  "Counter1_distance c \<le> Counter1_overflow_distance c"
  by (simp_all add: Counter1_distance_def Counter1_overflow_distance_def)

lemma unat_word16_of_nat: "n < 0x10000 \<Longrightarrow> unat (word_of_nat n :: u16) = n"
  by (simp add: unsigned_of_nat take_bit_nat_eq_self)

lemma Counter1_move_fields:
  "c1_mode (Counter1_move c k) = c1_mode c" "c1_target (Counter1_move c k) = c1_target c"
  "c1_pulse_pending (Counter1_move c k) = c1_pulse_pending c"
  "c1_value_update f (Counter1_move c k) = c1_value_update (\<lambda>_. f (c1_value (Counter1_move c k))) c"
  by (simp_all add: Counter1_move_def)

lemma unat_c1_value_move:
  assumes "k < Counter1_distance c"
  shows "unat (c1_value (Counter1_move c k)) = unat (c1_value c) + k"
proof -
  have "unat (c1_value c) + k < 0x10000"
    using assms c1_distance_bounds(1) [of c] by linarith
  then show ?thesis
    using unat_word16_of_nat [of "unat (c1_value c) + k"] by (simp add: Counter1_move_def)
qed

lemma distance_move:
  assumes "k < Counter1_distance c"
  shows "Counter1_overflow_distance (Counter1_move c k) = Counter1_overflow_distance c - k"
    and "Counter1_target_distance (Counter1_move c k) = Counter1_target_distance c - k"
    and "Counter1_distance (Counter1_move c k) = Counter1_distance c - k"
proof -
  show o: "Counter1_overflow_distance (Counter1_move c k) = Counter1_overflow_distance c - k"
    by (simp add: Counter1_overflow_distance_def unat_c1_value_move [OF assms])
  have "k < Counter1_target_distance c" using assms c1_distance_bounds(2) [of c] by linarith
  then show t: "Counter1_target_distance (Counter1_move c k) = Counter1_target_distance c - k"
    using c1_distance_bounds(1) [of c] assms
    by (auto simp: Counter1_target_distance_def unat_c1_value_move [OF assms]
        Counter1_move_fields Let_def split: if_splits)
  show "Counter1_distance (Counter1_move c k) = Counter1_distance c - k"
    unfolding Counter1_distance_def o t by (simp add: min_def diff_le_mono)
qed

lemma reach_move:
  assumes "k < Counter1_distance c"
  shows "Counter1_reach req ident (Counter1_move c k) sink = Counter1_reach req ident c sink"
proof -
  have "Counter1_distance c - k = Counter1_target_distance c - k \<longleftrightarrow>
      Counter1_distance c = Counter1_target_distance c"
    "Counter1_distance c - k = Counter1_overflow_distance c - k \<longleftrightarrow>
      Counter1_distance c = Counter1_overflow_distance c"
    using assms c1_distance_bounds [of c] by auto
  moreover have "unat (c1_value (Counter1_move c k)) + (Counter1_distance c - k) =
      unat (c1_value c) + Counter1_distance c"
    using unat_c1_value_move [OF assms] assms by simp
  ultimately show ?thesis
    unfolding Counter1_reach_def distance_move [OF assms]
    by (simp only: Let_def Counter1_move_fields)
qed

lemma move_move:
  assumes "k < Counter1_distance c"
  shows "Counter1_move (Counter1_move c k) n = Counter1_move c (k + n)"
  using unat_c1_value_move [OF assms] by (simp add: Counter1_move_def add.assoc)

lemma tick_loop_zero: "Counter1_tick_loop req ident 0 c sink = (c, sink)"
  by (simp add: Counter1_tick_loop.simps)

lemma tick_loop_add:
  assumes "0 < a" and "0 < b" and "\<not> c1_pulse_pending c"
  shows "Counter1_tick_loop req ident (a + b) c sink =
    (let (c', sink') = Counter1_tick_loop req ident a c sink
     in Counter1_tick_loop req ident b (Counter1_settle_pulse c') sink')"
  using assms
proof (induction req ident a c sink rule: Counter1_tick_loop.induct)
  case (1 req ident a c sink)
  let ?d = "Counter1_distance c"
  let ?c = "Counter1_move c a"
  show ?case
  proof (cases "a < ?d")
    case True
    have idle: "Counter1_settle_pulse ?c = ?c"
      using "1.prems"(3) by (simp add: settle_idle Counter1_move_fields)
    have "a + b - ?d = b - (?d - a)" "a + b < ?d \<longleftrightarrow> b < ?d - a" using True by auto
    then have "Counter1_tick_loop req ident (a + b) c sink = Counter1_tick_loop req ident b ?c sink"
      using True "1.prems"(1,2)
      by (simp only: Counter1_tick_loop.simps [of req ident "a + b"]
          Counter1_tick_loop.simps [of req ident b] distance_move [OF True] reach_move [OF True]
          move_move [OF True]) simp
    then show ?thesis
      using True "1.prems"(1) idle by (simp add: Counter1_tick_loop.simps [of req ident a])
  next
    case False
    let ?r = "Counter1_reach req ident c sink"
    have "a + b - ?d = (a - ?d) + b" using False by simp
    then show ?thesis
      using "1.IH" [OF _ False refl refl] "1.prems" False
      by (cases "a - ?d = 0")
        (simp_all add: Counter1_tick_loop.simps [of req ident "a + b" c]
          Counter1_tick_loop.simps [of req ident a c] tick_loop_zero settle_not_pending case_prod_beta Let_def
          del: diff_is_0_eq diff_is_0_eq')
  qed
qed


text \<open>Nothing in the loop changes what \<open>paused\<close> and the clock selection look at.\<close>

definition same_control :: "Counter1 \<Rightarrow> Counter1 \<Rightarrow> bool" where
  "same_control c d \<longleftrightarrow> c1_blank c = c1_blank d \<and> c1_sync_started c = c1_sync_started d \<and>
     c1_divider_remainder c = c1_divider_remainder d \<and>
     (\<forall>n < 11. bit (c1_mode c) n = bit (c1_mode d) n)"

lemma same_control_trans: "same_control a b \<Longrightarrow> same_control b c \<Longrightarrow> same_control a c"
  by (simp add: same_control_def)

lemma same_control_settle: "same_control c (Counter1_settle_pulse c)"
  by (simp add: same_control_def Counter1_settle_pulse_def)

lemma same_control_updates:
  "same_control c (d\<lparr>c1_value := v\<rparr>) = same_control c d"
  "same_control c (d\<lparr>c1_irq_fired := f\<rparr>) = same_control c d"
  "same_control c (d\<lparr>c1_irq_request_high := h\<rparr>) = same_control c d"
  "same_control c (d\<lparr>c1_pulse_pending := p\<rparr>) = same_control c d"
  by (simp_all add: same_control_def)

lemma same_control_reached:
  "same_control c (d\<lparr>c1_mode := c1_mode d OR MODE_REACHED_TARGET\<rparr>) = same_control c d"
  "same_control c (d\<lparr>c1_mode := c1_mode d OR MODE_REACHED_OVERFLOW\<rparr>) = same_control c d"
proof -
  have "bit MODE_REACHED_TARGET n \<longleftrightarrow> n = 11" "bit MODE_REACHED_OVERFLOW n \<longleftrightarrow> n = 12" for n
    by (simp_all only: MODE_REACHED_TARGET_def MODE_REACHED_OVERFLOW_def bit_push_one) simp_all
  then show "same_control c (d\<lparr>c1_mode := c1_mode d OR MODE_REACHED_TARGET\<rparr>) = same_control c d"
    "same_control c (d\<lparr>c1_mode := c1_mode d OR MODE_REACHED_OVERFLOW\<rparr>) = same_control c d"
    by (auto simp: same_control_def bit_or_iff)
qed

lemma same_control_fire: "same_control c d \<Longrightarrow> same_control c (fst (Counter1_fire_irq req ident d sink))"
  by (simp add: Counter1_fire_irq_def same_control_updates Let_def)

lemma same_control_reach: "same_control c (fst (Counter1_reach req ident c sink))"
proof -
  have "same_control c c" by (simp add: same_control_def)
  then show ?thesis
    unfolding Counter1_reach_def Let_def
    by (auto simp only: if_split fst_conv same_control_updates same_control_reached
        intro!: same_control_fire split: if_split)
qed

lemma same_control_loop: "same_control c (fst (Counter1_tick_loop req ident n c sink))"
proof (induction req ident n c sink rule: Counter1_tick_loop.induct)
  case (1 req ident n c sink)
  have m: "same_control c (Counter1_move c n)" by (simp add: same_control_def Counter1_move_def)
  have r: "same_control c (if b then Counter1_settle_pulse (fst (Counter1_reach req ident c sink))
      else fst (Counter1_reach req ident c sink))" for b
    by (simp add: same_control_trans [OF same_control_reach same_control_settle]
        same_control_reach)
  show ?case
    using m same_control_trans [OF r "1.IH" [OF _ _ refl refl]]
    by (simp add: Counter1_tick_loop.simps [of req ident n c] same_control_def Let_def)
qed

lemma same_control_sync_mode:
  assumes "same_control c d"
  shows "Counter1_sync_mode c = Counter1_sync_mode d"
proof (rule bit_word_eqI)
  have 3: "(3 :: u16) = mask 2" by (simp add: mask_eq_exp_minus_1)
  show "bit (Counter1_sync_mode c) n = bit (Counter1_sync_mode d) n" for n
    using assms unfolding Counter1_sync_mode_def 3
    by (cases "n < 2") (simp_all add: same_control_def bit_simps)
qed

lemma same_control_clock_bits:
  assumes "same_control c d"
  shows "Counter1_clock_bits c = Counter1_clock_bits d"
proof (rule bit_word_eqI)
  have 3: "(3 :: u16) = mask 2" by (simp add: mask_eq_exp_minus_1)
  show "bit (Counter1_clock_bits c) n = bit (Counter1_clock_bits d) n" for n
    using assms unfolding Counter1_clock_bits_def MODE_CLOCK_MASK_def 3
    by (cases "n < 2") (simp_all add: same_control_def bit_simps)
qed

lemma same_control_paused:
  assumes "same_control c d"
  shows "Counter1_paused c ident = Counter1_paused d ident"
proof -
  have "w AND MODE_SYNC_ENABLE = 0 \<longleftrightarrow> \<not> bit w 0" for w
    by (simp only: MODE_SYNC_ENABLE_def and_push_one len_gt_0)
  moreover have "bit (c1_mode c) 0 = bit (c1_mode d) 0"
    using assms by (simp add: same_control_def)
  ultimately have "(c1_mode c AND MODE_SYNC_ENABLE = 0) = (c1_mode d AND MODE_SYNC_ENABLE = 0)"
    by simp
  then show ?thesis
    using assms same_control_sync_mode [OF assms]
    by (simp add: Counter1_paused_def same_control_def)
qed

lemma tick_add:
  "Counter1_tick req ident (a + b) cs = Counter1_tick req ident b (Counter1_tick req ident a cs)"
proof (cases "a = 0 \<or> b = 0")
  case True
  then show ?thesis by (elim disjE) (simp_all add: Counter1_tick_def Let_def)
next
  case False
  let ?c = "Counter1_settle_pulse (fst cs)"
  let ?r = "Counter1_tick_loop req ident a ?c (snd cs)"
  have "Counter1_paused (Counter1_settle_pulse (fst ?r)) ident = Counter1_paused ?c ident"
    using same_control_trans [OF same_control_loop same_control_settle]
    by (rule same_control_paused [symmetric])
  then show ?thesis
    using False tick_loop_add [of a b ?c req ident "snd cs"]
    by (simp add: Counter1_tick_def settle_twice settle_not_pending case_prod_beta Let_def)
qed

interpretation tick: chunked "Counter1_tick req ident" for req ident
  by unfold_locales (simp_all add: Counter1_tick_def [of _ _ 0] tick_add)

lemma unat_c1_value_Suc: "unat (c1_value c + 1) = (unat (c1_value c) + 1) mod 0x10000"
  by (simp add: unat_word_ariths)

lemma overflow_distance_1: "Counter1_overflow_distance c = Suc 0 \<longleftrightarrow> c1_value c + 1 = 0"
proof -
  have "c1_value c + 1 = 0 \<longleftrightarrow> unat (c1_value c + 1) = 0" by (rule unat_eq_0 [symmetric])
  also have "\<dots> \<longleftrightarrow> unat (c1_value c) = 0xffff"
    unfolding unat_c1_value_Suc using c1_value_bound [of c]
    by (cases "unat (c1_value c) = 0xffff") auto
  finally show ?thesis
    using c1_value_bound [of c] by (auto simp: Counter1_overflow_distance_def)
qed

lemma target_distance_1: "Counter1_target_distance c = Suc 0 \<longleftrightarrow> c1_value c + 1 = c1_target c"
proof -
  have "c1_value c + 1 = c1_target c \<longleftrightarrow> unat (c1_value c + 1) = unat (c1_target c)"
    by (simp only: word_unat_eq_iff)
  also have "\<dots> \<longleftrightarrow> Counter1_target_distance c = Suc 0"
    unfolding unat_c1_value_Suc Counter1_target_distance_def Let_def
    using c1_value_bound [of c] c1_target_bound [of c]
    by (cases "unat (c1_value c) = 0xffff") auto
  finally show ?thesis by simp
qed

lemma c1_move_1: "c1_value (Counter1_move c 1) = c1_value c + 1"
  by (simp add: Counter1_move_def)

lemma reach_value_1: "word_of_nat (take_bit 16 (unat v + 1)) = v + 1" for v :: u16
proof -
  have "unat (word_of_nat (take_bit 16 (unat v + 1)) :: u16) = unat (v + 1)"
    by (simp add: unsigned_of_nat unat_word_ariths take_bit_eq_mod)
  then show ?thesis by (simp only: word_unat_eq_iff)
qed

lemma reached_flags_and:
  "(m OR MODE_REACHED_TARGET) AND MODE_RESET_TARGET = m AND MODE_RESET_TARGET"
  "(m OR MODE_REACHED_TARGET) AND MODE_IRQ_TARGET = m AND MODE_IRQ_TARGET"
  "(m OR MODE_REACHED_OVERFLOW) AND MODE_IRQ_TARGET = m AND MODE_IRQ_TARGET"
  "(m OR MODE_REACHED_TARGET) AND MODE_IRQ_OVERFLOW = m AND MODE_IRQ_OVERFLOW"
  "(m OR MODE_REACHED_OVERFLOW) AND MODE_IRQ_OVERFLOW = m AND MODE_IRQ_OVERFLOW"
  by (simp_all add: bit.conj_disj_distrib2 MODE_REACHED_TARGET_def MODE_REACHED_OVERFLOW_def
      MODE_RESET_TARGET_def MODE_IRQ_TARGET_def MODE_IRQ_OVERFLOW_def)

lemma c1_mode_value_commute: "c\<lparr>c1_mode := m, c1_value := v\<rparr> = c\<lparr>c1_value := v, c1_mode := m\<rparr>"
  by (cases c) simp

lemma reach_is_land:
  assumes "Counter1_distance c = 1"
  shows "Counter1_reach req ident c sink = Counter1_land req ident c sink"
proof -
  have t: "(1 = Counter1_target_distance c) = (c1_value c + 1 = c1_target c)"
    and o: "(1 = Counter1_overflow_distance c) = (c1_value c + 1 = 0)"
    using target_distance_1 [of c] overflow_distance_1 [of c] by auto
  show ?thesis
    unfolding Counter1_reach_def Counter1_land_def assms t o reach_value_1 Let_def
    by (cases "c1_value c + 1 = c1_target c"; cases "c1_value c + 1 = 0";
        cases "c1_mode c AND MODE_RESET_TARGET = 0")
      (simp_all add: reached_flags_and c1_mode_value_commute cong del: if_weak_cong)
qed

lemma move_is_land:
  assumes "1 < Counter1_distance c"
  shows "Counter1_land req ident c sink = (Counter1_move c 1, sink)"
proof -
  have "Counter1_target_distance c \<noteq> Suc 0" "Counter1_overflow_distance c \<noteq> Suc 0"
    using assms c1_distance_bounds [of c] by auto
  then show ?thesis
    by (simp add: target_distance_1 overflow_distance_1 Counter1_land_def Counter1_move_def Let_def)
qed

lemma tick_one: "Counter1_tick req ident 1 cs = Counter1_one req ident cs"
proof -
  let ?c = "Counter1_settle_pulse (fst cs)"
  have "Counter1_tick_loop req ident 1 ?c (snd cs) = Counter1_land req ident ?c (snd cs)"
  proof (cases "1 < Counter1_distance ?c")
    case True
    then show ?thesis
      by (simp add: Counter1_tick_loop.simps [of req ident "Suc 0"] move_is_land)
  next
    case False
    then have "Counter1_distance ?c = 1" using Counter1_distance_pos [of ?c] by linarith
    then show ?thesis
      by (simp add: Counter1_tick_loop.simps [of req ident "Suc 0"] tick_loop_zero reach_is_land
          Let_def)
  qed
  then show ?thesis by (simp add: Counter1_tick_def Counter1_one_def Let_def)
qed


lemma tick_funpow: "Counter1_tick req ident n cs = (Counter1_one req ident ^^ n) cs"
proof (induction n arbitrary: cs)
  case 0
  then show ?case by (simp add: tick.adv_zero)
next
  case (Suc n)
  have "Counter1_tick req ident (Suc n) cs = Counter1_tick req ident n (Counter1_one req ident cs)"
    using tick.adv_add [of req ident 1 n cs] by (simp only: tick_one plus_1_eq_Suc)
  then show ?case by (simp only: Suc.IH funpow_Suc_right comp_apply)
qed

section \<open>Sinks\<close>

text \<open>
  What the counters rely on in a sink: the order of requests does not matter. Over it, the
  three counters can be advanced in chunks although their requests interleave differently.
\<close>

definition times_request :: "('s \<Rightarrow> Irq1Source \<Rightarrow> 's) \<Rightarrow> Irq1Source \<Rightarrow> nat \<Rightarrow> 's \<Rightarrow> 's" where
  "times_request req src k = ((\<lambda>s. req s src) ^^ k)"

lemma times_request_Suc: "times_request req a (Suc k) s = times_request req a k (req s a)"
  by (simp add: times_request_def funpow_Suc_right del: funpow.simps)

lemma times_request_add:
  "times_request req a (j + k) s = times_request req a k (times_request req a j s)"
  by (simp add: times_request_def add.commute [of j] funpow_add)

definition only_requests ::
    "('s \<Rightarrow> Irq1Source \<Rightarrow> 's) \<Rightarrow> Irq1Source \<Rightarrow> ('s \<Rightarrow> 'c \<times> 's) \<Rightarrow> bool" where
  "only_requests req src f \<longleftrightarrow> (\<exists>c k. \<forall>sink. f sink = (c, times_request req src k sink))"

lemma only_requests_none: "only_requests req src (\<lambda>sink. (c, sink))"
  unfolding only_requests_def by (rule exI [of _ c], rule exI [of _ 0]) (simp add: times_request_def)

lemma only_requests_once: "only_requests req src (\<lambda>sink. (c, req sink src))"
  unfolding only_requests_def by (rule exI [of _ c], rule exI [of _ 1]) (simp add: times_request_def)

lemma only_requests_if:
  "only_requests req src f \<Longrightarrow> only_requests req src g \<Longrightarrow>
   only_requests req src (\<lambda>sink. if b then f sink else g sink)"
  by (cases b) simp_all

lemma only_requests_pair_if:
  "only_requests req src (\<lambda>sink. (c, if b then req sink src else sink))"
  by (cases b) (simp_all add: only_requests_none only_requests_once)

lemma only_requests_bind:
  assumes "only_requests req src f" and "\<And>c. only_requests req src (\<lambda>sink. g (c, sink))"
  shows "only_requests req src (\<lambda>sink. g (f sink))"
proof -
  obtain c k where f: "\<And>sink. f sink = (c, times_request req src k sink)"
    using assms(1) by (auto simp: only_requests_def)
  obtain d j where g: "\<And>sink. g (c, sink) = (d, times_request req src j sink)"
    using assms(2) [of c] by (auto simp: only_requests_def)
  have "\<forall>sink. g (f sink) = (d, times_request req src (j + k) sink)"
    by (simp add: f g times_request_def funpow_add)
  then show ?thesis unfolding only_requests_def by blast
qed

lemmas only_requests_intros = only_requests_if only_requests_none only_requests_once
  only_requests_pair_if

lemma fire_irq_sink:
  "only_requests req (Timer1Id_interrupt ident) (\<lambda>sink. Counter1_fire_irq req ident d sink)"
  unfolding Counter1_fire_irq_def Let_def by (intro only_requests_intros)

lemma one_sink:
  "only_requests req (Timer1Id_interrupt ident) (\<lambda>sink. Counter1_one req ident (c, sink))"
  unfolding Counter1_one_def Counter1_land_def Let_def fst_conv snd_conv
  by (intro only_requests_intros fire_irq_sink)

lemma tick_sink:
  "only_requests req (Timer1Id_interrupt ident) (\<lambda>sink. Counter1_tick req ident n (c, sink))"
proof (induction n)
  case 0
  show ?case by (simp add: tick_funpow only_requests_none)
next
  case (Suc n)
  show ?case
    using only_requests_bind [OF Suc.IH one_sink] by (simp add: tick_funpow)
qed

lemma system_sink:
  "only_requests req (Timer1Id_interrupt ident) (\<lambda>sink. Counter1_system req n ident (c, sink))"
  unfolding Counter1_system_def Let_def fst_conv snd_conv
  by (intro only_requests_intros tick_sink)

section \<open>The divider of counter 2\<close>

definition with_divider :: "u8 \<Rightarrow> Counter1 \<times> 's \<Rightarrow> Counter1 \<times> 's" where
  "with_divider r cs = ((fst cs)\<lparr>c1_divider_remainder := r\<rparr>, snd cs)"

lemma with_divider_twice: "with_divider r (with_divider q cs) = with_divider r cs"
  by (simp add: with_divider_def)

lemma fire_irq_divider:
  "Counter1_fire_irq req ident (c\<lparr>c1_divider_remainder := r\<rparr>) sink =
     with_divider r (Counter1_fire_irq req ident c sink)"
  by (cases c) (simp add: Counter1_fire_irq_def with_divider_def Let_def)

lemma settle_divider:
  "Counter1_settle_pulse (c\<lparr>c1_divider_remainder := r\<rparr>) =
     (Counter1_settle_pulse c)\<lparr>c1_divider_remainder := r\<rparr>"
  by (cases c) (simp add: Counter1_settle_pulse_def)

lemma paused_divider: "Counter1_paused (c\<lparr>c1_divider_remainder := r\<rparr>) ident = Counter1_paused c ident"
  by (simp add: Counter1_paused_def Counter1_sync_mode_def)

lemma divider_commute:
  "c\<lparr>c1_divider_remainder := r, c1_value := v\<rparr> = c\<lparr>c1_value := v, c1_divider_remainder := r\<rparr>"
  "c\<lparr>c1_divider_remainder := r, c1_mode := m\<rparr> = c\<lparr>c1_mode := m, c1_divider_remainder := r\<rparr>"
  by (cases c, simp)+

lemma land_divider:
  "Counter1_land req ident (c\<lparr>c1_divider_remainder := r\<rparr>) sink =
     with_divider r (Counter1_land req ident c sink)"
  unfolding Counter1_land_def Let_def
  by (simp add: divider_commute fire_irq_divider cong del: if_weak_cong) (simp add: with_divider_def)

lemma one_divider:
  "Counter1_one req ident (with_divider r cs) = with_divider r (Counter1_one req ident cs)"
  by (simp add: Counter1_one_def with_divider_def [of r cs] settle_divider paused_divider
      land_divider Let_def) (simp add: with_divider_def)

lemma tick_divider:
  "Counter1_tick req ident n (with_divider r cs) = with_divider r (Counter1_tick req ident n cs)"
  unfolding tick_funpow by (induction n) (simp_all add: one_divider)

lemma same_control_tick: "same_control (fst cs) (fst (Counter1_tick req ident n cs))"
proof -
  have "same_control (fst cs) (fst cs)" by (simp add: same_control_def)
  then show ?thesis
    by (simp add: Counter1_tick_def Let_def same_control_settle
        same_control_trans [OF same_control_settle same_control_loop])
qed

lemma clock_bits_tick: "Counter1_clock_bits (fst (Counter1_tick req ident n cs)) = Counter1_clock_bits (fst cs)"
  using same_control_tick same_control_clock_bits by metis

lemma clock_bits_divider: "Counter1_clock_bits (fst (with_divider r cs)) = Counter1_clock_bits (fst cs)"
  by (simp add: with_divider_def Counter1_clock_bits_def)

lemma unat_divider_tick:
  "unat (c1_divider_remainder (fst (Counter1_tick req ident k (with_divider (word_of_nat (n mod 8)) cs)))) = n mod 8"
proof -
  have "n mod 8 < 8" by simp
  then have "n mod 8 < 256" by linarith
  then have "unat (word_of_nat (n mod 8) :: u8) = n mod 8"
    by (simp add: unsigned_of_nat take_bit_nat_eq_self)
  then show ?thesis
    by (simp add: tick_divider) (simp add: with_divider_def)
qed

lemma system_divider:
  "Counter1_system req n ident cs =
     (if ident \<in> {T1_Timer0, T1_Timer1} \<and> Counter1_clock_bits (fst cs) AND 1 \<noteq> 0 then cs
      else if ident = T1_Timer2 \<and> Counter1_clock_bits (fst cs) AND 2 \<noteq> 0
      then Counter1_tick req ident ((unat (c1_divider_remainder (fst cs)) + n) div 8)
             (with_divider (word_of_nat ((unat (c1_divider_remainder (fst cs)) + n) mod 8)) cs)
      else Counter1_tick req ident n cs)"
  by (simp add: Counter1_system_def with_divider_def Let_def)

lemma div8_add: "(m::nat) div 8 + (m mod 8 + b) div 8 = (m + b) div 8"
proof -
  have "m + b = (m mod 8 + b) + m div 8 * 8" by simp
  then have "(m + b) div 8 = ((m mod 8 + b) + m div 8 * 8) div 8" by (rule arg_cong)
  then show ?thesis by (simp only: div_mult_self1 zero_neq_numeral not_False_eq_True)
qed

lemma system_add:
  "Counter1_system req (a + b) ident cs = Counter1_system req b ident (Counter1_system req a ident cs)"
proof (cases "ident = T1_Timer2 \<and> Counter1_clock_bits (fst cs) AND 2 \<noteq> 0")
  case True
  let ?m = "unat (c1_divider_remainder (fst cs)) + a"
  let ?r = "\<lambda>n. with_divider (word_of_nat (n mod 8))"
  have "Counter1_system req b ident (Counter1_system req a ident cs) =
      Counter1_tick req ident ((?m mod 8 + b) div 8)
        (?r (?m mod 8 + b) (Counter1_tick req ident (?m div 8) (?r ?m cs)))"
    using True
    by (simp add: system_divider clock_bits_tick clock_bits_divider unat_divider_tick)
  also have "\<dots> = Counter1_tick req ident (?m div 8 + (?m mod 8 + b) div 8) (?r (?m + b) cs)"
    by (simp add: tick_divider [symmetric] with_divider_twice tick_add mod_simps)
  also have "\<dots> = Counter1_system req (a + b) ident cs"
    using True unfolding div8_add by (simp add: system_divider add.assoc)
  finally show ?thesis by simp
next
  case False
  then show ?thesis
    by (cases ident) (simp_all add: system_divider clock_bits_tick tick_add)
qed

section \<open>All counters together\<close>

definition roots_inv :: "RootCounters \<times> 's \<Rightarrow> bool" where
  "roots_inv rs \<longleftrightarrow> length (rc1_counters (fst rs)) = 3 \<and> rc1_now (fst rs) < 2 ^ 64 \<and>
     (\<forall>c \<in> set (rc1_counters (fst rs)). unat (c1_divider_remainder c) < 8)"

definition roots_step ::
    "('s \<Rightarrow> Irq1Source \<Rightarrow> 's) \<Rightarrow> nat \<Rightarrow> RootCounters \<times> 's \<Rightarrow> (nat \<times> (RootCounters \<times> 's)) option" where
  "roots_step req n rs = (case RootCounters_advance req (fst rs) ClockInput_System n (snd rs) of
      (Inl _, _) \<Rightarrow> None
    | (Inr _, rs') \<Rightarrow> Some (0, rs'))"

lemma roots_cases:
  assumes "length (rc1_counters r) = 3"
  obtains c0 c1 c2 where "rc1_counters r = [c0, c1, c2]"
  using assms by (auto simp: numeral_3_eq_3 length_Suc_conv)

lemma each_step:
  assumes "rc1_counters r = [c0, c1, c2]"
  shows "fold (RootCounters_each req n) Timer1Id_ALL (r, sink) =
    (let (d0, sink) = Counter1_system req n T1_Timer0 (c0, sink);
         (d1, sink) = Counter1_system req n T1_Timer1 (c1, sink);
         (d2, sink) = Counter1_system req n T1_Timer2 (c2, sink)
     in (r\<lparr>rc1_counters := [d0, d1, d2]\<rparr>, sink))"
  using assms
  by (simp add: Timer1Id_ALL_def RootCounters_each_def RootCounters_upd_def case_prod_beta Let_def)

lemma roots_step_eq:
  assumes "rc1_counters r = [c0, c1, c2]"
  shows "roots_step req n (r, sink) =
    (if rc1_now r + n < 2 ^ 64
     then Some (0, let (d0, sink) = Counter1_system req n T1_Timer0 (c0, sink);
                       (d1, sink) = Counter1_system req n T1_Timer1 (c1, sink);
                       (d2, sink) = Counter1_system req n T1_Timer2 (c2, sink)
                   in (r\<lparr>rc1_now := rc1_now r + n, rc1_counters := [d0, d1, d2]\<rparr>, sink))
     else None)"
  using each_step [of "r\<lparr>rc1_now := rc1_now r + n\<rparr>" c0 c1 c2 req n sink] assms
  by (simp add: roots_step_def RootCounters_advance_def RootCounters_advance_system_def
      Deadline_checked_advance_def checked_add_n_def ok_or_def)

lemma system_zero:
  assumes "unat (c1_divider_remainder (fst cs)) < 8"
  shows "Counter1_system req 0 ident cs = cs"
  using assms by (simp add: system_divider tick.adv_zero) (simp add: with_divider_def)

lemma system_divider_bound:
  assumes "unat (c1_divider_remainder (fst cs)) < 8"
  shows "unat (c1_divider_remainder (fst (Counter1_system req n ident cs))) < 8"
  using assms same_control_tick [of cs req ident n]
  by (simp add: system_divider unat_divider_tick) (simp add: same_control_def)

locale interrupt_sink =
  fixes req :: "'s \<Rightarrow> Irq1Source \<Rightarrow> 's"
  assumes req_commute: "req (req s a) b = req (req s b) a"
begin

lemma request_times: "req (times_request req a j s) b = times_request req a j (req s b)"
proof (induction j)
  case (Suc j)
  then show ?case using req_commute [of "times_request req a j s" a b] by (simp add: times_request_def)
qed (simp add: times_request_def)

lemma times_commute:
  "times_request req a j (times_request req b k s) = times_request req b k (times_request req a j s)"
  using request_times by (induction k arbitrary: s) (simp_all add: times_request_def)

lemma roots_add:
  assumes "roots_inv rs" and "roots_step req a rs = Some (x, rs')"
    and "roots_step req b rs' = Some (y, rs'')"
  shows "roots_step req (a + b) rs = Some (x + y, rs'')"
proof -
  obtain r sink where rs: "rs = (r, sink)" by force
  with assms(1) have "length (rc1_counters r) = 3" by (simp add: roots_inv_def)
  then obtain c0 c1 c2 where c: "rc1_counters r = [c0, c1, c2]" by (rule roots_cases)
  have "\<exists>d k e j. (\<forall>s. Counter1_system req a i (c, s) = (d, times_request req (Timer1Id_interrupt i) k s)) \<and>
      (\<forall>s. Counter1_system req b i (d, s) = (e, times_request req (Timer1Id_interrupt i) j s))" for i c
    using system_sink [of req i a c] system_sink [of req i b] unfolding only_requests_def by blast
  then obtain d k e j where
    d: "\<And>i c s. Counter1_system req a i (c, s) =
          (d i c, times_request req (Timer1Id_interrupt i) (k i c) s)" and
    e: "\<And>i c s. Counter1_system req b i (d i c, s) =
          (e i c, times_request req (Timer1Id_interrupt i) (j i c) s)" by metis
  have ab: "Counter1_system req (a + b) i (c, s) =
      (e i c, times_request req (Timer1Id_interrupt i) (j i c)
                (times_request req (Timer1Id_interrupt i) (k i c) s))" for i c s
    by (simp add: system_add d e)
  show ?thesis
    using assms(2,3)
    by (auto simp: rs roots_step_eq [OF c] roots_step_eq [OF _] d e ab times_commute Let_def
        split: if_splits)
qed

end

lemma roots_step_inv:
  assumes "roots_inv rs" and "roots_step req n rs = Some (x, rs')"
  shows "roots_inv rs'"
proof -
  obtain r sink where rs: "rs = (r, sink)" by force
  with assms(1) have "length (rc1_counters r) = 3" by (simp add: roots_inv_def)
  then obtain c0 c1 c2 where c: "rc1_counters r = [c0, c1, c2]" by (rule roots_cases)
  then have "unat (c1_divider_remainder d) < 8" if "d \<in> {c0, c1, c2}" for d
    using that assms(1) by (auto simp: roots_inv_def rs)
  then have "unat (c1_divider_remainder (fst (Counter1_system req n i (d, s)))) < 8"
    if "d \<in> {c0, c1, c2}" for d s i using system_divider_bound [of "(d, s)"] that by simp
  then show ?thesis
    using assms(2)
    by (auto simp: rs roots_step_eq [OF c] roots_inv_def case_prod_beta Let_def split: if_splits)
qed

lemma roots_step_zero:
  assumes "roots_inv rs"
  shows "roots_step req 0 rs = Some (0, rs)"
proof -
  obtain r sink where rs: "rs = (r, sink)" by force
  with assms have "length (rc1_counters r) = 3" by (simp add: roots_inv_def)
  then obtain c0 c1 c2 where c: "rc1_counters r = [c0, c1, c2]" by (rule roots_cases)
  then have "Counter1_system req 0 i (d, s) = (d, s)" if "d \<in> {c0, c1, c2}" for i d s
    using that assms system_zero [of "(d, s)"] by (auto simp: roots_inv_def rs)
  then show ?thesis
    using assms c by (simp add: rs roots_step_eq [OF c] roots_inv_def)
qed

interpretation irq1_sink: interrupt_sink Irq1_request
  by unfold_locales (rule irq1.request_commute)

interpretation roots: metered "roots_step Irq1_request" roots_inv
  by unfold_locales (blast intro: roots_step_zero roots_step_inv irq1_sink.roots_add)+

section \<open>The vertical-blank clock is drift-free\<close>

definition vblank_inv :: "VBlankClock \<Rightarrow> bool" where
  "vblank_inv v \<longleftrightarrow> vb_now v < vb_next v \<and>
     vb_next v \<le> vb_now v + VideoStandard_cycles_per_vblank (vb_standard v)"

definition vblank_step ::
    "('s \<Rightarrow> Irq1Source \<Rightarrow> 's) \<Rightarrow> nat \<Rightarrow> VBlankClock \<times> 's \<Rightarrow> (nat \<times> (VBlankClock \<times> 's)) option" where
  "vblank_step req n vs = (case VBlankClock_advance req (fst vs) n (snd vs) of
      (Inl _, _) \<Rightarrow> None
    | (Inr k, vs') \<Rightarrow> Some (k, vs'))"

lemma vblank_loop_spec:
  assumes "VBlankClock_loop req std fin ev nxt sink = (Inr ev', nxt', sink')"
  shows "fin < nxt' \<and> ev \<le> ev' \<and> nxt' = nxt + (ev' - ev) * VideoStandard_cycles_per_vblank std \<and>
    sink' = times_request req Irq1_VBlank (ev' - ev) sink \<and> (nxt < 2 ^ 64 \<longrightarrow> nxt' < 2 ^ 64) \<and>
    (nxt' = nxt \<or> nxt' \<le> fin + VideoStandard_cycles_per_vblank std)"
  using assms
proof (induction req std fin ev nxt sink rule: VBlankClock_loop.induct)
  case (1 req std fin ev nxt sink)
  let ?p = "VideoStandard_cycles_per_vblank std"
  show ?case
  proof (cases "nxt \<le> fin")
    case False
    then show ?thesis
      using "1.prems" by (simp add: VBlankClock_loop.simps [of req std fin ev] times_request_def)
  next
    case True
    have ok: "Suc ev < 2 ^ 64" "nxt + ?p < 2 ^ 64"
      and rec: "VBlankClock_loop req std fin (Suc ev) (nxt + ?p) (req sink Irq1_VBlank) = (Inr ev', nxt', sink')"
      using "1.prems" True
      by (auto simp: VBlankClock_loop.simps [of req std fin ev] checked_add_n_def
          Deadline_checked_advance_def ok_or_def Let_def split: if_splits)
    have IH: "fin < nxt' \<and> Suc ev \<le> ev' \<and> nxt' = nxt + ?p + (ev' - Suc ev) * ?p \<and>
        sink' = times_request req Irq1_VBlank (ev' - Suc ev) (req sink Irq1_VBlank) \<and>
        (nxt + ?p < 2 ^ 64 \<longrightarrow> nxt' < 2 ^ 64) \<and> (nxt' = nxt + ?p \<or> nxt' \<le> fin + ?p)"
      using ok by (intro "1.IH" [OF True refl _ _ rec])
        (simp_all add: checked_add_n_def Deadline_checked_advance_def ok_or_def)
    then obtain k where "ev' = Suc ev + k" using le_Suc_ex by blast
    then show ?thesis
      using IH ok(2) True by (auto simp: times_request_Suc)
  qed
qed


lemma vblank_step_spec:
  assumes "vblank_inv v" and "vblank_step req n (v, sink) = Some (k, (v', sink'))"
  shows "vblank_inv v'" and "vb_standard v' = vb_standard v" and "vb_now v' = vb_now v + n"
    and "vb_next v' = vb_next v + k * VideoStandard_cycles_per_vblank (vb_standard v)"
    and "sink' = times_request req Irq1_VBlank k sink"
proof -
  obtain nxt where loop: "VBlankClock_loop req (vb_standard v) (vb_now v + n) 0 (vb_next v) sink = (Inr k, nxt, sink')"
    and v': "v' = v\<lparr>vb_next := nxt, vb_now := vb_now v + n\<rparr>"
    using assms(2)
    by (auto simp: vblank_step_def VBlankClock_advance_def Deadline_checked_advance_def
        checked_add_n_def ok_or_def split: sum.splits prod.splits if_splits)
  note spec = vblank_loop_spec [OF loop]
  show "vblank_inv v'" using spec assms(1) by (auto simp: vblank_inv_def v')
  show "vb_standard v' = vb_standard v" "vb_now v' = vb_now v + n"
    "vb_next v' = vb_next v + k * VideoStandard_cycles_per_vblank (vb_standard v)"
    "sink' = times_request req Irq1_VBlank k sink" using spec by (simp_all add: v')
qed

lemma vblank_run_spec:
  assumes "vblank_inv v" and "meter_run (vblank_step req) ns (v, sink) = Some (ks, (v', sink'))"
  shows "vblank_inv v' \<and> vb_standard v' = vb_standard v \<and> vb_now v' = vb_now v + sum_list ns \<and>
    vb_next v' = vb_next v + sum_list ks * VideoStandard_cycles_per_vblank (vb_standard v) \<and>
    sink' = times_request req Irq1_VBlank (sum_list ks) sink"
  using assms
proof (induction ns arbitrary: v sink ks)
  case Nil
  then show ?case by (simp add: times_request_def)
next
  case (Cons n ns)
  obtain k w t ls where step: "vblank_step req n (v, sink) = Some (k, (w, t))"
    and run: "meter_run (vblank_step req) ns (w, t) = Some (ls, (v', sink'))" and ks: "ks = k # ls"
    using Cons.prems(2) by (auto split: option.splits)
  show ?case
    using Cons.IH [OF vblank_step_spec(1) [OF Cons.prems(1) step] run]
      vblank_step_spec [OF Cons.prems(1) step]
    by (simp add: ks times_request_add algebra_simps)
qed

section \<open>Properties\<close>

text \<open>
  C5. Skipping is exact: advancing a root counter by \<open>n\<close> clocks in jumps from event to event has the
  same effect on the counter and on the interrupt sink as \<open>n\<close> single clocks of a counter that
  increments, compares with its target and its overflow, and fires. Any split of the clocks
  into chunks gives the same state.
\<close>
theorem tick_is_clock_by_clock:
  "Counter1_tick req ident (sum_list ns) cs = (Counter1_one req ident ^^ sum_list ns) cs \<and>
   fold (Counter1_tick req ident) ns cs = (Counter1_one req ident ^^ sum_list ns) cs"
  by (simp only: tick.fold_chunks tick_funpow)

text \<open>
  C6. The three root counters, driven by the system clock and requesting their interrupts from the
  interrupt controller, end in the same state however the interval is split into successful
  calls, although the requests of the three counters interleave differently.
\<close>
theorem root_counters_chunk_independent:
  assumes "length (rc1_counters r) = 3" and "rc1_now r < 2 ^ 64"
    and "\<And>c. c \<in> set (rc1_counters r) \<Longrightarrow> unat (c1_divider_remainder c) < 8"
    and "meter_run (roots_step Irq1_request) ns (r, irq) = Some (zs, r', irq')"
    and "sum_list ns < 2 ^ 64"
  shows "RootCounters_advance Irq1_request r ClockInput_System (sum_list ns) irq = (Inr (), r', irq')"
proof -
  have zero: "roots_step Irq1_request n s = Some (z, t) \<Longrightarrow> z = 0" for n z and s t :: "RootCounters \<times> Irq1Controller"
    by (simp add: roots_step_def split: prod.splits sum.splits)
  have inv: "roots_inv (r, irq)" using assms(1-3) by (simp add: roots_inv_def)
  have z: "sum_list zs = 0"
    using assms(4)
    by (induction ns arbitrary: r irq zs) (auto split: option.splits dest: zero)
  have "roots_step Irq1_request (sum_list ns) (r, irq) = Some (sum_list zs, r', irq')"
    by (rule roots.run_total [OF inv assms(4,5)]) (simp only: z, simp)
  then show ?thesis by (auto simp: roots_step_def split: prod.splits sum.splits)
qed

theorem root_counters_chunk_independent_witness:
  "RootCounters_advance Irq1_request
     (RootCounters_upd RootCounters_new T1_Timer0 (Counter1_default\<lparr>c1_target := 4, c1_mode := 0x10\<rparr>))
     ClockInput_System (sum_list [3, 3]) Irq1_new =
   (Inr (),
    \<lparr>rc1_counters = [Counter1_default\<lparr>c1_value := 6, c1_target := 4, c1_mode := 0x810, c1_irq_fired := True\<rparr>,
       Counter1_default\<lparr>c1_value := 6\<rparr>, Counter1_default\<lparr>c1_value := 6\<rparr>], rc1_now = 6\<rparr>,
    Irq1_new\<lparr>irq1_status := 0x10\<rparr>)"
proof (rule root_counters_chunk_independent)
  show "meter_run (roots_step Irq1_request) [3, 3]
     (RootCounters_upd RootCounters_new T1_Timer0 (Counter1_default\<lparr>c1_target := 4, c1_mode := 0x10\<rparr>), Irq1_new) =
     Some ([0, 0], \<lparr>rc1_counters = [Counter1_default\<lparr>c1_value := 6, c1_target := 4, c1_mode := 0x810, c1_irq_fired := True\<rparr>,
       Counter1_default\<lparr>c1_value := 6\<rparr>, Counter1_default\<lparr>c1_value := 6\<rparr>], rc1_now = 6\<rparr>,
    Irq1_new\<lparr>irq1_status := 0x10\<rparr>)"
    by (simp add: roots_step_def RootCounters_advance_def RootCounters_advance_system_def
        Deadline_checked_advance_def checked_add_n_def ok_or_def Timer1Id_ALL_def
        RootCounters_each_def RootCounters_upd_def RootCounters_new_def Counter1_system_def
        Counter1_clock_bits_def Counter1_tick_def Counter1_settle_pulse_def Counter1_paused_def
        Counter1_tick_loop.simps c1_distance_defs Counter1_move_def Counter1_reach_def
        Counter1_fire_irq_def Counter1_default_def MODE_SYNC_ENABLE_def MODE_RESET_TARGET_def
        MODE_IRQ_TARGET_def MODE_IRQ_OVERFLOW_def MODE_IRQ_REPEAT_def MODE_IRQ_TOGGLE_def
        MODE_CLOCK_MASK_def MODE_REACHED_TARGET_def MODE_REACHED_OVERFLOW_def
        Irq1_request_def Irq1Source_bit_def Irq1_new_def unsigned_of_nat take_bit_nat_def)
qed (auto simp: RootCounters_new_def RootCounters_upd_def Counter1_default_def)

text \<open>
  C7. The refresh clock does not drift: whatever way time is split into successful calls, the
  number of vertical blanks reported since reset is the elapsed time divided by the exact
  period, the next one is due at the next multiple of the period, and the sink has received
  one request per blank.
\<close>
theorem vblank_drift_free:
  assumes "meter_run (vblank_step req) ns (VBlankClock_new std, sink) = Some (ks, v', sink')"
  shows "sum_list ks = sum_list ns div VideoStandard_cycles_per_vblank std \<and>
    vb_next v' = (sum_list ks + 1) * VideoStandard_cycles_per_vblank std \<and>
    sink' = times_request req Irq1_VBlank (sum_list ks) sink"
proof -
  let ?p = "VideoStandard_cycles_per_vblank std"
  have "vblank_inv (VBlankClock_new std)"
    by (simp add: vblank_inv_def VBlankClock_new_def cycles_per_vblank_pos)
  note run = vblank_run_spec [OF this assms]
  then have nxt: "vb_next v' = (sum_list ks + 1) * ?p" and now: "vb_now v' = sum_list ns"
    and std: "vb_standard v' = std" by (simp_all add: VBlankClock_new_def)
  then have "sum_list ks * ?p \<le> sum_list ns" "sum_list ns < Suc (sum_list ks) * ?p"
    using run by (auto simp: vblank_inv_def)
  then have "sum_list ns div ?p = sum_list ks"
    using cycles_per_vblank_pos [of std] by (intro div_nat_eqI) (simp_all add: mult.commute)
  then show ?thesis using nxt run by simp
qed

theorem vblank_drift_free_witness:
  "sum_list [1, 1] = sum_list [600000, 600000] div VideoStandard_cycles_per_vblank Ntsc \<and>
   vb_next \<lparr>vb_standard = Ntsc, vb_now = 1200000, vb_next = 1693440\<rparr> =
     (sum_list [1, 1] + 1) * VideoStandard_cycles_per_vblank Ntsc \<and>
   [Irq1_VBlank, Irq1_VBlank] = times_request (\<lambda>s a. a # s) Irq1_VBlank (sum_list [1, 1]) []"
proof (rule vblank_drift_free)
  show "meter_run (vblank_step (\<lambda>s a. a # s)) [600000, 600000] (VBlankClock_new Ntsc, []) =
      Some ([1, 1], \<lparr>vb_standard = Ntsc, vb_now = 1200000, vb_next = 1693440\<rparr>, [Irq1_VBlank, Irq1_VBlank])"
    by (simp add: vblank_step_def VBlankClock_advance_def VBlankClock_new_def
        VBlankClock_loop.simps Deadline_checked_advance_def checked_add_n_def ok_or_def
        VideoStandard_cycles_per_vblank_def T1_CPU_HZ_def Let_def)
qed

end
