(* ===== verification/Ps2_Timers.thy ===== *)
theory Ps2_Timers
  imports Ps2_Irq "HOL-Library.Code_Target_Numeral"
begin

text \<open>
  The six PS2 IOP counters and the video refresh clock, \<open>crates/hw/ps2/timers/src/lib.rs\<close>.
  The interrupt sink and the timing observer are type parameters of the code: the model takes
  \<open>request\<close> and \<open>observe\<close> as the arguments \<open>req\<close> and \<open>obs\<close> and threads both states. Cycle
  counts are \<open>u64\<close> values read as naturals. The one sum that can exceed 64 bits, the prescaler's
  remainder and a cycle count within 256 of the limit, wraps as it does in a release build.
\<close>

section \<open>Constants and types\<close>

definition T2_CPU_HZ :: u64 where "T2_CPU_HZ = 36864000"
definition TIMER0_BASE :: u32 where "TIMER0_BASE = 0x1F801100"
definition TIMER1_BASE :: u32 where "TIMER1_BASE = 0x1F801110"
definition TIMER2_BASE :: u32 where "TIMER2_BASE = 0x1F801120"
definition TIMER3_BASE :: u32 where "TIMER3_BASE = 0x1F801480"
definition TIMER4_BASE :: u32 where "TIMER4_BASE = 0x1F801490"
definition TIMER5_BASE :: u32 where "TIMER5_BASE = 0x1F8014A0"
definition TIMER_REGISTER_END :: u32 where "TIMER_REGISTER_END = TIMER5_BASE + 0x0A"

definition MODE2_GATE_ENABLE :: u16 where "MODE2_GATE_ENABLE = push_bit 0 1"
definition MODE2_GATE_MODE_MASK :: u16 where "MODE2_GATE_MODE_MASK = push_bit 1 3"
definition MODE2_RESET_ON_TARGET :: u16 where "MODE2_RESET_ON_TARGET = push_bit 3 1"
definition MODE2_IRQ_ON_TARGET :: u16 where "MODE2_IRQ_ON_TARGET = push_bit 4 1"
definition MODE2_IRQ_ON_OVERFLOW :: u16 where "MODE2_IRQ_ON_OVERFLOW = push_bit 5 1"
definition MODE2_IRQ_REPEAT :: u16 where "MODE2_IRQ_REPEAT = push_bit 6 1"
definition MODE2_IRQ_TOGGLE :: u16 where "MODE2_IRQ_TOGGLE = push_bit 7 1"
definition MODE2_EXTERNAL_CLOCK :: u16 where "MODE2_EXTERNAL_CLOCK = push_bit 8 1"
definition MODE2_LOW_PRESCALE_8 :: u16 where "MODE2_LOW_PRESCALE_8 = push_bit 9 1"
definition MODE2_IRQ_REQUEST :: u16 where "MODE2_IRQ_REQUEST = push_bit 10 1"
definition MODE2_REACHED_TARGET :: u16 where "MODE2_REACHED_TARGET = push_bit 11 1"
definition MODE2_REACHED_OVERFLOW :: u16 where "MODE2_REACHED_OVERFLOW = push_bit 12 1"
definition MODE2_HIGH_PRESCALE_MASK :: u16 where "MODE2_HIGH_PRESCALE_MASK = push_bit 13 3"
definition MODE2_WRITABLE :: u16 where "MODE2_WRITABLE = 0x63FF"
definition MAX_EVENTS_PER_ADVANCE :: u64 where "MAX_EVENTS_PER_ADVANCE = 1000000"

datatype TimerId = Timer0 | Timer1 | Timer2 | Timer3 | Timer4 | Timer5

definition TimerId_ALL :: "TimerId list" where
  "TimerId_ALL = [Timer0, Timer1, Timer2, Timer3, Timer4, Timer5]"

fun TimerId_index :: "TimerId \<Rightarrow> usize" where
  "TimerId_index Timer0 = 0"
| "TimerId_index Timer1 = 1"
| "TimerId_index Timer2 = 2"
| "TimerId_index Timer3 = 3"
| "TimerId_index Timer4 = 4"
| "TimerId_index Timer5 = 5"

definition TimerId_width_mask :: "TimerId \<Rightarrow> u32" where
  "TimerId_width_mask self = (case self of
     Timer0 \<Rightarrow> 0xFFFF | Timer1 \<Rightarrow> 0xFFFF | Timer2 \<Rightarrow> 0xFFFF
   | _ \<Rightarrow> 0xFFFFFFFF)"

fun TimerId_interrupt :: "TimerId \<Rightarrow> Irq2Source" where
  "TimerId_interrupt Timer0 = Irq2_Timer0"
| "TimerId_interrupt Timer1 = Irq2_Timer1"
| "TimerId_interrupt Timer2 = Irq2_Timer2"
| "TimerId_interrupt Timer3 = Irq2_Timer3"
| "TimerId_interrupt Timer4 = Irq2_Timer4"
| "TimerId_interrupt Timer5 = Irq2_Timer5"

datatype CounterBoundary = CounterBoundary_Target | CounterBoundary_Overflow

datatype TimingEvent =
    TimingEvent_Counter TimerId CounterBoundary
  | TimingEvent_VBlankStart
  | TimingEvent_VBlankEnd

datatype Timer2Error =
    Timer2Error_InvalidRegister u32
  | Timer2Error_EventLimit TimerId u64
  | Timer2Error_RefreshOverflow

section \<open>One counter\<close>

record Counter2 =
  c2_count :: u32
  c2_mode :: u16
  c2_target :: u32
  c2_prescale_remainder :: u16
  c2_irq_fired :: bool
  c2_gate_level :: bool

definition Counter2_new :: Counter2 where
  "Counter2_new = \<lparr>c2_count = 0, c2_mode = MODE2_IRQ_REQUEST, c2_target = 0,
     c2_prescale_remainder = 0, c2_irq_fired = False, c2_gate_level = False\<rparr>"

definition Counter2_gate_mode :: "Counter2 \<Rightarrow> u16" where
  "Counter2_gate_mode self = drop_bit 1 (c2_mode self AND MODE2_GATE_MODE_MASK)"

definition Counter2_running :: "Counter2 \<Rightarrow> bool" where
  "Counter2_running self =
     (if c2_mode self AND MODE2_GATE_ENABLE = 0 then True
      else if Counter2_gate_mode self = 0 then \<not> c2_gate_level self
      else if Counter2_gate_mode self = 1 then c2_gate_level self
      else True)"

definition Counter2_set_gate :: "bool \<Rightarrow> Counter2 \<Rightarrow> Counter2" where
  "Counter2_set_gate asserted self =
     (let was_asserted = c2_gate_level self;
          self = self\<lparr>c2_gate_level := asserted\<rparr>;
          m = Counter2_gate_mode self in
      if c2_mode self AND MODE2_GATE_ENABLE = 0 \<or> was_asserted = asserted then self
      else if (m = 1 \<or> m = 2) \<and> asserted \<or> m = 3 \<and> \<not> asserted then self\<lparr>c2_count := 0\<rparr>
      else self)"

definition T2_prescale :: "TimerId \<Rightarrow> u16 \<Rightarrow> u64" where
  "T2_prescale timer mode =
     (if timer \<in> {Timer0, Timer1, Timer2}
      then (if mode AND MODE2_LOW_PRESCALE_8 \<noteq> 0 then 8 else 1)
      else
        let p = drop_bit 13 (mode AND MODE2_HIGH_PRESCALE_MASK) in
        if p = 0 then 1 else if p = 1 then 8 else if p = 2 then 16 else 256)"

text \<open>\<open>boundary\<close>, for the counter of \<open>timer\<close>, with the sink and the observer.\<close>

definition Counter2_boundary ::
    "('s \<Rightarrow> Irq2Source \<Rightarrow> 's) \<Rightarrow> ('o \<Rightarrow> TimingEvent \<Rightarrow> 'o) \<Rightarrow> TimerId \<Rightarrow> CounterBoundary \<Rightarrow>
       Counter2 \<times> 's \<times> 'o \<Rightarrow> Counter2 \<times> 's \<times> 'o" where
  "Counter2_boundary req obs timer boundary = (\<lambda>(counter, sink, observer).
     let (status, enabled) = (case boundary of
           CounterBoundary_Target \<Rightarrow> (MODE2_REACHED_TARGET, MODE2_IRQ_ON_TARGET)
         | CounterBoundary_Overflow \<Rightarrow> (MODE2_REACHED_OVERFLOW, MODE2_IRQ_ON_OVERFLOW));
         counter = counter\<lparr>c2_mode := c2_mode counter OR status\<rparr>;
         observer = obs observer (TimingEvent_Counter timer boundary) in
     if c2_mode counter AND enabled = 0
        \<or> c2_irq_fired counter \<and> c2_mode counter AND MODE2_IRQ_REPEAT = 0
     then (counter, sink, observer)
     else if c2_mode counter AND MODE2_IRQ_TOGGLE \<noteq> 0
     then
       let counter = counter\<lparr>c2_mode := c2_mode counter XOR MODE2_IRQ_REQUEST\<rparr> in
       if c2_mode counter AND MODE2_IRQ_REQUEST \<noteq> 0 then (counter, sink, observer)
       else (counter\<lparr>c2_irq_fired := True\<rparr>, req sink (TimerId_interrupt timer), observer)
     else
       (counter\<lparr>c2_mode := c2_mode counter AND NOT MODE2_IRQ_REQUEST, c2_irq_fired := True\<rparr>,
        req sink (TimerId_interrupt timer), observer))"

text \<open>What both advances do at the boundaries that were hit: the target first, then the overflow.\<close>

definition Counter2_hit ::
    "('s \<Rightarrow> Irq2Source \<Rightarrow> 's) \<Rightarrow> ('o \<Rightarrow> TimingEvent \<Rightarrow> 'o) \<Rightarrow> TimerId \<Rightarrow> bool \<Rightarrow> bool \<Rightarrow>
       Counter2 \<times> 's \<times> 'o \<Rightarrow> Counter2 \<times> 's \<times> 'o" where
  "Counter2_hit req obs timer hit_target hit_overflow st =
     (let st =
        (if hit_target then
           let st = Counter2_boundary req obs timer CounterBoundary_Target st in
           if c2_mode (fst st) AND MODE2_RESET_ON_TARGET \<noteq> 0
           then ((fst st)\<lparr>c2_count := 0\<rparr>, snd st) else st
         else st) in
      if hit_overflow then Counter2_boundary req obs timer CounterBoundary_Overflow st else st)"

definition Counter2_to_overflow :: "TimerId \<Rightarrow> Counter2 \<Rightarrow> u64" where
  "Counter2_to_overflow timer counter = unat (TimerId_width_mask timer - c2_count counter) + 1"

definition Counter2_to_target :: "TimerId \<Rightarrow> Counter2 \<Rightarrow> u64" where
  "Counter2_to_target timer counter =
     (if c2_count counter < c2_target counter then unat (c2_target counter - c2_count counter)
      else Counter2_to_overflow timer counter + unat (c2_target counter))"

lemma Counter2_to_pos: "0 < Counter2_to_overflow timer c" "0 < Counter2_to_target timer c"
proof -
  show "0 < Counter2_to_overflow timer c" by (simp add: Counter2_to_overflow_def)
  then show "0 < Counter2_to_target timer c"
    by (auto simp: Counter2_to_target_def unat_sub word_less_nat_alt word_le_nat_alt)
qed

text \<open>The loop of \<open>advance_counter\<close>, with the events it has counted.\<close>

function Counter2_loop ::
    "('s \<Rightarrow> Irq2Source \<Rightarrow> 's) \<Rightarrow> ('o \<Rightarrow> TimingEvent \<Rightarrow> 'o) \<Rightarrow> TimerId \<Rightarrow> u64 \<Rightarrow> u64 \<Rightarrow>
       Counter2 \<times> 's \<times> 'o \<Rightarrow> (Timer2Error + unit) \<times> (Counter2 \<times> 's \<times> 'o)" where
  "Counter2_loop req obs timer ticks events st =
     (if ticks = 0 then (Inr (), st)
      else
        let counter = fst st;
            to_overflow = Counter2_to_overflow timer counter;
            to_target = Counter2_to_target timer counter;
            step = min ticks (min to_overflow to_target);
            st = (counter\<lparr>c2_count := word_of_nat (unat (c2_count counter) + step)
                    AND TimerId_width_mask timer\<rparr>, snd st);
            hit_target = (step = to_target); hit_overflow = (step = to_overflow) in
        if \<not> hit_target \<and> \<not> hit_overflow then (Inr (), st)
        else
          let events = events + (if hit_target then 1 else 0) + (if hit_overflow then 1 else 0) in
          if MAX_EVENTS_PER_ADVANCE < events
          then (Inl (Timer2Error_EventLimit timer MAX_EVENTS_PER_ADVANCE), st)
          else Counter2_loop req obs timer (ticks - step) events
            (Counter2_hit req obs timer hit_target hit_overflow st))"
  by pat_completeness auto
termination
  by (relation "measure (\<lambda>(_, _, _, ticks, _, _). ticks)") (use Counter2_to_pos in \<open>auto simp: Let_def\<close>)

declare Counter2_loop.simps [simp del]

definition Counter2_advance ::
    "('s \<Rightarrow> Irq2Source \<Rightarrow> 's) \<Rightarrow> ('o \<Rightarrow> TimingEvent \<Rightarrow> 'o) \<Rightarrow> TimerId \<Rightarrow> u64 \<Rightarrow>
       Counter2 \<times> 's \<times> 'o \<Rightarrow> (Timer2Error + unit) \<times> (Counter2 \<times> 's \<times> 'o)" where
  "Counter2_advance req obs timer ticks st = Counter2_loop req obs timer ticks 0 st"

text \<open>The bodies of the two loops over the counters: any number of cycles, and a single one.\<close>

definition Counter2_system ::
    "('s \<Rightarrow> Irq2Source \<Rightarrow> 's) \<Rightarrow> ('o \<Rightarrow> TimingEvent \<Rightarrow> 'o) \<Rightarrow> u64 \<Rightarrow> TimerId \<Rightarrow>
       Counter2 \<times> 's \<times> 'o \<Rightarrow> (Timer2Error + unit) \<times> (Counter2 \<times> 's \<times> 'o)" where
  "Counter2_system req obs cycles timer st =
     (let counter = fst st in
      if c2_mode counter AND MODE2_EXTERNAL_CLOCK \<noteq> 0 \<or> \<not> Counter2_running counter
      then (Inr (), st)
      else
        let divisor = T2_prescale timer (c2_mode counter);
            total = (unat (c2_prescale_remainder counter) + cycles) mod 0x10000000000000000 in
        Counter2_advance req obs timer (total div divisor)
          (counter\<lparr>c2_prescale_remainder := word_of_nat (total mod divisor)\<rparr>, snd st))"

definition Counter2_single ::
    "('s \<Rightarrow> Irq2Source \<Rightarrow> 's) \<Rightarrow> ('o \<Rightarrow> TimingEvent \<Rightarrow> 'o) \<Rightarrow> TimerId \<Rightarrow>
       Counter2 \<times> 's \<times> 'o \<Rightarrow> Counter2 \<times> 's \<times> 'o" where
  "Counter2_single req obs timer st =
     (let counter = fst st in
      if c2_mode counter AND MODE2_EXTERNAL_CLOCK \<noteq> 0 \<or> \<not> Counter2_running counter then st
      else
        let divisor = T2_prescale timer (c2_mode counter) in
        if unat (c2_prescale_remainder counter) + 1 < divisor
        then (counter\<lparr>c2_prescale_remainder := c2_prescale_remainder counter + 1\<rparr>, snd st)
        else
          let counter = counter\<lparr>c2_prescale_remainder := 0\<rparr>;
              mask = TimerId_width_mask timer;
              hit_overflow = (c2_count counter = mask);
              count = (c2_count counter + 1) AND mask;
              hit_target = (count = c2_target counter) in
          Counter2_hit req obs timer hit_target hit_overflow (counter\<lparr>c2_count := count\<rparr>, snd st))"

section \<open>The six counters\<close>

record IopTimers =
  it_counters :: "Counter2 list"

definition IopTimers_new :: IopTimers where
  "IopTimers_new = \<lparr>it_counters = replicate 6 Counter2_new\<rparr>"

definition IopTimers_get :: "IopTimers \<Rightarrow> TimerId \<Rightarrow> Counter2" where
  "IopTimers_get self timer = it_counters self ! TimerId_index timer"

definition IopTimers_upd :: "IopTimers \<Rightarrow> TimerId \<Rightarrow> Counter2 \<Rightarrow> IopTimers" where
  "IopTimers_upd self timer c = self\<lparr>it_counters := (it_counters self)[TimerId_index timer := c]\<rparr>"

definition IopTimers_count :: "IopTimers \<Rightarrow> TimerId \<Rightarrow> u32" where
  "IopTimers_count self timer = c2_count (IopTimers_get self timer)"

definition IopTimers_target :: "IopTimers \<Rightarrow> TimerId \<Rightarrow> u32" where
  "IopTimers_target self timer = c2_target (IopTimers_get self timer)"

definition IopTimers_mode :: "IopTimers \<Rightarrow> TimerId \<Rightarrow> u16" where
  "IopTimers_mode self timer = c2_mode (IopTimers_get self timer)"

definition IopTimers_set_gate :: "IopTimers \<Rightarrow> TimerId \<Rightarrow> bool \<Rightarrow> IopTimers" where
  "IopTimers_set_gate self timer asserted =
     IopTimers_upd self timer (Counter2_set_gate asserted (IopTimers_get self timer))"

fun T2_decode_blocks :: "u32 \<Rightarrow> (TimerId \<times> u32) list \<Rightarrow> (TimerId \<times> nat \<times> nat) option" where
  "T2_decode_blocks address [] = None"
| "T2_decode_blocks address ((timer, base) # blocks) =
     (case checked_sub address base of
        Some offset \<Rightarrow>
          if offset \<in> {0, 2, 4, 6, 8, 10}
          then Some (timer, unat (offset div 4), unat ((offset AND 2) div 2))
          else T2_decode_blocks address blocks
      | None \<Rightarrow> T2_decode_blocks address blocks)"

definition T2_decode_register :: "u32 \<Rightarrow> Timer2Error + (TimerId \<times> nat \<times> nat)" where
  "T2_decode_register address =
     ok_or (T2_decode_blocks address [(Timer0, TIMER0_BASE), (Timer1, TIMER1_BASE), (Timer2, TIMER2_BASE),
        (Timer3, TIMER3_BASE), (Timer4, TIMER4_BASE), (Timer5, TIMER5_BASE)])
       (Timer2Error_InvalidRegister address)"

definition clear_reached :: "Counter2 \<Rightarrow> Counter2" where
  "clear_reached c = c\<lparr>c2_mode := c2_mode c AND NOT (MODE2_REACHED_TARGET OR MODE2_REACHED_OVERFLOW)\<rparr>"

definition IopTimers_read_u32 :: "IopTimers \<Rightarrow> u32 \<Rightarrow> (Timer2Error + u32) \<times> IopTimers" where
  "IopTimers_read_u32 self address =
     (case T2_decode_register address of
        Inl e \<Rightarrow> (Inl e, self)
      | Inr (timer, register, half) \<Rightarrow>
          let counter = IopTimers_get self timer in
          if half \<noteq> 0 then (Inl (Timer2Error_InvalidRegister address), self)
          else if register = 0 then (Inr (c2_count counter), self)
          else if register = 1
          then (Inr (ucast (c2_mode counter)), IopTimers_upd self timer (clear_reached counter))
          else (Inr (c2_target counter), self))"

definition IopTimers_write_u32 :: "IopTimers \<Rightarrow> u32 \<Rightarrow> u32 \<Rightarrow> (Timer2Error + unit) \<times> IopTimers" where
  "IopTimers_write_u32 self address value =
     (case T2_decode_register address of
        Inl e \<Rightarrow> (Inl e, self)
      | Inr (timer, register, half) \<Rightarrow>
          let counter = IopTimers_get self timer in
          if half \<noteq> 0 then (Inl (Timer2Error_InvalidRegister address), self)
          else (Inr (), IopTimers_upd self timer
            (if register = 0 then counter\<lparr>c2_count := value AND TimerId_width_mask timer\<rparr>
             else if register = 1
             then counter\<lparr>c2_mode := (ucast value AND MODE2_WRITABLE) OR MODE2_IRQ_REQUEST,
               c2_count := 0, c2_prescale_remainder := 0, c2_irq_fired := False\<rparr>
             else counter\<lparr>c2_target := value AND TimerId_width_mask timer\<rparr>)))"

definition IopTimers_read_u16 :: "IopTimers \<Rightarrow> u32 \<Rightarrow> (Timer2Error + u16) \<times> IopTimers" where
  "IopTimers_read_u16 self address =
     (case T2_decode_register address of
        Inl e \<Rightarrow> (Inl e, self)
      | Inr (timer, register, half) \<Rightarrow>
          let counter = IopTimers_get self timer;
              value = (if register = 0 then c2_count counter
                else if register = 1 then ucast (c2_mode counter) else c2_target counter);
              self = (if register = 1 \<and> half = 0
                then IopTimers_upd self timer (clear_reached counter) else self) in
          (Inr (if half = 0 then ucast value else ucast (drop_bit 16 value)), self))"

definition put_half :: "TimerId \<Rightarrow> nat \<Rightarrow> u16 \<Rightarrow> u32 \<Rightarrow> u32" where
  "put_half timer half value destination =
     (if half = 0 then (destination AND 0xFFFF0000) OR ucast value
      else if TimerId_width_mask timer = 0xFFFFFFFF
      then (destination AND 0x0000FFFF) OR push_bit 16 (ucast value)
      else destination) AND TimerId_width_mask timer"

definition IopTimers_write_u16 :: "IopTimers \<Rightarrow> u32 \<Rightarrow> u16 \<Rightarrow> (Timer2Error + unit) \<times> IopTimers" where
  "IopTimers_write_u16 self address value =
     (case T2_decode_register address of
        Inl e \<Rightarrow> (Inl e, self)
      | Inr (timer, register, half) \<Rightarrow>
          let counter = IopTimers_get self timer in
          if register = 1
          then (if half \<noteq> 0 then (Inr (), self) else IopTimers_write_u32 self address (ucast value))
          else (Inr (), IopTimers_upd self timer
            (if register = 0
             then counter\<lparr>c2_count := put_half timer half value (c2_count counter)\<rparr>
             else counter\<lparr>c2_target := put_half timer half value (c2_target counter)\<rparr>)))"

definition on_counter ::
    "TimerId \<Rightarrow> (Counter2 \<times> 'x \<Rightarrow> Counter2 \<times> 'x) \<Rightarrow> IopTimers \<times> 'x \<Rightarrow> IopTimers \<times> 'x" where
  "on_counter timer f st =
     (let (c, x) = f (IopTimers_get (fst st) timer, snd st) in (IopTimers_upd (fst st) timer c, x))"

fun advance_all ::
    "('s \<Rightarrow> Irq2Source \<Rightarrow> 's) \<Rightarrow> ('o \<Rightarrow> TimingEvent \<Rightarrow> 'o) \<Rightarrow> u64 \<Rightarrow> TimerId list \<Rightarrow>
       IopTimers \<times> 's \<times> 'o \<Rightarrow> (Timer2Error + unit) \<times> (IopTimers \<times> 's \<times> 'o)" where
  "advance_all req obs cycles [] st = (Inr (), st)"
| "advance_all req obs cycles (timer # timers) st =
     (let (r, c, x) = Counter2_system req obs cycles timer (IopTimers_get (fst st) timer, snd st);
          st = (IopTimers_upd (fst st) timer c, x) in
      case r of Inl e \<Rightarrow> (Inl e, st) | Inr _ \<Rightarrow> advance_all req obs cycles timers st)"

definition IopTimers_advance_single ::
    "('s \<Rightarrow> Irq2Source \<Rightarrow> 's) \<Rightarrow> ('o \<Rightarrow> TimingEvent \<Rightarrow> 'o) \<Rightarrow> IopTimers \<times> 's \<times> 'o \<Rightarrow>
       IopTimers \<times> 's \<times> 'o" where
  "IopTimers_advance_single req obs st =
     fold (\<lambda>timer. on_counter timer (Counter2_single req obs timer)) TimerId_ALL st"

definition IopTimers_advance_cpu ::
    "('s \<Rightarrow> Irq2Source \<Rightarrow> 's) \<Rightarrow> ('o \<Rightarrow> TimingEvent \<Rightarrow> 'o) \<Rightarrow> u64 \<Rightarrow> IopTimers \<times> 's \<times> 'o \<Rightarrow>
       (Timer2Error + unit) \<times> (IopTimers \<times> 's \<times> 'o)" where
  "IopTimers_advance_cpu req obs cycles st =
     (if cycles = 1 then (Inr (), IopTimers_advance_single req obs st)
      else advance_all req obs cycles TimerId_ALL st)"

definition IopTimers_advance_external ::
    "('s \<Rightarrow> Irq2Source \<Rightarrow> 's) \<Rightarrow> ('o \<Rightarrow> TimingEvent \<Rightarrow> 'o) \<Rightarrow> TimerId \<Rightarrow> u64 \<Rightarrow>
       IopTimers \<times> 's \<times> 'o \<Rightarrow> (Timer2Error + unit) \<times> (IopTimers \<times> 's \<times> 'o)" where
  "IopTimers_advance_external req obs timer ticks st =
     (let counter = IopTimers_get (fst st) timer in
      if c2_mode counter AND MODE2_EXTERNAL_CLOCK \<noteq> 0 \<and> Counter2_running counter
      then let (r, c, x) = Counter2_advance req obs timer ticks (counter, snd st) in
        (r, IopTimers_upd (fst st) timer c, x)
      else (Inr (), st))"

section \<open>The refresh clock\<close>

datatype Video2Standard = Video2_Ntsc | Video2_Pal

record RefreshClock =
  rf_standard :: Video2Standard
  rf_phase_units :: u64
  rf_in_vblank :: bool

definition RefreshClock_new :: "Video2Standard \<Rightarrow> RefreshClock" where
  "RefreshClock_new standard = \<lparr>rf_standard = standard, rf_phase_units = 0, rf_in_vblank = False\<rparr>"

definition refresh_rate :: "Video2Standard \<Rightarrow> u64 \<times> u64" where
  "refresh_rate standard = (case standard of Video2_Ntsc \<Rightarrow> (60000, 1001) | Video2_Pal \<Rightarrow> (50, 1))"

lemma refresh_rate_values: "snd (refresh_rate standard) = 1001 \<or> snd (refresh_rate standard) = 1"
  by (simp add: refresh_rate_def split: Video2Standard.split)

definition frame_units :: "Video2Standard \<Rightarrow> u64" where
  "frame_units standard = T2_CPU_HZ * snd (refresh_rate standard)"

definition blank_start :: "Video2Standard \<Rightarrow> u64" where
  "blank_start standard = frame_units standard - frame_units standard div 10"

definition refresh_distance :: "RefreshClock \<Rightarrow> u64" where
  "refresh_distance self =
     (if rf_in_vblank self then frame_units (rf_standard self) else blank_start (rf_standard self))
     - rf_phase_units self"

definition refresh_cross ::
    "('s \<Rightarrow> Irq2Source \<Rightarrow> 's) \<Rightarrow> ('o \<Rightarrow> TimingEvent \<Rightarrow> 'o) \<Rightarrow> RefreshClock \<times> 's \<times> 'o \<Rightarrow>
       RefreshClock \<times> 's \<times> 'o" where
  "refresh_cross req obs = (\<lambda>(self, sink, observer).
     if rf_in_vblank self
     then (self\<lparr>rf_phase_units := 0, rf_in_vblank := False\<rparr>, req sink Irq2_VBlankEnd,
       obs observer TimingEvent_VBlankEnd)
     else (self\<lparr>rf_phase_units := blank_start (rf_standard self), rf_in_vblank := True\<rparr>,
       req sink Irq2_VBlank, obs observer TimingEvent_VBlankStart))"

lemma blank_bounds: "0 < blank_start standard" "blank_start standard < frame_units standard"
  using refresh_rate_values [of standard] by (auto simp: blank_start_def frame_units_def T2_CPU_HZ_def)

lemma cross_distance [simp]: "refresh_distance (fst (refresh_cross req obs st)) \<noteq> 0"
  using blank_bounds(1) [of "rf_standard (fst st)"] blank_bounds(2) [of "rf_standard (fst st)"]
  by (cases st) (auto simp: refresh_cross_def refresh_distance_def)

lemma cross_distance_pos [simp]: "0 < refresh_distance (fst (refresh_cross req obs st))"
  using cross_distance [of req obs st] by linarith

text \<open>The loop of \<open>advance\<close> over the phase units still to add.\<close>

function refresh_loop ::
    "('s \<Rightarrow> Irq2Source \<Rightarrow> 's) \<Rightarrow> ('o \<Rightarrow> TimingEvent \<Rightarrow> 'o) \<Rightarrow> u128 \<Rightarrow> RefreshClock \<times> 's \<times> 'o \<Rightarrow>
       RefreshClock \<times> 's \<times> 'o" where
  "refresh_loop req obs remaining st =
     (if remaining = 0 then st
      else
        let distance = refresh_distance (fst st) in
        if remaining < distance
        then ((fst st)\<lparr>rf_phase_units := rf_phase_units (fst st) + remaining\<rparr>, snd st)
        else refresh_loop req obs (remaining - distance) (refresh_cross req obs st))"
  by pat_completeness auto
termination
  by (relation "inv_image (less_than <*lex*> less_than)
      (\<lambda>(_, _, remaining, st). (remaining, if refresh_distance (fst st) = 0 then 1 else 0 :: nat))")
    (auto simp del: neq0_conv)

declare refresh_loop.simps [simp del]

definition RefreshClock_advance ::
    "('s \<Rightarrow> Irq2Source \<Rightarrow> 's) \<Rightarrow> ('o \<Rightarrow> TimingEvent \<Rightarrow> 'o) \<Rightarrow> u64 \<Rightarrow> RefreshClock \<times> 's \<times> 'o \<Rightarrow>
       (Timer2Error + unit) \<times> (RefreshClock \<times> 's \<times> 'o)" where
  "RefreshClock_advance req obs cycles st =
     (case checked_mul_n 64 T2_CPU_HZ (snd (refresh_rate (rf_standard (fst st)))) of
        None \<Rightarrow> (Inl Timer2Error_RefreshOverflow, st)
      | Some _ \<Rightarrow>
          (Inr (), refresh_loop req obs (cycles * fst (refresh_rate (rf_standard (fst st)))) st))"

section \<open>A counter cycle by cycle\<close>

definition Counter2_one ::
    "('s \<Rightarrow> Irq2Source \<Rightarrow> 's) \<Rightarrow> ('o \<Rightarrow> TimingEvent \<Rightarrow> 'o) \<Rightarrow> TimerId \<Rightarrow>
       Counter2 \<times> 's \<times> 'o \<Rightarrow> Counter2 \<times> 's \<times> 'o" where
  "Counter2_one req obs timer st =
     (let count = (c2_count (fst st) + 1) AND TimerId_width_mask timer in
      Counter2_hit req obs timer (count = c2_target (fst st))
        (c2_count (fst st) = TimerId_width_mask timer) ((fst st)\<lparr>c2_count := count\<rparr>, snd st))"

definition counter_fits :: "TimerId \<Rightarrow> Counter2 \<Rightarrow> bool" where
  "counter_fits timer c \<longleftrightarrow> c2_count c AND TimerId_width_mask timer = c2_count c
     \<and> c2_target c AND TimerId_width_mask timer = c2_target c"

lemma width_mask_cases:
  "TimerId_width_mask timer = 0xFFFF \<or> TimerId_width_mask timer = 0xFFFFFFFF"
  by (simp add: TimerId_width_mask_def split: TimerId.split)

lemma width_lt: "unat (TimerId_width_mask timer) < 2 ^ 32"
  using width_mask_cases [of timer] by auto

lemma unat_and_width:
  "unat (x AND TimerId_width_mask timer) = unat x mod Suc (unat (TimerId_width_mask timer))"
proof (cases "TimerId_width_mask timer = 0xFFFF")
  case True
  have "x AND 0xFFFF = take_bit 16 x" for x :: u32
    using take_bit_eq_mask [of 16 x] by (simp add: mask_eq_exp_minus_1)
  then have "unat (x AND 0xFFFF) = unat x mod 2 ^ 16"
    by (metis take_bit_eq_mod unsigned_take_bit_eq)
  then show ?thesis by (simp add: True)
next
  case False
  then have m: "TimerId_width_mask timer = 0xFFFFFFFF" using width_mask_cases by blast
  have "x AND 0xFFFFFFFF = take_bit 32 x" for x :: u32
    using take_bit_eq_mask [of 32 x] by (simp add: mask_eq_exp_minus_1)
  moreover have "unat x < 2 ^ LENGTH(32)" by (rule unsigned_less)
  ultimately show ?thesis using take_bit_word_eq_self [of 32 x] by (simp add: m)
qed

lemma fits_iff:
  "counter_fits timer c \<longleftrightarrow> unat (c2_count c) \<le> unat (TimerId_width_mask timer)
     \<and> unat (c2_target c) \<le> unat (TimerId_width_mask timer)"
proof -
  have "x AND TimerId_width_mask timer = x \<longleftrightarrow> unat x \<le> unat (TimerId_width_mask timer)" for x
    by (metis less_Suc_eq_le mod_less mod_less_divisor unat_and_width word_unat_eq_iff zero_less_Suc)
  then show ?thesis by (simp add: counter_fits_def)
qed

lemma boundary_fields:
  "c2_count (fst (Counter2_boundary req obs timer b st)) = c2_count (fst st)"
  "c2_target (fst (Counter2_boundary req obs timer b st)) = c2_target (fst st)"
  "c2_prescale_remainder (fst (Counter2_boundary req obs timer b st)) = c2_prescale_remainder (fst st)"
  "c2_gate_level (fst (Counter2_boundary req obs timer b st)) = c2_gate_level (fst st)"
  by (auto simp: Counter2_boundary_def Let_def split: prod.split)

lemma hit_fields:
  "c2_target (fst (Counter2_hit req obs timer t ov st)) = c2_target (fst st)"
  "c2_prescale_remainder (fst (Counter2_hit req obs timer t ov st)) = c2_prescale_remainder (fst st)"
  "c2_gate_level (fst (Counter2_hit req obs timer t ov st)) = c2_gate_level (fst st)"
  "c2_count (fst (Counter2_hit req obs timer t ov st)) \<in> {0, c2_count (fst st)}"
  by (auto simp: Counter2_hit_def Let_def boundary_fields)

text \<open>The mode bits a boundary never touches: gate, clock and prescaler.\<close>

definition same_mode :: "u16 \<Rightarrow> u16 \<Rightarrow> bool" where
  "same_mode m n \<longleftrightarrow> m AND NOT 0x1C00 = n AND NOT 0x1C00"

lemma same_mode_refl [simp]: "same_mode m m" by (simp add: same_mode_def)

lemma same_mode_trans: "same_mode a b \<Longrightarrow> same_mode b c \<Longrightarrow> same_mode a c"
  by (simp add: same_mode_def)

lemma same_mode_bits:
  assumes "same_mode m n" and "b AND 0x1C00 = 0"
  shows "m AND b = n AND b"
proof -
  have "b = (b AND 0x1C00) OR (b AND NOT 0x1C00)" by (simp flip: bit.conj_disj_distrib)
  then have "NOT 0x1C00 AND b = b" using assms(2) by (simp add: and.commute)
  then have "x AND b = (x AND NOT 0x1C00) AND b" for x by (simp add: and.assoc)
  then show ?thesis using assms(1) unfolding same_mode_def by metis
qed

lemma same_mode_steps:
  "same_mode m (m OR MODE2_REACHED_TARGET)" "same_mode m (m OR MODE2_REACHED_OVERFLOW)"
  "same_mode m (m XOR MODE2_IRQ_REQUEST)" "same_mode m (m AND NOT MODE2_IRQ_REQUEST)"
proof -
  have b: "MODE2_REACHED_TARGET AND NOT 0x1C00 = 0" "MODE2_REACHED_OVERFLOW AND NOT 0x1C00 = 0"
    "MODE2_IRQ_REQUEST AND NOT 0x1C00 = 0"
    by (simp_all add: MODE2_REACHED_TARGET_def MODE2_REACHED_OVERFLOW_def MODE2_IRQ_REQUEST_def)
  show "same_mode m (m OR MODE2_REACHED_TARGET)" "same_mode m (m OR MODE2_REACHED_OVERFLOW)"
    "same_mode m (m XOR MODE2_IRQ_REQUEST)"
    using b by (simp_all add: same_mode_def word_ao_dist bit.conj_xor_distrib2)
  have "NOT MODE2_IRQ_REQUEST AND NOT 0x1C00 = NOT (0x1C00 :: u16)"
    by (simp add: MODE2_IRQ_REQUEST_def)
  then show "same_mode m (m AND NOT MODE2_IRQ_REQUEST)"
    by (simp add: same_mode_def and.assoc)
qed

lemma boundary_mode: "same_mode (c2_mode (fst st)) (c2_mode (fst (Counter2_boundary req obs timer b st)))"
proof -
  have "same_mode m ((m OR s) XOR MODE2_IRQ_REQUEST)" "same_mode m ((m OR s) AND NOT MODE2_IRQ_REQUEST)"
    if "same_mode m (m OR s)" for m s :: u16
    using that same_mode_steps(3,4) same_mode_trans by blast+
  then show ?thesis
    using same_mode_steps by (cases b) (auto simp: Counter2_boundary_def Let_def split: prod.split)
qed

lemma hit_mode: "same_mode (c2_mode (fst st)) (c2_mode (fst (Counter2_hit req obs timer t ov st)))"
proof -
  define st1 where "st1 = (if t then
     let st = Counter2_boundary req obs timer CounterBoundary_Target st in
     if c2_mode (fst st) AND MODE2_RESET_ON_TARGET \<noteq> 0 then ((fst st)\<lparr>c2_count := 0\<rparr>, snd st) else st
   else st)"
  have "same_mode (c2_mode (fst st)) (c2_mode (fst st1))"
    using boundary_mode [of st req obs timer CounterBoundary_Target] by (simp add: st1_def Let_def)
  moreover have "Counter2_hit req obs timer t ov st =
      (if ov then Counter2_boundary req obs timer CounterBoundary_Overflow st1 else st1)"
    by (simp add: Counter2_hit_def st1_def)
  ultimately show ?thesis
    using same_mode_trans [OF _ boundary_mode [of st1 req obs timer CounterBoundary_Overflow]] by simp
qed

lemma one_keeps:
  "c2_target (fst (Counter2_one req obs timer st)) = c2_target (fst st)"
  "c2_prescale_remainder (fst (Counter2_one req obs timer st)) = c2_prescale_remainder (fst st)"
  "c2_gate_level (fst (Counter2_one req obs timer st)) = c2_gate_level (fst st)"
  "same_mode (c2_mode (fst st)) (c2_mode (fst (Counter2_one req obs timer st)))"
  "counter_fits timer (fst st) \<Longrightarrow> counter_fits timer (fst (Counter2_one req obs timer st))"
proof -
  let ?c = "(c2_count (fst st) + 1) AND TimerId_width_mask timer"
  show "same_mode (c2_mode (fst st)) (c2_mode (fst (Counter2_one req obs timer st)))"
    using hit_mode [of "((fst st)\<lparr>c2_count := ?c\<rparr>, snd st)"] by (simp add: Counter2_one_def Let_def)
  have "c2_count (fst (Counter2_one req obs timer st)) \<in> {0, ?c}"
    using hit_fields(4) [of req obs timer _ _ "((fst st)\<lparr>c2_count := ?c\<rparr>, snd st)"]
    by (simp add: Counter2_one_def Let_def)
  then show "counter_fits timer (fst st) \<Longrightarrow> counter_fits timer (fst (Counter2_one req obs timer st))"
    by (auto simp: counter_fits_def and.assoc Counter2_one_def Let_def hit_fields)
qed (simp_all add: Counter2_one_def Let_def hit_fields)

lemma quiet:
  assumes "counter_fits timer c" and "k < Counter2_to_overflow timer c" and "k < Counter2_to_target timer c"
  shows "(Counter2_one req obs timer ^^ k) (c, x) = (c\<lparr>c2_count := c2_count c + of_nat k\<rparr>, x)
    \<and> unat (c2_count c + of_nat k) = unat (c2_count c) + k
    \<and> unat (c2_count c) + k \<le> unat (TimerId_width_mask timer)"
  using assms
proof (induction k)
  case 0
  then show ?case by (simp add: fits_iff)
next
  case (Suc k)
  let ?m = "TimerId_width_mask timer"
  let ?v = "c2_count c + of_nat k"
  have ih: "(Counter2_one req obs timer ^^ k) (c, x) = (c\<lparr>c2_count := ?v\<rparr>, x)"
    "unat ?v = unat (c2_count c) + k"
    using Suc by simp_all
  have le: "c2_count c \<le> ?m" using Suc.prems(1) by (simp add: fits_iff word_le_nat_alt)
  have room: "unat (c2_count c) + Suc k \<le> unat ?m"
    using Suc.prems(2) le by (simp add: Counter2_to_overflow_def unat_sub word_le_nat_alt)
  have "unat ?m < 2 ^ 32" using unsigned_less [of ?m] by simp
  then have "unat (c2_count c + of_nat (Suc k)) = unat (c2_count c) + Suc k"
    using room by (simp add: unat_word_ariths unsigned_of_nat take_bit_nat_eq_self mod_less del: of_nat_Suc)
  then have next': "unat (?v + 1) = unat (c2_count c) + Suc k" by (simp add: ac_simps)
  have stay: "(?v + 1) AND ?m = ?v + 1"
    using unat_and_width [of "?v + 1" timer] next' room
    by (metis less_Suc_eq_le mod_less word_unat_eq_iff)
  have "?v \<noteq> ?m" using ih(2) room by auto
  moreover have "?v + 1 \<noteq> c2_target c"
  proof
    assume "?v + 1 = c2_target c"
    then have "unat (c2_target c) = unat (c2_count c) + Suc k" using next' by simp
    then show False using Suc.prems(3)
      by (simp add: Counter2_to_target_def word_less_nat_alt unat_sub word_le_nat_alt split: if_splits)
  qed
  ultimately have "Counter2_one req obs timer (c\<lparr>c2_count := ?v\<rparr>, x) = (c\<lparr>c2_count := ?v + 1\<rparr>, x)"
    by (simp add: Counter2_one_def Let_def stay Counter2_hit_def)
  then show ?case using ih room next' by (simp add: ac_simps)
qed

lemma at_distance:
  assumes "counter_fits timer c" and d: "d = min (Counter2_to_overflow timer c) (Counter2_to_target timer c)"
  shows "(Counter2_one req obs timer ^^ d) (c, x) =
    Counter2_hit req obs timer (d = Counter2_to_target timer c) (d = Counter2_to_overflow timer c)
      (c\<lparr>c2_count := word_of_nat (unat (c2_count c) + d) AND TimerId_width_mask timer\<rparr>, x)"
proof -
  let ?m = "TimerId_width_mask timer"
  have "0 < d" using Counter2_to_pos [of timer c] by (simp add: d)
  then obtain k where k: "d = Suc k" using gr0_implies_Suc by blast
  let ?v = "c2_count c + of_nat k"
  have run: "(Counter2_one req obs timer ^^ k) (c, x) = (c\<lparr>c2_count := ?v\<rparr>, x)"
    and v: "unat ?v = unat (c2_count c) + k" and vm: "unat ?v \<le> unat ?m"
    using quiet [OF assms(1), of k req obs x] d k by auto
  have count: "word_of_nat (unat (c2_count c) + d) = ?v + 1" by (simp add: k ac_simps)
  have le: "c2_count c \<le> ?m" using assms(1) by (simp add: fits_iff word_le_nat_alt)
  then have to_ov: "Counter2_to_overflow timer c = unat ?m - unat (c2_count c) + 1"
    by (simp add: Counter2_to_overflow_def unat_sub)
  have to_tg: "Counter2_to_target timer c = (if unat (c2_count c) < unat (c2_target c)
      then unat (c2_target c) - unat (c2_count c) else unat ?m - unat (c2_count c) + 1 + unat (c2_target c))"
    unfolding Counter2_to_target_def to_ov by (simp add: word_less_nat_alt unat_sub word_le_nat_alt)
  have ov: "?v = ?m \<longleftrightarrow> d = Counter2_to_overflow timer c"
    using v le vm by (auto simp: to_ov k word_unat_eq_iff word_le_nat_alt)
  have land: "unat ((?v + 1) AND ?m) = (if ?v = ?m then 0 else unat ?v + 1)"
  proof (cases "?v = ?m")
    case True
    have "unat (?m + 1) mod Suc (unat ?m) = 0"
      using width_mask_cases [of timer] by auto
    then show ?thesis using unat_and_width [of "?v + 1" timer] True by simp
  next
    case False
    then have lt: "unat ?v < unat ?m" using vm by (metis le_neq_implies_less word_unat_eq_iff)
    then have "unat (?v + 1) = unat ?v + 1"
      using width_lt [of timer] by (simp add: unat_word_ariths)
    then show ?thesis using unat_and_width [of "?v + 1" timer] lt False by simp
  qed
  have "unat ((?v + 1) AND ?m) = unat (c2_target c) \<longleftrightarrow> d = Counter2_to_target timer c"
    unfolding land ov using assms(1) d v vm unfolding fits_iff to_tg to_ov k by (auto split: if_splits)
  then have tg: "(?v + 1) AND ?m = c2_target c \<longleftrightarrow> d = Counter2_to_target timer c"
    by (simp add: word_unat_eq_iff)
  show ?thesis
    unfolding count k funpow.simps comp_apply run
    using ov tg unfolding k by (simp add: Counter2_one_def Let_def add.commute)
qed

lemma one_funpow_fits: "counter_fits timer (fst st) \<Longrightarrow> counter_fits timer (fst ((Counter2_one req obs timer ^^ k) st))"
  by (induction k) (simp_all add: one_keeps)

lemma loop_is_one:
  assumes "counter_fits timer (fst st)" and "Counter2_loop req obs timer ticks events st = (Inr (), st')"
  shows "st' = (Counter2_one req obs timer ^^ ticks) st"
  using assms
proof (induction ticks arbitrary: events st rule: less_induct)
  case (less ticks)
  obtain c x where st: "st = (c, x)" by (cases st)
  let ?ov = "Counter2_to_overflow timer c" and ?tg = "Counter2_to_target timer c"
  let ?d = "min ?ov ?tg"
  have fit: "counter_fits timer c" using less.prems(1) by (simp add: st)
  show ?case
  proof (cases "ticks < ?d")
    case True
    have step: "min ticks ?d = ticks" using True by simp
    have q: "(Counter2_one req obs timer ^^ ticks) (c, x) = (c\<lparr>c2_count := c2_count c + of_nat ticks\<rparr>, x)"
      "unat (c2_count c + of_nat ticks) = unat (c2_count c) + ticks"
      "unat (c2_count c) + ticks \<le> unat (TimerId_width_mask timer)"
      using quiet [OF fit, of ticks req obs x] True by auto
    have "(c2_count c + of_nat ticks) AND TimerId_width_mask timer = c2_count c + of_nat ticks"
      using q(2,3) unat_and_width [of "c2_count c + of_nat ticks" timer]
      by (metis le_imp_less_Suc mod_less word_unat_eq_iff)
    then have "Counter2_loop req obs timer ticks events (c, x)
        = (Inr (), (c\<lparr>c2_count := c2_count c + of_nat ticks\<rparr>, x))"
      using True by (subst Counter2_loop.simps) (auto simp: Let_def step)
    then show ?thesis using less.prems(2) q(1) by (simp add: st)
  next
    case False
    then have step: "min ticks ?d = ?d" by linarith
    let ?st = "(c\<lparr>c2_count := word_of_nat (unat (c2_count c) + ?d) AND TimerId_width_mask timer\<rparr>, x)"
    let ?hit = "Counter2_hit req obs timer (?d = ?tg) (?d = ?ov) ?st"
    let ?n = "events + (if ?d = ?tg then 1 else 0) + (if ?d = ?ov then 1 else 0)"
    have pos: "0 < ?d" using Counter2_to_pos [of timer c] by simp
    then have ticks: "ticks \<noteq> 0" using False by linarith
    have hits: "\<not> (\<not> ?d = ?tg \<and> \<not> ?d = ?ov)" by linarith
    have loop: "Counter2_loop req obs timer ticks events (c, x) =
        (if MAX_EVENTS_PER_ADVANCE < ?n then (Inl (Timer2Error_EventLimit timer MAX_EVENTS_PER_ADVANCE), ?st)
         else Counter2_loop req obs timer (ticks - ?d) ?n ?hit)"
      using ticks hits by (subst Counter2_loop.simps) (simp only: Let_def step fst_conv snd_conv if_False if_True)
    then have small: "\<not> MAX_EVENTS_PER_ADVANCE < ?n"
      and rest: "Counter2_loop req obs timer (ticks - ?d) ?n ?hit = (Inr (), st')"
      using less.prems(2) by (auto simp: st split: if_splits)
    have hit: "?hit = (Counter2_one req obs timer ^^ ?d) (c, x)"
      by (rule at_distance [OF fit refl, symmetric])
    have less: "ticks - ?d < ticks" using pos ticks by linarith
    have "counter_fits timer (fst ?hit)" unfolding hit by (rule one_funpow_fits) (simp add: fit)
    then have "st' = (Counter2_one req obs timer ^^ (ticks - ?d)) ?hit"
      by (rule less.IH [OF less _ rest])
    also have "\<dots> = (Counter2_one req obs timer ^^ (ticks - ?d + ?d)) (c, x)"
      unfolding hit by (simp only: funpow_add comp_apply)
    finally show ?thesis using False by (simp add: st)
  qed
qed

section \<open>The prescaler\<close>

definition with_remainder :: "u16 \<Rightarrow> Counter2 \<times> 'x \<Rightarrow> Counter2 \<times> 'x" where
  "with_remainder r st = ((fst st)\<lparr>c2_prescale_remainder := r\<rparr>, snd st)"

lemma boundary_remainder:
  "Counter2_boundary req obs timer b (with_remainder r st)
     = with_remainder r (Counter2_boundary req obs timer b st)"
  by (cases st; cases "fst st"; cases b) (auto simp: Counter2_boundary_def with_remainder_def Let_def)

lemma hit_remainder:
  "Counter2_hit req obs timer t ov (with_remainder r st) = with_remainder r (Counter2_hit req obs timer t ov st)"
proof -
  have reset: "((fst (with_remainder r st))\<lparr>c2_count := 0\<rparr>, snd (with_remainder r st))
      = with_remainder r ((fst st)\<lparr>c2_count := 0\<rparr>, snd st)" for st :: "Counter2 \<times> 'a \<times> 'b"
    by (cases "fst st") (simp add: with_remainder_def)
  have mode: "c2_mode (fst (with_remainder r st)) = c2_mode (fst st)" for st :: "Counter2 \<times> 'a \<times> 'b"
    by (simp add: with_remainder_def)
  show ?thesis unfolding Counter2_hit_def Let_def boundary_remainder reset mode
    by (simp add: boundary_remainder if_distrib [of "with_remainder r"] cong: if_cong)
qed

lemma one_remainder:
  "Counter2_one req obs timer (with_remainder r st) = with_remainder r (Counter2_one req obs timer st)"
proof -
  have "((fst (with_remainder r st))\<lparr>c2_count := v\<rparr>, snd (with_remainder r st))
      = with_remainder r ((fst st)\<lparr>c2_count := v\<rparr>, snd st)" for v
    by (cases "fst st") (simp add: with_remainder_def)
  moreover have "c2_count (fst (with_remainder r st)) = c2_count (fst st)"
    "c2_target (fst (with_remainder r st)) = c2_target (fst st)" by (simp_all add: with_remainder_def)
  ultimately show ?thesis unfolding Counter2_one_def Let_def by (simp add: hit_remainder)
qed

lemma one_funpow_remainder:
  "(Counter2_one req obs timer ^^ k) (with_remainder r st)
     = with_remainder r ((Counter2_one req obs timer ^^ k) st)"
  by (induction k) (simp_all add: one_remainder)

lemma with_remainder_simps [simp]:
  "with_remainder r (with_remainder q st) = with_remainder r st"
  "c2_prescale_remainder (fst (with_remainder r st)) = r"
  "c2_mode (fst (with_remainder r st)) = c2_mode (fst st)"
  "c2_gate_level (fst (with_remainder r st)) = c2_gate_level (fst st)"
  "counter_fits timer (fst (with_remainder r st)) = counter_fits timer (fst st)"
  by (simp_all add: with_remainder_def counter_fits_def)

lemma prescale_bounds: "0 < T2_prescale timer m" "T2_prescale timer m \<le> 256"
  by (simp_all add: T2_prescale_def Let_def)

definition same_control2 :: "Counter2 \<Rightarrow> Counter2 \<Rightarrow> bool" where
  "same_control2 c d \<longleftrightarrow> same_mode (c2_mode c) (c2_mode d) \<and> c2_gate_level c = c2_gate_level d"

lemma same_control2_laws:
  assumes "same_control2 c d"
  shows "T2_prescale timer (c2_mode d) = T2_prescale timer (c2_mode c)"
    and "Counter2_running d = Counter2_running c"
    and "c2_mode d AND MODE2_EXTERNAL_CLOCK = c2_mode c AND MODE2_EXTERNAL_CLOCK"
proof -
  have m: "same_mode (c2_mode d) (c2_mode c)" and g: "c2_gate_level d = c2_gate_level c"
    using assms by (simp_all add: same_control2_def same_mode_def)
  have bits: "c2_mode d AND MODE2_LOW_PRESCALE_8 = c2_mode c AND MODE2_LOW_PRESCALE_8"
    "c2_mode d AND MODE2_HIGH_PRESCALE_MASK = c2_mode c AND MODE2_HIGH_PRESCALE_MASK"
    "c2_mode d AND MODE2_GATE_ENABLE = c2_mode c AND MODE2_GATE_ENABLE"
    "c2_mode d AND MODE2_GATE_MODE_MASK = c2_mode c AND MODE2_GATE_MODE_MASK"
    "c2_mode d AND MODE2_EXTERNAL_CLOCK = c2_mode c AND MODE2_EXTERNAL_CLOCK"
    by (rule same_mode_bits [OF m], simp add: MODE2_LOW_PRESCALE_8_def MODE2_HIGH_PRESCALE_MASK_def
        MODE2_GATE_ENABLE_def MODE2_GATE_MODE_MASK_def MODE2_EXTERNAL_CLOCK_def)+
  then show "T2_prescale timer (c2_mode d) = T2_prescale timer (c2_mode c)"
    and "Counter2_running d = Counter2_running c"
    and "c2_mode d AND MODE2_EXTERNAL_CLOCK = c2_mode c AND MODE2_EXTERNAL_CLOCK"
    by (simp_all add: T2_prescale_def Counter2_running_def Counter2_gate_mode_def g)
qed

lemma one_control: "same_control2 (fst st) (fst ((Counter2_one req obs timer ^^ k) st))"
proof (induction k)
  case (Suc k)
  then show ?case
    using one_keeps(3,4) [where req = req and obs = obs and timer = timer
          and st = "(Counter2_one req obs timer ^^ k) st"] same_mode_trans
    by (auto simp: same_control2_def)
qed (simp add: same_control2_def)

text \<open>A counter between two operations: its registers fit its width, its prescaler has not run over.\<close>

definition counter_ok :: "TimerId \<Rightarrow> Counter2 \<Rightarrow> bool" where
  "counter_ok timer c \<longleftrightarrow> counter_fits timer c \<and> unat (c2_prescale_remainder c) < T2_prescale timer (c2_mode c)"

definition counter_stopped :: "Counter2 \<Rightarrow> bool" where
  "counter_stopped c \<longleftrightarrow> c2_mode c AND MODE2_EXTERNAL_CLOCK \<noteq> 0 \<or> \<not> Counter2_running c"

definition system_state ::
    "('s \<Rightarrow> Irq2Source \<Rightarrow> 's) \<Rightarrow> ('o \<Rightarrow> TimingEvent \<Rightarrow> 'o) \<Rightarrow> TimerId \<Rightarrow> nat \<Rightarrow>
       Counter2 \<times> 's \<times> 'o \<Rightarrow> Counter2 \<times> 's \<times> 'o" where
  "system_state req obs timer n st =
     (let D = T2_prescale timer (c2_mode (fst st));
          total = unat (c2_prescale_remainder (fst st)) + n in
      with_remainder (of_nat (total mod D)) ((Counter2_one req obs timer ^^ (total div D)) st))"

lemma single_is_one:
  "Counter2_single req obs timer st =
     (if counter_stopped (fst st) then st
      else if unat (c2_prescale_remainder (fst st)) + 1 < T2_prescale timer (c2_mode (fst st))
      then with_remainder (c2_prescale_remainder (fst st) + 1) st
      else Counter2_one req obs timer (with_remainder 0 st))"
  by (simp add: Counter2_single_def counter_stopped_def Let_def with_remainder_def Counter2_one_def)

lemma single_funpow:
  assumes ok: "counter_ok timer (fst st)" and run: "\<not> counter_stopped (fst st)"
  shows "(Counter2_single req obs timer ^^ n) st = system_state req obs timer n st"
proof (induction n)
  case 0
  let ?r = "c2_prescale_remainder (fst st)"
  have "unat ?r div T2_prescale timer (c2_mode (fst st)) = 0"
    "unat ?r mod T2_prescale timer (c2_mode (fst st)) = unat ?r"
    using ok by (simp_all add: counter_ok_def)
  then show ?case by (simp add: system_state_def Let_def with_remainder_def)
next
  case (Suc n)
  define D where "D = T2_prescale timer (c2_mode (fst st))"
  define t where "t = unat (c2_prescale_remainder (fst st)) + n"
  define q r where "q = t div D" and "r = t mod D"
  define s where "s = (Counter2_one req obs timer ^^ q) st"
  have D: "0 < D" "D \<le> 256" unfolding D_def by (rule prescale_bounds)+
  then have r: "r < D" "r < 256" using mod_less_divisor [OF D(1), of t] by (simp_all add: r_def)
  have ctl: "same_control2 (fst st) (fst (with_remainder (of_nat r) s))"
    using one_control [where st = st and k = q and req = req and obs = obs and timer = timer]
    by (simp add: same_control2_def s_def)
  have stop: "\<not> counter_stopped (fst (with_remainder (of_nat r) s))"
    using run same_control2_laws [OF ctl] by (simp add: counter_stopped_def)
  have Ds: "T2_prescale timer (c2_mode (fst s)) = D"
    using same_control2_laws(1) [OF ctl, of timer] by (simp add: D_def)
  have unat_r: "unat (of_nat r :: u16) = r"
    using r(2) by (simp add: unsigned_of_nat take_bit_nat_eq_self)
  have target: "system_state req obs timer (Suc n) st
      = with_remainder (of_nat (Suc t mod D)) ((Counter2_one req obs timer ^^ (Suc t div D)) st)"
    by (simp add: system_state_def Let_def D_def t_def)
  have "(Counter2_single req obs timer ^^ Suc n) st = Counter2_single req obs timer (with_remainder (of_nat r) s)"
    using Suc.IH by (simp add: system_state_def Let_def D_def t_def q_def r_def s_def)
  also have "\<dots> = (if r + 1 < D then with_remainder (of_nat r + 1) s
      else Counter2_one req obs timer (with_remainder 0 s))"
    using stop by (simp add: single_is_one unat_r Ds)
  also have "\<dots> = system_state req obs timer (Suc n) st"
  proof (cases "r + 1 < D")
    case True
    have "Suc t mod D = Suc r" "Suc t div D = q"
      using True by (simp_all add: mod_Suc div_Suc r_def q_def)
    then show ?thesis using True unfolding target by (simp add: s_def add.commute)
  next
    case False
    then have e: "Suc r = D" using r(1) by linarith
    have "Suc t mod D = 0" "Suc t div D = Suc q"
      using e by (simp_all add: mod_Suc div_Suc r_def q_def)
    then show ?thesis using False unfolding target by (simp add: s_def one_remainder)
  qed
  finally show ?case .
qed

lemma system_is_single:
  assumes ok: "counter_ok timer (fst st)" and fits: "n + 256 \<le> 2 ^ 64"
    and res: "Counter2_system req obs n timer st = (Inr (), st')"
  shows "st' = (Counter2_single req obs timer ^^ n) st"
proof (cases "counter_stopped (fst st)")
  case True
  have "(Counter2_single req obs timer ^^ n) st = st"
    using True by (induction n) (simp_all add: single_is_one)
  then show ?thesis using res True by (simp add: Counter2_system_def counter_stopped_def Let_def split: if_splits)
next
  case False
  let ?D = "T2_prescale timer (c2_mode (fst st))"
  let ?t = "unat (c2_prescale_remainder (fst st)) + n"
  have "unat (c2_prescale_remainder (fst st)) < 256"
    using ok prescale_bounds(2) [of timer "c2_mode (fst st)"] unfolding counter_ok_def by linarith
  then have "?t < 2 ^ 64" using fits by linarith
  then have total: "?t mod 0x10000000000000000 = ?t" by simp
  have "Counter2_loop req obs timer (?t div ?D) 0 (with_remainder (of_nat (?t mod ?D)) st) = (Inr (), st')"
    using res False total
    by (simp add: Counter2_system_def counter_stopped_def Let_def Counter2_advance_def with_remainder_def)
  then have "st' = (Counter2_one req obs timer ^^ (?t div ?D)) (with_remainder (of_nat (?t mod ?D)) st)"
    using ok by (intro loop_is_one) (simp_all add: counter_ok_def)
  then show ?thesis
    unfolding single_funpow [OF ok False] by (simp add: one_funpow_remainder system_state_def Let_def)
qed

section \<open>Requests and events\<close>

text \<open>
  For the statement the sink and the observer are the lists of what they were given; the ones of a
  counter are those with its source or its identity.
\<close>

definition log_request :: "Irq2Source list \<Rightarrow> Irq2Source \<Rightarrow> Irq2Source list" where
  "log_request sources src = sources @ [src]"

definition log_event :: "TimingEvent list \<Rightarrow> TimingEvent \<Rightarrow> TimingEvent list" where
  "log_event events event = events @ [event]"

definition event_of :: "TimerId \<Rightarrow> TimingEvent \<Rightarrow> bool" where
  "event_of timer e = (case e of TimingEvent_Counter t _ \<Rightarrow> t = timer | _ \<Rightarrow> False)"

type_synonym logs = "Irq2Source list \<times> TimingEvent list"

definition logs_of :: "TimerId \<Rightarrow> (Counter2 \<times> logs \<Rightarrow> Counter2 \<times> logs) \<Rightarrow> bool" where
  "logs_of timer f \<longleftrightarrow> (\<forall>c. \<exists>c' r e. (\<forall>l m. f (c, l, m) = (c', l @ r, m @ e))
     \<and> (\<forall>src\<in>set r. src = TimerId_interrupt timer) \<and> (\<forall>ev\<in>set e. event_of timer ev))"

lemma logs_ofI:
  assumes "\<And>c. \<exists>c' r e. (\<forall>l m. f (c, l, m) = (c', l @ r, m @ e))
     \<and> (\<forall>src\<in>set r. src = TimerId_interrupt timer) \<and> (\<forall>ev\<in>set e. event_of timer ev)"
  shows "logs_of timer f"
  using assms by (simp add: logs_of_def)

lemma logs_of_map: "logs_of timer (\<lambda>st. (g (fst st), snd st))"
  by (rule logs_ofI) (intro exI [of _ "g _"] exI [of _ "[]"], simp)

lemma logs_of_comp:
  assumes "logs_of timer f" and "logs_of timer g"
  shows "logs_of timer (\<lambda>st. g (f st))"
proof (rule logs_ofI)
  fix c
  obtain c1 r1 e1 where f: "\<And>l m. f (c, l, m) = (c1, l @ r1, m @ e1)"
    "\<forall>src\<in>set r1. src = TimerId_interrupt timer" "\<forall>ev\<in>set e1. event_of timer ev"
    using assms(1) unfolding logs_of_def by metis
  obtain c2 r2 e2 where g: "\<And>l m. g (c1, l, m) = (c2, l @ r2, m @ e2)"
    "\<forall>src\<in>set r2. src = TimerId_interrupt timer" "\<forall>ev\<in>set e2. event_of timer ev"
    using assms(2) unfolding logs_of_def by metis
  show "\<exists>c' r e. (\<forall>l m. g (f (c, l, m)) = (c', l @ r, m @ e))
     \<and> (\<forall>src\<in>set r. src = TimerId_interrupt timer) \<and> (\<forall>ev\<in>set e. event_of timer ev)"
    by (rule exI [of _ c2], rule exI [of _ "r1 @ r2"], rule exI [of _ "e1 @ e2"]) (use f g in auto)
qed

lemma logs_of_if:
  assumes "logs_of timer f" and "logs_of timer g"
  shows "logs_of timer (\<lambda>st. if P (fst st) then f st else g st)"
proof (rule logs_ofI)
  fix c
  show "\<exists>c' r e. (\<forall>l m. (if P (fst (c, l, m)) then f (c, l, m) else g (c, l, m)) = (c', l @ r, m @ e))
     \<and> (\<forall>src\<in>set r. src = TimerId_interrupt timer) \<and> (\<forall>ev\<in>set e. event_of timer ev)"
    using assms unfolding logs_of_def by (cases "P c") simp_all
qed

lemma logs_of_id: "logs_of timer (\<lambda>st. st)"
  using logs_of_map [of timer "\<lambda>c. c"] by simp

lemma logs_of_funpow: "logs_of timer f \<Longrightarrow> logs_of timer (f ^^ n)"
proof (induction n)
  case (Suc n)
  then show ?case using logs_of_comp [of timer "f ^^ n" f] by (simp add: comp_def)
qed (simp add: id_def logs_of_id)

lemma logs_of_boundary: "logs_of timer (Counter2_boundary log_request log_event timer b)"
proof -
  let ?q = "[TimerId_interrupt timer]" and ?e = "[TimingEvent_Counter timer b]"
  obtain on enabled where ob: "(case b of
           CounterBoundary_Target \<Rightarrow> (MODE2_REACHED_TARGET, MODE2_IRQ_ON_TARGET)
         | CounterBoundary_Overflow \<Rightarrow> (MODE2_REACHED_OVERFLOW, MODE2_IRQ_ON_OVERFLOW)) = (on, enabled)"
    by (metis surj_pair)
  have e: "\<forall>ev\<in>set ?e. event_of timer ev" by (simp add: event_of_def)
  show ?thesis
  proof (rule logs_ofI)
    fix c :: Counter2
    let ?c = "c\<lparr>c2_mode := c2_mode c OR on\<rparr>"
    have body: "Counter2_boundary log_request log_event timer b (c, l, m) =
       (if c2_mode ?c AND enabled = 0 \<or> c2_irq_fired ?c \<and> c2_mode ?c AND MODE2_IRQ_REPEAT = 0
        then (?c, l, m @ ?e)
        else if c2_mode ?c AND MODE2_IRQ_TOGGLE \<noteq> 0
        then
          if (c2_mode ?c XOR MODE2_IRQ_REQUEST) AND MODE2_IRQ_REQUEST \<noteq> 0
          then (?c\<lparr>c2_mode := c2_mode ?c XOR MODE2_IRQ_REQUEST\<rparr>, l, m @ ?e)
          else (?c\<lparr>c2_mode := c2_mode ?c XOR MODE2_IRQ_REQUEST, c2_irq_fired := True\<rparr>, l @ ?q, m @ ?e)
        else (?c\<lparr>c2_mode := c2_mode ?c AND NOT MODE2_IRQ_REQUEST, c2_irq_fired := True\<rparr>, l @ ?q, m @ ?e))"
      for l m
      by (simp add: Counter2_boundary_def ob log_request_def log_event_def Let_def)
    show "\<exists>c' r e. (\<forall>l m. Counter2_boundary log_request log_event timer b (c, l, m) = (c', l @ r, m @ e))
     \<and> (\<forall>src\<in>set r. src = TimerId_interrupt timer) \<and> (\<forall>ev\<in>set e. event_of timer ev)"
    proof (cases "c2_mode ?c AND enabled = 0 \<or> c2_irq_fired ?c \<and> c2_mode ?c AND MODE2_IRQ_REPEAT = 0
        \<or> c2_mode ?c AND MODE2_IRQ_TOGGLE \<noteq> 0 \<and> (c2_mode ?c XOR MODE2_IRQ_REQUEST) AND MODE2_IRQ_REQUEST \<noteq> 0")
      case True
      show ?thesis
        by (rule exI [of _ "fst (Counter2_boundary log_request log_event timer b (c, [], []))"],
            rule exI [of _ "[]"], rule exI [of _ ?e]) (use True e in \<open>auto simp: body\<close>)
    next
      case False
      show ?thesis
        by (rule exI [of _ "fst (Counter2_boundary log_request log_event timer b (c, [], []))"],
            rule exI [of _ ?q], rule exI [of _ ?e]) (use False e in \<open>auto simp: body\<close>)
    qed
  qed
qed

lemma logs_of_hit: "logs_of timer (Counter2_hit log_request log_event timer t ov)"
proof -
  let ?B = "Counter2_boundary log_request log_event timer"
  have "logs_of timer (\<lambda>st. if c2_mode (fst st) AND MODE2_RESET_ON_TARGET \<noteq> 0
      then ((fst st)\<lparr>c2_count := 0\<rparr>, snd st) else st)"
    using logs_of_if [OF logs_of_map [of timer "\<lambda>c. c\<lparr>c2_count := 0\<rparr>"] logs_of_id,
        of "\<lambda>c. c2_mode c AND MODE2_RESET_ON_TARGET \<noteq> 0"] .
  note tgt = logs_of_comp [OF logs_of_boundary [of timer CounterBoundary_Target] this]
  have first: "logs_of timer (\<lambda>st. if t then
           let st = ?B CounterBoundary_Target st in
           if c2_mode (fst st) AND MODE2_RESET_ON_TARGET \<noteq> 0
           then ((fst st)\<lparr>c2_count := 0\<rparr>, snd st) else st
         else st)"
    using tgt logs_of_id by (cases t) (simp_all add: Let_def)
  show ?thesis
  proof (cases ov)
    case True
    then show ?thesis
      using logs_of_comp [OF first logs_of_boundary [of timer CounterBoundary_Overflow]]
      by (simp add: Counter2_hit_def [abs_def] Let_def)
  next
    case False
    then show ?thesis using first by (simp add: Counter2_hit_def [abs_def] Let_def)
  qed
qed

lemma logs_of_single: "logs_of timer (Counter2_single log_request log_event timer)"
proof (rule logs_ofI)
  fix c :: Counter2
  let ?mask = "TimerId_width_mask timer"
  let ?count = "(c2_count c + 1) AND ?mask"
  show "\<exists>c' r e. (\<forall>l m. Counter2_single log_request log_event timer (c, l, m) = (c', l @ r, m @ e))
     \<and> (\<forall>src\<in>set r. src = TimerId_interrupt timer) \<and> (\<forall>ev\<in>set e. event_of timer ev)"
  proof (cases "counter_stopped c \<or> unat (c2_prescale_remainder c) + 1 < T2_prescale timer (c2_mode c)")
    case True
    show ?thesis
      by (rule exI [of _ "fst (Counter2_single log_request log_event timer (c, [], []))"],
          rule exI [of _ "[]"], rule exI [of _ "[]"])
        (use True in \<open>auto simp: Counter2_single_def counter_stopped_def Let_def\<close>)
  next
    case False
    then have "Counter2_single log_request log_event timer (c, l, m) =
        Counter2_hit log_request log_event timer (?count = c2_target c) (c2_count c = ?mask)
          (c\<lparr>c2_prescale_remainder := 0, c2_count := ?count\<rparr>, l, m)" for l m
      by (simp add: Counter2_single_def counter_stopped_def Let_def)
    then show ?thesis
      using logs_of_hit [of timer "?count = c2_target c" "c2_count c = ?mask"]
      unfolding logs_of_def by simp
  qed
qed

section \<open>All counters\<close>

type_synonym timers_run = "IopTimers \<times> logs"

text \<open>What concerns one counter: its registers, and its part of the requests and of the events.\<close>

definition view :: "TimerId \<Rightarrow> timers_run \<Rightarrow> Counter2 \<times> logs" where
  "view timer st = (IopTimers_get (fst st) timer,
     filter (\<lambda>src. src = TimerId_interrupt timer) (fst (snd st)),
     filter (event_of timer) (snd (snd st)))"

definition six :: "IopTimers \<Rightarrow> bool" where
  "six self \<longleftrightarrow> length (it_counters self) = 6"

lemma index_lt: "TimerId_index timer < 6" by (cases timer) auto

lemma timer_index_inj: "TimerId_index s = TimerId_index t \<longleftrightarrow> s = t" by (cases s; cases t) auto

lemma interrupt_inj: "TimerId_interrupt s = TimerId_interrupt t \<longleftrightarrow> s = t" by (cases s; cases t) auto

lemma get_upd:
  "six self \<Longrightarrow> IopTimers_get (IopTimers_upd self t c) timer = (if t = timer then c else IopTimers_get self timer)"
  using index_lt [of t] by (auto simp: six_def IopTimers_get_def IopTimers_upd_def timer_index_inj nth_list_update)

lemma six_upd [simp]: "six (IopTimers_upd self t c) = six self"
  by (simp add: six_def IopTimers_upd_def)

lemma timers_ext:
  assumes "six a" and "six b" and "\<And>timer. IopTimers_get a timer = IopTimers_get b timer"
  shows "a = b"
proof -
  have "it_counters a = it_counters b"
  proof (rule nth_equalityI)
    show "length (it_counters a) = length (it_counters b)" using assms(1,2) by (simp add: six_def)
    fix i assume "i < length (it_counters a)"
    then have "i < 6" using assms(1) by (simp add: six_def)
    then have "i \<in> {0, 1, 2, 3, 4, 5}" by auto
    then obtain timer where "i = TimerId_index timer" by (metis TimerId_index.simps insertE empty_iff)
    then show "it_counters a ! i = it_counters b ! i" using assms(3) [of timer] by (simp add: IopTimers_get_def)
  qed
  then show ?thesis by (cases a; cases b) simp
qed

lemma on_counter_view:
  assumes "six (fst st)" and "\<And>t. logs_of t (f t)"
  shows "view timer (on_counter t (f t) st) = (if t = timer then f timer (view timer st) else view timer st)"
    and "six (fst (on_counter t (f t) st))"
proof -
  obtain self l m where st: "st = (self, l, m)" by (cases st) auto
  obtain c r e where f: "\<And>l m. f t (IopTimers_get self t, l, m) = (c, l @ r, m @ e)"
    "\<forall>src\<in>set r. src = TimerId_interrupt t" "\<forall>ev\<in>set e. event_of t ev"
    using assms(2) [of t] unfolding logs_of_def by metis
  have step: "on_counter t (f t) st = (IopTimers_upd self t c, l @ r, m @ e)"
    by (simp add: on_counter_def st f(1))
  then show "six (fst (on_counter t (f t) st))" using assms(1) by (simp add: st)
  have own: "filter (\<lambda>src. src = TimerId_interrupt t) r = r" "filter (event_of t) e = e"
    using f(2,3) by (auto intro: filter_True)
  have other: "filter (\<lambda>src. src = TimerId_interrupt timer) r = []" "filter (event_of timer) e = []" if "t \<noteq> timer"
    using f(2,3) that by (auto simp: interrupt_inj event_of_def filter_empty_conv split: TimingEvent.splits)
  show "view timer (on_counter t (f t) st) = (if t = timer then f timer (view timer st) else view timer st)"
  proof (cases "t = timer")
    case True
    have "f timer (view timer st) = (c, filter (\<lambda>src. src = TimerId_interrupt timer) l @ r,
        filter (event_of timer) m @ e)"
      using f(1) unfolding True by (simp add: view_def st)
    then show ?thesis unfolding step using assms(1) own True by (simp add: st view_def get_upd)
  next
    case False
    then show ?thesis unfolding step using assms(1) other by (simp add: st view_def get_upd)
  qed
qed

lemma fold_view:
  assumes "six (fst st)" and "\<And>t. logs_of t (f t)" and "distinct ts"
  shows "view timer (fold (\<lambda>t. on_counter t (f t)) ts st)
      = (if timer \<in> set ts then f timer (view timer st) else view timer st)
    \<and> six (fst (fold (\<lambda>t. on_counter t (f t)) ts st))"
  using assms(1,3)
proof (induction ts arbitrary: st)
  case (Cons t ts)
  note step = on_counter_view [where st = st and f = f and t = t, OF Cons.prems(1) assms(2)]
  show ?case using Cons.IH [OF step(2)] Cons.prems(2) step(1) [of timer] by auto
qed simp

definition timers_ok :: "IopTimers \<Rightarrow> bool" where
  "timers_ok self \<longleftrightarrow> six self \<and> (\<forall>timer. counter_ok timer (IopTimers_get self timer))"

lemma all_timers: "timer \<in> set TimerId_ALL" "distinct TimerId_ALL"
  by (cases timer) (simp_all add: TimerId_ALL_def)

lemma single_view:
  assumes "six (fst st)"
  shows "view timer ((IopTimers_advance_single log_request log_event ^^ n) st)
      = (Counter2_single log_request log_event timer ^^ n) (view timer st)
    \<and> six (fst ((IopTimers_advance_single log_request log_event ^^ n) st))"
proof (induction n)
  case (Suc n)
  let ?s = "(IopTimers_advance_single log_request log_event ^^ n) st"
  have "view timer (IopTimers_advance_single log_request log_event ?s)
        = Counter2_single log_request log_event timer (view timer ?s)
      \<and> six (fst (IopTimers_advance_single log_request log_event ?s))"
    using fold_view [where st = ?s and f = "Counter2_single log_request log_event" and ts = TimerId_ALL
        and timer = timer, OF conjunct2 [OF Suc.IH] logs_of_single all_timers(2)]
    unfolding IopTimers_advance_single_def if_P [OF all_timers(1)] .
  then show ?case using Suc.IH by simp
qed (simp add: assms)

lemma advance_all_fold:
  assumes "six (fst st)" and "\<forall>t\<in>set ts. counter_ok t (IopTimers_get (fst st) t)" and "distinct ts"
    and "advance_all log_request log_event n ts st = (Inr (), st')" and fits: "n + 256 \<le> 2 ^ 64"
  shows "st' = fold (\<lambda>t. on_counter t (Counter2_single log_request log_event t ^^ n)) ts st"
  using assms(1-4)
proof (induction ts arbitrary: st)
  case (Cons t ts)
  let ?in = "(IopTimers_get (fst st) t, snd st)"
  let ?out = "(Counter2_single log_request log_event t ^^ n) ?in"
  let ?st = "(IopTimers_upd (fst st) t (fst ?out), snd ?out)"
  obtain c x where sys: "Counter2_system log_request log_event n t ?in = (Inr (), c, x)"
    and rest: "advance_all log_request log_event n ts (IopTimers_upd (fst st) t c, x) = (Inr (), st')"
    using Cons.prems(4) by (auto simp: Let_def split: prod.splits sum.splits)
  have cx: "(c, x) = ?out" using system_is_single [OF _ fits sys] Cons.prems(2) by simp
  have step: "on_counter t (Counter2_single log_request log_event t ^^ n) st = ?st"
    by (simp add: on_counter_def case_prod_beta)
  have out: "c = fst ?out" "x = snd ?out" using cx by (metis fst_conv, metis snd_conv)
  have "st' = fold (\<lambda>t. on_counter t (Counter2_single log_request log_event t ^^ n)) ts ?st"
  proof (rule Cons.IH)
    show "six (fst ?st)" using Cons.prems(1) by simp
    show "\<forall>u\<in>set ts. counter_ok u (IopTimers_get (fst ?st) u)"
      using Cons.prems(1,2,3) by (auto simp: get_upd)
    show "advance_all log_request log_event n ts ?st = (Inr (), st')" using rest by (simp add: out)
  qed (use Cons.prems(3) in simp)
  then show ?case by (simp add: step)
qed simp

text \<open>Every operation keeps \<open>timers_ok\<close>.\<close>

lemma timers_ok_upd:
  assumes "timers_ok self" and "counter_ok timer c"
  shows "timers_ok (IopTimers_upd self timer c)"
  using assms by (auto simp: timers_ok_def get_upd)

lemma timers_ok_new: "timers_ok IopTimers_new"
proof -
  have "IopTimers_get IopTimers_new timer = Counter2_new" for timer
    by (cases timer) (simp_all add: IopTimers_get_def IopTimers_new_def)
  moreover have "counter_ok timer Counter2_new" for timer
    using prescale_bounds(1) [of timer MODE2_IRQ_REQUEST]
    by (simp add: counter_ok_def counter_fits_def Counter2_new_def)
  ultimately show ?thesis by (simp add: timers_ok_def six_def IopTimers_new_def)
qed

lemma width_twice: "(x AND TimerId_width_mask t) AND TimerId_width_mask t = x AND TimerId_width_mask t"
  by (simp add: and.assoc)

lemma counter_ok_updates:
  assumes "counter_ok timer c"
  shows "counter_ok timer (c\<lparr>c2_count := v AND TimerId_width_mask timer\<rparr>)"
    and "counter_ok timer (c\<lparr>c2_target := v AND TimerId_width_mask timer\<rparr>)"
    and "counter_ok timer (c\<lparr>c2_mode := m, c2_count := 0, c2_prescale_remainder := 0, c2_irq_fired := False\<rparr>)"
    and "counter_ok timer (Counter2_set_gate asserted c)"
    and "counter_ok timer (clear_reached c)"
proof -
  show "counter_ok timer (clear_reached c)"
  proof -
    have "same_mode (c2_mode c) (c2_mode (clear_reached c))"
      by (simp add: same_mode_def clear_reached_def and.assoc MODE2_REACHED_TARGET_def MODE2_REACHED_OVERFLOW_def)
    then have "same_control2 c (clear_reached c)" by (simp add: same_control2_def clear_reached_def)
    then show ?thesis using assms same_control2_laws(1) [of c "clear_reached c" timer]
      by (simp add: counter_ok_def counter_fits_def clear_reached_def)
  qed
  show "counter_ok timer (Counter2_set_gate asserted c)"
    using assms by (simp add: Counter2_set_gate_def Let_def counter_ok_def counter_fits_def)
qed (use assms prescale_bounds(1) in \<open>simp_all add: counter_ok_def counter_fits_def width_twice\<close>)

lemma counter_ok_put_half:
  assumes "counter_ok timer c"
  shows "counter_ok timer (c\<lparr>c2_count := put_half timer half v d\<rparr>)"
    and "counter_ok timer (c\<lparr>c2_target := put_half timer half v d\<rparr>)"
  using assms by (simp_all add: counter_ok_def counter_fits_def put_half_def and.assoc)

lemma get_ok: "timers_ok self \<Longrightarrow> counter_ok timer (IopTimers_get self timer)"
  by (simp add: timers_ok_def)

lemma timers_ok_write_u32: "timers_ok self \<Longrightarrow> timers_ok (snd (IopTimers_write_u32 self address v))"
  by (auto simp: IopTimers_write_u32_def Let_def split: sum.split prod.split
      intro!: timers_ok_upd counter_ok_updates get_ok)

lemma timers_ok_ops:
  assumes "timers_ok self"
  shows "timers_ok (snd (IopTimers_read_u32 self address))"
    and "timers_ok (snd (IopTimers_read_u16 self address))"
    and "timers_ok (snd (IopTimers_write_u16 self address w))"
    and "timers_ok (IopTimers_set_gate self timer asserted)"
  using assms timers_ok_write_u32
  by (auto simp: IopTimers_read_u32_def IopTimers_read_u16_def IopTimers_write_u16_def
      IopTimers_set_gate_def Let_def split: sum.split prod.split
      intro!: timers_ok_upd counter_ok_updates counter_ok_put_half get_ok)

text \<open>
  C8. Advancing the six IOP counters in one batch is advancing them one CPU cycle at a time. For
  counters in a state the registers allow, when \<open>advance_cpu\<close> succeeds over any number of cycles
  but the last 255 below \<open>2 ^ 64\<close>, where the sum with the prescaler's remainder could wrap, its
  state is the one that many single-cycle advances reach, and every counter has made the same interrupt requests and reported the same boundaries in the same order.
\<close>
theorem iop_timers_batch_exact:
  assumes "timers_ok self" and "n + 256 \<le> 2 ^ 64"
    and "IopTimers_advance_cpu log_request log_event n (self, [], []) = (Inr (), self', requests', events')"
  shows "let (self1, requests1, events1) = (IopTimers_advance_single log_request log_event ^^ n) (self, [], []) in
    self' = self1
    \<and> (\<forall>timer. filter (\<lambda>src. src = TimerId_interrupt timer) requests'
        = filter (\<lambda>src. src = TimerId_interrupt timer) requests1)
    \<and> (\<forall>timer. filter (event_of timer) events' = filter (event_of timer) events1)"
proof -
  let ?single = "(IopTimers_advance_single log_request log_event ^^ n) (self, [], [])"
  let ?batch = "(self', requests', events')"
  have s6: "six (fst (self, ([], [])::logs))" using assms(1) by (simp add: timers_ok_def)
  note sv = single_view [OF s6, of _ n]
  have "view timer ?batch = view timer ?single \<and> six self'" for timer
  proof (cases "n = 1")
    case True
    then have "?batch = ?single" using assms(3) by (simp add: IopTimers_advance_cpu_def)
    then show ?thesis using sv [of timer] by (metis fst_conv)
  next
    case False
    then have "?batch = fold (\<lambda>t. on_counter t (Counter2_single log_request log_event t ^^ n)) TimerId_ALL (self, [], [])"
      using assms advance_all_fold [OF s6 _ all_timers(2) _ assms(2)]
      by (simp add: IopTimers_advance_cpu_def timers_ok_def)
    then show ?thesis
      using sv [of timer] fold_view [where st = "(self, ([], [])::logs)" and ts = TimerId_ALL and timer = timer
          and f = "\<lambda>t. Counter2_single log_request log_event t ^^ n", OF s6 logs_of_funpow [OF logs_of_single] all_timers(2)]
      by (metis all_timers(1) fst_conv)
  qed
  note views = this
  obtain self1 requests1 events1 where single: "?single = (self1, requests1, events1)" by (cases ?single) auto
  have "self' = self1"
  proof (rule timers_ext)
    show "six self'" using views by blast
    show "six self1" using sv single by (metis fst_conv)
    show "IopTimers_get self' timer = IopTimers_get self1 timer" for timer
      using views [of timer] by (simp add: single view_def)
  qed
  then show ?thesis using views by (simp add: single view_def)
qed

definition example_timers :: IopTimers where
  "example_timers =
     snd (IopTimers_write_u32 (snd (IopTimers_write_u32 IopTimers_new 0x1F801108 3)) 0x1F801104 0x58)"

lemma iop_timers_batch_exact_witness:
  "let (self1, requests1, events1) =
      (IopTimers_advance_single log_request log_event ^^ 7) (example_timers, [], []) in
    (\<exists>self' requests' events'. IopTimers_advance_cpu log_request log_event 7 (example_timers, [], [])
        = (Inr (), self', requests', events')
      \<and> self' = self1 \<and> IopTimers_count self' Timer0 = 1 \<and> requests' = [Irq2_Timer0, Irq2_Timer0])"
proof -
  let ?run = "IopTimers_advance_cpu log_request log_event 7 (example_timers, [], [])"
  have ok: "timers_ok example_timers"
    unfolding example_timers_def by (intro timers_ok_write_u32 timers_ok_new)
  have "fst ?run = Inr () \<and> IopTimers_count (fst (snd ?run)) Timer0 = 1
      \<and> fst (snd (snd ?run)) = [Irq2_Timer0, Irq2_Timer0]"
    by code_simp
  then obtain self' events' where run: "?run = (Inr (), self', [Irq2_Timer0, Irq2_Timer0], events')"
    and count: "IopTimers_count self' Timer0 = 1"
    by (cases ?run) auto
  show ?thesis
    using iop_timers_batch_exact [OF ok _ run] run count by (auto simp: Let_def split: prod.splits)
qed

section \<open>The refresh clock does not drift\<close>

definition refresh_ok :: "RefreshClock \<Rightarrow> bool" where
  "refresh_ok c \<longleftrightarrow> 0 < refresh_distance c"

lemma refresh_quiet:
  "n < refresh_distance c \<Longrightarrow> refresh_distance (c\<lparr>rf_phase_units := rf_phase_units c + n\<rparr>) = refresh_distance c - n"
  by (simp add: refresh_distance_def)

lemma refresh_loop_lt:
  "n < refresh_distance c \<Longrightarrow> refresh_loop req obs n (c, x) = (c\<lparr>rf_phase_units := rf_phase_units c + n\<rparr>, x)"
  by (subst refresh_loop.simps) (simp add: Let_def)

lemma refresh_loop_ge:
  "0 < refresh_distance (fst st) \<Longrightarrow> refresh_distance (fst st) \<le> n \<Longrightarrow>
     refresh_loop req obs n st = refresh_loop req obs (n - refresh_distance (fst st)) (refresh_cross req obs st)"
  by (subst refresh_loop.simps) (simp add: Let_def)

lemma refresh_cross_phase: "refresh_cross req obs (c\<lparr>rf_phase_units := p\<rparr>, x) = refresh_cross req obs (c, x)"
  by (cases x) (simp add: refresh_cross_def)

lemma refresh_loop_add:
  assumes "refresh_ok (fst st)"
  shows "refresh_loop req obs (a + b) st = refresh_loop req obs b (refresh_loop req obs a st)
    \<and> refresh_ok (fst (refresh_loop req obs a st))"
  using assms
proof (induction a arbitrary: st rule: less_induct)
  case (less a)
  obtain c x where st: "st = (c, x)" by (cases st)
  define d where "d = refresh_distance c"
  have d: "0 < d" using less.prems by (simp add: st refresh_ok_def d_def)
  show ?case
  proof (cases "a < d")
    case True
    let ?c = "c\<lparr>rf_phase_units := rf_phase_units c + a\<rparr>"
    have here: "refresh_loop req obs a st = (?c, x)"
      using refresh_loop_lt True unfolding st d_def .
    have dist: "refresh_distance ?c = d - a" using refresh_quiet True unfolding d_def .
    have "refresh_loop req obs (a + b) (c, x) = refresh_loop req obs b (?c, x)"
    proof (cases "b < d - a")
      case True
      then have "a + b < d" by simp
      then show ?thesis
        using True refresh_loop_lt [of b ?c req obs x] refresh_loop_lt [of "a + b" c req obs x] dist by (simp add: d_def add.assoc)
    next
      case False
      then have ge: "d \<le> a + b" "d - a \<le> b" "0 < d - a" using True by simp_all
      have "a + b - d = b - (d - a)" using True ge by simp
      then show ?thesis
        using refresh_loop_ge [of "(c, x)" "a + b" req obs] refresh_loop_ge [of "(?c, x)" b req obs] ge d
        by (simp add: dist refresh_cross_phase flip: d_def)
    qed
    then show ?thesis using here dist True by (simp add: refresh_ok_def st)
  next
    case False
    then have step: "refresh_loop req obs (a + k) st = refresh_loop req obs (a + k - d) (refresh_cross req obs st)" for k
      using d refresh_loop_ge [of st "a + k"] by (simp add: st d_def)
    have ok: "refresh_ok (fst (refresh_cross req obs st))" by (simp add: refresh_ok_def)
    have "a - d < a" using d False by simp
    note ih = less.IH [OF this ok]
    have "a + b - d = (a - d) + b" using False by simp
    then show ?thesis using step [of b] step [of 0] ih by simp
  qed
qed

lemma refresh_clock_chunks:
  assumes "refresh_ok (fst st)"
  shows "snd (RefreshClock_advance req obs (a + b) st)
      = snd (RefreshClock_advance req obs b (snd (RefreshClock_advance req obs a st)))"
proof -
  have standard: "refresh_ok (fst s) \<Longrightarrow> rf_standard (fst (refresh_loop req obs n s)) = rf_standard (fst s)" for n s
  proof (induction n arbitrary: s rule: less_induct)
    case (less n)
    have c: "rf_standard (fst (refresh_cross req obs s)) = rf_standard (fst s)"
      by (cases s) (simp add: refresh_cross_def)
    show ?case
    proof (cases "n < refresh_distance (fst s)")
      case True
      then show ?thesis using refresh_loop_lt [of n "fst s" req obs "snd s"] by simp
    next
      case False
      have pos: "0 < refresh_distance (fst s)" using less.prems by (simp add: refresh_ok_def)
      have "refresh_ok (fst (refresh_cross req obs s))" by (simp add: refresh_ok_def)
      then show ?thesis
        using less.IH [of "n - refresh_distance (fst s)" "refresh_cross req obs s"] False pos c
        by (simp add: refresh_loop_ge)
    qed
  qed
  have rate: "checked_mul_n 64 T2_CPU_HZ (snd (refresh_rate v)) = Some (frame_units v)" for v
    using refresh_rate_values [of v] by (auto simp: checked_mul_n_def frame_units_def T2_CPU_HZ_def)
  show ?thesis
    using refresh_loop_add [OF assms] by (simp add: RefreshClock_advance_def rate standard assms add_mult_distrib)
qed

end
