(* ===== verification/R3000.thy ===== *)
theory R3000
  imports Upse_Prelude "HOL-Library.Signed_Division"
begin

text \<open>
  The MIPS-I interpreter of \<open>crates/hw/shared/r3000/src/lib.rs\<close>: registers, the branch and
  load delay slots, COP0 exceptions, the COP2 stub and every instruction the core decodes.

  The machine owns memory behind the trait \<open>Bus\<close>, here a record of operations over a bus
  state of any type; each operation returns the new bus state beside its result. One step
  returns the result, the CPU and the bus, also after a bus fault.

  \<open>Cpu::execute\<close> is one large match in the source; its arms are grouped into one definition
  per opcode family (\<open>execute_special\<close>, \<open>execute_regimm\<close>, \<open>execute_immediate\<close>,
  \<open>execute_load\<close>, \<open>execute_store\<close>, \<open>execute_word_cop2\<close>) that \<open>Cpu_execute\<close> dispatches to.
  Signed values are integers: \<open>to_i32\<close> is the signed reading of a word, \<open>from_i32\<close> the word of
  an integer.
\<close>

named_theorems cpu_defs

section \<open>Bus interface and configuration\<close>

definition CAUSE_BD :: u32 where "CAUSE_BD = push_bit 31 1"
definition CAUSE_IP2 :: u32 where "CAUSE_IP2 = push_bit 10 1"
definition STATUS_BEV :: u32 where "STATUS_BEV = push_bit 22 1"

datatype AccessType = AccessType_Instruction | AccessType_Load | AccessType_Store

datatype BusFault = BusFault (BusFault_message: string)

record 'b Bus =
  Bus_read_u8 :: "'b \<Rightarrow> u32 \<Rightarrow> (BusFault + u8) \<times> 'b"
  Bus_read_u16 :: "'b \<Rightarrow> u32 \<Rightarrow> (BusFault + u16) \<times> 'b"
  Bus_read_u32 :: "'b \<Rightarrow> u32 \<Rightarrow> (BusFault + u32) \<times> 'b"
  Bus_write_u8 :: "'b \<Rightarrow> u32 \<Rightarrow> u8 \<Rightarrow> (BusFault + unit) \<times> 'b"
  Bus_write_u16 :: "'b \<Rightarrow> u32 \<Rightarrow> u16 \<Rightarrow> (BusFault + unit) \<times> 'b"
  Bus_write_u32 :: "'b \<Rightarrow> u32 \<Rightarrow> u32 \<Rightarrow> (BusFault + unit) \<times> 'b"
  Bus_interrupt_pending :: "'b \<Rightarrow> bool"

record ResetProfile =
  profile_pc :: u32
  profile_exception_vector :: u32
  profile_bootstrap_exception_vector :: u32
  profile_status :: u32
  profile_processor_id :: u32

definition ResetProfile_default :: ResetProfile where
  "ResetProfile_default =
     \<lparr>profile_pc = 0xbfc00000, profile_exception_vector = 0x80000080,
      profile_bootstrap_exception_vector = 0xbfc00180, profile_status = STATUS_BEV,
      profile_processor_id = 2\<rparr>"

datatype LoadDelayMode = LoadDelayMode_Architectural | LoadDelayMode_Interlocked

datatype WordAlignmentMode = WordAlignmentMode_Architectural | WordAlignmentMode_AlignDown

datatype Coprocessor2Mode = Coprocessor2Mode_Disabled | Coprocessor2Mode_Stub

datatype DelaySlotBranchMode =
  DelaySlotBranchMode_Preserve | DelaySlotBranchMode_SuppressWhenOuterTaken

record DelaySlotState =
  ds_branch_pc :: u32
  ds_branch_taken :: bool

datatype Exception =
    Exception_Interrupt | Exception_AddressLoad | Exception_AddressStore | Exception_Syscall
  | Exception_Break | Exception_ReservedInstruction | Exception_CoprocessorUnusable
  | Exception_Overflow

fun Exception_code :: "Exception \<Rightarrow> u32" where
  "Exception_code Exception_Interrupt = 0"
| "Exception_code Exception_AddressLoad = 4"
| "Exception_code Exception_AddressStore = 5"
| "Exception_code Exception_Syscall = 8"
| "Exception_code Exception_Break = 9"
| "Exception_code Exception_ReservedInstruction = 10"
| "Exception_code Exception_CoprocessorUnusable = 11"
| "Exception_code Exception_Overflow = 12"

section \<open>COP0\<close>

record Cop0 =
  cop0_bad_vaddr :: u32
  cop0_status :: u32
  cop0_cause :: u32
  cop0_epc :: u32
  cop0_processor_id :: u32

definition Cop0_read :: "Cop0 \<Rightarrow> nat \<Rightarrow> u32 option" where
  "Cop0_read c index =
     (if index = 8 then Some (cop0_bad_vaddr c)
      else if index = 12 then Some (cop0_status c)
      else if index = 13 then Some (cop0_cause c)
      else if index = 14 then Some (cop0_epc c)
      else if index = 15 then Some (cop0_processor_id c)
      else None)"

definition Cop0_write :: "Cop0 \<Rightarrow> nat \<Rightarrow> u32 \<Rightarrow> bool \<times> Cop0" where
  "Cop0_write c index v =
     (if index = 8 then (True, c\<lparr>cop0_bad_vaddr := v\<rparr>)
      else if index = 12 then (True, c\<lparr>cop0_status := v\<rparr>)
      else if index = 13 then
        (True, c\<lparr>cop0_cause := (cop0_cause c AND NOT 0x300) OR (v AND 0x300)\<rparr>)
      else if index = 14 then (True, c\<lparr>cop0_epc := v\<rparr>)
      else (False, c))"

section \<open>CPU state and outcomes\<close>

datatype StepEvent = StepEvent_Instruction | StepEvent_Exception Exception

record StepOutcome =
  outcome_pc :: u32
  outcome_instruction :: "u32 option"
  outcome_cycles :: u32
  outcome_event :: StepEvent

record CpuError =
  error_pc :: u32
  error_address :: u32
  error_access :: AccessType
  error_source :: BusFault

record Cpu =
  cpu_registers :: "u32 list"
  cpu_hi :: u32
  cpu_lo :: u32
  cpu_pc :: u32
  cpu_next_pc :: u32
  cpu_delay_slot :: "DelaySlotState option"
  cpu_pending_load :: "(nat \<times> u32) option"
  cpu_cop0 :: Cop0
  cpu_cop2_data :: "u32 list"
  cpu_cop2_control :: "u32 list"
  cpu_profile :: ResetProfile
  cpu_load_delay_mode :: LoadDelayMode
  cpu_word_alignment_mode :: WordAlignmentMode
  cpu_coprocessor2_mode :: Coprocessor2Mode
  cpu_delay_slot_branch_mode :: DelaySlotBranchMode

definition Cpu_with_load_delay_mode :: "ResetProfile \<Rightarrow> LoadDelayMode \<Rightarrow> Cpu" where
  "Cpu_with_load_delay_mode profile load_delay_mode =
     \<lparr>cpu_registers = replicate 32 0, cpu_hi = 0, cpu_lo = 0,
      cpu_pc = profile_pc profile, cpu_next_pc = profile_pc profile + 4,
      cpu_delay_slot = None, cpu_pending_load = None,
      cpu_cop0 = \<lparr>cop0_bad_vaddr = 0, cop0_status = profile_status profile, cop0_cause = 0,
                  cop0_epc = 0, cop0_processor_id = profile_processor_id profile\<rparr>,
      cpu_cop2_data = replicate 32 0, cpu_cop2_control = replicate 32 0,
      cpu_profile = profile, cpu_load_delay_mode = load_delay_mode,
      cpu_word_alignment_mode = WordAlignmentMode_Architectural,
      cpu_coprocessor2_mode = Coprocessor2Mode_Disabled,
      cpu_delay_slot_branch_mode = DelaySlotBranchMode_Preserve\<rparr>"

definition Cpu_new :: "ResetProfile \<Rightarrow> Cpu" where
  "Cpu_new profile = Cpu_with_load_delay_mode profile LoadDelayMode_Architectural"

definition Cpu_reset :: "Cpu \<Rightarrow> Cpu" where
  "Cpu_reset c =
     (Cpu_with_load_delay_mode (cpu_profile c) (cpu_load_delay_mode c))
       \<lparr>cpu_word_alignment_mode := cpu_word_alignment_mode c,
        cpu_coprocessor2_mode := cpu_coprocessor2_mode c,
        cpu_delay_slot_branch_mode := cpu_delay_slot_branch_mode c\<rparr>"

definition Cpu_set_word_alignment_mode :: "WordAlignmentMode \<Rightarrow> Cpu \<Rightarrow> Cpu" where
  "Cpu_set_word_alignment_mode mode c = c\<lparr>cpu_word_alignment_mode := mode\<rparr>"

definition Cpu_set_coprocessor2_mode :: "Coprocessor2Mode \<Rightarrow> Cpu \<Rightarrow> Cpu" where
  "Cpu_set_coprocessor2_mode mode c = c\<lparr>cpu_coprocessor2_mode := mode\<rparr>"

definition Cpu_set_delay_slot_branch_mode :: "DelaySlotBranchMode \<Rightarrow> Cpu \<Rightarrow> Cpu" where
  "Cpu_set_delay_slot_branch_mode mode c = c\<lparr>cpu_delay_slot_branch_mode := mode\<rparr>"

definition Cpu_register :: "Cpu \<Rightarrow> nat \<Rightarrow> u32 option" where
  "Cpu_register c index =
     (if index < length (cpu_registers c) then Some (cpu_registers c ! index) else None)"

definition Cpu_write_register :: "nat \<Rightarrow> u32 \<Rightarrow> Cpu \<Rightarrow> Cpu" where
  "Cpu_write_register index v c =
     (if index \<noteq> 0 then c\<lparr>cpu_registers := (cpu_registers c)[index := v]\<rparr> else c)"

definition Cpu_set_register :: "nat \<Rightarrow> u32 \<Rightarrow> Cpu \<Rightarrow> bool \<times> Cpu" where
  "Cpu_set_register index v c =
     (if length (cpu_registers c) \<le> index then (False, c)
      else (True, Cpu_write_register index v c))"

definition Cpu_set_pc :: "u32 \<Rightarrow> Cpu \<Rightarrow> Cpu" where
  "Cpu_set_pc pc c =
     c\<lparr>cpu_pc := pc, cpu_next_pc := pc + 4, cpu_delay_slot := None, cpu_pending_load := None\<rparr>"

definition Cpu_set_hi_lo :: "u32 \<Rightarrow> u32 \<Rightarrow> Cpu \<Rightarrow> Cpu" where
  "Cpu_set_hi_lo hi lo c = c\<lparr>cpu_hi := hi, cpu_lo := lo\<rparr>"

section \<open>Pipeline helpers\<close>

definition Cpu_merge_base :: "Cpu \<Rightarrow> nat \<Rightarrow> u32" where
  "Cpu_merge_base c register =
     (case cpu_pending_load c of
        None \<Rightarrow> cpu_registers c ! register
      | Some (pending, v) \<Rightarrow> if pending = register then v else cpu_registers c ! register)"

definition Cpu_commit :: "(nat \<times> u32) option \<Rightarrow> Cpu \<Rightarrow> Cpu" where
  "Cpu_commit w c =
     (case w of None \<Rightarrow> c | Some (register, v) \<Rightarrow> Cpu_write_register register v c)"

definition Cpu_commit_old_load :: "(nat \<times> u32) option \<Rightarrow> Cpu \<Rightarrow> Cpu" where
  "Cpu_commit_old_load current_write c =
     Cpu_commit current_write (Cpu_commit (cpu_pending_load c) (c\<lparr>cpu_pending_load := None\<rparr>))"

definition Cpu_update_interrupt_line :: "bool \<Rightarrow> Cpu \<Rightarrow> Cpu" where
  "Cpu_update_interrupt_line pending c =
     (let cop0 = cpu_cop0 c in
      c\<lparr>cpu_cop0 := cop0\<lparr>cop0_cause :=
         (if pending then cop0_cause cop0 OR CAUSE_IP2 else cop0_cause cop0 AND NOT CAUSE_IP2)\<rparr>\<rparr>)"

definition Cpu_interrupt_enabled :: "Cpu \<Rightarrow> bool" where
  "Cpu_interrupt_enabled c \<longleftrightarrow>
     cop0_status (cpu_cop0 c) AND 1 \<noteq> 0 \<and>
     cop0_status (cpu_cop0 c) AND cop0_cause (cpu_cop0 c) AND 0xff00 \<noteq> 0"

definition exception_cause :: "Exception \<Rightarrow> u32 \<Rightarrow> u32" where
  "exception_cause exception cause =
     (cause AND NOT (0x7c OR CAUSE_BD)) OR push_bit 2 (Exception_code exception)"

definition status_push :: "u32 \<Rightarrow> u32" where
  "status_push status = (status AND NOT 0x3f) OR (push_bit 2 status AND 0x3f)"

definition status_pop :: "u32 \<Rightarrow> u32" where
  "status_pop status = (status AND NOT 0x0f) OR (drop_bit 2 status AND 0x0f)"

definition Cop0_enter_exception ::
  "Exception \<Rightarrow> u32 \<Rightarrow> u32 option \<Rightarrow> u32 option \<Rightarrow> Cop0 \<Rightarrow> Cop0" where
  "Cop0_enter_exception exception pc delay_branch_pc bad_vaddr c =
     (let cause = exception_cause exception (cop0_cause c);
          (cause, epc) = (case delay_branch_pc of
             Some branch_pc \<Rightarrow> (cause OR CAUSE_BD, branch_pc)
           | None \<Rightarrow> (cause, pc))
      in c\<lparr>cop0_cause := cause, cop0_epc := epc,
           cop0_bad_vaddr := (case bad_vaddr of Some address \<Rightarrow> address | None \<Rightarrow> cop0_bad_vaddr c),
           cop0_status := status_push (cop0_status c)\<rparr>)"

definition Cpu_enter_exception ::
  "Exception \<Rightarrow> u32 \<Rightarrow> u32 option \<Rightarrow> u32 option \<Rightarrow> Cpu \<Rightarrow> Cpu" where
  "Cpu_enter_exception exception pc delay_branch_pc bad_vaddr c =
     (let cop0 = Cop0_enter_exception exception pc delay_branch_pc bad_vaddr (cpu_cop0 c);
          vector = (if cop0_status cop0 AND STATUS_BEV \<noteq> 0
                    then profile_bootstrap_exception_vector (cpu_profile c)
                    else profile_exception_vector (cpu_profile c))
      in c\<lparr>cpu_cop0 := cop0, cpu_pc := vector, cpu_next_pc := vector + 4,
           cpu_delay_slot := None, cpu_pending_load := None\<rparr>)"

section \<open>Bus accesses\<close>

definition cpu_access ::
  "u32 \<Rightarrow> u32 \<Rightarrow> AccessType \<Rightarrow> (BusFault + 'v) \<times> 'b \<Rightarrow> (CpuError + 'v) \<times> 'b" where
  "cpu_access pc address access r =
     (map_err (\<lambda>source. \<lparr>error_pc = pc, error_address = address, error_access = access,
        error_source = source\<rparr>) (fst r), snd r)"

definition Cpu_load_u8 :: "'b Bus \<Rightarrow> u32 \<Rightarrow> u32 \<Rightarrow> 'b \<Rightarrow> (CpuError + u8) \<times> 'b" where
  "Cpu_load_u8 bus pc address b = cpu_access pc address AccessType_Load (Bus_read_u8 bus b address)"

definition Cpu_load_u16 :: "'b Bus \<Rightarrow> u32 \<Rightarrow> u32 \<Rightarrow> 'b \<Rightarrow> (CpuError + u16) \<times> 'b" where
  "Cpu_load_u16 bus pc address b = cpu_access pc address AccessType_Load (Bus_read_u16 bus b address)"

definition Cpu_load_u32 :: "'b Bus \<Rightarrow> u32 \<Rightarrow> u32 \<Rightarrow> 'b \<Rightarrow> (CpuError + u32) \<times> 'b" where
  "Cpu_load_u32 bus pc address b = cpu_access pc address AccessType_Load (Bus_read_u32 bus b address)"

definition Cpu_store_u8 :: "'b Bus \<Rightarrow> u32 \<Rightarrow> u32 \<Rightarrow> u8 \<Rightarrow> 'b \<Rightarrow> (CpuError + unit) \<times> 'b" where
  "Cpu_store_u8 bus pc address v b =
     cpu_access pc address AccessType_Store (Bus_write_u8 bus b address v)"

definition Cpu_store_u16 :: "'b Bus \<Rightarrow> u32 \<Rightarrow> u32 \<Rightarrow> u16 \<Rightarrow> 'b \<Rightarrow> (CpuError + unit) \<times> 'b" where
  "Cpu_store_u16 bus pc address v b =
     cpu_access pc address AccessType_Store (Bus_write_u16 bus b address v)"

definition Cpu_store_u32 :: "'b Bus \<Rightarrow> u32 \<Rightarrow> u32 \<Rightarrow> u32 \<Rightarrow> 'b \<Rightarrow> (CpuError + unit) \<times> 'b" where
  "Cpu_store_u32 bus pc address v b =
     cpu_access pc address AccessType_Store (Bus_write_u32 bus b address v)"

section \<open>Execution records\<close>

record Execution =
  x_register_write :: "(nat \<times> u32) option"
  x_delayed_write :: "(nat \<times> u32) option"
  x_branch_target :: "u32 option"
  x_is_branch :: bool
  x_exception :: "Exception option"
  x_bad_vaddr :: "u32 option"
  x_cycles :: u32

definition Execution_default :: Execution where
  "Execution_default =
     \<lparr>x_register_write = None, x_delayed_write = None, x_branch_target = None,
      x_is_branch = False, x_exception = None, x_bad_vaddr = None, x_cycles = 1\<rparr>"

definition Execution_write :: "nat \<Rightarrow> u32 \<Rightarrow> Execution \<Rightarrow> Execution" where
  "Execution_write register v e = e\<lparr>x_register_write := Some (register, v)\<rparr>"

definition Execution_load :: "nat \<Rightarrow> u32 \<Rightarrow> Execution \<Rightarrow> Execution" where
  "Execution_load register v e = e\<lparr>x_delayed_write := Some (register, v), x_cycles := 2\<rparr>"

definition Execution_branch :: "u32 \<Rightarrow> Execution \<Rightarrow> Execution" where
  "Execution_branch target e = e\<lparr>x_is_branch := True, x_branch_target := Some target\<rparr>"

definition Execution_conditional_branch :: "bool \<Rightarrow> u32 \<Rightarrow> i16 \<Rightarrow> Execution \<Rightarrow> Execution" where
  "Execution_conditional_branch condition pc immediate e =
     (let e = e\<lparr>x_is_branch := True\<rparr> in
      if condition then e\<lparr>x_branch_target := Some (pc + 4 + word_of_int (push_bit 2 immediate))\<rparr>
      else e)"

definition Execution_address_exception :: "Exception \<Rightarrow> u32 \<Rightarrow> Execution \<Rightarrow> Execution" where
  "Execution_address_exception exception address e =
     e\<lparr>x_exception := Some exception, x_bad_vaddr := Some address\<rparr>"

definition Execution_raise :: "Exception \<Rightarrow> Execution \<Rightarrow> Execution" where
  "Execution_raise exception e = e\<lparr>x_exception := Some exception\<rparr>"

definition Execution_set_cycles :: "u32 \<Rightarrow> Execution \<Rightarrow> Execution" where
  "Execution_set_cycles n e = e\<lparr>x_cycles := n\<rparr>"

definition jump_target :: "u32 \<Rightarrow> u32 \<Rightarrow> u32" where
  "jump_target pc instruction =
     ((pc + 4) AND 0xf0000000) OR push_bit 2 (instruction AND 0x03ffffff)"

definition to_i32 :: "u32 \<Rightarrow> i32" where "to_i32 v = sint v"

definition from_i32 :: "i32 \<Rightarrow> u32" where "from_i32 v = word_of_int v"

definition sign_extend :: "i16 \<Rightarrow> u32" where "sign_extend v = from_i32 v"

definition checked_i32 :: "int \<Rightarrow> i32 option" where
  "checked_i32 v = (if in_signed 32 v then Some v else None)"

definition signed_divide :: "u32 \<Rightarrow> u32 \<Rightarrow> u32 \<times> u32" where
  "signed_divide n d =
     (let numerator = to_i32 n; denominator = to_i32 d in
      if denominator = 0 then
        (from_i32 numerator, if numerator \<ge> 0 then - 1 else 1)
      else if numerator = - (2 ^ 31) \<and> denominator = - 1 then
        (0, from_i32 (- (2 ^ 31)))
      else
        (from_i32 (numerator smod denominator), from_i32 (numerator sdiv denominator)))"

section \<open>Instructions\<close>

definition execute_special ::
  "u32 \<Rightarrow> nat \<Rightarrow> nat \<Rightarrow> nat \<Rightarrow> nat \<Rightarrow> u32 \<Rightarrow> Cpu \<Rightarrow> Execution \<times> Cpu" where
  "execute_special pc rs rt rd shift function c =
     (let left = cpu_registers c ! rs;
          right = cpu_registers c ! rt;
          variable = unat (left AND 31);
          result = Execution_default
      in
      if function = 0x00 then (Execution_write rd (push_bit shift right) result, c)
      else if function = 0x02 then (Execution_write rd (drop_bit shift right) result, c)
      else if function = 0x03 then
        (Execution_write rd (from_i32 (drop_bit shift (to_i32 right))) result, c)
      else if function = 0x04 then (Execution_write rd (push_bit variable right) result, c)
      else if function = 0x06 then (Execution_write rd (drop_bit variable right) result, c)
      else if function = 0x07 then
        (Execution_write rd (from_i32 (drop_bit variable (to_i32 right))) result, c)
      else if function = 0x08 then (Execution_branch left result, c)
      else if function = 0x09 then
        (Execution_branch left (Execution_write rd (pc + 8) result), c)
      else if function = 0x0c then (Execution_raise Exception_Syscall result, c)
      else if function = 0x0d then (Execution_raise Exception_Break result, c)
      else if function = 0x10 then (Execution_write rd (cpu_hi c) result, c)
      else if function = 0x11 then (result, c\<lparr>cpu_hi := left\<rparr>)
      else if function = 0x12 then (Execution_write rd (cpu_lo c) result, c)
      else if function = 0x13 then (result, c\<lparr>cpu_lo := left\<rparr>)
      else if function = 0x18 then
        (let product = to_i32 left * to_i32 right in
         (Execution_set_cycles 6 result,
          c\<lparr>cpu_lo := word_of_int product, cpu_hi := word_of_int (drop_bit 32 product)\<rparr>))
      else if function = 0x19 then
        (let product = uint left * uint right in
         (Execution_set_cycles 6 result,
          c\<lparr>cpu_lo := word_of_int product, cpu_hi := word_of_int (drop_bit 32 product)\<rparr>))
      else if function = 0x1a then
        (let (hi, lo) = signed_divide left right in
         (Execution_set_cycles 10 result, c\<lparr>cpu_hi := hi, cpu_lo := lo\<rparr>))
      else if function = 0x1b then
        (Execution_set_cycles 10 result,
         if right = 0 then c\<lparr>cpu_hi := left, cpu_lo := - 1\<rparr>
         else c\<lparr>cpu_hi := left mod right, cpu_lo := left div right\<rparr>)
      else if function = 0x20 then
        (case checked_i32 (to_i32 left + to_i32 right) of
           Some v \<Rightarrow> (Execution_write rd (from_i32 v) result, c)
         | None \<Rightarrow> (Execution_raise Exception_Overflow result, c))
      else if function = 0x21 then (Execution_write rd (left + right) result, c)
      else if function = 0x22 then
        (case checked_i32 (to_i32 left - to_i32 right) of
           Some v \<Rightarrow> (Execution_write rd (from_i32 v) result, c)
         | None \<Rightarrow> (Execution_raise Exception_Overflow result, c))
      else if function = 0x23 then (Execution_write rd (left - right) result, c)
      else if function = 0x24 then (Execution_write rd (left AND right) result, c)
      else if function = 0x25 then (Execution_write rd (left OR right) result, c)
      else if function = 0x26 then (Execution_write rd (left XOR right) result, c)
      else if function = 0x27 then (Execution_write rd (NOT (left OR right)) result, c)
      else if function = 0x2a then
        (Execution_write rd (of_bool (to_i32 left < to_i32 right)) result, c)
      else if function = 0x2b then (Execution_write rd (of_bool (left < right)) result, c)
      else (Execution_raise Exception_ReservedInstruction result, c))"

definition execute_regimm :: "u32 \<Rightarrow> nat \<Rightarrow> nat \<Rightarrow> i16 \<Rightarrow> Cpu \<Rightarrow> Execution" where
  "execute_regimm pc rs rt signed_immediate c =
     (let left = cpu_registers c ! rs;
          result = Execution_default;
          (condition, result) =
            (if rt = 0x00 then (to_i32 left < 0, result)
             else if rt = 0x01 then (to_i32 left \<ge> 0, result)
             else if rt = 0x10 then (to_i32 left < 0, Execution_write 31 (pc + 8) result)
             else if rt = 0x11 then (to_i32 left \<ge> 0, Execution_write 31 (pc + 8) result)
             else (False, Execution_raise Exception_ReservedInstruction result))
      in if x_exception result = None
         then Execution_conditional_branch condition pc signed_immediate result else result)"

definition execute_immediate ::
  "u32 \<Rightarrow> u32 \<Rightarrow> u32 \<Rightarrow> nat \<Rightarrow> nat \<Rightarrow> Cpu \<Rightarrow> Execution" where
  "execute_immediate pc instruction opcode rs rt c =
     (let left = cpu_registers c ! rs;
          right = cpu_registers c ! rt;
          immediate = (ucast instruction :: u16);
          signed_immediate = sint immediate;
          result = Execution_default
      in
      if opcode = 0x02 then Execution_branch (jump_target pc instruction) result
      else if opcode = 0x03 then
        Execution_branch (jump_target pc instruction) (Execution_write 31 (pc + 8) result)
      else if opcode = 0x04 then
        Execution_conditional_branch (left = right) pc signed_immediate result
      else if opcode = 0x05 then
        Execution_conditional_branch (left \<noteq> right) pc signed_immediate result
      else if opcode = 0x06 then
        Execution_conditional_branch (to_i32 left \<le> 0) pc signed_immediate result
      else if opcode = 0x07 then
        Execution_conditional_branch (to_i32 left > 0) pc signed_immediate result
      else if opcode = 0x08 then
        (case checked_i32 (to_i32 left + signed_immediate) of
           Some v \<Rightarrow> Execution_write rt (from_i32 v) result
         | None \<Rightarrow> Execution_raise Exception_Overflow result)
      else if opcode = 0x09 then
        Execution_write rt (left + word_of_int signed_immediate) result
      else if opcode = 0x0a then
        Execution_write rt (of_bool (to_i32 left < signed_immediate)) result
      else if opcode = 0x0b then
        Execution_write rt (of_bool (left < sign_extend signed_immediate)) result
      else if opcode = 0x0c then Execution_write rt (left AND ucast immediate) result
      else if opcode = 0x0d then Execution_write rt (left OR ucast immediate) result
      else if opcode = 0x0e then Execution_write rt (left XOR ucast immediate) result
      else Execution_write rt (push_bit 16 (ucast immediate)) result)"

definition Cpu_execute_cop0 :: "nat \<Rightarrow> nat \<Rightarrow> nat \<Rightarrow> u32 \<Rightarrow> Cpu \<Rightarrow> Execution \<times> Cpu" where
  "Cpu_execute_cop0 rs rt rd function c =
     (let result = Execution_default in
      if rs = 0x00 then
        (case Cop0_read (cpu_cop0 c) rd of
           Some v \<Rightarrow> (Execution_load rt v result, c)
         | None \<Rightarrow> (Execution_raise Exception_ReservedInstruction result, c))
      else if rs = 0x04 then
        (let (ok, cop0) = Cop0_write (cpu_cop0 c) rd (cpu_registers c ! rt) in
         (if ok then result else Execution_raise Exception_ReservedInstruction result,
          c\<lparr>cpu_cop0 := cop0\<rparr>))
      else if rs = 0x10 \<and> function = 0x10 then
        (let cop0 = cpu_cop0 c in
         (result, c\<lparr>cpu_cop0 := cop0\<lparr>cop0_status := status_pop (cop0_status cop0)\<rparr>\<rparr>))
      else (Execution_raise Exception_ReservedInstruction result, c))"

definition Cpu_execute_cop2 :: "nat \<Rightarrow> nat \<Rightarrow> nat \<Rightarrow> Cpu \<Rightarrow> Execution \<times> Cpu" where
  "Cpu_execute_cop2 rs rt rd c =
     (let result = Execution_default in
      if rs = 0x00 then (Execution_load rt (cpu_cop2_data c ! rd) result, c)
      else if rs = 0x02 then (Execution_load rt (cpu_cop2_control c ! rd) result, c)
      else if rs = 0x04 then
        (result, c\<lparr>cpu_cop2_data := (cpu_cop2_data c)[rd := cpu_registers c ! rt]\<rparr>)
      else if rs = 0x06 then
        (result, c\<lparr>cpu_cop2_control := (cpu_cop2_control c)[rd := cpu_registers c ! rt]\<rparr>)
      else if 0x10 \<le> rs \<and> rs \<le> 0x1f then (result, c)
      else (Execution_raise Exception_ReservedInstruction result, c))"

definition lwl_value :: "u32 \<Rightarrow> u32 \<Rightarrow> u32 \<Rightarrow> u32" where
  "lwl_value address base w =
     (if address AND 3 = 0 then (base AND 0x00ffffff) OR push_bit 24 w
      else if address AND 3 = 1 then (base AND 0x0000ffff) OR push_bit 16 w
      else if address AND 3 = 2 then (base AND 0x000000ff) OR push_bit 8 w
      else w)"

definition lwr_value :: "u32 \<Rightarrow> u32 \<Rightarrow> u32 \<Rightarrow> u32" where
  "lwr_value address base w =
     (if address AND 3 = 0 then w
      else if address AND 3 = 1 then (base AND 0xff000000) OR drop_bit 8 w
      else if address AND 3 = 2 then (base AND 0xffff0000) OR drop_bit 16 w
      else (base AND 0xffffff00) OR drop_bit 24 w)"

definition swl_value :: "u32 \<Rightarrow> u32 \<Rightarrow> u32 \<Rightarrow> u32" where
  "swl_value address old right =
     (if address AND 3 = 0 then (old AND 0xffffff00) OR drop_bit 24 right
      else if address AND 3 = 1 then (old AND 0xffff0000) OR drop_bit 16 right
      else if address AND 3 = 2 then (old AND 0xff000000) OR drop_bit 8 right
      else right)"

definition swr_value :: "u32 \<Rightarrow> u32 \<Rightarrow> u32 \<Rightarrow> u32" where
  "swr_value address old right =
     (if address AND 3 = 0 then right
      else if address AND 3 = 1 then (old AND 0x000000ff) OR push_bit 8 right
      else if address AND 3 = 2 then (old AND 0x0000ffff) OR push_bit 16 right
      else (old AND 0x00ffffff) OR push_bit 24 right)"

text \<open>\<open>loaded rt f r\<close> is the tail of a load arm: \<open>?\<close> on the access, then \<open>Execution::load\<close>.\<close>

definition loaded ::
  "nat \<Rightarrow> ('v \<Rightarrow> u32) \<Rightarrow> (CpuError + 'v) \<times> 'b \<Rightarrow> (CpuError + Execution) \<times> 'b" where
  "loaded rt f r = (and_then (fst r) (\<lambda>v. Inr (Execution_load rt (f v) Execution_default)), snd r)"

definition stored :: "(CpuError + unit) \<times> 'b \<Rightarrow> (CpuError + Execution) \<times> 'b" where
  "stored r = (and_then (fst r) (\<lambda>_. Inr (Execution_set_cycles 2 Execution_default)), snd r)"

definition misaligned :: "Exception \<Rightarrow> u32 \<Rightarrow> 'b \<Rightarrow> (CpuError + Execution) \<times> 'b" where
  "misaligned exception address b =
     (Inr (Execution_address_exception exception address Execution_default), b)"

definition traps_misaligned_word :: "u32 \<Rightarrow> Cpu \<Rightarrow> bool" where
  "traps_misaligned_word address c \<longleftrightarrow>
     address AND 3 \<noteq> 0 \<and> cpu_word_alignment_mode c = WordAlignmentMode_Architectural"

definition execute_load ::
  "'b Bus \<Rightarrow> u32 \<Rightarrow> u32 \<Rightarrow> nat \<Rightarrow> u32 \<Rightarrow> Cpu \<Rightarrow> 'b \<Rightarrow> (CpuError + Execution) \<times> 'b" where
  "execute_load bus pc opcode rt address c b =
     (if opcode = 0x20 then
        loaded rt (\<lambda>v. sign_extend (sint v)) (Cpu_load_u8 bus pc address b)
      else if opcode = 0x21 then
        (if address AND 1 \<noteq> 0 then misaligned Exception_AddressLoad address b
         else loaded rt (\<lambda>v. sign_extend (sint v)) (Cpu_load_u16 bus pc address b))
      else if opcode = 0x22 then
        loaded rt (lwl_value address (Cpu_merge_base c rt))
          (Cpu_load_u32 bus pc (address AND NOT 3) b)
      else if opcode = 0x23 then
        (if traps_misaligned_word address c then misaligned Exception_AddressLoad address b
         else loaded rt (\<lambda>v. v) (Cpu_load_u32 bus pc (address AND NOT 3) b))
      else if opcode = 0x24 then loaded rt (\<lambda>v. ucast v) (Cpu_load_u8 bus pc address b)
      else if opcode = 0x25 then
        (if address AND 1 \<noteq> 0 then misaligned Exception_AddressLoad address b
         else loaded rt (\<lambda>v. ucast v) (Cpu_load_u16 bus pc address b))
      else
        loaded rt (lwr_value address (Cpu_merge_base c rt))
          (Cpu_load_u32 bus pc (address AND NOT 3) b))"

definition execute_merge_store ::
  "'b Bus \<Rightarrow> u32 \<Rightarrow> u32 \<Rightarrow> (u32 \<Rightarrow> u32) \<Rightarrow> 'b \<Rightarrow> (CpuError + Execution) \<times> 'b" where
  "execute_merge_store bus pc aligned merge b =
     (case Cpu_load_u32 bus pc aligned b of
        (Inl e, b) \<Rightarrow> (Inl e, b)
      | (Inr old, b) \<Rightarrow> stored (Cpu_store_u32 bus pc aligned (merge old) b))"

definition execute_store ::
  "'b Bus \<Rightarrow> u32 \<Rightarrow> u32 \<Rightarrow> u32 \<Rightarrow> u32 \<Rightarrow> Cpu \<Rightarrow> 'b \<Rightarrow> (CpuError + Execution) \<times> 'b" where
  "execute_store bus pc opcode right address c b =
     (if opcode = 0x28 then stored (Cpu_store_u8 bus pc address (ucast right) b)
      else if opcode = 0x29 then
        (if address AND 1 \<noteq> 0 then misaligned Exception_AddressStore address b
         else stored (Cpu_store_u16 bus pc address (ucast right) b))
      else if opcode = 0x2a then
        execute_merge_store bus pc (address AND NOT 3) (\<lambda>old. swl_value address old right) b
      else if opcode = 0x2b then
        (if traps_misaligned_word address c then misaligned Exception_AddressStore address b
         else stored (Cpu_store_u32 bus pc (address AND NOT 3) right b))
      else
        execute_merge_store bus pc (address AND NOT 3) (\<lambda>old. swr_value address old right) b)"

definition execute_lwc2 ::
  "'b Bus \<Rightarrow> u32 \<Rightarrow> nat \<Rightarrow> u32 \<Rightarrow> Cpu \<Rightarrow> 'b \<Rightarrow> (CpuError + Execution) \<times> Cpu \<times> 'b" where
  "execute_lwc2 bus pc rt address c b =
     (if traps_misaligned_word address c then
        (Inr (Execution_address_exception Exception_AddressLoad address Execution_default), c, b)
      else (case Cpu_load_u32 bus pc (address AND NOT 3) b of
         (Inl e, b) \<Rightarrow> (Inl e, c, b)
       | (Inr v, b) \<Rightarrow> (Inr (Execution_set_cycles 2 Execution_default),
            c\<lparr>cpu_cop2_data := (cpu_cop2_data c)[rt := v]\<rparr>, b)))"

definition execute_swc2 ::
  "'b Bus \<Rightarrow> u32 \<Rightarrow> nat \<Rightarrow> u32 \<Rightarrow> Cpu \<Rightarrow> 'b \<Rightarrow> (CpuError + Execution) \<times> 'b" where
  "execute_swc2 bus pc rt address c b =
     (if traps_misaligned_word address c then misaligned Exception_AddressStore address b
      else stored (Cpu_store_u32 bus pc (address AND NOT 3) (cpu_cop2_data c ! rt) b))"

definition instruction_field :: "nat \<Rightarrow> u32 \<Rightarrow> nat" where
  "instruction_field offset instruction = unat (drop_bit offset instruction AND 31)"

definition Cpu_execute ::
  "'b Bus \<Rightarrow> u32 \<Rightarrow> u32 \<Rightarrow> Cpu \<Rightarrow> 'b \<Rightarrow> (CpuError + Execution) \<times> Cpu \<times> 'b" where
  "Cpu_execute bus pc instruction c b =
     (let opcode = drop_bit 26 instruction;
          rs = instruction_field 21 instruction;
          rt = instruction_field 16 instruction;
          rd = instruction_field 11 instruction;
          shift = instruction_field 6 instruction;
          function = instruction AND 63;
          signed_immediate = sint (ucast instruction :: u16);
          address = cpu_registers c ! rs + word_of_int signed_immediate;
          stub = (cpu_coprocessor2_mode c = Coprocessor2Mode_Stub);
          pure = (\<lambda>r. (Inr r, c, b));
          local = (\<lambda>(r, c'). (Inr r, c', b));
          memory = (\<lambda>(r, b'). (r, c, b'))
      in
      if opcode = 0x00 then local (execute_special pc rs rt rd shift function c)
      else if opcode = 0x01 then pure (execute_regimm pc rs rt signed_immediate c)
      else if 0x02 \<le> opcode \<and> opcode \<le> 0x0f then
        pure (execute_immediate pc instruction opcode rs rt c)
      else if opcode = 0x10 then local (Cpu_execute_cop0 rs rt rd function c)
      else if opcode = 0x12 \<and> stub then local (Cpu_execute_cop2 rs rt rd c)
      else if 0x11 \<le> opcode \<and> opcode \<le> 0x13 then
        pure (Execution_raise Exception_CoprocessorUnusable Execution_default)
      else if 0x20 \<le> opcode \<and> opcode \<le> 0x26 then
        memory (execute_load bus pc opcode rt address c b)
      else if opcode \<in> {0x28, 0x29, 0x2a, 0x2b, 0x2e} then
        memory (execute_store bus pc opcode (cpu_registers c ! rt) address c b)
      else if opcode = 0x32 \<and> stub then execute_lwc2 bus pc rt address c b
      else if opcode = 0x3a \<and> stub then memory (execute_swc2 bus pc rt address c b)
      else if 0x30 \<le> opcode \<and> opcode \<le> 0x33 \<or> 0x38 \<le> opcode \<and> opcode \<le> 0x3b then
        pure (Execution_raise Exception_CoprocessorUnusable Execution_default)
      else pure (Execution_raise Exception_ReservedInstruction Execution_default))"

section \<open>Steps\<close>

definition step_exception :: "Exception \<Rightarrow> u32 \<Rightarrow> u32 option \<Rightarrow> u32 option \<Rightarrow> Cpu \<Rightarrow> Cpu" where
  "step_exception exception pc delay_branch_pc bad_vaddr c =
     Cpu_enter_exception exception pc delay_branch_pc bad_vaddr (Cpu_commit_old_load None c)"

definition step_retire ::
  "u32 \<Rightarrow> DelaySlotState option \<Rightarrow> Execution \<Rightarrow> Cpu \<Rightarrow> Cpu" where
  "step_retire current_pc delay_slot execution c =
     (let c = Cpu_commit_old_load (x_register_write execution) c;
          c = (case cpu_load_delay_mode c of
                 LoadDelayMode_Architectural \<Rightarrow> c\<lparr>cpu_pending_load := x_delayed_write execution\<rparr>
               | LoadDelayMode_Interlocked \<Rightarrow>
                   (Cpu_commit (x_delayed_write execution) c)\<lparr>cpu_pending_load := None\<rparr>);
          suppress_nested_branch = (x_is_branch execution
            \<and> (case delay_slot of None \<Rightarrow> False | Some state \<Rightarrow> ds_branch_taken state)
            \<and> cpu_delay_slot_branch_mode c = DelaySlotBranchMode_SuppressWhenOuterTaken);
          branch_target = (if suppress_nested_branch then None else x_branch_target execution);
          is_branch = (x_is_branch execution \<and> \<not> suppress_nested_branch);
          sequential = cpu_next_pc c
      in c\<lparr>cpu_pc := sequential,
           cpu_next_pc := (case branch_target of Some target \<Rightarrow> target | None \<Rightarrow> sequential + 4),
           cpu_delay_slot := (if is_branch
             then Some \<lparr>ds_branch_pc = current_pc, ds_branch_taken = (branch_target \<noteq> None)\<rparr>
             else None),
           cpu_registers := (cpu_registers c)[0 := 0]\<rparr>)"

definition step_sample :: "'b Bus \<Rightarrow> bool \<Rightarrow> 'b \<Rightarrow> Cpu \<Rightarrow> Cpu" where
  "step_sample bus sample_external_interrupt b c =
     (if sample_external_interrupt
      then Cpu_update_interrupt_line (Bus_interrupt_pending bus b) c else c)"

definition Cpu_step_inner ::
  "'b Bus \<Rightarrow> bool \<Rightarrow> Cpu \<Rightarrow> 'b \<Rightarrow> (CpuError + StepOutcome) \<times> Cpu \<times> 'b" where
  "Cpu_step_inner bus sample_external_interrupt c b =
     (let c = step_sample bus sample_external_interrupt b c;
          current_pc = cpu_pc c;
          delay_slot = cpu_delay_slot c;
          delay_branch_pc = map_option ds_branch_pc delay_slot;
          outcome = (\<lambda>instruction cycles event.
            Inr \<lparr>outcome_pc = current_pc, outcome_instruction = instruction,
                 outcome_cycles = cycles, outcome_event = event\<rparr>)
      in
      if sample_external_interrupt \<and> Cpu_interrupt_enabled c then
        (outcome None 1 (StepEvent_Exception Exception_Interrupt),
         step_exception Exception_Interrupt current_pc delay_branch_pc None c, b)
      else if current_pc AND 3 \<noteq> 0 then
        (outcome None 1 (StepEvent_Exception Exception_AddressLoad),
         step_exception Exception_AddressLoad current_pc delay_branch_pc (Some current_pc) c, b)
      else
        (case cpu_access current_pc current_pc AccessType_Instruction
                (Bus_read_u32 bus b current_pc) of
           (Inl e, b) \<Rightarrow> (Inl e, c, b)
         | (Inr instruction, b) \<Rightarrow>
             (case Cpu_execute bus current_pc instruction c b of
                (Inl e, c, b) \<Rightarrow> (Inl e, c, b)
              | (Inr execution, c, b) \<Rightarrow>
                  (case x_exception execution of
                     Some exception \<Rightarrow>
                       (outcome (Some instruction) (x_cycles execution)
                          (StepEvent_Exception exception),
                        step_exception exception current_pc delay_branch_pc
                          (x_bad_vaddr execution) c, b)
                   | None \<Rightarrow>
                       (outcome (Some instruction) (x_cycles execution) StepEvent_Instruction,
                        step_retire current_pc delay_slot execution c, b)))))"

definition Cpu_step :: "'b Bus \<Rightarrow> Cpu \<Rightarrow> 'b \<Rightarrow> (CpuError + StepOutcome) \<times> Cpu \<times> 'b" where
  "Cpu_step bus c b = Cpu_step_inner bus True c b"

definition Cpu_step_without_external_interrupts ::
  "'b Bus \<Rightarrow> Cpu \<Rightarrow> 'b \<Rightarrow> (CpuError + StepOutcome) \<times> Cpu \<times> 'b" where
  "Cpu_step_without_external_interrupts bus c b = Cpu_step_inner bus False c b"

record TraceRecord =
  trace_outcome :: StepOutcome
  trace_registers :: "u32 list"
  trace_hi :: u32
  trace_lo :: u32

definition Cpu_step_traced ::
  "'b Bus \<Rightarrow> (TraceRecord \<Rightarrow> 't \<Rightarrow> 't) \<Rightarrow> Cpu \<Rightarrow> 'b \<Rightarrow> 't \<Rightarrow>
   (CpuError + StepOutcome) \<times> Cpu \<times> 'b \<times> 't" where
  "Cpu_step_traced bus trace c b sink =
     (case Cpu_step bus c b of
        (Inl e, c, b) \<Rightarrow> (Inl e, c, b, sink)
      | (Inr outcome, c, b) \<Rightarrow>
          (Inr outcome, c, b,
           trace \<lparr>trace_outcome = outcome, trace_registers = cpu_registers c,
                  trace_hi = cpu_hi c, trace_lo = cpu_lo c\<rparr> sink))"

end
