(* ===== verification/R3000_Proofs.thy ===== *)
theory R3000_Proofs
  imports R3000
begin

text \<open>
  What the MIPS-I interpreter guarantees: the invariant of every reachable CPU, atomic bus
  faults, precise exceptions, the exception status stack, exact multiplication and division,
  and the unaligned load and store pairs over any memory that keeps the contract
  \<open>word_bus\<close>. Each arm of \<open>Cpu::execute\<close> contributes one fact (\<open>special_ok\<close>, \<open>load_ok\<close>, ...),
  collected in \<open>execute_ok\<close>.
\<close>

section \<open>What one instruction can do\<close>

lemma instruction_field_less: "instruction_field k i < 32"
proof -
  have "drop_bit k i AND 31 \<le> 31" by (rule word_and_le1)
  then show ?thesis by (simp add: instruction_field_def word_le_nat_alt)
qed

lemmas cpu_access_defs = Cpu_load_u8_def Cpu_load_u16_def Cpu_load_u32_def
  Cpu_store_u8_def Cpu_store_u16_def Cpu_store_u32_def cpu_access_def

lemmas execution_simps = Execution_default_def Execution_write_def Execution_load_def
  Execution_branch_def Execution_conditional_branch_def Execution_address_exception_def
  Execution_raise_def Execution_set_cycles_def

definition exec_wf :: "Execution \<Rightarrow> bool" where
  "exec_wf e \<longleftrightarrow>
     (case x_register_write e of None \<Rightarrow> True | Some (r, _) \<Rightarrow> r < 32) \<and>
     (case x_delayed_write e of None \<Rightarrow> True | Some (r, _) \<Rightarrow> r < 32) \<and>
     x_cycles e \<in> {1, 2, 6, 10} \<and>
     (x_bad_vaddr e \<noteq> None \<longrightarrow> x_exception e \<in> {Some Exception_AddressLoad, Some Exception_AddressStore})
     \<and> x_exception e \<noteq> Some Exception_Interrupt
     \<and> (x_branch_target e \<noteq> None \<longrightarrow> x_is_branch e)"

definition arm_ok :: "Cpu \<Rightarrow> Execution \<Rightarrow> Cpu \<Rightarrow> bool" where
  "arm_ok c e c' \<longleftrightarrow> exec_wf e \<and> (x_exception e \<noteq> None \<longrightarrow> c' = c) \<and>
    (\<exists>hi lo cop0 d ctl. c' = c\<lparr>cpu_hi := hi, cpu_lo := lo, cpu_cop0 := cop0, cpu_cop2_data := d,
        cpu_cop2_control := ctl\<rparr> \<and> length d = length (cpu_cop2_data c)
         \<and> length ctl = length (cpu_cop2_control c)
         \<and> cop0_processor_id cop0 = cop0_processor_id (cpu_cop0 c))"

lemma arm_ok_same [simp]: "arm_ok c e c \<longleftrightarrow> exec_wf e"
  by (cases c) (auto simp: arm_ok_def)

lemma exec_wf_simps [simp]:
  "exec_wf Execution_default"
  "r < 32 \<Longrightarrow> exec_wf (Execution_write r v Execution_default)"
  "r < 32 \<Longrightarrow> exec_wf (Execution_load r v Execution_default)"
  "exec_wf e \<Longrightarrow> exec_wf (Execution_branch t e)"
  "exec_wf e \<Longrightarrow> exec_wf (Execution_conditional_branch b pc i e)"
  "exec_wf (Execution_raise x Execution_default) \<longleftrightarrow> x \<noteq> Exception_Interrupt"
  "exec_wf (Execution_set_cycles n Execution_default) \<longleftrightarrow> n \<in> {1, 2, 6, 10}"
  "exec_wf (Execution_address_exception Exception_AddressLoad a Execution_default)"
  "exec_wf (Execution_address_exception Exception_AddressStore a Execution_default)"
  by (auto simp: exec_wf_def execution_simps Let_def)

lemma arm_ok_hi_lo [simp]:
  "x_exception e = None \<Longrightarrow> arm_ok c e (c\<lparr>cpu_hi := h\<rparr>) \<longleftrightarrow> exec_wf e"
  "x_exception e = None \<Longrightarrow> arm_ok c e (c\<lparr>cpu_lo := h\<rparr>) \<longleftrightarrow> exec_wf e"
  "x_exception e = None \<Longrightarrow> arm_ok c e (c\<lparr>cpu_lo := l, cpu_hi := h\<rparr>) \<longleftrightarrow> exec_wf e"
  by (cases c; auto simp: arm_ok_def)+

lemma exception_simps [simp]:
  "x_exception Execution_default = None"
  "x_exception (Execution_write r v e) = x_exception e"
  "x_exception (Execution_load r v e) = x_exception e"
  "x_exception (Execution_branch t e) = x_exception e"
  "x_exception (Execution_conditional_branch b pc i e) = x_exception e"
  "x_exception (Execution_raise x e) = Some x"
  "x_exception (Execution_set_cycles n e) = x_exception e"
  "x_exception (Execution_address_exception x a e) = Some x"
  by (auto simp: execution_simps Let_def)

lemma upd_comm: "c\<lparr>cpu_hi := h, cpu_lo := l\<rparr> = c\<lparr>cpu_lo := l, cpu_hi := h\<rparr>"
  by (cases c) simp

lemma if_both: "(b \<Longrightarrow> P x) \<Longrightarrow> (\<not> b \<Longrightarrow> P y) \<Longrightarrow> P (if b then x else y)"
  by simp

lemma special_ok:
  assumes "rd < 32"
  shows "case_prod (arm_ok c) (execute_special pc rs rt rd sh f c)"
  unfolding execute_special_def Let_def
  by (intro if_both [where P = "case_prod (arm_ok c)"])
    (simp_all add: assms case_prod_beta upd_comm split: option.split)

lemma regimm_ok: "exec_wf (execute_regimm pc rs rt i c)"
  by (auto simp: execute_regimm_def Let_def)

lemma immediate_ok: "rt < 32 \<Longrightarrow> exec_wf (execute_immediate pc i op rs rt c)"
  unfolding execute_immediate_def Let_def
  by (intro if_both [where P = exec_wf]) (simp_all split: option.split)

lemma cop0_ok:
  assumes "rt < 32"
  shows "case_prod (arm_ok c) (Cpu_execute_cop0 rs rt rd f c)"
proof -
  have same: "c\<lparr>cpu_cop0 := cpu_cop0 c\<rparr> = c" by (cases c) simp
  have upd: "arm_ok c Execution_default (c\<lparr>cpu_cop0 := k\<rparr>)"
    if "cop0_processor_id k = cop0_processor_id (cpu_cop0 c)" for k
    using that by (cases c) (auto simp: arm_ok_def)
  show ?thesis
    unfolding Cpu_execute_cop0_def Let_def
    by (intro if_both [where P = "case_prod (arm_ok c)"])
      (simp_all add: assms same upd Cop0_write_def split: option.split)
qed

lemma cop2_ok:
  assumes "rt < 32"
  shows "case_prod (arm_ok c) (Cpu_execute_cop2 rs rt rd c)"
proof -
  have data: "arm_ok c Execution_default (c\<lparr>cpu_cop2_data := (cpu_cop2_data c)[i := v]\<rparr>)" for i v
    by (cases c) (auto simp: arm_ok_def)
  have ctl: "arm_ok c Execution_default (c\<lparr>cpu_cop2_control := (cpu_cop2_control c)[i := v]\<rparr>)" for i v
    by (cases c) (auto simp: arm_ok_def)
  show ?thesis
    unfolding Cpu_execute_cop2_def Let_def
    by (intro if_both [where P = "case_prod (arm_ok c)"]) (simp_all add: assms data ctl)
qed

text \<open>What every memory arm guarantees.\<close>

definition fault_ok :: "u32 \<Rightarrow> CpuError \<Rightarrow> bool" where
  "fault_ok pc e \<longleftrightarrow> error_pc e = pc \<and> error_access e \<noteq> AccessType_Instruction"

lemma access_fault_ok:
  "fst (Cpu_load_u8 bus pc a b) = Inl e \<Longrightarrow> fault_ok pc e"
  "fst (Cpu_load_u16 bus pc a b) = Inl e \<Longrightarrow> fault_ok pc e"
  "fst (Cpu_load_u32 bus pc a b) = Inl e \<Longrightarrow> fault_ok pc e"
  "fst (Cpu_store_u8 bus pc a v8 b) = Inl e \<Longrightarrow> fault_ok pc e"
  "fst (Cpu_store_u16 bus pc a v16 b) = Inl e \<Longrightarrow> fault_ok pc e"
  "fst (Cpu_store_u32 bus pc a v b) = Inl e \<Longrightarrow> fault_ok pc e"
  by (auto simp: cpu_access_defs fault_ok_def map_err_def split: sum.splits)

definition mem_ok :: "u32 \<Rightarrow> 'b \<Rightarrow> (CpuError + Execution) \<times> 'b \<Rightarrow> bool" where
  "mem_ok pc b r \<longleftrightarrow> (case r of
     (Inl e, _) \<Rightarrow> fault_ok pc e
   | (Inr e, b') \<Rightarrow> exec_wf e \<and> (x_exception e \<noteq> None \<longrightarrow> b' = b))"

lemma mem_ok_simps [simp]:
  "rt < 32 \<Longrightarrow> (\<And>e. fst r = Inl e \<Longrightarrow> fault_ok pc e) \<Longrightarrow> mem_ok pc b (loaded rt f r)"
  "(\<And>e. fst s = Inl e \<Longrightarrow> fault_ok pc e) \<Longrightarrow> mem_ok pc b (stored s)"
  "mem_ok pc b (misaligned Exception_AddressLoad a b)"
  "mem_ok pc b (misaligned Exception_AddressStore a b)"
  by (cases r; cases s; auto simp: mem_ok_def loaded_def stored_def misaligned_def and_then_def
    split: sum.split)+

lemma load_ok: "rt < 32 \<Longrightarrow> mem_ok pc b (execute_load bus pc op rt a c b)"
  unfolding execute_load_def
  by (intro if_both [where P = "mem_ok pc b"]) (simp_all add: access_fault_ok)

lemma store_ok: "mem_ok pc b (execute_store bus pc op v a c b)"
proof -
  have "mem_ok pc b (execute_merge_store bus pc a m b)" for a m
  proof (cases "Cpu_load_u32 bus pc a b")
    case (Pair r b')
    then show ?thesis
      using access_fault_ok(3) [of bus pc a b]
      by (cases r) (auto simp: execute_merge_store_def access_fault_ok, simp add: mem_ok_def)
  qed
  then show ?thesis
    unfolding execute_store_def
    by (intro if_both [where P = "mem_ok pc b"]) (simp_all add: access_fault_ok)
qed

lemma swc2_ok: "mem_ok pc b (execute_swc2 bus pc rt a c b)"
  by (simp add: execute_swc2_def access_fault_ok)

definition step_ok :: "u32 \<Rightarrow> Cpu \<Rightarrow> 'b \<Rightarrow> (CpuError + Execution) \<times> Cpu \<times> 'b \<Rightarrow> bool" where
  "step_ok pc c b r \<longleftrightarrow> (case r of
     (Inl e, c', _) \<Rightarrow> c' = c \<and> fault_ok pc e
   | (Inr e, c', b') \<Rightarrow> arm_ok c e c' \<and> (x_exception e \<noteq> None \<longrightarrow> b' = b))"

lemma step_ok_lift:
  "exec_wf e \<Longrightarrow> step_ok pc c b (Inr e, c, b)"
  "case_prod (arm_ok c) r \<Longrightarrow> step_ok pc c b (case r of (e, c') \<Rightarrow> (Inr e, c', b))"
  "mem_ok pc b m \<Longrightarrow> step_ok pc c b (case m of (e, b') \<Rightarrow> (e, c, b'))"
  by (auto simp: step_ok_def mem_ok_def split: prod.splits sum.splits)

lemma lwc2_ok: "step_ok pc c b (execute_lwc2 bus pc rt a c b)"
proof -
  have "arm_ok c (Execution_set_cycles 2 Execution_default) (c\<lparr>cpu_cop2_data := (cpu_cop2_data c)[i := v]\<rparr>)" for i v
    by (cases c) (auto simp: arm_ok_def)
  then show ?thesis
    using access_fault_ok(3) [of bus pc "a AND NOT 3" b]
    by (auto simp: execute_lwc2_def step_ok_def split: prod.split sum.split)
qed

lemma execute_ok: "step_ok pc c b (Cpu_execute bus pc i c b)"
  unfolding Cpu_execute_def Let_def
  by (intro if_both [where P = "step_ok pc c b"] step_ok_lift special_ok regimm_ok immediate_ok
      cop0_ok cop2_ok load_ok store_ok swc2_ok lwc2_ok instruction_field_less)
    simp_all

section \<open>The CPU invariant\<close>

definition pending_ok :: "LoadDelayMode \<Rightarrow> (nat \<times> u32) option \<Rightarrow> bool" where
  "pending_ok mode p \<longleftrightarrow>
     (\<forall>r v. p = Some (r, v) \<longrightarrow> r < 32 \<and> mode = LoadDelayMode_Architectural)"

definition fetch_ok :: "DelaySlotState option \<Rightarrow> u32 \<Rightarrow> u32 \<Rightarrow> bool" where
  "fetch_ok delay_slot pc next_pc \<longleftrightarrow>
     (case delay_slot of None \<Rightarrow> False | Some d \<Rightarrow> ds_branch_taken d) \<or> next_pc = pc + 4"

definition cpu_ok :: "Cpu \<Rightarrow> bool" where
  "cpu_ok c \<longleftrightarrow>
     length (cpu_registers c) = 32 \<and> cpu_registers c ! 0 = 0 \<and>
     length (cpu_cop2_data c) = 32 \<and> length (cpu_cop2_control c) = 32 \<and>
     pending_ok (cpu_load_delay_mode c) (cpu_pending_load c) \<and>
     fetch_ok (cpu_delay_slot c) (cpu_pc c) (cpu_next_pc c)"

lemma pending_fetch_simps [simp]:
  "pending_ok m None" "fetch_ok d pc (pc + 4)" "fetch_ok None pc n \<longleftrightarrow> n = pc + 4"
  by (simp_all add: pending_ok_def fetch_ok_def)

lemma cpu_ok_write: "cpu_ok c \<Longrightarrow> cpu_ok (Cpu_write_register r v c)"
  by (auto simp: cpu_ok_def Cpu_write_register_def)

lemma cpu_ok_commit: "cpu_ok c \<Longrightarrow> cpu_ok (Cpu_commit w c)"
  by (auto simp: Cpu_commit_def cpu_ok_write split: option.split)

lemma cpu_ok_commit_old: "cpu_ok c \<Longrightarrow> cpu_ok (Cpu_commit_old_load w c)"
  unfolding Cpu_commit_old_load_def
  by (intro cpu_ok_commit) (simp add: cpu_ok_def)

lemma cpu_ok_line: "cpu_ok (Cpu_update_interrupt_line p c) = cpu_ok c"
  by (simp add: cpu_ok_def Cpu_update_interrupt_line_def Let_def)

lemma cpu_ok_enter: "cpu_ok c \<Longrightarrow> cpu_ok (Cpu_enter_exception x pc d a c)"
  by (simp add: cpu_ok_def Cpu_enter_exception_def Let_def)

lemma cpu_ok_arm: "arm_ok c e c' \<Longrightarrow> cpu_ok c \<Longrightarrow> cpu_ok c'"
  by (auto simp: arm_ok_def cpu_ok_def)

lemma commit_fields [simp]:
  "cpu_next_pc (Cpu_commit w c) = cpu_next_pc c"
  "cpu_load_delay_mode (Cpu_commit w c) = cpu_load_delay_mode c"
  "cpu_delay_slot_branch_mode (Cpu_commit w c) = cpu_delay_slot_branch_mode c"
  "cpu_pending_load (Cpu_commit w c) = cpu_pending_load c"
  "cpu_profile (Cpu_commit w c) = cpu_profile c"
  "cpu_cop0 (Cpu_commit w c) = cpu_cop0 c"
  "cpu_hi (Cpu_commit w c) = cpu_hi c" "cpu_lo (Cpu_commit w c) = cpu_lo c"
  "cpu_cop2_data (Cpu_commit w c) = cpu_cop2_data c"
  "cpu_cop2_control (Cpu_commit w c) = cpu_cop2_control c"
  by (auto simp: Cpu_commit_def Cpu_write_register_def split: option.split)

lemma cpu_ok_retire:
  assumes ok: "cpu_ok c" and e: "exec_wf e"
  shows "cpu_ok (step_retire pc d e c)"
proof -
  let ?a = "Cpu_commit_old_load (x_register_write e) c"
  let ?c = "case cpu_load_delay_mode ?a of
      LoadDelayMode_Architectural \<Rightarrow> ?a\<lparr>cpu_pending_load := x_delayed_write e\<rparr>
    | LoadDelayMode_Interlocked \<Rightarrow> (Cpu_commit (x_delayed_write e) ?a)\<lparr>cpu_pending_load := None\<rparr>"
  have "cpu_ok ?a" using ok by (rule cpu_ok_commit_old)
  moreover from this have "cpu_ok (Cpu_commit (x_delayed_write e) ?a)" by (rule cpu_ok_commit)
  ultimately have c: "cpu_ok ?c"
    using e by (cases "cpu_load_delay_mode ?a") (auto simp: cpu_ok_def exec_wf_def pending_ok_def)
  have upd: "cpu_ok (k\<lparr>cpu_pc := s, cpu_next_pc := n, cpu_delay_slot := ds,
      cpu_registers := (cpu_registers k)[0 := 0]\<rparr>)"
    if "cpu_ok k" "fetch_ok ds s n" for k s n ds
    using that by (auto simp: cpu_ok_def)
  show ?thesis
    unfolding step_retire_def Let_def
    using e by (intro upd [OF c]) (auto simp: fetch_ok_def exec_wf_def split: option.split)
qed

lemma cpu_ok_step:
  assumes "cpu_ok c" and "Cpu_step_inner bus smp c b = (r, c', b')"
  shows "cpu_ok c'"
proof -
  let ?c = "step_sample bus smp b c"
  have ok: "cpu_ok ?c" using assms(1) by (simp add: cpu_ok_line step_sample_def)
  have exn: "cpu_ok (step_exception x pc d a k)" if "cpu_ok k" for x pc d a k
    unfolding step_exception_def using that by (intro cpu_ok_enter cpu_ok_commit_old)
  have exec: "cpu_ok k" and "\<And>y. q = Inr y \<Longrightarrow> exec_wf y"
    if "Cpu_execute bus pc i ?c b1 = (q, k, b2)" for pc i b1 q k b2
    using execute_ok [of pc ?c b1 bus i] that ok cpu_ok_arm [of ?c _ k]
    by (auto simp: step_ok_def arm_ok_def split: sum.splits)
  then show ?thesis
    using assms(2) ok
    by (auto simp: Cpu_step_inner_def Let_def exn cpu_ok_retire
        split: if_splits prod.splits sum.splits option.splits)
qed

inductive Cpu_reachable :: "'b Bus \<Rightarrow> Cpu \<Rightarrow> bool" for bus :: "'b Bus" where
  reach_new: "Cpu_reachable bus (Cpu_with_load_delay_mode profile mode)"
| reach_reset: "Cpu_reachable bus c \<Longrightarrow> Cpu_reachable bus (Cpu_reset c)"
| reach_alignment: "Cpu_reachable bus c \<Longrightarrow> Cpu_reachable bus (Cpu_set_word_alignment_mode am c)"
| reach_cop2: "Cpu_reachable bus c \<Longrightarrow> Cpu_reachable bus (Cpu_set_coprocessor2_mode cm c)"
| reach_delay: "Cpu_reachable bus c \<Longrightarrow> Cpu_reachable bus (Cpu_set_delay_slot_branch_mode dm c)"
| reach_register: "Cpu_reachable bus c \<Longrightarrow> Cpu_reachable bus (snd (Cpu_set_register r v c))"
| reach_pc: "Cpu_reachable bus c \<Longrightarrow> Cpu_reachable bus (Cpu_set_pc pc c)"
| reach_hi_lo: "Cpu_reachable bus c \<Longrightarrow> Cpu_reachable bus (Cpu_set_hi_lo hi lo c)"
| reach_cop0: "Cpu_reachable bus c \<Longrightarrow> Cpu_reachable bus (c\<lparr>cpu_cop0 := cop0\<rparr>)"
| reach_step: "Cpu_reachable bus c \<Longrightarrow> Cpu_step bus c b = (r, c', b') \<Longrightarrow> Cpu_reachable bus c'"
| reach_step_hle: "Cpu_reachable bus c \<Longrightarrow>
    Cpu_step_without_external_interrupts bus c b = (r, c', b') \<Longrightarrow> Cpu_reachable bus c'"

lemma cpu_ok_new: "cpu_ok (Cpu_with_load_delay_mode p m)"
  by (simp add: cpu_ok_def Cpu_with_load_delay_mode_def)

lemma reachable_ok: "Cpu_reachable bus c \<Longrightarrow> cpu_ok c"
proof (induction rule: Cpu_reachable.induct)
  case (reach_step c b r c' b')
  then show ?case using cpu_ok_step [of c] by (simp add: Cpu_step_def)
next
  case (reach_step_hle c b r c' b')
  then show ?case using cpu_ok_step [of c] by (simp add: Cpu_step_without_external_interrupts_def)
next
  case (reach_register c r v)
  then show ?case by (simp add: Cpu_set_register_def cpu_ok_write)
qed (simp_all add: cpu_ok_def Cpu_with_load_delay_mode_def Cpu_reset_def
    Cpu_set_word_alignment_mode_def Cpu_set_coprocessor2_mode_def
    Cpu_set_delay_slot_branch_mode_def Cpu_set_pc_def Cpu_set_hi_lo_def)

section \<open>Faults and exceptions\<close>

lemma execute_fault:
  "Cpu_execute bus pc i c b = (Inl e, c', b') \<Longrightarrow> c' = c \<and> fault_ok pc e"
  using execute_ok [of pc c b bus i] by (simp add: step_ok_def)

lemma execute_raises:
  "Cpu_execute bus pc i c b = (Inr e, c', b') \<Longrightarrow> x_exception e = Some x \<Longrightarrow> c' = c \<and> b' = b"
  using execute_ok [of pc c b bus i] by (simp add: step_ok_def arm_ok_def)

lemma status_masks:
  "(0x3f :: u32) = mask 6" "(0x0f :: u32) = mask 4" "(0x30 :: u32) = push_bit 4 (mask 2)"
  "(0x7c :: u32) = push_bit 2 (mask 5)" "(31 :: u32) = mask 5"
  by (simp_all add: mask_eq_exp_minus_1 push_bit_eq_mult)

lemma exception_code_bits: "bit (Exception_code x) n \<Longrightarrow> n < 5"
proof -
  have "Exception_code x = take_bit 5 (Exception_code x)" by (cases x) simp_all
  then show "bit (Exception_code x) n \<Longrightarrow> n < 5" by (metis bit_take_bit_iff)
qed

lemma bit_CAUSE_BD: "bit CAUSE_BD n \<longleftrightarrow> n = 31"
  by (simp only: CAUSE_BD_def bit_push_one) simp

lemma cause_fields:
  "drop_bit 2 (exception_cause x k) AND 31 = Exception_code x"
  "\<not> bit (exception_cause x k) 31"
  "drop_bit 2 (exception_cause x k OR CAUSE_BD) AND 31 = Exception_code x"
  "bit (exception_cause x k OR CAUSE_BD) 31"
proof -
  show "drop_bit 2 (exception_cause x k) AND 31 = Exception_code x"
    "drop_bit 2 (exception_cause x k OR CAUSE_BD) AND 31 = Exception_code x"
    unfolding status_masks exception_cause_def
    by (rule bit_word_eqI; auto simp: bit_simps bit_CAUSE_BD dest: exception_code_bits)+
  show "\<not> bit (exception_cause x k) 31" "bit (exception_cause x k OR CAUSE_BD) 31"
    unfolding exception_cause_def
    using exception_code_bits [of x 29] by (auto simp: bit_simps bit_CAUSE_BD)
qed

lemma bit_status_push:
  "bit (status_push s) n = (if n < 6 then 2 \<le> n \<and> bit s (n - 2) else bit s n)" if "n < 32"
  using that unfolding status_masks status_push_def by (auto simp: bit_simps)

lemma bit_status_pop:
  "bit (status_pop s) n = (if n < 4 then bit s (n + 2) else bit s n)" if "n < 32"
  using that unfolding status_masks status_pop_def by (auto simp: bit_simps add.commute)

lemma status_push_pop: "status_pop (status_push s) AND NOT 0x30 = s AND NOT 0x30"
  unfolding status_masks
  by (rule bit_word_eqI) (auto simp: bit_status_push bit_status_pop bit_simps)

lemma status_push_pop_twice:
  "status_pop (status_pop (status_push (status_push s))) AND NOT 0x3c = s AND NOT 0x3c"
proof -
  have m: "(0x3c :: u32) = push_bit 2 (mask 4)" by (simp add: mask_eq_exp_minus_1 push_bit_eq_mult)
  show ?thesis
    unfolding m by (rule bit_word_eqI) (auto simp: bit_status_push bit_status_pop bit_simps)
qed

lemma status_push_bits: "status_push s AND 1 = 0" "bit (status_push s) 22 = bit s 22"
proof -
  have "\<not> bit (status_push s) 0" unfolding status_masks status_push_def by (auto simp: bit_simps)
  then show "status_push s AND 1 = 0" using and_push_one [of 0 "status_push s"] by simp
  show "bit (status_push s) 22 = bit s 22"
    unfolding status_masks status_push_def by (auto simp: bit_simps)
qed

lemma interrupt_masked: "\<not> Cpu_interrupt_enabled (Cpu_enter_exception x pc d a c)"
  by (simp add: Cpu_interrupt_enabled_def Cpu_enter_exception_def Let_def
      Cop0_enter_exception_def status_push_bits split: option.split)

text \<open>Where an exception resumes and how it is classified.\<close>

definition exception_view :: "Exception \<Rightarrow> DelaySlotState option \<Rightarrow> u32 \<Rightarrow> Cpu \<Rightarrow> Cpu \<Rightarrow> bool" where
  "exception_view x delay_slot pc c c' \<longleftrightarrow>
     cop0_epc (cpu_cop0 c') = (case delay_slot of None \<Rightarrow> pc | Some d \<Rightarrow> ds_branch_pc d) \<and>
     (bit (cop0_cause (cpu_cop0 c')) 31 \<longleftrightarrow> delay_slot \<noteq> None) \<and>
     drop_bit 2 (cop0_cause (cpu_cop0 c')) AND 31 = Exception_code x \<and>
     cpu_pc c' = (if bit (cop0_status (cpu_cop0 c)) 22
                  then profile_bootstrap_exception_vector (cpu_profile c)
                  else profile_exception_vector (cpu_profile c)) \<and>
     cpu_next_pc c' = cpu_pc c' + 4 \<and>
     cpu_delay_slot c' = None \<and> cpu_pending_load c' = None \<and>
     cpu_registers c' = cpu_registers (Cpu_commit_old_load None c) \<and>
     cpu_hi c' = cpu_hi c \<and> cpu_lo c' = cpu_lo c \<and>
     cpu_cop2_data c' = cpu_cop2_data c \<and> cpu_cop2_control c' = cpu_cop2_control c \<and>
     \<not> Cpu_interrupt_enabled c'"

lemma step_exception_view:
  "exception_view x d pc c (step_exception x pc (map_option ds_branch_pc d) a c)"
proof -
  have bev: "t AND STATUS_BEV \<noteq> 0 \<longleftrightarrow> bit t 22" for t :: u32
    unfolding STATUS_BEV_def by (subst and_push_one) simp_all
  show ?thesis
    unfolding exception_view_def step_exception_def
    by (simp add: interrupt_masked, cases d)
      (simp_all add: Cpu_enter_exception_def Let_def Cop0_enter_exception_def bev
        cause_fields status_push_bits Cpu_commit_old_load_def del: drop_bit_or)
qed

lemma sample_fields [simp]:
  "cpu_pc (step_sample bus smp b c) = cpu_pc c"
  "cpu_delay_slot (step_sample bus smp b c) = cpu_delay_slot c"
  by (simp_all add: step_sample_def Cpu_update_interrupt_line_def Let_def)

section \<open>Multiplication and division\<close>

lemma signed_split_64:
  fixes p :: int
  assumes "in_signed 64 p"
  shows "sint (word_of_int (drop_bit 32 p) :: u32) * 2 ^ 32 + uint (word_of_int p :: u32) = p"
proof -
  have "- (2 ^ 31) \<le> drop_bit 32 p" "drop_bit 32 p < 2 ^ 31"
    using assms unfolding in_signed_def drop_bit_eq_div by simp_all linarith+
  then have "sint (word_of_int (drop_bit 32 p) :: u32) = drop_bit 32 p"
    by (simp add: sint_sbintrunc' signed_take_bit_int_eq_self)
  then show ?thesis
    by (simp add: uint_word_of_int drop_bit_eq_div take_bit_eq_mod)
qed

lemma unsigned_split_64:
  fixes p :: int
  assumes "0 \<le> p" "p < 2 ^ 64"
  shows "uint (word_of_int (drop_bit 32 p) :: u32) * 2 ^ 32 + uint (word_of_int p :: u32) = p"
  using assms by (simp add: uint_word_of_int drop_bit_eq_div take_bit_eq_mod)

lemma sint_bounds: "- (2 ^ 31) \<le> sint w" "sint w < 2 ^ 31" for w :: u32
  using sint_greater_eq [of w] sint_less [of w] by simp_all

lemma i32_product: "in_signed 64 (to_i32 l * to_i32 r)"
proof -
  have "\<bar>sint l\<bar> \<le> 2 ^ 31" "\<bar>sint r\<bar> \<le> 2 ^ 31"
    using sint_bounds [of l] sint_bounds [of r] by (simp_all add: abs_if)
  then have "\<bar>sint l\<bar> * \<bar>sint r\<bar> \<le> 2 ^ 31 * 2 ^ 31" by (intro mult_mono) simp_all
  then have "\<bar>sint l * sint r\<bar> \<le> 2 ^ 62" by (simp add: abs_mult)
  then show ?thesis unfolding in_signed_def to_i32_def abs_le_iff by simp
qed

lemma u32_product: "0 \<le> uint l * uint r" "uint l * uint r < 2 ^ 64" for l r :: u32
proof -
  have "uint l < 2 ^ 32" "uint r < 2 ^ 32" using uint_lt2p [of l] uint_lt2p [of r] by simp_all
  then have "uint l * uint r \<le> (2 ^ 32 - 1) * (2 ^ 32 - 1)" by (intro mult_mono) simp_all
  then show "uint l * uint r < 2 ^ 64" by simp
qed simp

lemma from_to_i32: "from_i32 (to_i32 w) = w" by (simp add: from_i32_def to_i32_def)

lemma to_from_i32: "in_signed 32 v \<Longrightarrow> to_i32 (from_i32 v) = v"
  by (simp add: from_i32_def to_i32_def in_signed_def sint_sbintrunc' signed_take_bit_int_eq_self)

lemma signed_divide_word: "signed_divide n d = (hi, lo) \<Longrightarrow> hi + lo * d = n"
proof -
  assume *: "signed_divide n d = (hi, lo)"
  show ?thesis
  proof (cases "d = 0")
    case True
    with * show ?thesis by (auto simp: signed_divide_def to_i32_def from_i32_def)
  next
    case False
    then have d: "to_i32 d \<noteq> 0" by (metis from_i32_def from_to_i32 of_int_0)
    show ?thesis
    proof (cases "to_i32 n = - (2 ^ 31) \<and> to_i32 d = - 1")
      case True
      then have "d = - 1" "n = word_of_int (- (2 ^ 31))"
        using from_to_i32 [of d] from_to_i32 [of n] by (simp_all add: from_i32_def)
      with * True show ?thesis by (simp add: signed_divide_def from_i32_def Let_def)
    next
      case ok: False
      have "word_of_int (to_i32 n smod to_i32 d) + word_of_int (to_i32 n sdiv to_i32 d) * d
        = (word_of_int (to_i32 n smod to_i32 d + to_i32 n sdiv to_i32 d * to_i32 d) :: u32)"
        by (simp add: to_i32_def)
      also have "\<dots> = word_of_int (to_i32 n)" 
        by (metis add.commute sdiv_mult_smod_eq)
      finally show ?thesis using * ok d by (auto simp: signed_divide_def Let_def from_i32_def to_i32_def)
    qed
  qed
qed

lemma signed_divide_exact:
  assumes "d \<noteq> 0" and "\<not> (n = word_of_int (- (2 ^ 31)) \<and> d = - 1)"
    and div: "signed_divide n d = (hi, lo)"
  shows "sint n = sint lo * sint d + sint hi" and "\<bar>sint hi\<bar> < \<bar>sint d\<bar>"
    and "sint hi = 0 \<or> sgn (sint hi) = sgn (sint n)"
proof -
  let ?n = "sint n" and ?d = "sint d"
  have d: "?d \<noteq> 0" using assms(1) by (metis from_i32_def from_to_i32 of_int_0 to_i32_def)
  have ovf: "\<not> (?n = - (2 ^ 31) \<and> ?d = - 1)"
  proof
    assume "?n = - (2 ^ 31) \<and> ?d = - 1"
    then have "n = from_i32 (- (2 ^ 31))" "d = from_i32 (- 1)"
      using from_to_i32 [of n] from_to_i32 [of d] by (simp_all only: to_i32_def)
    then show False using assms(2) by (simp add: from_i32_def)
  qed
  have rem: "\<bar>?n smod ?d\<bar> < \<bar>?d\<bar>" using smod_int_range [OF d, of ?n] by (simp add: abs_less_iff)
  then have "in_signed 32 (?n smod ?d)"
    using sint_bounds [of d] by (simp add: in_signed_def abs_if split: if_splits)
  then have hi: "sint hi = ?n smod ?d"
    using div d ovf to_from_i32 [of "?n smod ?d"]
    by (auto simp: signed_divide_def Let_def to_i32_def)
  have "in_signed 32 (?n sdiv ?d)"
  proof -
    have "\<bar>?n sdiv ?d\<bar> = \<bar>?n\<bar> div \<bar>?d\<bar>"
      using d by (cases "?n = 0")
        (simp_all add: signed_divide_int_def abs_mult abs_sgn_eq pos_imp_zdiv_nonneg_iff)
    moreover have "\<bar>?n\<bar> div \<bar>?d\<bar> \<le> \<bar>?n\<bar>" using zdiv_mono2 [of "\<bar>?n\<bar>" 1 "\<bar>?d\<bar>"] d by simp
    ultimately have le: "\<bar>?n sdiv ?d\<bar> \<le> \<bar>?n\<bar>" by simp
    have "\<bar>?n\<bar> < 2 ^ 31 \<or> ?n = - (2 ^ 31)" using sint_bounds [of n] by (auto simp: abs_if)
    then show ?thesis
    proof
      assume "\<bar>?n\<bar> < 2 ^ 31"
      with le have "\<bar>?n sdiv ?d\<bar> < 2 ^ 31" by linarith
      then show ?thesis by (simp add: in_signed_def abs_less_iff)
    next
      assume n: "?n = - (2 ^ 31)"
      show ?thesis
      proof (cases "?d = 1")
        case True
        then show ?thesis using n by (simp add: in_signed_def)
      next
        case False
        then have "2 \<le> \<bar>?d\<bar>" using d n ovf by auto
        then have "\<bar>?n\<bar> div \<bar>?d\<bar> \<le> \<bar>?n\<bar> div 2" by (intro zdiv_mono2) simp_all
        then have "\<bar>?n sdiv ?d\<bar> \<le> 2 ^ 30" using \<open>\<bar>?n sdiv ?d\<bar> = _\<close> n by simp
        then show ?thesis by (simp add: in_signed_def abs_le_iff)
      qed
    qed
  qed
  then have lo: "sint lo = ?n sdiv ?d"
    using div d ovf to_from_i32 [of "?n sdiv ?d"]
    by (auto simp: signed_divide_def Let_def to_i32_def)
  show "sint n = sint lo * sint d + sint hi" by (simp add: hi lo sdiv_mult_smod_eq)
  show "\<bar>sint hi\<bar> < \<bar>sint d\<bar>" using rem hi by simp
  have "0 \<le> \<bar>?n\<bar> mod \<bar>?d\<bar>" using d by simp
  then have "\<bar>?n\<bar> mod \<bar>?d\<bar> = 0 \<or> sgn (\<bar>?n\<bar> mod \<bar>?d\<bar>) = 1" by (simp only: sgn_1_pos) linarith
  then show "sint hi = 0 \<or> sgn (sint hi) = sgn (sint n)"
    unfolding hi smod_int_alt_def sgn_mult by auto
qed

section \<open>Unaligned word accesses\<close>

lemma unat_and3: "unat ((a::u32) AND 3) = unat a mod 4" 
proof -
  have "a AND 3 = take_bit 2 a" by (simp add: take_bit_eq_mask mask_eq_exp_minus_1)
  then show ?thesis by (simp add: unsigned_take_bit_eq del: take_bit_numeral_bit1 take_bit_numeral_bit0)
    (simp add: take_bit_eq_mod)
qed

lemma unat_align: "unat ((a::u32) AND NOT 3) = unat a div 4 * 4"
  using word_and_not_mask [of 2 a] by simp

lemmas unat_align_simp = unat_align [simplified]

lemma align_aligned: "(a AND NOT 3) AND 3 = (0::u32)"
  by (rule bit_word_eqI) (auto simp: bit_simps)

lemma align_cases:
  obtains "a AND 3 = 0" | "a AND 3 = 1" | "a AND 3 = 2" | "a AND 3 = (3::u32)"
proof -
  have w: "a AND 3 = k" if "unat (a AND 3) = unat k" for k using that by (rule unsigned_word_eqI)
  have "unat (a AND 3) < 4" by (simp add: unat_and3)
  then consider "unat (a AND 3) = 0" | "unat (a AND 3) = 1" | "unat (a AND 3) = 2"
    | "unat (a AND 3) = 3" by linarith
  then show ?thesis using that w [of 0] w [of 1] w [of 2] w [of 3] by cases simp_all
qed

lemma quad: "j < 4 \<Longrightarrow> (4 * k + j) div 4 * 4 = 4 * k \<and> (4 * k + j) mod 4 = (j :: nat)"
  by simp

lemma align_plus3:
  fixes a :: u32
  shows "(a + 3) AND NOT 3 = (if a AND 3 = 0 then a AND NOT 3 else (a AND NOT 3) + 4)"
    and "(a + 3) AND 3 = (if a AND 3 = 0 then 3 else (a AND 3) - 1)"
proof -
  define q r where "q = unat a div 4" and "r = unat a mod 4"
  have a: "unat a = 4 * q + r" and r: "r < 4" by (simp_all add: q_def r_def)
  have q: "q < 2 ^ 30" using unsigned_less [of a, where ?'a = nat] by (simp add: q_def)
  have r0: "a AND 3 = 0 \<longleftrightarrow> r = 0"
    using unat_and3 [of a] by (metis r_def unat_eq_zero)
  have plus: "unat (a + 3) = (4 * q + r + 3) mod 2 ^ 32" by (simp add: unat_word_ariths a)
  have k: "unat (a AND 3) = r" "unat (a AND NOT 3) = 4 * q"
    by (simp_all add: unat_and3 unat_align_simp a r)
  have "unat ((a + 3) AND NOT 3) =
      unat (if a AND 3 = 0 then a AND NOT 3 else (a AND NOT 3) + 4) \<and>
      unat ((a + 3) AND 3) = unat (if a AND 3 = 0 then 3 else (a AND 3) - 1)"
  proof (cases "r = 0")
    case True
    then have "unat (a + 3) = 4 * q + 3" using plus q by simp
    then show ?thesis using True r0 k by (simp add: unat_and3 unat_align_simp)
  next
    case False
    then have r1: "unat ((a AND 3) - 1) = r - 1"
      using k by (simp add: unat_sub word_le_nat_alt)
    have m: "unat ((a AND NOT 3) + 4) = (4 * q + 4) mod 2 ^ 32" using k(2) by (simp add: unat_word_ariths)
    show ?thesis
    proof (cases "q + 1 < 2 ^ 30")
      case True
      then have "unat (a + 3) = 4 * (q + 1) + (r - 1)" "(4 * q + 4) mod 2 ^ 32 = 4 * (q + 1)"
        using plus q r False by simp_all
      moreover have "(4 * (q + 1) + (r - 1)) div 4 * 4 = 4 * (q + 1)"
        "(4 * (q + 1) + (r - 1)) mod 4 = r - 1" using r quad [of "r - 1" "q + 1"] by linarith+
      ultimately show ?thesis using False r0 r1 m by (simp only: unat_and3 unat_align if_False)
    next
      case top: False
      then have "q = 2 ^ 30 - 1" using q by simp
      then have "4 * q + r + 3 = 2 ^ 32 + (r - 1)" and "(4 * q + 4) mod 2 ^ 32 = 0"
        using False by simp_all
      moreover from this(1) have "unat (a + 3) = r - 1" using plus r by (simp only: mod_add_self1) simp
      ultimately show ?thesis using False r0 r1 m r by (simp add: unat_and3 unat_align_simp)
    qed
  qed
  then show "(a + 3) AND NOT 3 = (if a AND 3 = 0 then a AND NOT 3 else (a AND NOT 3) + 4)"
    "(a + 3) AND 3 = (if a AND 3 = 0 then 3 else (a AND 3) - 1)"
    by - (rule word_unat_eq_iff [THEN iffD2], blast)+
qed

lemma merge_masks:
  "(0x00ffffff :: u32) = mask 24" "(0x0000ffff :: u32) = mask 16" "(0x000000ff :: u32) = mask 8"
  "(0xff000000 :: u32) = NOT (mask 24)" "(0xffff0000 :: u32) = NOT (mask 16)"
  "(0xffffff00 :: u32) = NOT (mask 8)"
  by (simp_all add: mask_eq_exp_minus_1)

lemma load_pair:
  assumes "\<not> a AND 3 = 0"
  shows "lwr_value a (lwl_value (a + 3) base (swl_value (a + 3) h v)) (swr_value a l v) = v"
proof -
  show ?thesis
    using assms
    apply (cases a rule: align_cases)
    apply (simp_all only: lwr_value_def lwl_value_def swl_value_def swr_value_def align_plus3 merge_masks)
    apply simp_all
    apply (rule bit_word_eqI, auto simp: bit_simps)+
    done
qed

lemma load_pair_aligned: "a AND 3 = 0 \<Longrightarrow> lwr_value a base w = w"
  by (simp add: lwr_value_def)

lemma store_pair_aligned: "a AND 3 = 0 \<Longrightarrow> swr_value a old v = v"
  by (simp add: swr_value_def)

text \<open>The customary two-instruction sequences \<open>swl v, 3(a); swr v, 0(a)\<close> and
  \<open>lwl rt, 3(a); lwr rt, 0(a)\<close>, the second load seeing the first one in its delay slot.\<close>

definition unaligned_store ::
  "'b Bus \<Rightarrow> u32 \<Rightarrow> u32 \<Rightarrow> u32 \<Rightarrow> Cpu \<Rightarrow> 'b \<Rightarrow> (CpuError + Execution) \<times> 'b" where
  "unaligned_store bus pc v a c b =
     (case execute_store bus pc 0x2a v (a + 3) c b of
        (Inl e, b) \<Rightarrow> (Inl e, b)
      | (Inr _, b) \<Rightarrow> execute_store bus (pc + 4) 0x2e v a c b)"

definition unaligned_load ::
  "'b Bus \<Rightarrow> u32 \<Rightarrow> nat \<Rightarrow> u32 \<Rightarrow> Cpu \<Rightarrow> 'b \<Rightarrow> (CpuError + Execution) \<times> 'b" where
  "unaligned_load bus pc rt a c b =
     (case execute_load bus pc 0x22 rt (a + 3) c b of
        (Inl e, b) \<Rightarrow> (Inl e, b)
      | (Inr e, b) \<Rightarrow>
          execute_load bus (pc + 4) 0x26 rt a (c\<lparr>cpu_pending_load := x_delayed_write e\<rparr>) b)"

text \<open>
  The contract of a memory bus, stated over the words it backs: reads have no effect, a write
  changes the one physical cell behind the address, and consecutive words have different cells.
\<close>

locale word_bus =
  fixes bus :: "'b Bus" and invar :: "'b \<Rightarrow> bool" and backed :: "u32 \<Rightarrow> bool"
    and cell :: "u32 \<Rightarrow> nat" and word_at :: "'b \<Rightarrow> u32 \<Rightarrow> u32"
  assumes read_word: "invar b \<Longrightarrow> backed a \<Longrightarrow> a AND 3 = 0 \<Longrightarrow>
      Bus_read_u32 bus b a = (Inr (word_at b a), b)"
    and write_word: "invar b \<Longrightarrow> backed a \<Longrightarrow> a AND 3 = 0 \<Longrightarrow>
      \<exists>b'. Bus_write_u32 bus b a v = (Inr (), b') \<and> invar b' \<and>
        (\<forall>k. backed k \<longrightarrow> k AND 3 = 0 \<longrightarrow>
           word_at b' k = (if cell k = cell a then v else word_at b k))"
    and cell_next: "backed a \<Longrightarrow> backed (a + 4) \<Longrightarrow> a AND 3 = 0 \<Longrightarrow> cell (a + 4) \<noteq> cell a"
begin

lemma merge_store:
  assumes "invar b" "backed a" "a AND 3 = 0"
  shows "\<exists>b'. execute_merge_store bus pc a m b = (Inr (Execution_set_cycles 2 Execution_default), b')
    \<and> invar b' \<and> (\<forall>k. backed k \<longrightarrow> k AND 3 = 0 \<longrightarrow>
        word_at b' k = (if cell k = cell a then m (word_at b a) else word_at b k))"
  using write_word [OF assms, of "m (word_at b a)"] read_word [OF assms]
  by (auto simp: execute_merge_store_def cpu_access_def stored_def and_then_def map_err_def
      Cpu_load_u32_def Cpu_store_u32_def)

lemma merge_load:
  assumes "invar b" "backed (a AND NOT 3)"
  shows "loaded rt f (Cpu_load_u32 bus pc (a AND NOT 3) b) =
    (Inr (Execution_load rt (f (word_at b (a AND NOT 3))) Execution_default), b)"
  using read_word [OF assms align_aligned]
  by (simp add: loaded_def cpu_access_def and_then_def map_err_def Cpu_load_u32_def)

text \<open>Storing and reloading an unaligned word gives it back and leaves every other cell alone.\<close>

lemma unaligned_roundtrip:
  assumes inv: "invar b" and lo: "backed (a AND NOT 3)" and hi: "backed ((a + 3) AND NOT 3)"
  shows "\<exists>e b'. unaligned_store bus pc v a c b = (Inr e, b') \<and> x_exception e = None \<and> invar b' \<and>
    unaligned_load bus pc' rt a c' b' = (Inr (Execution_load rt v Execution_default), b') \<and>
    (\<forall>k. backed k \<longrightarrow> k AND 3 = 0 \<longrightarrow> cell k \<notin> {cell (a AND NOT 3), cell ((a + 3) AND NOT 3)} \<longrightarrow>
       word_at b' k = word_at b k)"
proof -
  let ?lo = "a AND NOT 3" and ?hi = "(a + 3) AND NOT 3"
  let ?ok = "Inr (Execution_set_cycles 2 Execution_default) :: CpuError + Execution"
  obtain b1 where b1: "execute_merge_store bus pc ?hi (\<lambda>old. swl_value (a + 3) old v) b = (?ok, b1)"
      "invar b1" and w1: "\<And>k. backed k \<Longrightarrow> k AND 3 = 0 \<Longrightarrow> word_at b1 k =
        (if cell k = cell ?hi then swl_value (a + 3) (word_at b ?hi) v else word_at b k)"
    using merge_store [OF inv hi align_aligned] by blast
  obtain b2 where b2: "execute_merge_store bus (pc + 4) ?lo (\<lambda>old. swr_value a old v) b1 = (?ok, b2)"
      "invar b2" and w2: "\<And>k. backed k \<Longrightarrow> k AND 3 = 0 \<Longrightarrow> word_at b2 k =
        (if cell k = cell ?lo then swr_value a (word_at b1 ?lo) v else word_at b1 k)"
    using merge_store [OF b1(2) lo align_aligned] by blast
  have store: "unaligned_store bus pc v a c b = (?ok, b2)"
    using b1(1) b2(1) by (simp add: unaligned_store_def execute_store_def)
  have "lwr_value a (lwl_value (a + 3) (Cpu_merge_base c' rt) (word_at b2 ?hi)) (word_at b2 ?lo) = v"
  proof (cases "a AND 3 = 0")
    case True
    then show ?thesis using w2 [OF lo align_aligned] by (simp add: load_pair_aligned store_pair_aligned)
  next
    case False
    then have "?hi = ?lo + 4" by (simp only: align_plus3(1) if_False)
    then have "cell ?hi \<noteq> cell ?lo" using cell_next [OF lo] hi align_aligned by metis
    then show ?thesis
      using w2 [OF lo align_aligned] w2 [OF hi align_aligned] w1 [OF hi align_aligned]
        load_pair [OF False] by simp
  qed
  then have load: "unaligned_load bus pc' rt a c' b2 = (Inr (Execution_load rt v Execution_default), b2)"
    using merge_load [OF b2(2) hi] merge_load [OF b2(2) lo]
    by (simp add: unaligned_load_def execute_load_def Execution_load_def Cpu_merge_base_def)
  show ?thesis using store load b2(2) w1 w2
    by (auto simp: Execution_set_cycles_def Execution_default_def)
qed

end

section \<open>Properties\<close>

text \<open>A bus that answers every access with zero, and one that fails every access.\<close>

definition zero_bus :: "unit Bus" where
  "zero_bus =
     \<lparr>Bus_read_u8 = (\<lambda>b a. (Inr 0, b)), Bus_read_u16 = (\<lambda>b a. (Inr 0, b)),
      Bus_read_u32 = (\<lambda>b a. (Inr 0, b)), Bus_write_u8 = (\<lambda>b a v. (Inr (), b)),
      Bus_write_u16 = (\<lambda>b a v. (Inr (), b)), Bus_write_u32 = (\<lambda>b a v. (Inr (), b)),
      Bus_interrupt_pending = (\<lambda>b. True)\<rparr>"

definition fault_bus :: "unit Bus" where
  "fault_bus = zero_bus\<lparr>Bus_read_u32 := (\<lambda>b a. (Inl (BusFault ''open bus''), b))\<rparr>"

text \<open>
  C13. Every reachable CPU, under any bus and any mix of steps (also failing ones),
  initialization calls and COP0 edits, has its 32 registers with register zero equal to zero,
  a pending load only of an existing register and only in the architectural load mode, and a
  next instruction that is sequential unless a taken branch is in its delay slot.
\<close>
theorem cpu_invariant:
  assumes "Cpu_reachable bus c"
  shows "Cpu_register c 0 = Some 0 \<and> length (cpu_registers c) = 32 \<and>
    length (cpu_cop2_data c) = 32 \<and> length (cpu_cop2_control c) = 32 \<and>
    (\<forall>r v. cpu_pending_load c = Some (r, v) \<longrightarrow>
       r < 32 \<and> cpu_load_delay_mode c = LoadDelayMode_Architectural) \<and>
    ((\<exists>d. cpu_delay_slot c = Some d \<and> ds_branch_taken d) \<or> cpu_next_pc c = cpu_pc c + 4)"
  using reachable_ok [OF assms]
  by (auto simp: cpu_ok_def Cpu_register_def pending_ok_def fetch_ok_def split: option.splits)

theorem cpu_invariant_witness:
  "Cpu_register (fst (snd (Cpu_step zero_bus (Cpu_new ResetProfile_default) ()))) 0 = Some 0"
proof -
  let ?c = "Cpu_with_load_delay_mode ResetProfile_default LoadDelayMode_Architectural"
  have "Cpu_reachable zero_bus (fst (snd (Cpu_step zero_bus ?c ())))"
    by (rule reach_step [where c = ?c and b = "()"], rule reach_new) (simp add: prod_eq_iff)
  from cpu_invariant [OF this] show ?thesis by (simp add: Cpu_new_def)
qed

text \<open>
  C14. Exceptions are precise. When a step reports an exception, the registers are those before
  the instruction with the outstanding delayed load committed; HI, LO and COP2 are untouched;
  EPC names the instruction, or the branch when it sits in a delay slot, with the BD bit saying
  which; the cause field holds the exception's code; control is at the vector BEV selects with
  both delay slots empty; interrupts are masked; and the bus saw the fetch at most.
\<close>
theorem cpu_exceptions_precise:
  assumes "Cpu_step_inner bus smp c b = (Inr out, c', b')"
    and "outcome_event out = StepEvent_Exception x"
  shows "exception_view x (cpu_delay_slot c) (cpu_pc c) (step_sample bus smp b c) c' \<and>
    b' = (if outcome_instruction out = None then b else snd (Bus_read_u32 bus b (cpu_pc c)))"
proof -
  have view: "exception_view x (cpu_delay_slot c) (cpu_pc c) k
     (step_exception x (cpu_pc c) (map_option ds_branch_pc (cpu_delay_slot c)) a k)" for a k
    by (rule step_exception_view)
  show ?thesis
    using assms view execute_raises [of bus "cpu_pc c" _ "step_sample bus smp b c"]
    unfolding Cpu_step_inner_def
    by (fastforce simp: Let_def cpu_access_def map_err_def
        split: if_splits prod.splits sum.splits option.splits)
qed

theorem cpu_exceptions_precise_witness:
  "\<exists>c' out. Cpu_step_inner zero_bus False (Cpu_set_pc 2 (Cpu_new ResetProfile_default)) () =
     (Inr out, c', ()) \<and> cop0_epc (cpu_cop0 c') = 2 \<and> cpu_pc c' = 0xbfc00180"
proof -
  let ?c = "Cpu_set_pc 2 (Cpu_new ResetProfile_default)"
  have two: "(2 :: u32) AND 3 \<noteq> 0" by simp
  have "Cpu_step_inner zero_bus False ?c () =
    (Inr \<lparr>outcome_pc = 2, outcome_instruction = None, outcome_cycles = 1,
          outcome_event = StepEvent_Exception Exception_AddressLoad\<rparr>,
     step_exception Exception_AddressLoad 2 None (Some 2) ?c, ())"
    using two by (simp add: Cpu_step_inner_def step_sample_def Cpu_set_pc_def Let_def)
  from cpu_exceptions_precise [OF this, of Exception_AddressLoad] this show ?thesis
    by (simp add: exception_view_def Cpu_set_pc_def Cpu_new_def Cpu_with_load_delay_mode_def
        ResetProfile_default_def STATUS_BEV_def step_sample_def bit_push_one)
qed

text \<open>
  C15. A bus fault is atomic for the CPU: a step that fails leaves every architectural
  register, the delay slots and the program counter as they were, with only the sampled
  interrupt line updated, so the step can be retried; the error names the faulting instruction.
\<close>
theorem cpu_fault_atomic:
  assumes "Cpu_step_inner bus smp c b = (Inl e, c', b')"
  shows "c' = step_sample bus smp b c \<and> error_pc e = cpu_pc c \<and>
    (error_access e = AccessType_Instruction \<longrightarrow> error_address e = cpu_pc c)"
  using assms execute_fault [of bus "cpu_pc c" _ "step_sample bus smp b c"]
  by (auto simp: Cpu_step_inner_def Let_def cpu_access_def map_err_def fault_ok_def
      split: if_splits prod.splits sum.splits option.splits)

theorem cpu_fault_atomic_witness:
  "Cpu_step_inner fault_bus False (Cpu_set_pc 8 (Cpu_new ResetProfile_default)) () =
     (Inl \<lparr>error_pc = 8, error_address = 8, error_access = AccessType_Instruction,
           error_source = BusFault ''open bus''\<rparr>,
      Cpu_set_pc 8 (Cpu_new ResetProfile_default), ())"
proof -
  let ?c = "Cpu_set_pc 8 (Cpu_new ResetProfile_default)"
  have run: "\<exists>c'. Cpu_step_inner fault_bus False ?c () =
     (Inl \<lparr>error_pc = 8, error_address = 8, error_access = AccessType_Instruction,
           error_source = BusFault ''open bus''\<rparr>, c', ())"
    by (simp add: Cpu_step_inner_def step_sample_def Cpu_set_pc_def Let_def fault_bus_def
        cpu_access_def map_err_def)
  then show ?thesis using cpu_fault_atomic by (fastforce simp: step_sample_def)
qed

text \<open>
  C16. The exception status stack: returning from an exception restores the mode and
  interrupt-enable bits (current and previous pair), and two nested exceptions and two returns
  restore the current pair, whatever the exceptions were.
\<close>
theorem cpu_exception_return:
  "(let rfe = (\<lambda>c. snd (Cpu_execute_cop0 0x10 rt rd 0x10 c));
        status = (\<lambda>c. cop0_status (cpu_cop0 c))
    in status (rfe (Cpu_enter_exception x pc d a c)) AND NOT 0x30 = status c AND NOT 0x30 \<and>
       status (rfe (rfe (Cpu_enter_exception x' pc' d' a' (Cpu_enter_exception x pc d a c))))
         AND NOT 0x3c = status c AND NOT 0x3c)"
  by (simp add: Let_def Cpu_execute_cop0_def Cpu_enter_exception_def Cop0_enter_exception_def
      status_push_pop [simplified] status_push_pop_twice [simplified] split: option.split)

text \<open>
  \<open>mult\<close> and \<open>multu\<close> leave the exact 64-bit product in HI and LO for all operands.
\<close>
lemma cpu_multiply_exact:
  "(let l = cpu_registers c ! rs; r = cpu_registers c ! rt;
        s = snd (execute_special pc rs rt rd shift 0x18 c);
        u = snd (execute_special pc rs rt rd shift 0x19 c)
    in sint (cpu_hi s) * 2 ^ 32 + uint (cpu_lo s) = sint l * sint r \<and>
       uint (cpu_hi u) * 2 ^ 32 + uint (cpu_lo u) = uint l * uint r)"
  using signed_split_64 [OF i32_product] unsigned_split_64 [OF u32_product]
  by (simp add: execute_special_def Let_def to_i32_def)

text \<open>
  C17. \<open>div\<close> and \<open>divu\<close> never panic and always leave HI and LO with \<open>HI + LO * d = n\<close> in word
  arithmetic, also for the divisor zero and for the overflowing signed quotient. Outside those
  cases the quotient and remainder are exact, the remainder is smaller than the divisor, and the
  signed remainder has the sign of the dividend.
\<close>
theorem cpu_divide_exact:
  "(let n = cpu_registers c ! rs; d = cpu_registers c ! rt;
        s = snd (execute_special pc rs rt rd shift 0x1a c);
        u = snd (execute_special pc rs rt rd shift 0x1b c)
    in cpu_hi s + cpu_lo s * d = n \<and> cpu_hi u + cpu_lo u * d = n \<and>
       (d \<noteq> 0 \<longrightarrow> cpu_hi u < d \<and> unat n = unat (cpu_lo u) * unat d + unat (cpu_hi u)) \<and>
       (d \<noteq> 0 \<and> \<not> (n = 0x80000000 \<and> d = - 1) \<longrightarrow>
          sint n = sint (cpu_lo s) * sint d + sint (cpu_hi s) \<and>
          \<bar>sint (cpu_hi s)\<bar> < \<bar>sint d\<bar> \<and>
          (sint (cpu_hi s) = 0 \<or> sgn (sint (cpu_hi s)) = sgn (sint n))))"
proof -
  let ?n = "cpu_registers c ! rs" and ?d = "cpu_registers c ! rt"
  let ?s = "snd (execute_special pc rs rt rd shift 0x1a c)"
  let ?u = "snd (execute_special pc rs rt rd shift 0x1b c)"
  have s: "signed_divide ?n ?d = (cpu_hi ?s, cpu_lo ?s)"
    by (simp add: execute_special_def Let_def case_prod_beta)
  have u: "cpu_hi ?u = (if ?d = 0 then ?n else ?n mod ?d)" 
      "cpu_lo ?u = (if ?d = 0 then - 1 else ?n div ?d)"
    by (simp_all add: execute_special_def Let_def)
  have "cpu_hi ?s + cpu_lo ?s * ?d = ?n" by (rule signed_divide_word [OF s])
  moreover have "cpu_hi ?u + cpu_lo ?u * ?d = ?n"
    using word_mod_div_equality [of ?n ?d] by (simp add: u add.commute)
  moreover have "?d \<noteq> 0 \<longrightarrow> cpu_hi ?u < ?d \<and>
     unat ?n = unat (cpu_lo ?u) * unat ?d + unat (cpu_hi ?u)"
    by (simp add: u unat_mod_distrib unat_div_distrib word_mod_less_divisor word_gt_0)
  moreover have "?d \<noteq> 0 \<and> \<not> (?n = 0x80000000 \<and> ?d = - 1) \<longrightarrow>
     sint ?n = sint (cpu_lo ?s) * sint ?d + sint (cpu_hi ?s) \<and>
     \<bar>sint (cpu_hi ?s)\<bar> < \<bar>sint ?d\<bar> \<and>
     (sint (cpu_hi ?s) = 0 \<or> sgn (sint (cpu_hi ?s)) = sgn (sint ?n))"
    using signed_divide_exact [OF _ _ s] by simp
  ultimately show ?thesis unfolding Let_def by blast
qed

theorem cpu_divide_exact_witness:
  "(let c = (Cpu_new ResetProfile_default)\<lparr>cpu_registers := replicate 30 0 @ [- 7, 2]\<rparr>;
        s = snd (execute_special 0 30 31 0 0 0x1a c)
    in sint (- 7 :: u32) = sint (cpu_lo s) * 2 + sint (cpu_hi s) \<and> \<bar>sint (cpu_hi s)\<bar> < 2)"
  using cpu_divide_exact [of "(Cpu_new ResetProfile_default)
      \<lparr>cpu_registers := replicate 30 0 @ [- 7, 2]\<rparr>" 30 31 0 0 0]
  by (simp add: Let_def nth_append)

end
