(* ===== verification/Bus_Address.thy ===== *)
theory Bus_Address
  imports Upse_Prelude
begin

text \<open>
  Guest addresses in arithmetic, shared by the memories of both machines: the 29-bit physical
  part of a direct-mapped address, its sums with small offsets, and host-sized copies.
\<close>

lemma unat_physical: "unat ((a :: u32) AND 0x1fffffff) = unat a mod 2 ^ 29"
proof -
  have "a AND 0x1fffffff = take_bit 29 a" by (simp add: take_bit_eq_mask mask_eq_exp_minus_1)
  then have "unat (a AND 0x1fffffff) = take_bit 29 (unat a)" by (simp only: unsigned_take_bit_eq)
  then show ?thesis by (simp only: take_bit_eq_mod)
qed

lemma usize_of_u32: "try_from_n 64 (unat (w :: u32)) = Some (unat w)"
  using unsigned_less [of w, where ?'a = nat] by (simp add: try_from_n_def)

lemma usize_of_u32_minus: "try_from_n 64 (unat (w :: u32) - k) = Some (unat w - k)"
  using unsigned_less [of w, where ?'a = nat] by (simp add: try_from_n_def)

lemma unat_plus_small:
  "unat a + i < 2 ^ 32 \<Longrightarrow> unat (a + of_nat i) = unat a + i" for a :: u32
  by (simp add: unat_word_ariths unat_of_nat)

lemma seg_small:
  fixes x :: nat
  assumes "x mod 2 ^ 29 + i < 2 ^ 29"
  shows "(x + i) mod 2 ^ 29 = x mod 2 ^ 29 + i" "(x + i) div 2 ^ 29 = x div 2 ^ 29"
proof -
  have "x + i = x div 2 ^ 29 * 2 ^ 29 + (x mod 2 ^ 29 + i)" by simp
  then show "(x + i) mod 2 ^ 29 = x mod 2 ^ 29 + i" "(x + i) div 2 ^ 29 = x div 2 ^ 29"
    using assms by (metis mod_mult_self3 mod_less, metis div_mult_self3 div_less add_0_right add.commute power_not_zero zero_neq_numeral)
qed

end
