(* ===== verification/Ps1_Memory.thy ===== *)
theory Ps1_Memory
  imports R3000_Proofs Ps1_Irq Bus_Address
begin

text \<open>
  PS1 main RAM, scratchpad and memory-control registers, from
  \<open>crates/hw/ps1/memory/src/lib.rs\<close>: segment translation, region decoding with the four RAM
  mirrors, byte, halfword and word accesses that never cross a region, and the open-bus policy.
  RAM and scratchpad are byte lists; \<open>classify_bounds\<close>, \<open>validated_ram\<close> and
  \<open>validated_scratchpad\<close> show that the code's indices stay inside them.

  The memory is one of the buses the CPU runs on: it interprets the contract \<open>word_bus\<close> of
  the interpreter, and with it the unaligned access pairs hold on the console's memory map.
\<close>

section \<open>Memory map\<close>

definition RAM_SIZE :: nat where "RAM_SIZE = 2 * 1024 * 1024"
definition RAM_MIRROR_END :: u32 where "RAM_MIRROR_END = 0x00800000"
definition SCRATCH_START :: u32 where "SCRATCH_START = 0x1f800000"
definition SCRATCH_SIZE :: nat where "SCRATCH_SIZE = 1024"
definition SCRATCH_SIZE_U32 :: u32 where "SCRATCH_SIZE_U32 = 1024"
definition MMIO_START :: u32 where "MMIO_START = 0x1f801000"
definition MMIO_END :: u32 where "MMIO_END = 0x1f803000"
definition ROM_START :: u32 where "ROM_START = 0x1fc00000"
definition ROM_END :: u32 where "ROM_END = 0x1fc80000"
definition MEMORY_CONTROL_START :: u32 where "MEMORY_CONTROL_START = 0x1f801000"
definition MEMORY_CONTROL_END :: u32 where "MEMORY_CONTROL_END = 0x1f801023"

definition MEMORY_CONTROL_RESET :: "u32 list" where
  "MEMORY_CONTROL_RESET =
     [0x1f000000, 0x1f802000, 0x0013243f, 0x00003022, 0x0013243f, 0x200931e1, 0x00020843,
      0x00070777, 0x00031125]"

datatype OpenBusPolicy = OpenBusPolicy_Strict | OpenBusPolicy_Ones

datatype MemoryRegion =
    MemoryRegion_Ram usize
  | MemoryRegion_Scratchpad usize
  | MemoryRegion_Mmio u32
  | MemoryRegion_HleRom u32
  | MemoryRegion_Unmapped u32

datatype MemoryError =
    MemoryError_UnsupportedSegment u32
  | MemoryError_UnsupportedAddressWidth u32
  | MemoryError_Mmio u32
  | MemoryError_HleRom u32
  | MemoryError_Unmapped u32
  | MemoryError_CrossesBoundary u32
  | MemoryError_InvalidImageSize usize

record Ps1Memory =
  mem_ram :: "u8 list"
  mem_scratchpad :: "u8 list"
  mem_memory_control :: "u32 list"
  mem_open_bus :: OpenBusPolicy

definition Ps1Memory_new :: "OpenBusPolicy \<Rightarrow> Ps1Memory" where
  "Ps1Memory_new open_bus =
     \<lparr>mem_ram = replicate RAM_SIZE 0, mem_scratchpad = replicate SCRATCH_SIZE 0,
      mem_memory_control = MEMORY_CONTROL_RESET, mem_open_bus = open_bus\<rparr>"

text \<open>The image is given by its RAM bytes.\<close>

definition Ps1Memory_from_image :: "u8 list \<Rightarrow> OpenBusPolicy \<Rightarrow> MemoryError + Ps1Memory" where
  "Ps1Memory_from_image image_ram open_bus =
     (if length image_ram \<noteq> RAM_SIZE then Inl (MemoryError_InvalidImageSize (length image_ram))
      else Inr \<lparr>mem_ram = image_ram, mem_scratchpad = replicate SCRATCH_SIZE 0,
                mem_memory_control = MEMORY_CONTROL_RESET, mem_open_bus = open_bus\<rparr>)"

definition memory_control_index :: "u32 \<Rightarrow> MemoryError + usize" where
  "memory_control_index address =
     (if \<not> (MEMORY_CONTROL_START \<le> address \<and> address \<le> MEMORY_CONTROL_END) \<or> address AND 3 \<noteq> 0
      then Inl (MemoryError_Mmio address)
      else ok_or (try_from_n 64 (unat ((address - MEMORY_CONTROL_START) div 4)))
             (MemoryError_UnsupportedAddressWidth address))"

definition Ps1Memory_read_control :: "Ps1Memory \<Rightarrow> u32 \<Rightarrow> MemoryError + u32" where
  "Ps1Memory_read_control m address =
     and_then (memory_control_index address) (\<lambda>index. Inr (mem_memory_control m ! index))"

definition Ps1Memory_write_control ::
  "Ps1Memory \<Rightarrow> u32 \<Rightarrow> u32 \<Rightarrow> (MemoryError + unit) \<times> Ps1Memory" where
  "Ps1Memory_write_control m address v =
     (case memory_control_index address of
        Inl e \<Rightarrow> (Inl e, m)
      | Inr index \<Rightarrow>
          (Inr (), m\<lparr>mem_memory_control := (mem_memory_control m)[index := v]\<rparr>))"

definition translate :: "u32 \<Rightarrow> MemoryError + u32" where
  "translate address =
     (if drop_bit 29 address \<le> 5 then Inr (address AND 0x1fffffff)
      else Inl (MemoryError_UnsupportedSegment address))"

definition Ps1Memory_classify :: "u32 \<Rightarrow> MemoryError + MemoryRegion" where
  "Ps1Memory_classify address =
     and_then (translate address) (\<lambda>physical.
       if physical < RAM_MIRROR_END then
         and_then (ok_or (try_from_n 64 (unat physical)) (MemoryError_UnsupportedAddressWidth address))
           (\<lambda>p. Inr (MemoryRegion_Ram (p mod RAM_SIZE)))
       else if SCRATCH_START \<le> physical \<and> physical < SCRATCH_START + SCRATCH_SIZE_U32 then
         and_then (ok_or (try_from_n 64 (unat (physical - SCRATCH_START)))
             (MemoryError_UnsupportedAddressWidth address))
           (\<lambda>p. Inr (MemoryRegion_Scratchpad p))
       else if MMIO_START \<le> physical \<and> physical < MMIO_END then Inr (MemoryRegion_Mmio physical)
       else if ROM_START \<le> physical \<and> physical < ROM_END then Inr (MemoryRegion_HleRom physical)
       else Inr (MemoryRegion_Unmapped physical))"

fun same_region :: "MemoryRegion \<Rightarrow> MemoryRegion \<Rightarrow> bool" where
  "same_region (MemoryRegion_Ram _) (MemoryRegion_Ram _) = True"
| "same_region (MemoryRegion_Scratchpad _) (MemoryRegion_Scratchpad _) = True"
| "same_region (MemoryRegion_Mmio _) (MemoryRegion_Mmio _) = True"
| "same_region (MemoryRegion_HleRom _) (MemoryRegion_HleRom _) = True"
| "same_region (MemoryRegion_Unmapped _) (MemoryRegion_Unmapped _) = True"
| "same_region _ _ = False"

section \<open>Accesses\<close>

definition Ps1Memory_read_u8 :: "Ps1Memory \<Rightarrow> u32 \<Rightarrow> MemoryError + u8" where
  "Ps1Memory_read_u8 m address =
     and_then (Ps1Memory_classify address) (\<lambda>region. case region of
         MemoryRegion_Ram offset \<Rightarrow> Inr (mem_ram m ! offset)
       | MemoryRegion_Scratchpad offset \<Rightarrow> Inr (mem_scratchpad m ! offset)
       | MemoryRegion_Mmio physical \<Rightarrow> Inl (MemoryError_Mmio physical)
       | MemoryRegion_HleRom physical \<Rightarrow> Inl (MemoryError_HleRom physical)
       | MemoryRegion_Unmapped physical \<Rightarrow>
           (case mem_open_bus m of
              OpenBusPolicy_Strict \<Rightarrow> Inl (MemoryError_Unmapped physical)
            | OpenBusPolicy_Ones \<Rightarrow> Inr (- 1)))"

definition Ps1Memory_validate_decoded_access :: "nat \<Rightarrow> u32 \<Rightarrow> MemoryRegion \<Rightarrow> MemoryError + unit" where
  "Ps1Memory_validate_decoded_access n address region =
     and_then (ok_or (checked_add address (of_nat (n - 1))) (MemoryError_CrossesBoundary address))
       (\<lambda>last. and_then (Ps1Memory_classify last) (\<lambda>last_region.
          if \<not> same_region region last_region then Inl (MemoryError_CrossesBoundary address)
          else Inr ()))"

definition Ps1Memory_read_decoded_u16 :: "Ps1Memory \<Rightarrow> u32 \<Rightarrow> MemoryRegion \<Rightarrow> MemoryError + u16" where
  "Ps1Memory_read_decoded_u16 m address region =
     and_then (Ps1Memory_validate_decoded_access 2 address region) (\<lambda>_. case region of
         MemoryRegion_Ram offset \<Rightarrow> Inr
           (u16_from_le_bytes (mem_ram m ! offset) (mem_ram m ! ((offset + 1) mod RAM_SIZE)))
       | MemoryRegion_Scratchpad offset \<Rightarrow> Inr
           (u16_from_le_bytes (mem_scratchpad m ! offset) (mem_scratchpad m ! (offset + 1)))
       | MemoryRegion_Mmio physical \<Rightarrow> Inl (MemoryError_Mmio physical)
       | MemoryRegion_HleRom physical \<Rightarrow> Inl (MemoryError_HleRom physical)
       | MemoryRegion_Unmapped physical \<Rightarrow>
           (case mem_open_bus m of
              OpenBusPolicy_Strict \<Rightarrow> Inl (MemoryError_Unmapped physical)
            | OpenBusPolicy_Ones \<Rightarrow> Inr (- 1)))"

definition Ps1Memory_read_decoded_u32 :: "Ps1Memory \<Rightarrow> u32 \<Rightarrow> MemoryRegion \<Rightarrow> MemoryError + u32" where
  "Ps1Memory_read_decoded_u32 m address region =
     and_then (Ps1Memory_validate_decoded_access 4 address region) (\<lambda>_. case region of
         MemoryRegion_Ram offset \<Rightarrow> Inr
           (u32_from_le_bytes (mem_ram m ! offset) (mem_ram m ! ((offset + 1) mod RAM_SIZE))
              (mem_ram m ! ((offset + 2) mod RAM_SIZE)) (mem_ram m ! ((offset + 3) mod RAM_SIZE)))
       | MemoryRegion_Scratchpad offset \<Rightarrow> Inr
           (u32_from_le_bytes (mem_scratchpad m ! offset) (mem_scratchpad m ! (offset + 1))
              (mem_scratchpad m ! (offset + 2)) (mem_scratchpad m ! (offset + 3)))
       | MemoryRegion_Mmio physical \<Rightarrow> Inl (MemoryError_Mmio physical)
       | MemoryRegion_HleRom physical \<Rightarrow> Inl (MemoryError_HleRom physical)
       | MemoryRegion_Unmapped physical \<Rightarrow>
           (case mem_open_bus m of
              OpenBusPolicy_Strict \<Rightarrow> Inl (MemoryError_Unmapped physical)
            | OpenBusPolicy_Ones \<Rightarrow> Inr (- 1)))"

definition Ps1Memory_read_u16 :: "Ps1Memory \<Rightarrow> u32 \<Rightarrow> MemoryError + u16" where
  "Ps1Memory_read_u16 m address =
     and_then (Ps1Memory_classify address) (Ps1Memory_read_decoded_u16 m address)"

definition Ps1Memory_read_u32 :: "Ps1Memory \<Rightarrow> u32 \<Rightarrow> MemoryError + u32" where
  "Ps1Memory_read_u32 m address =
     and_then (Ps1Memory_classify address) (Ps1Memory_read_decoded_u32 m address)"

definition Ps1Memory_write_u8 :: "Ps1Memory \<Rightarrow> u32 \<Rightarrow> u8 \<Rightarrow> (MemoryError + unit) \<times> Ps1Memory" where
  "Ps1Memory_write_u8 m address v =
     (case Ps1Memory_classify address of
        Inl e \<Rightarrow> (Inl e, m)
      | Inr region \<Rightarrow> (case region of
            MemoryRegion_Ram offset \<Rightarrow> (Inr (), m\<lparr>mem_ram := (mem_ram m)[offset := v]\<rparr>)
          | MemoryRegion_Scratchpad offset \<Rightarrow>
              (Inr (), m\<lparr>mem_scratchpad := (mem_scratchpad m)[offset := v]\<rparr>)
          | MemoryRegion_Mmio physical \<Rightarrow> (Inl (MemoryError_Mmio physical), m)
          | MemoryRegion_HleRom physical \<Rightarrow> (Inl (MemoryError_HleRom physical), m)
          | MemoryRegion_Unmapped physical \<Rightarrow>
              (if mem_open_bus m = OpenBusPolicy_Strict
               then (Inl (MemoryError_Unmapped physical), m) else (Inr (), m))))"

text \<open>The loop over \<open>bytes.into_iter().enumerate()\<close> with its wrapping index.\<close>

fun ram_write_loop :: "nat \<Rightarrow> u8 list \<Rightarrow> u8 list \<Rightarrow> u8 list" where
  "ram_write_loop offset [] ram = ram"
| "ram_write_loop offset (v # vs) ram =
     ram_write_loop (Suc offset) vs (ram[offset mod RAM_SIZE := v])"

definition Ps1Memory_write_decoded_bytes ::
  "Ps1Memory \<Rightarrow> u32 \<Rightarrow> MemoryRegion \<Rightarrow> u8 list \<Rightarrow> (MemoryError + unit) \<times> Ps1Memory" where
  "Ps1Memory_write_decoded_bytes m address region bytes =
     (case Ps1Memory_validate_decoded_access (length bytes) address region of
        Inl e \<Rightarrow> (Inl e, m)
      | Inr _ \<Rightarrow> (case region of
            MemoryRegion_Ram offset \<Rightarrow>
              (Inr (), m\<lparr>mem_ram := ram_write_loop offset bytes (mem_ram m)\<rparr>)
          | MemoryRegion_Scratchpad offset \<Rightarrow>
              (case checked_add_n 64 offset (length bytes) of
                 None \<Rightarrow> (Inl (MemoryError_CrossesBoundary address), m)
               | Some stop \<Rightarrow>
                   (if stop \<le> length (mem_scratchpad m) then
                      (Inr (), m\<lparr>mem_scratchpad := take offset (mem_scratchpad m) @ bytes
                         @ drop stop (mem_scratchpad m)\<rparr>)
                    else (Inl (MemoryError_CrossesBoundary address), m)))
          | MemoryRegion_Mmio physical \<Rightarrow> (Inl (MemoryError_Mmio physical), m)
          | MemoryRegion_HleRom physical \<Rightarrow> (Inl (MemoryError_HleRom physical), m)
          | MemoryRegion_Unmapped physical \<Rightarrow>
              (if mem_open_bus m = OpenBusPolicy_Strict
               then (Inl (MemoryError_Unmapped physical), m) else (Inr (), m))))"

definition Ps1Memory_write_decoded_u16 ::
  "Ps1Memory \<Rightarrow> u32 \<Rightarrow> MemoryRegion \<Rightarrow> u16 \<Rightarrow> (MemoryError + unit) \<times> Ps1Memory" where
  "Ps1Memory_write_decoded_u16 m address region v =
     Ps1Memory_write_decoded_bytes m address region [byte_of 0 v, byte_of 1 v]"

definition Ps1Memory_write_decoded_u32 ::
  "Ps1Memory \<Rightarrow> u32 \<Rightarrow> MemoryRegion \<Rightarrow> u32 \<Rightarrow> (MemoryError + unit) \<times> Ps1Memory" where
  "Ps1Memory_write_decoded_u32 m address region v =
     Ps1Memory_write_decoded_bytes m address region
       [byte_of 0 v, byte_of 1 v, byte_of 2 v, byte_of 3 v]"

definition Ps1Memory_write_u16 :: "Ps1Memory \<Rightarrow> u32 \<Rightarrow> u16 \<Rightarrow> (MemoryError + unit) \<times> Ps1Memory" where
  "Ps1Memory_write_u16 m address v =
     (case Ps1Memory_classify address of
        Inl e \<Rightarrow> (Inl e, m)
      | Inr region \<Rightarrow>
          Ps1Memory_write_decoded_bytes m address region [byte_of 0 v, byte_of 1 v])"

definition Ps1Memory_write_u32 :: "Ps1Memory \<Rightarrow> u32 \<Rightarrow> u32 \<Rightarrow> (MemoryError + unit) \<times> Ps1Memory" where
  "Ps1Memory_write_u32 m address v =
     (case Ps1Memory_classify address of
        Inl e \<Rightarrow> (Inl e, m)
      | Inr region \<Rightarrow>
          Ps1Memory_write_decoded_bytes m address region
            [byte_of 0 v, byte_of 1 v, byte_of 2 v, byte_of 3 v])"

section \<open>Address decoding in arithmetic\<close>

lemma translate_unat:
  "translate a = (if unat a div 2 ^ 29 \<le> 5 then Inr (a AND 0x1fffffff)
     else Inl (MemoryError_UnsupportedSegment a))"
proof -
  have "unat (drop_bit 29 a) = drop_bit 29 (unat a)"
    using unsigned_less [of a, where ?'a = nat]
    by (simp add: unsigned_drop_bit_eq take_bit_nat_eq_self)
  then have "drop_bit 29 a \<le> 5 \<longleftrightarrow> unat a div 2 ^ 29 \<le> 5"
    by (simp add: word_le_nat_alt drop_bit_eq_div [where 'a = nat])
  then show ?thesis by (simp add: translate_def)
qed

lemmas region_bounds = RAM_MIRROR_END_def SCRATCH_START_def SCRATCH_SIZE_U32_def MMIO_START_def
  MMIO_END_def ROM_START_def ROM_END_def

lemma classify_unat:
  "Ps1Memory_classify a =
     (let p = unat a mod 2 ^ 29 in
      if \<not> unat a div 2 ^ 29 \<le> 5 then Inl (MemoryError_UnsupportedSegment a)
      else if p < 0x800000 then Inr (MemoryRegion_Ram (p mod RAM_SIZE))
      else if 0x1f800000 \<le> p \<and> p < 0x1f800400 then Inr (MemoryRegion_Scratchpad (p - 0x1f800000))
      else if 0x1f801000 \<le> p \<and> p < 0x1f803000 then Inr (MemoryRegion_Mmio (a AND 0x1fffffff))
      else if 0x1fc00000 \<le> p \<and> p < 0x1fc80000 then Inr (MemoryRegion_HleRom (a AND 0x1fffffff))
      else Inr (MemoryRegion_Unmapped (a AND 0x1fffffff)))"
proof -
  let ?w = "a AND 0x1fffffff"
  have w: "unat ?w = unat a mod 2 ^ 29" by (rule unat_physical)
  have scratch: "unat (?w - SCRATCH_START) = unat ?w - 0x1f800000" if "0x1f800000 \<le> unat ?w"
    using that by (simp add: unat_sub SCRATCH_START_def word_le_nat_alt)
  show ?thesis
    unfolding Ps1Memory_classify_def translate_unat Let_def w [symmetric]
    using scratch
    by (simp add: and_then_def ok_or_def usize_of_u32 usize_of_u32_minus region_bounds word_less_nat_alt word_le_nat_alt)
qed

definition ps1_ok :: "Ps1Memory \<Rightarrow> bool" where
  "ps1_ok m \<longleftrightarrow> length (mem_ram m) = RAM_SIZE \<and> length (mem_scratchpad m) = SCRATCH_SIZE \<and>
     length (mem_memory_control m) = 9"

definition ps1_cell :: "u32 \<Rightarrow> nat option" where
  "ps1_cell a = (case Ps1Memory_classify a of
     Inr (MemoryRegion_Ram offset) \<Rightarrow> Some offset
   | Inr (MemoryRegion_Scratchpad offset) \<Rightarrow> Some (RAM_SIZE + offset)
   | _ \<Rightarrow> None)"

definition ps1_byte :: "Ps1Memory \<Rightarrow> nat \<Rightarrow> u8" where
  "ps1_byte m k = (if k < RAM_SIZE then mem_ram m ! k else mem_scratchpad m ! (k - RAM_SIZE))"

lemma classify_bounds:
  "Ps1Memory_classify a = Inr (MemoryRegion_Ram k) \<Longrightarrow> k < RAM_SIZE"
  "Ps1Memory_classify a = Inr (MemoryRegion_Scratchpad k) \<Longrightarrow> k < SCRATCH_SIZE"
  by (auto simp: classify_unat Let_def RAM_SIZE_def SCRATCH_SIZE_def split: if_splits)

lemma ps1_cell_arith:
  "ps1_cell a =
     (let p = unat a mod 2 ^ 29 in
      if \<not> unat a div 2 ^ 29 \<le> 5 then None
      else if p < 0x800000 then Some (p mod RAM_SIZE)
      else if 0x1f800000 \<le> p \<and> p < 0x1f800400 then Some (RAM_SIZE + (p - 0x1f800000))
      else None)"
  by (simp add: ps1_cell_def classify_unat Let_def)

lemma read_u8_cell: "ps1_cell x = Some k \<Longrightarrow> Ps1Memory_read_u8 m x = Inr (ps1_byte m k)"
  by (auto simp: ps1_cell_def Ps1Memory_read_u8_def ps1_byte_def and_then_def dest: classify_bounds
      split: sum.splits MemoryRegion.splits)

text \<open>A validated access of at most four bytes lies in consecutive cells of one region.\<close>

definition validated :: "nat \<Rightarrow> u32 \<Rightarrow> MemoryRegion \<Rightarrow> bool" where
  "validated n a region \<longleftrightarrow> Ps1Memory_classify a = Inr region \<and>
     Ps1Memory_validate_decoded_access n a region = Inr ()"

lemma validatedD:
  assumes v: "validated n a region" and n: "0 < n" "n \<le> 4"
  shows "unat a + (n - 1) < 2 ^ 32"
    and "\<exists>region'. Ps1Memory_classify (a + of_nat (n - 1)) = Inr region' \<and> same_region region region'"
proof -
  have "unat (of_nat k :: u32) = k" if "k < 4" for k using that by (simp add: unat_of_nat)
  from this [of "n - 1"] have n1: "unat (of_nat (n - 1) :: u32) = n - 1" using n by linarith
  show "unat a + (n - 1) < 2 ^ 32" "\<exists>region'. Ps1Memory_classify (a + of_nat (n - 1)) = Inr region' \<and> same_region region region'"
  using v n1
  by (auto simp: validated_def Ps1Memory_validate_decoded_access_def and_then_def ok_or_def
      checked_add_def split: sum.splits if_splits option.splits)
qed

lemma validated_ram:
  assumes v: "validated n a (MemoryRegion_Ram k)" and n: "0 < n" "n \<le> 4" and i: "i < n"
  shows "ps1_cell (a + of_nat i) = Some ((k + i) mod RAM_SIZE)"
proof -
  define p where "p = unat a mod 2 ^ 29"
  have a: "unat a div 2 ^ 29 \<le> 5" "p < 0x800000" "k = p mod RAM_SIZE"
    using v by (auto simp: validated_def classify_unat Let_def p_def split: if_splits)
  have l: "unat a + (n - 1) < 2 ^ 32" using validatedD(1) [OF v n] .
  have s: "(unat a + j) mod 2 ^ 29 = p + j \<and> (unat a + j) div 2 ^ 29 = unat a div 2 ^ 29"
    if "j \<le> 4" for j
    using seg_small [of "unat a" j] that a(2) by (simp add: p_def)
  obtain k' where "Ps1Memory_classify (a + of_nat (n - 1)) = Inr (MemoryRegion_Ram k')"
    using validatedD(2) [OF v n] by (metis same_region.simps MemoryRegion.exhaust)
  then have "p + (n - 1) < 0x800000"
    using s [of "n - 1"] n unat_plus_small [OF l] unfolding classify_unat Let_def
    by (auto split: if_splits)
  then have "p + i < 0x800000" using i by simp
  moreover have "unat (a + of_nat i) = unat a + i" using l i by (intro unat_plus_small) simp
  ultimately show ?thesis
    using s [of i] a i n by (simp add: ps1_cell_arith Let_def mod_simps)
qed

lemma validated_scratchpad:
  assumes v: "validated n a (MemoryRegion_Scratchpad k)" and n: "0 < n" "n \<le> 4"
  shows "k + n \<le> SCRATCH_SIZE" and "i < n \<Longrightarrow> ps1_cell (a + of_nat i) = Some (RAM_SIZE + (k + i))"
proof -
  define p where "p = unat a mod 2 ^ 29"
  have a: "unat a div 2 ^ 29 \<le> 5" "0x1f800000 \<le> p" "p < 0x1f800400" "k = p - 0x1f800000"
    using v by (auto simp: validated_def classify_unat Let_def p_def split: if_splits)
  have l: "unat a + (n - 1) < 2 ^ 32" using validatedD(1) [OF v n] .
  have s: "(unat a + j) mod 2 ^ 29 = p + j \<and> (unat a + j) div 2 ^ 29 = unat a div 2 ^ 29"
    if "j \<le> 4" for j
    using seg_small [of "unat a" j] that a(3) by (simp add: p_def)
  obtain k' where "Ps1Memory_classify (a + of_nat (n - 1)) = Inr (MemoryRegion_Scratchpad k')"
    using validatedD(2) [OF v n] by (metis same_region.simps MemoryRegion.exhaust)
  then have last: "p + (n - 1) < 0x1f800400"
    using s [of "n - 1"] n a unat_plus_small [OF l] unfolding classify_unat Let_def
    by (auto split: if_splits)
  then show "k + n \<le> SCRATCH_SIZE" using a n by (simp add: SCRATCH_SIZE_def)
  assume i: "i < n"
  then have "p + i < 0x1f800400" using last by simp
  moreover have "unat (a + of_nat i) = unat a + i" using l i by (intro unat_plus_small) simp
  ultimately show "ps1_cell (a + of_nat i) = Some (RAM_SIZE + (k + i))"
    using s [of i] a i n by (simp add: ps1_cell_arith Let_def)
qed

section \<open>Writes\<close>

lemma length_ram_write_loop [simp]: "length (ram_write_loop k vs ram) = length ram"
  by (induction k vs ram rule: ram_write_loop.induct) simp_all

lemma ram_write_other:
  "(\<And>i. i < length vs \<Longrightarrow> c \<noteq> (k + i) mod RAM_SIZE) \<Longrightarrow> ram_write_loop k vs ram ! c = ram ! c"
proof (induction k vs ram rule: ram_write_loop.induct)
  case (2 k v vs ram)
  have "c \<noteq> k mod RAM_SIZE" using "2.prems" [of 0] by simp
  moreover have "c \<noteq> (Suc k + i) mod RAM_SIZE" if "i < length vs" for i
    using "2.prems" [of "Suc i"] that by simp
  ultimately show ?case using "2.IH" by simp
qed simp

lemma ram_write_hit:
  "length vs \<le> RAM_SIZE \<Longrightarrow> length ram = RAM_SIZE \<Longrightarrow> i < length vs \<Longrightarrow>
   ram_write_loop k vs ram ! ((k + i) mod RAM_SIZE) = vs ! i"
proof (induction k vs ram arbitrary: i rule: ram_write_loop.induct)
  case (2 k v vs ram)
  show ?case
  proof (cases i)
    case 0
    have "k mod RAM_SIZE \<noteq> (Suc k + j) mod RAM_SIZE" if "j < length vs" for j
    proof
      assume "k mod RAM_SIZE = (Suc k + j) mod RAM_SIZE"
      then have "RAM_SIZE dvd Suc k + j - k" by (metis mod_eq_dvd_iff_nat le_add1 add_Suc_shift)
      then show False using that "2.prems"(1) by (auto dest: dvd_imp_le)
    qed
    then show ?thesis
      using 0 "2.prems"(2) by (simp add: ram_write_other) (simp add: RAM_SIZE_def)
  next
    case (Suc j)
    then show ?thesis using "2.IH" [of j] "2.prems" by simp
  qed
qed simp

text \<open>A byte string written to backed memory changes exactly the cells it covers.\<close>

lemma write_bytes:
  assumes m: "ps1_ok m" and v: "validated (length vs) a region" and n: "0 < length vs" "length vs \<le> 4"
    and backed: "ps1_cell a \<noteq> None"
  shows "\<exists>m'. Ps1Memory_write_decoded_bytes m a region vs = (Inr (), m') \<and> ps1_ok m' \<and>
    mem_open_bus m' = mem_open_bus m \<and>
    (\<forall>i < length vs. \<exists>c. ps1_cell (a + of_nat i) = Some c \<and> ps1_byte m' c = vs ! i) \<and>
    (\<forall>c. c < RAM_SIZE + SCRATCH_SIZE \<longrightarrow> (\<forall>i < length vs. ps1_cell (a + of_nat i) \<noteq> Some c) \<longrightarrow>
       ps1_byte m' c = ps1_byte m c)"
proof -
  have ok: "Ps1Memory_validate_decoded_access (length vs) a region = Inr ()"
    and cl: "Ps1Memory_classify a = Inr region" using v by (simp_all add: validated_def)
  consider k where "region = MemoryRegion_Ram k" | k where "region = MemoryRegion_Scratchpad k"
    using backed cl by (cases region) (auto simp: ps1_cell_def)
  then show ?thesis
  proof cases
    case 1
    let ?m = "m\<lparr>mem_ram := ram_write_loop k vs (mem_ram m)\<rparr>"
    have "Ps1Memory_write_decoded_bytes m a region vs = (Inr (), ?m)"
      using ok 1 by (simp add: Ps1Memory_write_decoded_bytes_def)
    moreover have cells: "ps1_cell (a + of_nat i) = Some ((k + i) mod RAM_SIZE)" if "i < length vs" for i
      using validated_ram v n that 1 by blast
    moreover have "(k + i) mod RAM_SIZE < RAM_SIZE" for i by (simp add: RAM_SIZE_def)
    moreover have "length vs \<le> RAM_SIZE" using n by (simp add: RAM_SIZE_def)
    moreover have "ram_write_loop k vs (mem_ram m) ! c = mem_ram m ! c"
      if "\<forall>i < length vs. (k + i) mod RAM_SIZE \<noteq> c" for c
      using that by (intro ram_write_other) metis
    ultimately show ?thesis
      using m ram_write_hit [of vs "mem_ram m" _ k] by (auto simp: ps1_ok_def ps1_byte_def)
  next
    case 2
    note s = validated_scratchpad [OF v [unfolded 2] n]
    let ?s = "take k (mem_scratchpad m) @ vs @ drop (k + length vs) (mem_scratchpad m)"
    let ?m = "m\<lparr>mem_scratchpad := ?s\<rparr>"
    have len: "length (mem_scratchpad m) = SCRATCH_SIZE" using m by (simp add: ps1_ok_def)
    have "checked_add_n 64 k (length vs) = Some (k + length vs)"
      using s(1) by (simp add: checked_add_n_def SCRATCH_SIZE_def)
    then have "Ps1Memory_write_decoded_bytes m a region vs = (Inr (), ?m)"
      using s(1) len ok 2 by (simp add: Ps1Memory_write_decoded_bytes_def)
    moreover have "ps1_ok ?m" using m s(1) len by (simp add: ps1_ok_def)
    moreover have "ps1_byte ?m (RAM_SIZE + (k + i)) = vs ! i" if "i < length vs" for i
      using that s(1) len by (simp add: ps1_byte_def nth_append)
    moreover have "ps1_byte ?m c = ps1_byte m c"
      if "c < RAM_SIZE + SCRATCH_SIZE" "\<forall>i < length vs. ps1_cell (a + of_nat i) \<noteq> Some c" for c
    proof (cases "c < RAM_SIZE")
      case False
      then have "c - RAM_SIZE < k \<or> k + length vs \<le> c - RAM_SIZE"
      proof -
        have "\<not> (\<exists>i < length vs. c - RAM_SIZE = k + i)" using that(2) s(2) False by fastforce
        then show ?thesis by (metis less_diff_conv2 not_less le_Suc_ex le_add_diff_inverse nat_add_left_cancel_less)
      qed
      then show ?thesis using False s(1) len that(1) by (auto simp: ps1_byte_def nth_append min_def)
    qed (simp add: ps1_byte_def)
    moreover have "mem_open_bus ?m = mem_open_bus m" by simp
    ultimately show ?thesis using s(2) by blast
  qed
qed

section \<open>Words\<close>

definition ps1_word :: "Ps1Memory \<Rightarrow> u32 \<Rightarrow> u32" where
  "ps1_word m a =
     (let byte = (\<lambda>i. ps1_byte m (the (ps1_cell (a + of_nat i))))
      in u32_from_le_bytes (byte 0) (byte 1) (byte 2) (byte 3))"

lemma read_u32_word:
  assumes v: "validated 4 a region" and backed: "ps1_cell a \<noteq> None"
  shows "Ps1Memory_read_decoded_u32 m a region = Inr (ps1_word m a)"
proof -
  have ok: "Ps1Memory_validate_decoded_access 4 a region = Inr ()"
    and cl: "Ps1Memory_classify a = Inr region" using v by (simp_all add: validated_def)
  consider k where "region = MemoryRegion_Ram k" | k where "region = MemoryRegion_Scratchpad k"
    using backed cl by (cases region) (auto simp: ps1_cell_def)
  then show ?thesis
  proof cases
    case 1
    have cells: "ps1_cell (a + of_nat i) = Some ((k + i) mod RAM_SIZE)" if "i < 4" for i
      using validated_ram v that 1 by simp
    have "k < RAM_SIZE" using classify_bounds(1) cl 1 by simp
    moreover have "0 < RAM_SIZE" by (simp add: RAM_SIZE_def)
    moreover have "ps1_byte m c = mem_ram m ! c" if "c < RAM_SIZE" for c
      using that by (simp add: ps1_byte_def)
    ultimately show ?thesis
      using cells [of 0] cells [of 1] cells [of 2] cells [of 3] ok 1
      by (simp add: Ps1Memory_read_decoded_u32_def and_then_def ps1_word_def Let_def)
  next
    case 2
    have cells: "ps1_cell (a + of_nat i) = Some (RAM_SIZE + (k + i))" if "i < 4" for i
      using validated_scratchpad(2) v that 2 by simp
    then show ?thesis
      using cells [of 0] cells [of 1] cells [of 2] cells [of 3] ok 2
      by (simp add: Ps1Memory_read_decoded_u32_def and_then_def ps1_word_def Let_def ps1_byte_def)
  qed
qed

text \<open>An aligned backed word: its four bytes are four consecutive cells.\<close>

lemma aligned_word:
  assumes al: "a AND 3 = 0" and backed: "ps1_cell a = Some c"
  shows "\<exists>region. validated 4 a region"
    and "i < 4 \<Longrightarrow> ps1_cell (a + of_nat i) = Some (c + i)" and "c mod 4 = 0"
    and "c + 3 < RAM_SIZE + SCRATCH_SIZE"
proof -
  define p where "p = unat a mod 2 ^ 29"
  have "unat a mod 4 = 0" using al unat_and3 [of a] by simp
  then have p4: "p mod 4 = 0" by (simp add: p_def mod_mod_cancel)
  have seg: "unat a div 2 ^ 29 \<le> 5" and mem: "p < 0x800000 \<or> 0x1f800000 \<le> p \<and> p < 0x1f800400"
    and c: "c = (if p < 0x800000 then p mod RAM_SIZE else RAM_SIZE + (p - 0x1f800000))"
    using backed by (auto simp: ps1_cell_arith Let_def p_def split: if_splits)
  have "\<exists>q. p = 4 * q" using p4 by (auto simp: mod_eq_0_iff_dvd dvd_def)
  then have mem3: "p < 0x800000 \<and> p + 3 < 0x800000 \<or> 0x1f800000 \<le> p \<and> p + 3 < 0x1f800400"
    using mem by auto
  have s: "(unat a + j) mod 2 ^ 29 = p + j \<and> (unat a + j) div 2 ^ 29 = unat a div 2 ^ 29"
    if "j < 4" for j
    using seg_small [of "unat a" j] that mem3 by (auto simp: p_def)
  have "unat a = unat a div 2 ^ 29 * 2 ^ 29 + p" by (simp add: p_def)
  also have "\<dots> \<le> 5 * 2 ^ 29 + p" using mult_le_mono1 [OF seg, of "2 ^ 29"] by simp
  finally have l: "unat a + 3 < 2 ^ 32" using mem3 by auto
  have u: "unat (a + of_nat j) = unat a + j" if "j < 4" for j
    using that l by (intro unat_plus_small) simp
  have "\<exists>r r'. Ps1Memory_classify a = Inr r \<and> Ps1Memory_classify (a + of_nat 3) = Inr r' \<and> same_region r r'"
    using seg mem3 s [of 3] u [of 3] unfolding classify_unat Let_def p_def by (auto simp: p_def)
  then show "\<exists>region. validated 4 a region"
    using l by (auto simp: validated_def Ps1Memory_validate_decoded_access_def and_then_def
        ok_or_def checked_add_def)
  obtain q where q: "p = 4 * q" using \<open>\<exists>q. p = 4 * q\<close> by blast
  show c4: "c mod 4 = 0"
    using q by (auto simp: c RAM_SIZE_def mod_mod_cancel)
  show bound: "c + 3 < RAM_SIZE + SCRATCH_SIZE"
  proof (cases "p < 0x800000")
    case True
    have "p mod RAM_SIZE < RAM_SIZE" by (simp add: RAM_SIZE_def)
    then show ?thesis using c True by (simp add: SCRATCH_SIZE_def)
  next
    case False
    then show ?thesis using c mem3 by (auto simp: SCRATCH_SIZE_def)
  qed
  show "ps1_cell (a + of_nat i) = Some (c + i)" if i: "i < 4"
  proof (cases "p < 0x800000")
    case True
    have "c < RAM_SIZE" using c True by (simp add: RAM_SIZE_def)
    moreover have "RAM_SIZE = 4 * 524288" by (simp add: RAM_SIZE_def)
    ultimately have "c + i < RAM_SIZE" using c4 i by presburger
    moreover have "(p + i) mod RAM_SIZE = (c + i) mod RAM_SIZE" using c True by (simp add: mod_simps)
    ultimately have "(p + i) mod RAM_SIZE = c + i" by simp
    then show ?thesis using True mem3 seg s [OF i] u [OF i] i by (auto simp: ps1_cell_arith Let_def)
  next
    case False
    then show ?thesis using c mem3 seg s [OF i] u [OF i] i by (auto simp: ps1_cell_arith Let_def)
  qed
qed

lemma aligned_cells_disjoint:
  assumes "a AND 3 = 0" "k AND 3 = 0" "ps1_cell a = Some c" "ps1_cell k = Some d" "c \<noteq> d"
    and "i < 4" "j < 4"
  shows "ps1_cell (a + of_nat i) \<noteq> ps1_cell (k + of_nat j)"
  using aligned_word(2,3) [OF assms(1,3)] aligned_word(2,3) [OF assms(2,4)] assms(5-7)
  by (metis (no_types, lifting) option.inject add.commute mod_add_right_eq mod_add_self2 mod_less add_right_cancel add_0_right mod_mult_self2 mod_add_left_eq)

lemma write_u32_cells:
  assumes m: "ps1_ok m" and v: "validated 4 a region" and backed: "ps1_cell a \<noteq> None"
  shows "\<exists>m'. Ps1Memory_write_u32 m a v = (Inr (), m') \<and> ps1_ok m' \<and>
    mem_open_bus m' = mem_open_bus m \<and>
    (\<forall>i < 4. \<exists>c. ps1_cell (a + of_nat i) = Some c \<and> ps1_byte m' c = byte_of i v) \<and>
    (\<forall>c. c < RAM_SIZE + SCRATCH_SIZE \<longrightarrow> (\<forall>i < 4. ps1_cell (a + of_nat i) \<noteq> Some c) \<longrightarrow>
       ps1_byte m' c = ps1_byte m c)"
proof -
  let ?vs = "[byte_of 0 v, byte_of 1 v, byte_of 2 v, byte_of 3 v]"
  have cl: "Ps1Memory_classify a = Inr region" using v by (simp add: validated_def)
  have nth: "i < 4 \<Longrightarrow> ?vs ! i = byte_of i v" for i
    by (auto simp: numeral_eq_Suc less_Suc_eq)
  have len: "length ?vs = 4" by simp
  obtain m' where "Ps1Memory_write_decoded_bytes m a region ?vs = (Inr (), m')" "ps1_ok m'"
    "mem_open_bus m' = mem_open_bus m"
    and "\<forall>i < 4. \<exists>c. ps1_cell (a + of_nat i) = Some c \<and> ps1_byte m' c = ?vs ! i"
    and "\<forall>c. c < RAM_SIZE + SCRATCH_SIZE \<longrightarrow> (\<forall>i < 4. ps1_cell (a + of_nat i) \<noteq> Some c) \<longrightarrow>
       ps1_byte m' c = ps1_byte m c"
    using write_bytes [OF m, of ?vs a region] v backed unfolding len by auto
  then show ?thesis using nth by (simp add: Ps1Memory_write_u32_def cl)
qed

lemma word_of_cells:
  assumes "\<forall>i < 4. \<exists>c. ps1_cell (a + of_nat i) = Some c \<and> ps1_byte m c = byte_of i v"
  shows "ps1_word m a = v"
proof -
  have "ps1_byte m (the (ps1_cell (a + of_nat i))) = byte_of i v" if "i < 4" for i
    using assms that by force
  from this [of 0] this [of 1] this [of 2] this [of 3] show ?thesis
    by (simp add: ps1_word_def Let_def u32_le_roundtrip [simplified])
qed

lemma cell_bound: "ps1_cell x = Some c \<Longrightarrow> c < RAM_SIZE + SCRATCH_SIZE"
  by (auto simp: ps1_cell_arith Let_def RAM_SIZE_def SCRATCH_SIZE_def split: if_splits)

section \<open>The CPU bus of the memory\<close>

text \<open>
  The part of the machine's bus that reaches memory: the accesses go to \<open>Ps1Memory\<close> with its
  errors as bus faults (their text is the parameter \<open>message\<close>), and the interrupt line is the
  interrupt controller's.
\<close>

definition memory_fault :: "(MemoryError \<Rightarrow> string) \<Rightarrow> MemoryError + 'v \<Rightarrow> BusFault + 'v" where
  "memory_fault message = map_err (\<lambda>e. BusFault (message e))"

definition ps1_bus :: "(MemoryError \<Rightarrow> string) \<Rightarrow> (Ps1Memory \<times> Irq1Controller) Bus" where
  "ps1_bus message =
     (let written = (\<lambda>irq r. (memory_fault message (fst r), (snd r, irq)))
      in \<lparr>Bus_read_u8 = (\<lambda>b a. (memory_fault message (Ps1Memory_read_u8 (fst b) a), b)),
          Bus_read_u16 = (\<lambda>b a. (memory_fault message (Ps1Memory_read_u16 (fst b) a), b)),
          Bus_read_u32 = (\<lambda>b a. (memory_fault message (Ps1Memory_read_u32 (fst b) a), b)),
          Bus_write_u8 = (\<lambda>b a v. written (snd b) (Ps1Memory_write_u8 (fst b) a v)),
          Bus_write_u16 = (\<lambda>b a v. written (snd b) (Ps1Memory_write_u16 (fst b) a v)),
          Bus_write_u32 = (\<lambda>b a v. written (snd b) (Ps1Memory_write_u32 (fst b) a v)),
          Bus_interrupt_pending = (\<lambda>b. Irq1_pending (snd b))\<rparr>)"

interpretation ps1_words: word_bus "ps1_bus message" "\<lambda>b. ps1_ok (fst b)" "\<lambda>a. ps1_cell a \<noteq> None"
    "\<lambda>a. the (ps1_cell a)" "\<lambda>b. ps1_word (fst b)"
  for message
proof unfold_locales
  fix b :: "Ps1Memory \<times> Irq1Controller" and a
  assume b: "ps1_ok (fst b)" and a: "ps1_cell a \<noteq> None" "a AND 3 = 0"
  then obtain region where v: "validated 4 a region" using aligned_word(1) by blast
  show "Bus_read_u32 (ps1_bus message) b a = (Inr (ps1_word (fst b) a), b)"
    using read_u32_word [OF v a(1), of "fst b"] v
    by (simp add: ps1_bus_def Let_def Ps1Memory_read_u32_def validated_def and_then_def memory_fault_def map_err_def)
  fix w
  obtain m' where m': "Ps1Memory_write_u32 (fst b) a w = (Inr (), m')" "ps1_ok m'"
    and hit: "\<forall>i < 4. \<exists>c. ps1_cell (a + of_nat i) = Some c \<and> ps1_byte m' c = byte_of i w"
    and miss: "\<And>c. c < RAM_SIZE + SCRATCH_SIZE \<Longrightarrow> \<forall>i < 4. ps1_cell (a + of_nat i) \<noteq> Some c \<Longrightarrow>
       ps1_byte m' c = ps1_byte (fst b) c"
    using write_u32_cells [OF b v a(1)] by blast
  have "ps1_word m' k = (if the (ps1_cell k) = the (ps1_cell a) then w else ps1_word (fst b) k)"
    if k: "ps1_cell k \<noteq> None" "k AND 3 = 0" for k
  proof (cases "the (ps1_cell k) = the (ps1_cell a)")
    case True
    then obtain c where c: "ps1_cell k = Some c" "ps1_cell a = Some c" using k a by auto
    have "ps1_cell (k + of_nat i) = ps1_cell (a + of_nat i)" if "i < 4" for i
      using aligned_word(2) [OF k(2) c(1) that] aligned_word(2) [OF a(2) c(2) that] by simp
    then have "\<forall>i < 4. \<exists>c. ps1_cell (k + of_nat i) = Some c \<and> ps1_byte m' c = byte_of i w"
      using hit by simp
    then show ?thesis using True by (simp add: word_of_cells)
  next
    case False
    then obtain c d where c: "ps1_cell k = Some c" "ps1_cell a = Some d" "c \<noteq> d" using k a by auto
    have "ps1_byte m' (the (ps1_cell (k + of_nat i))) = ps1_byte (fst b) (the (ps1_cell (k + of_nat i)))"
      if i: "i < 4" for i
    proof (rule miss)
      have e: "ps1_cell (k + of_nat i) = Some (c + i)" using aligned_word(2) [OF k(2) c(1) i] .
      then show "the (ps1_cell (k + of_nat i)) < RAM_SIZE + SCRATCH_SIZE" using cell_bound by simp
      show "\<forall>j < 4. ps1_cell (a + of_nat j) \<noteq> Some (the (ps1_cell (k + of_nat i)))"
        using aligned_cells_disjoint [OF k(2) a(2) c i] e by (metis option.sel)
    qed
    from this [of 0] this [of 1] this [of 2] this [of 3]
    show ?thesis using False by (simp add: ps1_word_def Let_def)
  qed
  then show "\<exists>b'. Bus_write_u32 (ps1_bus message) b a w = (Inr (), b') \<and> ps1_ok (fst b') \<and>
      (\<forall>k. ps1_cell k \<noteq> None \<longrightarrow> k AND 3 = 0 \<longrightarrow> ps1_word (fst b') k =
        (if the (ps1_cell k) = the (ps1_cell a) then w else ps1_word (fst b) k))"
    using m' by (simp add: ps1_bus_def Let_def memory_fault_def map_err_def)
next
  fix a
  assume a: "ps1_cell a \<noteq> None" "ps1_cell (a + 4) \<noteq> None" "a AND 3 = 0"
  define p q where "p = unat a mod 2 ^ 29" and "q = unat (a + 4) mod 2 ^ 29"
  have "unat (a + 4) = (unat a + 4) mod 2 ^ 32" by (simp add: unat_word_ariths)
  then have "q = (p + 4) mod 2 ^ 29" by (simp add: q_def p_def mod_mod_cancel mod_simps)
  moreover have "p < 2 ^ 29" by (simp add: p_def)
  moreover have pc: "p < 0x800000 \<and> ps1_cell a = Some (p mod RAM_SIZE) \<or> 
     0x1f800000 \<le> p \<and> p < 0x1f800400 \<and> ps1_cell a = Some (RAM_SIZE + (p - 0x1f800000))"
    using a(1) by (auto simp: ps1_cell_arith Let_def p_def split: if_splits)
  ultimately have q: "q = p + 4" by auto
  have qc: "q < 0x800000 \<and> ps1_cell (a + 4) = Some (q mod RAM_SIZE) \<or> 
     0x1f800000 \<le> q \<and> q < 0x1f800400 \<and> ps1_cell (a + 4) = Some (RAM_SIZE + (q - 0x1f800000))"
    using a(2) by (auto simp: ps1_cell_arith Let_def q_def split: if_splits)
  have "(p + 4) mod RAM_SIZE \<noteq> p mod RAM_SIZE"
  proof
    assume "(p + 4) mod RAM_SIZE = p mod RAM_SIZE"
    then have "RAM_SIZE dvd p + 4 - p" by (metis mod_eq_dvd_iff_nat le_add1)
    then show False by (auto dest!: dvd_imp_le simp: RAM_SIZE_def)
  qed
  moreover have "p mod RAM_SIZE < RAM_SIZE" "q mod RAM_SIZE < RAM_SIZE" by (simp_all add: RAM_SIZE_def)
  ultimately show "the (ps1_cell (a + 4)) \<noteq> the (ps1_cell a)" using pc qc q by auto
qed

section \<open>Properties\<close>

text \<open>
  A word stored in RAM or scratchpad is stored byte by byte: afterwards every address that
  names one of the four cells, through any segment or RAM mirror, reads the stored byte, the word
  reads back, and every other address reads what it read before. A backed word that stays in its
  region is never refused.
\<close>
lemma ps1_store_word_bytes:
  assumes m: "ps1_ok m" and v: "validated 4 a region" and backed: "ps1_cell a \<noteq> None"
  shows "\<exists>m'. Ps1Memory_write_u32 m a w = (Inr (), m') \<and> ps1_ok m' \<and>
    Ps1Memory_read_u32 m' a = Inr w \<and>
    (\<forall>i < 4. \<forall>x. ps1_cell x = ps1_cell (a + of_nat i) \<longrightarrow> Ps1Memory_read_u8 m' x = Inr (byte_of i w)) \<and>
    (\<forall>x. (\<forall>i < 4. ps1_cell x \<noteq> ps1_cell (a + of_nat i)) \<longrightarrow>
       Ps1Memory_read_u8 m' x = Ps1Memory_read_u8 m x)"
proof -
  obtain m' where m': "Ps1Memory_write_u32 m a w = (Inr (), m')" "ps1_ok m'"
      "mem_open_bus m' = mem_open_bus m"
    and hit: "\<forall>i < 4. \<exists>c. ps1_cell (a + of_nat i) = Some c \<and> ps1_byte m' c = byte_of i w"
    and miss: "\<And>c. c < RAM_SIZE + SCRATCH_SIZE \<Longrightarrow> \<forall>i < 4. ps1_cell (a + of_nat i) \<noteq> Some c \<Longrightarrow>
       ps1_byte m' c = ps1_byte m c"
    using write_u32_cells [OF m v backed] by blast
  have "Ps1Memory_read_u32 m' a = Inr w"
    using read_u32_word [OF v backed, of m'] word_of_cells [OF hit] v
    by (simp add: Ps1Memory_read_u32_def validated_def and_then_def)
  moreover have "Ps1Memory_read_u8 m' x = Inr (byte_of i w)"
    if "i < 4" "ps1_cell x = ps1_cell (a + of_nat i)" for i x
    using hit that read_u8_cell by fastforce
  moreover have "Ps1Memory_read_u8 m' x = Ps1Memory_read_u8 m x"
    if other: "\<forall>i < 4. ps1_cell x \<noteq> ps1_cell (a + of_nat i)" for x
  proof (cases "ps1_cell x")
    case None
    then show ?thesis using m'(3)
      by (auto simp: ps1_cell_def Ps1Memory_read_u8_def and_then_def split: sum.splits MemoryRegion.splits)
  next
    case (Some c)
    then have "ps1_byte m' c = ps1_byte m c"
      using miss [OF cell_bound [OF Some]] other by metis
    then show ?thesis using Some by (simp add: read_u8_cell)
  qed
  ultimately show ?thesis using m' by blast
qed

lemma ps1_new_ok: "ps1_ok (Ps1Memory_new policy)"
  by (simp add: ps1_ok_def Ps1Memory_new_def MEMORY_CONTROL_RESET_def)

text \<open>The last RAM word, through the uncached segment, and the same word through a mirror.\<close>

lemma ps1_store_word_bytes_witness:
  "\<exists>m'. Ps1Memory_write_u32 (Ps1Memory_new OpenBusPolicy_Strict) 0xa01ffffc 0x11223344 = (Inr (), m') \<and>
     Ps1Memory_read_u8 m' 0x803fffff = Inr 0x11"
proof -
  have v: "validated 4 0xa01ffffc (MemoryRegion_Ram 0x1ffffc)"
    by (simp add: validated_def Ps1Memory_validate_decoded_access_def classify_unat Let_def
        and_then_def ok_or_def checked_add_def RAM_SIZE_def)
  have "ps1_cell 0xa01ffffc \<noteq> None" by (simp add: ps1_cell_arith Let_def)
  from ps1_store_word_bytes [where w = "0x11223344", OF ps1_new_ok [of OpenBusPolicy_Strict] v this]
  obtain m' where m': "Ps1Memory_write_u32 (Ps1Memory_new OpenBusPolicy_Strict) 0xa01ffffc 0x11223344 = (Inr (), m')"
    and byte: "\<forall>i < 4. \<forall>x. ps1_cell x = ps1_cell (0xa01ffffc + of_nat i) \<longrightarrow>
      Ps1Memory_read_u8 m' x = Inr (byte_of i (0x11223344 :: u32))"
    by (elim exE conjE) (rule that, assumption+)
  have "ps1_cell 0x803fffff = ps1_cell (0xa01ffffc + of_nat 3)"
    by (simp add: ps1_cell_arith Let_def RAM_SIZE_def)
  moreover have "byte_of 3 (0x11223344 :: u32) = 0x11" by (simp add: byte_of_def drop_bit_eq_div)
  ultimately show ?thesis using m' byte [rule_format, of 3 "0x803fffff"] by simp
qed

text \<open>
  C18. On the console's memory the instruction pair \<open>swl\<close>/\<open>swr\<close> stores a word at any address whose
  two containing words are backed, the pair \<open>lwl\<close>/\<open>lwr\<close> (the second reading the first in its
  load-delay slot) loads it back, and no other word of memory changes.
\<close>
theorem ps1_unaligned_roundtrip:
  assumes "ps1_ok (fst b)" and "ps1_cell (a AND NOT 3) \<noteq> None"
    and "ps1_cell ((a + 3) AND NOT 3) \<noteq> None"
  shows "\<exists>e b'. unaligned_store (ps1_bus message) pc v a c b = (Inr e, b') \<and> x_exception e = None \<and>
    unaligned_load (ps1_bus message) pc' rt a c' b' = (Inr (Execution_load rt v Execution_default), b') \<and>
    (\<forall>k. ps1_cell k \<noteq> None \<longrightarrow> k AND 3 = 0 \<longrightarrow>
       the (ps1_cell k) \<notin> {the (ps1_cell (a AND NOT 3)), the (ps1_cell ((a + 3) AND NOT 3))} \<longrightarrow>
       ps1_word (fst b') k = ps1_word (fst b) k)"
  using ps1_words.unaligned_roundtrip [where message = message, OF assms] by metis

theorem ps1_unaligned_roundtrip_witness:
  "\<exists>e b'. unaligned_store (ps1_bus (\<lambda>_. ''fault'')) 0 0xdeadbeef 0x80000006 (Cpu_new ResetProfile_default)
      (Ps1Memory_new OpenBusPolicy_Strict, Irq1_new) = (Inr e, b') \<and> x_exception e = None"
proof -
  have "ps1_cell (0x80000006 AND NOT 3) \<noteq> None" "ps1_cell ((0x80000006 + 3) AND NOT 3) \<noteq> None"
    by (simp_all add: ps1_cell_arith Let_def)
  from ps1_unaligned_roundtrip [OF _ this,
      of "(Ps1Memory_new OpenBusPolicy_Strict, Irq1_new)" "\<lambda>_. ''fault''"] show ?thesis
    using ps1_new_ok by fastforce
qed

end
