(* ===== verification/Ps1_Dma.thy ===== *)
theory Ps1_Dma
  imports Ps1_Memory Scheduler Result_State "HOL-Library.Code_Target_Numeral"
begin

text \<open>
  The PS1 DMA controller, \<open>crates/hw/ps1/dma/src/lib.rs\<close>: its registers, the sound channel whose
  completion is an event of the scheduler, the MDEC input channel serviced at once, and the
  aggregate interrupt. The device endpoints and the interrupt sink are traits in the code:
  their methods are the arguments \<open>wr\<close>, \<open>rd\<close> and \<open>req\<close>, with their own states threaded.
\<close>

section \<open>Registers\<close>

definition DMA_CHANNEL_START :: u32 where "DMA_CHANNEL_START = 0x1F801080"
definition D4_MADR :: u32 where "D4_MADR = 0x1F8010C0"
definition D4_BCR :: u32 where "D4_BCR = 0x1F8010C4"
definition D4_CHCR :: u32 where "D4_CHCR = 0x1F8010C8"
definition DMA1_DPCR :: u32 where "DMA1_DPCR = 0x1F8010F0"
definition DMA1_DICR :: u32 where "DMA1_DICR = 0x1F8010F4"
definition CHANNEL4_EVENT :: EventId where "CHANNEL4_EVENT = 0x00040004"
definition DPCR_RESET :: u32 where "DPCR_RESET = 0x07654321"
definition CHANNEL0_ENABLE :: u32 where "CHANNEL0_ENABLE = push_bit 3 1"
definition CHANNEL4_ENABLE :: u32 where "CHANNEL4_ENABLE = push_bit 19 1"
definition CHCR_DIRECTION_FROM_RAM :: u32 where "CHCR_DIRECTION_FROM_RAM = push_bit 0 1"
definition CHCR_DECREMENT :: u32 where "CHCR_DECREMENT = push_bit 1 1"
definition CHCR_SYNC_MASK :: u32 where "CHCR_SYNC_MASK = push_bit 9 3"
definition CHCR_START :: u32 where "CHCR_START = push_bit 24 1"
definition CHCR_TRIGGER :: u32 where "CHCR_TRIGGER = push_bit 28 1"
definition CHCR_WRITABLE :: u32 where
  "CHCR_WRITABLE = CHCR_DIRECTION_FROM_RAM OR CHCR_DECREMENT OR CHCR_SYNC_MASK OR CHCR_START OR CHCR_TRIGGER"
definition DICR_FORCE :: u32 where "DICR_FORCE = push_bit 15 1"
definition DICR_CHANNEL_MASKS :: u32 where "DICR_CHANNEL_MASKS = 0x007F0000"
definition DICR_MASTER_ENABLE :: u32 where "DICR_MASTER_ENABLE = push_bit 23 1"
definition DICR_CHANNEL_FLAGS :: u32 where "DICR_CHANNEL_FLAGS = 0x7F000000"
definition DICR_MASTER_FLAG :: u32 where "DICR_MASTER_FLAG = push_bit 31 1"
definition DICR_WRITABLE_CONTROL :: u32 where "DICR_WRITABLE_CONTROL = 0x00FF803F"
definition DICR_CHANNEL4_FLAG :: u32 where "DICR_CHANNEL4_FLAG = push_bit 28 1"
definition DICR_CHANNEL0_FLAG :: u32 where "DICR_CHANNEL0_FLAG = push_bit 24 1"
definition RAM_ADDRESS_MASK :: u32 where "RAM_ADDRESS_MASK = 0x00FFFFFC"
definition CYCLES_PER_WORD :: u64 where "CYCLES_PER_WORD = 4"
definition MAX_RAM_WORDS :: u64 where "MAX_RAM_WORDS = (2 * 1024 * 1024) div 4"
definition CHANNEL_COUNT :: usize where "CHANNEL_COUNT = 7"
definition CHANNEL_STRIDE :: u32 where "CHANNEL_STRIDE = 0x10"
definition CHANNEL_REGISTER_COUNT :: usize where "CHANNEL_REGISTER_COUNT = 3"
definition CHANNEL4 :: usize where "CHANNEL4 = 4"
definition CHANNEL0 :: usize where "CHANNEL0 = 0"

datatype Dma1Error =
    Dma1Error_InvalidRegister u32
  | Dma1Error_UnsupportedSync nat
  | Dma1Error_TransferTooLarge u64
  | Dma1Error_RamRange u32 u64 bool
  | Dma1Error_StaleEvent
  | Dma1Error_Endpoint string
  | Dma1Error_MdecDirection
  | Dma1Error_UnsupportedMdecSync nat
  | Dma1Error_Scheduler
  | Dma1Error_ClockOverflow

record PendingTransfer =
  pt_deadline :: Deadline
  pt_words :: u64

record Dma1 =
  d1_madr :: u32
  d1_bcr :: u32
  d1_chcr :: u32
  d1_channels :: "u32 list list"
  d1_dpcr :: u32
  d1_dicr_control :: u32
  d1_dicr_flags :: u32
  d1_pending :: "PendingTransfer option"

definition Dma1_new :: Dma1 where
  "Dma1_new = \<lparr>d1_madr = 0, d1_bcr = 0, d1_chcr = 0,
     d1_channels = replicate CHANNEL_COUNT (replicate CHANNEL_REGISTER_COUNT 0),
     d1_dpcr = DPCR_RESET, d1_dicr_control = 0, d1_dicr_flags = 0, d1_pending = None\<rparr>"

definition Dma1_completion_deadline :: "Dma1 \<Rightarrow> Deadline option" where
  "Dma1_completion_deadline self = map_option pt_deadline (d1_pending self)"

definition channel_register :: "u32 \<Rightarrow> (usize \<times> usize) option" where
  "channel_register address =
     (case checked_sub address DMA_CHANNEL_START of
        None \<Rightarrow> None
      | Some offset \<Rightarrow>
          let channel = unat (offset div CHANNEL_STRIDE) in
          if CHANNEL_COUNT \<le> channel then None
          else
            let register = unat ((offset mod CHANNEL_STRIDE) div 4) in
            if offset mod 4 \<noteq> 0 \<or> CHANNEL_REGISTER_COUNT \<le> register then None
            else Some (channel, register))"

section \<open>The aggregate interrupt\<close>

definition Dma1_master_irq :: "Dma1 \<Rightarrow> bool" where
  "Dma1_master_irq self \<longleftrightarrow>
     d1_dicr_control self AND DICR_FORCE \<noteq> 0
     \<or> d1_dicr_control self AND DICR_MASTER_ENABLE \<noteq> 0
       \<and> push_bit 8 (d1_dicr_control self AND DICR_CHANNEL_MASKS) AND d1_dicr_flags self \<noteq> 0"

definition Dma1_dicr :: "Dma1 \<Rightarrow> u32" where
  "Dma1_dicr self = d1_dicr_control self OR d1_dicr_flags self
     OR (if Dma1_master_irq self then DICR_MASTER_FLAG else 0)"

definition Dma1_write_dicr ::
    "('s \<Rightarrow> Irq1Source \<Rightarrow> 's) \<Rightarrow> u32 \<Rightarrow> Dma1 \<times> 's \<Rightarrow> Dma1 \<times> 's" where
  "Dma1_write_dicr req v = (\<lambda>(self, sink).
     let was_asserted = Dma1_master_irq self;
         self = self\<lparr>d1_dicr_control := v AND DICR_WRITABLE_CONTROL,
           d1_dicr_flags := d1_dicr_flags self AND NOT (v AND DICR_CHANNEL_FLAGS)\<rparr> in
     (self, if \<not> was_asserted \<and> Dma1_master_irq self then req sink Irq1_Dma else sink))"

definition Dma1_finish ::
    "('s \<Rightarrow> Irq1Source \<Rightarrow> 's) \<Rightarrow> u32 \<Rightarrow> Dma1 \<times> 's \<Rightarrow> Dma1 \<times> 's" where
  "Dma1_finish req flag = (\<lambda>(self, sink).
     let was_asserted = Dma1_master_irq self;
         self = self\<lparr>d1_dicr_flags := d1_dicr_flags self OR flag\<rparr> in
     (self, if \<not> was_asserted \<and> Dma1_master_irq self then req sink Irq1_Dma else sink))"

section \<open>Transfer shapes\<close>

definition sync_mode :: "u32 \<Rightarrow> nat" where
  "sync_mode chcr = unat (drop_bit 9 (chcr AND CHCR_SYNC_MASK))"

definition transfer_words :: "u32 \<Rightarrow> nat \<Rightarrow> Dma1Error + u64" where
  "transfer_words bcr sync =
     (let low = unat (bcr AND 0xFFFF); low = (if low = 0 then 0x10000 else low) in
      and_then
        (if sync = 0 then Inr low
         else let high = unat (drop_bit 16 bcr); high = (if high = 0 then 0x10000 else high) in
           ok_or (checked_mul_n 64 low high) (Dma1Error_TransferTooLarge (2 ^ 64 - 1)))
        (\<lambda>words. if MAX_RAM_WORDS < words then Inl (Dma1Error_TransferTooLarge words) else Inr words))"

definition transfer_address :: "u32 \<Rightarrow> u64 \<Rightarrow> bool \<Rightarrow> Dma1Error + u32" where
  "transfer_address base index decrement =
     and_then (ok_or (checked_mul_n 64 index 4) Dma1Error_ClockOverflow) (\<lambda>offset.
     and_then (ok_or (try_from_n 32 offset) Dma1Error_ClockOverflow) (\<lambda>offset.
       ok_or ((if decrement then checked_sub else checked_add) base (word_of_nat offset))
         (Dma1Error_RamRange base (index + 1) decrement)))"

definition validate_ram_range :: "u32 \<Rightarrow> u64 \<Rightarrow> bool \<Rightarrow> usize \<Rightarrow> Dma1Error + unit" where
  "validate_ram_range base words decrement ram_len =
     and_then (transfer_address base (words - 1) decrement) (\<lambda>last_address.
     and_then (ok_or (try_from_n 64 (unat base)) (Dma1Error_RamRange base words decrement)) (\<lambda>first.
     and_then (ok_or (try_from_n 64 (unat last_address)) (Dma1Error_RamRange base words decrement)) (\<lambda>final.
       if (case checked_add_n 64 first 4 of None \<Rightarrow> True | Some stop \<Rightarrow> ram_len < stop)
          \<or> (case checked_add_n 64 final 4 of None \<Rightarrow> True | Some stop \<Rightarrow> ram_len < stop)
       then Inl (Dma1Error_RamRange base words decrement) else Inr ())))"

definition read_ram_word :: "u8 list \<Rightarrow> usize \<Rightarrow> u32" where
  "read_ram_word ram offset =
     u32_from_le_bytes (ram ! offset) (ram ! (offset + 1)) (ram ! (offset + 2)) (ram ! (offset + 3))"

definition write_ram_word :: "u8 list \<Rightarrow> usize \<Rightarrow> u32 \<Rightarrow> u8 list" where
  "write_ram_word ram offset v =
     take offset ram @ [byte_of 0 v, byte_of 1 v, byte_of 2 v, byte_of 3 v] @ drop (offset + 4) ram"

text \<open>The register writes when a transfer has ended.\<close>

definition end_address :: "u32 \<Rightarrow> u64 \<Rightarrow> bool \<Rightarrow> Dma1Error + u32" where
  "end_address madr words decrement =
     and_then (ok_or (checked_mul_n 64 words 4) Dma1Error_ClockOverflow) (\<lambda>byte_count.
     and_then (ok_or (try_from_n 32 byte_count) Dma1Error_ClockOverflow) (\<lambda>byte_count.
       Inr ((if decrement then madr - word_of_nat byte_count else madr + word_of_nat byte_count)
         AND RAM_ADDRESS_MASK)))"

section \<open>The controller\<close>

definition Dma1_read :: "Dma1 \<Rightarrow> u32 \<Rightarrow> Dma1Error + u32" where
  "Dma1_read self address =
     (case channel_register address of
        Some (channel, register) \<Rightarrow>
          Inr (if channel = CHANNEL4 then [d1_madr self, d1_bcr self, d1_chcr self] ! register
               else d1_channels self ! channel ! register)
      | None \<Rightarrow>
          if address = DMA1_DPCR then Inr (d1_dpcr self)
          else if address = DMA1_DICR then Inr (Dma1_dicr self)
          else Inl (Dma1Error_InvalidRegister address))"

definition Dma1_reschedule :: "Deadline \<Rightarrow> (Dma1 \<times> Scheduler, Dma1Error, unit) rs" where
  "Dma1_reschedule now = (\<lambda>(self, scheduler).
     let scheduler = snd (Scheduler_cancel scheduler CHANNEL4_EVENT);
         self = self\<lparr>d1_pending := None\<rparr>;
         stop = (\<lambda>r. (r, (self, scheduler))) in
     if d1_dpcr self AND CHANNEL4_ENABLE = 0 \<or> d1_chcr self AND CHCR_START = 0 then stop (Inr ())
     else
       let sync = sync_mode (d1_chcr self) in
       if sync \<noteq> 0 \<and> sync \<noteq> 1 then stop (Inl (Dma1Error_UnsupportedSync sync))
       else if \<not> (if sync = 0 then d1_chcr self AND CHCR_TRIGGER \<noteq> 0 else True) then stop (Inr ())
       else
         case and_then (transfer_words (d1_bcr self) sync) (\<lambda>words.
             and_then (ok_or (checked_mul_n 64 words CYCLES_PER_WORD) Dma1Error_ClockOverflow) (\<lambda>cycles.
             and_then (map_err (\<lambda>_. Dma1Error_ClockOverflow) (Deadline_checked_advance now cycles)) (\<lambda>deadline.
               Inr (words, deadline)))) of
           Inl e \<Rightarrow> stop (Inl e)
         | Inr (words, deadline) \<Rightarrow>
             (case Scheduler_schedule scheduler CHANNEL4_EVENT deadline of
                (Inl _, scheduler) \<Rightarrow> (Inl Dma1Error_Scheduler, (self, scheduler))
              | (Inr _, scheduler) \<Rightarrow>
                  (Inr (), (self\<lparr>d1_pending := Some \<lparr>pt_deadline = deadline, pt_words = words\<rparr>\<rparr>, scheduler))))"

definition set_channel :: "usize \<Rightarrow> usize \<Rightarrow> u32 \<Rightarrow> Dma1 \<Rightarrow> Dma1" where
  "set_channel channel register v self =
     self\<lparr>d1_channels := (d1_channels self)[channel := (d1_channels self ! channel)[register := v]]\<rparr>"

definition with_scheduler ::
    "(Dma1 \<times> Scheduler, Dma1Error, unit) rs \<Rightarrow> (Dma1 \<times> Scheduler \<times> 's, Dma1Error, unit) rs" where
  "with_scheduler m = (\<lambda>(self, scheduler, sink).
     let (r, self, scheduler) = m (self, scheduler) in (r, (self, scheduler, sink)))"

definition Dma1_write ::
    "('s \<Rightarrow> Irq1Source \<Rightarrow> 's) \<Rightarrow> u32 \<Rightarrow> u32 \<Rightarrow> Deadline \<Rightarrow>
       (Dma1 \<times> Scheduler \<times> 's, Dma1Error, unit) rs" where
  "Dma1_write req address v now = (\<lambda>(self, scheduler, sink).
     case channel_register address of
       Some (channel, register) \<Rightarrow>
         if channel = CHANNEL4 then
           if register = 0 then (Inr (), (self\<lparr>d1_madr := v AND RAM_ADDRESS_MASK\<rparr>, scheduler, sink))
           else if register = 1 then (Inr (), (self\<lparr>d1_bcr := v\<rparr>, scheduler, sink))
           else with_scheduler (Dma1_reschedule now)
             (self\<lparr>d1_chcr := v AND CHCR_WRITABLE\<rparr>, scheduler, sink)
         else
           (Inr (), (set_channel channel register
             (if register = 0 then v AND RAM_ADDRESS_MASK
              else if register = 1 then v
              else if channel = CHANNEL0 then v AND CHCR_WRITABLE
              else v AND NOT (CHCR_START OR CHCR_TRIGGER)) self, scheduler, sink))
     | None \<Rightarrow>
         if address = DMA1_DPCR then
           with_scheduler (Dma1_reschedule now) (self\<lparr>d1_dpcr := v\<rparr>, scheduler, sink)
         else if address = DMA1_DICR then
           let (self, sink) = Dma1_write_dicr req v (self, sink) in (Inr (), (self, scheduler, sink))
         else (Inl (Dma1Error_InvalidRegister address), (self, scheduler, sink)))"

text \<open>The loops over the words: to the device, and in either direction.\<close>

fun words_out ::
    "(u32 \<Rightarrow> ('e, string, unit) rs) \<Rightarrow> u8 list \<Rightarrow> u32 \<Rightarrow> u64 \<Rightarrow> bool \<Rightarrow> u64 list \<Rightarrow>
       ('e, Dma1Error, unit) rs" where
  "words_out wr ram madr words decrement [] = rs_return ()"
| "words_out wr ram madr words decrement (index # indices) =
     rs_bind (rs_lift (transfer_address madr index decrement)) (\<lambda>address.
     rs_bind (rs_lift (ok_or (try_from_n 64 (unat address)) (Dma1Error_RamRange madr words decrement))) (\<lambda>offset.
     rs_then (rs_map_err Dma1Error_Endpoint (wr (read_ram_word ram offset)))
       (words_out wr ram madr words decrement indices)))"

fun transfer_loop ::
    "(u32 \<Rightarrow> ('e, string, unit) rs) \<Rightarrow> ('e, string, u32) rs \<Rightarrow> u32 \<Rightarrow> u64 \<Rightarrow> bool \<Rightarrow> bool \<Rightarrow> u64 list \<Rightarrow>
       (Ps1Memory \<times> 'e, Dma1Error, unit) rs" where
  "transfer_loop wr rd madr words decrement from_ram [] = rs_return ()"
| "transfer_loop wr rd madr words decrement from_ram (index # indices) =
     rs_bind (rs_lift (transfer_address madr index decrement)) (\<lambda>address.
     rs_bind (rs_lift (ok_or (try_from_n 64 (unat address)) (Dma1Error_RamRange madr words decrement))) (\<lambda>offset.
     rs_then
       (\<lambda>(memory, endpoint).
          if from_ram then
            (case wr (read_ram_word (mem_ram memory) offset) endpoint of
               (r, endpoint) \<Rightarrow> (map_err Dma1Error_Endpoint r, (memory, endpoint)))
          else
            (case rd endpoint of
               (Inl e, endpoint) \<Rightarrow> (Inl (Dma1Error_Endpoint e), (memory, endpoint))
             | (Inr v, endpoint) \<Rightarrow>
                 (Inr (), (memory\<lparr>mem_ram := write_ram_word (mem_ram memory) offset v\<rparr>, endpoint))))
       (transfer_loop wr rd madr words decrement from_ram indices)))"

definition Dma1_service_mdec_in ::
    "(u32 \<Rightarrow> ('e, string, unit) rs) \<Rightarrow> ('s \<Rightarrow> Irq1Source \<Rightarrow> 's) \<Rightarrow> Ps1Memory \<Rightarrow>
       (Dma1 \<times> 'e \<times> 's, Dma1Error, bool) rs" where
  "Dma1_service_mdec_in wr req memory = (\<lambda>(self, endpoint, sink).
     let registers = d1_channels self ! CHANNEL0;
         madr = registers ! 0; bcr = registers ! 1; chcr = registers ! 2;
         stop = (\<lambda>r. (r, (self, endpoint, sink))) in
     if d1_dpcr self AND CHANNEL0_ENABLE = 0 \<or> chcr AND CHCR_START = 0 then stop (Inr False)
     else if chcr AND CHCR_DIRECTION_FROM_RAM = 0 then stop (Inl Dma1Error_MdecDirection)
     else
       let sync = sync_mode chcr in
       if sync \<noteq> 0 \<and> sync \<noteq> 1 then stop (Inl (Dma1Error_UnsupportedMdecSync sync))
       else if \<not> (if sync = 0 then chcr AND CHCR_TRIGGER \<noteq> 0 else True) then stop (Inr False)
       else
         let decrement = chcr AND CHCR_DECREMENT \<noteq> 0 in
         case and_then (transfer_words bcr sync) (\<lambda>words.
             and_then (validate_ram_range madr words decrement (length (mem_ram memory))) (\<lambda>_. Inr words)) of
           Inl e \<Rightarrow> stop (Inl e)
         | Inr words \<Rightarrow>
             (case words_out wr (mem_ram memory) madr words decrement [0..<words] endpoint of
                (Inl e, endpoint) \<Rightarrow> (Inl e, (self, endpoint, sink))
              | (Inr _, endpoint) \<Rightarrow>
                  (case end_address madr words decrement of
                     Inl e \<Rightarrow> (Inl e, (self, endpoint, sink))
                   | Inr after \<Rightarrow>
                       let self = set_channel CHANNEL0 0 after self;
                           self = set_channel CHANNEL0 2 (chcr AND NOT (CHCR_START OR CHCR_TRIGGER)) self;
                           (self, sink) = Dma1_finish req DICR_CHANNEL0_FLAG (self, sink) in
                       (Inr True, (self, endpoint, sink)))))"

definition Dma1_complete ::
    "(u32 \<Rightarrow> ('e, string, unit) rs) \<Rightarrow> ('e, string, u32) rs \<Rightarrow> ('s \<Rightarrow> Irq1Source \<Rightarrow> 's) \<Rightarrow> DueEvent \<Rightarrow>
       (Dma1 \<times> Ps1Memory \<times> 'e \<times> 's, Dma1Error, unit) rs" where
  "Dma1_complete wr rd req event = (\<lambda>(self, memory, endpoint, sink).
     case d1_pending self of
       None \<Rightarrow> (Inl Dma1Error_StaleEvent, (self, memory, endpoint, sink))
     | Some pending \<Rightarrow>
         if due_id event \<noteq> CHANNEL4_EVENT \<or> due_deadline event \<noteq> pt_deadline pending
         then (Inl Dma1Error_StaleEvent, (self, memory, endpoint, sink))
         else
           let self = self\<lparr>d1_pending := None\<rparr>;
               decrement = d1_chcr self AND CHCR_DECREMENT \<noteq> 0;
               from_ram = d1_chcr self AND CHCR_DIRECTION_FROM_RAM \<noteq> 0;
               words = pt_words pending in
           case validate_ram_range (d1_madr self) words decrement (length (mem_ram memory)) of
             Inl e \<Rightarrow> (Inl e, (self, memory, endpoint, sink))
           | Inr _ \<Rightarrow>
               (case transfer_loop wr rd (d1_madr self) words decrement from_ram [0..<words] (memory, endpoint) of
                  (Inl e, memory, endpoint) \<Rightarrow> (Inl e, (self, memory, endpoint, sink))
                | (Inr _, memory, endpoint) \<Rightarrow>
                    (case end_address (d1_madr self) words decrement of
                       Inl e \<Rightarrow> (Inl e, (self, memory, endpoint, sink))
                     | Inr after \<Rightarrow>
                         let self = self\<lparr>d1_madr := after,
                               d1_chcr := d1_chcr self AND NOT (CHCR_START OR CHCR_TRIGGER)\<rparr>;
                             (self, sink) = Dma1_finish req DICR_CHANNEL4_FLAG (self, sink) in
                         (Inr (), (self, memory, endpoint, sink)))))"

section \<open>The aggregate interrupt is edge triggered\<close>

definition log_irq1 :: "Irq1Source list \<Rightarrow> Irq1Source \<Rightarrow> Irq1Source list" where
  "log_irq1 log src = log @ [src]"

definition edge :: "Dma1 \<Rightarrow> Dma1 \<Rightarrow> Irq1Source list" where
  "edge self self' = (if \<not> Dma1_master_irq self \<and> Dma1_master_irq self' then [Irq1_Dma] else [])"

lemma edge_same [simp]:
  "d1_dicr_control self' = d1_dicr_control self \<Longrightarrow> d1_dicr_flags self' = d1_dicr_flags self \<Longrightarrow>
     edge self self' = []"
  unfolding edge_def Dma1_master_irq_def by (simp only: simp_thms if_False)

lemma edge_finish:
  "d1_dicr_control self = d1_dicr_control self0 \<Longrightarrow> d1_dicr_flags self = d1_dicr_flags self0 \<Longrightarrow>
     Dma1_finish log_irq1 flag (self, log) = (self', log') \<Longrightarrow> log' = log @ edge self0 self'"
  by (auto simp: Dma1_finish_def Let_def edge_def log_irq1_def Dma1_master_irq_def)

lemma reschedule_dicr:
  assumes "Dma1_reschedule now (self, s) = (r, self', s')"
  shows "d1_dicr_control self' = d1_dicr_control self" "d1_dicr_flags self' = d1_dicr_flags self"
    "d1_madr self' = d1_madr self"
  using assms
  by (auto simp: Dma1_reschedule_def Let_def split: if_splits sum.splits prod.splits)

lemma reschedule_edge:
  assumes "Dma1_reschedule now (self, s) = (r, self', s')"
    and "d1_dicr_control self = d1_dicr_control self0" "d1_dicr_flags self = d1_dicr_flags self0"
  shows "edge self0 self' = []"
  using reschedule_dicr [OF assms(1)] assms(2,3) by simp

lemma write_edge:
  "Dma1_write log_irq1 address v now (self, s, log) = (r, self', s', log') \<Longrightarrow> log' = log @ edge self self'"
  by (auto simp: Dma1_write_def with_scheduler_def set_channel_def Let_def
      split: option.splits if_splits prod.splits dest!: reschedule_edge [of _ _ _ _ _ _ self])
    (auto simp: Dma1_write_dicr_def Let_def edge_def log_irq1_def)

lemma mdec_edge:
  "Dma1_service_mdec_in wr log_irq1 memory (self, ep, log) = (rb, self', ep', log') \<Longrightarrow>
     log' = log @ edge self self'"
  by (auto simp: Dma1_service_mdec_in_def Let_def set_channel_def
      split: if_splits sum.splits prod.splits dest!: edge_finish [of _ self, rotated 2])

lemma complete_edge:
  "Dma1_complete wr rd log_irq1 event (self, memory, ep, log) = (r, self', memory', ep', log') \<Longrightarrow>
     log' = log @ edge self self'"
  by (auto simp: Dma1_complete_def Let_def
      split: option.splits if_splits sum.splits prod.splits dest!: edge_finish [of _ self, rotated 2])

text \<open>
  C11. The DMA interrupt is requested exactly when the aggregate flag of \<open>DICR\<close> rises: a register
  write, an MDEC service and a sound completion request it once if the flag was low before and is
  high after, and not otherwise, on every path including the failing ones.
\<close>
theorem dma1_interrupt_edges:
  "(case Dma1_write log_irq1 address v now (self, s, log) of
      (_, self', _, log') \<Rightarrow> log' = log @ edge self self')
   \<and> (case Dma1_service_mdec_in wr log_irq1 memory (self, ep, log) of
      (_, self', _, log') \<Rightarrow> log' = log @ edge self self')
   \<and> (case Dma1_complete wr rd log_irq1 event (self, memory, ep, log) of
      (_, self', _, _, log') \<Rightarrow> log' = log @ edge self self')"
  by (auto split: prod.split dest: write_edge mdec_edge complete_edge)

section \<open>The completion event\<close>

text \<open>
  A controller beside the machine's scheduler: register writes and MDEC services of the guest,
  other devices scheduling and cancelling their own events, and the machine delivering due
  events, the sound channel's to \<open>complete\<close>.
\<close>

inductive Dma1_run :: "(u32 \<Rightarrow> ('e, string, unit) rs) \<Rightarrow> ('e, string, u32) rs \<Rightarrow> ('s \<Rightarrow> Irq1Source \<Rightarrow> 's) \<Rightarrow>
    Dma1 \<times> Scheduler \<Rightarrow> bool" for wr rd req where
  dma_start: "Dma1_run wr rd req (Dma1_new, Scheduler_new)"
| dma_write: "Dma1_run wr rd req (self, s) \<Longrightarrow>
    Dma1_write req address v now (self, s, sink) = (r, self', s', sink') \<Longrightarrow> Dma1_run wr rd req (self', s')"
| dma_mdec: "Dma1_run wr rd req (self, s) \<Longrightarrow>
    Dma1_service_mdec_in wr req memory (self, ep, sink) = (rb, self', ep', sink') \<Longrightarrow> Dma1_run wr rd req (self', s)"
| dma_other_schedule: "Dma1_run wr rd req (self, s) \<Longrightarrow> i \<noteq> CHANNEL4_EVENT \<Longrightarrow>
    Dma1_run wr rd req (self, snd (Scheduler_schedule s i d))"
| dma_other_cancel: "Dma1_run wr rd req (self, s) \<Longrightarrow> i \<noteq> CHANNEL4_EVENT \<Longrightarrow>
    Dma1_run wr rd req (self, snd (Scheduler_cancel s i))"
| dma_other_event: "Dma1_run wr rd req (self, s) \<Longrightarrow> Scheduler_pop_due s now = (Some event, s') \<Longrightarrow>
    due_id event \<noteq> CHANNEL4_EVENT \<Longrightarrow> Dma1_run wr rd req (self, s')"
| dma_completion: "Dma1_run wr rd req (self, s) \<Longrightarrow> Scheduler_pop_due s now = (Some event, s') \<Longrightarrow>
    due_id event = CHANNEL4_EVENT \<Longrightarrow>
    Dma1_complete wr rd req event (self, memory, ep, sink) = (r, self', memory', ep', sink') \<Longrightarrow>
    Dma1_run wr rd req (self', s')"

definition dma1_scheduled :: "Scheduler \<Rightarrow> Deadline option" where
  "dma1_scheduled s = map_option fst (map_of (sched_active s) CHANNEL4_EVENT)"

definition dma1_ok :: "Dma1 \<times> Scheduler \<Rightarrow> bool" where
  "dma1_ok = (\<lambda>(self, s). Scheduler_inv s \<and> dma1_scheduled s = Dma1_completion_deadline self
     \<and> d1_madr self AND RAM_ADDRESS_MASK = d1_madr self
     \<and> (\<forall>p. d1_pending self = Some p \<longrightarrow> 0 < pt_words p \<and> pt_words p \<le> MAX_RAM_WORDS))"

lemma sched_entries_active: "(d, n, i) \<in> sched_entries s \<longleftrightarrow> map_of (sched_active s) i = Some (d, n)"
  by (simp add: sched_entries_def)

lemma scheduled_cancelled:
  assumes "Scheduler_inv s"
  shows "Scheduler_inv (snd (Scheduler_cancel s i))"
    and "dma1_scheduled (snd (Scheduler_cancel s i)) = (if i = CHANNEL4_EVENT then None else dma1_scheduled s)"
  using Scheduler_cancel_cases [OF assms, of i] by (cases "Scheduler_cancel s i"; simp add: dma1_scheduled_def)+

lemma scheduled_schedule:
  assumes "Scheduler_inv s"
  shows "Scheduler_schedule s i d = (r, s') \<Longrightarrow> Scheduler_inv s'"
    and "Scheduler_schedule s i d = (Inr (), s') \<Longrightarrow>
      dma1_scheduled s' = (if i = CHANNEL4_EVENT then Some d else dma1_scheduled s)"
proof -
  show "Scheduler_inv s'" if "Scheduler_schedule s i d = (r, s')"
    using Scheduler_schedule_keeps_inv [OF assms, of i d] that by simp
  show "dma1_scheduled s' = (if i = CHANNEL4_EVENT then Some d else dma1_scheduled s)"
    if sch: "Scheduler_schedule s i d = (Inr (), s')"
    using sch by (auto simp: Scheduler_schedule_def Let_def dma1_scheduled_def map_of_update_delete
        split: option.splits)
qed

lemma scheduled_popped:
  assumes inv: "Scheduler_inv s" and pop: "Scheduler_pop_due s now = (Some event, s')"
  shows "Scheduler_inv s'" "due_id event = CHANNEL4_EVENT \<Longrightarrow> dma1_scheduled s = Some (due_deadline event)"
    "due_id event = CHANNEL4_EVENT \<Longrightarrow> dma1_scheduled s' = None"
    "due_id event \<noteq> CHANNEL4_EVENT \<Longrightarrow> dma1_scheduled s' = dma1_scheduled s" "due_deadline event \<le> now"
proof -
  obtain d n i where x: "sched_event (d, n, i) = event" "(d, n, i) \<in> sched_entries s" "d \<le> now"
      "sched_entries s' = sched_entries s - {(d, n, i)}" and s': "Scheduler_inv s'"
    using Scheduler_pop_Some [OF inv pop] by auto
  have event: "due_id event = i" "due_deadline event = d" using x(1) by (auto simp: sched_event_def)
  have here: "map_of (sched_active s) i = Some (d, n)" using x(2) by (simp add: sched_entries_active)
  have "map_of (sched_active s') j = Some (e, m) \<longleftrightarrow>
      map_of (sched_active s) j = Some (e, m) \<and> (e, m, j) \<noteq> (d, n, i)" for j e m
    using x(4) by (simp flip: sched_entries_active)
  then have some: "map_of (sched_active s') j = Some v \<longleftrightarrow> map_of (sched_active s) j = Some v \<and> j \<noteq> i" for j v
    using here by (cases v) auto
  have after: "map_of (sched_active s') j = (if j = i then None else map_of (sched_active s) j)" for j
    using some [of j] by (metis not_None_eq)
  show "Scheduler_inv s'" "due_deadline event \<le> now" using s' x(3) event by auto
  show "due_id event = CHANNEL4_EVENT \<Longrightarrow> dma1_scheduled s = Some (due_deadline event)"
    "due_id event = CHANNEL4_EVENT \<Longrightarrow> dma1_scheduled s' = None"
    "due_id event \<noteq> CHANNEL4_EVENT \<Longrightarrow> dma1_scheduled s' = dma1_scheduled s"
    using here event by (auto simp: dma1_scheduled_def after)
qed

lemma transfer_words_bounds:
  "transfer_words bcr sync = Inr words \<Longrightarrow> 0 < words \<and> words \<le> MAX_RAM_WORDS"
  by (auto simp: transfer_words_def Let_def and_then_def ok_or_def checked_mul_n_def
      split: if_splits sum.splits option.splits)

lemma reschedule_cases:
  assumes "Dma1_reschedule now (self, s) = (r, self', s')"
  shows "self' = self\<lparr>d1_pending := None\<rparr> \<and> s' = snd (Scheduler_cancel s CHANNEL4_EVENT)
    \<or> (\<exists>words deadline. 0 < words \<and> words \<le> MAX_RAM_WORDS
        \<and> Scheduler_schedule (snd (Scheduler_cancel s CHANNEL4_EVENT)) CHANNEL4_EVENT deadline = (Inr (), s')
        \<and> self' = self\<lparr>d1_pending := Some \<lparr>pt_deadline = deadline, pt_words = words\<rparr>\<rparr>)"
  using assms
  by (auto simp: Dma1_reschedule_def Let_def and_then_def map_err_def
      split: if_splits sum.splits prod.splits
      dest: transfer_words_bounds Scheduler_schedule_error)

lemma reschedule_ok:
  assumes ok: "dma1_ok (self0, s)" and run: "Dma1_reschedule now (self, s) = (r, self', s')"
    and madr: "d1_madr self = d1_madr self0"
  shows "dma1_ok (self', s')"
proof -
  have inv: "Scheduler_inv s" using ok by (simp add: dma1_ok_def)
  note c = scheduled_cancelled [OF inv, of CHANNEL4_EVENT]
  have "d1_madr self AND RAM_ADDRESS_MASK = d1_madr self" using ok madr by (simp add: dma1_ok_def)
  then show ?thesis
    using reschedule_cases [OF run] c scheduled_schedule [OF c(1), of CHANNEL4_EVENT]
    by (auto simp: dma1_ok_def Dma1_completion_deadline_def)
qed

lemma write_ok:
  assumes ok: "dma1_ok (self, s)" and run: "Dma1_write req address v now (self, s, sink) = (r, self', s', sink')"
  shows "dma1_ok (self', s')"
  using assms reschedule_ok [OF ok]
  by (auto simp: Dma1_write_def with_scheduler_def set_channel_def Dma1_write_dicr_def Let_def
      split: option.splits if_splits prod.splits)
    (auto simp: dma1_ok_def Dma1_completion_deadline_def and.assoc)

lemma mdec_ok:
  assumes "dma1_ok (self, s)"
    and "Dma1_service_mdec_in wr req memory (self, ep, sink) = (rb, self', ep', sink')"
  shows "dma1_ok (self', s)"
proof -
  have "d1_madr self' = d1_madr self \<and> d1_pending self' = d1_pending self"
    using assms(2)
    by (auto simp: Dma1_service_mdec_in_def Dma1_finish_def Let_def set_channel_def
        split: if_splits sum.splits prod.splits)
  then show ?thesis using assms(1) by (simp add: dma1_ok_def Dma1_completion_deadline_def)
qed

lemma complete_ok:
  assumes run: "Dma1_complete wr rd req event (self, memory, ep, sink) = (r, self', memory', ep', sink')"
    and pending: "d1_pending self = Some p" and event: "due_id event = CHANNEL4_EVENT" "due_deadline event = pt_deadline p"
    and madr: "d1_madr self AND RAM_ADDRESS_MASK = d1_madr self"
  shows "r \<noteq> Inl Dma1Error_StaleEvent" "d1_pending self' = None" "d1_madr self' AND RAM_ADDRESS_MASK = d1_madr self'"
proof -
  show "d1_pending self' = None" "d1_madr self' AND RAM_ADDRESS_MASK = d1_madr self'"
    using assms
    by (auto simp: Dma1_complete_def Dma1_finish_def Let_def end_address_def and_then_def and.assoc
        split: if_splits sum.splits prod.splits option.splits)
  have no: "validate_ram_range b w d l \<noteq> Inl Dma1Error_StaleEvent" "end_address b w d \<noteq> Inl Dma1Error_StaleEvent"
      "transfer_address b w d \<noteq> Inl Dma1Error_StaleEvent" for b w d l
    by (auto simp: validate_ram_range_def transfer_address_def end_address_def and_then_def ok_or_def
        split: sum.splits option.splits if_splits)
  have "fst (transfer_loop wr rd m w d from_ram is st) \<noteq> Inl Dma1Error_StaleEvent" for m w d from_ram "is" st
  proof (induction "is" arbitrary: st)
    case (Cons i js)
    then show ?case using no(3) [of m i d]
      by (auto simp: rs_bind_def rs_then_def rs_lift_def ok_or_def map_err_def
          split: prod.splits sum.splits option.splits)
  qed (simp add: rs_return_def)
  then show "r \<noteq> Inl Dma1Error_StaleEvent"
    using assms no by (auto simp: Dma1_complete_def Let_def split: sum.splits prod.splits if_splits; metis fst_conv)
qed

lemma run_ok: "Dma1_run wr rd req st \<Longrightarrow> dma1_ok st"
proof (induction rule: Dma1_run.induct)
  case dma_start
  then show ?case using Scheduler_new_inv
    by (simp add: dma1_ok_def Dma1_new_def Dma1_completion_deadline_def dma1_scheduled_def Scheduler_new_def)
next
  case (dma_other_schedule self s i d)
  then show ?case
    using scheduled_schedule [of s i d] Scheduler_schedule_error [of s i d]
    by (cases "Scheduler_schedule s i d"; cases "fst (Scheduler_schedule s i d)") (auto simp: dma1_ok_def)
next
  case (dma_other_cancel self s i)
  then show ?case using scheduled_cancelled [of s i] by (auto simp: dma1_ok_def)
next
  case (dma_other_event self s now event s')
  then show ?case using scheduled_popped [of s now event s'] by (auto simp: dma1_ok_def)
next
  case (dma_completion self s now event s' memory ep sink r self' memory' ep' sink')
  then have ok: "Scheduler_inv s" "dma1_scheduled s = Dma1_completion_deadline self"
      "d1_madr self AND RAM_ADDRESS_MASK = d1_madr self"
    by (auto simp: dma1_ok_def)
  note popped = scheduled_popped [OF ok(1) dma_completion.hyps(2)]
  obtain p where p: "d1_pending self = Some p" "due_deadline event = pt_deadline p"
    using popped(2) ok(2) dma_completion.hyps(3) by (auto simp: Dma1_completion_deadline_def)
  show ?case
    using complete_ok [OF dma_completion.hyps(4) p(1) dma_completion.hyps(3) p(2) ok(3)]
      popped dma_completion.hyps(3)
    by (auto simp: dma1_ok_def Dma1_completion_deadline_def)
qed (auto intro: write_ok mdec_ok)

text \<open>
  C10. The sound channel and the scheduler never disagree. However the guest programs the
  registers and whatever other devices schedule, the channel has a pending transfer exactly when
  its event is scheduled, at the same deadline; so when the event comes due, \<open>complete\<close> never
  reports it stale, takes the pending transfer, and the transfer's length is in bounds.
\<close>
theorem dma1_completion_never_stale:
  assumes "Dma1_run wr rd req (self, s)"
  shows "dma1_scheduled s = Dma1_completion_deadline self \<and>
    (case Scheduler_pop_due s now of
       (Some event, _) \<Rightarrow> due_id event = CHANNEL4_EVENT \<longrightarrow>
         (\<exists>p. d1_pending self = Some p \<and> pt_deadline p = due_deadline event \<and> pt_deadline p \<le> now
            \<and> 0 < pt_words p \<and> pt_words p \<le> MAX_RAM_WORDS)
         \<and> (case Dma1_complete wr rd req event (self, memory, ep, sink) of
              (r, self', _) \<Rightarrow> r \<noteq> Inl Dma1Error_StaleEvent \<and> d1_pending self' = None)
     | (None, _) \<Rightarrow> True)"
proof -
  have ok: "dma1_ok (self, s)" using run_ok [OF assms] .
  then have inv: "Scheduler_inv s" and sched: "dma1_scheduled s = Dma1_completion_deadline self"
    and madr: "d1_madr self AND RAM_ADDRESS_MASK = d1_madr self"
    by (simp_all add: dma1_ok_def)
  have "(\<exists>p. d1_pending self = Some p \<and> pt_deadline p = due_deadline event \<and> pt_deadline p \<le> now
          \<and> 0 < pt_words p \<and> pt_words p \<le> MAX_RAM_WORDS)
       \<and> (case Dma1_complete wr rd req event (self, memory, ep, sink) of
            (r, self', _) \<Rightarrow> r \<noteq> Inl Dma1Error_StaleEvent \<and> d1_pending self' = None)"
    if pop: "Scheduler_pop_due s now = (Some event, s')" and event: "due_id event = CHANNEL4_EVENT" for event s'
  proof -
    note popped = scheduled_popped [OF inv pop]
    obtain p where p: "d1_pending self = Some p" "due_deadline event = pt_deadline p"
      using popped(2) event sched by (auto simp: Dma1_completion_deadline_def)
    moreover have "0 < pt_words p \<and> pt_words p \<le> MAX_RAM_WORDS" using ok p(1) by (simp add: dma1_ok_def)
    ultimately show ?thesis
      using complete_ok [OF _ p(1) event p(2) madr, of wr rd req memory ep sink] popped(5)
      by (auto split: prod.split)
  qed
  then show ?thesis using sched by (auto split: prod.split option.split)
qed

text \<open>The guest starts a two-word transfer; its event comes due eight cycles later.\<close>

definition dma1_step :: "u32 \<Rightarrow> u32 \<Rightarrow> Dma1 \<times> Scheduler \<Rightarrow> Dma1 \<times> Scheduler" where
  "dma1_step address v st =
     (case st of (self, s) \<Rightarrow>
        (case Dma1_write log_irq1 address v 0 (self, s, []) of (_, self, s, _) \<Rightarrow> (self, s)))"

definition log_words :: "u32 \<Rightarrow> (u32 list, string, unit) rs" where
  "log_words v log = (Inr (), log @ [v])"

definition take_word :: "(u32 list, string, u32) rs" where
  "take_word queue = (case queue of [] \<Rightarrow> (Inl ''empty'', []) | v # vs \<Rightarrow> (Inr v, vs))"

lemma step_run: "Dma1_run wr rd log_irq1 st \<Longrightarrow> Dma1_run wr rd log_irq1 (dma1_step address v st)"
  by (cases st; cases "Dma1_write log_irq1 address v 0 (fst st, snd st, [])")
    (auto simp: dma1_step_def intro: dma_write)

definition dma1_example :: Dma1 where
  "dma1_example = Dma1_new\<lparr>d1_dpcr := 0x076D4321, d1_bcr := 2, d1_chcr := 0x11000001,
     d1_pending := Some \<lparr>pt_deadline = 8, pt_words = 2\<rparr>\<rparr>"

definition dma1_example_queue :: Scheduler where
  "dma1_example_queue = \<lparr>sched_queue = [(8, 0, CHANNEL4_EVENT)],
     sched_active = [(CHANNEL4_EVENT, (8, 0))], sched_next_sequence = 1\<rparr>"

lemma dma1_example_run: "Dma1_run wr rd log_irq1 (dma1_example, dma1_example_queue)"
proof -
  let ?one = "Dma1_new\<lparr>d1_dpcr := 0x076D4321\<rparr>" and ?two = "Dma1_new\<lparr>d1_dpcr := 0x076D4321, d1_bcr := 2\<rparr>"
  have "dma1_step DMA1_DPCR (DPCR_RESET OR CHANNEL4_ENABLE) (Dma1_new, Scheduler_new) = (?one, Scheduler_new)"
    by code_simp
  then have "Dma1_run wr rd log_irq1 (?one, Scheduler_new)" by (metis dma_start step_run)
  moreover have "dma1_step D4_BCR 2 (?one, Scheduler_new) = (?two, Scheduler_new)" by code_simp
  ultimately have "Dma1_run wr rd log_irq1 (?two, Scheduler_new)" by (metis step_run)
  moreover have "dma1_step D4_CHCR 0x11000001 (?two, Scheduler_new) = (dma1_example, dma1_example_queue)"
    by code_simp
  ultimately show ?thesis by (metis step_run)
qed

lemma dma1_example_due:
  "\<exists>s'. Scheduler_pop_due dma1_example_queue 8 = (Some \<lparr>due_id = CHANNEL4_EVENT, due_deadline = 8\<rparr>, s')"
  by (simp add: Scheduler_pop_due_def dma1_example_queue_def)

lemma dma1_completion_never_stale_witness:
  "dma1_scheduled dma1_example_queue = Some 8
     \<and> fst (Dma1_complete log_words take_word log_irq1 \<lparr>due_id = CHANNEL4_EVENT, due_deadline = 8\<rparr>
         (dma1_example, Ps1Memory_new OpenBusPolicy_Strict, [], [])) \<noteq> Inl Dma1Error_StaleEvent"
proof -
  obtain s' where "Scheduler_pop_due dma1_example_queue 8 = (Some \<lparr>due_id = CHANNEL4_EVENT, due_deadline = 8\<rparr>, s')"
    using dma1_example_due by blast
  then show ?thesis
    using dma1_completion_never_stale [OF dma1_example_run, of 8 log_words take_word "Ps1Memory_new OpenBusPolicy_Strict" "[]" "[]"]
    by (auto simp: Dma1_completion_deadline_def dma1_example_def split: prod.splits)
qed

section \<open>What a transfer moves\<close>

definition dma_addr :: "u32 \<Rightarrow> u64 \<Rightarrow> bool \<Rightarrow> u32" where
  "dma_addr madr index decrement =
     (if decrement then madr - word_of_nat (4 * index) else madr + word_of_nat (4 * index))"

text \<open>The byte offset of a word in RAM, without wrapping.\<close>

definition dma_offset :: "u32 \<Rightarrow> u64 \<Rightarrow> bool \<Rightarrow> nat" where
  "dma_offset madr index decrement =
     (if decrement then unat madr - 4 * index else unat madr + 4 * index)"

definition dma_fits :: "u32 \<Rightarrow> u64 \<Rightarrow> bool \<Rightarrow> bool" where
  "dma_fits madr words decrement \<longleftrightarrow> 0 < words \<and>
     (if decrement then 4 * (words - 1) \<le> unat madr \<and> unat madr + 4 \<le> RAM_SIZE
      else unat madr + 4 * words \<le> RAM_SIZE)"

lemma validated_fits:
  assumes "validate_ram_range madr words decrement RAM_SIZE = Inr ()" "0 < words"
  shows "dma_fits madr words decrement"
proof -
  obtain last_address where last: "transfer_address madr (words - 1) decrement = Inr last_address"
    and bounds: "unat madr + 4 \<le> RAM_SIZE" "unat last_address + 4 \<le> RAM_SIZE"
    using assms(1)
    by (auto simp: validate_ram_range_def and_then_def ok_or_def checked_n_defs
        split: sum.splits option.splits if_splits)
  define k where "k = 4 * (words - 1)"
  have k: "k < 2 ^ 32" and w: "(if decrement then checked_sub else checked_add) madr (word_of_nat k) = Some last_address"
    using last by (auto simp: transfer_address_def and_then_def ok_or_def checked_n_defs k_def mult.commute
        split: sum.splits option.splits if_splits)
  have uk: "unat (word_of_nat k :: u32) = k" using k by (simp add: unat_of_nat)
  show ?thesis
    using w bounds assms(2) uk
    by (auto simp: dma_fits_def k_def dest: checked_sub_SomeD checked_add_SomeD split: if_splits)
qed

lemma fits_address:
  assumes f: "dma_fits madr words decrement" and i: "i < words"
  shows "transfer_address madr i decrement = Inr (dma_addr madr i decrement)"
    and "unat (dma_addr madr i decrement) = dma_offset madr i decrement"
    and "dma_offset madr i decrement + 4 \<le> RAM_SIZE"
proof -
  have le: "4 * i \<le> 4 * (words - 1)" using i by simp
  have bound: "4 * i \<le> RAM_SIZE" using f i by (auto simp: dma_fits_def split: if_splits)
  define k where "k = 4 * i"
  have k: "i * 4 = k" "4 * i = k" "k \<le> 4 * (words - 1)" using le by (simp_all add: k_def)
  have small: "k < 2 ^ 32" "k < 2 ^ 64" using bound by (simp_all add: RAM_SIZE_def k_def)
  have u: "unat (word_of_nat k :: u32) = k" using small by (simp add: unat_of_nat)
  have "(if decrement then checked_sub else checked_add) madr (word_of_nat k) = Some (dma_addr madr i decrement)
      \<and> unat (dma_addr madr i decrement) = dma_offset madr i decrement"
  proof (cases decrement)
    case True
    then have "k \<le> unat madr" using f k(3) by (simp add: dma_fits_def)
    then show ?thesis
      using True u by (simp add: checked_sub_def dma_addr_def dma_offset_def word_le_nat_alt unat_sub k)
  next
    case False
    then have "unat madr + k < 2 ^ 32" using f i by (simp add: dma_fits_def RAM_SIZE_def k_def)
    then show ?thesis
      using False u by (simp add: checked_add_def dma_addr_def dma_offset_def unat_word_ariths k)
  qed
  then show "transfer_address madr i decrement = Inr (dma_addr madr i decrement)"
    "unat (dma_addr madr i decrement) = dma_offset madr i decrement"
    using small by (simp_all add: transfer_address_def and_then_def ok_or_def checked_n_defs k)
  show "dma_offset madr i decrement + 4 \<le> RAM_SIZE"
    using f i le by (auto simp: dma_offset_def dma_fits_def split: if_splits)
qed

text \<open>A word of RAM below the mirrors, as the DMA and as the CPU see it.\<close>

lemma ram_cell:
  assumes "unat a < RAM_SIZE"
  shows "ps1_cell a = Some (unat a)"
proof -
  have "unat a < 2 ^ 29" using assms by (simp add: RAM_SIZE_def)
  then show ?thesis using assms by (simp add: ps1_cell_arith Let_def RAM_SIZE_def)
qed

lemma ram_word:
  assumes "a AND 3 = 0" "unat a + 4 \<le> RAM_SIZE"
  shows "Ps1Memory_read_u32 m a = Inr (read_ram_word (mem_ram m) (unat a))"
proof -
  have c: "ps1_cell a = Some (unat a)" using assms(2) by (intro ram_cell) simp
  obtain region where v: "validated 4 a region" using aligned_word(1) [OF assms(1) c] by blast
  have cells: "ps1_cell (a + word_of_nat i) = Some (unat a + i)" if "i < 4" for i
    using aligned_word(2) [OF assms(1) c that] .
  have "ps1_word m a = read_ram_word (mem_ram m) (unat a)"
    using cells [of 0] cells [of 1] cells [of 2] cells [of 3] assms(2)
    by (simp add: ps1_word_def Let_def read_ram_word_def ps1_byte_def)
  then show ?thesis
    using read_u32_word [OF v, of m] c v by (simp add: Ps1Memory_read_u32_def validated_def and_then_def)
qed

lemma masked_aligned: "madr AND RAM_ADDRESS_MASK = madr \<Longrightarrow> unat madr mod 4 = 0"
proof -
  assume m: "madr AND RAM_ADDRESS_MASK = madr"
  have "madr AND 3 = madr AND (RAM_ADDRESS_MASK AND 3)" by (subst (1) m [symmetric]) (simp only: and.assoc)
  also have "RAM_ADDRESS_MASK AND 3 = 0" by (simp add: RAM_ADDRESS_MASK_def)
  finally show ?thesis by (simp flip: unat_and3)
qed

lemma fits_aligned:
  assumes "dma_fits madr words decrement" "i < words" "unat madr mod 4 = 0"
  shows "dma_addr madr i decrement AND 3 = 0"
proof -
  have "dma_offset madr i decrement mod 4 = 0"
  proof (cases decrement)
    case True
    have "4 * i \<le> unat madr" using assms True by (auto simp: dma_fits_def)
    then show ?thesis using assms(3) True by (auto simp: dma_offset_def mod_eq_0_iff_dvd)
  qed (use assms(3) in \<open>simp add: dma_offset_def\<close>)
  then show ?thesis
    using unat_and3 [of "dma_addr madr i decrement"] fits_address(2) [OF assms(1,2)] by (simp add: unat_eq_0)
qed

text \<open>The loop, in both directions, on the list endpoint.\<close>

lemma loop_out:
  assumes "dma_fits madr words decrement" "set is \<subseteq> {..<words}"
  shows "transfer_loop log_words rd madr words decrement True is (m, log)
    = (Inr (), (m, log @ map (\<lambda>i. read_ram_word (mem_ram m) (dma_offset madr i decrement)) is))"
  using assms(2)
proof (induction "is" arbitrary: log)
  case (Cons i js)
  then show ?case
    using fits_address(1,2) [OF assms(1), of i]
    by (simp add: rs_bind_def rs_then_def rs_lift_def ok_or_def usize_of_u32 log_words_def map_err_def)
qed (simp add: rs_return_def)

fun stored_words :: "u32 \<Rightarrow> bool \<Rightarrow> u64 list \<Rightarrow> u32 list \<Rightarrow> u8 list \<Rightarrow> u8 list" where
  "stored_words madr decrement (i # is) (v # vs) ram =
     stored_words madr decrement is vs (write_ram_word ram (dma_offset madr i decrement) v)"
| "stored_words madr decrement _ _ ram = ram"

lemma loop_in:
  assumes "dma_fits madr words decrement" "set is \<subseteq> {..<words}" "length is \<le> length queue"
  shows "transfer_loop wr take_word madr words decrement False is (m, queue)
    = (Inr (), (m\<lparr>mem_ram := stored_words madr decrement is queue (mem_ram m)\<rparr>, drop (length is) queue))"
  using assms(2,3)
proof (induction "is" arbitrary: m queue)
  case (Cons i js)
  then obtain v vs where "queue = v # vs" by (cases queue) auto
  then show ?case
    using Cons fits_address(1,2) [OF assms(1), of i]
    by (simp add: rs_bind_def rs_then_def rs_lift_def ok_or_def usize_of_u32 take_word_def)
qed (simp add: rs_return_def)

lemma length_write_ram_word: "k + 4 \<le> length ram \<Longrightarrow> length (write_ram_word ram k v) = length ram"
  by (simp add: write_ram_word_def)

lemma nth_write_ram_word:
  assumes "k + 4 \<le> length ram"
  shows "write_ram_word ram k v ! c = (if k \<le> c \<and> c < k + 4 then byte_of (c - k) v else ram ! c)"
proof (cases "k \<le> c \<and> c < k + 4")
  case True
  then have "c - k = 0 \<or> c - k = 1 \<or> c - k = 2 \<or> c - k = 3" by linarith
  then show ?thesis using True assms by (auto simp: write_ram_word_def nth_append)
next
  case False
  then show ?thesis using assms by (auto simp: write_ram_word_def nth_append nth_Cons' min_def)
qed

lemma stored_words_bytes:
  assumes fits: "dma_fits madr words decrement"
  shows "set is \<subseteq> {..<words} \<Longrightarrow> distinct is \<Longrightarrow> length is \<le> length vs \<Longrightarrow> length ram = RAM_SIZE \<Longrightarrow>
    length (stored_words madr decrement is vs ram) = RAM_SIZE
    \<and> (\<forall>j < length is. \<forall>b < 4. stored_words madr decrement is vs ram ! (dma_offset madr (is ! j) decrement + b) = byte_of b (vs ! j))
    \<and> (\<forall>c. (\<forall>j < length is. \<not> (dma_offset madr (is ! j) decrement \<le> c \<and> c < dma_offset madr (is ! j) decrement + 4)) \<longrightarrow>
         stored_words madr decrement is vs ram ! c = ram ! c)"
proof (induction "is" arbitrary: vs ram)
  case (Cons i js)
  obtain v ws where vs: "vs = v # ws" using Cons.prems(3) by (cases vs) auto
  let ?o = "\<lambda>k. dma_offset madr k decrement"
  let ?ram = "write_ram_word ram (?o i) v"
  have i: "i < words" using Cons.prems(1) by simp
  have o: "?o i + 4 \<le> length ram" using fits_address(3) [OF fits i] Cons.prems(4) by simp
  have apart: "?o k + 4 \<le> ?o i \<or> ?o i + 4 \<le> ?o k" if "k \<in> set js" for k
  proof -
    have "k < words" "k \<noteq> i" using that Cons.prems(1,2) by auto
    then have "k < i \<or> i < k" by linarith
    moreover have "4 * i \<le> unat madr" "4 * k \<le> unat madr" if decrement
      using that fits i \<open>k < words\<close> by (auto simp: dma_fits_def)
    ultimately show ?thesis by (cases decrement) (auto simp: dma_offset_def)
  qed
  have len: "length ?ram = RAM_SIZE" using length_write_ram_word [OF o] Cons.prems(4) by simp
  note ih = Cons.IH [of ws ?ram, OF _ _ _ len]
  have ih1: "length (stored_words madr decrement js ws ?ram) = RAM_SIZE"
    and ih2: "\<And>j b. j < length js \<Longrightarrow> b < 4 \<Longrightarrow> stored_words madr decrement js ws ?ram ! (?o (js ! j) + b) = byte_of b (ws ! j)"
    and ih3: "\<And>c. \<forall>j < length js. \<not> (?o (js ! j) \<le> c \<and> c < ?o (js ! j) + 4) \<Longrightarrow>
        stored_words madr decrement js ws ?ram ! c = ?ram ! c"
    using ih Cons.prems vs by auto
  have first: "stored_words madr decrement js ws ?ram ! (?o i + b) = byte_of b v" if "b < 4" for b
  proof -
    have "stored_words madr decrement js ws ?ram ! (?o i + b) = ?ram ! (?o i + b)"
      using apart that by (intro ih3) (auto simp: Ball_def in_set_conv_nth, fastforce)
    then show ?thesis using that nth_write_ram_word [OF o] by simp
  qed
  have "stored_words madr decrement (i # js) vs ram ! c = ram ! c"
    if other: "\<forall>j < length (i # js). \<not> (?o ((i # js) ! j) \<le> c \<and> c < ?o ((i # js) ! j) + 4)" for c
  proof -
    have "\<not> (?o i \<le> c \<and> c < ?o i + 4)" using other by (auto dest: spec [of _ "0 :: nat"])
    moreover have "\<forall>j < length js. \<not> (?o (js ! j) \<le> c \<and> c < ?o (js ! j) + 4)"
      using other by (auto dest: spec [of _ "Suc _"])
    ultimately show ?thesis using ih3 [of c] nth_write_ram_word [OF o, of v c] vs by auto
  qed
  moreover have "stored_words madr decrement (i # js) vs ram ! (?o ((i # js) ! j) + b) = byte_of b (vs ! j)"
    if "j < length (i # js)" "b < 4" for j b
    using that ih2 first vs by (cases j) auto
  ultimately show ?case using ih1 vs by simp
qed simp

lemma fits_end:
  assumes "dma_fits madr words decrement" "words \<le> MAX_RAM_WORDS"
  shows "end_address madr words decrement = Inr (dma_addr madr words decrement AND RAM_ADDRESS_MASK)"
proof -
  define k where "k = 4 * words"
  have "k < 2 ^ 32" "k < 2 ^ 64" using assms(2) by (simp_all add: k_def MAX_RAM_WORDS_def)
  moreover have k: "words * 4 = k" "4 * words = k" by (simp_all add: k_def)
  ultimately show ?thesis
    unfolding end_address_def dma_addr_def k checked_mul_n_def try_from_n_def
    by (simp add: and_then_def ok_or_def)
qed

text \<open>What \<open>complete\<close> does once the event, the range and the transfer are in order.\<close>

lemma complete_success:
  assumes "d1_pending self = Some p" "due_id event = CHANNEL4_EVENT" "due_deadline event = pt_deadline p"
    and "validate_ram_range (d1_madr self) (pt_words p) decrement (length (mem_ram memory)) = Inr ()"
    and "decrement = (d1_chcr self AND CHCR_DECREMENT \<noteq> 0)"
    and "transfer_loop wr rd (d1_madr self) (pt_words p) decrement
        (d1_chcr self AND CHCR_DIRECTION_FROM_RAM \<noteq> 0) [0..<pt_words p] (memory, ep) = (Inr (), (memory', ep'))"
    and "end_address (d1_madr self) (pt_words p) decrement = Inr after"
  shows "\<exists>self' sink'. Dma1_complete wr rd req event (self, memory, ep, sink) = (Inr (), self', memory', ep', sink')
    \<and> d1_madr self' = after \<and> d1_chcr self' = d1_chcr self AND NOT (CHCR_START OR CHCR_TRIGGER)
    \<and> d1_dicr_flags self' = d1_dicr_flags self OR DICR_CHANNEL4_FLAG \<and> d1_pending self' = None"
  using assms by (simp add: Dma1_complete_def Dma1_finish_def Let_def)

text \<open>
  C9. A sound transfer moves exactly its words, in order, between the device and the memory the CPU
  sees. In every state the guest can program, when the pending transfer's range is valid: towards
  the device, the words at the addresses going up or down from \<open>MADR\<close> are delivered in that order
  and memory is unchanged; from the device, each word is what the CPU then loads at its address
  and every other byte of memory is what it was. \<open>MADR\<close> then points past the transfer and the
  channel is idle with its flag set.
\<close>
theorem dma1_transfer_exact:
  assumes "Dma1_run log_words take_word req (self, s)" and "d1_pending self = Some p"
    and "ps1_ok memory"
    and "validate_ram_range (d1_madr self) (pt_words p) (d1_chcr self AND CHCR_DECREMENT \<noteq> 0) RAM_SIZE = Inr ()"
  shows "let n = pt_words p;
      addr = (\<lambda>i. dma_addr (d1_madr self) i (d1_chcr self AND CHCR_DECREMENT \<noteq> 0));
      done_well = (\<lambda>self'. d1_madr self' = addr n AND RAM_ADDRESS_MASK
        \<and> d1_chcr self' = d1_chcr self AND NOT (CHCR_START OR CHCR_TRIGGER)
        \<and> d1_dicr_flags self' = d1_dicr_flags self OR DICR_CHANNEL4_FLAG);
      event = \<lparr>due_id = CHANNEL4_EVENT, due_deadline = pt_deadline p\<rparr> in
    if d1_chcr self AND CHCR_DIRECTION_FROM_RAM \<noteq> 0 then
      \<exists>ws self' sink'. Dma1_complete log_words take_word req event (self, memory, queue, sink)
          = (Inr (), self', memory, queue @ ws, sink') \<and> done_well self' \<and> length ws = n
        \<and> (\<forall>i < n. Ps1Memory_read_u32 memory (addr i) = Inr (ws ! i))
    else n \<le> length queue \<longrightarrow>
      (\<exists>memory' self' sink'. Dma1_complete log_words take_word req event (self, memory, queue, sink)
          = (Inr (), self', memory', drop n queue, sink') \<and> done_well self'
        \<and> (\<forall>i < n. Ps1Memory_read_u32 memory' (addr i) = Inr (queue ! i))
        \<and> (\<forall>x. (\<forall>i < n. \<forall>b < 4. ps1_cell x \<noteq> ps1_cell (addr i + word_of_nat b)) \<longrightarrow>
             Ps1Memory_read_u8 memory' x = Ps1Memory_read_u8 memory x))"
proof -
  define decrement where "decrement = (d1_chcr self AND CHCR_DECREMENT \<noteq> 0)"
  define n where "n = pt_words p"
  let ?madr = "d1_madr self"
  let ?addr = "\<lambda>i. dma_addr ?madr i decrement" and ?off = "\<lambda>i. dma_offset ?madr i decrement"
  have ok: "?madr AND RAM_ADDRESS_MASK = ?madr" "0 < n" "n \<le> MAX_RAM_WORDS"
    using run_ok [OF assms(1)] assms(2) by (simp_all add: dma1_ok_def n_def)
  have len: "length (mem_ram memory) = RAM_SIZE" using assms(3) by (simp add: ps1_ok_def)
  have valid: "validate_ram_range ?madr n decrement RAM_SIZE = Inr ()"
    using assms(4) by (simp add: decrement_def n_def)
  note fits = validated_fits [OF valid ok(2)]
  note addr = fits_address(2,3) [OF fits] and aligned = fits_aligned [OF fits _ masked_aligned [OF ok(1)]]
  have success: "\<exists>self' sink'. Dma1_complete wr rd req \<lparr>due_id = CHANNEL4_EVENT, due_deadline = pt_deadline p\<rparr>
        (self, memory, ep, sink) = (Inr (), self', memory', ep', sink')
      \<and> d1_madr self' = ?addr n AND RAM_ADDRESS_MASK
      \<and> d1_chcr self' = d1_chcr self AND NOT (CHCR_START OR CHCR_TRIGGER)
      \<and> d1_dicr_flags self' = d1_dicr_flags self OR DICR_CHANNEL4_FLAG"
    if "transfer_loop wr rd ?madr n decrement (d1_chcr self AND CHCR_DIRECTION_FROM_RAM \<noteq> 0) [0..<n]
          (memory, ep) = (Inr (), (memory', ep'))" for wr rd ep memory' ep'
    using complete_success [OF assms(2) _ _ _ decrement_def that [unfolded n_def] fits_end [OF fits ok(3), unfolded n_def],
        of "\<lparr>due_id = CHANNEL4_EVENT, due_deadline = pt_deadline p\<rparr>" req sink] valid len
    unfolding n_def by auto
  have view: "Ps1Memory_read_u32 m (?addr i) = Inr (read_ram_word (mem_ram m) (?off i))" if "i < n" for i m
    using ram_word [OF aligned [OF that]] addr [OF that] by simp
  show ?thesis
  proof (cases "d1_chcr self AND CHCR_DIRECTION_FROM_RAM \<noteq> 0")
    case True
    let ?ws = "map (\<lambda>i. read_ram_word (mem_ram memory) (?off i)) [0..<n]"
    have "transfer_loop log_words take_word ?madr n decrement True [0..<n] (memory, queue)
        = (Inr (), (memory, queue @ ?ws))"
      by (rule loop_out [OF fits]) auto
    then show ?thesis
      using success [of log_words take_word queue memory "queue @ ?ws"] True view
      unfolding Let_def n_def [symmetric] decrement_def [symmetric]
      by (auto intro!: exI [of _ ?ws])
  next
    case False
    let ?ram = "stored_words ?madr decrement [0..<n] queue (mem_ram memory)"
    let ?m = "memory\<lparr>mem_ram := ?ram\<rparr>"
    have moved: "\<exists>self' sink'. Dma1_complete log_words take_word req \<lparr>due_id = CHANNEL4_EVENT, due_deadline = pt_deadline p\<rparr>
          (self, memory, queue, sink) = (Inr (), self', ?m, drop n queue, sink')
        \<and> d1_madr self' = ?addr n AND RAM_ADDRESS_MASK
        \<and> d1_chcr self' = d1_chcr self AND NOT (CHCR_START OR CHCR_TRIGGER)
        \<and> d1_dicr_flags self' = d1_dicr_flags self OR DICR_CHANNEL4_FLAG"
      and words: "\<forall>i < n. Ps1Memory_read_u32 ?m (?addr i) = Inr (queue ! i)"
      and others: "\<forall>x. (\<forall>i < n. \<forall>b < 4. ps1_cell x \<noteq> ps1_cell (?addr i + word_of_nat b)) \<longrightarrow>
             Ps1Memory_read_u8 ?m x = Ps1Memory_read_u8 memory x"
      if enough: "n \<le> length queue"
    proof -
      have "transfer_loop log_words take_word ?madr n decrement False [0..<n] (memory, queue) = (Inr (), (?m, drop n queue))"
        using loop_in [OF fits, of "[0..<n]" queue log_words memory] enough by (simp add: atLeast0LessThan)
      then show "\<exists>self' sink'. Dma1_complete log_words take_word req \<lparr>due_id = CHANNEL4_EVENT, due_deadline = pt_deadline p\<rparr>
          (self, memory, queue, sink) = (Inr (), self', ?m, drop n queue, sink')
        \<and> d1_madr self' = ?addr n AND RAM_ADDRESS_MASK
        \<and> d1_chcr self' = d1_chcr self AND NOT (CHCR_START OR CHCR_TRIGGER)
        \<and> d1_dicr_flags self' = d1_dicr_flags self OR DICR_CHANNEL4_FLAG"
        using success [of log_words take_word queue ?m "drop n queue"] False by auto
      note bytes = stored_words_bytes [OF fits, of "[0..<n]" queue "mem_ram memory", simplified atLeast0LessThan
          set_upt distinct_upt length_upt, simplified, OF enough len]
      have stored: "\<And>i b. i < n \<Longrightarrow> b < 4 \<Longrightarrow> ?ram ! (?off i + b) = byte_of b (queue ! i)"
        and kept: "\<And>c. \<forall>i < n. \<not> (?off i \<le> c \<and> c < ?off i + 4) \<Longrightarrow> ?ram ! c = mem_ram memory ! c"
        using bytes by auto
      show "\<forall>i < n. Ps1Memory_read_u32 ?m (?addr i) = Inr (queue ! i)"
      proof (intro allI impI)
        fix i assume i: "i < n"
        show "Ps1Memory_read_u32 ?m (?addr i) = Inr (queue ! i)"
          using view [OF i, of ?m] stored [OF i, of 0] stored [OF i, of 1] stored [OF i, of 2] stored [OF i, of 3]
            u32_le_roundtrip [of "queue ! i"]
          by (simp add: read_ram_word_def)
      qed
      show "\<forall>x. (\<forall>i < n. \<forall>b < 4. ps1_cell x \<noteq> ps1_cell (?addr i + word_of_nat b)) \<longrightarrow>
             Ps1Memory_read_u8 ?m x = Ps1Memory_read_u8 memory x"
      proof (intro allI impI)
        fix x assume other: "\<forall>i < n. \<forall>b < 4. ps1_cell x \<noteq> ps1_cell (?addr i + word_of_nat b)"
        have cell: "ps1_cell (?addr i + word_of_nat b) = Some (?off i + b)" if "i < n" "b < 4" for i b
          using aligned_word(2) [OF aligned [OF that(1)] ram_cell that(2)] addr [OF that(1)] by simp
        show "Ps1Memory_read_u8 ?m x = Ps1Memory_read_u8 memory x"
        proof (cases "ps1_cell x")
          case (Some c)
          have "\<not> (?off i \<le> c \<and> c < ?off i + 4)" if "i < n" for i
          proof
            assume "?off i \<le> c \<and> c < ?off i + 4"
            then have "c = ?off i + (c - ?off i)" "c - ?off i < 4" by auto
            then show False using other cell [OF that, of "c - ?off i"] that Some by metis
          qed
          then have "ps1_byte ?m c = ps1_byte memory c" using kept by (simp add: ps1_byte_def)
          then show ?thesis using Some by (simp add: read_u8_cell)
        qed (auto simp: ps1_cell_def Ps1Memory_read_u8_def and_then_def split: sum.splits MemoryRegion.splits)
      qed
    qed
    show ?thesis
      using False moved words others unfolding Let_def n_def [symmetric] decrement_def [symmetric] by auto
  qed
qed

lemma dma1_transfer_exact_witness:
  "\<exists>self' sink' ws. Dma1_complete log_words take_word log_irq1 \<lparr>due_id = CHANNEL4_EVENT, due_deadline = 8\<rparr>
      (dma1_example, Ps1Memory_new OpenBusPolicy_Strict, [], []) =
        (Inr (), self', Ps1Memory_new OpenBusPolicy_Strict, ws, sink') \<and> length ws = 2 \<and> d1_madr self' = 8"
proof -
  have p: "d1_pending dma1_example = Some \<lparr>pt_deadline = 8, pt_words = 2\<rparr>" by (simp add: dma1_example_def)
  have v: "validate_ram_range (d1_madr dma1_example) 2 (d1_chcr dma1_example AND CHCR_DECREMENT \<noteq> 0) RAM_SIZE = Inr ()"
    by code_simp
  have "d1_chcr dma1_example AND CHCR_DIRECTION_FROM_RAM \<noteq> 0" "dma_addr (d1_madr dma1_example) 2 (d1_chcr dma1_example AND CHCR_DECREMENT \<noteq> 0) AND RAM_ADDRESS_MASK = 8"
    by code_simp+
  then show ?thesis
    using dma1_transfer_exact [OF dma1_example_run p ps1_new_ok [of OpenBusPolicy_Strict], where queue = "[]" and sink = "[]"] v
    by (auto simp: Let_def)
qed

end
