(* ===== verification/Iop_Memory.thy ===== *)
theory Iop_Memory
  imports R3000_Proofs Ps2_Irq Bus_Address Result_State
begin

text \<open>
  The memory of the PS2 I/O processor, \<open>crates/hw/ps2/iop-memory/src/lib.rs\<close>: two megabytes of
  RAM with their mirrors, the scratchpad, the windows the machine routes elsewhere, and byte,
  halfword and word accesses that never straddle a region. It is the second bus the interpreter
  runs on, and interprets the same contract \<open>word_bus\<close> as the PS1 memory.
\<close>

section \<open>Memory map\<close>

definition IOP_RAM_SIZE :: usize where "IOP_RAM_SIZE = 2 * 1024 * 1024"
definition IOP_RAM_SIZE_U32 :: u32 where "IOP_RAM_SIZE_U32 = 2 * 1024 * 1024"
definition IOP_RAM_MIRROR_END :: u32 where "IOP_RAM_MIRROR_END = 8 * 1024 * 1024"
definition SCRATCHPAD_START :: u32 where "SCRATCHPAD_START = 0x1F800000"
definition SCRATCHPAD_SIZE :: usize where "SCRATCHPAD_SIZE = 0x800"
definition SCRATCHPAD_SIZE_U32 :: u32 where "SCRATCHPAD_SIZE_U32 = 0x800"
definition IOP_MMIO_START :: u32 where "IOP_MMIO_START = 0x1F801000"
definition IOP_MMIO_END :: u32 where "IOP_MMIO_END = 0x1F80FFFF"
definition SPU2_MMIO_START :: u32 where "SPU2_MMIO_START = 0x1F900000"
definition SPU2_MMIO_END :: u32 where "SPU2_MMIO_END = 0x1F90FFFF"
definition HLE_ROM_START :: u32 where "HLE_ROM_START = 0x1FC00000"
definition HLE_ROM_END :: u32 where "HLE_ROM_END = 0x1FC7FFFF"

datatype IopOpenBus = IopOpenBus_Strict | IopOpenBus_Ones

datatype IopRegion =
    IopRegion_Ram usize
  | IopRegion_Scratchpad usize
  | IopRegion_Mmio u32
  | IopRegion_Spu2 u32
  | IopRegion_HleRom u32
  | IopRegion_Unmapped u32

datatype IopMemoryError =
    IopMemoryError_UnsupportedSegment u32
  | IopMemoryError_UnsupportedAddressWidth u32
  | IopMemoryError_Mmio u32
  | IopMemoryError_Spu2 u32
  | IopMemoryError_HleRom u32
  | IopMemoryError_Unmapped u32
  | IopMemoryError_CrossesBoundary u32
  | IopMemoryError_InvalidRamRange u32 usize

record IopMemory =
  iop_ram :: "u8 list"
  iop_scratchpad :: "u8 list"
  iop_open_bus :: IopOpenBus

definition IopMemory_new :: "IopOpenBus \<Rightarrow> IopMemory" where
  "IopMemory_new open_bus =
     \<lparr>iop_ram = replicate IOP_RAM_SIZE 0, iop_scratchpad = replicate SCRATCHPAD_SIZE 0,
      iop_open_bus = open_bus\<rparr>"

text \<open>\<open>copy_from_slice\<close> into the validated range.\<close>

definition IopMemory_load_ram ::
    "u32 \<Rightarrow> u8 list \<Rightarrow> (IopMemory, IopMemoryError, unit) rs" where
  "IopMemory_load_ram address bytes self =
     (let e = IopMemoryError_InvalidRamRange address (length bytes) in
      case try_from_n 64 (unat address) of
        None \<Rightarrow> (Inl e, self)
      | Some start \<Rightarrow>
         (case Option.bind (checked_add_n 64 start (length bytes))
             (\<lambda>stop. if stop \<le> IOP_RAM_SIZE then Some stop else None) of
            None \<Rightarrow> (Inl e, self)
          | Some stop \<Rightarrow>
             (Inr (), self\<lparr>iop_ram := take start (iop_ram self) @ bytes @ drop stop (iop_ram self)\<rparr>)))"

definition IopMemory_translate :: "u32 \<Rightarrow> IopMemoryError + u32" where
  "IopMemory_translate address =
     (if address \<le> 0x3FFFFFFF \<or> 0x80000000 \<le> address \<and> address \<le> 0xBFFFFFFF
      then Inr (address AND 0x1FFFFFFF)
      else Inl (IopMemoryError_UnsupportedSegment address))"

definition IopMemory_classify :: "u32 \<Rightarrow> IopMemoryError + IopRegion" where
  "IopMemory_classify address =
     and_then (IopMemory_translate address) (\<lambda>physical.
       if physical < IOP_RAM_MIRROR_END then
         and_then (ok_or (try_from_n 64 (unat (physical mod IOP_RAM_SIZE_U32)))
             (IopMemoryError_UnsupportedAddressWidth address))
           (\<lambda>offset. Inr (IopRegion_Ram offset))
       else if SCRATCHPAD_START \<le> physical \<and> physical < SCRATCHPAD_START + SCRATCHPAD_SIZE_U32 then
         and_then (ok_or (try_from_n 64 (unat (physical - SCRATCHPAD_START)))
             (IopMemoryError_UnsupportedAddressWidth address))
           (\<lambda>offset. Inr (IopRegion_Scratchpad offset))
       else if IOP_MMIO_START \<le> physical \<and> physical \<le> IOP_MMIO_END then Inr (IopRegion_Mmio physical)
       else if SPU2_MMIO_START \<le> physical \<and> physical \<le> SPU2_MMIO_END then Inr (IopRegion_Spu2 physical)
       else if HLE_ROM_START \<le> physical \<and> physical \<le> HLE_ROM_END then Inr (IopRegion_HleRom physical)
       else Inr (IopRegion_Unmapped physical))"

fun region_kind :: "IopRegion \<Rightarrow> nat" where
  "region_kind (IopRegion_Ram _) = 0"
| "region_kind (IopRegion_Scratchpad _) = 1"
| "region_kind (IopRegion_Mmio _) = 2"
| "region_kind (IopRegion_Spu2 _) = 3"
| "region_kind (IopRegion_HleRom _) = 4"
| "region_kind (IopRegion_Unmapped _) = 5"

section \<open>Accesses\<close>

definition IopMemory_validate_span :: "u32 \<Rightarrow> IopRegion \<Rightarrow> u32 \<Rightarrow> IopMemoryError + unit" where
  "IopMemory_validate_span address region len =
     and_then (ok_or (checked_add address (len - 1)) (IopMemoryError_CrossesBoundary address))
       (\<lambda>last_address. and_then (IopMemory_classify last_address) (\<lambda>last_region.
          if region_kind region \<noteq> region_kind last_region
          then Inl (IopMemoryError_CrossesBoundary address)
          else case (region, last_region) of
              (IopRegion_Ram k, IopRegion_Ram l) \<Rightarrow>
                if l < k then Inl (IopMemoryError_CrossesBoundary address) else Inr ()
            | (IopRegion_Scratchpad k, IopRegion_Scratchpad l) \<Rightarrow>
                if l < k then Inl (IopMemoryError_CrossesBoundary address) else Inr ()
            | _ \<Rightarrow> Inr ()))"

fun IopMemory_read_decoded_u8 :: "IopMemory \<Rightarrow> IopRegion \<Rightarrow> IopMemoryError + u8" where
  "IopMemory_read_decoded_u8 self (IopRegion_Ram offset) = Inr (iop_ram self ! offset)"
| "IopMemory_read_decoded_u8 self (IopRegion_Scratchpad offset) = Inr (iop_scratchpad self ! offset)"
| "IopMemory_read_decoded_u8 self (IopRegion_Mmio physical) = Inl (IopMemoryError_Mmio physical)"
| "IopMemory_read_decoded_u8 self (IopRegion_Spu2 physical) = Inl (IopMemoryError_Spu2 physical)"
| "IopMemory_read_decoded_u8 self (IopRegion_HleRom physical) = Inl (IopMemoryError_HleRom physical)"
| "IopMemory_read_decoded_u8 self (IopRegion_Unmapped physical) =
     (case iop_open_bus self of
        IopOpenBus_Strict \<Rightarrow> Inl (IopMemoryError_Unmapped physical)
      | IopOpenBus_Ones \<Rightarrow> Inr (- 1))"

fun IopMemory_write_decoded_u8 ::
    "IopRegion \<Rightarrow> u8 \<Rightarrow> (IopMemory, IopMemoryError, unit) rs" where
  "IopMemory_write_decoded_u8 (IopRegion_Ram offset) v self =
     (Inr (), self\<lparr>iop_ram := (iop_ram self)[offset := v]\<rparr>)"
| "IopMemory_write_decoded_u8 (IopRegion_Scratchpad offset) v self =
     (Inr (), self\<lparr>iop_scratchpad := (iop_scratchpad self)[offset := v]\<rparr>)"
| "IopMemory_write_decoded_u8 (IopRegion_Mmio physical) v self = (Inl (IopMemoryError_Mmio physical), self)"
| "IopMemory_write_decoded_u8 (IopRegion_Spu2 physical) v self = (Inl (IopMemoryError_Spu2 physical), self)"
| "IopMemory_write_decoded_u8 (IopRegion_HleRom physical) v self = (Inl (IopMemoryError_HleRom physical), self)"
| "IopMemory_write_decoded_u8 (IopRegion_Unmapped physical) v self =
     (case iop_open_bus self of
        IopOpenBus_Strict \<Rightarrow> (Inl (IopMemoryError_Unmapped physical), self)
      | IopOpenBus_Ones \<Rightarrow> (Inr (), self))"

definition IopMemory_read_u8 :: "IopMemory \<Rightarrow> u32 \<Rightarrow> IopMemoryError + u8" where
  "IopMemory_read_u8 self address =
     and_then (IopMemory_classify address) (IopMemory_read_decoded_u8 self)"

definition IopMemory_read_u16 :: "IopMemory \<Rightarrow> u32 \<Rightarrow> IopMemoryError + u16" where
  "IopMemory_read_u16 self address =
     and_then (IopMemory_classify address) (\<lambda>region.
     and_then (IopMemory_validate_span address region 2) (\<lambda>_.
     and_then (IopMemory_read_decoded_u8 self region) (\<lambda>b0.
     and_then (IopMemory_read_u8 self (address + 1)) (\<lambda>b1. Inr (u16_from_le_bytes b0 b1)))))"

text \<open>The loop of \<open>read_u32\<close> over its four offsets.\<close>

fun read_bytes :: "IopMemory \<Rightarrow> u32 \<Rightarrow> u32 list \<Rightarrow> IopMemoryError + u8 list" where
  "read_bytes self address [] = Inr []"
| "read_bytes self address (offset # offsets) =
     and_then (IopMemory_read_u8 self (address + offset)) (\<lambda>b.
     and_then (read_bytes self address offsets) (\<lambda>bs. Inr (b # bs)))"

definition IopMemory_read_u32 :: "IopMemory \<Rightarrow> u32 \<Rightarrow> IopMemoryError + u32" where
  "IopMemory_read_u32 self address =
     and_then (IopMemory_classify address) (\<lambda>region.
     and_then (IopMemory_validate_span address region 4) (\<lambda>_.
     and_then (read_bytes self address [0, 1, 2, 3]) (\<lambda>bytes.
       Inr (u32_from_le_bytes (bytes ! 0) (bytes ! 1) (bytes ! 2) (bytes ! 3)))))"

definition IopMemory_write_u8 :: "u32 \<Rightarrow> u8 \<Rightarrow> (IopMemory, IopMemoryError, unit) rs" where
  "IopMemory_write_u8 address v =
     rs_bind (rs_lift (IopMemory_classify address)) (\<lambda>region. IopMemory_write_decoded_u8 region v)"

text \<open>The loops of \<open>write_u16\<close> and \<open>write_u32\<close> over the offsets zipped with the bytes.\<close>

fun iop_write_bytes :: "u32 \<Rightarrow> (u32 \<times> u8) list \<Rightarrow> (IopMemory, IopMemoryError, unit) rs" where
  "iop_write_bytes address [] = rs_return ()"
| "iop_write_bytes address ((offset, b) # bs) =
     rs_then (IopMemory_write_u8 (address + offset) b) (iop_write_bytes address bs)"

definition IopMemory_write_u16 :: "u32 \<Rightarrow> u16 \<Rightarrow> (IopMemory, IopMemoryError, unit) rs" where
  "IopMemory_write_u16 address v =
     rs_bind (rs_lift (IopMemory_classify address)) (\<lambda>region.
     rs_then (rs_lift (IopMemory_validate_span address region 2))
       (iop_write_bytes address (zip [0, 1] [byte_of 0 v, byte_of 1 v])))"

definition IopMemory_write_u32 :: "u32 \<Rightarrow> u32 \<Rightarrow> (IopMemory, IopMemoryError, unit) rs" where
  "IopMemory_write_u32 address v =
     rs_bind (rs_lift (IopMemory_classify address)) (\<lambda>region.
     rs_then (rs_lift (IopMemory_validate_span address region 4))
       (iop_write_bytes address (zip [0, 1, 2, 3] [byte_of 0 v, byte_of 1 v, byte_of 2 v, byte_of 3 v])))"

section \<open>Address decoding in arithmetic\<close>

lemmas iop_map_defs = IOP_RAM_MIRROR_END_def SCRATCHPAD_START_def SCRATCHPAD_SIZE_U32_def
  IOP_MMIO_START_def IOP_MMIO_END_def SPU2_MMIO_START_def SPU2_MMIO_END_def HLE_ROM_START_def
  HLE_ROM_END_def

definition direct_segment :: "nat \<Rightarrow> bool" where
  "direct_segment n \<longleftrightarrow> n div 2 ^ 29 \<in> {0, 1, 4, 5}"

lemma direct_segment_word:
  "(a \<le> 0x3FFFFFFF \<or> 0x80000000 \<le> a \<and> a \<le> 0xBFFFFFFF) = direct_segment (unat a)" for a :: u32
proof -
  have "unat a < 2 ^ 32" using unsigned_less [of a, where ?'a = nat] by simp
  then have "unat a div 2 ^ 29 < 8" by simp
  then show ?thesis
    by (auto simp: direct_segment_def word_le_nat_alt)
qed

text \<open>The region of a physical address, and where its storage is.\<close>

definition kind_at :: "nat \<Rightarrow> nat" where
  "kind_at p =
     (if p < 0x800000 then 0 else if 0x1F800000 \<le> p \<and> p < 0x1F800800 then 1
      else if 0x1F801000 \<le> p \<and> p < 0x1F810000 then 2
      else if 0x1F900000 \<le> p \<and> p < 0x1F910000 then 3
      else if 0x1FC00000 \<le> p \<and> p < 0x1FC80000 then 4 else 5)"

lemma iop_classify_unat:
  "IopMemory_classify a =
     (let p = unat a mod 2 ^ 29 in
      if \<not> direct_segment (unat a) then Inl (IopMemoryError_UnsupportedSegment a)
      else if kind_at p = 0 then Inr (IopRegion_Ram (p mod IOP_RAM_SIZE))
      else if kind_at p = 1 then Inr (IopRegion_Scratchpad (p - 0x1F800000))
      else if kind_at p = 2 then Inr (IopRegion_Mmio (a AND 0x1FFFFFFF))
      else if kind_at p = 3 then Inr (IopRegion_Spu2 (a AND 0x1FFFFFFF))
      else if kind_at p = 4 then Inr (IopRegion_HleRom (a AND 0x1FFFFFFF))
      else Inr (IopRegion_Unmapped (a AND 0x1FFFFFFF)))"
proof -
  let ?w = "a AND 0x1FFFFFFF"
  have w: "unat ?w = unat a mod 2 ^ 29" by (rule unat_physical)
  have scratch: "unat (?w - SCRATCHPAD_START) = unat ?w - 0x1F800000" if "0x1F800000 \<le> unat ?w"
    using that by (simp add: unat_sub SCRATCHPAD_START_def word_le_nat_alt)
  have ram: "unat (?w mod IOP_RAM_SIZE_U32) = unat ?w mod IOP_RAM_SIZE"
    by (simp add: unat_mod IOP_RAM_SIZE_U32_def IOP_RAM_SIZE_def)
  show ?thesis
    unfolding IopMemory_classify_def IopMemory_translate_def direct_segment_word Let_def w [symmetric] kind_at_def
    using scratch
    by (simp add: and_then_def ok_or_def usize_of_u32 usize_of_u32_minus ram iop_map_defs word_less_nat_alt word_le_nat_alt flip: ram)
qed

definition iop_ok :: "IopMemory \<Rightarrow> bool" where
  "iop_ok m \<longleftrightarrow> length (iop_ram m) = IOP_RAM_SIZE \<and> length (iop_scratchpad m) = SCRATCHPAD_SIZE"

definition iop_cell :: "u32 \<Rightarrow> nat option" where
  "iop_cell a = (case IopMemory_classify a of
     Inr (IopRegion_Ram offset) \<Rightarrow> Some offset
   | Inr (IopRegion_Scratchpad offset) \<Rightarrow> Some (IOP_RAM_SIZE + offset)
   | _ \<Rightarrow> None)"

definition iop_byte :: "IopMemory \<Rightarrow> nat \<Rightarrow> u8" where
  "iop_byte m k = (if k < IOP_RAM_SIZE then iop_ram m ! k else iop_scratchpad m ! (k - IOP_RAM_SIZE))"

definition iop_put :: "nat \<Rightarrow> u8 \<Rightarrow> IopMemory \<Rightarrow> IopMemory" where
  "iop_put k v m =
     (if k < IOP_RAM_SIZE then m\<lparr>iop_ram := (iop_ram m)[k := v]\<rparr>
      else m\<lparr>iop_scratchpad := (iop_scratchpad m)[k - IOP_RAM_SIZE := v]\<rparr>)"

lemma iop_cell_arith:
  "iop_cell a =
     (let p = unat a mod 2 ^ 29 in
      if \<not> direct_segment (unat a) then None
      else if kind_at p = 0 then Some (p mod IOP_RAM_SIZE)
      else if kind_at p = 1 then Some (IOP_RAM_SIZE + (p - 0x1F800000))
      else None)"
  by (simp add: iop_cell_def iop_classify_unat Let_def)

lemma kind_at_backed: "kind_at p = 0 \<longleftrightarrow> p < 0x800000"
  "kind_at p = 1 \<longleftrightarrow> 0x1F800000 \<le> p \<and> p < 0x1F800800"
  "kind_at p = Suc 0 \<longleftrightarrow> 0x1F800000 \<le> p \<and> p < 0x1F800800"
  by (auto simp: kind_at_def)

lemma iop_cell_bound: "iop_cell a = Some c \<Longrightarrow> c < IOP_RAM_SIZE + SCRATCHPAD_SIZE"
  by (auto simp: iop_cell_arith Let_def kind_at_backed IOP_RAM_SIZE_def SCRATCHPAD_SIZE_def split: if_splits)

lemma ram_offset_bound: "IopMemory_classify a = Inr (IopRegion_Ram k) \<Longrightarrow> k < IOP_RAM_SIZE"
  by (auto simp: iop_classify_unat Let_def IOP_RAM_SIZE_def split: if_splits)

lemma iop_read_u8_cell: "iop_cell a = Some c \<Longrightarrow> IopMemory_read_u8 m a = Inr (iop_byte m c)"
  by (auto simp: iop_cell_def IopMemory_read_u8_def iop_byte_def and_then_def dest: ram_offset_bound
      split: sum.splits IopRegion.splits)

lemma iop_write_u8_cell: "iop_cell a = Some c \<Longrightarrow> IopMemory_write_u8 a v m = (Inr (), iop_put c v m)"
  by (auto simp: iop_cell_def IopMemory_write_u8_def iop_put_def rs_bind_def rs_lift_def
      dest: ram_offset_bound split: sum.splits IopRegion.splits)

text \<open>Away from storage an access does not touch the memory, and the answer depends on the address
  and the policy alone.\<close>

lemma iop_write_u8_unbacked: "iop_cell a = None \<Longrightarrow> snd (IopMemory_write_u8 a v m) = m"
  by (auto simp: iop_cell_def IopMemory_write_u8_def rs_bind_def rs_lift_def
      split: sum.splits IopRegion.splits IopOpenBus.splits)

lemma iop_read_u8_unbacked:
  "iop_cell a = None \<Longrightarrow> iop_open_bus m' = iop_open_bus m \<Longrightarrow> IopMemory_read_u8 m' a = IopMemory_read_u8 m a"
  by (auto simp: iop_cell_def IopMemory_read_u8_def and_then_def split: sum.splits IopRegion.splits)

lemma iop_put_ok [simp]: "iop_ok (iop_put k v m) = iop_ok m" "iop_open_bus (iop_put k v m) = iop_open_bus m"
  by (simp_all add: iop_put_def iop_ok_def)

lemma iop_byte_put:
  "iop_ok m \<Longrightarrow> k < IOP_RAM_SIZE + SCRATCHPAD_SIZE \<Longrightarrow>
     iop_byte (iop_put k v m) c = (if c = k then v else iop_byte m c)"
  by (auto simp: iop_byte_def iop_put_def iop_ok_def nth_list_update)

section \<open>A validated access stays in its region\<close>

lemma kind_at_no_wrap:
  assumes "kind_at p = kind_at ((p + n) mod 2 ^ 29)" "p < 2 ^ 29" "n < 4"
  shows "p + n < 2 ^ 29"
proof (rule ccontr)
  assume w: "\<not> p + n < 2 ^ 29"
  then have "(p + n) mod 2 ^ 29 < 4" using assms(2,3) by (subst le_mod_geq) simp_all
  then have "kind_at ((p + n) mod 2 ^ 29) = 0" by (subst kind_at_backed) linarith
  moreover have "kind_at p \<noteq> 0" using w assms(3) by (subst kind_at_backed) simp
  ultimately show False using assms(1) by simp
qed

text \<open>Every region but the unmapped one is an interval longer than any access.\<close>

lemma kind_at_interval:
  assumes "k < 5"
  obtains lo hi where "lo + 4 \<le> hi" "\<And>q. kind_at q = k \<longleftrightarrow> lo \<le> q \<and> q < hi"
proof -
  consider "k = 0" | "k = 1" | "k = 2" | "k = 3" | "k = 4" using assms by linarith
  then show thesis
  proof cases
    case 1 show ?thesis by (rule that [of 0 "0x800000"]) (auto simp: 1 kind_at_def)
  next
    case 2 show ?thesis by (rule that [of "0x1F800000" "0x1F800800"]) (auto simp: 2 kind_at_def)
  next
    case 3 show ?thesis by (rule that [of "0x1F801000" "0x1F810000"]) (auto simp: 3 kind_at_def)
  next
    case 4 show ?thesis by (rule that [of "0x1F900000" "0x1F910000"]) (auto simp: 4 kind_at_def)
  next
    case 5 show ?thesis by (rule that [of "0x1FC00000" "0x1FC80000"]) (auto simp: 5 kind_at_def)
  qed
qed

lemma kind_at_between:
  assumes "kind_at p = kind_at ((p + n) mod 2 ^ 29)" "p < 2 ^ 29" "n < 4" "i \<le> n"
  shows "kind_at (p + i) = kind_at p"
proof -
  have both: "kind_at (p + n) = kind_at p" using assms(1) kind_at_no_wrap [OF assms(1-3)] by simp
  show ?thesis
  proof (cases "kind_at p < 5")
    case True
    then obtain lo hi where k: "\<And>q. kind_at q = kind_at p \<longleftrightarrow> lo \<le> q \<and> q < hi"
      using kind_at_interval by metis
    then show ?thesis using both assms(4) k [of p] k [of "p + n"] k [of "p + i"] by simp
  next
    case False
    show ?thesis
    proof (cases "kind_at (p + i) < 5")
      case True
      then obtain lo hi where len: "lo + 4 \<le> hi"
        and k: "\<And>q. kind_at q = kind_at (p + i) \<longleftrightarrow> lo \<le> q \<and> q < hi"
        using kind_at_interval by metis
      have "kind_at p = kind_at (p + i) \<or> kind_at (p + n) = kind_at (p + i)"
        using k [of p] k [of "p + n"] k [of "p + i"] len assms(3,4) by linarith
      then show ?thesis using both by simp
    next
      case high: False
      have "kind_at q < 5 \<or> kind_at q = 5" for q by (simp add: kind_at_def)
      then show ?thesis using False high by metis
    qed
  qed
qed

definition spanned :: "nat \<Rightarrow> u32 \<Rightarrow> bool" where
  "spanned n a \<longleftrightarrow> (\<exists>region. IopMemory_classify a = Inr region
     \<and> IopMemory_validate_span a region (word_of_nat n) = Inr ())"

lemma kind_of_region:
  "direct_segment (unat a) \<Longrightarrow>
     \<exists>region. IopMemory_classify a = Inr region \<and> region_kind region = kind_at (unat a mod 2 ^ 29)"
  by (auto simp: iop_classify_unat Let_def kind_at_def)

lemma classify_direct: "IopMemory_classify a = Inr region \<Longrightarrow> direct_segment (unat a)"
  by (auto simp: iop_classify_unat Let_def split: if_splits)

lemma spanned_kind:
  assumes s: "spanned n a" and n: "0 < n" "n \<le> 4" and i: "i < n"
  shows "unat (a + word_of_nat i) = unat a + i" "direct_segment (unat a + i)"
    "(unat a + i) mod 2 ^ 29 = unat a mod 2 ^ 29 + i"
    "kind_at (unat a mod 2 ^ 29 + i) = kind_at (unat a mod 2 ^ 29)"
proof -
  obtain region where r: "IopMemory_classify a = Inr region"
      "IopMemory_validate_span a region (word_of_nat n) = Inr ()"
    using s by (auto simp: spanned_def)
  have "unat (word_of_nat k :: u32) = k" if "k < 4" for k using that by (simp add: unat_of_nat)
  from this [of "n - 1"] have n1: "word_of_nat n - 1 = (word_of_nat (n - 1) :: u32)"
      "unat (word_of_nat (n - 1) :: u32) = n - 1"
    using n by (simp add: of_nat_diff, linarith)
  have sum: "unat a + (n - 1) < 2 ^ 32"
    and last: "\<exists>r'. IopMemory_classify (a + word_of_nat (n - 1)) = Inr r' \<and> region_kind region = region_kind r'"
    using r(2) n1 by (auto simp: IopMemory_validate_span_def and_then_def ok_or_def checked_add_def split: sum.splits if_splits option.splits)
  show u: "unat (a + word_of_nat i) = unat a + i" using sum i by (intro unat_plus_small) simp
  define p where "p = unat a mod 2 ^ 29"
  have d: "direct_segment (unat a)" using classify_direct r(1) by blast
  have un: "unat (a + word_of_nat (n - 1)) = unat a + (n - 1)" using sum by (rule unat_plus_small)
  have kinds: "kind_at p = kind_at ((p + (n - 1)) mod 2 ^ 29)"
    using last r(1) kind_of_region [OF d] kind_of_region [OF classify_direct] un
    by (metis Inr_inject p_def mod_add_left_eq)
  have p: "p < 2 ^ 29" by (simp add: p_def)
  show k: "kind_at (unat a mod 2 ^ 29 + i) = kind_at (unat a mod 2 ^ 29)"
    using kind_at_between [OF kinds p] n i by (simp add: p_def)
  have "p + (n - 1) < 2 ^ 29" using kind_at_no_wrap [OF kinds p] n by simp
  then have "p + i < 2 ^ 29" using i by simp
  then show "(unat a + i) mod 2 ^ 29 = unat a mod 2 ^ 29 + i" and "direct_segment (unat a + i)"
    using seg_small [of "unat a" i] d by (simp_all add: p_def direct_segment_def)
qed

text \<open>
  Every byte of a validated access is decoded like the first: consecutive storage, or none.
\<close>

lemma spanned_cells:
  assumes s: "spanned n a" and n: "0 < n" "n \<le> 4" and i: "i < n"
  shows "iop_cell (a + word_of_nat i) = map_option (\<lambda>c. c + i) (iop_cell a)"
proof -
  note k = spanned_kind [OF s n]
  define p where "p = unat a mod 2 ^ 29"
  have d: "direct_segment (unat a)" using s classify_direct by (auto simp: spanned_def)
  have mod_ram: "(p + i) mod IOP_RAM_SIZE = p mod IOP_RAM_SIZE + i" if "kind_at p = 0"
  proof -
    let ?first = "p mod IOP_RAM_SIZE" and ?last = "(p + (n - 1)) mod IOP_RAM_SIZE"
    obtain region where r: "IopMemory_classify a = Inr region"
        "IopMemory_validate_span a region (word_of_nat n) = Inr ()"
      using s by (auto simp: spanned_def)
    have first: "region = IopRegion_Ram ?first"
      using r(1) d that by (simp add: iop_classify_unat Let_def p_def)
    have "word_of_nat n - 1 = (word_of_nat (n - 1) :: u32)" using n by (simp add: of_nat_diff)
    moreover have "IopMemory_classify (a + word_of_nat (n - 1)) = Inr (IopRegion_Ram ?last)"
      using k [of "n - 1"] n that by (simp add: iop_classify_unat Let_def p_def)
    ultimately have "?first \<le> ?last"
      using r(2) first
      by (auto simp: IopMemory_validate_span_def and_then_def ok_or_def checked_add_def split: if_splits)
    have "?first + (n - 1) < IOP_RAM_SIZE"
    proof (rule ccontr)
      assume w: "\<not> ?first + (n - 1) < IOP_RAM_SIZE"
      have f: "?first < IOP_RAM_SIZE" by (simp add: IOP_RAM_SIZE_def)
      have "?last = (?first + (n - 1)) mod IOP_RAM_SIZE" by (simp add: mod_add_left_eq)
      also have "\<dots> = ?first + (n - 1) - IOP_RAM_SIZE"
        using w f n by (subst le_mod_geq) (simp_all add: IOP_RAM_SIZE_def)
      also have "\<dots> < ?first" using w f n unfolding IOP_RAM_SIZE_def by linarith
      finally show False using \<open>?first \<le> ?last\<close> by simp
    qed
    then have "?first + i < IOP_RAM_SIZE" using i by simp
    then show ?thesis by (metis mod_add_left_eq mod_less)
  qed
  have "unat (a + word_of_nat i) mod 2 ^ 29 = p + i" using k [OF i] by (simp add: p_def)
  moreover have "kind_at (p + i) = kind_at p" using k [OF i] by (simp add: p_def)
  moreover have "direct_segment (unat (a + word_of_nat i))" using k [OF i] by simp
  ultimately show ?thesis
    using d mod_ram kind_at_backed(2) [of p] unfolding iop_cell_arith Let_def p_def [symmetric]
    by (auto simp del: One_nat_def)
qed

section \<open>Halfwords and words\<close>

definition iop_word :: "IopMemory \<Rightarrow> u32 \<Rightarrow> u32" where
  "iop_word m a =
     (let byte = (\<lambda>i. iop_byte m (the (iop_cell (a + of_nat i))))
      in u32_from_le_bytes (byte 0) (byte 1) (byte 2) (byte 3))"

lemma of_nat_offsets: "(word_of_nat 0 :: u32) = 0" "(word_of_nat 1 :: u32) = 1"
  "(word_of_nat 2 :: u32) = 2" "(word_of_nat 3 :: u32) = 3"
  by simp_all

lemma iop_read_u32_word:
  assumes s: "spanned 4 a" and c: "iop_cell a \<noteq> None"
  shows "IopMemory_read_u32 m a = Inr (iop_word m a)"
proof -
  obtain region where r: "IopMemory_classify a = Inr region" "IopMemory_validate_span a region 4 = Inr ()"
    using s by (auto simp: spanned_def)
  have "\<exists>c. iop_cell (a + word_of_nat i) = Some c" if "i < 4" for i
    using spanned_cells [OF s _ _ that] c by auto
  from this [of 0] this [of 1] this [of 2] this [of 3]
  obtain c0 c1 c2 c3 where cells: "iop_cell a = Some c0" "iop_cell (a + 1) = Some c1"
      "iop_cell (a + 2) = Some c2" "iop_cell (a + 3) = Some c3"
    by auto
  then show ?thesis
    by (simp add: IopMemory_read_u32_def r and_then_def iop_read_u8_cell iop_word_def Let_def)
qed

definition iop_put4 :: "nat \<Rightarrow> u32 \<Rightarrow> IopMemory \<Rightarrow> IopMemory" where
  "iop_put4 c w m = iop_put (c + 3) (byte_of 3 w) (iop_put (c + 2) (byte_of 2 w)
     (iop_put (c + 1) (byte_of 1 w) (iop_put c (byte_of 0 w) m)))"

lemma iop_write_u32_put:
  assumes s: "spanned 4 a" and c: "iop_cell a = Some c"
  shows "IopMemory_write_u32 a w m = (Inr (), iop_put4 c w m)"
proof -
  obtain region where r: "IopMemory_classify a = Inr region" "IopMemory_validate_span a region 4 = Inr ()"
    using s by (auto simp: spanned_def)
  have "iop_cell (a + word_of_nat i) = Some (c + i)" if "i < 4" for i
    using spanned_cells [OF s _ _ that] c by auto
  from this [of 1] this [of 2] this [of 3]
  show ?thesis
    by (simp add: IopMemory_write_u32_def r rs_bind_def rs_then_def rs_lift_def rs_return_def
        iop_write_u8_cell c iop_put4_def)
qed

lemma iop_put4_bytes:
  assumes m: "iop_ok m" and c: "c + 3 < IOP_RAM_SIZE + SCRATCHPAD_SIZE"
  shows "iop_ok (iop_put4 c w m)" "iop_open_bus (iop_put4 c w m) = iop_open_bus m"
    and "i < 4 \<Longrightarrow> iop_byte (iop_put4 c w m) (c + i) = byte_of i w"
    and "\<forall>i < 4. d \<noteq> c + i \<Longrightarrow> iop_byte (iop_put4 c w m) d = iop_byte m d"
proof -
  show "iop_ok (iop_put4 c w m)" "iop_open_bus (iop_put4 c w m) = iop_open_bus m"
    using m by (simp_all add: iop_put4_def)
  have b: "iop_byte (iop_put4 c w m) d =
      (if d = c + 3 then byte_of 3 w else if d = c + 2 then byte_of 2 w
       else if d = c + 1 then byte_of 1 w else if d = c then byte_of 0 w else iop_byte m d)" for d
    using m c by (simp add: iop_put4_def iop_byte_put)
  show "iop_byte (iop_put4 c w m) (c + i) = byte_of i w" if "i < 4"
  proof -
    from that have "i = 0 \<or> i = 1 \<or> i = 2 \<or> i = 3" by auto
    then show ?thesis using b by auto
  qed
  show "iop_byte (iop_put4 c w m) d = iop_byte m d" if "\<forall>i < 4. d \<noteq> c + i"
    using that [rule_format, of 0] that [rule_format, of 1] that [rule_format, of 2] that [rule_format, of 3] b
    by simp
qed

lemma spanned_bound:
  "spanned 4 a \<Longrightarrow> iop_cell a = Some c \<Longrightarrow> c + 3 < IOP_RAM_SIZE + SCRATCHPAD_SIZE"
  using spanned_cells [of 4 a 3] iop_cell_bound [of "a + word_of_nat 3" "c + 3"] by simp

text \<open>A word write that does not reach storage leaves the memory as it was.\<close>

lemma iop_write_u32_unbacked:
  assumes "spanned 4 a" "iop_cell a = None"
  shows "snd (IopMemory_write_u32 a w m) = m"
proof -
  have cells: "iop_cell (a + word_of_nat i) = None" if "i < 4" for i
    using spanned_cells [OF assms(1) _ _ that] assms(2) by simp
  have step: "snd (IopMemory_write_u8 (a + word_of_nat i) v m) = m" if "i < 4" for i v
    using iop_write_u8_unbacked cells [OF that] by blast
  have "snd (iop_write_bytes a (zip (map word_of_nat is) vs) m) = m" if "set is \<subseteq> {..<4}" for "is" vs
    using that
  proof (induction "is" arbitrary: vs)
    case (Cons i js)
    show ?case
    proof (cases vs)
      case vs: (Cons v ws)
      have "snd (IopMemory_write_u8 (a + word_of_nat i) v m) = m" using step Cons.prems by simp
      then show ?thesis using Cons.IH [of ws] Cons.prems
        by (cases "IopMemory_write_u8 (a + word_of_nat i) v m")
          (auto simp: vs rs_then_def rs_bind_def split: sum.split)
    qed (simp add: rs_return_def)
  qed (simp add: rs_return_def)
  from this [of "[0, 1, 2, 3]"] show ?thesis
    by (auto simp: IopMemory_write_u32_def rs_bind_def rs_then_def rs_lift_def simp del: zip_Cons_Cons iop_write_bytes.simps split: sum.split)
qed

section \<open>Aligned words\<close>

lemma aligned_spanned:
  assumes al: "a AND 3 = 0" and c: "iop_cell a = Some c"
  shows "spanned 4 a" and "c mod 4 = 0"
proof -
  define p where "p = unat a mod 2 ^ 29"
  have "unat a mod 4 = 0" using al unat_and3 [of a] by simp
  then have "p mod 4 = 0" by (simp add: p_def mod_mod_cancel)
  then obtain q where q: "p = 4 * q" by (auto simp: mod_eq_0_iff_dvd dvd_def)
  have d: "direct_segment (unat a)" and mem: "p < 0x800000 \<or> 0x1F800000 \<le> p \<and> p < 0x1F800800"
    and cp: "c = (if p < 0x800000 then p mod IOP_RAM_SIZE else IOP_RAM_SIZE + (p - 0x1F800000))"
    using c by (auto simp: iop_cell_arith Let_def kind_at_backed p_def split: if_splits)
  show "c mod 4 = 0" using q by (auto simp: cp IOP_RAM_SIZE_def mod_mod_cancel)
  have k: "kind_at p = kind_at (p + 3)" "kind_at p = 0 \<or> kind_at p = 1"
    using mem q by (auto simp: kind_at_def)
  have p3: "p + 3 < 2 ^ 29" using mem by auto
  then have s: "(unat a + 3) mod 2 ^ 29 = p + 3" "direct_segment (unat a + 3)"
    using seg_small [of "unat a" 3] d by (simp_all add: p_def direct_segment_def)
  have "unat a = unat a div 2 ^ 29 * 2 ^ 29 + p" by (simp add: p_def)
  also have "\<dots> \<le> 5 * 2 ^ 29 + p" using d by (auto simp: direct_segment_def)
  finally have l: "unat a + 3 < 2 ^ 32" using p3 by simp
  have u: "unat (a + 3) = unat a + 3" using unat_plus_small [of a 3] l by simp
  have r: "p mod IOP_RAM_SIZE \<le> (p + 3) mod IOP_RAM_SIZE"
  proof -
    have "p mod IOP_RAM_SIZE < IOP_RAM_SIZE" by (simp add: IOP_RAM_SIZE_def)
    moreover have "p mod IOP_RAM_SIZE mod 4 = 0" using q by (simp add: IOP_RAM_SIZE_def mod_mod_cancel)
    then obtain t where "p mod IOP_RAM_SIZE = 4 * t" by (auto simp: mod_eq_0_iff_dvd dvd_def)
    moreover have "IOP_RAM_SIZE = 4 * 524288" by (simp add: IOP_RAM_SIZE_def)
    moreover from calculation have "t < 524288" by linarith
    ultimately have "p mod IOP_RAM_SIZE + 3 < IOP_RAM_SIZE" by linarith
    then show ?thesis by (metis mod_add_left_eq mod_less le_add1)
  qed
  have pa: "unat a mod 2 ^ 29 = p" "unat (a + 3) mod 2 ^ 29 = p + 3" "direct_segment (unat (a + 3))"
    using s u by (simp_all add: p_def)
  note classes = iop_classify_unat [of a, unfolded Let_def pa] iop_classify_unat [of "a + 3", unfolded Let_def pa]
  consider "kind_at p = 0" "kind_at (p + 3) = 0" | "kind_at p = 1" "kind_at (p + 3) = 1" using k by auto
  then have "\<exists>region region'. IopMemory_classify a = Inr region \<and> IopMemory_classify (a + 3) = Inr region' \<and>
    (region = IopRegion_Ram (p mod IOP_RAM_SIZE) \<and> region' = IopRegion_Ram ((p + 3) mod IOP_RAM_SIZE)
      \<or> region = IopRegion_Scratchpad (p - 0x1F800000) \<and> region' = IopRegion_Scratchpad (p + 3 - 0x1F800000))"
    by cases (simp_all add: classes d pa(3))
  then show "spanned 4 a"
    using l r by (auto simp: spanned_def IopMemory_validate_span_def and_then_def ok_or_def checked_add_def)
qed

lemma iop_words_apart:
  assumes "a AND 3 = 0" "k AND 3 = 0" "iop_cell a = Some c" "iop_cell k = Some d" "c \<noteq> d" "i < 4" "j < 4"
  shows "c + i \<noteq> d + j"
proof -
  have "c mod 4 = 0" "d mod 4 = 0" using aligned_spanned(2) assms by blast+
  then show ?thesis using assms(5-7) by presburger
qed

lemma iop_word_cells:
  assumes "spanned 4 a" "iop_cell a = Some c"
  shows "iop_word m a = u32_from_le_bytes (iop_byte m c) (iop_byte m (c + 1)) (iop_byte m (c + 2)) (iop_byte m (c + 3))"
  using spanned_cells [OF assms(1), of 1] spanned_cells [OF assms(1), of 2] spanned_cells [OF assms(1), of 3] assms(2)
  by (simp add: iop_word_def Let_def)

lemma iop_word_put4:
  assumes "iop_ok m" "spanned 4 a" "iop_cell a = Some c"
  shows "iop_word (iop_put4 c w m) a = w"
proof -
  note b = iop_put4_bytes(3) [OF assms(1) spanned_bound [OF assms(2,3)], of _ w]
  show ?thesis
    using b [of 0] b [of 1] b [of 2] b [of 3] u32_le_roundtrip [of w] by (simp add: iop_word_cells [OF assms(2,3)])
qed

text \<open>
  The memory as the interpreter's bus: its errors are bus faults (their text is the parameter
  \<open>message\<close>), the interrupt line is the IOP interrupt controller's.
\<close>

definition iop_fault :: "(IopMemoryError \<Rightarrow> string) \<Rightarrow> IopMemoryError + 'v \<Rightarrow> BusFault + 'v" where
  "iop_fault message = map_err (\<lambda>e. BusFault (message e))"

definition iop_bus :: "(IopMemoryError \<Rightarrow> string) \<Rightarrow> (IopMemory \<times> Irq2Controller) Bus" where
  "iop_bus message =
     (let written = (\<lambda>irq r. (iop_fault message (fst r), (snd r, irq)))
      in \<lparr>Bus_read_u8 = (\<lambda>b a. (iop_fault message (IopMemory_read_u8 (fst b) a), b)),
          Bus_read_u16 = (\<lambda>b a. (iop_fault message (IopMemory_read_u16 (fst b) a), b)),
          Bus_read_u32 = (\<lambda>b a. (iop_fault message (IopMemory_read_u32 (fst b) a), b)),
          Bus_write_u8 = (\<lambda>b a v. written (snd b) (IopMemory_write_u8 a v (fst b))),
          Bus_write_u16 = (\<lambda>b a v. written (snd b) (IopMemory_write_u16 a v (fst b))),
          Bus_write_u32 = (\<lambda>b a v. written (snd b) (IopMemory_write_u32 a v (fst b))),
          Bus_interrupt_pending = (\<lambda>b. Irq2_pending (snd b))\<rparr>)"

interpretation iop_words: word_bus "iop_bus message" "\<lambda>b. iop_ok (fst b)" "\<lambda>a. iop_cell a \<noteq> None"
    "\<lambda>a. the (iop_cell a)" "\<lambda>b. iop_word (fst b)"
  for message
proof unfold_locales
  fix b :: "IopMemory \<times> Irq2Controller" and a
  assume b: "iop_ok (fst b)" and a: "iop_cell a \<noteq> None" "a AND 3 = 0"
  then obtain c where c: "iop_cell a = Some c" by blast
  note s = aligned_spanned(1) [OF a(2) c]
  show "Bus_read_u32 (iop_bus message) b a = (Inr (iop_word (fst b) a), b)"
    using iop_read_u32_word [OF s a(1)] by (simp add: iop_bus_def Let_def iop_fault_def map_err_def)
  fix w
  let ?m = "iop_put4 c w (fst b)"
  note put = iop_put4_bytes [OF b spanned_bound [OF s c], where w = w]
  have "iop_word ?m k = (if the (iop_cell k) = the (iop_cell a) then w else iop_word (fst b) k)"
    if k: "iop_cell k \<noteq> None" "k AND 3 = 0" for k
  proof -
    obtain d where d: "iop_cell k = Some d" using k by blast
    note sk = aligned_spanned(1) [OF k(2) d]
    show ?thesis
    proof (cases "d = c")
      case True
      then show ?thesis using iop_word_put4 [OF b sk] c d by simp
    next
      case False
      have "iop_byte ?m (d + j) = iop_byte (fst b) (d + j)" if "j < 4" for j
        using put(4) iop_words_apart [OF k(2) a(2) d c False that] by simp
      from this [of 0] this [of 1] this [of 2] this [of 3]
      show ?thesis using False c d by (simp add: iop_word_cells [OF sk d])
    qed
  qed
  then show "\<exists>b'. Bus_write_u32 (iop_bus message) b a w = (Inr (), b') \<and> iop_ok (fst b') \<and>
      (\<forall>k. iop_cell k \<noteq> None \<longrightarrow> k AND 3 = 0 \<longrightarrow> iop_word (fst b') k =
        (if the (iop_cell k) = the (iop_cell a) then w else iop_word (fst b) k))"
    using put(1) iop_write_u32_put [OF s c, of w "fst b"]
    by (simp add: iop_bus_def Let_def iop_fault_def map_err_def)
next
  fix a
  assume a: "iop_cell a \<noteq> None" "iop_cell (a + 4) \<noteq> None" "a AND 3 = 0"
  define p q where "p = unat a mod 2 ^ 29" and "q = unat (a + 4) mod 2 ^ 29"
  have "unat (a + 4) = (unat a + 4) mod 2 ^ 32" by (simp add: unat_word_ariths)
  then have "q = (p + 4) mod 2 ^ 29" by (simp add: q_def p_def mod_mod_cancel mod_simps)
  moreover have pc: "p < 0x800000 \<and> iop_cell a = Some (p mod IOP_RAM_SIZE) \<or>
     0x1F800000 \<le> p \<and> p < 0x1F800800 \<and> iop_cell a = Some (IOP_RAM_SIZE + (p - 0x1F800000))"
    using a(1) by (auto simp: iop_cell_arith Let_def kind_at_backed p_def split: if_splits)
  ultimately have q: "q = p + 4" by auto
  have qc: "q < 0x800000 \<and> iop_cell (a + 4) = Some (q mod IOP_RAM_SIZE) \<or>
     0x1F800000 \<le> q \<and> q < 0x1F800800 \<and> iop_cell (a + 4) = Some (IOP_RAM_SIZE + (q - 0x1F800000))"
    using a(2) by (auto simp: iop_cell_arith Let_def kind_at_backed q_def split: if_splits)
  have "(p + 4) mod IOP_RAM_SIZE \<noteq> p mod IOP_RAM_SIZE"
  proof
    assume "(p + 4) mod IOP_RAM_SIZE = p mod IOP_RAM_SIZE"
    then have "IOP_RAM_SIZE dvd p + 4 - p" by (metis mod_eq_dvd_iff_nat le_add1)
    then show False by (auto dest!: dvd_imp_le simp: IOP_RAM_SIZE_def)
  qed
  moreover have "p mod IOP_RAM_SIZE < IOP_RAM_SIZE" "q mod IOP_RAM_SIZE < IOP_RAM_SIZE"
    by (simp_all add: IOP_RAM_SIZE_def)
  ultimately show "the (iop_cell (a + 4)) \<noteq> the (iop_cell a)" using pc qc q by auto
qed

section \<open>Properties\<close>

text \<open>
  C19. A word write to IOP memory is all or nothing, wherever it points: when it fails the memory is
  unchanged; when it succeeds the word reads back if the address has storage, every address that
  names one of its four cells through any segment or mirror reads the stored byte, and every
  other address reads what it read before.
\<close>
theorem iop_store_word_atomic:
  assumes m: "iop_ok m"
  shows "case IopMemory_write_u32 a w m of
      (Inl _, m') \<Rightarrow> m' = m
    | (Inr _, m') \<Rightarrow>
        iop_ok m' \<and> (iop_cell a \<noteq> None \<longrightarrow> IopMemory_read_u32 m' a = Inr w)
        \<and> (\<forall>i < 4. \<forall>x. iop_cell x \<noteq> None \<and> iop_cell x = iop_cell (a + word_of_nat i) \<longrightarrow>
             IopMemory_read_u8 m' x = Inr (byte_of i w))
        \<and> (\<forall>x. (\<forall>i < 4. iop_cell x = None \<or> iop_cell x \<noteq> iop_cell (a + word_of_nat i)) \<longrightarrow>
             IopMemory_read_u8 m' x = IopMemory_read_u8 m x)"
proof (cases "spanned 4 a")
  case False
  then have "\<exists>e. IopMemory_write_u32 a w m = (Inl e, m)"
    by (cases "IopMemory_classify a"; cases "IopMemory_validate_span a (projr (IopMemory_classify a)) 4")
      (auto simp: spanned_def IopMemory_write_u32_def rs_bind_def rs_then_def rs_lift_def)
  then show ?thesis by auto
next
  case s: True
  note cells = spanned_cells [OF s]
  show ?thesis
  proof (cases "iop_cell a")
    case None
    then have "snd (IopMemory_write_u32 a w m) = m" using iop_write_u32_unbacked [OF s] by blast
    then show ?thesis using None cells m by (cases "IopMemory_write_u32 a w m") (auto split: sum.split)
  next
    case c: (Some c)
    let ?m = "iop_put4 c w m"
    note put = iop_put4_bytes [OF m spanned_bound [OF s c], where w = w]
    have "IopMemory_read_u32 ?m a = Inr w"
      using iop_read_u32_word [OF s, of ?m] iop_word_put4 [OF m s c] c by simp
    moreover have "IopMemory_read_u8 ?m x = Inr (byte_of i w)"
      if "i < 4" "iop_cell x = iop_cell (a + word_of_nat i)" for i x
      using that cells [of i] c put(3) by (simp add: iop_read_u8_cell)
    moreover have "IopMemory_read_u8 ?m x = IopMemory_read_u8 m x"
      if other: "\<forall>i < 4. iop_cell x = None \<or> iop_cell x \<noteq> iop_cell (a + word_of_nat i)" for x
    proof (cases "iop_cell x")
      case None
      then show ?thesis using put(2) by (rule iop_read_u8_unbacked)
    next
      case (Some d)
      then have "\<forall>i < 4. d \<noteq> c + i" using other cells c by auto
      then show ?thesis using put(4) Some by (simp add: iop_read_u8_cell)
    qed
    ultimately show ?thesis using iop_write_u32_put [OF s c] put(1) by auto
  qed
qed

lemma iop_new_ok: "iop_ok (IopMemory_new policy)"
  by (simp add: iop_ok_def IopMemory_new_def)

text \<open>The last RAM word through the uncached segment, read through a mirror.\<close>

lemma iop_store_word_atomic_witness:
  "\<exists>m'. IopMemory_write_u32 0xA01FFFFC 0x11223344 (IopMemory_new IopOpenBus_Strict) = (Inr (), m')
     \<and> IopMemory_read_u8 m' 0x203FFFFF = Inr 0x11"
proof -
  have c: "iop_cell 0xA01FFFFC = Some 0x1FFFFC" "iop_cell 0x203FFFFF = Some 0x1FFFFF"
    "iop_cell (0xA01FFFFC + word_of_nat 3) = Some 0x1FFFFF"
    by (simp_all add: iop_cell_arith Let_def direct_segment_def kind_at_def IOP_RAM_SIZE_def)
  have s: "spanned 4 0xA01FFFFC" by (rule aligned_spanned(1) [OF _ c(1)]) simp
  have "byte_of 3 (0x11223344 :: u32) = 0x11" by (simp add: byte_of_def drop_bit_eq_div)
  then show ?thesis
    using iop_store_word_atomic [OF iop_new_ok [of IopOpenBus_Strict], of "0xA01FFFFC" "0x11223344"]
      iop_write_u32_put [OF s c(1), of "0x11223344" "IopMemory_new IopOpenBus_Strict"] c
    by (auto dest: spec [of _ "3 :: nat"])
qed

lemma iop_unaligned_roundtrip:
  assumes "iop_ok (fst b)" and "iop_cell (a AND NOT 3) \<noteq> None"
    and "iop_cell ((a + 3) AND NOT 3) \<noteq> None"
  shows "\<exists>e b'. unaligned_store (iop_bus message) pc v a c b = (Inr e, b') \<and> x_exception e = None \<and>
    unaligned_load (iop_bus message) pc' rt a c' b' = (Inr (Execution_load rt v Execution_default), b')"
  using iop_words.unaligned_roundtrip [where message = message, OF assms] by metis

end
