(* ===== verification/Spu_Envelope.thy ===== *)
theory Spu_Envelope
  imports Upse_Prelude
begin

text \<open>
  The ADSR envelope of \<open>crates/hw/shared/spu-common/src/adsr.rs\<close>: rate fields, decoding of the
  two registers, and the envelope stepped by clocks.

  Levels, shifts and clock counts are natural numbers, steps and deltas integers. The product in
  \<open>EnvelopeRate::delta\<close> is an \<open>i32\<close> multiplication of the source; \<open>wrap_i32\<close> writes its
  wrap-around out, and \<open>delta_exact\<close> shows that it never wraps for a configuration decoded from
  registers. The loop of \<open>Envelope::advance\<close> consumes at least one clock per iteration.
\<close>

section \<open>Rates\<close>

record EnvelopeRate =
  rate_shift :: nat
  rate_step :: i8

definition EnvelopeRate_new :: "nat \<Rightarrow> i8 \<Rightarrow> EnvelopeRate" where
  "EnvelopeRate_new shift step =
     \<lparr>rate_shift = (if shift > 31 then 31 else shift), rate_step = step\<rparr>"

definition EnvelopeRate_interval :: "EnvelopeRate \<Rightarrow> nat \<Rightarrow> bool \<Rightarrow> u64" where
  "EnvelopeRate_interval r level exponential_increase =
     (let shift = rate_shift r;
          interval = (if shift > 11 then 2 ^ ((shift - 11) mod 64) else 1)
      in if exponential_increase \<and> level > 0x6000 then min (interval * 4) (2 ^ 64 - 1)
         else interval)"

definition wrap_i32 :: "int \<Rightarrow> i32" where
  "wrap_i32 x = sint (word_of_int x :: u32)"

definition EnvelopeRate_delta :: "EnvelopeRate \<Rightarrow> nat \<Rightarrow> bool \<Rightarrow> i32" where
  "EnvelopeRate_delta r level exponential_decrease =
     (let shift = rate_shift r;
          delta = rate_step r;
          delta = (if shift < 11 then saturate 32 (delta * 2 ^ (11 - shift)) else delta)
      in if exponential_decrease then
           (let delta = drop_bit 15 (wrap_i32 (delta * int level))
            in if delta = 0 \<and> level \<noteq> 0 \<and> rate_step r < 0 then - 1 else delta)
         else delta)"

section \<open>Configuration\<close>

datatype EnvelopePhase =
    EnvelopePhase_Off | EnvelopePhase_Attack | EnvelopePhase_Decay | EnvelopePhase_Sustain
  | EnvelopePhase_Release

record EnvelopeConfig =
  config_attack :: EnvelopeRate
  config_attack_exponential :: bool
  config_decay :: EnvelopeRate
  config_sustain_level :: nat
  config_sustain :: EnvelopeRate
  config_sustain_decrease :: bool
  config_sustain_exponential :: bool
  config_release :: EnvelopeRate
  config_release_exponential :: bool

definition EnvelopeConfig_from_registers :: "u16 \<Rightarrow> u16 \<Rightarrow> EnvelopeConfig" where
  "EnvelopeConfig_from_registers low high =
     (let attack_index = uint (byte_of 1 low AND 3);
          attack_step = 7 - attack_index;
          sustain_decrease = bit high 14;
          sustain_index = uint (drop_bit 6 (byte_of 0 high) AND 3);
          sustain_step = (if sustain_decrease then - 8 + sustain_index else 7 - sustain_index);
          sustain_level = min (min ((unat (low AND 0x0f) + 1) * 0x0800) 0xffff) 0x7fff
      in \<lparr>config_attack =
            EnvelopeRate_new (unat (drop_bit 2 (byte_of 1 low) AND 0x1f)) attack_step,
          config_attack_exponential = bit low 15,
          config_decay = EnvelopeRate_new (unat (drop_bit 4 (byte_of 0 low) AND 0x0f)) (- 8),
          config_sustain_level = sustain_level,
          config_sustain = EnvelopeRate_new (unat (byte_of 1 high AND 0x1f)) sustain_step,
          config_sustain_decrease = sustain_decrease,
          config_sustain_exponential = bit high 15,
          config_release = EnvelopeRate_new (unat (byte_of 0 high AND 0x1f)) (- 8),
          config_release_exponential = bit high 5\<rparr>)"

section \<open>The envelope\<close>

record Envelope =
  env_level :: nat
  env_phase :: EnvelopePhase
  env_clocks_until_step :: u64

definition Envelope_new :: Envelope where
  "Envelope_new = \<lparr>env_level = 0, env_phase = EnvelopePhase_Off, env_clocks_until_step = 0\<rparr>"

definition Envelope_key_on :: "Envelope \<Rightarrow> Envelope" where
  "Envelope_key_on e =
     e\<lparr>env_level := 0, env_phase := EnvelopePhase_Attack, env_clocks_until_step := 0\<rparr>"

definition Envelope_key_off :: "Envelope \<Rightarrow> Envelope" where
  "Envelope_key_off e =
     (if env_phase e \<noteq> EnvelopePhase_Off
      then e\<lparr>env_phase := EnvelopePhase_Release, env_clocks_until_step := 0\<rparr> else e)"

definition Envelope_current_interval :: "EnvelopeConfig \<Rightarrow> Envelope \<Rightarrow> u64" where
  "Envelope_current_interval config e =
     (case env_phase e of
        EnvelopePhase_Attack \<Rightarrow>
          EnvelopeRate_interval (config_attack config) (env_level e) (config_attack_exponential config)
      | EnvelopePhase_Decay \<Rightarrow> EnvelopeRate_interval (config_decay config) (env_level e) False
      | EnvelopePhase_Sustain \<Rightarrow>
          EnvelopeRate_interval (config_sustain config) (env_level e)
            (config_sustain_exponential config \<and> \<not> config_sustain_decrease config)
      | EnvelopePhase_Release \<Rightarrow> EnvelopeRate_interval (config_release config) (env_level e) False
      | EnvelopePhase_Off \<Rightarrow> 1)"

definition Envelope_delta :: "EnvelopeConfig \<Rightarrow> Envelope \<Rightarrow> i32" where
  "Envelope_delta config e =
     (case env_phase e of
        EnvelopePhase_Attack \<Rightarrow> EnvelopeRate_delta (config_attack config) (env_level e) False
      | EnvelopePhase_Decay \<Rightarrow> EnvelopeRate_delta (config_decay config) (env_level e) True
      | EnvelopePhase_Sustain \<Rightarrow>
          EnvelopeRate_delta (config_sustain config) (env_level e)
            (config_sustain_exponential config \<and> config_sustain_decrease config)
      | EnvelopePhase_Release \<Rightarrow>
          EnvelopeRate_delta (config_release config) (env_level e) (config_release_exponential config)
      | EnvelopePhase_Off \<Rightarrow> 0)"

definition Envelope_apply_step :: "EnvelopeConfig \<Rightarrow> Envelope \<Rightarrow> Envelope" where
  "Envelope_apply_step config e =
     (let target = max 0 (min 0x7fff (saturate 32 (int (env_level e) + Envelope_delta config e)));
          e = e\<lparr>env_level := nat target\<rparr>
      in case env_phase e of
           EnvelopePhase_Attack \<Rightarrow>
             (if env_level e = 0x7fff then e\<lparr>env_phase := EnvelopePhase_Decay\<rparr> else e)
         | EnvelopePhase_Decay \<Rightarrow>
             (if env_level e \<le> config_sustain_level config
              then e\<lparr>env_phase := EnvelopePhase_Sustain\<rparr> else e)
         | EnvelopePhase_Release \<Rightarrow>
             (if env_level e = 0 then e\<lparr>env_phase := EnvelopePhase_Off\<rparr> else e)
         | _ \<Rightarrow> e)"

text \<open>Reload of the countdown, then one iteration of the loop body for \<open>elapsed\<close> clocks.\<close>

definition Envelope_reload :: "EnvelopeConfig \<Rightarrow> Envelope \<Rightarrow> Envelope" where
  "Envelope_reload config e =
     (if env_clocks_until_step e = 0
      then e\<lparr>env_clocks_until_step := Envelope_current_interval config e\<rparr> else e)"

definition Envelope_elapse :: "EnvelopeConfig \<Rightarrow> u64 \<Rightarrow> Envelope \<Rightarrow> Envelope" where
  "Envelope_elapse config elapsed e =
     (let e = e\<lparr>env_clocks_until_step := env_clocks_until_step e - elapsed\<rparr>
      in if env_clocks_until_step e = 0 then Envelope_apply_step config e else e)"

lemma interval_pos: "0 < EnvelopeRate_interval r level x"
  by (simp add: EnvelopeRate_interval_def Let_def)

lemma current_interval_pos: "0 < Envelope_current_interval config e"
  by (simp add: Envelope_current_interval_def interval_pos split: EnvelopePhase.split)

lemma reload_pos: "0 < env_clocks_until_step (Envelope_reload config e)"
  by (simp add: Envelope_reload_def current_interval_pos)

function Envelope_advance :: "EnvelopeConfig \<Rightarrow> u64 \<Rightarrow> Envelope \<Rightarrow> Envelope" where
  "Envelope_advance config clocks e =
     (if clocks \<noteq> 0 \<and> env_phase e \<noteq> EnvelopePhase_Off then
        (let e = Envelope_reload config e;
             elapsed = min clocks (env_clocks_until_step e)
         in Envelope_advance config (clocks - elapsed) (Envelope_elapse config elapsed e))
      else e)"
  by pat_completeness auto
termination
  by (relation "measure (\<lambda>(_, clocks, _). clocks)") (auto simp: reload_pos)

declare Envelope_advance.simps [simp del]

section \<open>Chunks\<close>

lemma advance_zero: "Envelope_advance config 0 e = e"
  by (subst Envelope_advance.simps) simp

lemma advance_off: "env_phase e = EnvelopePhase_Off \<Longrightarrow> Envelope_advance config n e = e"
  by (subst Envelope_advance.simps) simp

lemma advance_step:
  "0 < n \<Longrightarrow> env_phase e \<noteq> EnvelopePhase_Off \<Longrightarrow>
   Envelope_advance config n e =
     (let e' = Envelope_reload config e; k = min n (env_clocks_until_step e')
      in Envelope_advance config (n - k) (Envelope_elapse config k e'))"
  by (subst Envelope_advance.simps) (simp add: Let_def)

lemma elapse_partial:
  "k < env_clocks_until_step e \<Longrightarrow>
   Envelope_elapse config k e = e\<lparr>env_clocks_until_step := env_clocks_until_step e - k\<rparr>"
  by (simp add: Envelope_elapse_def Let_def)

lemma elapse_elapse:
  "k < env_clocks_until_step e \<Longrightarrow>
   Envelope_elapse config j (Envelope_elapse config k e) = Envelope_elapse config (k + j) e"
  by (simp add: elapse_partial) (simp add: Envelope_elapse_def Let_def)

lemma reload_idem: "0 < env_clocks_until_step e \<Longrightarrow> Envelope_reload config e = e"
  by (simp add: Envelope_reload_def)

lemma reload_phase [simp]: "env_phase (Envelope_reload config e) = env_phase e"
  by (simp add: Envelope_reload_def)

lemma advance_add:
  "Envelope_advance config (a + b) e = Envelope_advance config b (Envelope_advance config a e)"
proof (induction config a e rule: Envelope_advance.induct)
  case (1 config a e)
  show ?case
  proof (cases "a \<noteq> 0 \<and> env_phase e \<noteq> EnvelopePhase_Off")
    case False
    then show ?thesis by (auto simp: advance_zero advance_off)
  next
    case True
    let ?e = "Envelope_reload config e"
    let ?c = "env_clocks_until_step ?e"
    show ?thesis
    proof (cases "?c \<le> a")
      case le: True
      then have k: "min a ?c = ?c" "min (a + b) ?c = ?c" "a + b - ?c = (a - ?c) + b" by simp_all
      have "Envelope_advance config ((a - ?c) + b) (Envelope_elapse config ?c ?e) =
          Envelope_advance config b (Envelope_advance config (a - ?c) (Envelope_elapse config ?c ?e))"
        using "1.IH" [OF True refl refl] by (simp only: k)
      then show ?thesis using True by (simp add: advance_step Let_def k)
    next
      case lt: False
      let ?m = "Envelope_elapse config a ?e"
      have m: "?m = ?e\<lparr>env_clocks_until_step := ?c - a\<rparr>" using lt by (simp add: elapse_partial)
      have a: "Envelope_advance config a e = ?m"
        using True lt by (simp add: advance_step Let_def advance_zero)
      show ?thesis
      proof (cases "b = 0")
        case True
        then show ?thesis by (simp add: advance_zero)
      next
        case b: False
        have k: "min (a + b) ?c = a + min b (?c - a)" using lt by linarith
        have "Envelope_advance config (a + b) e
            = Envelope_advance config (a + b - min (a + b) ?c) (Envelope_elapse config (min (a + b) ?c) ?e)"
          using True by (simp add: advance_step Let_def)
        also have "\<dots> = Envelope_advance config (b - min b (?c - a)) (Envelope_elapse config (min b (?c - a)) ?m)"
          unfolding k using lt by (simp add: elapse_elapse)
        also have "\<dots> = Envelope_advance config b ?m"
        proof -
          have "env_phase ?m \<noteq> EnvelopePhase_Off" "Envelope_reload config ?m = ?m"
            "env_clocks_until_step ?m = ?c - a"
            using True lt by (simp_all add: m reload_idem)
          then show ?thesis using b advance_step [of b ?m config] by (simp add: Let_def)
        qed
        finally show ?thesis by (simp add: a)
      qed
    qed
  qed
qed

interpretation env_chunks: chunked "Envelope_advance config" for config
  by unfold_locales (simp_all add: advance_zero advance_add)


section \<open>Levels and deltas\<close>

lemma apply_step_level: "env_level (Envelope_apply_step config e) \<le> 0x7fff"
  by (auto simp: Envelope_apply_step_def Let_def split: EnvelopePhase.split)

lemma reload_level [simp]: "env_level (Envelope_reload config e) = env_level e"
  by (simp add: Envelope_reload_def)

lemma elapse_level:
  "env_level e \<le> 0x7fff \<Longrightarrow> env_level (Envelope_elapse config k e) \<le> 0x7fff"
  by (simp add: Envelope_elapse_def Let_def apply_step_level)

lemma advance_level: "env_level e \<le> 0x7fff \<Longrightarrow> env_level (Envelope_advance config n e) \<le> 0x7fff"
proof (induction config n e rule: Envelope_advance.induct)
  case (1 config n e)
  show ?case
  proof (cases "n \<noteq> 0 \<and> env_phase e \<noteq> EnvelopePhase_Off")
    case True
    then show ?thesis
      using "1.IH" [OF True refl refl] "1.prems" by (simp add: advance_step Let_def elapse_level)
  next
    case False
    then show ?thesis using "1.prems" by (auto simp: advance_zero advance_off)
  qed
qed

definition rate_ok :: "EnvelopeRate \<Rightarrow> bool" where
  "rate_ok r \<longleftrightarrow> rate_shift r \<le> 31 \<and> - 8 \<le> rate_step r \<and> rate_step r \<le> 7"

definition rate_delta_linear :: "EnvelopeRate \<Rightarrow> int" where
  "rate_delta_linear r = rate_step r * 2 ^ (11 - rate_shift r)"

lemma rate_delta_bounds:
  assumes "rate_ok r"
  shows "\<bar>rate_delta_linear r\<bar> \<le> 2 ^ 14"
proof -
  have "(2::int) ^ (11 - rate_shift r) \<le> 2 ^ 11" by (rule power_increasing) simp_all
  then have "\<bar>rate_step r\<bar> * 2 ^ (11 - rate_shift r) \<le> 8 * 2 ^ 11"
    using assms by (intro mult_mono) (auto simp: rate_ok_def abs_if)
  then show ?thesis by (simp add: rate_delta_linear_def abs_mult)
qed

lemma wrap_i32_id: "in_signed 32 x \<Longrightarrow> wrap_i32 x = x"
  by (simp add: wrap_i32_def in_signed_def sint_sbintrunc' signed_take_bit_int_eq_self)

text \<open>The delta without machine arithmetic.\<close>

lemma delta_exact:
  assumes r: "rate_ok r" and l: "level \<le> 0x7fff"
  shows "EnvelopeRate_delta r level x =
    (if x then
       (let d = (rate_delta_linear r * int level) div 2 ^ 15
        in if d = 0 \<and> level \<noteq> 0 \<and> rate_step r < 0 then - 1 else d)
     else rate_delta_linear r)"
proof -
  note b = rate_delta_bounds [OF r]
  have sat: "saturate 32 (rate_delta_linear r) = rate_delta_linear r"
    using b by (intro saturate_id) (simp add: in_signed_def abs_le_iff)
  have lin: "(if rate_shift r < 11 then saturate 32 (rate_step r * 2 ^ (11 - rate_shift r)) else rate_step r)
      = rate_delta_linear r"
    using sat by (simp add: rate_delta_linear_def)
  have "\<bar>rate_delta_linear r\<bar> * int level \<le> 2 ^ 14 * 0x7fff"
    using b l by (intro mult_mono) simp_all
  then have "\<bar>rate_delta_linear r * int level\<bar> \<le> 2 ^ 30" by (simp add: abs_mult)
  then have "wrap_i32 (rate_delta_linear r * int level) = rate_delta_linear r * int level"
    by (intro wrap_i32_id) (simp add: in_signed_def abs_le_iff)
  then show ?thesis
    unfolding EnvelopeRate_delta_def Let_def lin by (simp add: drop_bit_eq_div)
qed

lemma delta_negative:
  assumes r: "rate_ok r" "rate_step r < 0" and l: "level \<le> 0x7fff" "0 < level"
  shows "EnvelopeRate_delta r level x < 0"
proof -
  have "rate_delta_linear r < 0" using r by (simp add: rate_delta_linear_def mult_less_0_iff)
  moreover from this have "rate_delta_linear r * int level < 0" using l by (simp add: mult_less_0_iff)
  then have "(rate_delta_linear r * int level) div 2 ^ 15 < 0"
    by (rule div_neg_pos_less0) simp
  ultimately show ?thesis by (simp add: delta_exact [OF r(1) l(1)] Let_def)
qed

lemma delta_small:
  assumes r: "rate_ok r" and l: "level \<le> 0x7fff"
  shows "saturate 32 (int level + EnvelopeRate_delta r level x) = int level + EnvelopeRate_delta r level x"
proof -
  note b = rate_delta_bounds [OF r]
  have "\<bar>rate_delta_linear r\<bar> * int level \<le> 2 ^ 14 * 2 ^ 15"
    using b l by (intro mult_mono) simp_all
  then have "\<bar>rate_delta_linear r * int level\<bar> \<le> 2 ^ 29" by (simp add: abs_mult)
  then have "- (2 ^ 15) \<le> (rate_delta_linear r * int level) div 2 ^ 15"
    "(rate_delta_linear r * int level) div 2 ^ 15 \<le> 2 ^ 14" by (simp_all add: abs_le_iff) linarith+
  then show ?thesis
    using b l by (intro saturate_id) (auto simp: delta_exact [OF r l] Let_def in_signed_def abs_le_iff)
qed

section \<open>Configurations decoded from registers\<close>

definition config_ok :: "EnvelopeConfig \<Rightarrow> bool" where
  "config_ok c \<longleftrightarrow>
     rate_ok (config_attack c) \<and> 0 < rate_step (config_attack c) \<and>
     rate_ok (config_decay c) \<and> rate_step (config_decay c) < 0 \<and>
     rate_ok (config_sustain c) \<and>
     (config_sustain_decrease c \<longleftrightarrow> rate_step (config_sustain c) < 0) \<and>
     rate_ok (config_release c) \<and> rate_step (config_release c) < 0 \<and>
     0x800 \<le> config_sustain_level c \<and> config_sustain_level c \<le> 0x7fff"

lemma and3_int: "0 \<le> uint (w AND 3)" "uint (w AND 3) \<le> 3" for w :: u8
proof -
  have "w AND 3 \<le> 3" by (rule word_and_le1)
  then show "uint (w AND 3) \<le> 3" by (simp add: word_le_def)
qed simp

lemma from_registers_ok: "config_ok (EnvelopeConfig_from_registers low high)"
proof -
  have new: "rate_ok (EnvelopeRate_new sh st)" if "- 8 \<le> st" "st \<le> 7" for sh st
    using that by (simp add: rate_ok_def EnvelopeRate_new_def)
  have step [simp]: "rate_step (EnvelopeRate_new sh st) = st" for sh st
    by (simp add: EnvelopeRate_new_def)
  show ?thesis
    using and3_int [of "byte_of 1 low"] and3_int [of "drop_bit 6 (byte_of 0 high)"]
    by (auto simp: config_ok_def EnvelopeConfig_from_registers_def Let_def intro!: new)
qed

section \<open>Release\<close>

definition release_interval :: "EnvelopeConfig \<Rightarrow> nat" where
  "release_interval c = EnvelopeRate_interval (config_release c) 0 False"

lemma release_interval_le: "config_ok c \<Longrightarrow> release_interval c \<le> 2 ^ 20"
proof -
  assume "config_ok c"
  then have s: "rate_shift (config_release c) \<le> 31" by (simp add: config_ok_def rate_ok_def)
  then have "(rate_shift (config_release c) - 11) mod 64 \<le> 20" by simp
  then have "(2::nat) ^ ((rate_shift (config_release c) - 11) mod 64) \<le> 2 ^ 20"
    by (intro power_increasing) simp_all
  then show ?thesis by (simp add: release_interval_def EnvelopeRate_interval_def Let_def)
qed

lemma release_step:
  assumes c: "config_ok c" and e: "env_phase e = EnvelopePhase_Release" "env_level e \<le> 0x7fff"
    "env_clocks_until_step e = 0"
  shows "\<exists>e'. Envelope_advance c (release_interval c) e = e' \<and> env_clocks_until_step e' = 0 \<and>
    (env_phase e' = EnvelopePhase_Off \<or>
     env_phase e' = EnvelopePhase_Release \<and> env_level e' < env_level e)"
proof -
  let ?I = "release_interval c"
  have I: "0 < ?I" by (simp add: release_interval_def interval_pos)
  have reload: "Envelope_reload c e = e\<lparr>env_clocks_until_step := ?I\<rparr>"
    using e by (simp add: Envelope_reload_def Envelope_current_interval_def release_interval_def
        EnvelopeRate_interval_def)
  let ?z = "e\<lparr>env_clocks_until_step := 0\<rparr>"
  have run: "Envelope_advance c ?I e = Envelope_apply_step c ?z"
    using I e by (simp add: advance_step Let_def reload advance_zero Envelope_elapse_def)
  let ?d = "EnvelopeRate_delta (config_release c) (env_level e) (config_release_exponential c)"
  have r: "rate_ok (config_release c)" "rate_step (config_release c) < 0"
    using c by (simp_all add: config_ok_def)
  have sat: "saturate 32 (int (env_level e) + ?d) = int (env_level e) + ?d"
    using delta_small [OF r(1) e(2)] .
  have neg: "?d < 0" if "0 < env_level e" using delta_negative [OF r e(2) that] .
  show ?thesis
  proof (cases "env_level e = 0")
    case True
    then have "?d \<le> 0"
      using r(2) by (simp add: delta_exact [OF r(1)] rate_delta_linear_def mult_le_0_iff)
    then have "max 0 (min 0x7fff (saturate 32 (int (env_level e) + ?d))) = 0"
      using sat True by simp
    then show ?thesis
      using e run by (simp add: Envelope_apply_step_def Envelope_delta_def Let_def)
  next
    case False
    then have d: "?d < 0" using neg by simp
    then have "nat (max 0 (min 0x7fff (int (env_level e) + ?d))) < env_level e"
      using False e(2) by linarith
    then show ?thesis
      using e run sat d by (auto simp: Envelope_apply_step_def Envelope_delta_def Let_def)
  qed
qed

lemma release_ends:
  assumes c: "config_ok c"
  shows "env_phase e = EnvelopePhase_Release \<Longrightarrow> env_level e \<le> 0x7fff \<Longrightarrow>
    env_clocks_until_step e = 0 \<Longrightarrow>
    env_phase (Envelope_advance c ((env_level e + 1) * release_interval c) e) = EnvelopePhase_Off"
proof (induction "env_level e" arbitrary: e rule: less_induct)
  case less
  let ?I = "release_interval c"
  obtain e' where e': "Envelope_advance c ?I e = e'" "env_clocks_until_step e' = 0"
    and cases: "env_phase e' = EnvelopePhase_Off \<or>
      env_phase e' = EnvelopePhase_Release \<and> env_level e' < env_level e"
    using release_step [OF c less.prems] by blast
  have split: "Envelope_advance c ((env_level e + 1) * ?I) e = Envelope_advance c (env_level e * ?I) e'"
    using advance_add [of c ?I "env_level e * ?I" e] e'(1) by simp
  from cases show ?case
  proof
    assume "env_phase e' = EnvelopePhase_Off"
    then show ?thesis using split by (simp add: advance_off)
  next
    assume a: "env_phase e' = EnvelopePhase_Release \<and> env_level e' < env_level e"
    then have off: "env_phase (Envelope_advance c ((env_level e' + 1) * ?I) e') = EnvelopePhase_Off"
      using less.hyps less.prems e' by simp
    obtain k where "env_level e = (env_level e' + 1) + k" using a by (metis Suc_eq_plus1 Suc_leI le_iff_add)
    then have "Envelope_advance c (env_level e * ?I) e' =
        Envelope_advance c (k * ?I) (Envelope_advance c ((env_level e' + 1) * ?I) e')"
      by (simp add: advance_add [symmetric] algebra_simps)
    then show ?thesis using split off by (simp add: advance_off)
  qed
qed

section \<open>Properties\<close>

text \<open>
  C20. Sampling an envelope is exact: advancing it by the clocks of a list of chunks gives the
  same envelope as one jump, or as any other split, and the level never leaves its 15 bits.
\<close>
theorem envelope_chunk_independent:
  assumes "sum_list ns = sum_list ms" and "env_level e \<le> 0x7fff"
  shows "fold (Envelope_advance config) ns e = fold (Envelope_advance config) ms e \<and>
    env_level (fold (Envelope_advance config) ns e) \<le> 0x7fff"
  using env_chunks.chunks_agree [OF assms(1), where config = config]
  by (simp add: env_chunks.fold_chunks advance_level assms(2))

theorem envelope_chunk_independent_witness:
  "fold (Envelope_advance (EnvelopeConfig_from_registers 0x80ff 0x5fc0)) [1, 2, 3] (Envelope_key_on Envelope_new)
   = fold (Envelope_advance (EnvelopeConfig_from_registers 0x80ff 0x5fc0)) [6] (Envelope_key_on Envelope_new)"
  using envelope_chunk_independent [of "[1, 2, 3]" "[6]" "Envelope_key_on Envelope_new"
      "EnvelopeConfig_from_registers 0x80ff 0x5fc0"]
  by (simp add: Envelope_key_on_def)

text \<open>
  C21. A released voice always falls silent: for every pair of ADSR registers and every level, an
  envelope is off \<open>2 ^ 35\<close> clocks after key-off at the latest, and stays off.
\<close>
theorem envelope_release_ends:
  assumes "env_level e \<le> 0x7fff" and "2 ^ 35 \<le> n"
  shows "env_phase (Envelope_advance (EnvelopeConfig_from_registers low high) n (Envelope_key_off e))
    = EnvelopePhase_Off"
proof (cases "env_phase e = EnvelopePhase_Off")
  case True
  then show ?thesis by (simp add: Envelope_key_off_def advance_off)
next
  case False
  let ?c = "EnvelopeConfig_from_registers low high" and ?e = "Envelope_key_off e"
  let ?k = "(env_level ?e + 1) * release_interval ?c"
  have off: "env_phase (Envelope_advance ?c ?k ?e) = EnvelopePhase_Off"
    using release_ends [OF from_registers_ok, of ?e low high] False assms(1) by (simp add: Envelope_key_off_def)
  have "?k \<le> 2 ^ 15 * 2 ^ 20"
    using release_interval_le [OF from_registers_ok, of low high] False assms(1)
    by (intro mult_mono) (simp_all add: Envelope_key_off_def)
  then have "?k \<le> n" using assms(2) by simp
  then obtain j where "n = ?k + j" using le_Suc_ex by blast
  then show ?thesis using off by (simp only: advance_add) (simp add: advance_off)
qed

theorem envelope_release_ends_witness:
  "env_phase (Envelope_advance (EnvelopeConfig_from_registers 0x80ff 0xdfdf) (2 ^ 35)
     (Envelope_key_off (Envelope_key_on Envelope_new))) = EnvelopePhase_Off"
  by (rule envelope_release_ends) (simp_all add: Envelope_key_on_def)

end
