(* ===== verification/Spu_Common.thy ===== *)
theory Spu_Common
  imports Upse_Prelude
begin

text \<open>
  The sample primitives both sound processors share, from \<open>crates/hw/shared/spu-common/src/\<close>:
  fixed-point operations (\<open>fixed.rs\<close>), ADPCM blocks (\<open>adpcm.rs\<close>), Gaussian interpolation
  (\<open>interpolation.rs\<close>), the pitch accumulator (\<open>pitch.rs\<close>), the noise generator
  (\<open>noise.rs\<close>) and the circular effect address (\<open>reverb.rs\<close>).

  Samples are integers of the \<open>i16\<close> range. Where the source multiplies or adds in \<open>i32\<close>, the
  result is exact for samples in range (\<open>predict_bounds\<close>, \<open>tap_bounds\<close>), so the model uses
  integers. The interpolation weights are computed in floating point when the program starts;
  they are a parameter of the interpolator.
\<close>

section \<open>Fixed point\<close>

definition clamp_i16 :: "i32 \<Rightarrow> i16" where
  "clamp_i16 v = (if in_signed 16 v then v else if v < 0 then - (2 ^ 15) else 2 ^ 15 - 1)"

definition multiply_q15 :: "i16 \<Rightarrow> i16 \<Rightarrow> i32" where
  "multiply_q15 left right = drop_bit 15 (left * right)"

definition mac_q15 :: "(i16 \<times> i16) list \<Rightarrow> i16" where
  "mac_q15 terms =
     (let sum = foldl (\<lambda>sum (left, right). saturate 64 (sum + left * right)) 0 terms;
          shifted = drop_bit 15 sum
      in if shifted < - (2 ^ 15) then - (2 ^ 15)
         else if shifted > 2 ^ 15 - 1 then 2 ^ 15 - 1 else shifted)"

section \<open>ADPCM\<close>

definition FILTERS :: "(int \<times> int) list" where
  "FILTERS = [(0, 0), (60, 0), (115, - 52), (98, - 55), (122, - 60)]"

record AdpcmHistory =
  adpcm_previous :: i16
  adpcm_previous2 :: i16

record AdpcmFlags =
  flag_end :: bool
  flag_repeat :: bool
  flag_loop_start :: bool

record DecodedBlock =
  block_samples :: "i16 list"
  block_flags :: AdpcmFlags

datatype AdpcmError = AdpcmError_InvalidShift u8

definition adpcm_nibble :: "u8 list \<Rightarrow> nat \<Rightarrow> u8" where
  "adpcm_nibble block index =
     (let packed = block ! (2 + index div 2)
      in if even index then packed AND 0x0f else drop_bit 4 packed)"

definition adpcm_source :: "nat \<Rightarrow> u8 \<Rightarrow> i32" where
  "adpcm_source shift nibble =
     (let signed = (if nibble AND 8 = 0 then uint nibble else uint nibble - 16)
      in drop_bit shift (push_bit 12 signed))"

definition adpcm_sample :: "int \<times> int \<Rightarrow> AdpcmHistory \<Rightarrow> i32 \<Rightarrow> i16" where
  "adpcm_sample coefficients history source =
     (let predicted = adpcm_previous history * fst coefficients
            + adpcm_previous2 history * snd coefficients
      in clamp_i16 (saturate 32 (source + drop_bit 6 (predicted + 32))))"

fun decode_samples ::
  "int \<times> int \<Rightarrow> nat \<Rightarrow> u8 list \<Rightarrow> nat list \<Rightarrow> AdpcmHistory \<Rightarrow> i16 list \<times> AdpcmHistory" where
  "decode_samples coefficients shift block [] history = ([], history)"
| "decode_samples coefficients shift block (index # indices) history =
     (let sample = adpcm_sample coefficients history (adpcm_source shift (adpcm_nibble block index));
          history = \<lparr>adpcm_previous = sample, adpcm_previous2 = adpcm_previous history\<rparr>;
          (samples, history) = decode_samples coefficients shift block indices history
      in (sample # samples, history))"

definition adpcm_shift :: "u8 list \<Rightarrow> nat" where
  "adpcm_shift block =
     (let encoded_shift = unat (block ! 0 AND 0x0f)
      in if encoded_shift > 12 then 9 else encoded_shift)"

definition adpcm_coefficients :: "u8 list \<Rightarrow> int \<times> int" where
  "adpcm_coefficients block =
     (let filter = unat (drop_bit 4 (block ! 0))
      in if filter < length FILTERS then FILTERS ! filter else (0, 0))"

definition decode_block ::
  "u8 list \<Rightarrow> AdpcmHistory \<Rightarrow> (AdpcmError + DecodedBlock) \<times> AdpcmHistory" where
  "decode_block block history =
     (let (samples, history) =
            decode_samples (adpcm_coefficients block) (adpcm_shift block) block [0..<28] history
      in (Inr \<lparr>block_samples = samples,
               block_flags = \<lparr>flag_end = (block ! 1 AND 1 \<noteq> 0), flag_repeat = (block ! 1 AND 2 \<noteq> 0),
                              flag_loop_start = (block ! 1 AND 4 \<noteq> 0)\<rparr>\<rparr>, history))"

section \<open>Interpolation\<close>

definition GaussianInterpolator_interpolate ::
  "(nat \<Rightarrow> i16 list) \<Rightarrow> i16 list \<Rightarrow> u8 \<Rightarrow> i16" where
  "GaussianInterpolator_interpolate gaussian_weights samples phase =
     (let weights = gaussian_weights (unat phase)
      in clamp_i16 (foldl (\<lambda>sum (sample, weight). sum + drop_bit 15 (sample * weight)) 0
           (zip samples weights)))"

section \<open>Pitch\<close>

record PitchStep =
  step_whole_samples :: nat
  step_phase :: nat

record PitchCounter =
  pitch_phase :: nat

definition PitchCounter_new :: PitchCounter where
  "PitchCounter_new = \<lparr>pitch_phase = 0\<rparr>"

definition PitchCounter_advance :: "u16 \<Rightarrow> PitchCounter \<Rightarrow> PitchStep \<times> PitchCounter" where
  "PitchCounter_advance pitch c =
     (let pitch = min (unat pitch) 0x3fff;
          sum = pitch_phase c + pitch;
          phase = sum mod 0x1000
      in (\<lparr>step_whole_samples = sum div 0x1000, step_phase = phase\<rparr>, c\<lparr>pitch_phase := phase\<rparr>))"

definition PitchCounter_reset :: "PitchCounter \<Rightarrow> PitchCounter" where
  "PitchCounter_reset c = c\<lparr>pitch_phase := 0\<rparr>"

section \<open>Noise\<close>

record NoiseGenerator =
  noise_state :: u16

definition NoiseGenerator_new :: "u16 \<Rightarrow> NoiseGenerator" where
  "NoiseGenerator_new seed = \<lparr>noise_state = (if seed = 0 then 1 else seed)\<rparr>"

definition NoiseGenerator_default :: NoiseGenerator where
  "NoiseGenerator_default = NoiseGenerator_new 1"

definition noise_feedback :: "u16 \<Rightarrow> u16" where
  "noise_feedback s = (s XOR drop_bit 2 s XOR drop_bit 3 s XOR drop_bit 5 s) AND 1"

definition noise_next :: "u16 \<Rightarrow> u16" where
  "noise_next s = drop_bit 1 s OR push_bit 15 (noise_feedback s)"

definition NoiseGenerator_step :: "NoiseGenerator \<Rightarrow> i16 \<times> NoiseGenerator" where
  "NoiseGenerator_step g =
     (let state = noise_next (noise_state g) in (sint state, g\<lparr>noise_state := state\<rparr>))"

section \<open>Circular effect addresses\<close>

record RingBufferAddress =
  ring_base :: usize
  ring_length :: usize
  ring_position :: usize

definition RingBufferAddress_new :: "usize \<Rightarrow> usize \<Rightarrow> RingBufferAddress option" where
  "RingBufferAddress_new base len =
     (if len = 0 then None
      else Some \<lparr>ring_base = base, ring_length = len, ring_position = 0\<rparr>)"

definition RingBufferAddress_get :: "RingBufferAddress \<Rightarrow> usize option" where
  "RingBufferAddress_get r = checked_add_n 64 (ring_base r) (ring_position r)"

definition RingBufferAddress_advance :: "i64 \<Rightarrow> RingBufferAddress \<Rightarrow> RingBufferAddress" where
  "RingBufferAddress_advance offset r =
     (let distance = nat \<bar>offset\<bar> mod ring_length r
      in if offset \<ge> 0 then
           (let remaining = ring_length r - ring_position r
            in r\<lparr>ring_position := (if distance \<ge> remaining then distance - remaining
                                   else ring_position r + distance)\<rparr>)
         else
           r\<lparr>ring_position := (if distance > ring_position r
                               then ring_length r - (distance - ring_position r)
                               else ring_position r - distance)\<rparr>)"

section \<open>Lemmas\<close>

lemma clamp_i16_saturate: "clamp_i16 v = saturate 16 v"
  by (simp add: clamp_i16_def saturate_def in_signed_def max_def min_def)

lemma clamp_i16_range: "in_signed 16 (clamp_i16 v)"
  by (simp add: clamp_i16_saturate saturate_in_signed)

lemma i16_abs: "in_signed 16 x \<Longrightarrow> \<bar>x\<bar> \<le> 2 ^ 15"
  by (simp add: in_signed_def abs_le_iff)

lemma coefficients_bounds:
  "\<bar>fst (adpcm_coefficients block)\<bar> \<le> 122" "\<bar>snd (adpcm_coefficients block)\<bar> \<le> 60"
  by (auto simp: adpcm_coefficients_def Let_def FILTERS_def less_Suc_eq numeral_eq_Suc)

definition history_ok :: "AdpcmHistory \<Rightarrow> bool" where
  "history_ok h \<longleftrightarrow> in_signed 16 (adpcm_previous h) \<and> in_signed 16 (adpcm_previous2 h)"

lemma predict_bounds:
  assumes "history_ok h"
  shows "\<bar>adpcm_previous h * fst (adpcm_coefficients block)
      + adpcm_previous2 h * snd (adpcm_coefficients block)\<bar> \<le> 2 ^ 23"
proof -
  have "\<bar>adpcm_previous h\<bar> * \<bar>fst (adpcm_coefficients block)\<bar> \<le> 2 ^ 15 * 122"
    "\<bar>adpcm_previous2 h\<bar> * \<bar>snd (adpcm_coefficients block)\<bar> \<le> 2 ^ 15 * 60"
    using assms coefficients_bounds [of block] i16_abs by (intro mult_mono; simp add: history_ok_def)+
  then show ?thesis unfolding abs_mult [symmetric] by simp
qed

lemma mask_4: "(0x0f :: u8) = mask 4" by (simp add: mask_eq_exp_minus_1)

lemma nibble_range: "unat (adpcm_nibble block i) < 16"
proof -
  have "unat (w AND mask 4) < 16" for w :: u8 by (simp add: unat_and_mask)
  moreover have "unat (drop_bit 4 w) < 16" for w :: u8
  proof -
    have "unat w < 256" using unsigned_less [of w, where ?'a = nat] by simp
    then show ?thesis unfolding unat_drop_bit by simp
  qed
  ultimately show ?thesis unfolding adpcm_nibble_def Let_def mask_4 by simp
qed

lemma source_bounds:
  assumes "unat nibble < 16"
  shows "\<bar>adpcm_source shift nibble\<bar> \<le> 2 ^ 16"
proof -
  have "uint nibble = int (unat nibble)" by simp
  moreover define u where "u = uint nibble"
  ultimately have n: "0 \<le> u" "u < 16" using assms by linarith+
  define x where "x = 2 ^ 12 * (if nibble AND 8 = 0 then u else u - 16)"
  have "- (2 ^ 16) \<le> x" "x < 2 ^ 16" using n by (simp_all add: x_def)
  moreover have "- (2 ^ 16) \<le> x div 2 ^ shift \<and> x div 2 ^ shift \<le> 2 ^ 16"
  proof (cases "0 \<le> x")
    case True
    then have "0 \<le> x div 2 ^ shift" by (simp add: pos_imp_zdiv_nonneg_iff)
    then show ?thesis using True zdiv_mono2 [of x 1 "2 ^ shift"] \<open>x < 2 ^ 16\<close> by simp
  next
    case False
    then have "x div 2 ^ shift < 0" by (simp add: div_neg_pos_less0)
    then show ?thesis using zdiv_mono2_neg [of x 1 "2 ^ shift"] False \<open>- (2 ^ 16) \<le> x\<close> by simp
  qed
  moreover have "adpcm_source shift nibble = x div 2 ^ shift"
    unfolding adpcm_source_def Let_def drop_bit_eq_div push_bit_eq_mult x_def u_def
    by (simp only: mult.commute)
  ultimately show ?thesis by (simp add: abs_le_iff)
qed

text \<open>Inside a block no addition saturates: the sample is the clamped exact prediction.\<close>

lemma adpcm_sample_exact:
  assumes "history_ok h" and "unat nibble < 16"
  shows "adpcm_sample (adpcm_coefficients block) h (adpcm_source shift nibble) =
    clamp_i16 (adpcm_source shift nibble + (adpcm_previous h * fst (adpcm_coefficients block)
      + adpcm_previous2 h * snd (adpcm_coefficients block) + 32) div 64)"
proof -
  let ?p = "adpcm_previous h * fst (adpcm_coefficients block)
      + adpcm_previous2 h * snd (adpcm_coefficients block)"
  have p: "- (2 ^ 23) \<le> ?p" "?p \<le> 2 ^ 23"
    using predict_bounds [OF assms(1), of block] unfolding abs_le_iff by linarith+
  then have "- (2 ^ 17) \<le> (?p + 32) div 64" "(?p + 32) div 64 \<le> 2 ^ 18" by simp_all
  moreover have "- (2 ^ 16) \<le> adpcm_source shift nibble" "adpcm_source shift nibble \<le> 2 ^ 16"
    using source_bounds [OF assms(2), of shift] by (simp_all add: abs_le_iff)
  ultimately have "in_signed 32 (adpcm_source shift nibble + (?p + 32) div 64)"
    by (simp add: in_signed_def)
  then show ?thesis
    by (simp add: adpcm_sample_def Let_def drop_bit_eq_div saturate_id)
qed

lemma ring_step:
  assumes "ring_position r < ring_length r"
  shows "int (ring_position (RingBufferAddress_advance x r))
    = (int (ring_position r) + x) mod int (ring_length r)"
proof -
  define l p d q where "l = ring_length r" and "p = ring_position r"
    and "d = nat \<bar>x\<bar> mod ring_length r" and "q = \<bar>x\<bar> div int (ring_length r)"
  have d: "d < l" "p < l" using assms by (simp_all add: d_def l_def p_def)
  have ax: "\<bar>x\<bar> = int d + q * int l" by (simp add: q_def d_def l_def zmod_int)
  have eq: "y mod int l = k" if "y = k + j * int l" "0 \<le> k" "k < int l" for y k j
    using that by simp
  have run: "ring_position (RingBufferAddress_advance x r) =
    (if 0 \<le> x then (if l - p \<le> d then d - (l - p) else p + d)
     else (if p < d then l - (d - p) else p - d))"
    by (simp add: RingBufferAddress_advance_def Let_def l_def p_def d_def)
  show ?thesis
  proof (cases "0 \<le> x")
    case True
    then have x: "x = int d + q * int l" using ax by simp
    show ?thesis
    proof (cases "l - p \<le> d")
      case le: True
      have "(int p + x) mod int l = int (d - (l - p))"
        using le d x by (intro eq [where j = "q + 1"]) (simp_all add: algebra_simps)
      then show ?thesis using True le run by (simp add: l_def p_def)
    next
      case lt: False
      have "(int p + x) mod int l = int (p + d)"
        using lt x by (intro eq [where j = q]) simp_all
      then show ?thesis using True lt run by (simp add: l_def p_def)
    qed
  next
    case False
    then have x: "x = - int d - q * int l" using ax by simp
    show ?thesis
    proof (cases "p < d")
      case lt: True
      have "(int p + x) mod int l = int (l - (d - p))"
        using lt d x by (intro eq [where j = "- q - 1"]) (simp_all add: algebra_simps)
      then show ?thesis using False lt run by (simp add: l_def p_def)
    next
      case le: False
      have "(int p + x) mod int l = int (p - d)"
        using le d x by (intro eq [where j = "- q"]) (simp_all add: algebra_simps)
      then show ?thesis using False le run by (simp add: l_def p_def)
    qed
  qed
qed

section \<open>Properties\<close>

text \<open>The sample before index \<open>i\<close> of a block, from the history at its start.\<close>

definition sample_before :: "AdpcmHistory \<Rightarrow> i16 list \<Rightarrow> nat \<Rightarrow> i16" where
  "sample_before h samples i = (if i = 0 then adpcm_previous h else samples ! (i - 1))"

definition sample_before2 :: "AdpcmHistory \<Rightarrow> i16 list \<Rightarrow> nat \<Rightarrow> i16" where
  "sample_before2 h samples i =
     (if i = 0 then adpcm_previous2 h else if i = 1 then adpcm_previous h else samples ! (i - 2))"

lemma decode_samples_spec:
  assumes "history_ok h"
    and "decode_samples (adpcm_coefficients block) shift block idx h = (xs, h')"
  shows "length xs = length idx \<and> history_ok h' \<and> (\<forall>x \<in> set xs. in_signed 16 x) \<and>
    adpcm_previous h' = sample_before h xs (length idx) \<and>
    adpcm_previous2 h' = sample_before2 h xs (length idx) \<and>
    (\<forall>i < length idx. xs ! i = clamp_i16 (adpcm_source shift (adpcm_nibble block (idx ! i)) +
       (sample_before h xs i * fst (adpcm_coefficients block)
        + sample_before2 h xs i * snd (adpcm_coefficients block) + 32) div 64))"
  using assms
proof (induction idx arbitrary: h xs)
  case Nil
  then show ?case by (simp add: sample_before_def sample_before2_def)
next
  case (Cons k idx)
  define s where
    "s = adpcm_sample (adpcm_coefficients block) h (adpcm_source shift (adpcm_nibble block k))"
  let ?h = "\<lparr>adpcm_previous = s, adpcm_previous2 = adpcm_previous h\<rparr>"
  obtain ys where ys: "decode_samples (adpcm_coefficients block) shift block idx ?h = (ys, h')"
    and xs: "xs = s # ys"
    using Cons.prems(2) by (auto simp: Let_def s_def split: prod.splits)
  have s: "in_signed 16 s" by (simp add: s_def adpcm_sample_def Let_def clamp_i16_range)
  then have h: "history_ok ?h" using Cons.prems(1) by (simp add: history_ok_def)
  have first: "s = clamp_i16 (adpcm_source shift (adpcm_nibble block k) +
      (sample_before h xs 0 * fst (adpcm_coefficients block)
       + sample_before2 h xs 0 * snd (adpcm_coefficients block) + 32) div 64)"
    unfolding s_def adpcm_sample_exact [OF Cons.prems(1) nibble_range]
    by (simp add: sample_before_def sample_before2_def)
  have before: "sample_before ?h ys i = sample_before h xs (Suc i)" for i
    by (cases i) (simp_all add: sample_before_def xs)
  have before2: "sample_before2 ?h ys i = sample_before2 h xs (Suc i)" for i
    by (cases i; cases "i - 1") (simp_all add: sample_before2_def xs)
  note IH = Cons.IH [OF h ys, unfolded before before2]
  have "xs ! i = clamp_i16 (adpcm_source shift (adpcm_nibble block ((k # idx) ! i)) +
       (sample_before h xs i * fst (adpcm_coefficients block)
        + sample_before2 h xs i * snd (adpcm_coefficients block) + 32) div 64)"
    if "i < length (k # idx)" for i
  proof (cases i)
    case 0
    then show ?thesis using first by (simp add: xs)
  next
    case (Suc j)
    then have "j < length idx" and "xs ! i = ys ! j" using that xs by simp_all
    then show ?thesis using IH Suc by (metis nth_Cons_Suc)
  qed
  then show ?case using IH s by (simp add: xs)
qed

text \<open>
  C22. An ADPCM block always decodes (no header is refused) into 28 samples of the \<open>i16\<close> range,
  each the clamped exact prediction from the two samples before it, across block boundaries; the
  new history is the last two samples.
\<close>
theorem adpcm_decode_recurrence:
  assumes "history_ok h" and "decode_block block h = (r, h')"
  shows "\<exists>d. r = Inr d \<and> length (block_samples d) = 28 \<and> history_ok h' \<and>
    adpcm_previous h' = block_samples d ! 27 \<and> adpcm_previous2 h' = block_samples d ! 26 \<and>
    (\<forall>i < 28. in_signed 16 (block_samples d ! i) \<and> block_samples d ! i =
       clamp_i16 (adpcm_source (adpcm_shift block) (adpcm_nibble block i) +
         (sample_before h (block_samples d) i * fst (adpcm_coefficients block)
          + sample_before2 h (block_samples d) i * snd (adpcm_coefficients block) + 32) div 64))"
proof -
  obtain xs where xs: "decode_samples (adpcm_coefficients block) (adpcm_shift block) block [0..<28] h = (xs, h')"
    and r: "\<exists>flags. r = Inr \<lparr>block_samples = xs, block_flags = flags\<rparr>"
    using assms(2) by (auto simp: decode_block_def Let_def split: prod.splits)
  from decode_samples_spec [OF assms(1) xs] r show ?thesis
    by (auto simp: sample_before_def [of h xs 28] sample_before2_def [of h xs 28] clamp_i16_range)
qed

theorem adpcm_decode_recurrence_witness:
  "\<exists>d h'. decode_block (replicate 16 0x17) \<lparr>adpcm_previous = 100, adpcm_previous2 = - 5\<rparr> = (Inr d, h') \<and>
     adpcm_previous h' = block_samples d ! 27"
proof -
  let ?h = "\<lparr>adpcm_previous = 100, adpcm_previous2 = - 5\<rparr>"
  obtain r h' where r: "decode_block (replicate 16 0x17) ?h = (r, h')" by (cases "decode_block (replicate 16 0x17) ?h")
  have "history_ok ?h" by (simp add: history_ok_def in_signed_def)
  from adpcm_decode_recurrence [OF this r] r show ?thesis by auto
qed

text \<open>The pitch counter run over the programmed pitches of successive output samples.\<close>

fun pitch_run :: "u16 list \<Rightarrow> PitchCounter \<Rightarrow> nat list \<times> PitchCounter" where
  "pitch_run [] c = ([], c)"
| "pitch_run (p # ps) c =
     (let (step, c) = PitchCounter_advance p c; (ns, c) = pitch_run ps c
      in (step_whole_samples step # ns, c))"

text \<open>
  The pitch accumulator never loses a fraction: over any sequence of pitches the input samples
  crossed, in units of 4096, plus the final phase equal the initial phase plus the clamped
  pitches; the phase keeps its 12 bits and no step crosses more than four samples.
\<close>
lemma pitch_exact:
  assumes "pitch_phase c < 0x1000" and "pitch_run ps c = (ns, c')"
  shows "sum_list ns * 0x1000 + pitch_phase c' = pitch_phase c + (\<Sum>p\<leftarrow>ps. min (unat p) 0x3fff) \<and>
    pitch_phase c' < 0x1000 \<and> (\<forall>n \<in> set ns. n \<le> 4)"
  using assms
proof (induction ps arbitrary: c ns)
  case Nil
  then show ?case by simp
next
  case (Cons p ps)
  define s where "s = pitch_phase c + min (unat p) 0x3fff"
  let ?c = "c\<lparr>pitch_phase := s mod 0x1000\<rparr>"
  obtain ms where ms: "pitch_run ps ?c = (ms, c')" and ns: "ns = s div 0x1000 # ms"
    using Cons.prems(2) by (auto simp: PitchCounter_advance_def Let_def s_def split: prod.splits)
  note IH = Cons.IH [OF _ ms, simplified]
  have "s div 0x1000 \<le> 4" using Cons.prems(1) by (simp add: s_def)
  moreover have "sum_list ns * 0x1000 + pitch_phase c' =
      s div 0x1000 * 0x1000 + (s mod 0x1000 + (\<Sum>p\<leftarrow>ps. min (unat p) 0x3fff))"
    using IH unfolding ns by (simp only: sum_list.Cons distrib_right) linarith
  moreover have "\<dots> = s + (\<Sum>p\<leftarrow>ps. min (unat p) 0x3fff)" by simp
  ultimately show ?case using IH by (simp add: ns s_def)
qed

lemma pitch_exact_witness:
  "sum_list (fst (pitch_run [0x1800, 0x1800, 0xffff] PitchCounter_new)) * 0x1000
   + pitch_phase (snd (pitch_run [0x1800, 0x1800, 0xffff] PitchCounter_new)) = 0x6fff"
  using pitch_exact [of PitchCounter_new "[0x1800, 0x1800, 0xffff]"]
  by (simp add: PitchCounter_new_def case_prod_beta prod_eq_iff)

text \<open>
  A circular effect address moves by Euclidean remainder: after any sequence of signed
  offsets its position is the sum of the offsets modulo the ring length, inside the ring.
\<close>
lemma ring_address_euclidean:
  assumes "0 < ring_length r" and "ring_position r < ring_length r"
  shows "int (ring_position (fold RingBufferAddress_advance offsets r))
      = (int (ring_position r) + sum_list offsets) mod int (ring_length r) \<and>
    ring_base (fold RingBufferAddress_advance offsets r) = ring_base r \<and>
    ring_length (fold RingBufferAddress_advance offsets r) = ring_length r"
  using assms
proof (induction offsets arbitrary: r)
  case Nil
  then show ?case by simp
next
  case (Cons x xs)
  let ?r = "RingBufferAddress_advance x r"
  have len: "ring_length ?r = ring_length r" "ring_base ?r = ring_base r"
    by (simp_all add: RingBufferAddress_advance_def Let_def)
  have step: "int (ring_position ?r) = (int (ring_position r) + x) mod int (ring_length r)"
    using ring_step [OF Cons.prems(2)] .
  then have "int (ring_position ?r) < int (ring_length r)" using Cons.prems(1) by simp
  then have "ring_position ?r < ring_length r" by simp
  then show ?case using Cons.IH [of ?r] Cons.prems(1) len step by (simp add: mod_simps add.assoc)
qed

lemma ring_address_euclidean_witness:
  "ring_position (fold RingBufferAddress_advance [- 3, 12, - 40]
     \<lparr>ring_base = 0x1000, ring_length = 10, ring_position = 0\<rparr>) = 9"
  using ring_address_euclidean [of "\<lparr>ring_base = 0x1000, ring_length = 10, ring_position = 0\<rparr>" "[- 3, 12, - 40]"]
  by simp

end
