(* ===== verification/Spu_Noise.thy ===== *)
theory Spu_Noise
  imports Spu_Common
begin

text \<open>
  The period of the noise generator of \<open>crates/hw/shared/spu-common/src/noise.rs\<close>. One step is
  linear over the two-element field, so its powers are determined by sixteen columns; the columns
  of the powers \<open>2 ^ k\<close> are computed by repeated squaring in the kernel, and with them the order
  of the step on the seed one, which is the number of nonzero states.
\<close>

section \<open>Linear maps on 16-bit words\<close>

definition xor_linear :: "(u16 \<Rightarrow> u16) \<Rightarrow> bool" where
  "xor_linear g \<longleftrightarrow> (\<forall>a b. g (a XOR b) = g a XOR g b)"

primrec lincomb :: "int list \<Rightarrow> int \<Rightarrow> int" where
  "lincomb [] v = 0"
| "lincomb (c # cs) v = (if odd v then c XOR lincomb cs (v div 2) else lincomb cs (v div 2))"

definition columns :: "(u16 \<Rightarrow> u16) \<Rightarrow> int list" where
  "columns g = map (\<lambda>i. uint (g (push_bit i 1))) [0..<16]"

lemma linear_zero: "xor_linear g \<Longrightarrow> g 0 = 0"
  unfolding xor_linear_def by (metis xor_self_eq)

lemma linear_comp: "xor_linear g \<Longrightarrow> xor_linear h \<Longrightarrow> xor_linear (g \<circ> h)"
  by (simp add: xor_linear_def)

lemma peel_bit:
  "push_bit k (drop_bit k v) = (if bit v k then push_bit k 1 else 0) XOR push_bit (Suc k) (drop_bit (Suc k) v)"
  if "k < 16" for v :: u16
proof (rule bit_word_eqI)
  fix n
  assume n: "n < LENGTH(16)"
  have keep: "bit (push_bit j (drop_bit j v)) n \<longleftrightarrow> j \<le> n \<and> bit v n" for j
    using n by (auto simp: bit_push_bit_iff bit_drop_bit_eq)
  show "bit (push_bit k (drop_bit k v)) n =
      bit ((if bit v k then push_bit k 1 else 0) XOR push_bit (Suc k) (drop_bit (Suc k) v)) n"
    unfolding bit_xor_iff keep using that n by (cases "n = k") (auto simp: bit_exp_iff)
qed

lemma lincomb_columns_from:
  assumes g: "xor_linear g"
  shows "k \<le> 16 \<Longrightarrow> lincomb (map (\<lambda>i. uint (g (push_bit i 1))) [k..<16]) (uint (drop_bit k v)) =
    uint (g (push_bit k (drop_bit k v)))"
proof (induction k rule: inc_induct)
  case base
  have "push_bit 16 (drop_bit 16 v) = 0" by (rule bit_word_eqI) (simp add: bit_simps)
  then show ?case using linear_zero [OF g] by simp
next
  case (step k)
  have odd: "odd (uint (drop_bit k v)) \<longleftrightarrow> bit v k" 
    by (simp add: bit_0 [symmetric] bit_uint_iff bit_drop_bit_eq del: bit_0)
  have half: "uint (drop_bit k v) div 2 = uint (drop_bit (Suc k) v)"
  proof -
    have "int (unat (drop_bit k v) div 2) = int (unat (drop_bit (Suc k) v))"
      unfolding unat_drop_bit power_Suc2 div_mult2_eq ..
    then show ?thesis by (simp add: zdiv_int)
  qed
  have "g (push_bit k (drop_bit k v)) =
      (if bit v k then g (push_bit k 1) else 0) XOR g (push_bit (Suc k) (drop_bit (Suc k) v))"
    using step.hyps g linear_zero [OF g] unfolding peel_bit [OF step.hyps(2)]
    by (simp add: xor_linear_def)
  moreover have "[k..<16] = k # [Suc k..<16]" using step.hyps by (simp add: upt_rec)
  ultimately show ?case using step.IH by (simp add: odd half unsigned_xor_eq)
qed

lemma lincomb_columns: "xor_linear g \<Longrightarrow> uint (g v) = lincomb (columns g) (uint v)"
  using lincomb_columns_from [of g 0 v] by (simp add: columns_def)

lemma columns_comp:
  "xor_linear g \<Longrightarrow> columns (g \<circ> h) = map (lincomb (columns g)) (columns h)"
  by (simp add: columns_def [of h] columns_def [of "g \<circ> h"] lincomb_columns)

section \<open>The step of the generator\<close>

lemma noise_linear: "xor_linear noise_next"
proof -
  have fb: "noise_feedback (a XOR b) = noise_feedback a XOR noise_feedback b" for a b
    unfolding noise_feedback_def by (rule bit_word_eqI) (auto simp: bit_simps)
  have top: "\<not> bit w 16" for w :: u16 by (auto dest: bit_imp_le_length)
  show ?thesis
    unfolding xor_linear_def noise_next_def fb
  proof (intro allI, rule bit_word_eqI)
    fix a b :: u16 and n
    assume "n < LENGTH(16)"
    then show "bit (drop_bit 1 (a XOR b) OR push_bit 15 (noise_feedback a XOR noise_feedback b)) n =
        bit ((drop_bit 1 a OR push_bit 15 (noise_feedback a)) XOR
          (drop_bit 1 b OR push_bit 15 (noise_feedback b))) n"
      by (cases "n = 15") (auto simp: bit_simps top)
  qed
qed

lemma noise_power_linear: "xor_linear (noise_next ^^ n)"
proof (induction n)
  case 0
  then show ?case by (simp add: xor_linear_def)
next
  case (Suc n)
  then show ?case using linear_comp [OF noise_linear Suc.IH] by (simp add: o_def)
qed

lemma noise_square:
  "columns (noise_next ^^ n) = cs \<Longrightarrow> m = n + n \<Longrightarrow> map (lincomb cs) cs = ds \<Longrightarrow>
   columns (noise_next ^^ m) = ds"
  using columns_comp [OF noise_power_linear, of n "noise_next ^^ n"] by (simp add: funpow_add)

lemma noise_apply:
  "columns (noise_next ^^ n) = cs \<Longrightarrow> uint ((noise_next ^^ m) s) = x \<Longrightarrow> lincomb cs x = y \<Longrightarrow>
   uint ((noise_next ^^ (n + m)) s) = y"
  using lincomb_columns [OF noise_power_linear, of n "(noise_next ^^ m) s"] by (simp add: funpow_add)

section \<open>Columns of the powers\<close>

lemma noise_columns_0:
  "columns (noise_next ^^ 1) =
     [32768, 1, 32770, 32772, 8, 32784, 32, 64, 128, 256, 512, 1024, 2048, 4096, 8192, 16384]"
  by code_simp

lemma noise_columns_1:
  "columns (noise_next ^^ 2) =
     [16384, 32768, 16385, 49154, 32772, 16392, 32784, 32, 64, 128, 256, 512, 1024, 2048, 4096,
     8192]"
  by (rule noise_square [OF noise_columns_0], simp) code_simp

lemma noise_columns_2:
  "columns (noise_next ^^ 4) =
     [4096, 8192, 20480, 45056, 24577, 53250, 40964, 16392, 32784, 32, 64, 128, 256, 512, 1024,
     2048]"
  by (rule noise_square [OF noise_columns_1], simp) code_simp

lemma noise_columns_3:
  "columns (noise_next ^^ 8) =
     [256, 512, 1280, 2816, 5632, 11520, 23040, 46080, 26625, 53250, 40964, 16392, 32784, 32,
     64, 128]"
  by (rule noise_square [OF noise_columns_2], simp) code_simp

lemma noise_columns_4:
  "columns (noise_next ^^ 16) =
     [26625, 53250, 51205, 63499, 61462, 34861, 4186, 8372, 16744, 33488, 1440, 2880, 5760,
     11520, 23040, 46080]"
  by (rule noise_square [OF noise_columns_3], simp) code_simp

lemma noise_columns_5:
  "columns (noise_next ^^ 32) =
     [5185, 10370, 17732, 40648, 15761, 28514, 57029, 48522, 31508, 63016, 60497, 55458, 45380,
     25224, 50448, 35360]"
  by (rule noise_square [OF noise_columns_4], simp) code_simp

lemma noise_columns_6:
  "columns (noise_next ^^ 64) =
     [38801, 12066, 51668, 1080, 2161, 34674, 3813, 7627, 15255, 30511, 61022, 56508, 47481,
     29426, 58852, 52168]"
  by (rule noise_square [OF noise_columns_5], simp) code_simp

lemma noise_columns_7:
  "columns (noise_next ^^ 128) =
     [21116, 42232, 7052, 25957, 51915, 51178, 36820, 8105, 16210, 32420, 64841, 64147, 62759,
     59983, 54431, 43326]"
  by (rule noise_square [OF noise_columns_6], simp) code_simp

lemma noise_columns_8:
  "columns (noise_next ^^ 256) =
     [41728, 17921, 12034, 64773, 64010, 22292, 44584, 23633, 47267, 28998, 57996, 50456, 35376,
     5216, 10432, 20864]"
  by (rule noise_square [OF noise_columns_7], simp) code_simp

lemma noise_columns_9:
  "columns (noise_next ^^ 512) =
     [35845, 6154, 48144, 62501, 59466, 23697, 47395, 29254, 58508, 51480, 37424, 9312, 18624,
     37248, 8961, 17922]"
  by (rule noise_square [OF noise_columns_8], simp) code_simp

lemma noise_columns_10:
  "columns (noise_next ^^ 1024) =
     [49223, 32911, 49496, 17143, 34287, 52120, 38704, 11872, 23744, 47488, 29441, 58882, 52228,
     38920, 12305, 24611]"
  by (rule noise_square [OF noise_columns_9], simp) code_simp

lemma noise_columns_11:
  "columns (noise_next ^^ 2048) =
     [18066, 36132, 23770, 65318, 65101, 47624, 29713, 59427, 53318, 41101, 16666, 33332, 1129,
     2258, 4516, 9033]"
  by (rule noise_square [OF noise_columns_10], simp) code_simp

lemma noise_columns_12:
  "columns (noise_next ^^ 4096) =
     [27513, 55027, 50846, 58949, 52362, 62061, 58586, 51637, 37739, 9942, 19885, 39771, 14007,
     28015, 56030, 46524]"
  by (rule noise_square [OF noise_columns_11], simp) code_simp

lemma noise_columns_13:
  "columns (noise_next ^^ 8192) =
     [52822, 40108, 63246, 8267, 16535, 20345, 40691, 15847, 31694, 63388, 61241, 56946, 48357,
     31178, 62357, 59179]"
  by (rule noise_square [OF noise_columns_12], simp) code_simp

lemma noise_columns_14:
  "columns (noise_next ^^ 16384) =
     [26543, 53086, 63763, 38280, 11025, 12684, 25369, 50739, 35943, 6351, 12702, 25405, 50810,
     36085, 6635, 13271]"
  by (rule noise_square [OF noise_columns_13], simp) code_simp

lemma noise_columns_15:
  "columns (noise_next ^^ 32768) =
     [1021, 2042, 3081, 7151, 14302, 27712, 55424, 45313, 25091, 50183, 34831, 4127, 8255,
     16511, 33023, 510]"
  by (rule noise_square [OF noise_columns_14], simp) code_simp

section \<open>The order of the step\<close>

text \<open>The states after some powers, starting from the state one.\<close>

lemma noise_start: "uint ((noise_next ^^ 0) (1 :: u16)) = 1"
  by simp

lemma noise_at_1: "uint ((noise_next ^^ 1) 1) = 32768"
  using noise_apply [OF noise_columns_0 noise_start refl] by simp

lemma noise_at_3: "uint ((noise_next ^^ 3) 1) = 8192"
  using noise_apply [OF noise_columns_1 noise_at_1 refl] by simp

lemma noise_at_7: "uint ((noise_next ^^ 7) 1) = 512"
  using noise_apply [OF noise_columns_2 noise_at_3 refl] by simp

lemma noise_at_15: "uint ((noise_next ^^ 15) 1) = 53250"
  using noise_apply [OF noise_columns_3 noise_at_7 refl] by simp

lemma noise_at_31: "uint ((noise_next ^^ 31) 1) = 10370"
  using noise_apply [OF noise_columns_4 noise_at_15 refl] by simp

lemma noise_at_63: "uint ((noise_next ^^ 63) 1) = 12066"
  using noise_apply [OF noise_columns_5 noise_at_31 refl] by simp

lemma noise_at_127: "uint ((noise_next ^^ 127) 1) = 42232"
  using noise_apply [OF noise_columns_6 noise_at_63 refl] by simp

lemma noise_at_255: "uint ((noise_next ^^ 255) 1) = 17921"
  using noise_apply [OF noise_columns_7 noise_at_127 refl] by simp

lemma noise_at_271: "uint ((noise_next ^^ 271) 1) = 46449"
  using noise_apply [OF noise_columns_8 noise_at_15 refl] by simp

lemma noise_at_783: "uint ((noise_next ^^ 783) 1) = 26627"
  using noise_apply [OF noise_columns_9 noise_at_271 refl] by simp

lemma noise_at_1807: "uint ((noise_next ^^ 1807) 1) = 3795"
  using noise_apply [OF noise_columns_10 noise_at_783 refl] by simp

lemma noise_at_3855: "uint ((noise_next ^^ 3855) 1) = 51818"
  using noise_apply [OF noise_columns_11 noise_at_1807 refl] by simp

lemma noise_at_19: "uint ((noise_next ^^ 19) 1) = 11520"
  using noise_apply [OF noise_columns_4 noise_at_3 refl] by simp

lemma noise_at_51: "uint ((noise_next ^^ 51) 1) = 11631"
  using noise_apply [OF noise_columns_5 noise_at_19 refl] by simp

lemma noise_at_307: "uint ((noise_next ^^ 307) 1) = 17773"
  using noise_apply [OF noise_columns_8 noise_at_51 refl] by simp

lemma noise_at_819: "uint ((noise_next ^^ 819) 1) = 29759"
  using noise_apply [OF noise_columns_9 noise_at_307 refl] by simp

lemma noise_at_4915: "uint ((noise_next ^^ 4915) 1) = 28445"
  using noise_apply [OF noise_columns_12 noise_at_819 refl] by simp

lemma noise_at_13107: "uint ((noise_next ^^ 13107) 1) = 28354"
  using noise_apply [OF noise_columns_13 noise_at_4915 refl] by simp

lemma noise_at_5: "uint ((noise_next ^^ 5) 1) = 2048"
  using noise_apply [OF noise_columns_2 noise_at_1 refl] by simp

lemma noise_at_21: "uint ((noise_next ^^ 21) 1) = 2880"
  using noise_apply [OF noise_columns_4 noise_at_5 refl] by simp

lemma noise_at_85: "uint ((noise_next ^^ 85) 1) = 40673"
  using noise_apply [OF noise_columns_6 noise_at_21 refl] by simp

lemma noise_at_341: "uint ((noise_next ^^ 341) 1) = 35599"
  using noise_apply [OF noise_columns_8 noise_at_85 refl] by simp

lemma noise_at_1365: "uint ((noise_next ^^ 1365) 1) = 40966"
  using noise_apply [OF noise_columns_10 noise_at_341 refl] by simp

lemma noise_at_5461: "uint ((noise_next ^^ 5461) 1) = 51390"
  using noise_apply [OF noise_columns_12 noise_at_1365 refl] by simp

lemma noise_at_21845: "uint ((noise_next ^^ 21845) 1) = 13930"
  using noise_apply [OF noise_columns_14 noise_at_5461 refl] by simp

lemma noise_at_511: "uint ((noise_next ^^ 511) 1) = 6154"
  using noise_apply [OF noise_columns_8 noise_at_255 refl] by simp

lemma noise_at_1023: "uint ((noise_next ^^ 1023) 1) = 32911"
  using noise_apply [OF noise_columns_9 noise_at_511 refl] by simp

lemma noise_at_2047: "uint ((noise_next ^^ 2047) 1) = 36132"
  using noise_apply [OF noise_columns_10 noise_at_1023 refl] by simp

lemma noise_at_4095: "uint ((noise_next ^^ 4095) 1) = 55027"
  using noise_apply [OF noise_columns_11 noise_at_2047 refl] by simp

lemma noise_at_8191: "uint ((noise_next ^^ 8191) 1) = 40108"
  using noise_apply [OF noise_columns_12 noise_at_4095 refl] by simp

lemma noise_at_16383: "uint ((noise_next ^^ 16383) 1) = 53086"
  using noise_apply [OF noise_columns_13 noise_at_8191 refl] by simp

lemma noise_at_32767: "uint ((noise_next ^^ 32767) 1) = 2042"
  using noise_apply [OF noise_columns_14 noise_at_16383 refl] by simp

lemma noise_at_65535: "uint ((noise_next ^^ 65535) 1) = 1"
  using noise_apply [OF noise_columns_15 noise_at_32767 refl] by simp

section \<open>The order of the step\<close>

lemma int_prime_dvd:
  fixes p :: nat
  assumes "1 < p" and small: "\<forall>k \<in> set [2..int p - 1]. int p mod k \<noteq> 0" and "\<not> p dvd e"
  shows "coprime e p"
proof (rule coprimeI)
  fix c
  assume c: "c dvd e" "c dvd p"
  have "c \<noteq> p" using c(1) assms(3) by blast
  moreover have "c \<le> p" using c(2) assms(1) by (simp add: dvd_imp_le)
  ultimately have "c < p" by simp
  have "0 < c" using c(2) assms(1) by (metis dvd_0_left_iff gr0I not_one_less_zero)
  have "c = 1"
  proof (rule ccontr)
    assume "c \<noteq> 1"
    with \<open>0 < c\<close> \<open>c < p\<close> have "int c \<in> set [2..int p - 1]" by simp
    then have "int p mod int c \<noteq> 0" by (rule bspec [OF small])
    moreover have "int p mod int c = int (p mod c)" by (simp only: of_nat_mod)
    moreover have "p mod c = 0" using c(2) by (rule dvd_imp_mod_0)
    ultimately show False by simp
  qed
  then show "is_unit c" by simp
qed

lemma divisor_of_65535:
  fixes d :: nat
  assumes "d dvd 65535" "d \<noteq> 65535"
  shows "d dvd 21845 \<or> d dvd 13107 \<or> d dvd 3855 \<or> d dvd 255"
proof -
  obtain e where e: "65535 = d * e" using assms(1) by (auto simp: dvd_def)
  have pick: "d dvd q" if "p dvd e" "p * q = 65535" for p q
  proof -
    obtain k where "e = p * k" using \<open>p dvd e\<close> by (auto simp: dvd_def)
    then have "p * q = p * (d * k)" using e that(2) by (simp add: ac_simps)
    moreover have "p \<noteq> 0" using that(2) by (cases p) simp_all
    ultimately show ?thesis by simp
  qed
  show ?thesis
  proof (rule ccontr)
    assume none: "\<not> ?thesis"
    have "coprime e 3"
    proof (rule int_prime_dvd)
      show "\<not> 3 dvd e" using pick [of 3 21845] none by auto
      show "\<forall>k \<in> set [2..int 3 - 1]. int 3 mod k \<noteq> 0" by code_simp
    qed simp
    moreover have "coprime e 5"
    proof (rule int_prime_dvd)
      show "\<not> 5 dvd e" using pick [of 5 13107] none by auto
      show "\<forall>k \<in> set [2..int 5 - 1]. int 5 mod k \<noteq> 0" by code_simp
    qed simp
    moreover have "coprime e 17"
    proof (rule int_prime_dvd)
      show "\<not> 17 dvd e" using pick [of 17 3855] none by auto
      show "\<forall>k \<in> set [2..int 17 - 1]. int 17 mod k \<noteq> 0" by code_simp
    qed simp
    moreover have "coprime e 257"
    proof (rule int_prime_dvd)
      show "\<not> 257 dvd e" using pick [of 257 255] none by auto
      show "\<forall>k \<in> set [2..int 257 - 1]. int 257 mod k \<noteq> 0" by code_simp
    qed simp
    ultimately have "coprime e (3 * 5 * 17 * 257)" by (simp only: coprime_mult_right_iff)
    then have "coprime e 65535" by simp
    moreover have "e dvd 65535" unfolding e by (rule dvd_triv_right)
    ultimately have "e = 1" by (metis coprime_absorb_left nat_dvd_1_iff_1)
    then show False using e assms(2) by simp
  qed
qed

lemma funpow_dvd: "(f ^^ n) x = x \<Longrightarrow> n dvd m \<Longrightarrow> (f ^^ m) x = x"
  using funpow_mod_eq [where f = f and n = n and x = x and m = m] by simp

lemma noise_return: "(noise_next ^^ 65535) 1 = 1"
  using noise_at_65535 by (metis uint_1 word_uint_eqI)

lemma noise_no_divisor:
  "(noise_next ^^ 255) 1 \<noteq> 1" "(noise_next ^^ 3855) 1 \<noteq> 1" "(noise_next ^^ 13107) 1 \<noteq> 1"
  "(noise_next ^^ 21845) 1 \<noteq> 1"
  using noise_at_255 noise_at_3855 noise_at_13107 noise_at_21845 by (intro notI; simp)+

lemma noise_no_return:
  assumes "0 < d" "d < 65535"
  shows "(noise_next ^^ d) 1 \<noteq> 1"
proof
  assume "(noise_next ^^ d) 1 = 1"
  then have ex: "0 < d \<and> (noise_next ^^ d) 1 = 1" using assms(1) by blast
  define k where "k = (LEAST n. 0 < n \<and> (noise_next ^^ n) 1 = 1)"
  have k: "0 < k" "(noise_next ^^ k) 1 = 1"
    using LeastI [of "\<lambda>n. 0 < n \<and> (noise_next ^^ n) 1 = 1", OF ex] by (simp_all add: k_def)
  have le: "k \<le> d" using ex unfolding k_def by (rule Least_le)
  have "(noise_next ^^ (65535 mod k)) 1 = 1"
    using funpow_mod_eq [OF k(2), of 65535] noise_return by simp
  moreover have "65535 mod k < k" using k(1) by simp
  ultimately have "65535 mod k = 0"
    using not_less_Least [of "65535 mod k" "\<lambda>n. 0 < n \<and> (noise_next ^^ n) 1 = 1"]
    unfolding k_def [symmetric] by auto
  then have "k dvd 65535" by (rule mod_0_imp_dvd)
  moreover have "k \<noteq> 65535" using le assms(2) by simp
  ultimately show False
    using divisor_of_65535 [of k] funpow_dvd [OF k(2)] noise_no_divisor by blast
qed

lemma noise_zero: "(noise_next ^^ n) 0 = 0"
  using linear_zero [OF noise_power_linear] .

lemma card_nonzero: "card (- {0 :: u16}) = 65535"
  unfolding Compl_eq_Diff_UNIV by (simp add: card_Diff_singleton card_word)

lemma noise_orbit: "(\<lambda>n. (noise_next ^^ n) 1) ` {..<65535} = - {0}"
proof (rule card_subset_eq)
  have split: "(noise_next ^^ (65535 - j)) ((noise_next ^^ j) 1) = 1" if "j < 65535" for j
  proof -
    have "(noise_next ^^ (65535 - j)) ((noise_next ^^ j) 1) = (noise_next ^^ (65535 - j + j)) 1"
      by (simp only: funpow_add o_apply)
    also have "65535 - j + j = 65535" using that by simp
    finally show ?thesis by (simp only: noise_return)
  qed
  show "finite (- {0 :: u16})" by simp
  show "(\<lambda>n. (noise_next ^^ n) 1) ` {..<65535} \<subseteq> - {0}"
  proof
    fix y
    assume "y \<in> (\<lambda>n. (noise_next ^^ n) 1) ` {..<65535}"
    then obtain n where "n < 65535" "y = (noise_next ^^ n) 1" by blast
    then have "y \<noteq> 0" using split [of n] noise_zero by (metis zero_neq_one)
    then show "y \<in> - {0}" by simp
  qed
  have "inj_on (\<lambda>n. (noise_next ^^ n) 1) {..<65535}"
  proof (rule linorder_inj_onI)
    fix i j :: nat
    assume ij: "i < j" "i \<in> {..<65535}" "j \<in> {..<65535}"
    show "(noise_next ^^ i) 1 \<noteq> (noise_next ^^ j) 1"
    proof
      assume eq: "(noise_next ^^ i) 1 = (noise_next ^^ j) 1"
      have "(noise_next ^^ (65535 - j + i)) 1 = (noise_next ^^ (65535 - j)) ((noise_next ^^ i) 1)"
        by (simp only: funpow_add o_apply)
      then have ret: "(noise_next ^^ (65535 - j + i)) 1 = 1"
        using split [of j] ij(3) by (simp only: eq lessThan_iff)
      have "0 < 65535 - j + i" "65535 - j + i < 65535" using ij by auto
      from noise_no_return [OF this] ret show False by (rule notE)
    qed
  qed (rule linear)
  then have "card ((\<lambda>n. (noise_next ^^ n) 1) ` {..<65535}) = 65535" by (simp add: card_image)
  also have "\<dots> = card (- {0 :: u16})" by (simp add: card_nonzero)
  finally show "card ((\<lambda>n. (noise_next ^^ n) 1) ` {..<65535}) = card (- {0 :: u16})" .
qed

lemma noise_orbit_from:
  assumes "s \<noteq> 0"
  shows "(\<lambda>n. (noise_next ^^ n) s) ` {..<65535} = - {0}" and "(noise_next ^^ 65535) s = s"
proof -
  have "s \<in> (\<lambda>n. (noise_next ^^ n) 1) ` {..<65535}" using assms by (simp only: noise_orbit) simp
  then obtain m where m: "m < 65535" "s = (noise_next ^^ m) 1" by blast
  have shift: "(noise_next ^^ n) s = (noise_next ^^ ((n + m) mod 65535)) 1" for n
    unfolding m(2) funpow_mod_eq [OF noise_return] by (simp only: funpow_add o_apply)
  show "(noise_next ^^ 65535) s = s" using shift [of 65535] m by simp
  show "(\<lambda>n. (noise_next ^^ n) s) ` {..<65535} = - {0}"
  proof
    show "(\<lambda>n. (noise_next ^^ n) s) ` {..<65535} \<subseteq> - {0}"
    proof
      fix y
      assume "y \<in> (\<lambda>n. (noise_next ^^ n) s) ` {..<65535}"
      then obtain n where "y = (noise_next ^^ ((n + m) mod 65535)) 1" using shift by blast
      moreover have "(n + m) mod 65535 \<in> {..<65535}" by simp
      ultimately have "y \<in> (\<lambda>n. (noise_next ^^ n) 1) ` {..<65535}" by (rule image_eqI)
      then show "y \<in> - {0}" by (simp only: noise_orbit)
    qed
    show "- {0} \<subseteq> (\<lambda>n. (noise_next ^^ n) s) ` {..<65535}"
    proof
      fix y :: u16
      assume "y \<in> - {0}"
      then have "y \<in> (\<lambda>n. (noise_next ^^ n) 1) ` {..<65535}" by (simp only: noise_orbit)
      then obtain j where j: "j < 65535" "y = (noise_next ^^ j) 1" by blast
      let ?n = "(j + (65535 - m)) mod 65535"
      have "(?n + m) mod 65535 = (j + 65535) mod 65535" using m(1) by (simp add: mod_simps)
      then have "(noise_next ^^ ?n) s = y" using j by (simp add: shift)
      moreover have "?n \<in> {..<65535}" by simp
      ultimately show "y \<in> (\<lambda>n. (noise_next ^^ n) s) ` {..<65535}" by (metis image_eqI)
    qed
  qed
qed

lemma noise_steps:
  "noise_state (((\<lambda>g. snd (NoiseGenerator_step g)) ^^ n) g) = (noise_next ^^ n) (noise_state g)"
  by (induction n) (simp_all add: NoiseGenerator_step_def Let_def)

section \<open>Properties\<close>

text \<open>
  C23. The noise generator has the full period: from every seed (zero included, which is replaced)
  its first 65535 states are exactly the nonzero 16-bit values, each once, and then it repeats.
\<close>
theorem noise_full_period:
  "(let state_after = (\<lambda>n. noise_state (((\<lambda>g. snd (NoiseGenerator_step g)) ^^ n) (NoiseGenerator_new seed)))
    in state_after ` {..<65535} = - {0} \<and> inj_on state_after {..<65535} \<and>
       state_after 65535 = state_after 0)"
proof -
  let ?s = "noise_state (NoiseGenerator_new seed)"
  have s: "?s \<noteq> 0" by (simp add: NoiseGenerator_new_def)
  note orbit = noise_orbit_from [OF s]
  have "card ((\<lambda>n. (noise_next ^^ n) ?s) ` {..<65535}) = card {..<65535 :: nat}"
    unfolding orbit(1) by (simp add: card_nonzero)
  then have "inj_on (\<lambda>n. (noise_next ^^ n) ?s) {..<65535}" by (intro eq_card_imp_inj_on) simp_all
  then show ?thesis using orbit by (simp add: noise_steps Let_def)
qed

end
