(* ===== verification/Spec2Isabelle.thy ===== *)
theory Spec2Isabelle
  imports Psx_Exe Psf2_Overlay Sys_Memory Kernel_Reach Clock Scheduler Ps1_Irq Ps2_Irq Ps1_Timers Ps2_Timers R3000_Proofs Ps1_Memory Ps1_Dma Iop_Memory Spu_Envelope Spu_Common Spu_Noise
begin

text \<open>
  UPSE-NG plays PSF and PSF2 music: a file is parsed and its libraries are loaded, a PlayStation or
  a PlayStation 2 I/O processor with its sound hardware is emulated, firmware calls are served by
  high-level emulation, and the sound units' samples are the output. This development models the
  parts of the Rust workspace that carry that logic, each translated from its source, and proves
  what makes them correct. Paths below are under \<open>src/crates\<close>.

  \<^bold>\<open>The program.\<close> \<open>formats\<close> reads containers, executables and modules. \<open>machine/ps1\<close> and
  \<open>machine/ps2\<close> own one state per device and drive them all from one clock: the next event of the
  \<open>scheduler\<close> bounds how long the \<open>r3000\<close> interpreter runs, the devices advance by the ticks
  that passed, and they raise bits in the interrupt controller, which feeds the CPU's interrupt
  line. On the PS2 the guest's firmware calls enter \<open>hle/ps2/bios\<close>, whose kernel schedules the guest's
  threads. The spine of the development follows these dependencies: what a device promises to the
  driver of the machine (time may be cut anywhere, interrupts are latched and never lost) is stated
  once as a locale and discharged by each device.

  \<^bold>\<open>Conventions\<close> (\<open>Upse_Prelude\<close>). Unsigned integers of 8, 16 and 32 bits are words; 64-bit
  quantities are naturals whose overflow is checked where the source checks it; signed values are
  integers with the saturation or range checks written out. A \<open>Result\<close> is a sum with \<open>Inl\<close> for
  \<open>Err\<close>; a method on \<open>&mut self\<close> returns the new state also when it fails. The names are the
  source's, with \<open>Type_method\<close> for \<open>Type::method\<close>. \<open>Result_State\<close> is the state-and-error
  monad of the longer methods with its weakest preconditions, and \<open>Rust_Text\<close> the strings, bytes
  and UTF-8 of the standard library.

  \<^bold>\<open>Time\<close> (\<open>support/clock\<close>, \<open>support/scheduler\<close>). \<open>Clock\<close>: deadlines with checked arithmetic,
  and the rate converter, which never drifts over any split of an interval. \<open>Scheduler\<close>: the
  replaceable event queue; its two indexes agree in every reachable state, it refines a map from
  events to deadlines, and the dispatch loop delivers the due events in order.

  \<^bold>\<open>Interrupts and timers\<close> (\<open>hw/ps1/irq\<close>, \<open>hw/ps2/irq\<close>, \<open>hw/ps1/timers\<close>, \<open>hw/ps2/timers\<close>). \<open>Interrupt_Line\<close> is the
  contract of an interrupt controller; \<open>Ps1_Irq\<close> and \<open>Ps2_Irq\<close> interpret it and are refinements
  of independent latches. \<open>Ps1_Timers\<close>: the root counters; jumping from event to event equals
  counting clock by clock, and any split of an interval gives the same counters and interrupts.
  \<open>Ps2_Timers\<close>: the six IOP counters, whose batch advance is so many single cycles, and the
  refresh clock, which is independent of how time is cut. \<open>Ps1_Dma\<close> (\<open>hw/ps1/dma\<close>): the sound
  and the MDEC input channel; a transfer moves exactly its words, a completion is never stale, and the interrupt is
  requested on the rising edges of the aggregate flag only.

  \<^bold>\<open>Processor and memory\<close> (\<open>hw/shared/r3000\<close>, \<open>hw/ps1/memory\<close>, \<open>hw/ps2/iop-memory\<close>). \<open>R3000\<close> is the whole interpreter,
  over a bus that is a parameter; \<open>R3000_Proofs\<close> has its invariant, precise exceptions, atomic
  faults, multiplication and division. \<open>Ps1_Memory\<close> and \<open>Iop_Memory\<close> are the buses it runs on
  (their shared arithmetic is in \<open>Bus_Address\<close>): stored words read back through every mirror, a
  refused store changes nothing, and the unaligned access pairs compose.

  \<^bold>\<open>Sound primitives\<close> (\<open>hw/shared/spu-common\<close>). \<open>Spu_Envelope\<close>, \<open>Spu_Common\<close> and \<open>Spu_Noise\<close>:
  envelopes, ADPCM blocks, pitch, fixed point, interpolation, the circular effect address and the noise
  generator with its full period.

  \<^bold>\<open>PSF files\<close> (\<open>formats/shared/psf\<close>, \<open>formats/ps1/psx-exe\<close>, \<open>formats/ps2/vfs\<close>). \<open>Psf_Container\<close>: the container,
  its tags, and the builder it is the inverse of; CRC-32 and zlib are parameters. \<open>Psf_Duration\<close>: the
  grammar of durations, parsed exactly. \<open>Psf_Metadata\<close>: the known tags. \<open>Psf_Load\<close>: the traversal
  of library tags; a plan is the overlay order of one bounded acyclic tree. \<open>Psx_Exe\<close>: the checked
  executables and the memory image, the last-writer-wins overlay of the plan. \<open>Psf2_Vfs\<close>: the
  file system of a PSF2 set. \<open>Psf2_Overlay\<close>: what a layer's bytes mean apart from the parser,
  the overlay of the layers' trees within every limit, and the lookup of a path in every spelling.

  \<^bold>\<open>PS2 firmware services\<close> (\<open>hle/ps2/bios\<close>). \<open>Bios_Types\<close>: result codes, ranges and guest memory.
  \<open>Fixed_Table\<close>: handle tables. \<open>Sys_Memory\<close>: the allocator. \<open>Cpu_Context\<close>: saved registers.
  \<open>Kernel\<close>: threads, semaphores, event flags, message boxes, pools, alarms and time. Its invariant
  is in \<open>Kernel_Proofs\<close> and kept by every operation (\<open>Kernel_Ops\<close>, \<open>Kernel_Objects\<close>, where the
  five kinds of objects interpret one locale, \<open>Kernel_Flags\<close>, \<open>Kernel_Pools\<close>, \<open>Kernel_Time\<close>);
  \<open>Kernel_Reach\<close> closes it under every sequence of calls.

  \<^bold>\<open>Bounds.\<close> Loops whose end is not structural are functions with a proved measure, or a
  \<open>partial_function\<close> into \<open>option\<close> with a theorem that it returns; no fuel is used. The
  recursions of the loader and of the directory tables end by the depth limit, the decompression loop by the output limit, the
  timers' loop by the ticks left, the kernel's advance by its pending events.

  \<^bold>\<open>Not modelled.\<close>
  The PS1 firmware emulation (\<open>hle/ps1/bios\<close>) and the two machines (\<open>machine/ps1\<close>,
  \<open>machine/ps2\<close>), which compose every device, are not modelled; the contracts they rely on are. The
  IRX loader, the module table and the dispatch of firmware calls
  (\<open>formats/ps2/irx\<close>, \<open>module.rs\<close> and most of \<open>dispatch.rs\<close>) and the
  services of \<open>hle/ps2/iop-services\<close> are not modelled but for their error codes. Of the devices the
  DMA controller of the PS2, the sound units with their reverb, and the register files of the
  idle devices (\<open>gpu\<close>, \<open>mdec\<close>, \<open>cdrom\<close>, \<open>ssbus\<close>) are not modelled. The floating-point output stage (\<open>support/audio\<close>,
  \<open>support/audio-types\<close>), the public and the C interfaces (\<open>api\<close>), the plugins, tools,
  benchmarks and tests hold no protocol of their own and are left out; so are \<open>FileResolver\<close>
  (file input), caller-supplied release actions and diagnostics text.
\<close>

end
